(* ===== verification/Prelude.thy ===== *)
theory Prelude
  imports Complex_Main "HOL-Library.Signed_Division"
begin

text \<open>
  Shared vocabulary of the development.

  Go values are modelled as follows.  A signed or unsigned machine integer is an \<open>int\<close> (or
  \<open>nat\<close>) inside its range; every operation of the source that can leave the range for some
  argument the code admits is followed by an explicit wrap (\<open>i64\<close>, \<open>i32\<close>, \<open>u8\<close>, ...), so overflow
  behaves as in the code.  Go's \<open>/\<close> and \<open>%\<close> truncate towards zero: they are \<open>sdiv\<close> and \<open>smod\<close> of
  HOL-Library.Signed_Division.  A Go \<open>string\<close> or \<open>[]byte\<close> is a list of byte-sized characters.  A Go
  result pair \<open>(value, error)\<close> is a sum: \<open>Inl\<close> an error, \<open>Inr\<close> the value.
\<close>

named_theorems range_simps \<open>definitions of the integer ranges and wraps\<close>
named_theorems result_simps \<open>characterisations of results of operations that may fail\<close>

section \<open>Results that may be errors\<close>

definition bindE :: "'e + 'a \<Rightarrow> ('a \<Rightarrow> 'e + 'b) \<Rightarrow> 'e + 'b" where
  "bindE m f = (case m of Inl e \<Rightarrow> Inl e | Inr x \<Rightarrow> f x)"

lemma bindE_Inl [simp]: "bindE (Inl e) f = Inl e"
  by (simp add: bindE_def)

lemma bindE_Inr [simp]: "bindE (Inr x) f = f x"
  by (simp add: bindE_def)

lemma bindE_Inr_iff [result_simps]: "bindE m f = Inr y \<longleftrightarrow> (\<exists>x. m = Inr x \<and> f x = Inr y)"
  by (cases m) auto

lemma bindE_Inl_iff [result_simps]:
  "bindE m f = Inl e \<longleftrightarrow> m = Inl e \<or> (\<exists>x. m = Inr x \<and> f x = Inl e)"
  by (cases m) auto

lemma bindE_cong [fundef_cong]:
  "m = m' \<Longrightarrow> (\<And>x. m' = Inr x \<Longrightarrow> f x = f' x) \<Longrightarrow> bindE m f = bindE m' f'"
  by (cases m') auto

lemma bindE_assoc: "bindE (bindE m f) g = bindE m (\<lambda>x. bindE (f x) g)"
  by (cases m) auto

lemma bindE_if: "bindE (if b then m else n) f = (if b then bindE m f else bindE n f)"
  by simp

definition is_ok :: "'e + 'a \<Rightarrow> bool" where
  "is_ok m = (case m of Inl _ \<Rightarrow> False | Inr _ \<Rightarrow> True)"

lemma is_ok_simps [simp]: "is_ok (Inr x)" "\<not> is_ok (Inl e)"
  by (simp_all add: is_ok_def)

lemma is_ok_iff: "is_ok m \<longleftrightarrow> (\<exists>x. m = Inr x)"
  by (cases m) auto

text \<open>A loop over a list that stops at the first error.\<close>

fun mapE :: "('a \<Rightarrow> 'e + 'b) \<Rightarrow> 'a list \<Rightarrow> 'e + 'b list" where
  "mapE f [] = Inr []"
| "mapE f (x # xs) = bindE (f x) (\<lambda>y. bindE (mapE f xs) (\<lambda>ys. Inr (y # ys)))"

lemma mapE_map: "(\<And>x. x \<in> set xs \<Longrightarrow> f x = Inr (g x)) \<Longrightarrow> mapE f xs = Inr (map g xs)"
  by (induction xs) auto

lemma mapE_Inr_length: "mapE f xs = Inr ys \<Longrightarrow> length ys = length xs"
  by (induction xs arbitrary: ys) (auto simp: bindE_Inr_iff)

lemma mapE_Inr_iff: "mapE f xs = Inr ys \<longleftrightarrow> list_all2 (\<lambda>x y. f x = Inr y) xs ys"
  by (induction xs arbitrary: ys) (auto simp: bindE_Inr_iff list_all2_Cons1)

lemma mapE_Inl: "mapE f xs = Inl e \<Longrightarrow> \<exists>x \<in> set xs. f x = Inl e"
  by (induction xs) (auto simp: bindE_Inl_iff)

section \<open>Machine integers\<close>

definition in64 :: "int \<Rightarrow> bool" where
  "in64 x \<longleftrightarrow> -9223372036854775808 \<le> x \<and> x \<le> 9223372036854775807"

definition i64 :: "int \<Rightarrow> int" where
  "i64 x = (x + 9223372036854775808) mod 18446744073709551616 - 9223372036854775808"

definition in32 :: "int \<Rightarrow> bool" where
  "in32 x \<longleftrightarrow> -2147483648 \<le> x \<and> x \<le> 2147483647"

definition i32 :: "int \<Rightarrow> int" where
  "i32 x = (x + 2147483648) mod 4294967296 - 2147483648"

definition u64 :: "int \<Rightarrow> int" where
  "u64 x = x mod 18446744073709551616"

definition u32 :: "int \<Rightarrow> int" where
  "u32 x = x mod 4294967296"

definition u8 :: "int \<Rightarrow> int" where
  "u8 x = x mod 256"

lemmas in_range_defs [range_simps] = in64_def in32_def

lemma i64_id [simp]: "in64 x \<Longrightarrow> i64 x = x"
  by (simp add: in64_def i64_def)

lemma i32_id [simp]: "in32 x \<Longrightarrow> i32 x = x"
  by (simp add: in32_def i32_def)

lemma in64_i64 [simp]: "in64 (i64 x)"
proof -
  have "0 \<le> (x + 9223372036854775808) mod 18446744073709551616"
    and "(x + 9223372036854775808) mod 18446744073709551616 < 18446744073709551616"
    by simp_all
  then show ?thesis unfolding in64_def i64_def by linarith
qed

lemma in32_i32 [simp]: "in32 (i32 x)"
proof -
  have "0 \<le> (x + 2147483648) mod 4294967296" and "(x + 2147483648) mod 4294967296 < 4294967296"
    by simp_all
  then show ?thesis unfolding in32_def i32_def by linarith
qed

lemma u8_id [simp]: "0 \<le> x \<Longrightarrow> x < 256 \<Longrightarrow> u8 x = x"
  by (simp add: u8_def)

lemma u32_id [simp]: "0 \<le> x \<Longrightarrow> x < 4294967296 \<Longrightarrow> u32 x = x"
  by (simp add: u32_def)

lemma u64_id [simp]: "0 \<le> x \<Longrightarrow> x < 18446744073709551616 \<Longrightarrow> u64 x = x"
  by (simp add: u64_def)

lemma i64_wrap: obtains k where "i64 x = x + k * 18446744073709551616"
proof -
  have "i64 x = x + (- ((x + 9223372036854775808) div 18446744073709551616)) * 18446744073709551616"
    unfolding i64_def by (simp add: minus_div_mult_eq_mod [symmetric])
  then show ?thesis by (rule that)
qed

lemma i64_u64 [simp]: "i64 (u64 x) = i64 x"
  by (simp add: i64_def u64_def mod_simps)

lemma i32_u32 [simp]: "i32 (u32 x) = i32 x"
  by (simp add: i32_def u32_def mod_simps)

text \<open>A sum of an in-range value and one that cannot wrap twice is decided by its sign.\<close>

lemma i64_add_cases:
  assumes "in64 a" "in64 b"
  shows "i64 (a + b) =
    (if a + b > 9223372036854775807 then a + b - 18446744073709551616
     else if a + b < -9223372036854775808 then a + b + 18446744073709551616 else a + b)"
proof -
  obtain k where k: "i64 (a + b) = a + b + k * 18446744073709551616" by (rule i64_wrap)
  have "in64 (i64 (a + b))" by simp
  with k assms have "-2 < k" "k < 2" unfolding in64_def by linarith+
  then have "k = -1 \<or> k = 0 \<or> k = 1" by linarith
  with k assms \<open>in64 (i64 (a + b))\<close> show ?thesis unfolding in64_def by (elim disjE) simp_all
qed

section \<open>Go's integer division\<close>

lemma sdiv_nonneg: "0 \<le> a \<Longrightarrow> 0 < b \<Longrightarrow> a sdiv b = a div (b::int)"
  by (cases "a = 0") (simp_all add: signed_divide_int_def)

lemma smod_nonneg: "0 \<le> a \<Longrightarrow> 0 < b \<Longrightarrow> a smod b = a mod (b::int)"
  by (cases "a = 0") (simp_all add: signed_modulo_int_def)

lemma sdiv_neg: "a < 0 \<Longrightarrow> 0 < b \<Longrightarrow> a sdiv b = - ((- a) div (b::int))"
  by (simp add: signed_divide_int_def)

lemma smod_neg: "a < 0 \<Longrightarrow> 0 < b \<Longrightarrow> a smod b = - ((- a) mod (b::int))"
  by (simp add: signed_modulo_int_def)

section \<open>Text\<close>

text \<open>\<open>split_on\<close> is \<open>strings.Split\<close> on a one-byte separator, \<open>trim_right\<close> is \<open>strings.TrimRight\<close> on a
  one-byte cutset, \<open>index_of\<close> and \<open>last_index_of\<close> are \<open>strings.IndexByte\<close> and \<open>LastIndexByte\<close> (\<open>None\<close>
  for -1).\<close>

fun split_on :: "'a \<Rightarrow> 'a list \<Rightarrow> 'a list list" where
  "split_on c [] = [[]]"
| "split_on c (x # xs) =
     (if x = c then [] # split_on c xs
      else case split_on c xs of [] \<Rightarrow> [[x]] | p # ps \<Rightarrow> (x # p) # ps)"

definition trim_right :: "'a \<Rightarrow> 'a list \<Rightarrow> 'a list" where
  "trim_right c s = rev (dropWhile (\<lambda>x. x = c) (rev s))"

definition index_where :: "('a \<Rightarrow> bool) \<Rightarrow> 'a list \<Rightarrow> nat option" where
  "index_where p s = (let n = length (takeWhile (\<lambda>x. \<not> p x) s) in if n < length s then Some n else None)"

definition last_index_where :: "('a \<Rightarrow> bool) \<Rightarrow> 'a list \<Rightarrow> nat option" where
  "last_index_where p s =
     (let n = length (takeWhile (\<lambda>x. \<not> p x) (rev s)) in if n < length s then Some (length s - Suc n) else None)"

lemma split_on_none: "c \<notin> set s \<Longrightarrow> split_on c s = [s]"
  by (induction s) auto

lemma split_on_append: "c \<notin> set s \<Longrightarrow> split_on c (s @ c # t) = s # split_on c t"
  by (induction s) auto

lemma split_on_length: "length (split_on c s) = Suc (length (filter (\<lambda>x. x = c) s))"
proof (induction s)
  case (Cons x s)
  then show ?case by (cases "split_on c s") auto
qed simp

lemma trim_right_replicate:
  "trim_right c s @ replicate (length s - length (trim_right c s)) c = s"
proof -
  have "takeWhile (\<lambda>x. x = c) (rev s) = replicate (length s - length (trim_right c s)) c"
  proof (rule replicate_eqI)
    show "length (takeWhile (\<lambda>x. x = c) (rev s)) = length s - length (trim_right c s)"
      using takeWhile_dropWhile_id [of "\<lambda>x. x = c" "rev s"]
      by (metis add_diff_cancel_right' length_append length_rev trim_right_def)
  qed (auto dest: set_takeWhileD)
  then have "rev s = replicate (length s - length (trim_right c s)) c @ rev (trim_right c s)"
    using takeWhile_dropWhile_id [of "\<lambda>x. x = c" "rev s"] by (simp add: trim_right_def)
  then have "s = rev (replicate (length s - length (trim_right c s)) c @ rev (trim_right c s))"
    by (metis rev_rev_ident)
  then show ?thesis by (simp only: rev_append rev_rev_ident rev_replicate)
qed

lemma set_trim_right: "x \<in> set (trim_right c s) \<Longrightarrow> x \<in> set s"
  by (auto simp: trim_right_def dest: set_dropWhileD)

lemma length_trim_right: "length (trim_right c s) \<le> length s"
  by (metis trim_right_def length_dropWhile_le length_rev)

lemma index_where_append:
  "\<forall>x \<in> set s. \<not> p x \<Longrightarrow> p c \<Longrightarrow> index_where p (s @ c # t) = Some (length s)"
  by (simp add: index_where_def)

lemma index_where_none: "index_where p s = None \<longleftrightarrow> (\<forall>x \<in> set s. \<not> p x)"
proof -
  have "length (takeWhile (\<lambda>x. \<not> p x) s) < length s \<longleftrightarrow> \<not> (\<forall>x \<in> set s. \<not> p x)"
    by (metis (full_types) length_takeWhile_le nat_less_le takeWhile_eq_all_conv
        takeWhile_eq_take take_all_iff)
  then show ?thesis by (auto simp: index_where_def Let_def)
qed

lemma last_index_where_append:
  "\<forall>x \<in> set t. \<not> p x \<Longrightarrow> p c \<Longrightarrow> last_index_where p (s @ c # t) = Some (length s)"
  by (simp add: last_index_where_def takeWhile_append)

lemma last_index_where_none: "last_index_where p s = None \<longleftrightarrow> (\<forall>x \<in> set s. \<not> p x)"
  using index_where_none [of p "rev s"]
  by (auto simp: last_index_where_def index_where_def Let_def split: if_splits)

section \<open>Decimal text\<close>

text \<open>\<open>digit_char\<close> and \<open>nat_text\<close> are the digits and the base-ten text of \<open>strconv\<close> and of the
  \<open>%d\<close> verb; \<open>pad0\<close> is the zero padding of \<open>%0nd\<close>.\<close>

definition digit_char :: "nat \<Rightarrow> char" where
  "digit_char n = char_of (48 + n)"

fun nat_text :: "nat \<Rightarrow> string" where
  "nat_text n = (if n < 10 then [digit_char n] else nat_text (n div 10) @ [digit_char (n mod 10)])"

declare nat_text.simps [simp del]

definition pad0 :: "nat \<Rightarrow> string \<Rightarrow> string" where
  "pad0 w s = replicate (w - length s) (CHR ''0'') @ s"

definition is_digit :: "char \<Rightarrow> bool" where
  "is_digit c \<longleftrightarrow> 48 \<le> (of_char c :: nat) \<and> (of_char c :: nat) \<le> 57"

definition digit_val :: "char \<Rightarrow> nat" where
  "digit_val c = of_char c - 48"

fun digits_val :: "nat \<Rightarrow> string \<Rightarrow> nat" where
  "digits_val acc [] = acc"
| "digits_val acc (c # cs) = digits_val (10 * acc + digit_val c) cs"

lemma of_char_digit_char: "n < 10 \<Longrightarrow> of_char (digit_char n) = (48 + n :: nat)"
  by (simp add: digit_char_def of_char_of)

lemma is_digit_digit_char [simp]: "n < 10 \<Longrightarrow> is_digit (digit_char n)"
  by (simp add: is_digit_def of_char_digit_char)

lemma digit_val_digit_char [simp]: "n < 10 \<Longrightarrow> digit_val (digit_char n) = n"
  by (simp add: digit_val_def of_char_digit_char)

lemma digit_val_less: "is_digit c \<Longrightarrow> digit_val c < 10"
  by (auto simp: is_digit_def digit_val_def)

lemma digits_val_append: "digits_val acc (xs @ ys) = digits_val (digits_val acc xs) ys"
  by (induction xs arbitrary: acc) auto

lemma digits_val_zeros [simp]: "digits_val 0 (replicate n (CHR ''0'') @ s) = digits_val 0 s"
  by (induction n) (auto simp: digit_val_def)

lemma digits_val_nat_text [simp]: "digits_val 0 (nat_text n) = n"
proof (induction n rule: nat_text.induct)
  case (1 n)
  then show ?case
    by (subst nat_text.simps) (auto simp: digits_val_append)
qed

lemma nat_text_digits: "\<forall>c \<in> set (nat_text n). is_digit c"
proof (induction n rule: nat_text.induct)
  case (1 n)
  then show ?case by (subst nat_text.simps) auto
qed

lemma nat_text_nonempty [simp]: "nat_text n \<noteq> []"
  by (subst nat_text.simps) simp

lemma length_nat_text_le: "n < 10 ^ k \<Longrightarrow> 0 < k \<Longrightarrow> length (nat_text n) \<le> k"
proof (induction k arbitrary: n)
  case 0
  then show ?case by simp
next
  case (Suc k)
  show ?case
  proof (cases "n < 10")
    case True
    then show ?thesis by (subst nat_text.simps) simp
  next
    case False
    with Suc.prems have "n div 10 < 10 ^ k" by (simp add: less_mult_imp_div_less)
    moreover from False Suc.prems have "0 < k" by (cases k) auto
    ultimately have "length (nat_text (n div 10)) \<le> k" by (rule Suc.IH)
    with False show ?thesis by (subst nat_text.simps) simp
  qed
qed

lemma length_nat_text_ge: "10 ^ k \<le> n \<Longrightarrow> k < length (nat_text n)"
proof (induction k arbitrary: n)
  case 0
  then show ?case by (subst nat_text.simps) simp
next
  case (Suc k)
  then have "10 ^ k \<le> n div 10" by (simp add: less_eq_div_iff_mult_less_eq)
  then have "k < length (nat_text (n div 10))" by (rule Suc.IH)
  moreover have "\<not> n < 10" using Suc.prems
    by (metis le_trans linorder_not_le numeral_nat(7) one_le_numeral one_le_power power_Suc
        mult.right_neutral mult_le_mono2)
  ultimately show ?case by (subst nat_text.simps) simp
qed

lemma digits_val_pad0 [simp]: "digits_val 0 (pad0 w s) = digits_val 0 s"
  by (simp add: pad0_def)

lemma pad0_digits: "\<forall>c \<in> set s. is_digit c \<Longrightarrow> \<forall>c \<in> set (pad0 w s). is_digit c"
  by (auto simp: pad0_def is_digit_def)

lemma length_pad0: "length (pad0 w s) = max w (length s)"
  by (simp add: pad0_def)

lemma length_pad0_nat_text: "n < 10 ^ w \<Longrightarrow> 0 < w \<Longrightarrow> length (pad0 w (nat_text n)) = w"
  using length_nat_text_le [of n w] by (simp add: length_pad0)

end
