(* ===== verification/Temporal_Arith.thy ===== *)
theory Temporal_Arith
  imports Prelude
begin

text \<open>
  The arithmetic helpers of \<open>internal/domain/temporal/errors.go\<close>: the two sentinel errors, floor
  division and the overflow-checked \<open>int64\<close> operations.  The lemmas show that the checked operations
  are exact: they return the mathematical result when it is an \<open>int64\<close> and \<open>ErrOverflow\<close> otherwise.
\<close>

datatype terror = ErrInvalid | ErrOverflow

definition MinYear :: int where "MinYear = -999999999"
definition MaxYear :: int where "MaxYear = 999999999"

definition nanosecondsPerSecond :: int where "nanosecondsPerSecond = 1000000000"
definition secondsPerDay :: int where "secondsPerDay = 86400"
definition nanosecondsPerDay :: int where "nanosecondsPerDay = secondsPerDay * nanosecondsPerSecond"

lemmas unit_defs [range_simps] =
  MinYear_def MaxYear_def nanosecondsPerSecond_def secondsPerDay_def nanosecondsPerDay_def

definition compareInt64 :: "int \<Rightarrow> int \<Rightarrow> int" where
  "compareInt64 left right = (if left < right then -1 else if left > right then 1 else 0)"

definition floorDiv :: "int \<Rightarrow> int \<Rightarrow> int" where
  "floorDiv value divisor =
     (let quotient = value sdiv divisor
      in if value smod divisor < 0 then quotient - 1 else quotient)"

definition floorMod :: "int \<Rightarrow> int \<Rightarrow> int" where
  "floorMod value divisor =
     (let result = value smod divisor
      in if result < 0 then result + divisor else result)"

definition checkedAdd :: "int \<Rightarrow> int \<Rightarrow> terror + int" where
  "checkedAdd left right =
     (let result = i64 (left + right)
      in if right > 0 \<and> result < left \<or> right < 0 \<and> result > left
         then Inl ErrOverflow else Inr result)"

definition checkedSub :: "int \<Rightarrow> int \<Rightarrow> terror + int" where
  "checkedSub left right =
     (if right = -9223372036854775808
      then if left \<ge> 0 then Inl ErrOverflow else Inr (i64 (left - right))
      else checkedAdd left (i64 (- right)))"

definition checkedMul :: "int \<Rightarrow> int \<Rightarrow> terror + int" where
  "checkedMul left right =
     (if left = 0 \<or> right = 0 then Inr 0
      else if left = -1 \<and> right = -9223372036854775808 \<or>
              right = -1 \<and> left = -9223372036854775808 then Inl ErrOverflow
      else let result = i64 (left * right)
           in if result sdiv right \<noteq> left then Inl ErrOverflow else Inr result)"

section \<open>Floor division is the library's division\<close>

lemma floorDiv_eq [simp]: "0 < d \<Longrightarrow> floorDiv v d = v div d"
proof (cases "0 \<le> v")
  case False
  assume "0 < d"
  with False have v: "v sdiv d = - ((- v) div d)" "v smod d = - ((- v) mod d)"
    by (simp_all add: sdiv_neg smod_neg)
  show ?thesis
  proof (cases "(- v) mod d = 0")
    case True
    then have "v = - ((- v) div d) * d" using minus_div_mult_eq_mod [of "- v" d] by linarith
    with \<open>0 < d\<close> have "v div d = - ((- v) div d)" by (metis less_irrefl nonzero_mult_div_cancel_right)
    with True v show ?thesis by (simp add: floorDiv_def)
  next
    case False
    with \<open>0 < d\<close> have "0 < (- v) mod d" by (simp add: le_neq_trans)
    moreover have "v div d = - ((- v) div d) - 1"
      using False \<open>0 < d\<close> zdiv_zminus1_eq_if [of d "- v"] by simp
    ultimately show ?thesis by (simp add: floorDiv_def v)
  qed
qed (auto simp: floorDiv_def sdiv_nonneg smod_nonneg Let_def not_less)

lemma floorMod_eq [simp]: "0 < d \<Longrightarrow> floorMod v d = v mod d"
proof (cases "0 \<le> v")
  case False
  assume "0 < d"
  with False have v: "v smod d = - ((- v) mod d)" by (simp add: smod_neg)
  show ?thesis
  proof (cases "(- v) mod d = 0")
    case True
    then have "v mod d = 0" by (simp add: zmod_zminus1_eq_if [of "- v" d, simplified])
    with True v show ?thesis by (simp add: floorMod_def)
  next
    case False
    with \<open>0 < d\<close> have "0 < (- v) mod d" by (simp add: le_neq_trans)
    with False \<open>0 < d\<close> show ?thesis
      using zmod_zminus1_eq_if [of "- v" d] by (simp add: floorMod_def v)
  qed
qed (auto simp: floorMod_def smod_nonneg Let_def not_less)

lemma compareInt64_iff [simp]:
  "compareInt64 a b = 0 \<longleftrightarrow> a = b" "compareInt64 a b = -1 \<longleftrightarrow> a < b" "compareInt64 a b = 1 \<longleftrightarrow> b < a"
  by (auto simp: compareInt64_def)

lemma compareInt64_sgn: "compareInt64 a b = sgn (a - b)"
  by (simp add: compareInt64_def)

section \<open>Exactness of the checked operations\<close>

lemma checkedAdd_exact:
  assumes "in64 a" "in64 b"
  shows "checkedAdd a b = (if in64 (a + b) then Inr (a + b) else Inl ErrOverflow)"
  using assms by (simp add: checkedAdd_def i64_add_cases Let_def) (auto simp: in64_def)

lemma checkedSub_exact:
  assumes "in64 a" "in64 b"
  shows "checkedSub a b = (if in64 (a - b) then Inr (a - b) else Inl ErrOverflow)"
proof (cases "b = -9223372036854775808")
  case True
  with assms show ?thesis by (auto simp: checkedSub_def in64_def intro!: i64_id)
next
  case False
  with assms have "in64 (- b)" by (simp add: in64_def)
  with False assms show ?thesis by (simp add: checkedSub_def checkedAdd_exact)
qed

lemma sdiv_mult_cancel: "(r::int) \<noteq> 0 \<Longrightarrow> (l * r) sdiv r = l"
proof -
  assume r: "r \<noteq> 0"
  then have "(l * r) sdiv r = (sgn r * sgn r) * (sgn l * \<bar>l\<bar>)"
    by (simp add: signed_divide_int_def abs_mult sgn_mult)
  also have "\<dots> = l" using r by (simp add: sgn_mult_abs sgn_if)
  finally show ?thesis .
qed

lemma sdiv_remainder: "(r::int) \<noteq> 0 \<Longrightarrow> \<bar>q - (q sdiv r) * r\<bar> < \<bar>r\<bar>"
proof -
  assume "r \<noteq> 0"
  then have "\<bar>q smod r\<bar> < \<bar>r\<bar>" by (simp add: signed_modulo_int_def abs_mult)
  moreover have "q - (q sdiv r) * r = q smod r"
    using sdiv_mult_smod_eq [of q r] by linarith
  ultimately show ?thesis by simp
qed

lemma checkedMul_exact:
  assumes a: "in64 a" and b: "in64 b"
  shows "checkedMul a b = (if in64 (a * b) then Inr (a * b) else Inl ErrOverflow)"
proof (cases "a = 0 \<or> b = 0 \<or> a = -1 \<and> b = -9223372036854775808 \<or> b = -1 \<and> a = -9223372036854775808")
  case True
  then show ?thesis by (auto simp: checkedMul_def in64_def)
next
  case False
  then have b0: "b \<noteq> 0" by simp
  show ?thesis
  proof (cases "in64 (a * b)")
    case True
    with False b0 show ?thesis by (simp add: checkedMul_def sdiv_mult_cancel)
  next
    case out: False
    obtain k where k: "i64 (a * b) = a * b + k * 18446744073709551616" by (rule i64_wrap)
    have "k \<noteq> 0" using k out by (metis add.right_neutral in64_i64 mult_zero_left)
    have "i64 (a * b) sdiv b \<noteq> a"
    proof
      assume eq: "i64 (a * b) sdiv b = a"
      from sdiv_remainder [OF b0, of "i64 (a * b)"] have "\<bar>i64 (a * b) - a * b\<bar> < \<bar>b\<bar>"
        unfolding eq .
      then have "\<bar>k * 18446744073709551616\<bar> < \<bar>b\<bar>" unfolding k by simp
      moreover have "\<bar>b\<bar> \<le> 9223372036854775808" using b unfolding in64_def by linarith
      ultimately show False using \<open>k \<noteq> 0\<close> by linarith
    qed
    with False out b0 show ?thesis by (auto simp: checkedMul_def Let_def)
  qed
qed

lemmas checked_exact = checkedAdd_exact checkedSub_exact checkedMul_exact

end
