(* ===== verification/Calendar_Facts.thy ===== *)
theory Calendar_Facts
  imports Civil_Date
begin

text \<open>
  The correctness of the day-number algorithms of \<open>date.go\<close>.  A March-based year \<open>y\<close> and a day of
  year determine the day number by a closed form (\<open>daysFromCivil_closed\<close>); the year-of-era division of
  \<open>civilFromDays\<close> recovers the year from it (\<open>yearOfEra_recovered\<close>) and the month division recovers
  month and day (\<open>month_day_recovered\<close>).
\<close>

section \<open>The closed form of the day number\<close>

definition marchYear :: "int \<Rightarrow> int \<Rightarrow> int" where
  "marchYear y m = (if m \<le> 2 then y - 1 else y)"

definition marchDay :: "int \<Rightarrow> int \<Rightarrow> int" where
  "marchDay m d = (153 * (if m > 2 then m - 3 else m + 9) + 2) div 5 + d - 1"

lemma div_unique_pos: "k * b \<le> a \<Longrightarrow> a < k * b + b \<Longrightarrow> 0 < b \<Longrightarrow> a div b = (k::int)"
  by (rule int_div_pos_eq [of _ _ _ "a - k * b"]) (simp_all add: algebra_simps)

lemma div_bounds:
  assumes "0 < b"
  shows "b * (a div b) \<le> (a::int)" "a < b * (a div b) + b"
  using mult_div_mod_eq [of b a] pos_mod_bound [OF assms, of a] pos_mod_sign [OF assms, of a]
  by linarith+

lemma era_split: "(y div 400) * 97 + (y mod 400) div 4 - (y mod 400) div 100
    = y div 4 - y div 100 + y div (400::int)"
proof -
  obtain e r where er: "y = 400 * e + r" "e = y div 400" "r = y mod 400"
    using mult_div_mod_eq [of 400 y] by metis
  have "y div 4 = (r + (100 * e) * 4) div 4" "y div 100 = (r + (4 * e) * 100) div 100"
    using er(1) by (simp_all add: algebra_simps)
  then have "y div 4 = 100 * e + r div 4" "y div 100 = 4 * e + r div 100"
    by (simp_all only: div_mult_self1)
  with er show ?thesis by simp
qed

lemma daysFromCivil_era:
  assumes "1 \<le> m"
  shows "daysFromCivil y m d = (marchYear y m div 400) * 146097
      + (365 * (marchYear y m mod 400) + (marchYear y m mod 400) div 4
         - (marchYear y m mod 400) div 100 + marchDay m d) - 719468"
proof -
  let ?y = "marchYear y m"
  have eq: "?y - ?y div 400 * 400 = ?y mod 400" by (simp add: minus_div_mult_eq_mod)
  have ye: "(if m \<le> 2 then y - 1 else y) = ?y" by (simp add: marchYear_def)
  show ?thesis
    unfolding daysFromCivil_def Let_def ye
    using assms by (simp add: eq sdiv_nonneg marchDay_def)
qed

lemma daysFromCivil_closed:
  assumes "1 \<le> m"
  shows "daysFromCivil y m d =
    365 * marchYear y m + marchYear y m div 4 - marchYear y m div 100 + marchYear y m div 400
    + marchDay m d - 719468"
proof -
  let ?y = "marchYear y m"
  define e r where "e = ?y div 400" and "r = ?y mod 400"
  have "?y = 400 * e + r" unfolding e_def r_def by simp
  then have "365 * ?y = (?y div 400) * 146000 + 365 * (?y mod 400)"
    unfolding e_def [symmetric] r_def [symmetric] by simp
  with daysFromCivil_era [OF assms, of y d] era_split [of ?y] show ?thesis by simp
qed

section \<open>Recovering the year of the era\<close>

definition marchLeap :: "int \<Rightarrow> bool" where
  "marchLeap yoe \<longleftrightarrow> (yoe + 1) mod 4 = 0 \<and> ((yoe + 1) mod 100 \<noteq> 0 \<or> yoe = 399)"

lemma yearOfEra_digits:
  assumes "0 \<le> yoe" "yoe \<le> (399::int)"
  obtains c q r where "yoe = 100 * c + 4 * q + r" "0 \<le> c" "c \<le> 3" "0 \<le> q" "q \<le> 24" "0 \<le> r" "r \<le> 3"
proof
  let ?m = "yoe - 100 * (yoe div 100)"
  have m: "0 \<le> ?m" "?m < 100" using div_bounds [of 100 yoe] by simp_all
  show "yoe = 100 * (yoe div 100) + 4 * (?m div 4) + (?m - 4 * (?m div 4))" by simp
  show "0 \<le> yoe div 100" "yoe div 100 \<le> 3" using assms by simp_all
  show "0 \<le> ?m div 4" "?m div 4 \<le> 24" using m div_bounds [of 4 ?m] by linarith+
  show "0 \<le> ?m - 4 * (?m div 4)" "?m - 4 * (?m div 4) \<le> 3" using div_bounds [of 4 ?m] by linarith+
qed

lemma yearOfEra_recovered:
  assumes y: "0 \<le> yoe" "yoe \<le> 399" and d: "0 \<le> doy" "doy \<le> 365"
    and leap: "doy = 365 \<longrightarrow> marchLeap yoe"
    and doe: "doe = 365 * yoe + yoe div 4 - yoe div 100 + doy"
  shows "0 \<le> doe \<and> doe \<le> 146096 \<and>
    (doe - doe div 1460 + doe div 36524 - doe div 146096) div 365 = yoe"
proof -
  obtain c q r where y_eq: "yoe = 100 * c + 4 * q + r"
    and c: "0 \<le> c" "c \<le> 3" and q: "0 \<le> q" "q \<le> 24" and r: "0 \<le> r" "r \<le> 3"
    using yearOfEra_digits [OF y] .
  have y4: "yoe div 4 = 25 * c + q" using y_eq c q r by (intro div_unique_pos) simp_all
  have y100: "yoe div 100 = c" using y_eq c q r by (intro div_unique_pos) simp_all
  from y4 y100 have doe': "doe = 36524 * c + 1461 * q + 365 * r + doy"
    using doe y_eq by linarith
  have leap': "doy = 365 \<Longrightarrow> r = 3 \<and> (q < 24 \<or> c = 3)"
  proof -
    assume "doy = 365"
    with leap have l: "(yoe + 1) mod 4 = 0" "(yoe + 1) mod 100 \<noteq> 0 \<or> yoe = 399"
      by (auto simp: marchLeap_def)
    have "yoe + 1 = (r + 1) + (25 * c + q) * 4" using y_eq by simp
    then have "(r + 1) mod 4 = 0" using l(1) by (metis mod_mult_self1)
    then have r3: "r = 3" using r by (cases "r = 0"; cases "r = 1"; cases "r = 2") auto
    have "q = 24 \<Longrightarrow> yoe + 1 = (c + 1) * 100" using y_eq r3 by simp
    with l(2) have "q = 24 \<Longrightarrow> yoe = 399" by (metis mod_mult_self2_is_0)
    with y_eq r3 q c show ?thesis by linarith
  qed
  show ?thesis
  proof (cases "1461 * q + 365 * r + doy = 36524")
    case True
    with q r d have "doy = 365" by linarith
    with leap' True q c have "c = 3" by linarith
    with True doe' y_eq leap' \<open>doy = 365\<close> have "doe = 146096" "yoe = 399" by linarith+
    then show ?thesis by simp
  next
    case False
    with leap' q r d have s: "1461 * q + 365 * r + doy \<le> 36523" by linarith
    have e1: "doe div 36524 = c" using doe' s c q r d by (intro div_unique_pos) simp_all
    have e2: "doe div 146096 = 0" using doe' s c q r d by (intro div_unique_pos) simp_all
    define k where "k = doe div 1460"
    have k: "1460 * k \<le> doe" "doe < 1460 * k + 1460"
      unfolding k_def by (rule div_bounds; simp)+
    have t: "25 * c + q \<le> k" "k \<le> 25 * c + q + 1" using k doe' c q r d by linarith+
    have lo: "doy = 0 \<Longrightarrow> k = 25 * c + q" using k doe' c q r t by linarith
    have hi: "doy = 365 \<Longrightarrow> k = 25 * c + q + 1" using k doe' c q r t leap' by linarith
    have rest: "0 \<le> 25 * c + q + doy - k" "25 * c + q + doy - k \<le> 364"
      using t lo hi d by (cases "doy = 0"; cases "doy = 365"; linarith)+
    have "doe - k + c - 0 = 365 * yoe + (25 * c + q + doy - k)" using doe' y_eq by simp
    with rest have "(doe - k + c - 0) div 365 = yoe" by (intro div_unique_pos) simp_all
    with e1 e2 doe' s c q r d show ?thesis unfolding k_def [symmetric] by simp
  qed
qed

section \<open>Recovering month and day\<close>

definition monthPrimeOf :: "int \<Rightarrow> int" where
  "monthPrimeOf doy = (5 * doy + 2) div 153"

lemma month_day_recovered:
  assumes "0 \<le> mp" "mp \<le> 11" and d: "0 \<le> d"
    and len: "(153 * mp + 2) div 5 + d < (153 * (mp + 1) + 2) div 5"
  shows "monthPrimeOf ((153 * mp + 2) div 5 + d) = mp"
proof -
  have "mp \<in> {0, 1, 2, 3, 4, 5, 6, 7, 8, 9, 10, 11}"
    using assms(1,2) by simp presburger
  with d len show ?thesis
    unfolding monthPrimeOf_def by (intro div_unique_pos) auto
qed

lemma monthPrime_cases:
  assumes "0 \<le> mp" "mp \<le> (11::int)"
  obtains "mp = 0" | "mp = 1" | "mp = 2" | "mp = 3" | "mp = 4" | "mp = 5"
    | "mp = 6" | "mp = 7" | "mp = 8" | "mp = 9" | "mp = 10" | "mp = 11"
proof -
  have "mp \<in> {0, 1, 2, 3, 4, 5, 6, 7, 8, 9, 10, 11}" using assms by simp presburger
  then show ?thesis using that by blast
qed

lemma doy_split:
  assumes "0 \<le> doy" "doy \<le> 365"
  defines "mp \<equiv> monthPrimeOf doy"
  shows "0 \<le> mp" "mp \<le> 11" "(153 * mp + 2) div 5 \<le> doy" "doy < (153 * (mp + 1) + 2) div 5"
proof -
  have b: "153 * mp \<le> 5 * doy + 2" "5 * doy + 2 < 153 * mp + 153"
    unfolding mp_def monthPrimeOf_def by (rule div_bounds; simp)+
  then show lo: "0 \<le> mp" and hi: "mp \<le> 11" using assms(1,2) by linarith+
  show "(153 * mp + 2) div 5 \<le> doy" using lo hi b by (cases rule: monthPrime_cases) simp_all
  show "doy < (153 * (mp + 1) + 2) div 5" using lo hi b by (cases rule: monthPrime_cases) simp_all
qed

lemma doe_split:
  assumes "0 \<le> doe" "doe \<le> 146096"
  obtains yoe doy where "0 \<le> yoe" "yoe \<le> 399" "0 \<le> doy" "doy \<le> 365"
    "doy = 365 \<longrightarrow> marchLeap yoe" "doe = 365 * yoe + yoe div 4 - yoe div 100 + doy"
proof (cases "doe = 146096")
  case True
  show ?thesis by (rule that [of 399 365]) (simp_all add: True marchLeap_def)
next
  case False
  define c where "c = doe div 36524"
  define q where "q = (doe - 36524 * c) div 1461"
  define u where "u = doe - 36524 * c - 1461 * q"
  define r where "r = (if u = 1460 then 3 else u div 365)"
  have c: "36524 * c \<le> doe" "doe < 36524 * c + 36524" unfolding c_def by (rule div_bounds; simp)+
  have c03: "0 \<le> c" "c \<le> 3" using c assms False by linarith+
  have q: "1461 * q \<le> doe - 36524 * c" "doe - 36524 * c < 1461 * q + 1461"
    unfolding q_def by (rule div_bounds; simp)+
  have q24: "0 \<le> q" "q \<le> 24" using c q by linarith+
  have u: "0 \<le> u" "u \<le> 1460" using q unfolding u_def by linarith+
  have u24: "u = 1460 \<Longrightarrow> q < 24" using c q24 unfolding u_def by linarith
  have ub: "365 * (u div 365) \<le> u" "u < 365 * (u div 365) + 365" by (rule div_bounds; simp)+
  have r: "0 \<le> r" "r \<le> 3" "0 \<le> u - 365 * r" "u - 365 * r \<le> 365" "u \<noteq> 1460 \<Longrightarrow> u - 365 * r \<le> 364"
    unfolding r_def using u ub by (auto split: if_splits)
  define yoe where "yoe = 100 * c + 4 * q + r"
  have y4: "yoe div 4 = 25 * c + q" and y100: "yoe div 100 = c"
    unfolding yoe_def using c03 q24 r(1,2) by (simp_all add: div_unique_pos)
  show ?thesis
  proof (rule that [of yoe "u - 365 * r"])
    show "0 \<le> yoe" "yoe \<le> 399" using c03 q24 r(1,2) by (simp_all add: yoe_def)
    show "doe = 365 * yoe + yoe div 4 - yoe div 100 + (u - 365 * r)"
      unfolding y4 y100 by (simp add: yoe_def u_def)
    show "u - 365 * r = 365 \<longrightarrow> marchLeap yoe"
    proof
      assume e: "u - 365 * r = 365"
      with r(5) have "u = 1460" by linarith
      with u24 have "q < 24" "r = 3" by (simp_all add: r_def)
      then have y1: "yoe + 1 = (25 * c + q + 1) * 4" and y2: "yoe + 1 = 4 * (q + 1) + c * 100"
        by (simp_all add: yoe_def)
      have "(yoe + 1) mod 4 = 0" unfolding y1 by (rule mod_mult_self2_is_0)
      moreover have "(yoe + 1) mod 100 = 4 * (q + 1)"
        unfolding y2 mod_mult_self1
        using q24 \<open>q < 24\<close> by (intro mod_pos_pos_trivial) simp_all
      ultimately show "marchLeap yoe" using q24 by (simp add: marchLeap_def)
    qed
  qed (use r in simp_all)
qed

section \<open>The two conversions are inverse\<close>

definition civilMonth :: "int \<Rightarrow> int" where
  "civilMonth mp = (if mp < 10 then mp + 3 else mp - 9)"

lemma civilFromDays_decomposed:
  assumes i: "in64 (n + 719468)" and n: "n + 719468 = era * 146097 + doe"
    and y: "0 \<le> yoe" "yoe \<le> 399" and d: "0 \<le> doy" "doy \<le> 365"
    and leap: "doy = 365 \<longrightarrow> marchLeap yoe" and doe: "doe = 365 * yoe + yoe div 4 - yoe div 100 + doy"
  shows "civilFromDays n =
    (let m = civilMonth (monthPrimeOf doy)
     in (if m \<le> 2 then yoe + era * 400 + 1 else yoe + era * 400, m,
         doy - (153 * monthPrimeOf doy + 2) div 5 + 1))"
proof -
  from yearOfEra_recovered [OF y d leap doe]
  have doe_b: "0 \<le> doe" "doe \<le> 146096"
    and yoe: "(doe - doe div 1460 + doe div 36524 - doe div 146096) div 365 = yoe" by simp_all
  have e1: "floorDiv (i64 (n + 719468)) 146097 = era"
    unfolding i64_id [OF i] using doe_b n by (simp add: div_unique_pos)
  have e2: "i64 (n + 719468) - era * 146097 = doe" unfolding i64_id [OF i] using n by linarith
  have pos: "0 \<le> doe - doe div 1460 + doe div 36524 - doe div 146096"
    using doe_b(1) div_bounds [of 1460 doe] div_bounds [of 146096 doe] div_bounds [of 36524 doe]
    by linarith
  have e3: "(doe - doe sdiv 1460 + doe sdiv 36524 - doe sdiv 146096) sdiv 365 = yoe"
    using pos yoe by (simp only: sdiv_nonneg [OF doe_b(1)] zero_less_numeral sdiv_nonneg)
  have e4: "doe - (365 * yoe + yoe sdiv 4 - yoe sdiv 100) = doy"
    unfolding doe by (simp add: sdiv_nonneg [OF y(1)])
  have e5: "(5 * doy + 2) sdiv 153 = monthPrimeOf doy"
    using d(1) by (simp add: sdiv_nonneg monthPrimeOf_def)
  have e6: "(153 * monthPrimeOf doy + 2) sdiv 5 = (153 * monthPrimeOf doy + 2) div 5"
    using doy_split(1) [OF d] by (simp add: sdiv_nonneg)
  show ?thesis
    unfolding civilFromDays_def Let_def e1 e2 e3 e4 e5 e6 civilMonth_def by (rule refl)
qed

lemma valid_civil_march:
  assumes v: "valid_civil y m d"
  defines "mp \<equiv> (if m > 2 then m - 3 else m + 9)"
  shows "0 \<le> mp" "mp \<le> 11" "(153 * mp + 2) div 5 + (d - 1) < (153 * (mp + 1) + 2) div 5"
    "0 \<le> marchDay m d" "marchDay m d \<le> 365" "marchDay m d = 365 \<Longrightarrow> m = 2 \<and> isLeapYear y"
    "civilMonth mp = m"
proof -
  from v have m: "1 \<le> m" "m \<le> 12" and d: "1 \<le> d" "d \<le> daysInMonth y m"
    by (simp_all add: valid_civil_def)
  show mp: "0 \<le> mp" "mp \<le> 11" using m by (auto simp: mp_def)
  have mm: "m = civilMonth mp" using m by (auto simp: mp_def civilMonth_def)
  then show "civilMonth mp = m" by simp
  have md: "marchDay m d = (153 * mp + 2) div 5 + d - 1" by (simp add: marchDay_def mp_def)
  have "(153 * mp + 2) div 5 + (d - 1) < (153 * (mp + 1) + 2) div 5 \<and>
    0 \<le> (153 * mp + 2) div 5 + d - 1 \<and> (153 * mp + 2) div 5 + d - 1 \<le> 365 \<and>
    ((153 * mp + 2) div 5 + d - 1 = 365 \<longrightarrow> civilMonth mp = 2 \<and> isLeapYear y)"
    using mp d(1) d(2) [unfolded mm]
    by (cases rule: monthPrime_cases [OF mp]) (auto simp: civilMonth_def daysInMonth_def split: if_splits)
  then show "(153 * mp + 2) div 5 + (d - 1) < (153 * (mp + 1) + 2) div 5"
    "0 \<le> marchDay m d" "marchDay m d \<le> 365" "marchDay m d = 365 \<Longrightarrow> m = 2 \<and> isLeapYear y"
    unfolding md mm [symmetric] by blast+
qed

lemma marchLeap_mod:
  assumes "isLeapYear (Y + 1)"
  shows "marchLeap (Y mod 400)"
proof -
  have "Y mod 400 mod 4 = Y mod 4" "Y mod 400 mod 100 = Y mod 100" by (simp_all add: mod_mod_cancel)
  then have "(Y + 1) mod 4 = (Y mod 400 + 1) mod 4" "(Y + 1) mod 100 = (Y mod 400 + 1) mod 100"
    by (metis mod_add_left_eq)+
  moreover have "Y mod 400 = 399" if "(Y + 1) mod 400 = 0"
    using mod_diff_left_eq [of "Y + 1" 400 1] that by simp
  ultimately show ?thesis using assms unfolding marchLeap_def isLeapYear_iff by metis
qed

theorem civilFromDays_daysFromCivil:
  assumes v: "valid_civil y m d" and i: "in64 (daysFromCivil y m d + 719468)"
  shows "civilFromDays (daysFromCivil y m d) = (y, m, d)"
proof -
  let ?Y = "marchYear y m" and ?mp = "if m > 2 then m - 3 else m + 9"
  note mv = valid_civil_march [OF v]
  have m1: "1 \<le> m" using v by (simp add: valid_civil_def)
  let ?doe = "365 * (?Y mod 400) + (?Y mod 400) div 4 - (?Y mod 400) div 100 + marchDay m d"
  have n: "daysFromCivil y m d + 719468 = (?Y div 400) * 146097 + ?doe"
    by (simp only: daysFromCivil_era [OF m1] diff_add_cancel)
  have leap: "marchDay m d = 365 \<longrightarrow> marchLeap (?Y mod 400)"
    using mv(6) by (auto intro: marchLeap_mod simp: marchYear_def)
  have mp: "monthPrimeOf (marchDay m d) = ?mp"
    using month_day_recovered [OF mv(1) mv(2) _ mv(3)] v
    by (simp add: valid_civil_def marchDay_def algebra_simps)
  have yoe: "?Y mod 400 + ?Y div 400 * 400 = ?Y" by simp
  have c: "civilFromDays (daysFromCivil y m d) =
    (let m' = civilMonth (monthPrimeOf (marchDay m d))
     in (if m' \<le> 2 then ?Y mod 400 + ?Y div 400 * 400 + 1 else ?Y mod 400 + ?Y div 400 * 400, m',
         marchDay m d - (153 * monthPrimeOf (marchDay m d) + 2) div 5 + 1))"
    by (rule civilFromDays_decomposed [OF i n _ _ mv(4) mv(5) leap refl]) simp_all
  show ?thesis
    unfolding c mp mv(7) yoe Let_def by (simp add: marchYear_def marchDay_def)
qed

lemma daysFromCivil_surj:
  assumes i: "in64 (n + 719468)"
  obtains y m d where "valid_civil y m d" "daysFromCivil y m d = n"
proof -
  define era where "era = (n + 719468) div 146097"
  define doe where "doe = (n + 719468) mod 146097"
  have n: "n + 719468 = era * 146097 + doe" unfolding era_def doe_def by simp
  have doe_b: "0 \<le> doe" "doe \<le> 146096"
    unfolding doe_def using pos_mod_bound [of 146097 "n + 719468"] by simp_all
  obtain yoe doy where y: "0 \<le> yoe" "yoe \<le> 399" and d: "0 \<le> doy" "doy \<le> 365"
    and leap: "doy = 365 \<longrightarrow> marchLeap yoe" and doe: "doe = 365 * yoe + yoe div 4 - yoe div 100 + doy"
    using doe_split [OF doe_b] .
  define mp where "mp = monthPrimeOf doy"
  define m where "m = civilMonth mp"
  define day where "day = doy - (153 * mp + 2) div 5 + 1"
  define Y where "Y = yoe + era * 400"
  define yr where "yr = (if m \<le> 2 then Y + 1 else Y)"
  note mp = doy_split [OF d, folded mp_def]
  have Y: "Y mod 400 = yoe" "Y div 400 = era" unfolding Y_def using y by simp_all
  have m: "1 \<le> m" "m \<le> 12" "(if m > 2 then m - 3 else m + 9) = mp"
    using mp(1,2) by (auto simp: m_def civilMonth_def)
  have mY: "marchYear yr m = Y" by (simp add: marchYear_def yr_def)
  have md: "marchDay m day = doy" unfolding marchDay_def m(3) by (simp add: day_def)
  have days: "daysFromCivil yr m day = n"
    using daysFromCivil_era [OF m(1), of yr day] n doe unfolding mY md Y by simp
  have leapYear: "isLeapYear yr" if "doy = 365" "m = 2"
  proof -
    have "Y mod 400 mod 4 = Y mod 4" "Y mod 400 mod 100 = Y mod 100" by (simp_all add: mod_mod_cancel)
    then have "(Y + 1) mod 4 = (yoe + 1) mod 4" "(Y + 1) mod 100 = (yoe + 1) mod 100"
      unfolding Y(1) by (metis mod_add_left_eq)+
    moreover have "(Y + 1) mod 400 = (yoe + 1) mod 400" using Y(1) by (metis mod_add_left_eq)
    ultimately show ?thesis
      using leap that by (auto simp: yr_def isLeapYear_iff marchLeap_def)
  qed
  have notLeap: "doy \<le> 364" if "m = 2" "\<not> isLeapYear yr" using leapYear that d(2) by force
  have "day \<le> daysInMonth yr m"
    using mp(1,2) mp(3) mp(4) d(2) notLeap
    by (cases rule: monthPrime_cases [OF mp(1,2)])
      (auto simp: day_def m_def civilMonth_def daysInMonth_def)
  moreover have "1 \<le> day" using mp(3) by (simp add: day_def)
  ultimately have "valid_civil yr m day" using m by (simp add: valid_civil_def)
  with days show ?thesis by (rule that [rotated])
qed

theorem daysFromCivil_civilFromDays:
  assumes i: "in64 (n + 719468)" and c: "civilFromDays n = (y, m, d)"
  shows "valid_civil y m d" "daysFromCivil y m d = n"
proof -
  obtain y' m' d' where v: "valid_civil y' m' d'" and n: "daysFromCivil y' m' d' = n"
    using daysFromCivil_surj [OF i] .
  with civilFromDays_daysFromCivil [OF v] i have "civilFromDays n = (y', m', d')" by simp
  with c v n show "valid_civil y m d" "daysFromCivil y m d = n" by simp_all
qed

end
