(* ===== verification/Date_Ops.thy ===== *)
theory Date_Ops
  imports Calendar_Facts
begin

text \<open>
  The operations of \<open>Date\<close> against the calendar.  The reference is \<open>next_civil\<close>, which steps to the
  following civil day; day numbers count its steps, order dates lexicographically, and checked day
  arithmetic succeeds exactly when the target day is a date inside the supported years.
\<close>

section \<open>The reference calendar\<close>

fun next_civil :: "int \<times> int \<times> int \<Rightarrow> int \<times> int \<times> int" where
  "next_civil (y, m, d) =
     (if d < daysInMonth y m then (y, m, d + 1)
      else if m < 12 then (y, m + 1, 1) else (y + 1, 1, 1))"

definition yearDays :: "int \<Rightarrow> int" where
  "yearDays Y = 365 * Y + Y div 4 - Y div 100 + Y div 400"

lemma daysFromCivil_march: "1 \<le> m \<Longrightarrow>
    daysFromCivil y m d = yearDays (marchYear y m) + marchDay m d - 719468"
  by (simp only: daysFromCivil_closed yearDays_def)

lemma div_succ: "0 < k \<Longrightarrow> (Y + 1) div k = Y div k + (if (Y + 1) mod k = 0 then 1 else 0 :: int)"
proof -
  assume k: "0 < k"
  show ?thesis
  proof (cases "(Y + 1) mod k = 0")
    case True
    then have e: "Y + 1 = (Y + 1) div k * k" using div_mult_mod_eq [of "Y + 1" k] by simp
    have "Y div k = (Y + 1) div k - 1"
      using k e by (intro div_unique_pos) (simp_all add: algebra_simps)
    with True show ?thesis by simp
  next
    case False
    with k have "0 < (Y + 1) mod k" by (simp add: le_neq_trans)
    moreover define q r where "q = (Y + 1) div k" and "r = (Y + 1) mod k"
    moreover have "Y + 1 = q * k + r" "r < k" using k by (simp_all add: q_def r_def)
    ultimately have "Y div k = q" using k by (intro div_unique_pos) linarith+
    then have "Y div k = (Y + 1) div k" by (simp only: q_def)
    with False show ?thesis by simp
  qed
qed

lemma leap_day_count:
  "(r400 \<Longrightarrow> r100) \<Longrightarrow> (r100 \<Longrightarrow> r4) \<Longrightarrow>
    365 * (Y + 1) + (a + (if r4 then 1 else 0)) - (b + (if r100 then 1 else 0))
      + (c + (if r400 then 1 else 0))
    = 365 * Y + a - b + c + (if r4 \<and> (\<not> r100 \<or> r400) then 366 else (365 :: int))"
  by auto

lemma yearDays_succ: "yearDays (Y + 1) = yearDays Y + (if isLeapYear (Y + 1) then 366 else 365)"
proof -
  have d4: "(Y + 1) div 4 = Y div 4 + (if (Y + 1) mod 4 = 0 then 1 else 0)"
    and d100: "(Y + 1) div 100 = Y div 100 + (if (Y + 1) mod 100 = 0 then 1 else 0)"
    and d400: "(Y + 1) div 400 = Y div 400 + (if (Y + 1) mod 400 = 0 then 1 else 0)"
    by (rule div_succ, simp)+
  have "(Y + 1) mod 400 = 0 \<Longrightarrow> (Y + 1) mod 100 = 0"
    using mod_mod_cancel [of 100 400 "Y + 1"] by simp
  moreover have "(Y + 1) mod 100 = 0 \<Longrightarrow> (Y + 1) mod 4 = 0"
    using mod_mod_cancel [of 4 100 "Y + 1"] by simp
  ultimately show ?thesis
    unfolding yearDays_def isLeapYear_iff d4 d100 d400 by (rule leap_day_count)
qed

theorem daysFromCivil_next:
  assumes v: "valid_civil y m d" and n: "next_civil (y, m, d) = (y', m', d')"
  shows "daysFromCivil y' m' d' = daysFromCivil y m d + 1"
proof -
  from v have m: "1 \<le> m" "m \<le> 12" and d: "1 \<le> d" "d \<le> daysInMonth y m"
    by (simp_all add: valid_civil_def)
  show ?thesis
  proof (cases "d < daysInMonth y m")
    case True
    with n m show ?thesis by (auto simp: daysFromCivil_march marchDay_def)
  next
    case False
    with d have dl: "d = daysInMonth y m" by simp
    have "m \<in> {1, 2, 3, 4, 5, 6, 7, 8, 9, 10, 11, 12}" using m by simp presburger
    with n False dl yearDays_succ [of "y - 1"] show ?thesis
      by (auto simp: daysFromCivil_march marchDay_def marchYear_def daysInMonth_def split: if_splits)
  qed
qed

lemma next_civil_valid:
  "valid_civil y m d \<Longrightarrow> next_civil (y, m, d) = (y', m', d') \<Longrightarrow> valid_civil y' m' d'"
  using daysInMonth_bounds [of y' m'] by (auto simp: valid_civil_def split: if_splits)

lemma daysFromCivil_epoch: "daysFromCivil 1970 1 1 = 0"
  by (simp add: daysFromCivil_march marchDay_def marchYear_def yearDays_def)

section \<open>Day numbers are ordered like dates\<close>

lemma yearDays_mono: "Y < Z \<Longrightarrow> yearDays (Y + 1) \<le> yearDays Z"
proof (induction Z rule: int_gr_induct [where k = Y])
  case base
  then show ?case by simp
next
  case (step i)
  then show ?case using yearDays_succ [of i] by (simp split: if_splits)
qed

lemma marchDay_less_year:
  assumes "valid_civil y m d"
  shows "yearDays (marchYear y m) + marchDay m d < yearDays (marchYear y m + 1)"
proof -
  have "marchDay m d = 365 \<Longrightarrow> isLeapYear (marchYear y m + 1)"
    using valid_civil_march(6) [OF assms] by (auto simp: marchYear_def)
  with valid_civil_march(5) [OF assms] show ?thesis
    by (cases "marchDay m d = 365") (simp_all add: yearDays_succ)
qed

lemma marchDay_mono:
  assumes "valid_civil y m d" "valid_civil y' m' d'"
    and "marchYear y m = marchYear y' m'"
    and "y < y' \<or> y = y' \<and> (m < m' \<or> m = m' \<and> d < d')"
  shows "marchDay m d < marchDay m' d'"
proof -
  define mp mp' where "mp = (if m > 2 then m - 3 else m + 9)" and "mp' = (if m' > 2 then m' - 3 else m' + 9)"
  note v = valid_civil_march [OF assms(1), folded mp_def] valid_civil_march [OF assms(2), folded mp'_def]
  have md: "marchDay m d = (153 * mp + 2) div 5 + (d - 1)" "marchDay m' d' = (153 * mp' + 2) div 5 + (d' - 1)"
    by (simp_all add: marchDay_def mp_def mp'_def)
  have m: "1 \<le> m" "m \<le> 12" "1 \<le> m'" "m' \<le> 12" "1 \<le> d'" using assms(1,2) by (simp_all add: valid_civil_def)
  show ?thesis
  proof (cases "mp = mp'")
    case True
    then have "m = m'" using v(7) v(14) by simp
    with True assms(3,4) md show ?thesis by (auto simp: marchYear_def split: if_splits)
  next
    case False
    with m assms(3,4) have "mp + 1 \<le> mp'"
      by (auto simp: mp_def mp'_def marchYear_def split: if_splits)
    then have "153 * (mp + 1) + 2 \<le> 153 * mp' + 2" by simp
    then have "(153 * (mp + 1) + 2) div 5 \<le> (153 * mp' + 2) div 5" by (rule zdiv_mono1) simp
    with v(3) have "marchDay m d < (153 * mp' + 2) div 5" unfolding md by (rule less_le_trans)
    also have "\<dots> \<le> marchDay m' d'" unfolding md using m(5) by simp
    finally show ?thesis .
  qed
qed

theorem daysFromCivil_less:
  assumes v: "valid_civil y m d" "valid_civil y' m' d'"
    and l: "y < y' \<or> y = y' \<and> (m < m' \<or> m = m' \<and> d < d')"
  shows "daysFromCivil y m d < daysFromCivil y' m' d'"
proof -
  have m: "1 \<le> m" "1 \<le> m'" "m \<le> 12" "m' \<le> 12" using v by (simp_all add: valid_civil_def)
  show ?thesis
  proof (cases "marchYear y m = marchYear y' m'")
    case True
    with marchDay_mono [OF v True l] m show ?thesis by (simp add: daysFromCivil_march)
  next
    case False
    with l m have "marchYear y m < marchYear y' m'" by (auto simp: marchYear_def split: if_splits)
    then have "yearDays (marchYear y m + 1) \<le> yearDays (marchYear y' m')" by (rule yearDays_mono)
    with marchDay_less_year [OF v(1)] valid_civil_march(4) [OF v(2)] m
    show ?thesis by (simp add: daysFromCivil_march)
  qed
qed

definition civil_less :: "Date \<Rightarrow> Date \<Rightarrow> bool" where
  "civil_less a b \<longleftrightarrow> Year a < Year b \<or> Year a = Year b \<and>
     (Month a < Month b \<or> Month a = Month b \<and> Day a < Day b)"

lemma EpochDay_less_iff:
  assumes "valid_date a" "valid_date b"
  shows "EpochDay a < EpochDay b \<longleftrightarrow> civil_less a b"
proof -
  have v: "valid_civil (Year a) (Month a) (Day a)" "valid_civil (Year b) (Month b) (Day b)"
    using assms by (simp_all add: valid_date_def Year_def)
  have e: "EpochDay a = daysFromCivil (Year a) (Month a) (Day a)"
    "EpochDay b = daysFromCivil (Year b) (Month b) (Day b)" by (simp_all add: EpochDay_def Year_def)
  show ?thesis
  proof (cases "civil_less a b")
    case True
    then show ?thesis using daysFromCivil_less [OF v] by (simp add: e civil_less_def)
  next
    case False
    then have "civil_less b a \<or> (Year a = Year b \<and> Month a = Month b \<and> Day a = Day b)"
      unfolding civil_less_def by (meson linorder_neqE)
    then have "EpochDay b \<le> EpochDay a"
      using daysFromCivil_less [OF v(2,1)] unfolding civil_less_def e by fastforce
    with False show ?thesis by simp
  qed
qed

lemma EpochDay_inj:
  assumes "valid_date a" "valid_date b" "EpochDay a = EpochDay b"
  shows "a = b"
proof -
  have "\<not> civil_less a b" "\<not> civil_less b a"
    using EpochDay_less_iff [OF assms(1,2)] EpochDay_less_iff [OF assms(2,1)] assms(3) by simp_all
  then show ?thesis by (auto simp: civil_less_def Year_def Month_def Day_def intro!: Date.equality)
qed

end
