(* ===== verification/Date_Arith.thy ===== *)
theory Date_Arith
  imports Date_Ops
begin

text \<open>
  Checked date arithmetic: \<open>AddDays\<close>, \<open>AddMonths\<close>, the ISO week and quarter accessors and the
  constructors from ordinal, week and quarter fields.
\<close>

section \<open>Day numbers stay far inside int64\<close>

lemma yearDays_bounds: "146097 * Y - 160000 \<le> 400 * yearDays Y" "400 * yearDays Y \<le> 146097 * Y + 400"
proof -
  define a b c where "a = Y div 4" and "b = Y div 100" and "c = Y div 400"
  have "4 * a \<le> Y" "Y < 4 * a + 4" "100 * b \<le> Y" "Y < 100 * b + 100" "400 * c \<le> Y" "Y < 400 * c + 400"
    unfolding a_def b_def c_def by (rule div_bounds; simp)+
  moreover have "yearDays Y = 365 * Y + a - b + c" by (simp add: yearDays_def a_def b_def c_def)
  ultimately show "146097 * Y - 160000 \<le> 400 * yearDays Y" "400 * yearDays Y \<le> 146097 * Y + 400"
    by linarith+
qed

lemma daysFromCivil_bounds:
  assumes "valid_civil y m d"
  shows "146097 * y - 293000000 \<le> 400 * daysFromCivil y m d"
    "400 * daysFromCivil y m d \<le> 146097 * y + 147000 - 287786800"
proof -
  have m: "1 \<le> m" using assms by (simp add: valid_civil_def)
  have "y - 1 \<le> marchYear y m" "marchYear y m \<le> y" by (simp_all add: marchYear_def)
  with yearDays_bounds [of "marchYear y m"] valid_civil_march(4,5) [OF assms]
  show "146097 * y - 293000000 \<le> 400 * daysFromCivil y m d"
    "400 * daysFromCivil y m d \<le> 146097 * y + 147000 - 287786800"
    unfolding daysFromCivil_march [OF m] distrib_left right_diff_distrib by linarith+
qed

lemma EpochDay_bounds:
  assumes "valid_date d"
  shows "-365250000000 \<le> EpochDay d" "EpochDay d \<le> 365250000000"
  using assms daysFromCivil_bounds [of "date_year d" "Month d" "Day d"]
  unfolding valid_date_def EpochDay_def range_simps by linarith+

lemma in64_EpochDay [simp]: "valid_date d \<Longrightarrow> in64 (EpochDay d)"
  using EpochDay_bounds [of d] by (simp add: in64_def)

lemma in64_EpochDay_shift [simp]: "valid_date d \<Longrightarrow> in64 (EpochDay d + 719468)"
  using EpochDay_bounds [of d] by (simp add: in64_def)

section \<open>From a day number back to a date\<close>

definition dateOfDays :: "int \<Rightarrow> terror + Date" where
  "dateOfDays n = (case civilFromDays n of (year, month, day) \<Rightarrow> NewDate year month day)"

lemma dateOfDays_EpochDay:
  assumes "valid_date d"
  shows "dateOfDays (EpochDay d) = Inr d"
proof -
  have "civilFromDays (EpochDay d) = (Year d, Month d, Day d)"
    using civilFromDays_daysFromCivil [of "Year d" "Month d" "Day d"] assms
      in64_EpochDay_shift [OF assms]
    by (simp add: EpochDay_def valid_date_def Year_def)
  then show ?thesis using NewDate_fields [OF assms] by (simp add: dateOfDays_def)
qed

lemma dateOfDays_far:
  assumes n: "in64 n" "\<not> in64 (n + 719468)"
  shows "dateOfDays n = Inl ErrInvalid"
proof -
  let ?n = "n - 18446744073709551616"
  have hi: "9223372036854775807 < n + 719468" "n \<le> 9223372036854775807" using n by (auto simp: in64_def)
  have w: "i64 (n + 719468) = ?n + 719468"
    using hi i64_add_cases [of n 719468] n(1) by (simp add: in64_def)
  then have iv: "i64 (?n + 719468) = ?n + 719468" using in64_i64 by (metis i64_id)
  then have i: "in64 (?n + 719468)" by (metis in64_i64)
  obtain y m d where c: "civilFromDays ?n = (y, m, d)" by (cases "civilFromDays ?n")
  have same: "civilFromDays n = (y, m, d)"
    using c unfolding civilFromDays_def w iv .
  from daysFromCivil_civilFromDays [OF i c] have "valid_civil y m d" "daysFromCivil y m d = ?n" by simp_all
  with daysFromCivil_bounds [of y m d] hi have "y < MinYear" unfolding range_simps by linarith
  then show ?thesis unfolding dateOfDays_def same by (simp add: NewDate_def)
qed

lemma dateOfDays_Inr_iff:
  assumes "in64 n"
  shows "dateOfDays n = Inr d \<longleftrightarrow> valid_date d \<and> EpochDay d = n"
proof
  assume r: "dateOfDays n = Inr d"
  then have i: "in64 (n + 719468)" using dateOfDays_far [OF assms] by (cases "in64 (n + 719468)") auto
  obtain y m k where c: "civilFromDays n = (y, m, k)" by (cases "civilFromDays n")
  with r have nd: "NewDate y m k = Inr d" by (simp add: dateOfDays_def)
  then have "d = \<lparr>date_year = y, date_month = m - 1, date_day = k - 1\<rparr>" by (simp add: NewDate_Inr_iff)
  with daysFromCivil_civilFromDays(2) [OF i c] have "EpochDay d = n"
    by (simp add: EpochDay_def Month_def Day_def)
  with NewDate_valid [OF nd] show "valid_date d \<and> EpochDay d = n" by simp
qed (auto simp: dateOfDays_EpochDay)

lemma dateOfDays_Inl: "dateOfDays n = Inl e \<Longrightarrow> e = ErrInvalid"
  by (auto simp: dateOfDays_def NewDate_Inl_iff split: prod.splits)

section \<open>AddDays\<close>

lemma AddDays_unfold: "AddDays d n = bindE (checkedAdd (EpochDay d) n) dateOfDays"
  by (simp add: AddDays_def dateOfDays_def [abs_def])

lemma AddDays_Inr_iff:
  assumes d: "valid_date d" and n: "in64 n"
  shows "AddDays d n = Inr e \<longleftrightarrow> valid_date e \<and> EpochDay e = EpochDay d + n"
proof (cases "in64 (EpochDay d + n)")
  case True
  then show ?thesis
    using d n by (simp add: AddDays_unfold checkedAdd_exact dateOfDays_Inr_iff)
next
  case False
  then have "\<not> (valid_date e \<and> EpochDay e = EpochDay d + n)" by (metis in64_EpochDay)
  with False d n show ?thesis by (simp add: AddDays_unfold checkedAdd_exact)
qed

lemma AddDays_valid: "valid_date d \<Longrightarrow> in64 n \<Longrightarrow> AddDays d n = Inr e \<Longrightarrow> valid_date e"
  by (simp add: AddDays_Inr_iff)

lemma AddDays_err:
  assumes "valid_date d" "in64 n" "AddDays d n = Inl e"
  shows "e = (if in64 (EpochDay d + n) then ErrInvalid else ErrOverflow)"
  using assms by (auto simp: AddDays_unfold checkedAdd_exact dest: dateOfDays_Inl)

lemma AddDays_zero: "valid_date d \<Longrightarrow> AddDays d 0 = Inr d"
  by (simp add: AddDays_Inr_iff in64_def)

lemma AddDays_add:
  assumes "valid_date d" "in64 m" "in64 n" "in64 (m + n)" "AddDays d m = Inr e"
  shows "AddDays e n = AddDays d (m + n)"
proof (cases "AddDays d (m + n)")
  case (Inr f)
  then have "AddDays e n = Inr f" using assms by (simp add: AddDays_Inr_iff)
  with Inr show ?thesis by simp
next
  case (Inl x)
  have e: "valid_date e" "EpochDay e = EpochDay d + m" using assms by (simp_all add: AddDays_Inr_iff)
  then have c: "checkedAdd (EpochDay e) n = checkedAdd (EpochDay d) (m + n)"
    using checkedAdd_exact [OF in64_EpochDay [OF e(1)] assms(3)]
      checkedAdd_exact [OF in64_EpochDay [OF assms(1)] assms(4)] e(2) by (simp only: add.assoc)
  show ?thesis unfolding AddDays_unfold c ..
qed

section \<open>AddMonths\<close>

lemma AddMonths_exact:
  assumes d: "valid_date d" and n: "in64 months"
  defines "t \<equiv> 12 * Year d + (Month d - 1) + months"
  shows "AddMonths d months =
    (if in64 t then NewDate (t div 12) (t mod 12 + 1) (min (Day d) (daysInMonth (t div 12) (t mod 12 + 1)))
     else Inl ErrOverflow)"
proof -
  from d have y: "-999999999 \<le> date_year d" "date_year d \<le> 999999999" "1 \<le> Month d" "Month d \<le> 12"
    by (simp_all add: valid_date_def valid_civil_def range_simps)
  then have r: "in64 (date_year d)" "in64 (date_year d * 12)" "in64 (date_year d * 12 + (Month d - 1))"
    "in64 (12 :: int)" "in64 (Month d - 1)"
    unfolding in64_def by linarith+
  have t: "date_year d * 12 + (Month d - 1) + months = t" unfolding t_def Year_def by simp
  have m: "checkedMul (date_year d) 12 = Inr (date_year d * 12)"
    and a: "checkedAdd (date_year d * 12) (Month d - 1) = Inr (date_year d * 12 + (Month d - 1))"
    using checkedMul_exact [OF r(1,4)] checkedAdd_exact [OF r(2,5)] r(2,3) by simp_all
  have "AddMonths d months = bindE (checkedAdd (date_year d * 12 + (Month d - 1)) months)
     (\<lambda>t. NewDate (t div 12) (t mod 12 + 1) (min (Day d) (daysInMonth (t div 12) (t mod 12 + 1))))"
    unfolding AddMonths_def m a bindE_Inr by (rule bindE_cong) (auto simp: min_def Let_def)
  then show ?thesis unfolding checkedAdd_exact [OF r(3) n] t by simp
qed

lemma AddMonths_Inr_iff:
  assumes d: "valid_date d" and n: "in64 months"
  defines "t \<equiv> 12 * Year d + (Month d - 1) + months"
  shows "AddMonths d months = Inr e \<longleftrightarrow> valid_date e \<and> Year e = t div 12 \<and> Month e = t mod 12 + 1 \<and>
    Day e = min (Day d) (daysInMonth (Year e) (Month e))"
proof
  let ?y = "t div 12" and ?m = "t mod 12 + 1"
  assume "AddMonths d months = Inr e"
  then have "NewDate ?y ?m (min (Day d) (daysInMonth ?y ?m)) = Inr e"
    unfolding AddMonths_exact [OF d n, folded t_def] by (simp split: if_splits)
  from NewDate_valid [OF this] this show "valid_date e \<and> Year e = ?y \<and> Month e = ?m \<and>
    Day e = min (Day d) (daysInMonth (Year e) (Month e))"
    by (simp add: NewDate_Inr_iff Year_def Month_def Day_def)
next
  let ?y = "t div 12" and ?m = "t mod 12 + 1"
  assume e: "valid_date e \<and> Year e = ?y \<and> Month e = ?m \<and>
    Day e = min (Day d) (daysInMonth (Year e) (Month e))"
  then have "-999999999 \<le> ?y" "?y \<le> 999999999" by (auto simp: valid_date_def range_simps Year_def)
  then have "in64 t" unfolding in64_def by linarith
  moreover have "NewDate ?y ?m (min (Day d) (daysInMonth ?y ?m)) = Inr e"
    using e NewDate_fields [of e] by simp
  ultimately show "AddMonths d months = Inr e"
    unfolding AddMonths_exact [OF d n, folded t_def] by simp
qed

section \<open>Years, ordinal days and quarters\<close>

definition jan1 :: "int \<Rightarrow> int" where
  "jan1 y = daysFromCivil y 1 1"

definition yearLength :: "int \<Rightarrow> int" where
  "yearLength y = (if isLeapYear y then 366 else 365)"

lemma jan1_eq: "jan1 y = yearDays (y - 1) - 719162"
  by (simp add: jan1_def daysFromCivil_march marchDay_def marchYear_def)

lemma jan1_succ: "jan1 (y + 1) = jan1 y + yearLength y"
  using yearDays_succ [of "y - 1"] by (simp add: jan1_eq yearLength_def)

lemma yearLength_bounds: "365 \<le> yearLength y" "yearLength y \<le> 366"
  by (simp_all add: yearLength_def)

lemma EpochDay_Year:
  assumes "valid_date d"
  shows "jan1 (Year d) \<le> EpochDay d" "EpochDay d < jan1 (Year d + 1)"
proof -
  have v: "valid_civil (Year d) (Month d) (Day d)" using assms by (simp add: valid_date_def Year_def)
  have f: "valid_civil y 1 1" for y by (simp add: valid_civil_def daysInMonth_def)
  have e: "EpochDay d = daysFromCivil (Year d) (Month d) (Day d)" by (simp add: EpochDay_def Year_def)
  show "EpochDay d < jan1 (Year d + 1)" unfolding e jan1_def by (rule daysFromCivil_less [OF v f]) simp
  show "jan1 (Year d) \<le> EpochDay d"
    using daysFromCivil_less [OF v f, of "Year d"] daysFromCivil_less [OF f v, of "Year d"] v
    unfolding e jan1_def valid_civil_def by (cases "Month d = 1 \<and> Day d = 1") fastforce+
qed

lemma jan1_mono: "y \<le> z \<Longrightarrow> jan1 y \<le> jan1 z"
  using yearDays_mono [of "y - 1 - 1" "z - 1"] by (cases "y = z") (simp_all add: jan1_eq)

lemma Year_unique:
  assumes "valid_date d" "jan1 y \<le> EpochDay d" "EpochDay d < jan1 (y + 1)"
  shows "Year d = y"
proof -
  note e = EpochDay_Year [OF assms(1)]
  have "\<not> Year d + 1 \<le> y" using jan1_mono [of "Year d + 1" y] e assms by linarith
  moreover have "\<not> y + 1 \<le> Year d" using jan1_mono [of "y + 1" "Year d"] e assms by linarith
  ultimately show ?thesis by simp
qed

end
