(* ===== verification/Date_Fields.thy ===== *)
theory Date_Fields
  imports Date_Arith
begin

text \<open>
  The derived fields of a date and the constructors that take them: ordinal day, quarter and ISO
  week.  Each constructor is shown to accept exactly the field triples that some supported date has,
  and to return that date.
\<close>

section \<open>Days of a year, of a month and of a quarter\<close>

lemma valid_civil_first: "1 \<le> m \<Longrightarrow> m \<le> 12 \<Longrightarrow> valid_civil y m 1"
  using daysInMonth_bounds [of y m] by (simp add: valid_civil_def)

lemma civil_year_bounds:
  assumes v: "valid_civil y m d"
  shows "jan1 y \<le> daysFromCivil y m d" "daysFromCivil y m d < jan1 (y + 1)"
proof -
  note f = valid_civil_first [of 1, simplified]
  show "daysFromCivil y m d < jan1 (y + 1)" unfolding jan1_def by (rule daysFromCivil_less [OF v f]) simp
  show "jan1 y \<le> daysFromCivil y m d"
    using daysFromCivil_less [OF f v] v
    unfolding jan1_def valid_civil_def by (cases "m = 1 \<and> d = 1") fastforce+
qed

lemma jan1_limits: "jan1 MinYear = -365243219162" "jan1 (MaxYear + 1) = 365241780472"
  by (simp_all add: jan1_eq yearDays_def range_simps)

text \<open>The supported day numbers are exactly those between the two year limits.\<close>

lemma date_of_day_iff: "(\<exists>d. valid_date d \<and> EpochDay d = n) \<longleftrightarrow> jan1 MinYear \<le> n \<and> n < jan1 (MaxYear + 1)"
proof
  assume "\<exists>d. valid_date d \<and> EpochDay d = n"
  then obtain d where d: "valid_date d" "EpochDay d = n" by blast
  then have "MinYear \<le> Year d" "Year d + 1 \<le> MaxYear + 1" by (simp_all add: valid_date_def Year_def)
  with EpochDay_Year [OF d(1)] d(2) show "jan1 MinYear \<le> n \<and> n < jan1 (MaxYear + 1)"
    using jan1_mono [of MinYear "Year d"] jan1_mono [of "Year d + 1" "MaxYear + 1"] by linarith
next
  assume n: "jan1 MinYear \<le> n \<and> n < jan1 (MaxYear + 1)"
  then have i: "in64 (n + 719468)" unfolding jan1_limits in64_def by linarith
  obtain y m k where c: "civilFromDays n = (y, m, k)" by (cases "civilFromDays n")
  note v = daysFromCivil_civilFromDays [OF i c]
  have "\<not> y + 1 \<le> MinYear" using jan1_mono [of "y + 1" MinYear] civil_year_bounds [OF v(1)] v(2) n by linarith
  moreover have "\<not> MaxYear + 1 \<le> y" using jan1_mono [of "MaxYear + 1" y] civil_year_bounds [OF v(1)] v(2) n by linarith
  ultimately have "NewDate y m k = Inr \<lparr>date_year = y, date_month = m - 1, date_day = k - 1\<rparr>" (is "_ = Inr ?d")
    using v(1) by (simp add: NewDate_Inr_iff)
  then have "valid_date ?d" by (rule NewDate_valid)
  moreover have "EpochDay ?d = n" using v(2) by (simp add: EpochDay_def Month_def Day_def)
  ultimately show "\<exists>d. valid_date d \<and> EpochDay d = n" by blast
qed

lemma AddDays_ok:
  assumes "valid_date d" "in64 n" "jan1 MinYear \<le> EpochDay d + n" "EpochDay d + n < jan1 (MaxYear + 1)"
  obtains e where "AddDays d n = Inr e" "valid_date e" "EpochDay e = EpochDay d + n"
  using assms(3,4) date_of_day_iff [of "EpochDay d + n"] AddDays_Inr_iff [OF assms(1,2)] that by auto

lemma NewDate_first:
  assumes "MinYear \<le> y" "y \<le> MaxYear" "1 \<le> m" "m \<le> 12"
  obtains s where "NewDate y m 1 = Inr s" "valid_date s" "EpochDay s = daysFromCivil y m 1" "Year s = y"
proof
  let ?s = "\<lparr>date_year = y, date_month = m - 1, date_day = 0\<rparr>"
  show "NewDate y m 1 = Inr ?s" using assms valid_civil_first [of m y] by (simp add: NewDate_Inr_iff)
  then show "valid_date ?s" by (rule NewDate_valid)
qed (simp_all add: EpochDay_def Month_def Day_def Year_def)

lemma valid_date_Year: "valid_date d \<Longrightarrow> MinYear \<le> Year d \<and> Year d \<le> MaxYear"
  by (simp add: valid_date_def Year_def)

lemma OrdinalDay_bounds:
  assumes "valid_date d"
  shows "OrdinalDay d = EpochDay d - jan1 (Year d) + 1" "1 \<le> OrdinalDay d" "OrdinalDay d \<le> yearLength (Year d)"
proof -
  show e: "OrdinalDay d = EpochDay d - jan1 (Year d) + 1" by (simp add: OrdinalDay_def jan1_def Year_def)
  show "1 \<le> OrdinalDay d" "OrdinalDay d \<le> yearLength (Year d)"
    using EpochDay_Year [OF assms] jan1_succ [of "Year d"] unfolding e by linarith+
qed

lemma DateFromOrdinal_iff:
  "DateFromOrdinal y n = Inr d \<longleftrightarrow> valid_date d \<and> Year d = y \<and> OrdinalDay d = n"
proof
  assume r: "DateFromOrdinal y n = Inr d"
  then have n: "1 \<le> n" "n \<le> yearLength y"
    by (auto simp: DateFromOrdinal_def yearLength_def Let_def split: if_splits)
  from r obtain s where s: "NewDate y 1 1 = Inr s" "AddDays s (n - 1) = Inr d"
    by (auto simp: DateFromOrdinal_def bindE_Inr_iff Let_def split: if_splits)
  from s(1) have sv: "valid_date s" "EpochDay s = jan1 y"
    using NewDate_valid [OF s(1)] by (auto simp: NewDate_Inr_iff EpochDay_def Month_def Day_def jan1_def)
  have "in64 (n - 1)" using n yearLength_bounds [of y] by (simp add: in64_def)
  with s(2) sv have d: "valid_date d" "EpochDay d = jan1 y + (n - 1)" by (simp_all add: AddDays_Inr_iff)
  have "Year d = y" using d n jan1_succ [of y] by (intro Year_unique) linarith+
  with d OrdinalDay_bounds(1) [OF d(1)] show "valid_date d \<and> Year d = y \<and> OrdinalDay d = n" by simp
next
  assume a: "valid_date d \<and> Year d = y \<and> OrdinalDay d = n"
  then have d: "valid_date d" by simp
  note o = OrdinalDay_bounds [OF d]
  have y: "MinYear \<le> y" "y \<le> MaxYear" using a valid_date_Year [OF d] by auto
  obtain s where s: "NewDate y 1 1 = Inr s" "valid_date s" "EpochDay s = daysFromCivil y 1 1"
    using NewDate_first [OF y, of 1] by auto
  have "1 \<le> n" "n \<le> 366" using a o yearLength_bounds [of y] by auto
  then have "in64 (n - 1)" by (simp add: in64_def)
  moreover have "EpochDay d = EpochDay s + (n - 1)" using s(3) a o(1) by (auto simp: jan1_def)
  ultimately have "AddDays s (n - 1) = Inr d" using s(2) d by (simp add: AddDays_Inr_iff)
  moreover have "\<not> (n < 1 \<or> n > (if isLeapYear y then 365 + 1 else 365))"
    using a o by (auto simp: yearLength_def)
  ultimately show "DateFromOrdinal y n = Inr d" using s(1) by (simp add: DateFromOrdinal_def Let_def)
qed

lemma daysFromCivil_day: "1 \<le> m \<Longrightarrow> daysFromCivil y m d = daysFromCivil y m 1 + (d - 1)"
  by (simp add: daysFromCivil_march marchDay_def)

lemma month_succ: "1 \<le> m \<Longrightarrow> m < 12 \<Longrightarrow> daysFromCivil y (m + 1) 1 = daysFromCivil y m 1 + daysInMonth y m"
  using daysFromCivil_next [of y m "daysInMonth y m" y "m + 1" 1] daysInMonth_bounds [of y m]
    daysFromCivil_day [of m y "daysInMonth y m"]
  by (simp add: valid_civil_def)

definition quarterStart :: "int \<Rightarrow> int \<Rightarrow> int" where
  "quarterStart y q = daysFromCivil y ((q - 1) * 3 + 1) 1"

definition quarterLength :: "int \<Rightarrow> int \<Rightarrow> int" where
  "quarterLength y q = (let m = (q - 1) * 3 + 1
     in daysInMonth y m + daysInMonth y (m + 1) + daysInMonth y (m + 2))"

lemma quarterLength_bounds: "84 \<le> quarterLength y q" "quarterLength y q \<le> 93"
  unfolding quarterLength_def Let_def
  using daysInMonth_bounds [of y "(q - 1) * 3 + 1"] daysInMonth_bounds [of y "(q - 1) * 3 + 1 + 1"]
    daysInMonth_bounds [of y "(q - 1) * 3 + 1 + 2"] by linarith+

lemma Quarter_bounds:
  assumes "valid_date d"
  shows "1 \<le> Quarter d" "Quarter d \<le> 4" "(Quarter d - 1) * 3 + 1 \<le> Month d"
    "Month d \<le> (Quarter d - 1) * 3 + 3" "Quarter d = (Month d - 1) div 3 + 1"
proof -
  have m: "0 \<le> date_month d" "date_month d \<le> 11"
    using assms by (simp_all add: valid_date_def valid_civil_def Month_def)
  then have q: "Quarter d = date_month d div 3 + 1" by (simp add: Quarter_def sdiv_nonneg)
  define a where "a = date_month d div 3"
  have "3 * a \<le> date_month d" "date_month d < 3 * a + 3" unfolding a_def by (rule div_bounds; simp)+
  with m q show "1 \<le> Quarter d" "Quarter d \<le> 4" "(Quarter d - 1) * 3 + 1 \<le> Month d"
    "Month d \<le> (Quarter d - 1) * 3 + 3" "Quarter d = (Month d - 1) div 3 + 1"
    by (simp_all add: a_def [symmetric] Month_def)
qed

lemma month_of_quarter:
  assumes "1 \<le> q" "q \<le> 4"
  shows "daysFromCivil y ((q - 1) * 3 + 2) 1 = quarterStart y q + daysInMonth y ((q - 1) * 3 + 1)"
    "daysFromCivil y ((q - 1) * 3 + 3) 1 = quarterStart y q + daysInMonth y ((q - 1) * 3 + 1)
       + daysInMonth y ((q - 1) * 3 + 2)"
  using month_succ [of "(q - 1) * 3 + 1" y] month_succ [of "(q - 1) * 3 + 2" y] assms
  by (simp_all add: quarterStart_def)

lemma quarter_of_month:
  assumes "1 \<le> q" "q \<le> 4" "(q - 1) * 3 + 1 \<le> m" "m \<le> (q - 1) * 3 + 3" "valid_civil y m k"
  shows "quarterStart y q \<le> daysFromCivil y m k" "daysFromCivil y m k < quarterStart y q + quarterLength y q"
proof -
  have k: "1 \<le> k" "k \<le> daysInMonth y m" "1 \<le> m" using assms(5) by (simp_all add: valid_civil_def)
  note dd = daysFromCivil_day [OF k(3), of y k]
  note b = daysInMonth_bounds(1) [of y "(q - 1) * 3 + 1"] daysInMonth_bounds(1) [of y "(q - 1) * 3 + 2"]
    daysInMonth_bounds(1) [of y "(q - 1) * 3 + 3"]
  have e: "(q - 1) * 3 + 1 + 1 = (q - 1) * 3 + 2" "(q - 1) * 3 + 1 + 2 = (q - 1) * 3 + 3" by simp_all
  have "m = (q - 1) * 3 + 1 \<or> m = (q - 1) * 3 + 2 \<or> m = (q - 1) * 3 + 3" using assms(3,4) by linarith
  then show "quarterStart y q \<le> daysFromCivil y m k" "daysFromCivil y m k < quarterStart y q + quarterLength y q"
    unfolding quarterLength_def Let_def e
    using dd k b month_of_quarter [OF assms(1,2), of y] by (auto simp: quarterStart_def)
qed

lemma DayOfQuarter_bounds:
  assumes d: "valid_date d"
  shows "DayOfQuarter d = EpochDay d - quarterStart (Year d) (Quarter d) + 1"
    "1 \<le> DayOfQuarter d" "DayOfQuarter d \<le> quarterLength (Year d) (Quarter d)"
proof -
  note q = Quarter_bounds [OF d]
  have "1 \<le> (Quarter d - 1) * 3 + 1" "(Quarter d - 1) * 3 + 1 \<le> 12" using q(1,2) by simp_all
  then obtain s where s: "NewDate (Year d) ((Quarter d - 1) * 3 + 1) 1 = Inr s"
    "EpochDay s = quarterStart (Year d) (Quarter d)"
    using NewDate_first [of "Year d" "(Quarter d - 1) * 3 + 1"] valid_date_Year [OF d]
    unfolding quarterStart_def by blast
  then show e: "DayOfQuarter d = EpochDay d - quarterStart (Year d) (Quarter d) + 1"
    by (simp add: DayOfQuarter_def orZero_def)
  have "valid_civil (Year d) (Month d) (Day d)" using d by (simp add: valid_date_def Year_def)
  from quarter_of_month [OF q(1-4) this]
  show "1 \<le> DayOfQuarter d" "DayOfQuarter d \<le> quarterLength (Year d) (Quarter d)"
    unfolding e by (simp_all add: EpochDay_def Year_def)
qed

lemma date_in_quarter:
  assumes d: "valid_date d" and q: "1 \<le> q" "q \<le> 4"
    and b: "quarterStart y q \<le> EpochDay d" "EpochDay d < quarterStart y q + quarterLength y q"
  shows "Year d = y" "Quarter d = q"
proof -
  let ?m = "(q - 1) * 3 + 1"
  have m: "1 \<le> ?m" "?m \<le> 12" using q by simp_all
  have c: "valid_civil y ?m 1" using m by (rule valid_civil_first)
  have last: "quarterStart y q + quarterLength y q =
    (if q = 4 then jan1 (y + 1) else daysFromCivil y (?m + 3) 1)"
  proof (cases "q = 4")
    case True
    have "jan1 (y + 1) = daysFromCivil y 12 1 + 31"
      using daysFromCivil_next [of y 12 31 "y + 1" 1 1] daysFromCivil_day [of 12 y 31]
      by (simp add: jan1_def valid_civil_def daysInMonth_def)
    with True month_of_quarter [OF q, of y] show ?thesis
      by (simp add: quarterLength_def Let_def daysInMonth_def [of y 12])
  next
    case False
    then have "daysFromCivil y (?m + 2 + 1) 1 = daysFromCivil y (?m + 2) 1 + daysInMonth y (?m + 2)"
      using q by (intro month_succ) simp_all
    with False month_of_quarter [OF q, of y] show ?thesis
      by (simp add: quarterLength_def Let_def add.commute)
  qed
  have "quarterStart y q + quarterLength y q \<le> jan1 (y + 1)"
  proof (cases "q = 4")
    case False
    then have "valid_civil y (?m + 3) 1" using q by (intro valid_civil_first) simp_all
    from civil_year_bounds(2) [OF this] False last show ?thesis by simp
  next
    case True
    with last show ?thesis by simp
  qed
  with b civil_year_bounds(1) [OF c] show y: "Year d = y"
    by (intro Year_unique [OF d]) (simp_all add: quarterStart_def)
  have v: "valid_civil y (Month d) (Day d)" using d y by (simp add: valid_date_def Year_def)
  have e: "EpochDay d = daysFromCivil y (Month d) (Day d)" using y by (simp add: EpochDay_def Year_def)
  have "\<not> Month d < ?m"
    using daysFromCivil_less [OF v c] b(1) by (auto simp: e quarterStart_def)
  moreover have "\<not> ?m + 3 \<le> Month d"
  proof
    assume l: "?m + 3 \<le> Month d"
    then have q4: "q \<noteq> 4" using v by (auto simp: valid_civil_def)
    then have f: "valid_civil y (?m + 3) 1" using q by (intro valid_civil_first) simp_all
    have "daysFromCivil y (?m + 3) 1 \<le> daysFromCivil y (Month d) (Day d)"
      using daysFromCivil_less [OF f v] l v unfolding valid_civil_def
      by (cases "Month d = ?m + 3 \<and> Day d = 1") fastforce+
    with b(2) last q4 show False by (simp add: e)
  qed
  ultimately have m3: "?m \<le> Month d" "Month d \<le> ?m + 2" by simp_all
  have "(Month d - 1) div 3 = q - 1" by (rule div_unique_pos) (use m3 in simp_all)
  with Quarter_bounds(5) [OF d] show "Quarter d = q" by simp
qed

lemma DateFromQuarter_iff:
  "DateFromQuarter y q n = Inr d \<longleftrightarrow> valid_date d \<and> Year d = y \<and> Quarter d = q \<and> DayOfQuarter d = n"
proof
  assume r: "DateFromQuarter y q n = Inr d"
  then have q: "1 \<le> q" "q \<le> 4" by (auto simp: DateFromQuarter_def split: if_splits)
  from r obtain s where s: "NewDate y ((q - 1) * 3 + 1) 1 = Inr s" "AddDays s (n - 1) = Inr d"
    and n: "1 \<le> n" "n \<le> quarterLength y q"
    by (auto simp: DateFromQuarter_def bindE_Inr_iff Let_def quarterLength_def split: if_splits)
  from s(1) have sv: "valid_date s" "EpochDay s = quarterStart y q"
    using NewDate_valid [OF s(1)] by (auto simp: NewDate_Inr_iff EpochDay_def Month_def Day_def quarterStart_def)
  have "in64 (n - 1)" using n quarterLength_bounds [of y q] by (simp add: in64_def)
  with s(2) sv have d: "valid_date d" "EpochDay d = quarterStart y q + (n - 1)" by (simp_all add: AddDays_Inr_iff)
  have "Year d = y" using date_in_quarter(1) [OF d(1) q, of y] d(2) n by simp
  moreover have "Quarter d = q" using date_in_quarter(2) [OF d(1) q, of y] d(2) n by simp
  ultimately show "valid_date d \<and> Year d = y \<and> Quarter d = q \<and> DayOfQuarter d = n"
    using d DayOfQuarter_bounds(1) [OF d(1)] by simp
next
  assume a: "valid_date d \<and> Year d = y \<and> Quarter d = q \<and> DayOfQuarter d = n"
  then have d: "valid_date d" and y: "Year d = y" and q: "Quarter d = q" and n: "DayOfQuarter d = n" by auto
  note b = DayOfQuarter_bounds [OF d, unfolded y q n] Quarter_bounds(1,2) [OF d, unfolded q]
  have "1 \<le> (q - 1) * 3 + 1" "(q - 1) * 3 + 1 \<le> 12" using b by simp_all
  then obtain s where s: "NewDate y ((q - 1) * 3 + 1) 1 = Inr s" "valid_date s" "EpochDay s = quarterStart y q"
    using NewDate_first [of y "(q - 1) * 3 + 1"] valid_date_Year [OF d] y unfolding quarterStart_def by blast
  have "in64 (n - 1)" using b quarterLength_bounds [of y q] by (simp add: in64_def)
  then have "AddDays s (n - 1) = Inr d" using s(2,3) d b(1) by (simp add: AddDays_Inr_iff)
  with s(1) b(2-5) show "DateFromQuarter y q n = Inr d"
    by (simp add: DateFromQuarter_def Let_def quarterLength_def)
qed

section \<open>ISO weeks\<close>

text \<open>Weeks are numbered by their Thursday: \<open>weekIndex n\<close> is the index of the Thursday of the week
  that day \<open>n\<close> falls in, and \<open>firstWeek y\<close> the index of the first Thursday of a year.\<close>

definition weekIndex :: "int \<Rightarrow> int" where "weekIndex n = (n + 3) div 7"
definition firstWeek :: "int \<Rightarrow> int" where "firstWeek y = (jan1 y + 6) div 7"

lemma weekIndex_bounds: "7 * weekIndex n - 3 \<le> n" "n \<le> 7 * weekIndex n + 3"
proof -
  have "7 * weekIndex n \<le> n + 3" "n + 3 < 7 * weekIndex n + 7" unfolding weekIndex_def by (rule div_bounds; simp)+
  then show "7 * weekIndex n - 3 \<le> n" "n \<le> 7 * weekIndex n + 3" by simp_all
qed

lemma firstWeek_bounds: "jan1 y \<le> 7 * firstWeek y" "7 * firstWeek y \<le> jan1 y + 6"
proof -
  have "7 * firstWeek y \<le> jan1 y + 6" "jan1 y + 6 < 7 * firstWeek y + 7" unfolding firstWeek_def by (rule div_bounds; simp)+
  then show "jan1 y \<le> 7 * firstWeek y" "7 * firstWeek y \<le> jan1 y + 6" by simp_all
qed

lemma WeekDay_eq: "WeekDay d = EpochDay d - 7 * weekIndex (EpochDay d) + 4"
  by (simp add: WeekDay_def weekIndex_def minus_mult_div_eq_mod [symmetric])

lemma WeekDay_bounds: "1 \<le> WeekDay d" "WeekDay d \<le> 7"
  using weekIndex_bounds [of "EpochDay d"] by (simp_all add: WeekDay_eq)

lemma weekIndex_unique: "7 * a - 3 \<le> n \<Longrightarrow> n \<le> 7 * a + 3 \<Longrightarrow> weekIndex n = a"
  unfolding weekIndex_def by (rule div_unique_pos) simp_all

lemma jan1_weekdays: "7 * weekIndex (jan1 MinYear) - 3 = jan1 MinYear"
  "7 * weekIndex (jan1 (MaxYear + 1) - 1) + 1 = jan1 (MaxYear + 1) - 1"
  by (simp_all add: jan1_limits weekIndex_def)

lemma yearLength_weeks: "firstWeek y + 52 \<le> firstWeek (y + 1)" "firstWeek (y + 1) \<le> firstWeek y + 53"
  using firstWeek_bounds [of y] firstWeek_bounds [of "y + 1"] jan1_succ [of y] yearLength_bounds [of y]
  by linarith+

text \<open>The Thursday of a supported date's week is always a supported date: neither year limit cuts it
  off, so the errors that \<open>ISOWeek\<close> discards never occur.\<close>

lemma thursday_ok:
  assumes d: "valid_date d"
  obtains t where "AddDays d (4 - WeekDay d) = Inr t" "valid_date t" "EpochDay t = 7 * weekIndex (EpochDay d)"
proof -
  have n: "jan1 MinYear \<le> EpochDay d" "EpochDay d < jan1 (MaxYear + 1)" using date_of_day_iff d by blast+
  have "weekIndex (jan1 MinYear) \<le> weekIndex (EpochDay d)"
    "weekIndex (EpochDay d) \<le> weekIndex (jan1 (MaxYear + 1) - 1)"
    using n unfolding weekIndex_def by (simp_all add: zdiv_mono1)
  then have "jan1 MinYear \<le> 7 * weekIndex (EpochDay d)" "7 * weekIndex (EpochDay d) < jan1 (MaxYear + 1)"
    using jan1_weekdays by linarith+
  moreover have "EpochDay d + (4 - WeekDay d) = 7 * weekIndex (EpochDay d)" by (simp add: WeekDay_eq)
  moreover have "in64 (4 - WeekDay d)" using WeekDay_bounds [of d] by (simp add: in64_def)
  ultimately show ?thesis using AddDays_ok [OF d, of "4 - WeekDay d"] that by auto
qed

lemma week_one_ok:
  assumes y: "MinYear \<le> y" "y \<le> MaxYear"
  obtains j s where "NewDate y 1 4 = Inr j" "AddDays j (1 - WeekDay j) = Inr s" "valid_date s"
    "EpochDay s = 7 * firstWeek y - 3"
proof -
  let ?j = "\<lparr>date_year = y, date_month = 0, date_day = 3\<rparr>"
  have j: "NewDate y 1 4 = Inr ?j" using y by (simp add: NewDate_Inr_iff valid_civil_def daysInMonth_def)
  have v: "valid_date ?j" using j by (rule NewDate_valid)
  have e: "EpochDay ?j = jan1 y + 3"
    using daysFromCivil_day [of 1 y 4] by (simp add: EpochDay_def Month_def Day_def jan1_def)
  have w: "weekIndex (EpochDay ?j) = firstWeek y" by (simp add: weekIndex_def firstWeek_def e)
  have m: "EpochDay ?j + (1 - WeekDay ?j) = 7 * firstWeek y - 3" by (simp add: WeekDay_eq w)
  have i: "in64 (1 - WeekDay ?j)" using WeekDay_bounds [of ?j] by (simp add: in64_def)
  have lo: "jan1 MinYear \<le> 7 * firstWeek y - 3"
  proof (cases "y = MinYear")
    case True
    then show ?thesis by (simp add: firstWeek_def jan1_limits)
  next
    case False
    with y have "jan1 (MinYear + 1) \<le> jan1 y" by (intro jan1_mono) simp
    with jan1_succ [of MinYear] yearLength_bounds [of MinYear] firstWeek_bounds [of y] show ?thesis by linarith
  qed
  have hi: "7 * firstWeek y - 3 < jan1 (MaxYear + 1)"
    using firstWeek_bounds [of y] jan1_succ [of y] yearLength_bounds [of y]
      jan1_mono [of "y + 1" "MaxYear + 1"] y by linarith
  from AddDays_ok [OF v i] lo hi obtain s where "AddDays ?j (1 - WeekDay ?j) = Inr s" "valid_date s"
    "EpochDay s = 7 * firstWeek y - 3" unfolding m by blast
  with j show ?thesis by (rule that)
qed

lemma ISOWeek_eq:
  assumes d: "valid_date d" and t: "valid_date t" "EpochDay t = 7 * weekIndex (EpochDay d)"
  shows "ISOWeek d = (Year t, weekIndex (EpochDay d) - firstWeek (Year t) + 1)"
proof -
  obtain t' where t': "AddDays d (4 - WeekDay d) = Inr t'" "valid_date t'"
    "EpochDay t' = 7 * weekIndex (EpochDay d)" using thursday_ok [OF d] .
  then have "t' = t" using t by (intro EpochDay_inj) simp_all
  with t' have th: "AddDays d (4 - WeekDay d) = Inr t" by simp
  obtain j s where s: "NewDate (Year t) 1 4 = Inr j" "AddDays j (1 - WeekDay j) = Inr s"
    "EpochDay s = 7 * firstWeek (Year t) - 3"
    using week_one_ok [of "Year t"] valid_date_Year [OF t(1)] by blast
  have "firstWeek (Year t) \<le> weekIndex (EpochDay d)"
    using EpochDay_Year(1) [OF t(1)] t(2) firstWeek_bounds [of "Year t"] by linarith
  moreover have "EpochDay d - EpochDay s = 7 * (weekIndex (EpochDay d) - firstWeek (Year t)) + (WeekDay d - 1)"
    by (simp add: WeekDay_eq s(3))
  ultimately have "(EpochDay d - EpochDay s) sdiv 7 = weekIndex (EpochDay d) - firstWeek (Year t)"
    using WeekDay_bounds [of d] by (simp add: sdiv_nonneg)
  with th s show ?thesis by (simp add: ISOWeek_def orZero_def Let_def)
qed

lemma weeksInISOYear_eq:
  assumes y: "MinYear \<le> y" "y \<le> MaxYear"
  shows "weeksInISOYear y = firstWeek (y + 1) - firstWeek y"
proof -
  obtain s where s: "NewDate y 1 1 = Inr s" "EpochDay s = jan1 y"
    using NewDate_first [OF y, of 1] by (auto simp: jan1_def)
  define k w where "k = weekIndex (jan1 y)" and "w = WeekDay s"
  have w: "jan1 y = 7 * k + w - 4" "1 \<le> w" "w \<le> 7"
    using WeekDay_eq [of s] WeekDay_bounds [of s] by (simp_all add: k_def w_def s(2))
  have f: "firstWeek y = (if w \<le> 4 then k else k + 1)"
    unfolding firstWeek_def using w by (intro div_unique_pos) (simp_all split: if_splits)
  have g: "firstWeek (y + 1) = (let n = w + yearLength y - 4 in if n \<le> 364 then k + 52 else k + 53)"
    unfolding firstWeek_def jan1_succ using w yearLength_bounds [of y]
    by (intro div_unique_pos) (simp_all add: Let_def split: if_splits)
  have "weeksInISOYear y = (if w = 4 \<or> w = 3 \<and> isLeapYear y then 53 else 52)"
    by (simp add: weeksInISOYear_def s(1) Let_def w_def)
  moreover have "w = 1 \<or> w = 2 \<or> w = 3 \<or> w = 4 \<or> w = 5 \<or> w = 6 \<or> w = 7" using w by linarith
  ultimately show ?thesis by (auto simp: f g yearLength_def Let_def)
qed

lemma weeksInISOYear_outside: "\<not> (MinYear \<le> y \<and> y \<le> MaxYear) \<Longrightarrow> weeksInISOYear y = 0"
  by (auto simp: weeksInISOYear_def NewDate_def)

lemma iso_week_fields:
  assumes d: "valid_date d"
  shows "MinYear \<le> WeekYear d" "WeekYear d \<le> MaxYear"
    "Week d = weekIndex (EpochDay d) - firstWeek (WeekYear d) + 1"
    "firstWeek (WeekYear d) \<le> weekIndex (EpochDay d)"
    "weekIndex (EpochDay d) < firstWeek (WeekYear d + 1)"
proof -
  obtain t where t: "valid_date t" "EpochDay t = 7 * weekIndex (EpochDay d)" using thursday_ok [OF d] .
  note e = ISOWeek_eq [OF d t]
  show "MinYear \<le> WeekYear d" "WeekYear d \<le> MaxYear"
    using valid_date_Year [OF t(1)] by (simp_all add: WeekYear_def e)
  show "Week d = weekIndex (EpochDay d) - firstWeek (WeekYear d) + 1"
    by (simp add: Week_def WeekYear_def e)
  show "firstWeek (WeekYear d) \<le> weekIndex (EpochDay d)"
    "weekIndex (EpochDay d) < firstWeek (WeekYear d + 1)"
    using EpochDay_Year [OF t(1)] t(2) firstWeek_bounds [of "Year t"] firstWeek_bounds [of "Year t + 1"]
    by (simp_all add: WeekYear_def e)
qed

lemma WeekYear_unique:
  assumes d: "valid_date d" and "firstWeek y \<le> weekIndex (EpochDay d)" "weekIndex (EpochDay d) < firstWeek (y + 1)"
  shows "WeekYear d = y"
proof -
  obtain t where t: "valid_date t" "EpochDay t = 7 * weekIndex (EpochDay d)" using thursday_ok [OF d] .
  have "Year t = y"
    using assms(2,3) firstWeek_bounds [of y] firstWeek_bounds [of "y + 1"] t
    by (intro Year_unique) linarith+
  then show ?thesis by (simp add: WeekYear_def ISOWeek_eq [OF d t])
qed

lemma DateFromWeek_iff:
  "DateFromWeek y w k = Inr d \<longleftrightarrow> valid_date d \<and> WeekYear d = y \<and> Week d = w \<and> WeekDay d = k"
proof
  assume r: "DateFromWeek y w k = Inr d"
  then have k: "1 \<le> k" "k \<le> 7" "1 \<le> w" "w \<le> weeksInISOYear y"
    by (auto simp: DateFromWeek_def not_less split: if_splits)
  then have y: "MinYear \<le> y" "y \<le> MaxYear" using weeksInISOYear_outside [of y] by auto
  obtain j s where s: "NewDate y 1 4 = Inr j" "AddDays j (1 - WeekDay j) = Inr s" "valid_date s"
    "EpochDay s = 7 * firstWeek y - 3" using week_one_ok [OF y] .
  have w: "w \<le> firstWeek (y + 1) - firstWeek y" using k(4) weeksInISOYear_eq [OF y] by simp
  have "in64 ((w - 1) * 7 + k - 1)" using k w yearLength_weeks [of y] by (simp add: in64_def)
  moreover have "AddDays s ((w - 1) * 7 + k - 1) = Inr d"
    using r s k by (simp add: DateFromWeek_def split: if_splits)
  ultimately have d: "valid_date d" "EpochDay d = 7 * (firstWeek y + w - 1) - 4 + k"
    using s(3,4) by (simp_all add: AddDays_Inr_iff)
  have i: "weekIndex (EpochDay d) = firstWeek y + w - 1"
    using k d(2) by (intro weekIndex_unique) simp_all
  have wy: "WeekYear d = y" using k w i by (intro WeekYear_unique [OF d(1)]) simp_all
  with iso_week_fields(3) [OF d(1)] i d show "valid_date d \<and> WeekYear d = y \<and> Week d = w \<and> WeekDay d = k"
    by (simp add: WeekDay_eq)
next
  assume a: "valid_date d \<and> WeekYear d = y \<and> Week d = w \<and> WeekDay d = k"
  then have d: "valid_date d" and f: "WeekYear d = y" "Week d = w" "WeekDay d = k" by simp_all
  note i = iso_week_fields [OF d, unfolded f]
  note y = i(1,2)
  have k: "1 \<le> k" "k \<le> 7" using WeekDay_bounds [of d] f by simp_all
  obtain j s where s: "NewDate y 1 4 = Inr j" "AddDays j (1 - WeekDay j) = Inr s" "valid_date s"
    "EpochDay s = 7 * firstWeek y - 3" using week_one_ok [OF y] .
  have "EpochDay d = EpochDay s + ((w - 1) * 7 + k - 1)"
    using WeekDay_eq [of d] f(3) by (simp add: s(4) i(3))
  moreover have "in64 ((w - 1) * 7 + k - 1)"
    using k i(3-5) yearLength_weeks [of y] by (simp add: in64_def)
  ultimately have "AddDays s ((w - 1) * 7 + k - 1) = Inr d" using s(3) d by (simp add: AddDays_Inr_iff)
  with s(1,2) k i weeksInISOYear_eq [OF y] show "DateFromWeek y w k = Inr d"
    by (simp add: DateFromWeek_def)
qed

end
