(* ===== verification/Date_Text.thy ===== *)
theory Date_Text
  imports Date_Fields
begin

text \<open>
  The text forms of dates: \<open>ParseDate\<close> with its helpers \<open>splitDateYear\<close> and \<open>parseUnsigned\<close>, and the
  canonical rendering \<open>Date.String\<close>.  Error messages are not modelled, only the sentinel they wrap.
\<close>

section \<open>Text helpers of the standard library\<close>

text \<open>\<open>format_int w n\<close> is \<open>fmt.Sprintf("%0wd", n)\<close> (the sign counts towards the width), and with width
  zero \<open>strconv.FormatInt(n, 10)\<close>.  \<open>parse_int64\<close> is \<open>strconv.ParseInt(s, 10, 64)\<close> and \<open>strconv.Atoi\<close>.\<close>

definition format_int :: "nat \<Rightarrow> int \<Rightarrow> string" where
  "format_int w n =
     (if n < 0 then CHR ''-'' # pad0 (w - 1) (nat_text (nat (- n))) else pad0 w (nat_text (nat n)))"

definition parse_int64 :: "string \<Rightarrow> int option" where
  "parse_int64 s =
     (let negative = (s \<noteq> [] \<and> hd s = CHR ''-'');
          digits = (if s \<noteq> [] \<and> (hd s = CHR ''-'' \<or> hd s = CHR ''+'') then tl s else s);
          value = (if negative then - int (digits_val 0 digits) else int (digits_val 0 digits))
      in if digits = [] \<or> \<not> list_all is_digit digits \<or> \<not> in64 value then None else Some value)"

definition has_prefix :: "char \<Rightarrow> string \<Rightarrow> bool" where
  "has_prefix c s \<longleftrightarrow> s \<noteq> [] \<and> hd s = c"

lemma is_digit_not_sign [simp]:
  "is_digit c \<Longrightarrow> c \<noteq> CHR ''-''" "is_digit c \<Longrightarrow> c \<noteq> CHR ''+''" "is_digit c \<Longrightarrow> c \<noteq> CHR ''W''"
  "is_digit c \<Longrightarrow> c \<noteq> CHR ''Q''" "is_digit c \<Longrightarrow> c \<noteq> CHR '':''" "is_digit c \<Longrightarrow> c \<noteq> CHR ''.''"
  "is_digit c \<Longrightarrow> c \<noteq> CHR '',''" "is_digit c \<Longrightarrow> c \<noteq> CHR ''Z''" "is_digit c \<Longrightarrow> c \<noteq> CHR ''z''"
  "is_digit c \<Longrightarrow> c \<noteq> CHR ''T''" "is_digit c \<Longrightarrow> c \<noteq> CHR ''P''"
  by (auto simp: is_digit_def)

lemma parse_int64_digits:
  "s \<noteq> [] \<Longrightarrow> list_all is_digit s \<Longrightarrow> in64 (int (digits_val 0 s)) \<Longrightarrow> parse_int64 s = Some (int (digits_val 0 s))"
  by (cases s) (auto simp: parse_int64_def)

lemma parse_int64_signed:
  assumes "s \<noteq> []" "list_all is_digit s" "int (digits_val 0 s) \<le> 9223372036854775807"
  shows "parse_int64 (CHR ''-'' # s) = Some (- int (digits_val 0 s))"
    "parse_int64 (CHR ''+'' # s) = Some (int (digits_val 0 s))"
  using assms by (auto simp: parse_int64_def in64_def)

section \<open>Parsing\<close>

definition parseUnsigned :: "string \<Rightarrow> terror + int" where
  "parseUnsigned input =
     (if input = [] then Inl ErrInvalid
      else if \<not> list_all is_digit input then Inl ErrInvalid
      else case parse_int64 input of None \<Rightarrow> Inl ErrInvalid | Some value \<Rightarrow> Inr value)"

definition splitDateYear :: "string \<Rightarrow> terror + (int \<times> string)" where
  "splitDateYear input =
     (let start = (if hd input = CHR ''+'' \<or> hd input = CHR ''-'' then 1 else 0);
          stop = start + length (takeWhile is_digit (drop start input))
      in if stop - start < 4 then Inl ErrInvalid
         else let stop = (if start = 0 \<and> stop > 4 then 4 else stop)
              in case parse_int64 (take stop input) of
                   None \<Rightarrow> Inl ErrInvalid
                 | Some year \<Rightarrow>
                     if year < MinYear \<or> year > MaxYear then Inl ErrInvalid
                     else Inr (year, drop stop input))"

text \<open>The three families of date bodies after the year: ISO week, quarter and digits.\<close>

definition parseWeekBody :: "int \<Rightarrow> bool \<Rightarrow> string \<Rightarrow> terror + Date" where
  "parseWeekBody year extended weekText =
     bindE (if extended
            then if length weekText = 4 \<and> weekText ! 2 = CHR ''-''
                 then Inr (take 2 weekText @ drop 3 weekText)
                 else if length weekText \<noteq> 2 then Inl ErrInvalid else Inr weekText
            else if length weekText \<noteq> 2 \<and> length weekText \<noteq> 3 \<or> CHR ''-'' \<in> set weekText
                 then Inl ErrInvalid else Inr weekText) (\<lambda>weekText.
     bindE (parseUnsigned (take 2 weekText)) (\<lambda>week.
     bindE (if length weekText = 3 then parseUnsigned (drop 2 weekText) else Inr 1) (\<lambda>day.
       DateFromWeek year week day)))"

definition parseQuarterBody :: "int \<Rightarrow> bool \<Rightarrow> string \<Rightarrow> terror + Date" where
  "parseQuarterBody year extended quarterText =
     bindE (if extended
            then if length quarterText \<ge> 3 \<and> quarterText ! 1 = CHR ''-''
                 then Inr (take 1 quarterText @ drop 2 quarterText)
                 else if length quarterText \<noteq> 1 then Inl ErrInvalid else Inr quarterText
            else Inr quarterText) (\<lambda>quarterText.
       if length quarterText < 1 \<or> length quarterText > 3 \<or> CHR ''-'' \<in> set quarterText
       then Inl ErrInvalid
       else bindE (parseUnsigned (take 1 quarterText)) (\<lambda>quarter.
            bindE (if length quarterText > 1 then parseUnsigned (drop 1 quarterText) else Inr 1) (\<lambda>day.
              DateFromQuarter year quarter day)))"

definition parseDigitsBody :: "int \<Rightarrow> bool \<Rightarrow> string \<Rightarrow> terror + Date" where
  "parseDigitsBody year extended body =
     bindE (if extended
            then if length body = 2 \<or> length body = 3 then Inr body
                 else if length body = 5 \<and> body ! 2 = CHR ''-'' then Inr (take 2 body @ drop 3 body)
                 else Inl ErrInvalid
            else if CHR ''-'' \<in> set body then Inl ErrInvalid else Inr body) (\<lambda>digits.
       if length digits = 2 then bindE (parseUnsigned digits) (\<lambda>month. NewDate year month 1)
       else if length digits = 3 then bindE (parseUnsigned digits) (\<lambda>ordinal. DateFromOrdinal year ordinal)
       else if length digits = 4
       then bindE (parseUnsigned (take 2 digits)) (\<lambda>month.
            bindE (parseUnsigned (drop 2 digits)) (\<lambda>day. NewDate year month day))
       else Inl ErrInvalid)"

definition ParseDate :: "string \<Rightarrow> terror + Date" where
  "ParseDate input =
     (if input = [] then Inl ErrInvalid
      else bindE (splitDateYear input) (\<lambda>(year, rest).
        if rest = [] then NewDate year 1 1
        else let extended = has_prefix (CHR ''-'') rest;
                 body = (if extended then tl rest else rest)
             in if extended \<and> (body = [] \<or> hd body = CHR ''-'') then Inl ErrInvalid
                else if has_prefix (CHR ''W'') body then parseWeekBody year extended (tl body)
                else if has_prefix (CHR ''Q'') body then parseQuarterBody year extended (tl body)
                else parseDigitsBody year extended body))"

section \<open>Rendering\<close>

definition formatYear :: "int \<Rightarrow> string" where
  "formatYear year =
     (if year \<ge> 0 \<and> year \<le> 9999 then format_int 4 year
      else if year < 0 then CHR ''-'' # format_int 4 (- year)
      else CHR ''+'' # format_int 0 year)"

definition DateString :: "Date \<Rightarrow> string" where
  "DateString d = formatYear (date_year d) @ CHR ''-'' # format_int 2 (Month d) @ CHR ''-'' # format_int 2 (Day d)"

definition DateMarshalText :: "Date \<Rightarrow> terror + string" where
  "DateMarshalText d = bindE (NewDate (Year d) (Month d) (Day d)) (\<lambda>_. Inr (DateString d))"

section \<open>Digit groups\<close>

lemma format_int_nonneg: "0 \<le> n \<Longrightarrow> format_int w n = pad0 w (nat_text (nat n))"
  by (simp add: format_int_def)

lemma format_int_digits [simp]: "0 \<le> n \<Longrightarrow> list_all is_digit (format_int w n)"
  using nat_text_digits [of "nat n"] pad0_digits by (auto simp: format_int_nonneg list_all_iff)

lemma digits_val_format_int [simp]: "0 \<le> n \<Longrightarrow> digits_val 0 (format_int w n) = nat n"
  by (simp add: format_int_nonneg)

lemma format_int_nonempty [simp]: "format_int w n \<noteq> []"
  by (auto simp: format_int_def pad0_def)

lemma length_format_int: "0 \<le> n \<Longrightarrow> n < 10 ^ w \<Longrightarrow> 0 < w \<Longrightarrow> length (format_int w n) = w"
  by (simp add: format_int_nonneg length_pad0_nat_text nat_less_iff)

lemma length_format_int2 [simp]: "0 \<le> n \<Longrightarrow> n \<le> 99 \<Longrightarrow> length (format_int 2 n) = 2"
  by (rule length_format_int) simp_all

lemma length_format_int_ge: "0 \<le> n \<Longrightarrow> w \<le> length (format_int w n)"
  by (simp add: format_int_nonneg length_pad0)

lemma parseUnsigned_format_int [simp]:
  "0 \<le> n \<Longrightarrow> n \<le> 9223372036854775807 \<Longrightarrow> parseUnsigned (format_int w n) = Inr n"
  by (simp add: parseUnsigned_def parse_int64_digits in64_def)

lemma parseUnsigned_Inr: "parseUnsigned s = Inr n \<Longrightarrow>
    s \<noteq> [] \<and> list_all is_digit s \<and> n = int (digits_val 0 s) \<and> in64 n"
proof -
  assume p: "parseUnsigned s = Inr n"
  then have s: "s \<noteq> []" "list_all is_digit s" by (auto simp: parseUnsigned_def split: if_splits)
  with p show ?thesis
    by (cases s) (auto simp: parseUnsigned_def parse_int64_def Let_def split: if_splits option.splits)
qed

lemma two_chars: "length s = 2 \<Longrightarrow> \<exists>a b. s = [a, b]"
  by (cases s; cases "tl s") auto

lemma format_int2_chars:
  assumes "0 \<le> n" "n \<le> 99"
  obtains a b where "format_int 2 n = [a, b]" "is_digit a" "is_digit b"
proof -
  from assms obtain a b where e: "format_int 2 n = [a, b]" using two_chars [of "format_int 2 n"] by auto
  moreover have "list_all is_digit [a, b]" using assms unfolding e [symmetric] by simp
  ultimately show ?thesis using that by simp
qed

section \<open>Parsing a rendered date\<close>

lemma takeWhile_digits: "list_all is_digit ds \<Longrightarrow> rest = [] \<or> \<not> is_digit (hd rest) \<Longrightarrow>
    takeWhile is_digit (ds @ rest) = ds"
  by (induction ds) (cases rest; auto)+

lemma splitDateYear_formatYear:
  assumes y: "MinYear \<le> y" "y \<le> MaxYear" and r: "rest = [] \<or> \<not> is_digit (hd rest)"
  shows "splitDateYear (formatYear y @ rest) = Inr (y, rest)"
proof -
  consider (basic) "0 \<le> y" "y \<le> 9999" | (neg) "y < 0" | (large) "y > 9999" by linarith
  then show ?thesis
  proof cases
    case basic
    let ?ds = "format_int 4 y"
    have l: "length ?ds = 4" using basic by (intro length_format_int) simp_all
    have d: "list_all is_digit ?ds" using basic by simp
    then have h: "is_digit (hd (?ds @ rest))" by (cases ?ds) auto
    have p: "parse_int64 ?ds = Some y" using basic d by (simp add: parse_int64_digits in64_def)
    show ?thesis using basic y h l p takeWhile_digits [OF d r]
      by (simp add: formatYear_def splitDateYear_def Let_def)
  next
    case neg
    let ?ds = "format_int 4 (- y)"
    have l: "4 \<le> length ?ds" using neg length_format_int_ge [of "- y" 4] by simp
    have d: "list_all is_digit ?ds" using neg by simp
    have p: "parse_int64 (CHR ''-'' # ?ds) = Some y"
      using neg d y parse_int64_signed(1) [of ?ds] by (simp add: range_simps)
    show ?thesis using neg y l p takeWhile_digits [OF d r]
      by (simp add: formatYear_def splitDateYear_def Let_def)
  next
    case large
    let ?ds = "format_int 0 y"
    have "10 ^ 3 \<le> nat y" using large by simp
    then have l: "4 \<le> length ?ds" using length_nat_text_ge [of 3 "nat y"] large
      by (simp add: format_int_nonneg pad0_def)
    have d: "list_all is_digit ?ds" using large by simp
    have p: "parse_int64 (CHR ''+'' # ?ds) = Some y"
      using large d y parse_int64_signed(2) [of ?ds] by (simp add: range_simps)
    show ?thesis using large y l p takeWhile_digits [OF d r]
      by (simp add: formatYear_def splitDateYear_def Let_def)
  qed
qed

lemma formatYear_nonempty [simp]: "formatYear y \<noteq> []"
  by (simp add: formatYear_def)

lemma valid_date_month_day:
  "valid_date d \<Longrightarrow> 1 \<le> Month d \<and> Month d \<le> 12 \<and> 1 \<le> Day d \<and> Day d \<le> 31"
  using daysInMonth_bounds [of "date_year d" "Month d"] by (simp add: valid_date_def valid_civil_def)

lemma ParseDate_DateString:
  assumes d: "valid_date d"
  shows "ParseDate (DateString d) = Inr d"
proof -
  note md = valid_date_month_day [OF d]
  obtain a b where m: "format_int 2 (Month d) = [a, b]" "is_digit a" "is_digit b"
    using format_int2_chars [of "Month d"] md by auto
  have pm: "parseUnsigned [a, b] = Inr (Month d)" using md m(1) parseUnsigned_format_int [of "Month d" 2] by simp
  obtain u v where k: "format_int 2 (Day d) = [u, v]" "is_digit u" "is_digit v"
    using format_int2_chars [of "Day d"] md by auto
  have pd: "parseUnsigned [u, v] = Inr (Day d)" using md k(1) parseUnsigned_format_int [of "Day d" 2] by simp
  let ?rest = "[CHR ''-'', a, b, CHR ''-'', u, v]"
  have s: "splitDateYear (DateString d) = Inr (date_year d, ?rest)"
    unfolding DateString_def m(1) k(1) using d
    by (subst append_Cons [symmetric], subst splitDateYear_formatYear)
      (simp_all add: valid_date_def is_digit_def)
  have ne: "DateString d \<noteq> []" by (simp add: DateString_def)
  have nd: "NewDate (date_year d) (Month d) (Day d) = Inr d" using NewDate_fields [OF d] by (simp add: Year_def)
  have "parseDigitsBody (date_year d) True [a, b, CHR ''-'', u, v] = Inr d"
    by (simp add: parseDigitsBody_def pm pd nd eval_nat_numeral)
  with s ne m(2) show ?thesis by (simp add: ParseDate_def has_prefix_def)
qed

lemma DateMarshalText_valid: "valid_date d \<Longrightarrow> DateMarshalText d = Inr (DateString d)"
  by (simp add: DateMarshalText_def NewDate_fields)

text \<open>Whatever the parser accepts is a supported date, and every rejection is \<open>ErrInvalid\<close>.\<close>

lemma DateFrom_valid:
  "NewDate y m k = Inr d \<Longrightarrow> valid_date d" "DateFromOrdinal y n = Inr d \<Longrightarrow> valid_date d"
  "DateFromWeek y w k = Inr d \<Longrightarrow> valid_date d" "DateFromQuarter y q n = Inr d \<Longrightarrow> valid_date d"
  by (auto simp: NewDate_valid DateFromOrdinal_iff DateFromWeek_iff DateFromQuarter_iff)

lemma ParseDate_valid:
  assumes "ParseDate s = Inr d"
  shows "valid_date d"
  using assms unfolding ParseDate_def parseWeekBody_def parseQuarterBody_def parseDigitsBody_def Let_def
  by (auto simp: bindE_Inr_iff split: if_splits prod.splits dest: DateFrom_valid)

end
