(* ===== verification/Duration_Core.thy ===== *)
theory Duration_Core
  imports Temporal_Arith
begin

text \<open>
  The three-group duration of \<open>internal/domain/temporal/duration.go\<close>: construction and
  canonicalisation, exact rational scaling with its cascade of fractions towards smaller groups,
  component-wise arithmetic, the ordering used by \<open>ORDER BY\<close>, and the accessors.  \<open>big.Int\<close> and
  \<open>big.Rat\<close> are the unbounded integers and the rationals.
\<close>

section \<open>The duration type\<close>

record Duration =
  dur_months :: int
  dur_days :: int
  dur_seconds :: int
  dur_nanoseconds :: int

definition valid_duration :: "Duration \<Rightarrow> bool" where
  "valid_duration d \<longleftrightarrow> in64 (dur_months d) \<and> in64 (dur_days d) \<and> in64 (dur_seconds d) \<and>
     0 \<le> dur_nanoseconds d \<and> dur_nanoseconds d < nanosecondsPerSecond"

definition NewDuration :: "int \<Rightarrow> int \<Rightarrow> int \<Rightarrow> int \<Rightarrow> terror + Duration" where
  "NewDuration months days seconds nanoseconds =
     (let carry = floorDiv nanoseconds nanosecondsPerSecond;
          remainder = floorMod nanoseconds nanosecondsPerSecond
      in case checkedAdd seconds carry of
           Inl _ \<Rightarrow> Inl ErrOverflow
         | Inr normalizedSeconds \<Rightarrow>
             Inr \<lparr>dur_months = months, dur_days = days, dur_seconds = normalizedSeconds,
                  dur_nanoseconds = i32 remainder\<rparr>)"

definition secondsGroupNanoseconds :: "Duration \<Rightarrow> int" where
  "secondsGroupNanoseconds d = dur_seconds d * nanosecondsPerSecond + dur_nanoseconds d"

text \<open>\<open>big.Int.QuoRem\<close> truncates; the code then moves to the floor.\<close>

definition durationFromTotalNanoseconds :: "int \<Rightarrow> int \<Rightarrow> int \<Rightarrow> terror + Duration" where
  "durationFromTotalNanoseconds months days total_ns =
     (let seconds = total_ns sdiv nanosecondsPerSecond;
          remainder = total_ns smod nanosecondsPerSecond;
          (seconds, remainder) = (if remainder < 0 then (seconds - 1, remainder + nanosecondsPerSecond)
                                  else (seconds, remainder))
      in if \<not> in64 seconds then Inl ErrOverflow
         else NewDuration months days seconds remainder)"

section \<open>Rational cascades\<close>

definition rat_quo :: "rat \<Rightarrow> int" where
  "rat_quo q = (case quotient_of q of (num, denom) \<Rightarrow> num sdiv denom)"

definition splitRat :: "rat \<Rightarrow> int \<times> rat" where
  "splitRat value = (let whole = rat_quo value in (whole, value - of_int whole))"

definition durationFromRationals :: "rat \<Rightarrow> rat \<Rightarrow> rat \<Rightarrow> terror + Duration" where
  "durationFromRationals months days seconds =
     (let (wholeMonths, fractionalMonths) = splitRat months
      in if \<not> in64 wholeMonths then Inl ErrOverflow
         else let allDays = days + fractionalMonths * (146097 / 4800);
                  (wholeDays, fractionalDays) = splitRat allDays
              in if \<not> in64 wholeDays then Inl ErrOverflow
                 else let allSeconds = seconds + fractionalDays * of_int secondsPerDay;
                          totalNanoseconds = allSeconds * of_int nanosecondsPerSecond;
                          nanoseconds = rat_quo totalNanoseconds
                      in durationFromTotalNanoseconds wholeMonths wholeDays nanoseconds)"

definition scale :: "Duration \<Rightarrow> rat \<Rightarrow> terror + Duration" where
  "scale d factor =
     (let months = of_int (dur_months d) * factor;
          days = of_int (dur_days d) * factor;
          seconds = of_int (secondsGroupNanoseconds d) / of_int nanosecondsPerSecond * factor
      in durationFromRationals months days seconds)"

section \<open>Component-wise arithmetic\<close>

text \<open>\<open>overflow_as\<close> is the rewrapping of an error of a checked operation as \<open>ErrOverflow\<close>.\<close>

definition overflow_as :: "terror + 'a \<Rightarrow> terror + 'a" where
  "overflow_as m = (case m of Inl _ \<Rightarrow> Inl ErrOverflow | Inr x \<Rightarrow> Inr x)"

definition DurationAdd :: "Duration \<Rightarrow> Duration \<Rightarrow> terror + Duration" where
  "DurationAdd d other =
     bindE (overflow_as (checkedAdd (dur_months d) (dur_months other))) (\<lambda>months.
     bindE (overflow_as (checkedAdd (dur_days d) (dur_days other))) (\<lambda>days.
     bindE (overflow_as (checkedAdd (dur_seconds d) (dur_seconds other))) (\<lambda>seconds.
       NewDuration months days seconds (dur_nanoseconds d + dur_nanoseconds other))))"

definition DurationSubtract :: "Duration \<Rightarrow> Duration \<Rightarrow> terror + Duration" where
  "DurationSubtract d other =
     bindE (overflow_as (checkedSub (dur_months d) (dur_months other))) (\<lambda>months.
     bindE (overflow_as (checkedSub (dur_days d) (dur_days other))) (\<lambda>days.
       durationFromTotalNanoseconds months days
         (secondsGroupNanoseconds d - secondsGroupNanoseconds other)))"

definition Negate :: "Duration \<Rightarrow> terror + Duration" where
  "Negate d =
     (if dur_months d = -9223372036854775808 \<or> dur_days d = -9223372036854775808 then Inl ErrOverflow
      else durationFromTotalNanoseconds (- dur_months d) (- dur_days d) (- secondsGroupNanoseconds d))"

definition orderNanoseconds :: "Duration \<Rightarrow> int" where
  "orderNanoseconds d =
     dur_months d * (2629746 * nanosecondsPerSecond) + dur_days d * (secondsPerDay * nanosecondsPerSecond)
     + secondsGroupNanoseconds d"

definition CompareForOrder :: "Duration \<Rightarrow> Duration \<Rightarrow> int" where
  "CompareForOrder d other =
     (if orderNanoseconds d < orderNanoseconds other then -1
      else if orderNanoseconds d > orderNanoseconds other then 1 else 0)"

section \<open>Accessors\<close>

definition Seconds :: "Duration \<Rightarrow> int" where
  "Seconds d = (if dur_seconds d < 0 \<and> dur_nanoseconds d \<noteq> 0 then dur_seconds d + 1 else dur_seconds d)"

definition quotientRemainder :: "int \<Rightarrow> int \<Rightarrow> int \<Rightarrow> terror + int" where
  "quotientRemainder total_ns boundary unit =
     (let remainder = total_ns smod boundary;
          value = remainder sdiv unit
      in if \<not> in64 value then Inl ErrOverflow else Inr value)"

definition DurationComponent :: "Duration \<Rightarrow> string \<Rightarrow> terror + int" where
  "DurationComponent d name =
     (let total_ns = secondsGroupNanoseconds d;
          quotient = (\<lambda>unit. let value = total_ns sdiv unit
                             in if \<not> in64 value then Inl ErrOverflow else Inr value)
      in if name = ''years'' then Inr (dur_months d sdiv 12)
         else if name = ''quarters'' then Inr (dur_months d sdiv 3)
         else if name = ''months'' then Inr (dur_months d)
         else if name = ''quartersOfYear'' then Inr ((dur_months d smod 12) sdiv 3)
         else if name = ''monthsOfQuarter'' then Inr (dur_months d smod 3)
         else if name = ''monthsOfYear'' then Inr (dur_months d smod 12)
         else if name = ''weeks'' then Inr (dur_days d sdiv 7)
         else if name = ''days'' then Inr (dur_days d)
         else if name = ''daysOfWeek'' then Inr (dur_days d smod 7)
         else if name = ''hours'' then quotient (3600 * nanosecondsPerSecond)
         else if name = ''minutes'' then quotient (60 * nanosecondsPerSecond)
         else if name = ''seconds'' then quotient nanosecondsPerSecond
         else if name = ''milliseconds'' then quotient 1000000
         else if name = ''microseconds'' then quotient 1000
         else if name = ''nanoseconds'' then quotient 1
         else if name = ''minutesOfHour''
           then quotientRemainder total_ns (3600 * nanosecondsPerSecond) (60 * nanosecondsPerSecond)
         else if name = ''secondsOfMinute''
           then quotientRemainder total_ns (60 * nanosecondsPerSecond) nanosecondsPerSecond
         else if name = ''millisecondsOfSecond'' then quotientRemainder total_ns nanosecondsPerSecond 1000000
         else if name = ''microsecondsOfSecond'' then quotientRemainder total_ns nanosecondsPerSecond 1000
         else if name = ''nanosecondsOfSecond'' then quotientRemainder total_ns nanosecondsPerSecond 1
         else Inl ErrInvalid)"

section \<open>Canonical durations are determined by their groups\<close>

lemma total_split:
  assumes "0 \<le> n" "n < 1000000000"
  shows "(s * 1000000000 + n) div 1000000000 = s" "(s * 1000000000 + n) mod 1000000000 = (n :: int)"
  using assms by simp_all

lemma duration_equality:
  assumes "valid_duration a" "valid_duration b" "dur_months a = dur_months b" "dur_days a = dur_days b"
    "secondsGroupNanoseconds a = secondsGroupNanoseconds b"
  shows "a = b"
proof -
  have "dur_seconds a = dur_seconds b" "dur_nanoseconds a = dur_nanoseconds b"
    using assms(1,2,5) total_split [of "dur_nanoseconds a" "dur_seconds a"]
      total_split [of "dur_nanoseconds b" "dur_seconds b"]
    by (simp_all add: valid_duration_def secondsGroupNanoseconds_def range_simps)
  with assms(3,4) show ?thesis by (intro Duration.equality) simp_all
qed

lemma NewDuration_exact:
  assumes "in64 s" "in64 n" "in64 m" "in64 d"
  shows "NewDuration m d s n =
    (if in64 (s + n div 1000000000)
     then Inr \<lparr>dur_months = m, dur_days = d, dur_seconds = s + n div 1000000000,
               dur_nanoseconds = n mod 1000000000\<rparr>
     else Inl ErrOverflow)"
proof -
  have "in64 (n div 1000000000)"
  proof -
    define q where "q = n div 1000000000"
    have "1000000000 * q \<le> n" "n < 1000000000 * q + 1000000000"
      using mult_div_mod_eq [of 1000000000 n] pos_mod_bound [of 1000000000 n] pos_mod_sign [of 1000000000 n]
      unfolding q_def by simp_all
    with assms(2) show ?thesis unfolding q_def [symmetric] in64_def by linarith
  qed
  moreover have "i32 (n mod 1000000000) = n mod 1000000000"
    using pos_mod_bound [of 1000000000 n] pos_mod_sign [of 1000000000 n]
    by (intro i32_id) (simp add: in32_def, linarith)
  ultimately show ?thesis using assms
    by (simp add: NewDuration_def checkedAdd_exact nanosecondsPerSecond_def Let_def)
qed

text \<open>The seconds group is exact: a total of nanoseconds becomes its floor quotient and remainder.\<close>

lemma durationFromTotal_exact:
  assumes "in64 m" "in64 d"
  shows "durationFromTotalNanoseconds m d t =
    (if in64 (t div 1000000000)
     then Inr \<lparr>dur_months = m, dur_days = d, dur_seconds = t div 1000000000,
               dur_nanoseconds = t mod 1000000000\<rparr>
     else Inl ErrOverflow)"
proof -
  have q: "(if t smod 1000000000 < 0 then t sdiv 1000000000 - 1 else t sdiv 1000000000) = t div 1000000000"
    using floorDiv_eq [of 1000000000 t] by (simp add: floorDiv_def Let_def split: if_splits)
  have r: "(if t smod 1000000000 < 0 then t smod 1000000000 + 1000000000 else t smod 1000000000) = t mod 1000000000"
    using floorMod_eq [of 1000000000 t] by (simp add: floorMod_def Let_def split: if_splits)
  have b: "0 \<le> t mod 1000000000" "t mod 1000000000 < 1000000000" by simp_all
  have "durationFromTotalNanoseconds m d t =
    (if \<not> in64 (t div 1000000000) then Inl ErrOverflow
     else NewDuration m d (t div 1000000000) (t mod 1000000000))"
    unfolding durationFromTotalNanoseconds_def nanosecondsPerSecond_def Let_def
    using q r by (cases "t smod 1000000000 < 0") simp_all
  moreover have "in64 (t mod 1000000000)" using b unfolding in64_def by linarith
  ultimately show ?thesis using assms by (simp add: NewDuration_exact)
qed

lemma durationFromTotal_Inr_iff:
  assumes "in64 m" "in64 d"
  shows "durationFromTotalNanoseconds m d t = Inr x \<longleftrightarrow>
    valid_duration x \<and> dur_months x = m \<and> dur_days x = d \<and> secondsGroupNanoseconds x = t"
proof
  assume "durationFromTotalNanoseconds m d t = Inr x"
  then show "valid_duration x \<and> dur_months x = m \<and> dur_days x = d \<and> secondsGroupNanoseconds x = t"
    using assms by (auto simp: durationFromTotal_exact valid_duration_def secondsGroupNanoseconds_def
        nanosecondsPerSecond_def mult.commute split: if_splits)
next
  assume x: "valid_duration x \<and> dur_months x = m \<and> dur_days x = d \<and> secondsGroupNanoseconds x = t"
  then have n: "0 \<le> dur_nanoseconds x" "dur_nanoseconds x < 1000000000" "in64 (dur_seconds x)"
    by (simp_all add: valid_duration_def nanosecondsPerSecond_def)
  have "t = dur_seconds x * 1000000000 + dur_nanoseconds x"
    using x by (simp add: secondsGroupNanoseconds_def nanosecondsPerSecond_def)
  with total_split [OF n(1,2), of "dur_seconds x"] x n(3) assms
  show "durationFromTotalNanoseconds m d t = Inr x"
    by (simp add: durationFromTotal_exact)
qed

lemma durationFromTotal_err:
  assumes "in64 m" "in64 d"
  shows "durationFromTotalNanoseconds m d t = Inl e \<longleftrightarrow> e = ErrOverflow \<and> \<not> in64 (t div 1000000000)"
  using assms by (auto simp: durationFromTotal_exact)

lemma overflow_as_simps [simp]: "overflow_as (Inr x) = Inr x" "overflow_as (Inl e) = Inl ErrOverflow"
  by (simp_all add: overflow_as_def)

lemma overflow_as_Inr_iff [simp]: "overflow_as m = Inr x \<longleftrightarrow> m = Inr x"
  by (cases m) simp_all

lemma checked_Inr_iff:
  assumes "in64 a" "in64 b"
  shows "checkedAdd a b = Inr c \<longleftrightarrow> in64 c \<and> c = a + b" "checkedSub a b = Inr c \<longleftrightarrow> in64 c \<and> c = a - b"
    "checkedMul a b = Inr c \<longleftrightarrow> in64 c \<and> c = a * b"
  using assms by (auto simp: checked_exact)

section \<open>Arithmetic is exact in every group\<close>

theorem DurationSubtract_Inr_iff:
  assumes "valid_duration a" "valid_duration b"
  shows "DurationSubtract a b = Inr c \<longleftrightarrow> valid_duration c \<and> dur_months c = dur_months a - dur_months b \<and>
    dur_days c = dur_days a - dur_days b \<and>
    secondsGroupNanoseconds c = secondsGroupNanoseconds a - secondsGroupNanoseconds b"
proof -
  have r: "in64 (dur_months a)" "in64 (dur_months b)" "in64 (dur_days a)" "in64 (dur_days b)"
    using assms by (simp_all add: valid_duration_def)
  show ?thesis
    by (auto simp: DurationSubtract_def bindE_Inr_iff checked_Inr_iff r durationFromTotal_Inr_iff)
      (auto simp: valid_duration_def durationFromTotal_Inr_iff)
qed

theorem Negate_Inr_iff:
  assumes "valid_duration a"
  shows "Negate a = Inr c \<longleftrightarrow> valid_duration c \<and> dur_months c = - dur_months a \<and>
    dur_days c = - dur_days a \<and> secondsGroupNanoseconds c = - secondsGroupNanoseconds a"
proof (cases "dur_months a = -9223372036854775808 \<or> dur_days a = -9223372036854775808")
  case True
  then have "\<not> in64 (- dur_months a) \<or> \<not> in64 (- dur_days a)" by (auto simp: in64_def)
  with True show ?thesis by (auto simp: Negate_def valid_duration_def)
next
  case False
  with assms have "in64 (- dur_months a)" "in64 (- dur_days a)"
    by (simp_all add: valid_duration_def in64_def)
  with False show ?thesis by (simp add: Negate_def durationFromTotal_Inr_iff)
qed

theorem DurationAdd_Inr_iff:
  assumes v: "valid_duration a" "valid_duration b"
  shows "DurationAdd a b = Inr c \<longleftrightarrow> valid_duration c \<and> dur_months c = dur_months a + dur_months b \<and>
    dur_days c = dur_days a + dur_days b \<and>
    secondsGroupNanoseconds c = secondsGroupNanoseconds a + secondsGroupNanoseconds b \<and>
    in64 (dur_seconds a + dur_seconds b)"
proof -
  have r: "in64 (dur_months a)" "in64 (dur_months b)" "in64 (dur_days a)" "in64 (dur_days b)"
    "in64 (dur_seconds a)" "in64 (dur_seconds b)"
    using v by (simp_all add: valid_duration_def)
  define n where "n = dur_nanoseconds a + dur_nanoseconds b"
  have n: "0 \<le> n" "n < 2000000000" "in64 n"
    using v by (simp_all add: valid_duration_def range_simps n_def)
  have t: "secondsGroupNanoseconds a + secondsGroupNanoseconds b =
    (dur_seconds a + dur_seconds b) * 1000000000 + n"
    by (simp add: secondsGroupNanoseconds_def nanosecondsPerSecond_def n_def distrib_right)
  have dm: "(s * 1000000000 + n) div 1000000000 = s + n div 1000000000"
    "(s * 1000000000 + n) mod 1000000000 = n mod 1000000000" for s :: int
    by simp_all
  have "NewDuration x y (dur_seconds a + dur_seconds b) n = Inr c \<longleftrightarrow> valid_duration c \<and>
      dur_months c = x \<and> dur_days c = y \<and>
      secondsGroupNanoseconds c = secondsGroupNanoseconds a + secondsGroupNanoseconds b"
    if "in64 x" "in64 y" "in64 (dur_seconds a + dur_seconds b)" for x y
    using that n(3) durationFromTotal_Inr_iff [OF that(1,2), of "(dur_seconds a + dur_seconds b) * 1000000000 + n" c]
    unfolding t durationFromTotal_exact [OF that(1,2)] dm by (simp add: NewDuration_exact)
  then show ?thesis
    by (auto simp: DurationAdd_def bindE_Inr_iff checked_Inr_iff r n_def [symmetric])
      (auto simp: valid_duration_def)
qed

lemma CompareForOrder_iff [simp]:
  "CompareForOrder a b = 0 \<longleftrightarrow> orderNanoseconds a = orderNanoseconds b"
  "CompareForOrder a b = -1 \<longleftrightarrow> orderNanoseconds a < orderNanoseconds b"
  "CompareForOrder a b = 1 \<longleftrightarrow> orderNanoseconds b < orderNanoseconds a"
  by (auto simp: CompareForOrder_def)

section \<open>Scaling keeps the average length up to one nanosecond\<close>

lemma rat_quo_close: "\<bar>q - of_int (rat_quo q)\<bar> < 1"
proof -
  obtain n d where q: "quotient_of q = (n, d)" by (cases "quotient_of q")
  have d: "0 < d" using quotient_of_denom_pos [OF q] .
  have "\<bar>n - (n sdiv d) * d\<bar> < \<bar>d\<bar>" using d by (intro sdiv_remainder) simp
  then have "\<bar>of_int n - of_int (n sdiv d) * of_int d\<bar> < (of_int d :: rat)"
    using d by (metis abs_of_pos of_int_abs of_int_diff of_int_less_iff of_int_mult)
  moreover have "of_int n - of_int (n sdiv d) * of_int d = (q - of_int (n sdiv d)) * (of_int d :: rat)"
    using d by (simp add: quotient_of_div [OF q] left_diff_distrib)
  ultimately have "\<bar>q - of_int (n sdiv d)\<bar> * of_int d < 1 * (of_int d :: rat)"
    using d by (simp add: abs_mult)
  then have "\<bar>q - of_int (n sdiv d)\<bar> < 1" using d by (simp add: mult_less_cancel_right)
  then show ?thesis by (simp add: rat_quo_def q)
qed

lemma rat_quo_of_int [simp]: "rat_quo (of_int n) = n"
  using rat_quo_close [of "of_int n"]
  by (metis diff_self of_int_diff of_int_abs of_int_less_1_iff zabs_less_one_iff eq_iff_diff_eq_0)

lemma splitRat_of_int [simp]: "splitRat (of_int n) = (n, 0)"
  by (simp add: splitRat_def Let_def)

theorem durationFromRationals_order:
  assumes "durationFromRationals m d s = Inr x"
  shows "\<bar>of_int (orderNanoseconds x) - (m * 2629746 + d * 86400 + s) * 1000000000\<bar> < 1"
proof -
  define M where "M = rat_quo m"
  define ad where "ad = d + (m - of_int M) * (146097 / 4800)"
  define D where "D = rat_quo ad"
  define tn where "tn = (s + (ad - of_int D) * 86400) * 1000000000"
  define T where "T = rat_quo tn"
  from assms have "in64 M" "in64 D" "durationFromTotalNanoseconds M D T = Inr x"
    by (simp_all add: durationFromRationals_def splitRat_def Let_def range_simps(4-) unit_defs
        M_def ad_def D_def tn_def T_def split: if_splits)
  then have "orderNanoseconds x = M * 2629746000000000 + D * 86400000000000 + T"
    by (simp add: durationFromTotal_Inr_iff orderNanoseconds_def unit_defs)
  then have "of_int (orderNanoseconds x) - (m * 2629746 + d * 86400 + s) * 1000000000 = of_int T - tn"
    by (simp add: tn_def ad_def field_simps)
  with rat_quo_close [of tn] show ?thesis by (simp add: T_def abs_minus_commute)
qed

theorem scale_order:
  assumes "scale d factor = Inr x"
  shows "\<bar>of_int (orderNanoseconds x) - of_int (orderNanoseconds d) * factor\<bar> < 1"
proof -
  let ?m = "of_int (dur_months d) * factor" and ?d = "of_int (dur_days d) * factor"
    and ?s = "of_int (secondsGroupNanoseconds d) / 1000000000 * factor"
  have "durationFromRationals ?m ?d ?s = Inr x"
    using assms by (simp add: scale_def Let_def unit_defs)
  from durationFromRationals_order [OF this]
  show ?thesis by (simp add: orderNanoseconds_def unit_defs algebra_simps)
qed

theorem scale_int_Inr_iff:
  "scale d (of_int k) = Inr x \<longleftrightarrow> valid_duration x \<and> dur_months x = k * dur_months d \<and>
     dur_days x = k * dur_days d \<and> secondsGroupNanoseconds x = k * secondsGroupNanoseconds d"
proof -
  have e: "of_int a * of_int k = (of_int (k * a) :: rat)" for a by simp
  have t: "of_int a / 1000000000 * of_int k * 1000000000 = (of_int (k * a) :: rat)" for a by simp
  have "scale d (of_int k) = (if in64 (k * dur_months d) \<and> in64 (k * dur_days d)
    then durationFromTotalNanoseconds (k * dur_months d) (k * dur_days d) (k * secondsGroupNanoseconds d)
    else Inl ErrOverflow)"
    unfolding scale_def durationFromRationals_def Let_def e splitRat_of_int
    by (simp add: unit_defs t e del: of_int_mult)
  then show ?thesis by (auto simp: durationFromTotal_Inr_iff) (auto simp: valid_duration_def)
qed

end
