(* ===== verification/Clock_Time.thy ===== *)
theory Clock_Time
  imports Date_Text Duration_Core
begin

text \<open>
  Wall-clock times and UTC offsets of \<open>internal/domain/temporal/time.go\<close>: \<open>LocalTime\<close>, \<open>Time\<close>, their
  parsers and renderings, arithmetic modulo 24 hours, and the ordering of offset times.
\<close>

section \<open>Local times\<close>

record LocalTime = nanoOfDay :: int

definition zeroLocalTime :: LocalTime where "zeroLocalTime = \<lparr>nanoOfDay = 0\<rparr>"

definition valid_local_time :: "LocalTime \<Rightarrow> bool" where
  "valid_local_time t \<longleftrightarrow> 0 \<le> nanoOfDay t \<and> nanoOfDay t < nanosecondsPerDay"

definition NewLocalTime :: "int \<Rightarrow> int \<Rightarrow> int \<Rightarrow> int \<Rightarrow> terror + LocalTime" where
  "NewLocalTime hour minute second nanosecond =
     (if hour < 0 \<or> hour > 23 then Inl ErrInvalid
      else if minute < 0 \<or> minute > 59 then Inl ErrInvalid
      else if second < 0 \<or> second > 59 then Inl ErrInvalid
      else if nanosecond < 0 \<or> nanosecond \<ge> nanosecondsPerSecond then Inl ErrInvalid
      else Inr \<lparr>nanoOfDay = (hour * 3600 + minute * 60 + second) * nanosecondsPerSecond + nanosecond\<rparr>)"

definition localTimeFromNanoOfDay :: "int \<Rightarrow> terror + LocalTime" where
  "localTimeFromNanoOfDay nanoseconds =
     (if nanoseconds < 0 \<or> nanoseconds \<ge> nanosecondsPerDay then Inl ErrInvalid
      else Inr \<lparr>nanoOfDay = nanoseconds\<rparr>)"

definition Hour :: "LocalTime \<Rightarrow> int" where
  "Hour t = nanoOfDay t sdiv (3600 * nanosecondsPerSecond)"
definition Minute :: "LocalTime \<Rightarrow> int" where
  "Minute t = (nanoOfDay t sdiv (60 * nanosecondsPerSecond)) smod 60"
definition Second :: "LocalTime \<Rightarrow> int" where
  "Second t = (nanoOfDay t sdiv nanosecondsPerSecond) smod 60"
definition Nanosecond :: "LocalTime \<Rightarrow> int" where
  "Nanosecond t = nanoOfDay t smod nanosecondsPerSecond"
definition Millisecond :: "LocalTime \<Rightarrow> int" where "Millisecond t = Nanosecond t sdiv 1000000"
definition Microsecond :: "LocalTime \<Rightarrow> int" where "Microsecond t = Nanosecond t sdiv 1000"

definition LocalTimeAdd :: "LocalTime \<Rightarrow> Duration \<Rightarrow> terror + LocalTime" where
  "LocalTimeAdd t duration =
     (let seconds = floorMod (dur_seconds duration) secondsPerDay;
          delta = seconds * nanosecondsPerSecond + dur_nanoseconds duration
      in localTimeFromNanoOfDay (floorMod (nanoOfDay t + delta) nanosecondsPerDay))"

definition LocalTimeSubtract :: "LocalTime \<Rightarrow> Duration \<Rightarrow> terror + LocalTime" where
  "LocalTimeSubtract t duration =
     (let seconds = floorMod (dur_seconds duration) secondsPerDay;
          delta = seconds * nanosecondsPerSecond + dur_nanoseconds duration
      in localTimeFromNanoOfDay (floorMod (nanoOfDay t - delta) nanosecondsPerDay))"

definition LocalTimeCompare :: "LocalTime \<Rightarrow> LocalTime \<Rightarrow> int" where
  "LocalTimeCompare t other = compareInt64 (nanoOfDay t) (nanoOfDay other)"

section \<open>Parsing and rendering local times\<close>

text \<open>\<open>chunks2\<close> is the loop over \<open>whole[index:index+2]\<close>; the code calls it on even lengths only.\<close>

fun chunks2 :: "string \<Rightarrow> string list" where
  "chunks2 (a # b # cs) = [a, b] # chunks2 cs"
| "chunks2 _ = []"

definition is_fraction_mark :: "char \<Rightarrow> bool" where
  "is_fraction_mark c \<longleftrightarrow> c = CHR ''.'' \<or> c = CHR '',''"

definition splitFraction :: "string \<Rightarrow> terror + (string \<times> string)" where
  "splitFraction input =
     (case index_where is_fraction_mark input of
        None \<Rightarrow> Inr (input, [])
      | Some index \<Rightarrow>
          let fraction = drop (index + 1) input
          in if fraction = [] \<or> list_ex is_fraction_mark fraction then Inl ErrInvalid
             else Inr (take index input, fraction))"

definition splitClock :: "string \<Rightarrow> terror + string list" where
  "splitClock whole =
     (if CHR '':'' \<in> set whole
      then let pieces = split_on (CHR '':'') whole
           in if length pieces < 1 \<or> length pieces > 3 then Inl ErrInvalid
              else if list_ex (\<lambda>piece. length piece \<noteq> 2) pieces then Inl ErrInvalid
              else Inr pieces
      else if length whole \<noteq> 2 \<and> length whole \<noteq> 4 \<and> length whole \<noteq> 6 then Inl ErrInvalid
           else Inr (chunks2 whole))"

definition parseFraction :: "string \<Rightarrow> terror + int" where
  "parseFraction fraction =
     (if fraction = [] then Inr 0
      else if length fraction > 9 then Inl ErrInvalid
      else if \<not> list_all is_digit fraction then Inl ErrInvalid
      else case parse_int64 (fraction @ replicate (9 - length fraction) (CHR ''0'')) of
             None \<Rightarrow> Inl ErrInvalid
           | Some parsed \<Rightarrow> Inr parsed)"

definition ParseLocalTime :: "string \<Rightarrow> terror + LocalTime" where
  "ParseLocalTime input =
     (if input = [] then Inl ErrInvalid
      else if list_ex (\<lambda>c. c \<in> {CHR ''+'', CHR ''-'', CHR ''Z'', CHR ''z''}) input then Inl ErrInvalid
      else bindE (splitFraction input) (\<lambda>(whole, fraction).
           bindE (splitClock whole) (\<lambda>pieces.
             if fraction \<noteq> [] \<and> length pieces \<noteq> 3 then Inl ErrInvalid
             else bindE (mapE parseUnsigned pieces) (\<lambda>parsed.
                  let values = parsed @ replicate (3 - length parsed) 0
                  in bindE (parseFraction fraction) (\<lambda>nanosecond.
                       NewLocalTime (values ! 0) (values ! 1) (values ! 2) nanosecond)))))"

definition formatLocalTime :: "LocalTime \<Rightarrow> string" where
  "formatLocalTime value =
     (let hour = Hour value; minute = Minute value; second = Second value; nanosecond = Nanosecond value;
          result = format_int 2 hour @ CHR '':'' # format_int 2 minute;
          result = (if second \<noteq> 0 \<or> nanosecond \<noteq> 0 then result @ CHR '':'' # format_int 2 second else result)
      in if nanosecond \<noteq> 0
         then result @ CHR ''.'' # trim_right (CHR ''0'') (format_int 9 nanosecond) else result)"

section \<open>Offsets\<close>

definition validateOffset :: "int \<Rightarrow> terror + unit" where
  "validateOffset offset =
     (let maximum = 18 * 60 * 60
      in if offset < - maximum \<or> offset > maximum \<or>
            (offset = maximum \<or> offset = - maximum) \<and> offset smod 3600 \<noteq> 0
         then Inl ErrInvalid else Inr ())"

definition ParseOffset :: "string \<Rightarrow> terror + int" where
  "ParseOffset input =
     (if input = ''Z'' \<or> input = ''z'' then Inr 0
      else if length input < 3 \<or> hd input \<noteq> CHR ''+'' \<and> hd input \<noteq> CHR ''-'' then Inl ErrInvalid
      else let sign = (if hd input = CHR ''-'' then -1 else 1);
               body = tl input;
               colons = length (filter (\<lambda>c. c = CHR '':'') body);
               validShape =
                 (if length body = 2 \<or> length body = 4 \<or> length body = 6 then colons = 0
                  else if length body = 5 then body ! 2 = CHR '':'' \<and> colons = 1
                  else if length body = 8 then body ! 2 = CHR '':'' \<and> body ! 5 = CHR '':'' \<and> colons = 2
                  else False)
           in if \<not> validShape then Inl ErrInvalid
              else let digits = filter (\<lambda>c. c \<noteq> CHR '':'') body
                   in if length digits \<noteq> 2 \<and> length digits \<noteq> 4 \<and> length digits \<noteq> 6 then Inl ErrInvalid
                      else bindE (parseUnsigned (take 2 digits)) (\<lambda>hour.
                           bindE (if length digits \<ge> 4 then parseUnsigned (take 2 (drop 2 digits)) else Inr 0) (\<lambda>minute.
                           bindE (if length digits = 6 then parseUnsigned (take 2 (drop 4 digits)) else Inr 0) (\<lambda>second.
                             if minute > 59 \<or> second > 59 then Inl ErrInvalid
                             else let offset = sign * (hour * 3600 + minute * 60 + second)
                                  in bindE (validateOffset offset) (\<lambda>_. Inr offset)))))"

definition splitOffsetSuffix :: "string \<Rightarrow> terror + (string \<times> string)" where
  "splitOffsetSuffix input =
     (if length input < 3 then Inl ErrInvalid
      else if last input = CHR ''Z'' \<or> last input = CHR ''z''
           then Inr (butlast input, [last input])
      else case last_index_where (\<lambda>c. c = CHR ''+'' \<or> c = CHR ''-'') input of
             None \<Rightarrow> Inl ErrInvalid
           | Some index \<Rightarrow> if index \<ge> 1 then Inr (take index input, drop index input) else Inl ErrInvalid)"

definition FormatOffset :: "int \<Rightarrow> string" where
  "FormatOffset offset =
     (if offset = 0 then ''Z''
      else let sign = (if offset < 0 then CHR ''-'' else CHR ''+'');
               offset = (if offset < 0 then - offset else offset);
               hour = offset sdiv 3600;
               minute = (offset sdiv 60) smod 60;
               second = offset smod 60
           in if second = 0
              then sign # format_int 2 hour @ CHR '':'' # format_int 2 minute
              else sign # format_int 2 hour @ CHR '':'' # format_int 2 minute @ CHR '':'' # format_int 2 second)"

section \<open>Offset times\<close>

record Time =
  time_local :: LocalTime
  time_offset :: int

definition NewTime :: "LocalTime \<Rightarrow> int \<Rightarrow> terror + Time" where
  "NewTime localTime offsetSeconds =
     bindE (validateOffset offsetSeconds) (\<lambda>_.
       Inr \<lparr>time_local = localTime, time_offset = i32 offsetSeconds\<rparr>)"

definition ParseTime :: "string \<Rightarrow> terror + Time" where
  "ParseTime input =
     bindE (splitOffsetSuffix input) (\<lambda>(localText, offsetText).
     bindE (ParseLocalTime localText) (\<lambda>local_time.
     bindE (ParseOffset offsetText) (\<lambda>offset. NewTime local_time offset)))"

definition TimeAdd :: "Time \<Rightarrow> Duration \<Rightarrow> terror + Time" where
  "TimeAdd t duration =
     bindE (LocalTimeAdd (time_local t) duration) (\<lambda>l. Inr \<lparr>time_local = l, time_offset = time_offset t\<rparr>)"

definition TimeSubtract :: "Time \<Rightarrow> Duration \<Rightarrow> terror + Time" where
  "TimeSubtract t duration =
     bindE (LocalTimeSubtract (time_local t) duration) (\<lambda>l. Inr \<lparr>time_local = l, time_offset = time_offset t\<rparr>)"

definition TimeCompare :: "Time \<Rightarrow> Time \<Rightarrow> int" where
  "TimeCompare t other =
     (let instant = nanoOfDay (time_local t) - time_offset t * nanosecondsPerSecond;
          otherInstant = nanoOfDay (time_local other) - time_offset other * nanosecondsPerSecond;
          comparison = compareInt64 instant otherInstant
      in if comparison \<noteq> 0 then comparison else compareInt64 (time_offset t) (time_offset other))"

definition TimeString :: "Time \<Rightarrow> string" where
  "TimeString t = formatLocalTime (time_local t) @ FormatOffset (time_offset t)"

definition valid_offset :: "int \<Rightarrow> bool" where
  "valid_offset offset \<longleftrightarrow> -64800 \<le> offset \<and> offset \<le> 64800"

definition valid_time :: "Time \<Rightarrow> bool" where
  "valid_time t \<longleftrightarrow> valid_local_time (time_local t) \<and> valid_offset (time_offset t)"

section \<open>Fields of a local time\<close>

lemma validateOffset_iff [simp]: "validateOffset n = Inr u \<longleftrightarrow> valid_offset n"
proof -
  have "(64800 :: int) smod 3600 = 0" "(-64800 :: int) smod 3600 = 0" by (simp_all add: signed_modulo_int_def)
  then show ?thesis by (auto simp: validateOffset_def valid_offset_def Let_def)
qed

lemma validateOffset_ok [simp]: "valid_offset n \<Longrightarrow> validateOffset n = Inr ()"
  by simp

lemma valid_local_time_iff: "valid_local_time t \<longleftrightarrow> 0 \<le> nanoOfDay t \<and> nanoOfDay t < 86400000000000"
  by (simp add: valid_local_time_def unit_defs)

lemma localTimeFromNanoOfDay_Inr_iff [simp]:
  "localTimeFromNanoOfDay n = Inr t \<longleftrightarrow> valid_local_time t \<and> nanoOfDay t = n"
  by (cases t) (auto simp: localTimeFromNanoOfDay_def valid_local_time_def)

lemma local_time_fields:
  assumes "valid_local_time t"
  shows "0 \<le> Hour t" "Hour t \<le> 23" "0 \<le> Minute t" "Minute t \<le> 59" "0 \<le> Second t" "Second t \<le> 59"
    "0 \<le> Nanosecond t" "Nanosecond t < 1000000000"
    "nanoOfDay t = (Hour t * 3600 + Minute t * 60 + Second t) * 1000000000 + Nanosecond t"
proof -
  let ?n = "nanoOfDay t"
  have n: "0 \<le> ?n" "?n < 86400000000000" using assms by (simp_all add: valid_local_time_iff)
  have h: "Hour t = ?n div 1000000000 div 60 div 60"
    using n by (simp add: Hour_def unit_defs sdiv_nonneg zdiv_zmult2_eq [symmetric])
  have m: "Minute t = ?n div 1000000000 div 60 mod 60"
    using n by (simp add: Minute_def unit_defs sdiv_nonneg smod_nonneg pos_imp_zdiv_nonneg_iff
        zdiv_zmult2_eq [symmetric])
  have s: "Second t = ?n div 1000000000 mod 60"
    using n by (simp add: Second_def unit_defs sdiv_nonneg smod_nonneg pos_imp_zdiv_nonneg_iff)
  have k: "Nanosecond t = ?n mod 1000000000" using n by (simp add: Nanosecond_def unit_defs smod_nonneg)
  show "0 \<le> Minute t" "Minute t \<le> 59" "0 \<le> Second t" "Second t \<le> 59"
    "0 \<le> Nanosecond t" "Nanosecond t < 1000000000" "0 \<le> Hour t"
    using n unfolding m s k h by (simp_all add: pos_imp_zdiv_nonneg_iff)
  show "Hour t \<le> 23" using n unfolding h by (simp add: zdiv_zmult2_eq [symmetric])
  define a where "a = ?n div 1000000000"
  define b where "b = a div 60"
  have "?n = a * 1000000000 + Nanosecond t" by (simp add: a_def k)
  moreover have "a = b * 60 + Second t" by (simp add: a_def b_def s)
  moreover have "b = Hour t * 60 + Minute t" by (simp add: a_def b_def m h)
  ultimately show "?n = (Hour t * 3600 + Minute t * 60 + Second t) * 1000000000 + Nanosecond t" by simp
qed

lemma NewLocalTime_fields:
  assumes "valid_local_time t"
  shows "NewLocalTime (Hour t) (Minute t) (Second t) (Nanosecond t) = Inr t"
  using local_time_fields [OF assms] by (cases t) (simp add: NewLocalTime_def unit_defs)

lemma NewLocalTime_valid: "NewLocalTime h m s n = Inr t \<Longrightarrow> valid_local_time t"
  by (auto simp: NewLocalTime_def valid_local_time_iff unit_defs split: if_splits)

section \<open>Parsing a rendered local time\<close>

lemma parseFraction_trim:
  assumes n: "0 < n" "n < 1000000000"
  defines "f \<equiv> trim_right (CHR ''0'') (format_int 9 n)"
  shows "f \<noteq> []" "list_all is_digit f" "parseFraction f = Inr n"
proof -
  have l: "length (format_int 9 n) = 9" using n by (intro length_format_int) simp_all
  have d: "list_all is_digit (format_int 9 n)" using n by simp
  have p: "f @ replicate (9 - length f) (CHR ''0'') = format_int 9 n"
    using trim_right_replicate [of "CHR ''0''" "format_int 9 n"] unfolding f_def l .
  show "list_all is_digit f" using d set_trim_right unfolding f_def list_all_iff by fast
  show "f \<noteq> []"
  proof
    assume "f = []"
    then have "digits_val 0 (format_int 9 n) = 0"
      using p digits_val_zeros [of 9 "[]"] by simp
    with n show False by simp
  qed
  then show "parseFraction f = Inr n"
    using p n d l \<open>list_all is_digit f\<close> length_trim_right [of "CHR ''0''" "format_int 9 n"]
    by (simp add: parseFraction_def parse_int64_digits in64_def f_def)
qed

definition fraction_suffix :: "string \<Rightarrow> string" where
  "fraction_suffix f = (if f = [] then [] else CHR ''.'' # f)"

lemma splitFraction_suffix:
  assumes "\<forall>c \<in> set w. \<not> is_fraction_mark c" "list_all is_digit f"
  shows "splitFraction (w @ fraction_suffix f) = Inr (w, f)"
proof (cases "f = []")
  case True
  then have "index_where is_fraction_mark (w @ fraction_suffix f) = None"
    using assms(1) by (simp add: index_where_none fraction_suffix_def)
  with True show ?thesis by (simp add: splitFraction_def fraction_suffix_def)
next
  case False
  have "index_where is_fraction_mark (w @ CHR ''.'' # f) = Some (length w)"
    using assms(1) by (intro index_where_append) (simp_all add: is_fraction_mark_def)
  moreover have "\<not> list_ex is_fraction_mark f"
    using assms(2) by (auto simp: list_ex_iff list_all_iff is_fraction_mark_def)
  ultimately show ?thesis using False by (simp add: splitFraction_def fraction_suffix_def)
qed

lemma clock_char_no_sign:
  "is_digit c \<or> c = CHR '':'' \<or> c = CHR ''.'' \<Longrightarrow> c \<notin> {CHR ''+'', CHR ''-'', CHR ''Z'', CHR ''z''}"
  by (auto simp: is_digit_def)

lemma ParseLocalTime_pieces:
  assumes w: "w \<noteq> []" "\<forall>c \<in> set w. is_digit c \<or> c = CHR '':''" and f: "list_all is_digit f"
    and c: "splitClock w = Inr pieces" "f \<noteq> [] \<longrightarrow> length pieces = 3"
    and p: "mapE parseUnsigned pieces = Inr parsed" and n: "parseFraction f = Inr nanos"
  shows "ParseLocalTime (w @ fraction_suffix f) =
    (let values = parsed @ replicate (3 - length parsed) 0
     in NewLocalTime (values ! 0) (values ! 1) (values ! 2) nanos)"
proof -
  have m: "\<forall>c \<in> set w. \<not> is_fraction_mark c"
  proof
    fix c assume "c \<in> set w"
    with w(2) have "is_digit c \<or> c = CHR '':''" by blast
    then show "\<not> is_fraction_mark c" by (auto simp: is_fraction_mark_def is_digit_def)
  qed
  have "\<forall>c \<in> set (w @ fraction_suffix f). is_digit c \<or> c = CHR '':'' \<or> c = CHR ''.''"
    using w(2) f by (auto simp: fraction_suffix_def list_all_iff)
  then have s: "\<not> list_ex (\<lambda>c. c \<in> {CHR ''+'', CHR ''-'', CHR ''Z'', CHR ''z''}) (w @ fraction_suffix f)"
    unfolding list_ex_iff using clock_char_no_sign by blast
  have l: "(f \<noteq> [] \<and> length pieces \<noteq> 3) = False" using c(2) by blast
  have ne: "(w @ fraction_suffix f = []) = False" using w(1) by simp
  show ?thesis unfolding ParseLocalTime_def splitFraction_suffix [OF m f] ne
    by (simp only: s if_False bindE_Inr prod.case c(1) l p n Let_def)
qed

lemma formatLocalTime_digits:
  assumes t: "valid_local_time t"
  obtains a b c d e f where
    "format_int 2 (Hour t) = [a, b]" "format_int 2 (Minute t) = [c, d]" "format_int 2 (Second t) = [e, f]"
    "list_all is_digit [a, b, c, d, e, f]"
    "parseUnsigned [a, b] = Inr (Hour t)" "parseUnsigned [c, d] = Inr (Minute t)"
    "parseUnsigned [e, f] = Inr (Second t)"
proof -
  note lt = local_time_fields [OF t]
  obtain a b where h: "format_int 2 (Hour t) = [a, b]" "is_digit a" "is_digit b"
    using format_int2_chars [of "Hour t"] lt by auto
  obtain c d where m: "format_int 2 (Minute t) = [c, d]" "is_digit c" "is_digit d"
    using format_int2_chars [of "Minute t"] lt by auto
  obtain e f where s: "format_int 2 (Second t) = [e, f]" "is_digit e" "is_digit f"
    using format_int2_chars [of "Second t"] lt by auto
  show ?thesis
    using that [OF h(1) m(1) s(1)] h m s lt parseUnsigned_format_int [of "Hour t" 2]
      parseUnsigned_format_int [of "Minute t" 2] parseUnsigned_format_int [of "Second t" 2] by simp
qed

lemma parseFraction_Nil [simp]: "parseFraction [] = Inr 0"
  by (simp add: parseFraction_def)

lemma format_short:
  assumes "Second t = 0" "Nanosecond t = 0"
  shows "formatLocalTime t = (format_int 2 (Hour t) @ CHR '':'' # format_int 2 (Minute t)) @ fraction_suffix []"
  using assms by (simp add: formatLocalTime_def fraction_suffix_def)

lemma format_long:
  assumes t: "valid_local_time t" and n: "\<not> (Second t = 0 \<and> Nanosecond t = 0)"
  shows "formatLocalTime t =
    (format_int 2 (Hour t) @ CHR '':'' # format_int 2 (Minute t) @ CHR '':'' # format_int 2 (Second t)) @
      fraction_suffix (if Nanosecond t = 0 then [] else trim_right (CHR ''0'') (format_int 9 (Nanosecond t)))"
proof (cases "Nanosecond t = 0")
  case True
  with n show ?thesis by (simp add: formatLocalTime_def fraction_suffix_def Let_def)
next
  case False
  with local_time_fields(7,8) [OF t] have "trim_right (CHR ''0'') (format_int 9 (Nanosecond t)) \<noteq> []"
    by (intro parseFraction_trim(1)) simp_all
  with False show ?thesis by (simp add: formatLocalTime_def fraction_suffix_def Let_def)
qed

lemma ParseLocalTime_formatLocalTime:
  assumes t: "valid_local_time t"
  shows "ParseLocalTime (formatLocalTime t) = Inr t"
proof -
  note lt = local_time_fields [OF t]
  obtain a b c d e f where x: "format_int 2 (Hour t) = [a, b]" "format_int 2 (Minute t) = [c, d]"
    "format_int 2 (Second t) = [e, f]" "list_all is_digit [a, b, c, d, e, f]"
    "parseUnsigned [a, b] = Inr (Hour t)" "parseUnsigned [c, d] = Inr (Minute t)"
    "parseUnsigned [e, f] = Inr (Second t)" using formatLocalTime_digits [OF t] .
  show ?thesis
  proof (cases "Second t = 0 \<and> Nanosecond t = 0")
    case True
    then have "NewLocalTime (Hour t) (Minute t) 0 0 = Inr t" using NewLocalTime_fields [OF t] by simp
    moreover have "splitClock [a, b, CHR '':'', c, d] = Inr [[a, b], [c, d]]"
      using x(4) by (simp add: splitClock_def)
    ultimately show ?thesis
      using True x(4-7) unfolding format_short [OF conjunct1 [OF True] conjunct2 [OF True]] x(1,2)
      by (subst ParseLocalTime_pieces [where pieces = "[[a, b], [c, d]]"]) (auto simp: eval_nat_numeral)
  next
    case False
    define g where "g = (if Nanosecond t = 0 then [] else trim_right (CHR ''0'') (format_int 9 (Nanosecond t)))"
    have "0 < Nanosecond t" if "Nanosecond t \<noteq> 0" using that lt(7) by simp
    then have g: "list_all is_digit g" "parseFraction g = Inr (Nanosecond t)"
      using parseFraction_trim(2,3) [of "Nanosecond t"] lt(8) by (simp_all add: g_def)
    have "splitClock [a, b, CHR '':'', c, d, CHR '':'', e, f] = Inr [[a, b], [c, d], [e, f]]"
      using x(4) by (simp add: splitClock_def)
    then show ?thesis
      using NewLocalTime_fields [OF t] g x(4-7) unfolding format_long [OF t False] g_def [symmetric] x(1-3)
      by (subst ParseLocalTime_pieces [where pieces = "[[a, b], [c, d], [e, f]]"]) auto
  qed
qed

section \<open>Offsets round trip\<close>

lemma FormatOffset_fields:
  assumes o: "valid_offset n" "n \<noteq> 0"
  defines "k \<equiv> \<bar>n\<bar>"
  shows "FormatOffset n = (if n < 0 then CHR ''-'' else CHR ''+'') #
      format_int 2 (k div 3600) @ CHR '':'' # format_int 2 (k div 60 mod 60) @
      (if k mod 60 = 0 then [] else CHR '':'' # format_int 2 (k mod 60))"
    "0 \<le> k div 3600" "k div 3600 \<le> 18" "0 \<le> k div 60 mod 60" "k div 60 mod 60 \<le> 59"
    "0 \<le> k mod 60" "k mod 60 \<le> 59" "k = (k div 3600) * 3600 + (k div 60 mod 60) * 60 + k mod 60"
proof -
  have k: "0 \<le> k" "k \<le> 64800" using o by (auto simp: valid_offset_def k_def)
  have q: "0 \<le> k div 60" using k by (simp add: pos_imp_zdiv_nonneg_iff)
  have e: "(if n < 0 then - n else n) = k" by (simp add: k_def)
  show "FormatOffset n = (if n < 0 then CHR ''-'' else CHR ''+'') #
      format_int 2 (k div 3600) @ CHR '':'' # format_int 2 (k div 60 mod 60) @
      (if k mod 60 = 0 then [] else CHR '':'' # format_int 2 (k mod 60))"
    using o(2) k q unfolding FormatOffset_def Let_def e by (simp add: sdiv_nonneg smod_nonneg)
  show "0 \<le> k div 3600" using k by (simp add: pos_imp_zdiv_nonneg_iff)
  have "k div 3600 \<le> 64800 div 3600" using k by (intro zdiv_mono1) simp_all
  then show "k div 3600 \<le> 18" by simp
  show "0 \<le> k div 60 mod 60" "0 \<le> k mod 60" by simp_all
  show "k div 60 mod 60 \<le> 59" using pos_mod_bound [of 60 "k div 60"] by simp
  show "k mod 60 \<le> 59" using pos_mod_bound [of 60 k] by simp
  have "k div 3600 = k div 60 div 60" by (simp add: zdiv_zmult2_eq [symmetric])
  then have "k div 60 = (k div 3600) * 60 + k div 60 mod 60" by simp
  then show "k = (k div 3600) * 3600 + (k div 60 mod 60) * 60 + k mod 60"
    using mult_div_mod_eq [of 60 k] by linarith
qed

lemma ParseOffset_FormatOffset:
  assumes o: "valid_offset n"
  shows "ParseOffset (FormatOffset n) = Inr n"
proof (cases "n = 0")
  case True
  then show ?thesis by (simp add: FormatOffset_def ParseOffset_def)
next
  case False
  define k where "k = \<bar>n\<bar>"
  define h m s where "h = k div 3600" and "m = k div 60 mod 60" and "s = k mod 60"
  note fo = FormatOffset_fields [OF o False, folded k_def, folded h_def m_def s_def]
  obtain a b where x: "format_int 2 h = [a, b]" "is_digit a" "is_digit b"
    using format_int2_chars [of h] fo(2,3) by auto
  obtain c d where y: "format_int 2 m = [c, d]" "is_digit c" "is_digit d"
    using format_int2_chars [of m] fo(4,5) by auto
  obtain e f where z: "format_int 2 s = [e, f]" "is_digit e" "is_digit f"
    using format_int2_chars [of s] fo(6,7) by auto
  have p: "parseUnsigned [a, b] = Inr h" "parseUnsigned [c, d] = Inr m" "parseUnsigned [e, f] = Inr s"
    using fo(2-7) x(1) y(1) z(1) parseUnsigned_format_int [of h 2] parseUnsigned_format_int [of m 2]
      parseUnsigned_format_int [of s 2] by simp_all
  have n: "(if n < 0 then -1 else 1) * (h * 3600 + m * 60 + s) = n"
    using fo(8) by (auto simp: k_def)
  show ?thesis
  proof (cases "s = 0")
    case True
    then have "FormatOffset n = (if n < 0 then CHR ''-'' else CHR ''+'') # [a, b, CHR '':'', c, d]"
      using fo(1) x y by simp
    then show ?thesis using True x(2,3) y(2,3) p n fo o
      by (cases "n < 0") (simp_all add: ParseOffset_def Let_def)
  next
    case False
    then have "FormatOffset n = (if n < 0 then CHR ''-'' else CHR ''+'') # [a, b, CHR '':'', c, d, CHR '':'', e, f]"
      using fo(1) x y z by simp
    then show ?thesis using False x(2,3) y(2,3) z(2,3) p n fo o
      by (cases "n < 0") (simp_all add: ParseOffset_def Let_def)
  qed
qed

lemma ParseOffset_valid: "ParseOffset s = Inr n \<Longrightarrow> valid_offset n"
  unfolding ParseOffset_def Let_def
  by (auto simp: bindE_Inr_iff valid_offset_def split: if_splits)

section \<open>Offset times round trip\<close>

lemma FormatOffset_shape:
  assumes "valid_offset n"
  obtains "n = 0" "FormatOffset n = ''Z''"
  | sign ds where "n \<noteq> 0" "FormatOffset n = sign # ds" "sign \<in> {CHR ''+'', CHR ''-''}" "2 \<le> length ds"
      "\<forall>c \<in> set ds. is_digit c \<or> c = CHR '':''"
proof (cases "n = 0")
  case True
  then show ?thesis using that(1) by (simp add: FormatOffset_def)
next
  case False
  note fo = FormatOffset_fields [OF assms False]
  have d: "\<forall>c \<in> set (format_int 2 k). is_digit c" if "0 \<le> k" for k
    using format_int_digits [OF that, of 2] by (simp add: list_all_iff)
  let ?k = "\<bar>n\<bar>"
  let ?ds = "format_int 2 (?k div 3600) @ CHR '':'' # format_int 2 (?k div 60 mod 60) @
      (if ?k mod 60 = 0 then [] else CHR '':'' # format_int 2 (?k mod 60))"
  have "2 \<le> length (format_int 2 (?k div 3600))" using fo(2) by (rule length_format_int_ge)
  then have l: "2 \<le> length ?ds" by simp
  have "\<forall>c \<in> set ?ds. is_digit c \<or> c = CHR '':''"
    using d [OF fo(2)] d [OF fo(4)] d [OF fo(6)] by (simp add: ball_Un)
  with fo(1) l show ?thesis by (intro that(2) [OF False fo(1)]) simp_all
qed

lemma splitOffsetSuffix_FormatOffset:
  assumes o: "valid_offset n" and l: "2 \<le> length s"
  shows "splitOffsetSuffix (s @ FormatOffset n) = Inr (s, FormatOffset n)"
  using o
proof (cases rule: FormatOffset_shape)
  case 1
  then show ?thesis using l by (simp add: splitOffsetSuffix_def)
next
  case (2 sign ds)
  have nz: "c \<in> set ds \<Longrightarrow> c \<notin> {CHR ''+'', CHR ''-'', CHR ''Z'', CHR ''z''}" for c
    using 2(5) clock_char_no_sign by blast
  then have ds: "\<forall>c \<in> set ds. \<not> (c = CHR ''+'' \<or> c = CHR ''-'')" by blast
  have "last_index_where (\<lambda>c. c = CHR ''+'' \<or> c = CHR ''-'') (s @ sign # ds) = Some (length s)"
    using 2(3) ds by (intro last_index_where_append) auto
  moreover have "last ds \<in> set ds" using 2(4) by (intro last_in_set) auto
  with nz [of "last ds"] 2(4) have "last (s @ sign # ds) \<noteq> CHR ''Z''" "last (s @ sign # ds) \<noteq> CHR ''z''" by auto
  ultimately show ?thesis using l 2(2,4) by (simp add: splitOffsetSuffix_def)
qed

lemma length_formatLocalTime:
  assumes "valid_local_time t"
  shows "5 \<le> length (formatLocalTime t)"
proof -
  have "length (format_int 2 (Hour t) @ CHR '':'' # format_int 2 (Minute t)) = 5"
    using local_time_fields(1-4) [OF assms] by simp
  then show ?thesis unfolding formatLocalTime_def Let_def by simp
qed

lemma ParseTime_TimeString:
  assumes t: "valid_time t"
  shows "ParseTime (TimeString t) = Inr t"
proof -
  have v: "valid_local_time (time_local t)" "valid_offset (time_offset t)" using t by (simp_all add: valid_time_def)
  then have "i32 (time_offset t) = time_offset t" by (intro i32_id) (simp add: valid_offset_def in32_def)
  with v length_formatLocalTime [OF v(1)] show ?thesis
    by (simp add: ParseTime_def TimeString_def splitOffsetSuffix_FormatOffset
        ParseLocalTime_formatLocalTime ParseOffset_FormatOffset NewTime_def)
qed

section \<open>Arithmetic modulo 24 hours\<close>

lemma floorMod_day: "floorMod n nanosecondsPerDay = n mod 86400000000000"
  by (simp add: unit_defs)

lemma local_delta: "(a + (s mod 86400 * 1000000000 + n)) mod 86400000000000 = (a + (s * 1000000000 + n)) mod (86400000000000 :: int)"
  "(a - (s mod 86400 * 1000000000 + n)) mod 86400000000000 = (a - (s * 1000000000 + n)) mod (86400000000000 :: int)"
proof -
  define q where "q = s div 86400"
  have s: "s mod 86400 = s - 86400 * q" unfolding q_def by (rule minus_mult_div_eq_mod [symmetric])
  have "a + ((s - 86400 * q) * 1000000000 + n) = a + (s * 1000000000 + n) + (- q) * 86400000000000" by simp
  then show "(a + (s mod 86400 * 1000000000 + n)) mod 86400000000000 = (a + (s * 1000000000 + n)) mod (86400000000000 :: int)"
    unfolding s by (simp only: mod_mult_self1)
  have "a - ((s - 86400 * q) * 1000000000 + n) = a - (s * 1000000000 + n) + q * 86400000000000" by simp
  then show "(a - (s mod 86400 * 1000000000 + n)) mod 86400000000000 = (a - (s * 1000000000 + n)) mod (86400000000000 :: int)"
    unfolding s by (simp only: mod_mult_self1)
qed

lemma localTimeFromNanoOfDay_mod:
  "localTimeFromNanoOfDay (n mod 86400000000000) = Inr \<lparr>nanoOfDay = n mod 86400000000000\<rparr>"
  using pos_mod_bound [of 86400000000000 n] pos_mod_sign [of 86400000000000 n]
  by (simp add: valid_local_time_iff)

lemma LocalTimeAdd_eq:
  "LocalTimeAdd t d = Inr \<lparr>nanoOfDay = (nanoOfDay t + secondsGroupNanoseconds d) mod 86400000000000\<rparr>"
proof -
  have "LocalTimeAdd t d = localTimeFromNanoOfDay
      ((nanoOfDay t + (dur_seconds d mod 86400 * 1000000000 + dur_nanoseconds d)) mod 86400000000000)"
    unfolding LocalTimeAdd_def Let_def floorMod_day by (simp only: unit_defs floorMod_eq zero_less_numeral)
  then show ?thesis
    unfolding local_delta localTimeFromNanoOfDay_mod by (simp only: secondsGroupNanoseconds_def unit_defs)
qed

lemma LocalTimeSubtract_eq:
  "LocalTimeSubtract t d = Inr \<lparr>nanoOfDay = (nanoOfDay t - secondsGroupNanoseconds d) mod 86400000000000\<rparr>"
proof -
  have "LocalTimeSubtract t d = localTimeFromNanoOfDay
      ((nanoOfDay t - (dur_seconds d mod 86400 * 1000000000 + dur_nanoseconds d)) mod 86400000000000)"
    unfolding LocalTimeSubtract_def Let_def floorMod_day by (simp only: unit_defs floorMod_eq zero_less_numeral)
  then show ?thesis
    unfolding local_delta localTimeFromNanoOfDay_mod by (simp only: secondsGroupNanoseconds_def unit_defs)
qed

theorem LocalTime_add_subtract:
  assumes t: "valid_local_time t"
  shows "bindE (LocalTimeAdd t d) (\<lambda>u. LocalTimeSubtract u d) = Inr t"
proof -
  have "((nanoOfDay t + secondsGroupNanoseconds d) mod 86400000000000 - secondsGroupNanoseconds d)
      mod 86400000000000 = nanoOfDay t"
    using t by (simp add: mod_diff_left_eq valid_local_time_iff)
  then show ?thesis by (cases t) (simp add: LocalTimeAdd_eq LocalTimeSubtract_eq)
qed

section \<open>The order of offset times\<close>

lemma TimeCompare_cases:
  defines "i \<equiv> \<lambda>t. nanoOfDay (time_local t) - time_offset t * 1000000000"
  shows "TimeCompare a b = -1 \<longleftrightarrow> i a < i b \<or> i a = i b \<and> time_offset a < time_offset b"
    "TimeCompare a b = 1 \<longleftrightarrow> i b < i a \<or> i a = i b \<and> time_offset b < time_offset a"
    "TimeCompare a b = 0 \<longleftrightarrow> a = b"
proof -
  have e: "TimeCompare a b =
    (if i a = i b then compareInt64 (time_offset a) (time_offset b) else compareInt64 (i a) (i b))"
    by (simp add: TimeCompare_def i_def Let_def unit_defs)
  show "TimeCompare a b = -1 \<longleftrightarrow> i a < i b \<or> i a = i b \<and> time_offset a < time_offset b"
    "TimeCompare a b = 1 \<longleftrightarrow> i b < i a \<or> i a = i b \<and> time_offset b < time_offset a"
    unfolding e by auto
  show "TimeCompare a b = 0 \<longleftrightarrow> a = b"
    unfolding e by (cases a; cases b; cases "time_local a"; cases "time_local b") (auto simp: i_def)
qed

end
