(* ===== verification/Text_Limits.thy ===== *)
theory Text_Limits
  imports Prelude
begin

text \<open>
  The domain errors of \<open>internal/domain/errors.go\<close>, the published limits and the text validators of
  \<open>internal/domain/limits.go\<close>, and the UTF-8 scanner of the standard library they rely on.  An error
  is the sentinel or the structured error a caller can test for (the store's own sentinels of
  \<open>internal/store/store.go\<close> included); its message is not modelled.
\<close>

section \<open>Errors\<close>

datatype derror =
    ErrNotFound
  | ErrConflict
  | ErrReadOnly
  | ErrHistoricalWrite
  | ErrInvalidText
  | ResourceLimitError (limit_field: string) (limit_unit: string) (limit_max: int) (limit_actual: int)
  | ConstraintError (constraint_name: string)
  | ErrInvalidArgument
  | ErrBusy
  | ErrCorrupt
  | ErrClosed
  | PlainError

text \<open>\<open>errors.Is(err, ErrResourceLimit)\<close>: every \<open>ResourceLimitError\<close> unwraps to the sentinel.\<close>

definition is_resource_limit :: "derror \<Rightarrow> bool" where
  "is_resource_limit e = (case e of ResourceLimitError _ _ _ _ \<Rightarrow> True | _ \<Rightarrow> False)"

section \<open>Limits\<close>

definition MaxCanonicalPropertyBytes :: int where "MaxCanonicalPropertyBytes = 67108864"
definition MaxEncodedLabelsBytes :: int where "MaxEncodedLabelsBytes = 67108864"
definition MaxNodeBodyBytes :: int where "MaxNodeBodyBytes = 67108864"
definition MaxPropertyScalarBytes :: int where "MaxPropertyScalarBytes = 16777216"
definition MaxRevisionMessageBytes :: int where "MaxRevisionMessageBytes = 1048576"
definition MaxNameBytes :: int where "MaxNameBytes = 65536"
definition MaxRevisionActorBytes :: int where "MaxRevisionActorBytes = MaxNameBytes"
definition MaxLabelBytes :: int where "MaxLabelBytes = MaxNameBytes"
definition MaxRelationshipTypeBytes :: int where "MaxRelationshipTypeBytes = MaxNameBytes"
definition MaxPropertyKeyBytes :: int where "MaxPropertyKeyBytes = MaxNameBytes"
definition MaxTimeZoneNameBytes :: int where "MaxTimeZoneNameBytes = MaxNameBytes"
definition MaxPropertyDepth :: int where "MaxPropertyDepth = 128"
definition MaxPropertyValues :: int where "MaxPropertyValues = 1000000"
definition MaxLabelsPerNode :: int where "MaxLabelsPerNode = 4096"
definition MaxIndexedPropertiesPerVersion :: int where "MaxIndexedPropertiesPerVersion = 4096"
definition MaxDerivedLabelBytesPerVersion :: int where "MaxDerivedLabelBytesPerVersion = 16777216"
definition MaxDerivedPropertyBytesPerVersion :: int where "MaxDerivedPropertyBytesPerVersion = 33554432"

lemmas limit_defs = MaxCanonicalPropertyBytes_def MaxEncodedLabelsBytes_def MaxNodeBodyBytes_def
  MaxPropertyScalarBytes_def MaxRevisionMessageBytes_def MaxNameBytes_def MaxRevisionActorBytes_def
  MaxLabelBytes_def MaxRelationshipTypeBytes_def MaxPropertyKeyBytes_def MaxTimeZoneNameBytes_def
  MaxPropertyDepth_def MaxPropertyValues_def MaxLabelsPerNode_def MaxIndexedPropertiesPerVersion_def
  MaxDerivedLabelBytesPerVersion_def MaxDerivedPropertyBytesPerVersion_def

section \<open>UTF-8\<close>

definition byte_of :: "char \<Rightarrow> nat" where "byte_of c = of_char c"

definition is_continuation :: "char \<Rightarrow> bool" where
  "is_continuation c \<longleftrightarrow> 128 \<le> byte_of c \<and> byte_of c \<le> 191"

text \<open>\<open>utf8.DecodeRuneInString\<close>: the rune and its width; an invalid sequence is \<open>RuneError\<close> (65533) of
  width one.  The second byte's range depends on the first: no overlong forms, no surrogates, nothing
  above U+10FFFF.\<close>

definition rune_error :: nat where "rune_error = 65533"

definition decode_rune :: "string \<Rightarrow> nat \<times> nat" where
  "decode_rune s =
     (case s of
        [] \<Rightarrow> (rune_error, 0)
      | a # r \<Rightarrow>
          let x = byte_of a in
          if x < 128 then (x, 1)
          else if 194 \<le> x \<and> x \<le> 223 then
            (case r of b # _ \<Rightarrow> if is_continuation b then ((x - 192) * 64 + (byte_of b - 128), 2) else (rune_error, 1)
             | _ \<Rightarrow> (rune_error, 1))
          else if 224 \<le> x \<and> x \<le> 239 then
            (case r of b # c # _ \<Rightarrow>
               if (if x = 224 then 160 else 128) \<le> byte_of b \<and> byte_of b \<le> (if x = 237 then 159 else 191) \<and>
                  is_continuation c
               then ((x - 224) * 4096 + (byte_of b - 128) * 64 + (byte_of c - 128), 3) else (rune_error, 1)
             | _ \<Rightarrow> (rune_error, 1))
          else if 240 \<le> x \<and> x \<le> 244 then
            (case r of b # c # d # _ \<Rightarrow>
               if (if x = 240 then 144 else 128) \<le> byte_of b \<and> byte_of b \<le> (if x = 244 then 143 else 191) \<and>
                  is_continuation c \<and> is_continuation d
               then ((x - 240) * 262144 + (byte_of b - 128) * 4096 + (byte_of c - 128) * 64 + (byte_of d - 128), 4)
               else (rune_error, 1)
             | _ \<Rightarrow> (rune_error, 1))
          else (rune_error, 1))"

lemma decode_rune_width: "s \<noteq> [] \<Longrightarrow> 0 < snd (decode_rune s)"
  by (auto simp: decode_rune_def Let_def split: list.splits)

lemma decode_rune_pos: "(r, n) = decode_rune s \<Longrightarrow> s \<noteq> [] \<Longrightarrow> 0 < n"
  using decode_rune_width [of s] by (metis snd_conv)

function utf8_valid :: "string \<Rightarrow> bool" where
  "utf8_valid s =
     (if s = [] then True
      else case decode_rune s of (r, n) \<Rightarrow> \<not> (r = rune_error \<and> n = 1) \<and> utf8_valid (drop n s))"
  by pat_completeness auto
termination
  by (relation "measure length") (auto dest: decode_rune_pos)

declare utf8_valid.simps [simp del]

lemma utf8_valid_Nil [simp]: "utf8_valid []"
  by (simp add: utf8_valid.simps)

lemma decode_rune_ascii: "byte_of a < 128 \<Longrightarrow> decode_rune (a # s) = (byte_of a, 1)"
  by (simp add: decode_rune_def)

lemma utf8_valid_ascii_Cons [simp]: "byte_of a < 128 \<Longrightarrow> utf8_valid (a # s) = utf8_valid s"
  by (subst utf8_valid.simps) (simp add: decode_rune_ascii rune_error_def)

lemma utf8_valid_ascii: "\<forall>c \<in> set s. byte_of c < 128 \<Longrightarrow> utf8_valid s"
  by (induction s) auto

section \<open>Validators\<close>

definition ValidateText :: "string \<Rightarrow> string \<Rightarrow> int \<Rightarrow> derror + unit" where
  "ValidateText field value maximumBytes =
     (if \<not> utf8_valid value then Inl ErrInvalidText
      else if int (length value) > maximumBytes
           then Inl (ResourceLimitError field ''bytes'' maximumBytes (int (length value)))
      else Inr ())"

definition ValidateTextWithoutNUL :: "string \<Rightarrow> string \<Rightarrow> int \<Rightarrow> derror + unit" where
  "ValidateTextWithoutNUL field value maximumBytes =
     bindE (ValidateText field value maximumBytes) (\<lambda>_.
       if CHR 0x00 \<in> set value then Inl ErrInvalidText else Inr ())"

definition ValidateBytes :: "string \<Rightarrow> string \<Rightarrow> int \<Rightarrow> derror + unit" where
  "ValidateBytes field value maximumBytes =
     (if int (length value) > maximumBytes
      then Inl (ResourceLimitError field ''bytes'' maximumBytes (int (length value))) else Inr ())"

lemma ValidateText_Inr_iff [simp]:
  "ValidateText f v m = Inr u \<longleftrightarrow> utf8_valid v \<and> int (length v) \<le> m"
  by (auto simp: ValidateText_def)

lemma ValidateTextWithoutNUL_Inr_iff [simp]:
  "ValidateTextWithoutNUL f v m = Inr u \<longleftrightarrow> utf8_valid v \<and> int (length v) \<le> m \<and> CHR 0x00 \<notin> set v"
  by (auto simp: ValidateTextWithoutNUL_def bindE_Inr_iff)

lemma ValidateBytes_Inr_iff [simp]: "ValidateBytes f v m = Inr u \<longleftrightarrow> int (length v) \<le> m"
  by (auto simp: ValidateBytes_def)

lemma ValidateTextWithoutNUL_err:
  "ValidateTextWithoutNUL f v m = Inl e \<Longrightarrow> e = ErrInvalidText \<or> is_resource_limit e"
  by (auto simp: ValidateTextWithoutNUL_def ValidateText_def is_resource_limit_def bindE_Inl_iff split: if_splits)

end
