(* ===== verification/Date_Time.thy ===== *)
theory Date_Time
  imports Clock_Time Text_Limits
begin

text \<open>
  Local date-times, zones and instants of \<open>internal/domain/temporal/datetime.go\<close>.

  A \<open>*time.Location\<close> is what the code reads from it: the UTC offset in force at a Unix second.  A
  \<open>ZoneDatabase\<close> is a function from names to an error, a nil location or a location; a nil database is
  \<open>None\<close>.  The offsets probed around a local time are collected by the code in a Go map, whose iteration
  order is arbitrary: \<open>namedCandidates\<close> takes them as a list and is shown not to depend on its order.
\<close>

section \<open>Local date-times\<close>

record LocalDateTime =
  ldt_date :: Date
  ldt_time :: LocalTime

definition zeroLocalDateTime :: LocalDateTime where
  "zeroLocalDateTime = \<lparr>ldt_date = zeroDate, ldt_time = zeroLocalTime\<rparr>"

definition valid_ldt :: "LocalDateTime \<Rightarrow> bool" where
  "valid_ldt d \<longleftrightarrow> valid_date (ldt_date d) \<and> valid_local_time (ldt_time d)"

definition ParseLocalDateTime :: "string \<Rightarrow> terror + LocalDateTime" where
  "ParseLocalDateTime input =
     (case last_index_where (\<lambda>c. c = CHR ''T'') input of
        None \<Rightarrow> Inl ErrInvalid
      | Some separator \<Rightarrow>
          if separator = 0 \<or> separator = length input - 1 then Inl ErrInvalid
          else bindE (ParseDate (take separator input)) (\<lambda>date.
               bindE (ParseLocalTime (drop (separator + 1) input)) (\<lambda>localTime.
                 Inr \<lparr>ldt_date = date, ldt_time = localTime\<rparr>)))"

definition LocalDateTimeString :: "LocalDateTime \<Rightarrow> string" where
  "LocalDateTimeString d = DateString (ldt_date d) @ CHR ''T'' # formatLocalTime (ldt_time d)"

definition LocalDateTimeAdd :: "LocalDateTime \<Rightarrow> Duration \<Rightarrow> terror + LocalDateTime" where
  "LocalDateTimeAdd d duration =
     bindE (AddMonths (ldt_date d) (dur_months duration)) (\<lambda>date.
     bindE (AddDays date (dur_days duration)) (\<lambda>date.
       let secondDays = floorDiv (dur_seconds duration) secondsPerDay;
           secondOfDay = floorMod (dur_seconds duration) secondsPerDay;
           nanoseconds = nanoOfDay (ldt_time d) + secondOfDay * nanosecondsPerSecond + dur_nanoseconds duration
       in bindE (checkedAdd secondDays (floorDiv nanoseconds nanosecondsPerDay)) (\<lambda>secondDays.
          bindE (AddDays date secondDays) (\<lambda>date.
          bindE (localTimeFromNanoOfDay (floorMod nanoseconds nanosecondsPerDay)) (\<lambda>localTime.
            Inr \<lparr>ldt_date = date, ldt_time = localTime\<rparr>)))))"

definition LocalDateTimeSubtract :: "LocalDateTime \<Rightarrow> Duration \<Rightarrow> terror + LocalDateTime" where
  "LocalDateTimeSubtract d duration = bindE (Negate duration) (\<lambda>negated. LocalDateTimeAdd d negated)"

definition LocalDateTimeCompare :: "LocalDateTime \<Rightarrow> LocalDateTime \<Rightarrow> int" where
  "LocalDateTimeCompare d other =
     (let comparison = DateCompare (ldt_date d) (ldt_date other)
      in if comparison \<noteq> 0 then comparison else LocalTimeCompare (ldt_time d) (ldt_time other))"

definition DateAdd :: "Date \<Rightarrow> Duration \<Rightarrow> terror + Date" where
  "DateAdd d duration =
     bindE (AddMonths d (dur_months duration)) (\<lambda>result. AddDays result (dur_days duration))"

definition DateSubtract :: "Date \<Rightarrow> Duration \<Rightarrow> terror + Date" where
  "DateSubtract d duration =
     bindE (checkedSub 0 (dur_months duration)) (\<lambda>months.
     bindE (checkedSub 0 (dur_days duration)) (\<lambda>days.
       DateAdd d \<lparr>dur_months = months, dur_days = days, dur_seconds = 0, dur_nanoseconds = 0\<rparr>))"

section \<open>Zones\<close>

text \<open>\<open>ZoneKind\<close> is a \<open>uint8\<close> with two named values; the decoders see other bytes.\<close>

definition OffsetZone :: int where "OffsetZone = 0"
definition NamedZone :: int where "NamedZone = 1"

record Zone =
  zone_kind :: int
  zone_offset :: int
  zone_name :: string

definition zeroZone :: Zone where
  "zeroZone = \<lparr>zone_kind = OffsetZone, zone_offset = 0, zone_name = []\<rparr>"

definition FixedZone :: "int \<Rightarrow> terror + Zone" where
  "FixedZone offsetSeconds =
     bindE (validateOffset offsetSeconds) (\<lambda>_.
       Inr \<lparr>zone_kind = OffsetZone, zone_offset = i32 offsetSeconds, zone_name = []\<rparr>)"

definition zone_name_ok :: "string \<Rightarrow> bool" where
  "zone_name_ok name \<longleftrightarrow> \<not> (name = [] \<or> \<not> utf8_valid name \<or> CHR 0x00 \<in> set name \<or>
     CHR ''['' \<in> set name \<or> CHR '']'' \<in> set name \<or> has_prefix (CHR ''+'') name \<or> has_prefix (CHR ''-'') name)"

definition ResolvedNamedZone :: "string \<Rightarrow> int \<Rightarrow> terror + Zone" where
  "ResolvedNamedZone name offsetSeconds =
     (if \<not> zone_name_ok name then Inl ErrInvalid
      else bindE (validateOffset offsetSeconds) (\<lambda>_.
        Inr \<lparr>zone_kind = NamedZone, zone_offset = i32 offsetSeconds, zone_name = name\<rparr>))"

text \<open>\<open>zone, _ := f()\<close>\<close>

definition zone_or_zero :: "terror + Zone \<Rightarrow> Zone" where
  "zone_or_zero m = (case m of Inl _ \<Rightarrow> zeroZone | Inr z \<Rightarrow> z)"

definition ZoneString :: "Zone \<Rightarrow> string" where
  "ZoneString z = (if zone_kind z = NamedZone then zone_name z else FormatOffset (zone_offset z))"

type_synonym location = "int \<Rightarrow> int"
type_synonym zonedb = "(string \<Rightarrow> terror + location option) option"

section \<open>Instants\<close>

record DateTime =
  dt_epochSecond :: int
  dt_nanosecond :: int
  dt_zone :: Zone

definition epochSecondFromLocal :: "LocalDateTime \<Rightarrow> int \<Rightarrow> terror + int" where
  "epochSecondFromLocal localdt offset =
     bindE (overflow_as (checkedMul (EpochDay (ldt_date localdt)) secondsPerDay)) (\<lambda>days.
       let secondsOfDay = nanoOfDay (ldt_time localdt) sdiv nanosecondsPerSecond
       in bindE (overflow_as (checkedAdd days secondsOfDay)) (\<lambda>seconds.
            overflow_as (checkedSub seconds offset)))"

definition localDateTimeAt :: "int \<Rightarrow> int \<Rightarrow> int \<Rightarrow> terror + LocalDateTime" where
  "localDateTimeAt epochSecond nanosecond offset =
     bindE (overflow_as (checkedAdd epochSecond offset)) (\<lambda>localSecond.
       let epochDay = floorDiv localSecond secondsPerDay
       in case civilFromDays epochDay of (year, month, day) \<Rightarrow>
          bindE (NewDate year month day) (\<lambda>date.
            let nanoOfDay = floorMod localSecond secondsPerDay * nanosecondsPerSecond + nanosecond
            in bindE (localTimeFromNanoOfDay nanoOfDay) (\<lambda>localTime.
                 Inr \<lparr>ldt_date = date, ldt_time = localTime\<rparr>)))"

definition restoreDateTime :: "int \<Rightarrow> int \<Rightarrow> Zone \<Rightarrow> terror + DateTime" where
  "restoreDateTime epochSecond nanosecond zone =
     (let carry = floorDiv nanosecond nanosecondsPerSecond
      in bindE (overflow_as (checkedAdd epochSecond carry)) (\<lambda>normalizedSecond.
         let normalizedNano = floorMod nanosecond nanosecondsPerSecond
         in if zone_kind zone \<noteq> OffsetZone \<and> zone_kind zone \<noteq> NamedZone then Inl ErrInvalid
            else if zone_kind zone = OffsetZone \<and> zone_name zone \<noteq> [] \<or>
                    zone_kind zone = NamedZone \<and> zone_name zone = [] then Inl ErrInvalid
            else bindE (validateOffset (zone_offset zone)) (\<lambda>_.
                 bindE (localDateTimeAt normalizedSecond normalizedNano (zone_offset zone)) (\<lambda>_.
                   Inr \<lparr>dt_epochSecond = normalizedSecond, dt_nanosecond = i32 normalizedNano,
                        dt_zone = zone\<rparr>))))"

definition DateTimeLocal :: "DateTime \<Rightarrow> LocalDateTime" where
  "DateTimeLocal d =
     (case localDateTimeAt (dt_epochSecond d) (dt_nanosecond d) (zone_offset (dt_zone d)) of
        Inl _ \<Rightarrow> zeroLocalDateTime | Inr l \<Rightarrow> l)"

definition newFixedDateTime :: "LocalDateTime \<Rightarrow> int \<Rightarrow> terror + DateTime" where
  "newFixedDateTime localdt offset =
     bindE (FixedZone offset) (\<lambda>zone.
     bindE (epochSecondFromLocal localdt offset) (\<lambda>epochSecond.
       restoreDateTime epochSecond (Nanosecond (ldt_time localdt)) zone))"

text \<open>\<open>time.Unix(s, n).In(location)\<close> shows the proleptic Gregorian fields of second \<open>s + location s\<close>.\<close>

definition locationMatchesLocal :: "location \<Rightarrow> int \<Rightarrow> LocalDateTime \<Rightarrow> bool" where
  "locationMatchesLocal location epochSecond localdt =
     (let shown = epochSecond + location epochSecond;
          second_of_day = floorMod shown secondsPerDay
      in case civilFromDays (floorDiv shown secondsPerDay) of (year, month, day) \<Rightarrow>
           year = Year (ldt_date localdt) \<and> month = Month (ldt_date localdt) \<and> day = Day (ldt_date localdt) \<and>
           second_of_day div 3600 = Hour (ldt_time localdt) \<and>
           second_of_day div 60 mod 60 = Minute (ldt_time localdt) \<and>
           second_of_day mod 60 = Second (ldt_time localdt))"

definition probedOffsets :: "location \<Rightarrow> int \<Rightarrow> int list" where
  "probedOffsets location naive = remdups (map (\<lambda>k. location (naive + k * 21600)) [-12..12])"

definition namedCandidates :: "location \<Rightarrow> int \<Rightarrow> LocalDateTime \<Rightarrow> int list \<Rightarrow> (int \<times> int) list" where
  "namedCandidates location naive localdt offsets =
     sort_key fst (concat (map (\<lambda>offset.
       case checkedSub naive offset of
         Inl _ \<Rightarrow> []
       | Inr epochSecond \<Rightarrow>
           if locationMatchesLocal location epochSecond localdt then [(epochSecond, offset)] else []) offsets))"

text \<open>The part of \<open>newNamedDateTime\<close> up to the candidates, and its two ways to choose one.  The
  recursive call of the code passes an explicit offset, so it recurs once: \<open>namedWithOffset\<close>.\<close>

definition namedLookup :: "LocalDateTime \<Rightarrow> string \<Rightarrow> zonedb \<Rightarrow> terror + (location \<times> int \<times> (int \<times> int) list)" where
  "namedLookup localdt name database =
     (case database of
        None \<Rightarrow> Inl ErrInvalid
      | Some db \<Rightarrow>
          bindE (ResolvedNamedZone name 0) (\<lambda>_.
          bindE (db name) (\<lambda>found.
            case found of
              None \<Rightarrow> Inl ErrInvalid
            | Some location \<Rightarrow>
                bindE (epochSecondFromLocal localdt 0) (\<lambda>naive.
                  Inr (location, naive,
                       namedCandidates location naive localdt (probedOffsets location naive))))))"

definition namedWithOffset :: "LocalDateTime \<Rightarrow> string \<Rightarrow> int \<Rightarrow> zonedb \<Rightarrow> terror + DateTime" where
  "namedWithOffset localdt name explicitOffset database =
     bindE (namedLookup localdt name database) (\<lambda>(location, naive, candidates).
       case filter (\<lambda>candidate. snd candidate = explicitOffset) candidates of
         [] \<Rightarrow> Inl ErrInvalid
       | candidate # _ \<Rightarrow>
           let zone = zone_or_zero (ResolvedNamedZone name (snd candidate))
           in restoreDateTime (fst candidate) (Nanosecond (ldt_time localdt)) zone)"

definition newNamedDateTime :: "LocalDateTime \<Rightarrow> string \<Rightarrow> int option \<Rightarrow> zonedb \<Rightarrow> terror + DateTime" where
  "newNamedDateTime localdt name explicitOffset database =
     (case explicitOffset of
        Some offset \<Rightarrow> namedWithOffset localdt name offset database
      | None \<Rightarrow>
          bindE (namedLookup localdt name database) (\<lambda>(location, naive, candidates).
            case candidates of
              candidate # _ \<Rightarrow>
                let zone = zone_or_zero (ResolvedNamedZone name (snd candidate))
                in restoreDateTime (fst candidate) (Nanosecond (ldt_time localdt)) zone
            | [] \<Rightarrow>
                let before = location (naive - 259200);
                    after = location (naive + 259200)
                in if after \<le> before then Inl ErrInvalid
                   else bindE (LocalDateTimeAdd localdt
                          \<lparr>dur_months = 0, dur_days = 0, dur_seconds = after - before, dur_nanoseconds = 0\<rparr>)
                        (\<lambda>shifted. namedWithOffset shifted name after database)))"

definition NewDateTimeWithDatabase :: "LocalDateTime \<Rightarrow> string \<Rightarrow> zonedb \<Rightarrow> terror + DateTime" where
  "NewDateTimeWithDatabase localdt timezone database =
     (case ParseOffset timezone of
        Inr offset \<Rightarrow> newFixedDateTime localdt offset
      | Inl _ \<Rightarrow> newNamedDateTime localdt timezone None database)"

definition NewDateTimeWithNamedOffsetAndDatabase ::
    "LocalDateTime \<Rightarrow> string \<Rightarrow> int \<Rightarrow> zonedb \<Rightarrow> terror + DateTime" where
  "NewDateTimeWithNamedOffsetAndDatabase localdt name offsetSeconds database =
     bindE (validateOffset offsetSeconds) (\<lambda>_. newNamedDateTime localdt name (Some offsetSeconds) database)"

definition DateTimeFromEpochWithDatabase :: "int \<Rightarrow> int \<Rightarrow> string \<Rightarrow> zonedb \<Rightarrow> terror + DateTime" where
  "DateTimeFromEpochWithDatabase epochSecond nanosecond timezone database =
     (let timezone = (if timezone = [] then ''Z'' else timezone)
      in case ParseOffset timezone of
           Inr offset \<Rightarrow> restoreDateTime epochSecond nanosecond (zone_or_zero (FixedZone offset))
         | Inl _ \<Rightarrow>
             (case database of
                None \<Rightarrow> Inl ErrInvalid
              | Some db \<Rightarrow>
                  bindE (db timezone) (\<lambda>found.
                    case found of
                      None \<Rightarrow> Inl ErrInvalid
                    | Some location \<Rightarrow>
                        bindE (checkedAdd epochSecond (floorDiv nanosecond nanosecondsPerSecond)) (\<lambda>normalizedSecond.
                        bindE (ResolvedNamedZone timezone (location normalizedSecond)) (\<lambda>zone.
                          restoreDateTime epochSecond nanosecond zone)))))"

definition DateTimeFromEpochMillis :: "int \<Rightarrow> zonedb \<Rightarrow> terror + DateTime" where
  "DateTimeFromEpochMillis milliseconds database =
     (let seconds = floorDiv milliseconds 1000;
          nanoseconds = floorMod milliseconds 1000 * 1000000
      in DateTimeFromEpochWithDatabase seconds nanoseconds ''Z'' database)"

definition EpochMillis :: "DateTime \<Rightarrow> terror + int" where
  "EpochMillis d =
     bindE (overflow_as (checkedMul (dt_epochSecond d) 1000)) (\<lambda>milliseconds.
       checkedAdd milliseconds (dt_nanosecond d sdiv 1000000))"

definition addEpochDuration :: "int \<Rightarrow> int \<Rightarrow> int \<Rightarrow> int \<Rightarrow> terror + int \<times> int" where
  "addEpochDuration epochSecond nanosecond seconds additionalNanoseconds =
     bindE (overflow_as (checkedAdd epochSecond seconds)) (\<lambda>resultSeconds.
     bindE (overflow_as (checkedAdd nanosecond additionalNanoseconds)) (\<lambda>nanosecond.
     bindE (overflow_as (checkedAdd resultSeconds (floorDiv nanosecond nanosecondsPerSecond))) (\<lambda>resultSeconds.
       Inr (resultSeconds, floorMod nanosecond nanosecondsPerSecond))))"

definition AddWithDatabase :: "DateTime \<Rightarrow> Duration \<Rightarrow> zonedb \<Rightarrow> terror + DateTime" where
  "AddWithDatabase d duration database =
     (let calendarOnly = \<lparr>dur_months = dur_months duration, dur_days = dur_days duration,
                          dur_seconds = 0, dur_nanoseconds = 0\<rparr>
      in bindE (LocalDateTimeAdd (DateTimeLocal d) calendarOnly) (\<lambda>localdt.
         bindE (if zone_kind (dt_zone d) = NamedZone
                then newNamedDateTime localdt (zone_name (dt_zone d)) None database
                else newFixedDateTime localdt (zone_offset (dt_zone d))) (\<lambda>calendarResult.
         bindE (addEpochDuration (dt_epochSecond calendarResult) (dt_nanosecond calendarResult)
                  (dur_seconds duration) (dur_nanoseconds duration)) (\<lambda>(seconds, nanoseconds).
           if zone_kind (dt_zone d) = NamedZone
           then DateTimeFromEpochWithDatabase seconds nanoseconds (zone_name (dt_zone d)) database
           else restoreDateTime seconds nanoseconds (dt_zone d)))))"

definition SubtractWithDatabase :: "DateTime \<Rightarrow> Duration \<Rightarrow> zonedb \<Rightarrow> terror + DateTime" where
  "SubtractWithDatabase d duration database =
     bindE (Negate duration) (\<lambda>negated. AddWithDatabase d negated database)"

text \<open>\<open>strings.Compare\<close> is the lexicographic order of the bytes.\<close>

fun strings_Compare :: "string \<Rightarrow> string \<Rightarrow> int" where
  "strings_Compare [] [] = 0"
| "strings_Compare [] (_ # _) = -1"
| "strings_Compare (_ # _) [] = 1"
| "strings_Compare (a # s) (b # t) =
     (if byte_of a < byte_of b then -1 else if byte_of a > byte_of b then 1 else strings_Compare s t)"

definition DateTimeCompare :: "DateTime \<Rightarrow> DateTime \<Rightarrow> int" where
  "DateTimeCompare d other =
     (let c1 = compareInt64 (dt_epochSecond d) (dt_epochSecond other);
          c2 = compareInt64 (dt_nanosecond d) (dt_nanosecond other);
          c3 = compareInt64 (zone_offset (dt_zone d)) (zone_offset (dt_zone other))
      in if c1 \<noteq> 0 then c1 else if c2 \<noteq> 0 then c2 else if c3 \<noteq> 0 then c3
         else if zone_kind (dt_zone d) \<noteq> zone_kind (dt_zone other)
              then if zone_kind (dt_zone d) < zone_kind (dt_zone other) then -1 else 1
              else strings_Compare (zone_name (dt_zone d)) (zone_name (dt_zone other)))"

definition DateTimeString :: "DateTime \<Rightarrow> string" where
  "DateTimeString d =
     (let result = LocalDateTimeString (DateTimeLocal d) @ FormatOffset (zone_offset (dt_zone d))
      in if zone_kind (dt_zone d) = NamedZone
         then result @ CHR ''['' # zone_name (dt_zone d) @ '']'' else result)"

definition ParseDateTime :: "zonedb \<Rightarrow> string \<Rightarrow> terror + DateTime" where
  "ParseDateTime pinned input =
     bindE (if input \<noteq> [] \<and> last input = CHR '']''
            then case last_index_where (\<lambda>c. c = CHR ''['') input of
                   None \<Rightarrow> Inl ErrInvalid
                 | Some left \<Rightarrow>
                     if left = length input - 2 then Inl ErrInvalid
                     else Inr (take (length input - 1 - (left + 1)) (drop (left + 1) input), take left input)
            else Inr ([], input)) (\<lambda>(name, base).
       case last_index_where (\<lambda>c. c = CHR ''T'') base of
         None \<Rightarrow> Inl ErrInvalid
       | Some separator \<Rightarrow>
           if separator = 0 \<or> separator = length base - 1 then Inl ErrInvalid
           else bindE (ParseDate (take separator base)) (\<lambda>date.
             let timeAndOffset = drop (separator + 1) base;
                 split = splitOffsetSuffix timeAndOffset
             in bindE (case split of
                         Inr (localText, _) \<Rightarrow> Inr localText
                       | Inl offsetErr \<Rightarrow> if name = [] then Inl offsetErr else Inr timeAndOffset) (\<lambda>localText.
                bindE (ParseLocalTime localText) (\<lambda>localTime.
                  let localdt = \<lparr>ldt_date = date, ldt_time = localTime\<rparr>
                  in if name = []
                     then bindE (split) (\<lambda>(_, offsetText).
                          bindE (ParseOffset offsetText) (\<lambda>offset. newFixedDateTime localdt offset))
                     else case split of
                            Inr (_, offsetText) \<Rightarrow>
                              bindE (ParseOffset offsetText) (\<lambda>offset.
                                NewDateTimeWithNamedOffsetAndDatabase localdt name offset pinned)
                          | Inl _ \<Rightarrow> NewDateTimeWithDatabase localdt name pinned))))"

end
