(* ===== verification/Date_Time_Facts.thy ===== *)
theory Date_Time_Facts
  imports Date_Time "HOL-Library.Multiset"
begin

text \<open>
  Facts on local date-times and instants: the local second of a local date-time is a faithful
  coordinate, instants and local fields convert back and forth exactly, named zones resolve to the
  earliest matching instant whatever the order the candidates are visited in, and text round trips.
\<close>

section \<open>The local second\<close>

lemma day_split:
  fixes a b p q :: int
  assumes "0 \<le> p" "p < 86400" "0 \<le> q" "q < 86400" "a * 86400 + p = b * 86400 + q"
  shows "a = b" "p = q"
proof -
  have "\<not> a < b" "\<not> b < a" using assms by linarith+
  then show "a = b" by simp
  with assms(5) show "p = q" by simp
qed

definition local_second :: "LocalDateTime \<Rightarrow> int" where
  "local_second l = EpochDay (ldt_date l) * 86400 + nanoOfDay (ldt_time l) div 1000000000"

lemma valid_ldt_bounds:
  assumes "valid_ldt l"
  shows "0 \<le> nanoOfDay (ldt_time l)" "nanoOfDay (ldt_time l) < 86400000000000"
    "0 \<le> nanoOfDay (ldt_time l) div 1000000000" "nanoOfDay (ldt_time l) div 1000000000 < 86400"
    "-31557600000000000 \<le> local_second l" "local_second l \<le> 31557600000086399"
proof -
  show n: "0 \<le> nanoOfDay (ldt_time l)" "nanoOfDay (ldt_time l) < 86400000000000"
    using assms by (simp_all add: valid_ldt_def valid_local_time_iff)
  define q where "q = nanoOfDay (ldt_time l) div 1000000000"
  have "0 \<le> q" "q < 86400" using n unfolding q_def by (simp_all add: pos_imp_zdiv_nonneg_iff)
  then show "0 \<le> nanoOfDay (ldt_time l) div 1000000000" "nanoOfDay (ldt_time l) div 1000000000 < 86400"
    "-31557600000000000 \<le> local_second l" "local_second l \<le> 31557600000086399"
    using EpochDay_bounds [of "ldt_date l"] assms unfolding local_second_def q_def [symmetric]
    by (simp_all add: valid_ldt_def)
qed

lemma Nanosecond_mod: "valid_local_time t \<Longrightarrow> Nanosecond t = nanoOfDay t mod 1000000000"
  by (simp add: Nanosecond_def unit_defs smod_nonneg valid_local_time_iff)

lemma local_second_inj:
  assumes v: "valid_ldt a" "valid_ldt b" and e: "local_second a = local_second b"
    "Nanosecond (ldt_time a) = Nanosecond (ldt_time b)"
  shows "a = b"
proof -
  note ba = valid_ldt_bounds [OF v(1)] and bb = valid_ldt_bounds [OF v(2)]
  define p q where "p = nanoOfDay (ldt_time a) div 1000000000" and "q = nanoOfDay (ldt_time b) div 1000000000"
  have d: "EpochDay (ldt_date a) = EpochDay (ldt_date b)" "p = q"
    using day_split [of p q "EpochDay (ldt_date a)" "EpochDay (ldt_date b)"]
      e(1) ba(3,4) bb(3,4) unfolding local_second_def p_def [symmetric] q_def [symmetric] by blast+
  have "nanoOfDay (ldt_time a) mod 1000000000 = nanoOfDay (ldt_time b) mod 1000000000"
    using e(2) v by (simp add: Nanosecond_mod valid_ldt_def)
  with d(2) have "nanoOfDay (ldt_time a) = nanoOfDay (ldt_time b)"
    unfolding p_def q_def by (metis div_mult_mod_eq)
  moreover have "ldt_date a = ldt_date b" using d(1) v by (intro EpochDay_inj) (simp_all add: valid_ldt_def)
  ultimately show ?thesis by (cases a; cases b; cases "ldt_time a"; cases "ldt_time b") simp
qed

lemma epochSecondFromLocal_exact:
  assumes l: "valid_ldt l" and o: "in64 off"
  shows "epochSecondFromLocal l off =
    (if in64 (local_second l - off) then Inr (local_second l - off) else Inl ErrOverflow)"
proof -
  note b = valid_ldt_bounds [OF l] and e = EpochDay_bounds [of "ldt_date l"]
  have d: "valid_date (ldt_date l)" using l by (simp add: valid_ldt_def)
  then have r: "in64 (EpochDay (ldt_date l))" "in64 (86400 :: int)" "in64 (EpochDay (ldt_date l) * 86400)"
    "in64 (nanoOfDay (ldt_time l) div 1000000000)" "in64 (local_second l)"
    using b e unfolding in64_def by simp_all
  have m: "checkedMul (EpochDay (ldt_date l)) 86400 = Inr (EpochDay (ldt_date l) * 86400)"
    using checkedMul_exact [OF r(1,2)] r(3) by simp
  have a: "checkedAdd (EpochDay (ldt_date l) * 86400) (nanoOfDay (ldt_time l) div 1000000000) = Inr (local_second l)"
    using checkedAdd_exact [OF r(3,4)] r(5) by (simp add: local_second_def)
  have s: "nanoOfDay (ldt_time l) sdiv 1000000000 = nanoOfDay (ldt_time l) div 1000000000"
    using b(1) by (simp add: sdiv_nonneg)
  show ?thesis
    unfolding epochSecondFromLocal_def Let_def secondsPerDay_def nanosecondsPerSecond_def m s
      overflow_as_simps bindE_Inr a checkedSub_exact [OF r(5) o] by simp
qed

lemma valid_offset_in64: "valid_offset n \<Longrightarrow> in64 n" "valid_offset n \<Longrightarrow> i32 n = n"
  by (simp_all add: valid_offset_def range_simps)

lemma epochSecondFromLocal_ok:
  "valid_ldt l \<Longrightarrow> valid_offset off \<Longrightarrow>
    epochSecondFromLocal l off = Inr (local_second l - off) \<and> in64 (local_second l - off)"
  using valid_ldt_bounds [of l] epochSecondFromLocal_exact [of l off] valid_offset_in64 [of off]
  by (simp add: valid_offset_def in64_def)

lemma in64_div: "in64 n \<Longrightarrow> 0 < k \<Longrightarrow> in64 (n div k)"
proof -
  assume n: "in64 n" and k: "0 < k"
  have "n div k \<le> 9223372036854775807"
  proof (cases "0 \<le> n")
    case True
    then have "n div k \<le> n" using k zdiv_mono2 [of n 1 k] by simp
    with n show ?thesis unfolding in64_def by linarith
  next
    case False
    with k have "n div k < 0" by (simp add: pos_imp_zdiv_neg_iff)
    then show ?thesis by linarith
  qed
  moreover have "-9223372036854775808 \<le> n div k"
  proof (cases "0 \<le> n")
    case True
    with k have "0 \<le> n div k" by (simp add: pos_imp_zdiv_nonneg_iff)
    then show ?thesis by linarith
  next
    case False
    then have "n \<le> n div k" using k zdiv_mono2_neg [of n 1 k] by simp
    with n show ?thesis unfolding in64_def by linarith
  qed
  ultimately show ?thesis unfolding in64_def by blast
qed

lemma localDateTimeAt_Inr_iff:
  assumes e: "in64 es" "in64 off" and n: "0 \<le> n" "n < 1000000000"
  shows "localDateTimeAt es n off = Inr l \<longleftrightarrow>
    valid_ldt l \<and> local_second l = es + off \<and> Nanosecond (ldt_time l) = n"
proof (cases "in64 (es + off)")
  case False
  then have "localDateTimeAt es n off = Inl ErrOverflow"
    by (simp add: localDateTimeAt_def checkedAdd_exact [OF e])
  moreover have "\<not> (valid_ldt l \<and> local_second l = es + off)"
    using False valid_ldt_bounds(5,6) [of l] unfolding in64_def by linarith
  ultimately show ?thesis by auto
next
  case True
  define s where "s = es + off"
  define q r where "q = s div 86400" and "r = s mod 86400"
  have s: "s = q * 86400 + r" "0 \<le> r" "r < 86400" by (simp_all add: q_def r_def)
  have q64: "in64 q" using True unfolding q_def s_def by (rule in64_div) simp
  let ?nd = "r * 1000000000 + n"
  have nd: "0 \<le> ?nd" "?nd < 86400000000000" using s n by simp_all
  have a: "localDateTimeAt es n off = bindE (dateOfDays q) (\<lambda>date.
      bindE (localTimeFromNanoOfDay ?nd) (\<lambda>t. Inr \<lparr>ldt_date = date, ldt_time = t\<rparr>))"
    using True unfolding localDateTimeAt_def checkedAdd_exact [OF e] dateOfDays_def
    by (simp add: unit_defs s_def [symmetric] q_def [symmetric] r_def [symmetric] Let_def split: prod.splits)
  have "localDateTimeAt es n off = Inr l \<longleftrightarrow>
      valid_date (ldt_date l) \<and> EpochDay (ldt_date l) = q \<and> nanoOfDay (ldt_time l) = ?nd"
    unfolding a using nd
    by (cases l) (auto simp: bindE_Inr_iff dateOfDays_Inr_iff [OF q64] valid_local_time_iff)
  also have "\<dots> \<longleftrightarrow> valid_ldt l \<and> local_second l = s \<and> Nanosecond (ldt_time l) = n"
  proof
    assume x: "valid_date (ldt_date l) \<and> EpochDay (ldt_date l) = q \<and> nanoOfDay (ldt_time l) = ?nd"
    then have v: "valid_local_time (ldt_time l)" "valid_ldt l" using nd by (simp_all add: valid_ldt_def valid_local_time_iff)
    have f: "nanoOfDay (ldt_time l) div 1000000000 = r" "nanoOfDay (ldt_time l) mod 1000000000 = n"
      using x total_split [OF n, of r] by simp_all
    have "local_second l = s" unfolding local_second_def f(1) using x s(1) by simp
    with v f(2) show "valid_ldt l \<and> local_second l = s \<and> Nanosecond (ldt_time l) = n"
      using Nanosecond_mod [OF v(1)] by simp
  next
    assume x: "valid_ldt l \<and> local_second l = s \<and> Nanosecond (ldt_time l) = n"
    define p where "p = nanoOfDay (ldt_time l) div 1000000000"
    have p: "0 \<le> p" "p < 86400" using valid_ldt_bounds [of l] x by (simp_all add: p_def)
    have "EpochDay (ldt_date l) * 86400 + p = q * 86400 + r"
      using x s(1) by (simp add: local_second_def p_def)
    then have "EpochDay (ldt_date l) = q \<and> p = r" using day_split [OF p s(2,3)] by blast
    moreover have "nanoOfDay (ldt_time l) = p * 1000000000 + n"
      using x Nanosecond_mod [of "ldt_time l"] by (simp add: p_def valid_ldt_def)
    ultimately show "valid_date (ldt_date l) \<and> EpochDay (ldt_date l) = q \<and> nanoOfDay (ldt_time l) = ?nd"
      using x by (simp add: valid_ldt_def)
  qed
  finally show ?thesis by (simp add: s_def)
qed

section \<open>Instants\<close>

definition valid_zone :: "Zone \<Rightarrow> bool" where
  "valid_zone z \<longleftrightarrow> valid_offset (zone_offset z) \<and>
     (zone_kind z = OffsetZone \<and> zone_name z = [] \<or> zone_kind z = NamedZone \<and> zone_name_ok (zone_name z))"

definition valid_datetime :: "DateTime \<Rightarrow> bool" where
  "valid_datetime d \<longleftrightarrow> in64 (dt_epochSecond d) \<and> 0 \<le> dt_nanosecond d \<and> dt_nanosecond d < 1000000000 \<and>
     valid_zone (dt_zone d) \<and>
     is_ok (localDateTimeAt (dt_epochSecond d) (dt_nanosecond d) (zone_offset (dt_zone d)))"

lemma FixedZone_Inr_iff [simp]:
  "FixedZone off = Inr z \<longleftrightarrow> valid_offset off \<and> z = \<lparr>zone_kind = OffsetZone, zone_offset = off, zone_name = []\<rparr>"
  by (auto simp: FixedZone_def bindE_Inr_iff valid_offset_in64)

lemma ResolvedNamedZone_Inr_iff [simp]:
  "ResolvedNamedZone name off = Inr z \<longleftrightarrow> zone_name_ok name \<and> valid_offset off \<and>
     z = \<lparr>zone_kind = NamedZone, zone_offset = off, zone_name = name\<rparr>"
  by (auto simp: ResolvedNamedZone_def bindE_Inr_iff valid_offset_in64)

lemma zone_name_ok_nonempty: "zone_name_ok n \<Longrightarrow> n \<noteq> []"
  by (simp add: zone_name_ok_def)

lemma valid_zone_simps:
  "valid_zone \<lparr>zone_kind = OffsetZone, zone_offset = off, zone_name = []\<rparr> \<longleftrightarrow> valid_offset off"
  "valid_zone \<lparr>zone_kind = NamedZone, zone_offset = off, zone_name = n\<rparr> \<longleftrightarrow> valid_offset off \<and> zone_name_ok n"
  by (auto simp: valid_zone_def OffsetZone_def NamedZone_def)

lemma restoreDateTime_valid_zone:
  assumes z: "valid_zone z" and e: "in64 es" and n: "0 \<le> n" "n < 1000000000"
  shows "restoreDateTime es n z = bindE (localDateTimeAt es n (zone_offset z))
    (\<lambda>_. Inr \<lparr>dt_epochSecond = es, dt_nanosecond = n, dt_zone = z\<rparr>)"
proof -
  have q: "floorDiv n 1000000000 = 0" "floorMod n 1000000000 = n" using n by simp_all
  have a: "checkedAdd es 0 = Inr es" using e by (simp add: checkedAdd_def)
  have i: "i32 n = n" using n by (intro i32_id) (simp add: in32_def)
  from z have k: "\<not> (zone_kind z \<noteq> OffsetZone \<and> zone_kind z \<noteq> NamedZone)"
    "\<not> (zone_kind z = OffsetZone \<and> zone_name z \<noteq> [] \<or> zone_kind z = NamedZone \<and> zone_name z = [])"
    "validateOffset (zone_offset z) = Inr ()"
    by (auto simp: valid_zone_def OffsetZone_def NamedZone_def dest: zone_name_ok_nonempty)
  show ?thesis
    unfolding restoreDateTime_def nanosecondsPerSecond_def Let_def q a overflow_as_simps bindE_Inr k(3) i
    using k(1,2) by (simp only: if_False)
qed

lemma restoreDateTime_Inr_iff:
  assumes z: "valid_zone z" and e: "in64 es" and n: "0 \<le> n" "n < 1000000000"
  shows "restoreDateTime es n z = Inr d \<longleftrightarrow>
    d = \<lparr>dt_epochSecond = es, dt_nanosecond = n, dt_zone = z\<rparr> \<and> valid_datetime d"
  unfolding restoreDateTime_valid_zone [OF assms]
  by (auto simp: bindE_Inr_iff valid_datetime_def is_ok_iff assms)

text \<open>A valid instant shows exactly one local date-time: the one at its second plus its offset.\<close>

lemma DateTimeLocal_unique:
  assumes d: "valid_datetime d"
  shows "DateTimeLocal d = l \<longleftrightarrow> valid_ldt l \<and>
    local_second l = dt_epochSecond d + zone_offset (dt_zone d) \<and> Nanosecond (ldt_time l) = dt_nanosecond d"
proof -
  have r: "in64 (dt_epochSecond d)" "in64 (zone_offset (dt_zone d))" "0 \<le> dt_nanosecond d"
    "dt_nanosecond d < 1000000000"
    using d by (auto simp: valid_datetime_def valid_zone_def valid_offset_in64)
  obtain k where k: "localDateTimeAt (dt_epochSecond d) (dt_nanosecond d) (zone_offset (dt_zone d)) = Inr k"
    using d by (auto simp: valid_datetime_def is_ok_iff)
  then have "DateTimeLocal d = k" by (simp add: DateTimeLocal_def)
  then show ?thesis using k localDateTimeAt_Inr_iff [OF r, of l] by auto
qed

lemma DateTimeLocal_facts:
  assumes "valid_datetime d"
  shows "valid_ldt (DateTimeLocal d)" "Nanosecond (ldt_time (DateTimeLocal d)) = dt_nanosecond d"
    "local_second (DateTimeLocal d) = dt_epochSecond d + zone_offset (dt_zone d)"
  using DateTimeLocal_unique [OF assms, of "DateTimeLocal d"] by simp_all

lemma restore_at_local:
  assumes l: "valid_ldt l" and z: "valid_zone z"
  defines "d \<equiv> \<lparr>dt_epochSecond = local_second l - zone_offset z, dt_nanosecond = Nanosecond (ldt_time l), dt_zone = z\<rparr>"
  shows "restoreDateTime (local_second l - zone_offset z) (Nanosecond (ldt_time l)) z = Inr d"
    "valid_datetime d" "DateTimeLocal d = l"
proof -
  have o: "valid_offset (zone_offset z)" using z by (simp add: valid_zone_def)
  have e: "in64 (local_second l - zone_offset z)" using epochSecondFromLocal_ok [OF l o] by blast
  have n: "0 \<le> Nanosecond (ldt_time l)" "Nanosecond (ldt_time l) < 1000000000"
    using l local_time_fields(7,8) by (simp_all add: valid_ldt_def)
  have a: "localDateTimeAt (local_second l - zone_offset z) (Nanosecond (ldt_time l)) (zone_offset z) = Inr l"
    using localDateTimeAt_Inr_iff [OF e valid_offset_in64(1) [OF o] n] l by simp
  then show "restoreDateTime (local_second l - zone_offset z) (Nanosecond (ldt_time l)) z = Inr d"
    by (simp add: restoreDateTime_valid_zone [OF z e n] d_def)
  then show "valid_datetime d" using restoreDateTime_Inr_iff [OF z e n] by blast
  show "DateTimeLocal d = l" using a by (simp add: DateTimeLocal_def d_def)
qed

theorem newFixedDateTime_Inr_iff:
  assumes l: "valid_ldt l"
  shows "newFixedDateTime l off = Inr d \<longleftrightarrow> valid_offset off \<and> valid_datetime d \<and>
    dt_zone d = \<lparr>zone_kind = OffsetZone, zone_offset = off, zone_name = []\<rparr> \<and> DateTimeLocal d = l"
proof (cases "valid_offset off")
  case False
  then have "newFixedDateTime l off \<noteq> Inr d" by (auto simp: newFixedDateTime_def bindE_Inr_iff)
  with False show ?thesis by simp
next
  case True
  let ?z = "\<lparr>zone_kind = OffsetZone, zone_offset = off, zone_name = []\<rparr>"
  let ?d = "\<lparr>dt_epochSecond = local_second l - off, dt_nanosecond = Nanosecond (ldt_time l), dt_zone = ?z\<rparr>"
  have z: "valid_zone ?z" using True by (simp add: valid_zone_simps)
  have fz: "FixedZone off = Inr ?z" using True by simp
  note r = restore_at_local [OF l z, simplified]
  have n: "newFixedDateTime l off = Inr ?d"
    using r(1) epochSecondFromLocal_ok [OF l True] by (simp add: newFixedDateTime_def fz del: FixedZone_Inr_iff)
  have "valid_datetime d \<and> dt_zone d = ?z \<and> DateTimeLocal d = l \<Longrightarrow> d = ?d"
    using DateTimeLocal_facts [of d] by (cases d) auto
  with True n r(2,3) show ?thesis by auto
qed

section \<open>Named zones\<close>

lemma clock_fields_eq:
  assumes t: "valid_local_time t" and r: "0 \<le> r" "r < 86400"
  shows "(r div 3600 = Hour t \<and> r div 60 mod 60 = Minute t \<and> r mod 60 = Second t) \<longleftrightarrow>
    r = nanoOfDay t div 1000000000"
proof -
  note f = local_time_fields [OF t]
  have p: "nanoOfDay t div 1000000000 = Hour t * 3600 + Minute t * 60 + Second t"
    unfolding f(9) using total_split(1) [OF f(7,8)] .
  define a b where "a = r div 60" and "b = a div 60"
  have h: "r div 3600 = b" unfolding a_def b_def by (simp add: zdiv_zmult2_eq [symmetric])
  have r1: "r = a * 60 + r mod 60" "a = b * 60 + a mod 60" by (simp_all add: a_def b_def)
  show ?thesis
  proof
    assume e: "r div 3600 = Hour t \<and> r div 60 mod 60 = Minute t \<and> r mod 60 = Second t"
    then have "b = Hour t" "a mod 60 = Minute t" "r mod 60 = Second t" using h by (simp_all add: a_def)
    with r1 show "r = nanoOfDay t div 1000000000" unfolding p by linarith
  next
    assume "r = nanoOfDay t div 1000000000"
    then have e: "r = (Hour t * 60 + Minute t) * 60 + Second t" unfolding p by simp
    have "a = Hour t * 60 + Minute t" unfolding a_def e
      by (rule div_unique_pos) (use f in simp_all)
    moreover from this have "b = Hour t" unfolding b_def by (intro div_unique_pos) (use f in simp_all)
    moreover define x y where "x = a mod 60" and "y = r mod 60"
    ultimately have "x = Minute t" "y = Second t" "r div 3600 = Hour t"
      using h r1 e unfolding x_def [symmetric] y_def [symmetric] by simp_all
    then show "r div 3600 = Hour t \<and> r div 60 mod 60 = Minute t \<and> r mod 60 = Second t"
      by (simp add: x_def y_def a_def)
  qed
qed

lemma civil_fields_eq:
  assumes d: "valid_date d" and q: "in64 (q + 719468)"
  shows "civilFromDays q = (Year d, Month d, Day d) \<longleftrightarrow> q = EpochDay d"
proof
  assume "civilFromDays q = (Year d, Month d, Day d)"
  from daysFromCivil_civilFromDays(2) [OF q this] show "q = EpochDay d" by (simp add: EpochDay_def Year_def)
next
  assume "q = EpochDay d"
  then show "civilFromDays q = (Year d, Month d, Day d)"
    using civilFromDays_daysFromCivil [of "Year d" "Month d" "Day d"] d q
    by (simp add: EpochDay_def valid_date_def Year_def)
qed

definition sane_location :: "location \<Rightarrow> bool" where
  "sane_location location \<longleftrightarrow> (\<forall>t. valid_offset (location t))"

lemma locationMatchesLocal_iff:
  assumes l: "valid_ldt l" and s: "sane_location location" and e: "\<bar>es\<bar> \<le> 40000000000000000"
  shows "locationMatchesLocal location es l \<longleftrightarrow> es + location es = local_second l"
proof -
  define s where "s = es + location es"
  define q r where "q = s div 86400" and "r = s mod 86400"
  have sr: "s = q * 86400 + r" "0 \<le> r" "r < 86400" by (simp_all add: q_def r_def)
  have "valid_offset (location es)" using s by (simp add: sane_location_def)
  then have "\<bar>s\<bar> \<le> 50000000000000000" using e unfolding s_def valid_offset_def by linarith
  then have q: "in64 (q + 719468)" using sr unfolding in64_def by linarith
  have d: "valid_date (ldt_date l)" "valid_local_time (ldt_time l)" using l by (simp_all add: valid_ldt_def)
  have "locationMatchesLocal location es l \<longleftrightarrow>
    civilFromDays q = (Year (ldt_date l), Month (ldt_date l), Day (ldt_date l)) \<and>
    (r div 3600 = Hour (ldt_time l) \<and> r div 60 mod 60 = Minute (ldt_time l) \<and> r mod 60 = Second (ldt_time l))"
    unfolding locationMatchesLocal_def Let_def s_def [symmetric]
    by (simp add: secondsPerDay_def q_def [symmetric] r_def [symmetric] split: prod.splits)
  also have "\<dots> \<longleftrightarrow> q = EpochDay (ldt_date l) \<and> r = nanoOfDay (ldt_time l) div 1000000000"
    unfolding civil_fields_eq [OF d(1) q] clock_fields_eq [OF d(2) sr(2,3)] ..
  also have "\<dots> \<longleftrightarrow> s = local_second l"
  proof
    assume "s = local_second l"
    then have "q * 86400 + r = EpochDay (ldt_date l) * 86400 + nanoOfDay (ldt_time l) div 1000000000"
      unfolding local_second_def using sr(1) by simp
    from day_split [OF sr(2,3) valid_ldt_bounds(3,4) [OF l] this]
    show "q = EpochDay (ldt_date l) \<and> r = nanoOfDay (ldt_time l) div 1000000000" by blast
  qed (simp add: local_second_def sr(1))
  finally show ?thesis by (simp add: s_def)
qed

lemma namedCandidates_set:
  assumes l: "valid_ldt l" and s: "sane_location location" and o: "\<forall>off \<in> set offsets. valid_offset off"
  shows "set (namedCandidates location (local_second l) l offsets) =
    {(local_second l - off, off) | off. off \<in> set offsets \<and> location (local_second l - off) = off}"
proof -
  have "(case checkedSub (local_second l) off of Inl _ \<Rightarrow> []
     | Inr es \<Rightarrow> if locationMatchesLocal location es l then [(es, off)] else []) =
     (if location (local_second l - off) = off then [(local_second l - off, off)] else [])"
    if "off \<in> set offsets" for off
  proof -
    have v: "valid_offset off" using o that by blast
    have b: "\<bar>local_second l - off\<bar> \<le> 40000000000000000"
      using v valid_ldt_bounds(5,6) [OF l] unfolding valid_offset_def by linarith
    have "in64 (local_second l)" "in64 (local_second l - off)"
      using b valid_ldt_bounds(5,6) [OF l] unfolding in64_def by linarith+
    then have "checkedSub (local_second l) off = Inr (local_second l - off)"
      using checkedSub_exact valid_offset_in64(1) [OF v] by simp
    with locationMatchesLocal_iff [OF l s b] show ?thesis by auto
  qed
  then show ?thesis unfolding namedCandidates_def set_sort set_concat by (auto split: if_splits)
qed

text \<open>The order in which the map of offsets is visited does not matter.\<close>

theorem namedCandidates_order:
  assumes d: "distinct xs" "distinct ys" "set xs = set ys"
    and b: "in64 naive" "\<forall>off \<in> set xs. in64 off"
  shows "namedCandidates location naive l xs = namedCandidates location naive l ys"
proof -
  define f where "f = (\<lambda>off. case checkedSub naive off of Inl _ \<Rightarrow> []
     | Inr es \<Rightarrow> if locationMatchesLocal location es l then [(es, off)] else [])"
  have c: "namedCandidates location naive l zs = sort_key fst (concat (map f zs))" for zs
    by (simp add: namedCandidates_def f_def)
  have "mset (map (mset \<circ> f) xs) = mset (map (mset \<circ> f) ys)"
    using d by (simp add: set_eq_iff_mset_eq_distinct)
  then have m: "mset (concat (map f xs)) = mset (concat (map f ys))"
    unfolding mset_concat map_map by (metis sum_mset_sum_list)
  have "set (f off) \<subseteq> {(naive - off, off)}" if "in64 off" for off
    using checkedSub_exact [OF b(1) that] by (auto simp: f_def split: if_splits)
  then have "set (concat (map f xs)) \<subseteq> {(naive - off, off) | off. True}" using b(2) by fastforce
  then have inj: "inj_on fst (set (concat (map f xs)))" by (rule inj_on_subset [rotated]) (auto simp: inj_on_def)
  show ?thesis unfolding c
    by (rule sort_key_inj_key_eq [OF _ inj]) (simp_all add: m)
qed

lemma set_probedOffsets: "set (probedOffsets location naive) = {location (naive + k * 21600) | k. -12 \<le> k \<and> k \<le> 12}"
  unfolding probedOffsets_def set_remdups set_map set_upto by auto

text \<open>What \<open>newNamedDateTime\<close> returns without an explicit offset when some probed offset fits: the local
  fields are the requested ones, the offset is the one in force at the instant, and no other fitting
  probed offset gives an earlier instant.\<close>

lemma sorted_head_min: "sorted (map f (x # xs)) \<Longrightarrow> y \<in> set (x # xs) \<Longrightarrow> f x \<le> f y"
  by auto

theorem newNamedDateTime_earliest:
  assumes l: "valid_ldt l" and s: "sane_location location" and n: "zone_name_ok name"
    and db: "db name = Inr (Some location)"
    and fit: "off \<in> set (probedOffsets location (local_second l))" "location (local_second l - off) = off"
  obtains d where "newNamedDateTime l name None (Some db) = Inr d" "valid_datetime d" "DateTimeLocal d = l"
    "dt_zone d = \<lparr>zone_kind = NamedZone, zone_offset = location (dt_epochSecond d), zone_name = name\<rparr>"
    "dt_epochSecond d \<le> local_second l - off"
proof -
  let ?c = "namedCandidates location (local_second l) l (probedOffsets location (local_second l))"
  have po: "\<forall>o' \<in> set (probedOffsets location (local_second l)). valid_offset o'"
    using s by (auto simp: set_probedOffsets sane_location_def)
  note cs = namedCandidates_set [OF l s po]
  have mem: "(local_second l - off, off) \<in> set ?c" unfolding cs using fit by blast
  then obtain e o' rest where c: "?c = (e, o') # rest" by (cases ?c) auto
  then have "(e, o') \<in> set ?c" by simp
  then have e: "e = local_second l - o'" "location e = o'" "valid_offset o'" unfolding cs using po by auto
  have "sorted (map fst ?c)" by (simp add: namedCandidates_def)
  from sorted_head_min [OF this [unfolded c] mem [unfolded c]] have le: "e \<le> local_second l - off" by simp
  let ?z = "\<lparr>zone_kind = NamedZone, zone_offset = o', zone_name = name\<rparr>"
  have z: "ResolvedNamedZone name o' = Inr ?z" "valid_zone ?z" using n e(3) by (simp_all add: valid_zone_simps)
  have "epochSecondFromLocal l 0 = Inr (local_second l)"
    using epochSecondFromLocal_ok [OF l, of 0] by (simp add: valid_offset_def)
  moreover obtain z0 where "ResolvedNamedZone name 0 = Inr z0" using n by (auto simp: valid_offset_def)
  ultimately have "namedLookup l name (Some db) = Inr (location, local_second l, ?c)"
    using db by (simp add: namedLookup_def del: ResolvedNamedZone_Inr_iff)
  then have "newNamedDateTime l name None (Some db) = restoreDateTime e (Nanosecond (ldt_time l)) ?z"
    by (simp add: newNamedDateTime_def c z(1) zone_or_zero_def del: ResolvedNamedZone_Inr_iff)
  moreover let ?d = "\<lparr>dt_epochSecond = e, dt_nanosecond = Nanosecond (ldt_time l), dt_zone = ?z\<rparr>"
  have "restoreDateTime e (Nanosecond (ldt_time l)) ?z = Inr ?d" "valid_datetime ?d" "DateTimeLocal ?d = l"
    using restore_at_local [OF l z(2), simplified] e(1) by simp_all
  ultimately show ?thesis using that [of ?d] e(2) le by simp
qed

section \<open>Arithmetic on instants\<close>

lemma AddMonths_zero:
  assumes d: "valid_date d"
  shows "AddMonths d 0 = Inr d"
proof -
  have f: "1 \<le> Month d" "Month d \<le> 12" "Day d \<le> daysInMonth (Year d) (Month d)"
    using d by (simp_all add: valid_date_def valid_civil_def Year_def)
  have "(12 * Year d + (Month d - 1) + 0) div 12 = Year d" by (rule div_unique_pos) (use f in simp_all)
  moreover have "(12 * Year d + (Month d - 1) + 0) mod 12 = Month d - 1" using f by simp
  ultimately show ?thesis using d f by (simp add: AddMonths_Inr_iff in64_def min_def)
qed

lemma LocalDateTimeAdd_calendar_zero:
  assumes l: "valid_ldt l"
  shows "LocalDateTimeAdd l \<lparr>dur_months = 0, dur_days = 0, dur_seconds = 0, dur_nanoseconds = 0\<rparr> = Inr l"
proof -
  have d: "valid_date (ldt_date l)" using l by (simp add: valid_ldt_def)
  note b = valid_ldt_bounds(1,2) [OF l]
  have q: "nanoOfDay (ldt_time l) div 86400000000000 = 0" "nanoOfDay (ldt_time l) mod 86400000000000 = nanoOfDay (ldt_time l)"
    using b by simp_all
  have "localTimeFromNanoOfDay (nanoOfDay (ldt_time l)) = Inr (ldt_time l)"
    using l by (simp add: valid_ldt_def)
  then show ?thesis
    using d q by (simp add: LocalDateTimeAdd_def AddMonths_zero AddDays_zero unit_defs checkedAdd_def i64_def
        del: localTimeFromNanoOfDay_Inr_iff)
qed

definition instant_nanos :: "DateTime \<Rightarrow> int" where
  "instant_nanos d = dt_epochSecond d * 1000000000 + dt_nanosecond d"

text \<open>With a fixed offset, adding an elapsed duration moves the instant by exactly that duration, or
  reports an error.\<close>

theorem AddWithDatabase_fixed_elapsed:
  assumes d: "valid_datetime d" and k: "zone_kind (dt_zone d) = OffsetZone"
    and v: "valid_duration dur" "dur_months dur = 0" "dur_days dur = 0"
  shows "AddWithDatabase d dur database = Inr e \<Longrightarrow>
    valid_datetime e \<and> dt_zone e = dt_zone d \<and> instant_nanos e = instant_nanos d + secondsGroupNanoseconds dur"
proof -
  let ?l = "DateTimeLocal d" and ?o = "zone_offset (dt_zone d)"
  note dl = DateTimeLocal_facts [OF d]
  have z: "valid_zone (dt_zone d)" "valid_offset ?o" "dt_zone d = \<lparr>zone_kind = OffsetZone, zone_offset = ?o, zone_name = []\<rparr>"
    using d k by (auto simp: valid_datetime_def valid_zone_def OffsetZone_def NamedZone_def intro: Zone.equality)
  have nf: "newFixedDateTime ?l ?o = Inr d"
    using newFixedDateTime_Inr_iff [OF dl(1)] z d by simp
  assume a: "AddWithDatabase d dur database = Inr e"
  have kn: "zone_kind (dt_zone d) \<noteq> NamedZone" using k by (simp add: OffsetZone_def NamedZone_def)
  have "LocalDateTimeAdd ?l \<lparr>dur_months = dur_months dur, dur_days = dur_days dur, dur_seconds = 0, dur_nanoseconds = 0\<rparr> = Inr ?l"
    using LocalDateTimeAdd_calendar_zero [OF dl(1)] v by simp
  with a nf kn obtain s n where sn: "addEpochDuration (dt_epochSecond d) (dt_nanosecond d) (dur_seconds dur) (dur_nanoseconds dur) = Inr (s, n)"
    "restoreDateTime s n (dt_zone d) = Inr e"
    by (auto simp: AddWithDatabase_def bindE_Inr_iff Let_def)
  define m where "m = dt_nanosecond d + dur_nanoseconds dur"
  have r: "in64 (dt_epochSecond d)" "in64 (dur_seconds dur)" "in64 (dt_nanosecond d)" "in64 (dur_nanoseconds dur)"
    "in64 m" "in64 (m div 1000000000)"
    using d v(1) in64_div [of m 1000000000]
    by (auto simp: valid_datetime_def valid_duration_def range_simps m_def)
  have s: "s = dt_epochSecond d + dur_seconds dur + m div 1000000000" "n = m mod 1000000000" "in64 s"
    using sn(1) r by (auto simp: addEpochDuration_def bindE_Inr_iff checked_Inr_iff m_def [symmetric] nanosecondsPerSecond_def)
  have n: "0 \<le> n" "n < 1000000000" by (simp_all add: s(2))
  have e: "e = \<lparr>dt_epochSecond = s, dt_nanosecond = n, dt_zone = dt_zone d\<rparr>" "valid_datetime e"
    using sn(2) restoreDateTime_Inr_iff [OF z(1) s(3) n] by blast+
  have "s * 1000000000 + n = (dt_epochSecond d + dur_seconds dur) * 1000000000 + m"
    using mult_div_mod_eq [of 1000000000 m] unfolding s(1,2) by simp
  then have "instant_nanos e = instant_nanos d + secondsGroupNanoseconds dur"
    by (simp add: e(1) instant_nanos_def secondsGroupNanoseconds_def nanosecondsPerSecond_def m_def)
  with e show "valid_datetime e \<and> dt_zone e = dt_zone d \<and> instant_nanos e = instant_nanos d + secondsGroupNanoseconds dur"
    by simp
qed

end
