(* ===== verification/Date_Time_Text.thy ===== *)
theory Date_Time_Text
  imports Date_Time_Facts
begin

text \<open>
  Text round trips of local date-times and instants, the ordering of instants, and the behaviour of
  \<open>AddWithDatabase\<close> in an overlap of a named zone.
\<close>

section \<open>Characters of rendered times\<close>

lemma format_int_chars: "0 \<le> n \<Longrightarrow> c \<in> set (format_int w n) \<Longrightarrow> is_digit c"
  using format_int_digits [of n w] by (simp add: list_all_iff)

lemma formatLocalTime_chars:
  assumes t: "valid_local_time t" and c: "c \<in> set (formatLocalTime t)"
  shows "is_digit c \<or> c = CHR '':'' \<or> c = CHR ''.''"
proof -
  note f = local_time_fields [OF t]
  have "c \<in> set (format_int 2 (Hour t)) \<or> c \<in> set (format_int 2 (Minute t)) \<or> c \<in> set (format_int 2 (Second t)) \<or>
      c \<in> set (format_int 9 (Nanosecond t)) \<or> c = CHR '':'' \<or> c = CHR ''.''"
    using c unfolding formatLocalTime_def Let_def
    by (simp only: set_append list.set insert_iff Un_iff empty_iff split: if_splits) (blast dest: set_trim_right)+
  then show ?thesis using format_int_chars [OF f(1)] format_int_chars [OF f(3)] format_int_chars [OF f(5)]
      format_int_chars [OF f(7)] by blast
qed

lemma FormatOffset_chars:
  assumes o: "valid_offset n" and c: "c \<in> set (FormatOffset n)"
  shows "is_digit c \<or> c \<in> {CHR '':'', CHR ''Z'', CHR ''+'', CHR ''-''}"
  using o by (cases rule: FormatOffset_shape) (use c in auto)

lemma FormatOffset_nonempty: "valid_offset n \<Longrightarrow> FormatOffset n \<noteq> []"
  by (erule FormatOffset_shape) auto

lemma DateString_nonempty [simp]: "DateString d \<noteq> []"
  by (simp add: DateString_def)

lemma not_T: "is_digit c \<or> c = CHR '':'' \<or> c = CHR ''.'' \<or> c \<in> {CHR '':'', CHR ''Z'', CHR ''+'', CHR ''-''} \<Longrightarrow>
    c \<noteq> CHR ''T'' \<and> c \<noteq> CHR '']'' \<and> c \<noteq> CHR ''[''"
  by (auto simp: is_digit_def)

lemma separator_of_time:
  assumes l: "valid_local_time t" and s: "\<forall>c \<in> set suffix. c \<noteq> CHR ''T''"
  shows "last_index_where (\<lambda>c. c = CHR ''T'') (d @ CHR ''T'' # formatLocalTime t @ suffix) = Some (length d)"
proof (rule last_index_where_append)
  show "\<forall>x \<in> set (formatLocalTime t @ suffix). x \<noteq> CHR ''T''"
    using formatLocalTime_chars [OF l] not_T s by auto
qed simp

lemma ParseLocalDateTime_String:
  assumes l: "valid_ldt l"
  shows "ParseLocalDateTime (LocalDateTimeString l) = Inr l"
proof -
  have v: "valid_date (ldt_date l)" "valid_local_time (ldt_time l)" using l by (simp_all add: valid_ldt_def)
  have s: "last_index_where (\<lambda>c. c = CHR ''T'') (LocalDateTimeString l) = Some (length (DateString (ldt_date l)))"
    using separator_of_time [OF v(2), of "[]"] by (simp add: LocalDateTimeString_def)
  have "formatLocalTime (ldt_time l) \<noteq> []" using length_formatLocalTime [OF v(2)] by auto
  then show ?thesis
    using ParseDate_DateString [OF v(1)] ParseLocalTime_formatLocalTime [OF v(2)]
    by (simp add: ParseLocalDateTime_def s) (simp add: LocalDateTimeString_def)
qed

section \<open>Instants\<close>

lemma ParseDateTime_base:
  assumes l: "valid_ldt l" and o: "valid_offset off"
  defines "base \<equiv> LocalDateTimeString l @ FormatOffset off"
  shows "last_index_where (\<lambda>c. c = CHR ''T'') base = Some (length (DateString (ldt_date l)))"
    "length (DateString (ldt_date l)) \<noteq> 0" "length (DateString (ldt_date l)) \<noteq> length base - 1"
    "ParseDate (take (length (DateString (ldt_date l))) base) = Inr (ldt_date l)"
    "splitOffsetSuffix (drop (length (DateString (ldt_date l)) + 1) base) = Inr (formatLocalTime (ldt_time l), FormatOffset off)"
    "ParseLocalTime (formatLocalTime (ldt_time l)) = Inr (ldt_time l)"
    "ParseOffset (FormatOffset off) = Inr off"
    "base \<noteq> []" "last base \<noteq> CHR '']''" "CHR ''['' \<notin> set (FormatOffset off)"
proof -
  have v: "valid_date (ldt_date l)" "valid_local_time (ldt_time l)" using l by (simp_all add: valid_ldt_def)
  have nT: "\<forall>c \<in> set (FormatOffset off). c \<noteq> CHR ''T'' \<and> c \<noteq> CHR '']'' \<and> c \<noteq> CHR ''[''"
    using FormatOffset_chars [OF o] not_T by blast
  then show "last_index_where (\<lambda>c. c = CHR ''T'') base = Some (length (DateString (ldt_date l)))"
    using separator_of_time [OF v(2), of "FormatOffset off"] by (simp add: base_def LocalDateTimeString_def)
  show "length (DateString (ldt_date l)) \<noteq> 0" by simp
  have lt: "5 \<le> length (formatLocalTime (ldt_time l))" using v(2) by (rule length_formatLocalTime)
  then show "length (DateString (ldt_date l)) \<noteq> length base - 1"
    by (auto simp: base_def LocalDateTimeString_def)
  show "ParseDate (take (length (DateString (ldt_date l))) base) = Inr (ldt_date l)"
    using ParseDate_DateString [OF v(1)] by (simp add: base_def LocalDateTimeString_def)
  show "splitOffsetSuffix (drop (length (DateString (ldt_date l)) + 1) base) = Inr (formatLocalTime (ldt_time l), FormatOffset off)"
    using splitOffsetSuffix_FormatOffset [OF o, of "formatLocalTime (ldt_time l)"] lt
    by (simp add: base_def LocalDateTimeString_def)
  show "ParseLocalTime (formatLocalTime (ldt_time l)) = Inr (ldt_time l)" using v(2) by (rule ParseLocalTime_formatLocalTime)
  show "ParseOffset (FormatOffset off) = Inr off" using o by (rule ParseOffset_FormatOffset)
  show "base \<noteq> []" by (simp add: base_def LocalDateTimeString_def)
  have "last base \<in> set (FormatOffset off)" using FormatOffset_nonempty [OF o] by (simp add: base_def)
  with nT show "last base \<noteq> CHR '']''" "CHR ''['' \<notin> set (FormatOffset off)" by auto
qed

theorem ParseDateTime_fixed:
  assumes d: "valid_datetime d" and k: "zone_kind (dt_zone d) = OffsetZone"
  shows "ParseDateTime pinned (DateTimeString d) = Inr d"
proof -
  let ?l = "DateTimeLocal d" and ?o = "zone_offset (dt_zone d)"
  note dl = DateTimeLocal_facts [OF d]
  have z: "valid_offset ?o" "dt_zone d = \<lparr>zone_kind = OffsetZone, zone_offset = ?o, zone_name = []\<rparr>"
    using d k by (auto simp: valid_datetime_def valid_zone_def OffsetZone_def NamedZone_def intro: Zone.equality)
  have s: "DateTimeString d = LocalDateTimeString ?l @ FormatOffset ?o"
    using k by (simp add: DateTimeString_def OffsetZone_def NamedZone_def)
  have nf: "newFixedDateTime ?l ?o = Inr d" using newFixedDateTime_Inr_iff [OF dl(1)] z d by simp
  note b = ParseDateTime_base [OF dl(1) z(1)]
  have l: "\<lparr>ldt_date = ldt_date ?l, ldt_time = ldt_time ?l\<rparr> = ?l" by simp
  show ?thesis
    unfolding s ParseDateTime_def using b(2,3,8,9) nf l
    by (simp only: b(1,4-7) if_False simp_thms bindE_Inr prod.case option.case sum.case if_True Let_def)
qed

text \<open>A named instant reads back when the zone rules at that instant still give its offset and that
  offset is among the probed ones.\<close>

lemma namedWithOffset_exact:
  assumes l: "valid_ldt l" and s: "sane_location location" and n: "zone_name_ok name"
    and db: "db name = Inr (Some location)"
    and fit: "off \<in> set (probedOffsets location (local_second l))" "location (local_second l - off) = off"
  shows "namedWithOffset l name off (Some db) = Inr \<lparr>dt_epochSecond = local_second l - off,
    dt_nanosecond = Nanosecond (ldt_time l),
    dt_zone = \<lparr>zone_kind = NamedZone, zone_offset = off, zone_name = name\<rparr>\<rparr>"
proof -
  let ?c = "namedCandidates location (local_second l) l (probedOffsets location (local_second l))"
  have po: "\<forall>o' \<in> set (probedOffsets location (local_second l)). valid_offset o'"
    using s by (auto simp: set_probedOffsets sane_location_def)
  note cs = namedCandidates_set [OF l s po]
  have mem: "(local_second l - off, off) \<in> set (filter (\<lambda>c. snd c = off) ?c)"
    using fit unfolding set_filter cs by simp
  then obtain e o' rest where c: "filter (\<lambda>c. snd c = off) ?c = (e, o') # rest"
    by (cases "filter (\<lambda>c. snd c = off) ?c") auto
  then have "(e, o') \<in> set (filter (\<lambda>c. snd c = off) ?c)" by simp
  then have e: "e = local_second l - off" "o' = off" unfolding set_filter cs by auto
  let ?z = "\<lparr>zone_kind = NamedZone, zone_offset = off, zone_name = name\<rparr>"
  have vo: "valid_offset off" using po fit(1) by blast
  have z: "ResolvedNamedZone name off = Inr ?z" "valid_zone ?z" using n vo by (simp_all add: valid_zone_simps)
  have "epochSecondFromLocal l 0 = Inr (local_second l)"
    using epochSecondFromLocal_ok [OF l, of 0] by (simp add: valid_offset_def)
  moreover obtain z0 where "ResolvedNamedZone name 0 = Inr z0" using n by (auto simp: valid_offset_def)
  ultimately have "namedLookup l name (Some db) = Inr (location, local_second l, ?c)"
    using db by (simp add: namedLookup_def del: ResolvedNamedZone_Inr_iff)
  then show ?thesis using restore_at_local(1) [OF l z(2)]
    by (simp add: namedWithOffset_def c e z(1) zone_or_zero_def del: ResolvedNamedZone_Inr_iff)
qed

theorem ParseDateTime_named:
  assumes d: "valid_datetime d" and k: "zone_kind (dt_zone d) = NamedZone"
    and s: "sane_location location" and db: "db (zone_name (dt_zone d)) = Inr (Some location)"
    and fit: "location (dt_epochSecond d) = zone_offset (dt_zone d)"
      "zone_offset (dt_zone d) \<in> set (probedOffsets location (dt_epochSecond d + zone_offset (dt_zone d)))"
  shows "ParseDateTime (Some db) (DateTimeString d) = Inr d"
proof -
  let ?l = "DateTimeLocal d" and ?o = "zone_offset (dt_zone d)" and ?n = "zone_name (dt_zone d)"
  note dl = DateTimeLocal_facts [OF d]
  have z: "valid_offset ?o" "zone_name_ok ?n"
    using d k by (auto simp: valid_datetime_def valid_zone_def OffsetZone_def NamedZone_def)
  note b = ParseDateTime_base [OF dl(1) z(1)]
  let ?base = "LocalDateTimeString ?l @ FormatOffset ?o"
  have st: "DateTimeString d = (?base @ [CHR ''['']) @ ?n @ '']''" using k by (simp add: DateTimeString_def)
  have n: "?n \<noteq> []" "CHR ''['' \<notin> set ?n" using z(2) by (simp_all add: zone_name_ok_def)
  have ix: "last_index_where (\<lambda>c. c = CHR ''['') (DateTimeString d) = Some (length ?base)"
    using last_index_where_append [of "?n @ '']''" "\<lambda>c. c = CHR ''[''" "CHR ''[''" ?base] n(2) by (auto simp: st)
  have dn: "drop (length ?base + 1) (DateTimeString d) = ?n @ '']''" "take (length ?base) (DateTimeString d) = ?base"
    "length (DateTimeString d) - 1 - (length ?base + 1) = length ?n" "length ?base \<noteq> length (DateTimeString d) - 2"
    "DateTimeString d \<noteq> []" "last (DateTimeString d) = CHR '']''"
    using n(1) unfolding st by simp_all
  have tn: "take (length ?n) (?n @ '']'') = ?n" by simp
  have w: "namedWithOffset ?l ?n ?o (Some db) = Inr d"
    using namedWithOffset_exact [where db = db and off = ?o, OF dl(1) s z(2) db] fit dl(2,3) k by simp
  have vo: "validateOffset ?o = Inr ()" using z(1) by simp
  have l: "\<lparr>ldt_date = ldt_date ?l, ldt_time = ldt_time ?l\<rparr> = ?l" by simp
  show ?thesis
    unfolding ParseDateTime_def NewDateTimeWithNamedOffsetAndDatabase_def newNamedDateTime_def
    using b(2,3) dn(4-6) n(1) w vo l
    by (simp only: ix dn(1-3) tn b(1,4-7) if_False simp_thms bindE_Inr prod.case option.case sum.case if_True Let_def)
qed

section \<open>The order of instants\<close>

lemma strings_Compare_zero [simp]: "strings_Compare s t = 0 \<longleftrightarrow> s = t"
  by (induction s t rule: strings_Compare.induct) (auto simp: byte_of_def)

lemma strings_Compare_swap: "strings_Compare t s = - strings_Compare s t"
  by (induction s t rule: strings_Compare.induct) auto

lemma DateTimeCompare_zero: "DateTimeCompare a b = 0 \<longleftrightarrow> a = b"
  by (cases a; cases b; cases "dt_zone a"; cases "dt_zone b") (auto simp: DateTimeCompare_def Let_def)

lemma compareInt64_swap: "compareInt64 b a = - compareInt64 a b"
  by (simp add: compareInt64_def)

lemma DateTimeCompare_swap: "DateTimeCompare b a = - DateTimeCompare a b"
  by (auto simp: DateTimeCompare_def Let_def compareInt64_swap [of "dt_epochSecond b"]
      compareInt64_swap [of "dt_nanosecond b"] compareInt64_swap [of "zone_offset (dt_zone b)"]
      strings_Compare_swap [of "zone_name (dt_zone b)"])

section \<open>Adding an empty duration in an overlap\<close>

text \<open>When clocks go back, a local time occurs twice.  \<open>AddWithDatabase\<close> rebuilds the instant from its
  local fields before it adds the elapsed part, and so replaces the later occurrence by the earlier
  one: adding the empty duration moves the instant back by the width of the overlap.\<close>

definition fall_back_location :: location where
  "fall_back_location t = (if t < 0 then 3600 else 0)"

definition later_occurrence :: DateTime where
  "later_occurrence = \<lparr>dt_epochSecond = 1800, dt_nanosecond = 0,
     dt_zone = \<lparr>zone_kind = NamedZone, zone_offset = 0, zone_name = ''X''\<rparr>\<rparr>"

definition empty_duration :: Duration where
  "empty_duration = \<lparr>dur_months = 0, dur_days = 0, dur_seconds = 0, dur_nanoseconds = 0\<rparr>"

lemma sane_fall_back: "sane_location fall_back_location"
  by (simp add: sane_location_def fall_back_location_def valid_offset_def)

lemma zone_name_ok_X: "zone_name_ok ''X''"
  by (simp add: zone_name_ok_def has_prefix_def byte_of_def)

lemma local_1800: "localDateTimeAt 1800 0 0 = Inr \<lparr>ldt_date = zeroDate\<lparr>date_year := 1970\<rparr>, ldt_time = \<lparr>nanoOfDay = 1800000000000\<rparr>\<rparr>"
  using localDateTimeAt_Inr_iff [of 1800 0 0]
  by (simp add: in64_def valid_ldt_def valid_date_def valid_civil_def valid_local_time_iff zeroDate_def
      Month_def Day_def range_simps daysInMonth_def local_second_def EpochDay_def daysFromCivil_epoch
      Nanosecond_mod)

lemma valid_later_occurrence: "valid_datetime later_occurrence"
  using zone_name_ok_X local_1800
  by (simp add: valid_datetime_def later_occurrence_def in64_def valid_zone_def valid_offset_def)

text \<open>C35: Adding the empty duration to the later of two occurrences of a local time moves the instant back by
  an hour, in a zone whose clocks went back an hour.\<close>

theorem AddWithDatabase_empty_moves:
  "valid_datetime later_occurrence \<and>
   fall_back_location (dt_epochSecond later_occurrence) = zone_offset (dt_zone later_occurrence) \<and>
   (\<exists>e. AddWithDatabase later_occurrence empty_duration (Some (\<lambda>_. Inr (Some fall_back_location))) = Inr e \<and>
        dt_epochSecond e = dt_epochSecond later_occurrence - 3600)"
proof (intro conjI)
  let ?db = "\<lambda>_ :: string. Inr (Some fall_back_location) :: terror + location option"
  let ?l = "DateTimeLocal later_occurrence"
  show "valid_datetime later_occurrence" by (rule valid_later_occurrence)
  note dl = DateTimeLocal_facts [OF valid_later_occurrence]
  have ls: "local_second ?l = 1800" "Nanosecond (ldt_time ?l) = 0" using dl(2,3) by (simp_all add: later_occurrence_def)
  have "fall_back_location (1800 + (-1) * 21600) \<in> set (probedOffsets fall_back_location 1800)"
    unfolding set_probedOffsets by (intro CollectI exI [of _ "-1"]) simp
  then have fit: "3600 \<in> set (probedOffsets fall_back_location (local_second ?l))"
    "fall_back_location (local_second ?l - 3600) = 3600"
    unfolding ls by (simp_all add: fall_back_location_def)
  obtain e where e: "newNamedDateTime ?l ''X'' None (Some ?db) = Inr e" "valid_datetime e" "DateTimeLocal e = ?l"
    "dt_zone e = \<lparr>zone_kind = NamedZone, zone_offset = fall_back_location (dt_epochSecond e), zone_name = ''X''\<rparr>"
    "dt_epochSecond e \<le> local_second ?l - 3600"
    using newNamedDateTime_earliest [where db = ?db, OF dl(1) sane_fall_back zone_name_ok_X refl fit] .
  have es: "dt_epochSecond e = -1800"
    using DateTimeLocal_facts(3) [OF e(2)] e(3-5) ls(1) by (simp add: fall_back_location_def split: if_splits)
  have en: "dt_nanosecond e = 0" using DateTimeLocal_facts(2) [OF e(2)] e(3) ls(2) by simp
  have add: "addEpochDuration (-1800) 0 0 0 = Inr (-1800, 0)"
    by (simp add: addEpochDuration_def checkedAdd_def i64_def unit_defs)
  have po: "ParseOffset ''X'' = Inl ErrInvalid" by (simp add: ParseOffset_def)
  have off: "fall_back_location (-1800) = 3600" by (simp add: fall_back_location_def)
  have ca: "checkedAdd (-1800) 0 = Inr (-1800)" by (simp add: checkedAdd_def i64_def)
  have rz: "ResolvedNamedZone ''X'' 3600 = Inr (dt_zone e)"
    using zone_name_ok_X by (simp add: e(4) es off valid_offset_def)
  have rd: "restoreDateTime (-1800) 0 (dt_zone e) = Inr e"
    using restoreDateTime_Inr_iff [of "dt_zone e" "-1800" 0 e] e(2) es en
    by (simp add: valid_datetime_def in64_def)
  have "DateTimeFromEpochWithDatabase (-1800) 0 ''X'' (Some ?db) = Inr e"
    using po ca rz rd off
    by (simp add: DateTimeFromEpochWithDatabase_def unit_defs del: ResolvedNamedZone_Inr_iff)
  moreover have k: "zone_kind (dt_zone later_occurrence) = NamedZone" "zone_name (dt_zone later_occurrence) = ''X''"
    by (simp_all add: later_occurrence_def)
  ultimately have "AddWithDatabase later_occurrence empty_duration (Some ?db) = Inr e"
    using LocalDateTimeAdd_calendar_zero [OF dl(1)] e(1) es en add
    by (simp add: AddWithDatabase_def empty_duration_def)
  then show "\<exists>e. AddWithDatabase later_occurrence empty_duration (Some ?db) = Inr e \<and>
        dt_epochSecond e = dt_epochSecond later_occurrence - 3600"
    using es by (intro exI [of _ e]) (simp add: later_occurrence_def)
qed (simp add: fall_back_location_def later_occurrence_def)

end
