(* ===== verification/Temporal_Binary.thy ===== *)
theory Temporal_Binary
  imports Date_Time_Facts
begin

text \<open>
  The durable binary payloads of \<open>internal/domain/temporal/binary.go\<close>.  Each of the six encoders is
  shown to be inverted by its decoder, and each decoder to accept only payloads that its encoder
  produces, so a value has exactly one payload.
\<close>

section \<open>Big-endian integers\<close>

text \<open>\<open>be_put k v\<close> is \<open>binary.BigEndian.PutUint16/32/64\<close> of \<open>v\<close> modulo \<open>256^k\<close>; \<open>be_get\<close> reads it back.\<close>

fun be_put :: "nat \<Rightarrow> int \<Rightarrow> string" where
  "be_put 0 v = []"
| "be_put (Suc k) v = be_put k (v div 256) @ [char_of (nat (v mod 256))]"

definition be_get :: "string \<Rightarrow> int" where
  "be_get s = foldl (\<lambda>acc c. acc * 256 + int (byte_of c)) 0 s"

lemma length_be_put [simp]: "length (be_put k v) = k"
  by (induction k arbitrary: v) auto

lemma be_get_snoc: "be_get (s @ [c]) = be_get s * 256 + int (byte_of c)"
  by (simp add: be_get_def)

lemma byte_of_less: "byte_of c < 256"
  by (simp add: byte_of_def)

lemma byte_of_char_of [simp]: "n < 256 \<Longrightarrow> byte_of (char_of n) = n"
  by (simp add: byte_of_def of_char_of)

lemma char_of_byte_of [simp]: "char_of (byte_of c) = c"
  by (simp add: byte_of_def)

lemma be_get_put: "be_get (be_put k v) = v mod 256 ^ k"
proof (induction k arbitrary: v)
  case 0
  then show ?case by (simp add: be_get_def)
next
  case (Suc k)
  have "nat (v mod 256) < 256" by (simp add: nat_less_iff)
  then have "be_get (be_put (Suc k) v) = (v div 256) mod 256 ^ k * 256 + v mod 256"
    by (simp add: be_get_snoc Suc.IH)
  also have "\<dots> = v mod (256 * 256 ^ k)" by (simp add: zmod_zmult2_eq mult.commute)
  finally show ?case by simp
qed

lemma be_get_bounds: "0 \<le> be_get s" "be_get s < 256 ^ length s"
proof (induction s rule: rev_induct)
  case Nil
  case 1 show ?case by (simp add: be_get_def)
  case 2 show ?case by (simp add: be_get_def)
next
  case (snoc c s)
  case 1 then show ?case using snoc by (simp add: be_get_snoc)
  case 2
  have "int (byte_of c) < 256" using byte_of_less [of c] by simp
  moreover have "be_get s + 1 \<le> 256 ^ length s" using snoc by simp
  ultimately show ?case by (simp add: be_get_snoc)
qed

lemma be_put_get: "be_put (length s) (be_get s) = s"
proof (induction s rule: rev_induct)
  case (snoc c s)
  have "(be_get s * 256 + int (byte_of c)) div 256 = be_get s"
    "(be_get s * 256 + int (byte_of c)) mod 256 = int (byte_of c)"
    using byte_of_less [of c] by simp_all
  with snoc show ?case by (simp add: be_get_snoc)
qed simp

lemma be_put_mod: "be_put k (v mod 256 ^ k) = be_put k v"
  using be_put_get [of "be_put k v"] by (simp add: be_get_put)

lemma be_put_get_k: "length s = k \<Longrightarrow> be_put k (be_get s) = s"
  using be_put_get [of s] by simp

lemma be_put_i32: "be_put 4 (i32 v) = be_put 4 v"
proof -
  have "i32 v mod 256 ^ 4 = v mod 256 ^ 4" by (simp add: i32_def mod_simps)
  then show ?thesis by (metis be_put_mod)
qed

lemma be_put_i64: "be_put 8 (i64 v) = be_put 8 v"
proof -
  have "i64 v mod 256 ^ 8 = v mod 256 ^ 8" by (simp add: i64_def mod_simps)
  then show ?thesis by (metis be_put_mod)
qed

lemma i32_be_get_put: "in32 v \<Longrightarrow> i32 (be_get (be_put 4 v)) = v"
  using i32_u32 [of v] by (simp add: be_get_put u32_def)

lemma i64_be_get_put: "in64 v \<Longrightarrow> i64 (be_get (be_put 8 v)) = v"
  using i64_u64 [of v] by (simp add: be_get_put u64_def)

section \<open>Payloads\<close>

definition binaryVersion :: char where "binaryVersion = CHR 0x01"

definition DateMarshalBinary :: "Date \<Rightarrow> terror + string" where
  "DateMarshalBinary d =
     bindE (NewDate (Year d) (Month d) (Day d)) (\<lambda>_.
       Inr (binaryVersion # be_put 4 (date_year d) @ [char_of (nat (u8 (Month d))), char_of (nat (u8 (Day d)))]))"

definition DateFromBinary :: "string \<Rightarrow> terror + Date" where
  "DateFromBinary data =
     (if length data \<noteq> 7 \<or> hd data \<noteq> binaryVersion then Inl ErrInvalid
      else NewDate (i32 (be_get (take 4 (drop 1 data)))) (int (byte_of (data ! 5))) (int (byte_of (data ! 6))))"

definition LocalTimeMarshalBinary :: "LocalTime \<Rightarrow> terror + string" where
  "LocalTimeMarshalBinary t =
     bindE (localTimeFromNanoOfDay (nanoOfDay t)) (\<lambda>_. Inr (binaryVersion # be_put 8 (nanoOfDay t)))"

definition LocalTimeFromBinary :: "string \<Rightarrow> terror + LocalTime" where
  "LocalTimeFromBinary data =
     (if length data \<noteq> 9 \<or> hd data \<noteq> binaryVersion then Inl ErrInvalid
      else let value = be_get (drop 1 data)
           in if value > 9223372036854775807 then Inl ErrInvalid else localTimeFromNanoOfDay (i64 value))"

definition TimeMarshalBinary :: "Time \<Rightarrow> terror + string" where
  "TimeMarshalBinary t =
     bindE (NewTime (time_local t) (time_offset t)) (\<lambda>_.
       Inr (binaryVersion # be_put 8 (nanoOfDay (time_local t)) @ be_put 4 (time_offset t)))"

definition TimeFromBinary :: "string \<Rightarrow> terror + Time" where
  "TimeFromBinary data =
     (if length data \<noteq> 13 \<or> hd data \<noteq> binaryVersion then Inl ErrInvalid
      else let nanos = be_get (take 8 (drop 1 data))
           in if nanos > 9223372036854775807 then Inl ErrInvalid
              else bindE (localTimeFromNanoOfDay (i64 nanos)) (\<lambda>localTime.
                     NewTime localTime (i32 (be_get (take 4 (drop 9 data))))))"

definition LocalDateTimeMarshalBinary :: "LocalDateTime \<Rightarrow> terror + string" where
  "LocalDateTimeMarshalBinary d =
     bindE (NewDate (Year (ldt_date d)) (Month (ldt_date d)) (Day (ldt_date d))) (\<lambda>_.
     bindE (localTimeFromNanoOfDay (nanoOfDay (ldt_time d))) (\<lambda>_.
       Inr (binaryVersion # be_put 4 (date_year (ldt_date d)) @
            [char_of (nat (u8 (Month (ldt_date d)))), char_of (nat (u8 (Day (ldt_date d))))] @
            be_put 8 (nanoOfDay (ldt_time d)))))"

definition LocalDateTimeFromBinary :: "string \<Rightarrow> terror + LocalDateTime" where
  "LocalDateTimeFromBinary data =
     (if length data \<noteq> 15 \<or> hd data \<noteq> binaryVersion then Inl ErrInvalid
      else bindE (NewDate (i32 (be_get (take 4 (drop 1 data)))) (int (byte_of (data ! 5))) (int (byte_of (data ! 6)))) (\<lambda>date.
           let nanos = be_get (take 8 (drop 7 data))
           in if nanos > 9223372036854775807 then Inl ErrInvalid
              else bindE (localTimeFromNanoOfDay (i64 nanos)) (\<lambda>localTime.
                     Inr \<lparr>ldt_date = date, ldt_time = localTime\<rparr>)))"

definition DateTimeMarshalBinary :: "DateTime \<Rightarrow> terror + string" where
  "DateTimeMarshalBinary d =
     bindE (restoreDateTime (dt_epochSecond d) (dt_nanosecond d) (dt_zone d)) (\<lambda>_.
       if length (zone_name (dt_zone d)) > 65535 then Inl ErrInvalid
       else Inr (binaryVersion # be_put 8 (dt_epochSecond d) @ be_put 4 (dt_nanosecond d) @
                 [char_of (nat (u8 (zone_kind (dt_zone d))))] @ be_put 4 (zone_offset (dt_zone d)) @
                 be_put 2 (int (length (zone_name (dt_zone d)))) @ zone_name (dt_zone d)))"

definition DateTimeFromBinary :: "string \<Rightarrow> terror + DateTime" where
  "DateTimeFromBinary data =
     (if length data < 20 \<or> hd data \<noteq> binaryVersion then Inl ErrInvalid
      else let nameLength = nat (be_get (take 2 (drop 18 data)))
           in if length data \<noteq> 20 + nameLength \<or> \<not> utf8_valid (drop 20 data) then Inl ErrInvalid
              else let kind = int (byte_of (data ! 13));
                       offset = i32 (be_get (take 4 (drop 14 data)));
                       name = drop 20 data;
                       nanosecond = be_get (take 4 (drop 9 data))
                   in if nanosecond \<ge> nanosecondsPerSecond then Inl ErrInvalid
                      else bindE (if kind = OffsetZone
                                  then if name \<noteq> [] then Inl ErrInvalid else FixedZone offset
                                  else if kind = NamedZone then ResolvedNamedZone name offset
                                  else Inl ErrInvalid) (\<lambda>zone.
                             restoreDateTime (i64 (be_get (take 8 (drop 1 data)))) nanosecond zone))"

definition DurationMarshalBinary :: "Duration \<Rightarrow> terror + string" where
  "DurationMarshalBinary d =
     (if dur_nanoseconds d < 0 \<or> dur_nanoseconds d \<ge> nanosecondsPerSecond then Inl ErrInvalid
      else Inr (binaryVersion # be_put 8 (dur_months d) @ be_put 8 (dur_days d) @ be_put 8 (dur_seconds d) @
                be_put 4 (dur_nanoseconds d)))"

definition DurationFromBinary :: "string \<Rightarrow> terror + Duration" where
  "DurationFromBinary data =
     (if length data \<noteq> 29 \<or> hd data \<noteq> binaryVersion then Inl ErrInvalid
      else let nanoseconds = be_get (take 4 (drop 25 data))
           in if nanoseconds \<ge> nanosecondsPerSecond then Inl ErrInvalid
              else NewDuration (i64 (be_get (take 8 (drop 1 data)))) (i64 (be_get (take 8 (drop 9 data))))
                     (i64 (be_get (take 8 (drop 17 data)))) nanoseconds)"

section \<open>Decoding an encoded value\<close>

lemma u8_month_day:
  assumes "valid_date d"
  shows "int (byte_of (char_of (nat (u8 (Month d))))) = Month d" "int (byte_of (char_of (nat (u8 (Day d))))) = Day d"
  using valid_date_month_day [OF assms] by (simp_all add: nat_less_iff)

lemma valid_date_in32: "valid_date d \<Longrightarrow> in32 (date_year d)"
  by (simp add: valid_date_def range_simps)

lemma Date_roundtrip:
  assumes d: "valid_date d"
  shows "bindE (DateMarshalBinary d) DateFromBinary = Inr d"
  using NewDate_fields [OF d] u8_month_day [OF d] i32_be_get_put [OF valid_date_in32 [OF d]]
  by (simp add: DateMarshalBinary_def DateFromBinary_def nth_append Year_def)

lemma nano_in64: "valid_local_time t \<Longrightarrow> in64 (nanoOfDay t)"
  by (simp add: valid_local_time_iff in64_def)

lemma be_get_nano:
  assumes "valid_local_time t"
  shows "be_get (be_put 8 (nanoOfDay t)) = nanoOfDay t" "\<not> nanoOfDay t > 9223372036854775807"
    "localTimeFromNanoOfDay (i64 (nanoOfDay t)) = Inr t"
  using assms by (simp_all add: be_get_put valid_local_time_iff in64_def)

lemma localTimeFromNanoOfDay_valid: "valid_local_time t \<Longrightarrow> localTimeFromNanoOfDay (nanoOfDay t) = Inr t"
  by simp

lemma LocalTime_roundtrip:
  assumes "valid_local_time t"
  shows "bindE (LocalTimeMarshalBinary t) LocalTimeFromBinary = Inr t"
  using be_get_nano [OF assms] localTimeFromNanoOfDay_valid [OF assms]
  by (simp add: LocalTimeMarshalBinary_def LocalTimeFromBinary_def del: localTimeFromNanoOfDay_Inr_iff)

lemma NewTime_valid: "valid_time t \<Longrightarrow> NewTime (time_local t) (time_offset t) = Inr t"
  by (simp add: NewTime_def valid_time_def valid_offset_in64)

lemma valid_offset_in32: "valid_offset n \<Longrightarrow> in32 n"
  by (simp add: valid_offset_def in32_def)

lemma Time_roundtrip:
  assumes t: "valid_time t"
  shows "bindE (TimeMarshalBinary t) TimeFromBinary = Inr t"
proof -
  have v: "valid_local_time (time_local t)" "in32 (time_offset t)" using t by (simp_all add: valid_time_def valid_offset_in32)
  show ?thesis
    using be_get_nano [OF v(1)] NewTime_valid [OF t] i32_be_get_put [OF v(2)]
    by (simp add: TimeMarshalBinary_def TimeFromBinary_def del: localTimeFromNanoOfDay_Inr_iff)
qed

lemma LocalDateTime_roundtrip:
  assumes l: "valid_ldt l"
  shows "bindE (LocalDateTimeMarshalBinary l) LocalDateTimeFromBinary = Inr l"
proof -
  have v: "valid_local_time (ldt_time l)" "valid_date (ldt_date l)" using l by (simp_all add: valid_ldt_def)
  show ?thesis
    using be_get_nano [OF v(1)] NewDate_fields [OF v(2)] u8_month_day [OF v(2)]
      i32_be_get_put [OF valid_date_in32 [OF v(2)]] localTimeFromNanoOfDay_valid [OF v(1)]
    by (simp add: LocalDateTimeMarshalBinary_def LocalDateTimeFromBinary_def nth_append Year_def
        del: localTimeFromNanoOfDay_Inr_iff)
qed

lemma Duration_roundtrip:
  assumes d: "valid_duration d"
  shows "bindE (DurationMarshalBinary d) DurationFromBinary = Inr d"
proof -
  have v: "in64 (dur_months d)" "in64 (dur_days d)" "in64 (dur_seconds d)" "0 \<le> dur_nanoseconds d"
    "dur_nanoseconds d < 1000000000"
    using d by (simp_all add: valid_duration_def nanosecondsPerSecond_def)
  have n: "be_get (be_put 4 (dur_nanoseconds d)) = dur_nanoseconds d" using v by (simp add: be_get_put)
  have "in64 (dur_nanoseconds d)" using v(4,5) by (simp add: in64_def)
  then have "NewDuration (dur_months d) (dur_days d) (dur_seconds d) (dur_nanoseconds d) = Inr d"
    using v by (simp add: NewDuration_exact)
  then show ?thesis
    using v n i64_be_get_put [OF v(1)] i64_be_get_put [OF v(2)] i64_be_get_put [OF v(3)]
    by (simp add: DurationMarshalBinary_def DurationFromBinary_def nanosecondsPerSecond_def)
qed

lemma DateTime_roundtrip:
  assumes d: "valid_datetime d" and n: "length (zone_name (dt_zone d)) \<le> 65535"
  shows "bindE (DateTimeMarshalBinary d) DateTimeFromBinary = Inr d"
proof -
  let ?z = "dt_zone d"
  have v: "in64 (dt_epochSecond d)" "0 \<le> dt_nanosecond d" "dt_nanosecond d < 1000000000" "valid_zone ?z"
    using d by (simp_all add: valid_datetime_def)
  have o: "valid_offset (zone_offset ?z)" using v(4) by (simp add: valid_zone_def)
  have r: "restoreDateTime (dt_epochSecond d) (dt_nanosecond d) ?z = Inr d"
    using restoreDateTime_Inr_iff [OF v(4,1-3)] d by simp
  define kc where "kc = char_of (nat (u8 (zone_kind ?z)))"
  let ?data = "binaryVersion # be_put 8 (dt_epochSecond d) @ be_put 4 (dt_nanosecond d) @ [kc] @
    be_put 4 (zone_offset ?z) @ be_put 2 (int (length (zone_name ?z))) @ zone_name ?z"
  have m: "DateTimeMarshalBinary d = Inr ?data" using r n by (simp add: DateTimeMarshalBinary_def kc_def)
  have k: "zone_kind ?z = 0 \<or> zone_kind ?z = 1" using v(4) by (auto simp: valid_zone_def OffsetZone_def NamedZone_def)
  then have kb: "int (byte_of kc) = zone_kind ?z" by (auto simp: kc_def byte_of_def)
  have g: "take 2 (drop 18 ?data) = be_put 2 (int (length (zone_name ?z)))" "drop 20 ?data = zone_name ?z"
    "?data ! 13 = kc" "take 4 (drop 14 ?data) = be_put 4 (zone_offset ?z)"
    "take 4 (drop 9 ?data) = be_put 4 (dt_nanosecond d)" "take 8 (drop 1 ?data) = be_put 8 (dt_epochSecond d)"
    "hd ?data = binaryVersion" "length ?data = 20 + length (zone_name ?z)"
    by (simp_all add: nth_append)
  have b: "nat (be_get (be_put 2 (int (length (zone_name ?z))))) = length (zone_name ?z)"
    "i32 (be_get (be_put 4 (zone_offset ?z))) = zone_offset ?z"
    "be_get (be_put 4 (dt_nanosecond d)) = dt_nanosecond d"
    "i64 (be_get (be_put 8 (dt_epochSecond d))) = dt_epochSecond d"
  proof -
    show "nat (be_get (be_put 2 (int (length (zone_name ?z))))) = length (zone_name ?z)"
      using n by (simp add: be_get_put)
    show "i32 (be_get (be_put 4 (zone_offset ?z))) = zone_offset ?z"
      by (rule i32_be_get_put [OF valid_offset_in32 [OF o]])
    show "be_get (be_put 4 (dt_nanosecond d)) = dt_nanosecond d" using v by (simp add: be_get_put)
    show "i64 (be_get (be_put 8 (dt_epochSecond d))) = dt_epochSecond d" by (rule i64_be_get_put [OF v(1)])
  qed
  have u: "utf8_valid (zone_name ?z)" using v(4) by (auto simp: valid_zone_def zone_name_ok_def)
  have zone: "(if zone_kind ?z = OffsetZone then if zone_name ?z \<noteq> [] then Inl ErrInvalid else FixedZone (zone_offset ?z)
     else if zone_kind ?z = NamedZone then ResolvedNamedZone (zone_name ?z) (zone_offset ?z) else Inl ErrInvalid) = Inr ?z"
    using v(4) by (auto simp: valid_zone_def OffsetZone_def NamedZone_def)
  have "DateTimeFromBinary ?data = Inr d"
    unfolding DateTimeFromBinary_def g b kb Let_def nanosecondsPerSecond_def zone using v(3) r u by simp
  with m show ?thesis by simp
qed

section \<open>Encoding a decoded payload\<close>

text \<open>Splitting a payload at the field boundaries.\<close>

lemma split_at: "k \<le> length s \<Longrightarrow> \<exists>a b. s = a @ b \<and> length a = k \<and> length b = length s - k"
  by (intro exI [of _ "take k s"] exI [of _ "drop k s"]) simp

lemma split_prefix:
  assumes "k + m \<le> length s"
  obtains a b where "s = a @ b" "length a = k" "m \<le> length b"
  using assms by (intro that [of "take k s" "drop k s"]) simp_all

lemma payload_cases:
  assumes "length data = Suc k" "hd data = v"
  obtains s where "data = v # s" "length s = k"
  using assms by (cases data) auto

lemma char_of_u8_byte [simp]: "char_of (nat (u8 (int (byte_of c)))) = c"
  using byte_of_less [of c] by simp

lemma DateFromBinary_canonical:
  assumes "DateFromBinary data = Inr d"
  shows "DateMarshalBinary d = Inr data"
proof -
  from assms have l: "length data = Suc 6" "hd data = binaryVersion" by (auto simp: DateFromBinary_def split: if_splits)
  then obtain s where s: "data = binaryVersion # s" "length s = 6" by (rule payload_cases)
  obtain y r where y: "s = y @ r" "length y = 4" "length r = 2" using split_at [of 4 s] s(2) by auto
  obtain m k where r: "r = [m, k]" using two_chars [OF y(3)] by blast
  have nd: "NewDate (i32 (be_get y)) (int (byte_of m)) (int (byte_of k)) = Inr d"
    using assms y by (simp add: DateFromBinary_def s r nth_append)
  then have f: "date_year d = i32 (be_get y)" "Month d = int (byte_of m)" "Day d = int (byte_of k)"
    by (auto simp: NewDate_Inr_iff Month_def Day_def)
  have "NewDate (Year d) (Month d) (Day d) = Inr d" using nd f by (simp add: Year_def)
  then show ?thesis using y(2) by (simp add: DateMarshalBinary_def f s(1) y(1) r be_put_i32 be_put_get_k)
qed

lemma nano_payload:
  assumes "length s = 8" "\<not> be_get s > 9223372036854775807" "localTimeFromNanoOfDay (i64 (be_get s)) = Inr t"
  shows "be_put 8 (nanoOfDay t) = s" "valid_local_time t"
  using assms be_put_i64 [of "be_get s"] be_put_get_k [OF assms(1)] by simp_all

lemma LocalTimeFromBinary_canonical:
  assumes "LocalTimeFromBinary data = Inr t"
  shows "LocalTimeMarshalBinary t = Inr data"
proof -
  from assms have l: "length data = Suc 8" "hd data = binaryVersion" by (auto simp: LocalTimeFromBinary_def split: if_splits)
  then obtain s where s: "data = binaryVersion # s" "length s = 8" by (rule payload_cases)
  have n: "\<not> be_get s > 9223372036854775807" "localTimeFromNanoOfDay (i64 (be_get s)) = Inr t"
    using assms s by (simp_all add: LocalTimeFromBinary_def Let_def split: if_splits del: localTimeFromNanoOfDay_Inr_iff)
  show ?thesis using nano_payload [OF s(2) n] localTimeFromNanoOfDay_valid
    by (simp add: LocalTimeMarshalBinary_def s(1) del: localTimeFromNanoOfDay_Inr_iff)
qed

lemma TimeFromBinary_canonical:
  assumes "TimeFromBinary data = Inr t"
  shows "TimeMarshalBinary t = Inr data"
proof -
  from assms have l: "length data = Suc 12" "hd data = binaryVersion" by (auto simp: TimeFromBinary_def split: if_splits)
  then obtain s where s: "data = binaryVersion # s" "length s = 12" by (rule payload_cases)
  obtain a b where ab: "s = a @ b" "length a = 8" "length b = 4" using split_at [of 8 s] s(2) by auto
  obtain lt where n: "\<not> be_get a > 9223372036854775807" "localTimeFromNanoOfDay (i64 (be_get a)) = Inr lt"
    and nt: "NewTime lt (i32 (be_get b)) = Inr t"
    using assms s ab by (auto simp: TimeFromBinary_def bindE_Inr_iff Let_def split: if_splits)
  note np = nano_payload [OF ab(2) n]
  have t: "time_local t = lt" "time_offset t = i32 (be_get b)" "NewTime (time_local t) (time_offset t) = Inr t"
    using nt by (auto simp: NewTime_def bindE_Inr_iff)
  show ?thesis using t(3) np(1) be_put_i32 [of "be_get b"] be_put_get_k [OF ab(3)]
    by (simp add: TimeMarshalBinary_def t(1,2) s(1) ab(1))
qed

lemma LocalDateTimeFromBinary_canonical:
  assumes "LocalDateTimeFromBinary data = Inr l"
  shows "LocalDateTimeMarshalBinary l = Inr data"
proof -
  from assms have l: "length data = Suc 14" "hd data = binaryVersion"
    by (auto simp: LocalDateTimeFromBinary_def split: if_splits)
  then obtain s where s: "data = binaryVersion # s" "length s = 14" by (rule payload_cases)
  obtain y r where y: "s = y @ r" "length y = 4" "length r = 10" using split_at [of 4 s] s(2) by auto
  obtain mk b where b: "r = mk @ b" "length mk = 2" "length b = 8" using split_at [of 2 r] y(3) by auto
  obtain m k where mk: "mk = [m, k]" using two_chars [OF b(2)] by blast
  obtain d lt where nd: "NewDate (i32 (be_get y)) (int (byte_of m)) (int (byte_of k)) = Inr d"
    and n: "\<not> be_get b > 9223372036854775807" "localTimeFromNanoOfDay (i64 (be_get b)) = Inr lt"
    and lx: "l = \<lparr>ldt_date = d, ldt_time = lt\<rparr>"
    using assms y b s by (auto simp: LocalDateTimeFromBinary_def mk nth_append bindE_Inr_iff Let_def split: if_splits)
  note np = nano_payload [OF b(3) n]
  from nd have f: "date_year d = i32 (be_get y)" "Month d = int (byte_of m)" "Day d = int (byte_of k)"
    by (auto simp: NewDate_Inr_iff Month_def Day_def)
  have "NewDate (Year d) (Month d) (Day d) = Inr d" using nd f by (simp add: Year_def)
  then show ?thesis using np localTimeFromNanoOfDay_valid [OF np(2)] y(2)
    by (simp add: LocalDateTimeMarshalBinary_def lx f s(1) y(1) b(1) mk be_put_i32 be_put_get_k
        del: localTimeFromNanoOfDay_Inr_iff)
qed

lemma DurationFromBinary_canonical:
  assumes "DurationFromBinary data = Inr d"
  shows "DurationMarshalBinary d = Inr data"
proof -
  from assms have l: "length data = Suc 28" "hd data = binaryVersion" by (auto simp: DurationFromBinary_def split: if_splits)
  then obtain s where s: "data = binaryVersion # s" "length s = 28" by (rule payload_cases)
  obtain a r where a: "s = a @ r" "length a = 8" "length r = 20" using split_at [of 8 s] s(2) by auto
  obtain b r' where b: "r = b @ r'" "length b = 8" "length r' = 12" using split_at [of 8 r] a(3) by auto
  obtain c e where c: "r' = c @ e" "length c = 8" "length e = 4" using split_at [of 8 r'] b(3) by auto
  let ?n = "be_get e"
  have n: "0 \<le> ?n" "?n < 1000000000"
    and nd: "NewDuration (i64 (be_get a)) (i64 (be_get b)) (i64 (be_get c)) ?n = Inr d"
    using assms a b c s be_get_bounds(1) [of e]
    by (auto simp: DurationFromBinary_def nanosecondsPerSecond_def Let_def split: if_splits)
  have "in64 ?n" using n by (simp add: in64_def)
  then have "d = \<lparr>dur_months = i64 (be_get a), dur_days = i64 (be_get b), dur_seconds = i64 (be_get c), dur_nanoseconds = ?n\<rparr>"
    using nd n by (simp add: NewDuration_exact)
  then show ?thesis
    using n be_put_i64 [of "be_get a"] be_put_i64 [of "be_get b"] be_put_i64 [of "be_get c"]
      be_put_get_k [OF a(2)] be_put_get_k [OF b(2)] be_put_get_k [OF c(2)] be_put_get_k [OF c(3)]
    by (simp add: DurationMarshalBinary_def nanosecondsPerSecond_def s(1) a(1) b(1) c(1))
qed

lemma DateTimeFromBinary_canonical:
  assumes a: "DateTimeFromBinary data = Inr d"
  shows "DateTimeMarshalBinary d = Inr data"
proof -
  have c1: "\<not> (length data < 20 \<or> hd data \<noteq> binaryVersion)"
  proof
    assume "length data < 20 \<or> hd data \<noteq> binaryVersion"
    then have "DateTimeFromBinary data = Inl ErrInvalid" unfolding DateTimeFromBinary_def by (rule if_P)
    with a show False by (simp only: sum.distinct)
  qed
  then have l: "hd data = binaryVersion" "20 \<le> length data" by (simp_all only: de_Morgan_disj not_less not_not simp_thms)
  note a1 = a [unfolded DateTimeFromBinary_def if_not_P [OF c1] Let_def nanosecondsPerSecond_def]
  have "length data = Suc (length data - 1)" using l(2) by simp
  then obtain s where s: "data = binaryVersion # s" "length s = length data - 1" using l(1) by (rule payload_cases)
  have ls: "19 \<le> length s" using s(2) l(2) by simp
  have "8 + 11 \<le> length s" using ls by simp
  then obtain e r1 where e: "s = e @ r1" "length e = 8" "11 \<le> length r1" by (rule split_prefix)
  have "4 + 7 \<le> length r1" using e(3) by simp
  then obtain n r2 where n: "r1 = n @ r2" "length n = 4" "7 \<le> length r2" by (rule split_prefix)
  then obtain k r3 where k: "r2 = k # r3" by (cases r2) simp_all
  have "4 + 2 \<le> length r3" using n(3) k by simp
  then obtain o' r4 where o: "r3 = o' @ r4" "length o' = 4" "2 \<le> length r4" by (rule split_prefix)
  have "2 + 0 \<le> length r4" using o(3) by simp
  then obtain c name where c: "r4 = c @ name" "length c = 2" by (rule split_prefix)
  have g: "take 2 (drop 18 data) = c" "drop 20 data = name" "data ! 13 = k" "take 4 (drop 14 data) = o'"
    "take 4 (drop 9 data) = n" "take 8 (drop 1 data) = e" "length data = 20 + length name"
    unfolding s(1) e(1) n(1) k o(1) c(1) using e(2) n(2) o(2) c(2) by (simp_all add: nth_append)
  let ?n = "be_get n"
  note a2 = a1 [unfolded g]
  have c2: "\<not> (20 + length name \<noteq> 20 + nat (be_get c) \<or> \<not> utf8_valid name)"
    using a2 by (metis Inl_Inr_False)
  note a3 = a2 [unfolded if_not_P [OF c2]]
  have c3: "\<not> ?n \<ge> 1000000000" using a3 by (metis Inl_Inr_False)
  have x: "length name = nat (be_get c)" "?n < 1000000000" "utf8_valid name" using c2 c3 by auto
  have "bindE (if int (byte_of k) = OffsetZone then if name \<noteq> [] then Inl ErrInvalid else FixedZone (i32 (be_get o'))
      else if int (byte_of k) = NamedZone then ResolvedNamedZone name (i32 (be_get o')) else Inl ErrInvalid)
      (\<lambda>zone. restoreDateTime (i64 (be_get e)) ?n zone) = Inr d"
    using a3 unfolding if_not_P [OF c3] .
  then obtain z where zz: "(if int (byte_of k) = OffsetZone then if name \<noteq> [] then Inl ErrInvalid else FixedZone (i32 (be_get o'))
      else if int (byte_of k) = NamedZone then ResolvedNamedZone name (i32 (be_get o')) else Inl ErrInvalid) = Inr z"
    and r: "restoreDateTime (i64 (be_get e)) ?n z = Inr d" unfolding bindE_Inr_iff by blast
  have z: "valid_zone z" "zone_kind z = int (byte_of k)" "zone_name z = name" "zone_offset z = i32 (be_get o')"
    using zz by (auto simp: valid_zone_simps split: if_splits)
  have n0: "0 \<le> ?n" by (rule be_get_bounds)
  have d: "d = \<lparr>dt_epochSecond = i64 (be_get e), dt_nanosecond = ?n, dt_zone = z\<rparr>"
    using r restoreDateTime_Inr_iff [OF z(1) in64_i64 n0 x(2)] by blast
  have "be_get c < 256 ^ 2" using be_get_bounds(2) [of c] c(2) by simp
  then have ln: "length name \<le> 65535" using x(1) be_get_bounds(1) [of c] by simp
  have lc: "be_put 2 (int (length name)) = c"
    using be_put_get_k [OF c(2)] be_get_bounds(1) [of c] by (simp add: x(1))
  show ?thesis using r ln
    by (simp add: DateTimeMarshalBinary_def d z(2-4) lc be_put_i64 be_put_i32 be_put_get_k e(2) n(2) o(2))
      (simp add: s(1) e(1) n(1) k o(1) c(1))
qed

end
