(* ===== verification/Truncation.thy ===== *)
theory Truncation
  imports Date_Time_Facts
begin

text \<open>
  Truncation of dates, times and instants (\<open>internal/domain/temporal/truncate.go\<close>).  Truncating a date
  or a local time never moves it forward and is idempotent.
\<close>

definition DateTruncate :: "Date \<Rightarrow> string \<Rightarrow> terror + Date" where
  "DateTruncate d unit =
     (if unit \<in> {''millennium'', ''century'', ''decade''} then
        let size = (if unit = ''millennium'' then 1000 else if unit = ''century'' then 100 else 10)
        in NewDate (floorDiv (Year d) size * size) 1 1
      else if unit = ''year'' then NewDate (Year d) 1 1
      else if unit = ''weekYear'' then DateFromWeek (WeekYear d) 1 1
      else if unit = ''quarter'' then NewDate (Year d) ((Quarter d - 1) * 3 + 1) 1
      else if unit = ''month'' then NewDate (Year d) (Month d) 1
      else if unit = ''week'' then AddDays d (1 - WeekDay d)
      else if unit = ''day'' then Inr d
      else Inl ErrInvalid)"

definition LocalTimeTruncate :: "LocalTime \<Rightarrow> string \<Rightarrow> terror + LocalTime" where
  "LocalTimeTruncate t unit =
     (let by = (\<lambda>divisor. localTimeFromNanoOfDay (nanoOfDay t sdiv divisor * divisor))
      in if unit = ''day'' then Inr zeroLocalTime
         else if unit = ''hour'' then by (3600 * nanosecondsPerSecond)
         else if unit = ''minute'' then by (60 * nanosecondsPerSecond)
         else if unit = ''second'' then by nanosecondsPerSecond
         else if unit = ''millisecond'' then by 1000000
         else if unit = ''microsecond'' then by 1000
         else Inl ErrInvalid)"

definition TimeTruncate :: "Time \<Rightarrow> string \<Rightarrow> terror + Time" where
  "TimeTruncate t unit =
     bindE (LocalTimeTruncate (time_local t) unit) (\<lambda>l. Inr \<lparr>time_local = l, time_offset = time_offset t\<rparr>)"

definition LocalDateTimeTruncate :: "LocalDateTime \<Rightarrow> string \<Rightarrow> terror + LocalDateTime" where
  "LocalDateTimeTruncate d unit =
     (if unit \<in> {''millennium'', ''century'', ''decade'', ''year'', ''weekYear'', ''quarter'', ''month'', ''week'', ''day''}
      then bindE (DateTruncate (ldt_date d) unit) (\<lambda>date. Inr \<lparr>ldt_date = date, ldt_time = zeroLocalTime\<rparr>)
      else if unit \<in> {''hour'', ''minute'', ''second'', ''millisecond'', ''microsecond''}
      then bindE (LocalTimeTruncate (ldt_time d) unit) (\<lambda>t. Inr \<lparr>ldt_date = ldt_date d, ldt_time = t\<rparr>)
      else Inl ErrInvalid)"

definition TruncateWithDatabase :: "DateTime \<Rightarrow> string \<Rightarrow> zonedb \<Rightarrow> terror + DateTime" where
  "TruncateWithDatabase d unit database =
     bindE (LocalDateTimeTruncate (DateTimeLocal d) unit) (\<lambda>localdt.
       if zone_kind (dt_zone d) = NamedZone
       then newNamedDateTime localdt (zone_name (dt_zone d)) None database
       else newFixedDateTime localdt (zone_offset (dt_zone d)))"

section \<open>Dates\<close>

lemma NewDate_EpochDay:
  assumes "NewDate y m 1 = Inr e"
  shows "valid_date e" "EpochDay e = daysFromCivil y m 1" "Year e = y" "Month e = m" "Day e = 1"
  using NewDate_valid [OF assms] assms
  by (auto simp: NewDate_Inr_iff EpochDay_def Year_def Month_def Day_def)

lemma jan1_le:
  assumes "valid_date d" "y \<le> Year d" "NewDate y 1 1 = Inr e"
  shows "EpochDay e \<le> EpochDay d"
  using NewDate_EpochDay(2) [OF assms(3)] jan1_mono [OF assms(2)] EpochDay_Year(1) [OF assms(1)]
  by (simp add: jan1_def)

lemma floor_multiple: "0 < k \<Longrightarrow> (y div k * k) div k * k = y div k * (k::int)"
  by simp

lemma DateTruncate_cases:
  assumes d: "valid_date d" and t: "DateTruncate d u = Inr e"
  shows "valid_date e \<and> EpochDay e \<le> EpochDay d \<and> DateTruncate e u = Inr e"
proof -
  consider (big) size where "0 < (size :: int)" "DateTruncate d u = NewDate (Year d div size * size) 1 1"
      "\<And>x. DateTruncate x u = NewDate (Year x div size * size) 1 1"
    | (year) "u = ''year''" | (wyear) "u = ''weekYear''" | (quarter) "u = ''quarter''" | (month) "u = ''month''"
    | (week) "u = ''week''" | (day) "u = ''day''"
  proof -
    consider "u = ''millennium''" | "u = ''century''" | "u = ''decade''" | "u = ''year''" | "u = ''weekYear''"
      | "u = ''quarter''" | "u = ''month''" | "u = ''week''" | "u = ''day''"
      using t by (auto simp: DateTruncate_def split: if_splits)
    then show ?thesis
    proof cases
      case 1 then show ?thesis by (intro that(1) [of 1000]) (simp_all add: DateTruncate_def)
    next
      case 2 then show ?thesis by (intro that(1) [of 100]) (simp_all add: DateTruncate_def)
    next
      case 3 then show ?thesis by (intro that(1) [of 10]) (simp_all add: DateTruncate_def)
    next
      case 4 then show ?thesis by (rule that(2))
    next
      case 5 then show ?thesis by (rule that(3))
    next
      case 6 then show ?thesis by (rule that(4))
    next
      case 7 then show ?thesis by (rule that(5))
    next
      case 8 then show ?thesis by (rule that(6))
    next
      case 9 then show ?thesis by (rule that(7))
    qed
  qed
  then show ?thesis
  proof cases
    case big
    have n: "NewDate (Year d div size * size) 1 1 = Inr e" using t big by simp
    have "Year d div size * size \<le> Year d"
      using big(1) pos_mod_sign [of size "Year d"] div_mult_mod_eq [of "Year d" size] by linarith
    from jan1_le [OF d this n] show ?thesis
      using NewDate_EpochDay(1,3) [OF n] big(1) n by (simp add: big(3) floor_multiple)
  next
    case year
    then have n: "NewDate (Year d) 1 1 = Inr e" using t by (simp add: DateTruncate_def)
    from jan1_le [OF d order_refl n] show ?thesis
      using NewDate_EpochDay(1,3) [OF n] n year by (simp add: DateTruncate_def)
  next
    case wyear
    then have w: "DateFromWeek (WeekYear d) 1 1 = Inr e" using t by (simp add: DateTruncate_def)
    then have e: "valid_date e" "WeekYear e = WeekYear d" "Week e = 1" "WeekDay e = 1" by (simp_all add: DateFromWeek_iff)
    have "EpochDay e = 7 * firstWeek (WeekYear d) - 3"
      using iso_week_fields(3) [OF e(1)] WeekDay_eq [of e] e by simp
    also have "\<dots> \<le> EpochDay d" using iso_week_fields(4) [OF d] weekIndex_bounds [of "EpochDay d"] by linarith
    finally show ?thesis using e w wyear by (simp add: DateTruncate_def)
  next
    case quarter
    let ?m = "(Quarter d - 1) * 3 + 1"
    have n: "NewDate (Year d) ?m 1 = Inr e" using t quarter by (simp add: DateTruncate_def)
    note q = Quarter_bounds [OF d] and ne = NewDate_EpochDay [OF n]
    have v: "valid_civil (Year d) (Month d) (Day d)" using d by (simp add: valid_date_def Year_def)
    from quarter_of_month(1) [OF q(1-4) v] have "EpochDay e \<le> EpochDay d"
      unfolding ne(2) by (simp add: quarterStart_def EpochDay_def Year_def)
    moreover have "(?m - 1) div 3 = Quarter d - 1" by simp
    then have "Quarter e = Quarter d" using Quarter_bounds(5) [OF ne(1)] ne(4) by simp
    ultimately show ?thesis using ne n quarter by (simp add: DateTruncate_def)
  next
    case month
    have n: "NewDate (Year d) (Month d) 1 = Inr e" using t month by (simp add: DateTruncate_def)
    note ne = NewDate_EpochDay [OF n] and md = valid_date_month_day [OF d]
    have "EpochDay e \<le> EpochDay d"
      using daysFromCivil_day [of "Month d" "Year d" "Day d"] md unfolding ne(2) by (simp add: EpochDay_def Year_def)
    with ne n month show ?thesis by (simp add: DateTruncate_def)
  next
    case week
    then have a: "AddDays d (1 - WeekDay d) = Inr e" using t by (simp add: DateTruncate_def)
    have "in64 (1 - WeekDay d)" using WeekDay_bounds [of d] by (simp add: in64_def)
    with a d have e: "valid_date e" "EpochDay e = EpochDay d + (1 - WeekDay d)" by (simp_all add: AddDays_Inr_iff)
    have "weekIndex (EpochDay e) = weekIndex (EpochDay d)"
      using WeekDay_bounds [of d] by (intro weekIndex_unique) (simp_all add: e(2) WeekDay_eq)
    then have "WeekDay e = 1" by (simp add: WeekDay_eq e(2))
    with e week WeekDay_bounds [of d] show ?thesis by (simp add: DateTruncate_def AddDays_zero)
  next
    case day
    with t d show ?thesis by (simp add: DateTruncate_def)
  qed
qed

section \<open>Local times\<close>

lemma LocalTimeTruncate_cases:
  assumes t: "valid_local_time t" and u: "LocalTimeTruncate t u = Inr s"
  shows "valid_local_time s \<and> nanoOfDay s \<le> nanoOfDay t \<and> LocalTimeTruncate s u = Inr s"
proof -
  have n: "0 \<le> nanoOfDay t" "nanoOfDay t < 86400000000000" using t by (simp_all add: valid_local_time_iff)
  have c: "valid_local_time s \<and> nanoOfDay s \<le> nanoOfDay t \<and> localTimeFromNanoOfDay (nanoOfDay s sdiv k * k) = Inr s"
    if k: "0 < k" and s: "localTimeFromNanoOfDay (nanoOfDay t sdiv k * k) = Inr s" for k
  proof -
    have e: "nanoOfDay s = nanoOfDay t div k * k" "valid_local_time s" using s n k by (simp_all add: sdiv_nonneg)
    then have "nanoOfDay s \<le> nanoOfDay t"
      using k pos_mod_sign [of k "nanoOfDay t"] div_mult_mod_eq [of "nanoOfDay t" k] by linarith
    moreover have "0 \<le> nanoOfDay s" using e(2) by (simp add: valid_local_time_iff)
    then have "nanoOfDay s sdiv k * k = nanoOfDay s" using k by (simp add: sdiv_nonneg e(1))
    ultimately show ?thesis using e(2) by simp
  qed
  have z: "valid_local_time zeroLocalTime" "nanoOfDay zeroLocalTime = 0" by (simp_all add: zeroLocalTime_def valid_local_time_iff)
  have u': "u \<in> {''day'', ''hour'', ''minute'', ''second'', ''millisecond'', ''microsecond''}"
    using u by (auto simp: LocalTimeTruncate_def Let_def split: if_splits)
  then show ?thesis
    using u c [of 3600000000000] c [of 60000000000] c [of 1000000000] c [of 1000000] c [of 1000] z n(1)
    by (elim insertE) (simp_all add: LocalTimeTruncate_def unit_defs del: localTimeFromNanoOfDay_Inr_iff)
qed

end
