(* ===== verification/Temporal_Properties.thy ===== *)
theory Temporal_Properties
  imports Date_Time_Text Temporal_Binary Truncation
begin

text \<open>
  The properties of \<open>internal/domain/temporal\<close>, each with a concrete instance where it has hypotheses.
  The proofs are the component lemmas of the theories imported here.
\<close>

section \<open>Sample values\<close>

definition sample_date :: Date where
  "sample_date = \<lparr>date_year = 1970, date_month = 0, date_day = 0\<rparr>"

definition sample_time :: LocalTime where
  "sample_time = \<lparr>nanoOfDay = 1800000000000\<rparr>"

definition sample_offset_time :: Time where
  "sample_offset_time = \<lparr>time_local = sample_time, time_offset = 3600\<rparr>"

definition sample_fixed :: DateTime where
  "sample_fixed = \<lparr>dt_epochSecond = 1800, dt_nanosecond = 0,
     dt_zone = \<lparr>zone_kind = OffsetZone, zone_offset = 0, zone_name = []\<rparr>\<rparr>"

definition sample_duration :: Duration where
  "sample_duration = \<lparr>dur_months = 0, dur_days = 0, dur_seconds = 90, dur_nanoseconds = 5\<rparr>"

lemma valid_sample_date: "valid_date sample_date"
  by (simp add: valid_date_def valid_civil_def sample_date_def Month_def Day_def range_simps daysInMonth_def)

lemma valid_sample_time: "valid_local_time sample_time"
  by (simp add: valid_local_time_iff sample_time_def)

lemma valid_sample_offset_time: "valid_time sample_offset_time"
  using valid_sample_time by (simp add: valid_time_def sample_offset_time_def valid_offset_def)

lemma valid_sample_ldt: "valid_ldt \<lparr>ldt_date = sample_date, ldt_time = sample_time\<rparr>"
  using valid_sample_date valid_sample_time by (simp add: valid_ldt_def)

lemma valid_sample_fixed: "valid_datetime sample_fixed"
  using local_1800 by (simp add: valid_datetime_def sample_fixed_def in64_def valid_zone_def valid_offset_def)

lemma valid_sample_duration: "valid_duration sample_duration"
  by (simp add: valid_duration_def sample_duration_def in64_def nanosecondsPerSecond_def)

section \<open>Dates\<close>

text \<open>C18: The day number of a date determines the date, the constructor from day numbers inverts it,
  and day numbers order dates as year, month and day do.\<close>

theorem day_number_order_isomorphism:
  assumes "valid_date a" "valid_date b"
  shows "dateOfDays (EpochDay a) = Inr a \<and> (EpochDay a < EpochDay b \<longleftrightarrow> civil_less a b) \<and>
    (EpochDay a = EpochDay b \<longleftrightarrow> a = b)"
  using dateOfDays_EpochDay [OF assms(1)] dateOfDays_EpochDay [OF assms(2)] EpochDay_less_iff [OF assms]
  by (metis Inr_inject)

theorem day_number_order_isomorphism_witness:
  "dateOfDays (EpochDay sample_date) = Inr sample_date"
  using day_number_order_isomorphism [OF valid_sample_date valid_sample_date] by simp

text \<open>C19: Adding days gives exactly the valid date that many days later, and fails exactly when there is
  none: no wrapped day number is ever taken for a date.\<close>

theorem add_days_exact:
  assumes "valid_date d" "in64 n"
  shows "AddDays d n = Inr e \<longleftrightarrow> valid_date e \<and> EpochDay e = EpochDay d + n"
  by (rule AddDays_Inr_iff [OF assms])

theorem add_days_exact_witness:
  "AddDays sample_date 0 = Inr sample_date"
  using add_days_exact [OF valid_sample_date, of 0 sample_date] valid_sample_date by (simp add: in64_def)

text \<open>C20: Adding months moves the month count by exactly that many months and keeps the day of the month,
  clamped to the length of the target month; it fails exactly when the target year is out of range.\<close>

theorem add_months_clamps:
  assumes "valid_date d" "in64 months"
  shows "AddMonths d months = Inr e \<longleftrightarrow> valid_date e \<and>
    12 * Year e + (Month e - 1) = 12 * Year d + (Month d - 1) + months \<and>
    Day e = min (Day d) (daysInMonth (Year e) (Month e))"
proof -
  have "Year e = t div 12 \<and> Month e = t mod 12 + 1 \<longleftrightarrow> 12 * Year e + (Month e - 1) = t" if "valid_date e" for t
  proof -
    have "1 \<le> Month e" "Month e \<le> 12" using that by (simp_all add: valid_date_def valid_civil_def)
    then show ?thesis by auto
  qed
  then show ?thesis unfolding AddMonths_Inr_iff [OF assms] by blast
qed

theorem add_months_clamps_witness:
  "AddMonths sample_date 0 = Inr sample_date"
  using add_months_clamps [OF valid_sample_date, of 0 sample_date] valid_sample_date
  by (simp add: in64_def sample_date_def Day_def Month_def Year_def daysInMonth_def)

text \<open>C21: The constructors from an ordinal day and from an ISO week, and the fields they read back, are
  inverse: a constructor accepts exactly the field values some valid date has, and returns that date.\<close>

theorem calendar_selectors_exact:
  "(DateFromOrdinal y n = Inr d \<longleftrightarrow> valid_date d \<and> Year d = y \<and> OrdinalDay d = n) \<and>
   (DateFromWeek y w k = Inr d \<longleftrightarrow> valid_date d \<and> WeekYear d = y \<and> Week d = w \<and> WeekDay d = k) \<and>
   (DateFromQuarter y q k = Inr d \<longleftrightarrow> valid_date d \<and> Year d = y \<and> Quarter d = q \<and> DayOfQuarter d = k)"
  using DateFromOrdinal_iff DateFromWeek_iff DateFromQuarter_iff by blast

text \<open>C22: The canonical text of a valid date parses to that date, and every text that parses gives a valid
  date.\<close>

theorem date_text_exact:
  "(valid_date d \<longleftrightarrow> ParseDate (DateString d) = Inr d) \<and> (valid_date d \<longleftrightarrow> (\<exists>s. ParseDate s = Inr d))"
  using ParseDate_DateString ParseDate_valid by blast

section \<open>Times of day\<close>

text \<open>C23: Local times, offsets and offset times print to text that parses back to the same value.\<close>

theorem time_text_roundtrip:
  assumes "valid_time t"
  shows "ParseTime (TimeString t) = Inr t \<and> ParseOffset (FormatOffset (time_offset t)) = Inr (time_offset t) \<and>
    ParseLocalTime (formatLocalTime (time_local t)) = Inr (time_local t)"
  using assms ParseTime_TimeString [OF assms] ParseOffset_FormatOffset ParseLocalTime_formatLocalTime
  by (simp add: valid_time_def)

theorem time_text_roundtrip_witness:
  "ParseTime (TimeString sample_offset_time) = Inr sample_offset_time"
  using time_text_roundtrip [OF valid_sample_offset_time] by simp

text \<open>On the 24-hour circle, adding a duration to a local time never fails, and subtracting it again
  gives the time back.\<close>

theorem local_time_add_subtract_inverse:
  assumes "valid_local_time t"
  shows "bindE (LocalTimeAdd t d) (\<lambda>u. LocalTimeSubtract u d) = Inr t"
  by (rule LocalTime_add_subtract [OF assms])

theorem local_time_add_subtract_inverse_witness:
  "bindE (LocalTimeAdd sample_time sample_duration) (\<lambda>u. LocalTimeSubtract u sample_duration) = Inr sample_time"
  by (rule local_time_add_subtract_inverse [OF valid_sample_time])

section \<open>Durations\<close>

text \<open>Durations add component by component, exactly: the sum has the sum of the months, of the days and
  of the seconds with their nanoseconds, and the operation fails exactly when a component leaves 64 bits.\<close>

theorem duration_add_exact:
  assumes "valid_duration a" "valid_duration b"
  shows "DurationAdd a b = Inr c \<longleftrightarrow> valid_duration c \<and> dur_months c = dur_months a + dur_months b \<and>
    dur_days c = dur_days a + dur_days b \<and>
    secondsGroupNanoseconds c = secondsGroupNanoseconds a + secondsGroupNanoseconds b \<and>
    in64 (dur_seconds a + dur_seconds b)"
  by (rule DurationAdd_Inr_iff [OF assms])

theorem duration_add_exact_witness:
  "DurationAdd sample_duration sample_duration = Inr \<lparr>dur_months = 0, dur_days = 0, dur_seconds = 180, dur_nanoseconds = 10\<rparr>"
  unfolding duration_add_exact [OF valid_sample_duration valid_sample_duration]
  by (simp add: valid_duration_def sample_duration_def in64_def nanosecondsPerSecond_def secondsGroupNanoseconds_def)

text \<open>C25: Fractional months, days and seconds, and a duration scaled by a rational factor, carry their
  fractions into the smaller units so that the total differs from the exact one by less than a
  nanosecond (at the code's average lengths of a month and a day).\<close>

theorem fractional_duration_within_a_nanosecond:
  assumes "durationFromRationals m d s = Inr x" "scale e factor = Inr y"
  shows "\<bar>of_int (orderNanoseconds x) - (m * 2629746 + d * 86400 + s) * 1000000000\<bar> < 1 \<and>
    \<bar>of_int (orderNanoseconds y) - of_int (orderNanoseconds e) * factor\<bar> < 1"
  using durationFromRationals_order [OF assms(1)] scale_order [OF assms(2)] by blast

section \<open>Instants in a zone\<close>

text \<open>A date-time in a fixed offset is built exactly when the offset is in range and the local date-time
  has an instant; the result shows the given local date-time.\<close>

theorem fixed_datetime_exact:
  assumes "valid_ldt l"
  shows "newFixedDateTime l off = Inr d \<longleftrightarrow> valid_offset off \<and> valid_datetime d \<and>
    dt_zone d = \<lparr>zone_kind = OffsetZone, zone_offset = off, zone_name = []\<rparr> \<and> DateTimeLocal d = l"
  by (rule newFixedDateTime_Inr_iff [OF assms])

theorem fixed_datetime_exact_witness:
  "newFixedDateTime (DateTimeLocal sample_fixed) 0 = Inr sample_fixed"
  using fixed_datetime_exact [of "DateTimeLocal sample_fixed" 0 sample_fixed] valid_sample_fixed
    DateTimeLocal_facts(1) [OF valid_sample_fixed]
  by (simp add: valid_offset_def sample_fixed_def)

text \<open>C26: In a named zone, a local date-time that some offset in force around it explains is resolved: the
  result shows that local date-time, its offset is the zone's at its instant, and when the local time
  occurs twice it is the earlier occurrence.\<close>

theorem named_datetime_earliest:
  assumes "valid_ldt l" "sane_location location" "zone_name_ok name" "db name = Inr (Some location)"
    "off \<in> set (probedOffsets location (local_second l))" "location (local_second l - off) = off"
  shows "\<exists>d. newNamedDateTime l name None (Some db) = Inr d \<and> valid_datetime d \<and> DateTimeLocal d = l \<and>
    dt_zone d = \<lparr>zone_kind = NamedZone, zone_offset = location (dt_epochSecond d), zone_name = name\<rparr> \<and>
    dt_epochSecond d \<le> local_second l - off"
  using newNamedDateTime_earliest [where db = db and name = name, OF assms] by metis

theorem named_datetime_earliest_witness:
  "\<exists>d. newNamedDateTime (DateTimeLocal later_occurrence) ''X'' None (Some (\<lambda>_. Inr (Some fall_back_location))) = Inr d \<and>
     dt_epochSecond d \<le> -1800"
proof -
  let ?l = "DateTimeLocal later_occurrence"
  have ls: "local_second ?l = 1800"
    using DateTimeLocal_facts(3) [OF valid_later_occurrence] by (simp add: later_occurrence_def)
  have "fall_back_location (1800 + (-1) * 21600) \<in> set (probedOffsets fall_back_location 1800)"
    unfolding set_probedOffsets by (intro CollectI exI [of _ "-1"]) simp
  then have "3600 \<in> set (probedOffsets fall_back_location (local_second ?l))"
    "fall_back_location (local_second ?l - 3600) = 3600"
    unfolding ls by (simp_all add: fall_back_location_def)
  from named_datetime_earliest [where db = "\<lambda>_. Inr (Some fall_back_location)",
      OF DateTimeLocal_facts(1) [OF valid_later_occurrence] sane_fall_back zone_name_ok_X refl this]
  show ?thesis unfolding ls by auto
qed

text \<open>In a fixed offset, adding a duration of seconds moves the instant by exactly that many nanoseconds
  and keeps the zone.\<close>

theorem elapsed_addition_exact:
  assumes "valid_datetime d" "zone_kind (dt_zone d) = OffsetZone" "valid_duration dur" "dur_months dur = 0"
    "dur_days dur = 0" "AddWithDatabase d dur database = Inr e"
  shows "valid_datetime e \<and> dt_zone e = dt_zone d \<and> instant_nanos e = instant_nanos d + secondsGroupNanoseconds dur"
  by (rule AddWithDatabase_fixed_elapsed [OF assms])

text \<open>C27: A date-time's text parses back to it: always in a fixed offset; in a named zone when the database knows
  the zone with valid offsets, gives it at the instant the offset that the value holds, and gives that offset also at
  one of the moments, six hours apart up to three days around the local time, that the parser probes. Of two
  occurrences of a local time, each text gives back its own.\<close>

theorem datetime_text_roundtrip:
  assumes "valid_datetime d"
    "zone_kind (dt_zone d) = NamedZone \<Longrightarrow> sane_location location \<and> db (zone_name (dt_zone d)) = Inr (Some location) \<and>
       location (dt_epochSecond d) = zone_offset (dt_zone d) \<and>
       zone_offset (dt_zone d) \<in> set (probedOffsets location (dt_epochSecond d + zone_offset (dt_zone d)))"
  shows "ParseDateTime (Some db) (DateTimeString d) = Inr d"
proof (cases "zone_kind (dt_zone d) = NamedZone")
  case True
  from ParseDateTime_named [OF assms(1) this, of location db] assms(2) [OF this] show ?thesis by blast
next
  case False
  then have "zone_kind (dt_zone d) = OffsetZone" using assms(1) by (auto simp: valid_datetime_def valid_zone_def)
  then show ?thesis by (rule ParseDateTime_fixed [OF assms(1)])
qed

text \<open>The later of two occurrences of half past midnight, in a named zone.\<close>

theorem datetime_text_roundtrip_witness:
  "ParseDateTime (Some (\<lambda>_. Inr (Some fall_back_location))) (DateTimeString later_occurrence) = Inr later_occurrence"
proof (rule datetime_text_roundtrip [where location = fall_back_location, OF valid_later_occurrence])
  have "fall_back_location (1800 + 0 * 21600) \<in> set (probedOffsets fall_back_location 1800)"
    unfolding set_probedOffsets by (intro CollectI exI [of _ 0]) simp
  then show "sane_location fall_back_location \<and>
    (Inr (Some fall_back_location) :: terror + location option) = Inr (Some fall_back_location) \<and>
    fall_back_location (dt_epochSecond later_occurrence) = zone_offset (dt_zone later_occurrence) \<and>
    zone_offset (dt_zone later_occurrence) \<in>
      set (probedOffsets fall_back_location (dt_epochSecond later_occurrence + zone_offset (dt_zone later_occurrence)))"
    by (simp add: sane_fall_back later_occurrence_def fall_back_location_def)
qed

section \<open>Binary forms\<close>

lemma marshal_valid:
  "DateMarshalBinary d = Inr s \<Longrightarrow> valid_date d"
  "LocalTimeMarshalBinary lt = Inr s \<Longrightarrow> valid_local_time lt"
  "LocalDateTimeMarshalBinary l = Inr s \<Longrightarrow> valid_ldt l"
proof -
  have d: "valid_date d" if "NewDate (Year d) (Month d) (Day d) = Inr x" for d x
    using that by (simp add: NewDate_Inr_iff valid_date_def Year_def)
  show "DateMarshalBinary d = Inr s \<Longrightarrow> valid_date d"
    by (auto simp: DateMarshalBinary_def bindE_Inr_iff intro: d)
  show "LocalTimeMarshalBinary lt = Inr s \<Longrightarrow> valid_local_time lt"
    by (auto simp: LocalTimeMarshalBinary_def bindE_Inr_iff valid_local_time_iff)
  show "LocalDateTimeMarshalBinary l = Inr s \<Longrightarrow> valid_ldt l"
    by (auto simp: LocalDateTimeMarshalBinary_def bindE_Inr_iff valid_ldt_def valid_local_time_iff intro: d)
qed

text \<open>C29: The binary form is a bijection between the valid values of each temporal type and the payloads
  the decoder accepts: a payload decodes to a value exactly when the value encodes to that payload.\<close>

theorem binary_bijection:
  "(DateFromBinary data = Inr d \<longleftrightarrow> DateMarshalBinary d = Inr data) \<and>
   (LocalTimeFromBinary data = Inr lt \<longleftrightarrow> LocalTimeMarshalBinary lt = Inr data) \<and>
   (valid_time t \<longrightarrow> TimeFromBinary data = Inr t \<longleftrightarrow> TimeMarshalBinary t = Inr data) \<and>
   (LocalDateTimeFromBinary data = Inr l \<longleftrightarrow> LocalDateTimeMarshalBinary l = Inr data) \<and>
   (valid_datetime z \<longrightarrow> DateTimeFromBinary data = Inr z \<longleftrightarrow> DateTimeMarshalBinary z = Inr data) \<and>
   (valid_duration du \<longrightarrow> DurationFromBinary data = Inr du \<longleftrightarrow> DurationMarshalBinary du = Inr data)"
proof (intro conjI impI iffI)
  show "DateMarshalBinary d = Inr data \<Longrightarrow> DateFromBinary data = Inr d"
    using Date_roundtrip [OF marshal_valid(1)] by simp
  show "LocalTimeMarshalBinary lt = Inr data \<Longrightarrow> LocalTimeFromBinary data = Inr lt"
    using LocalTime_roundtrip [OF marshal_valid(2)] by simp
  show "valid_time t \<Longrightarrow> TimeMarshalBinary t = Inr data \<Longrightarrow> TimeFromBinary data = Inr t"
    using Time_roundtrip [of t] by simp
  show "LocalDateTimeMarshalBinary l = Inr data \<Longrightarrow> LocalDateTimeFromBinary data = Inr l"
    using LocalDateTime_roundtrip [OF marshal_valid(3)] by simp
  show "DateTimeFromBinary data = Inr z" if "valid_datetime z" "DateTimeMarshalBinary z = Inr data"
  proof -
    have "length (zone_name (dt_zone z)) \<le> 65535"
      using that(2) by (auto simp: DateTimeMarshalBinary_def bindE_Inr_iff split: if_splits)
    from DateTime_roundtrip [OF that(1) this] that(2) show ?thesis by simp
  qed
  show "valid_duration du \<Longrightarrow> DurationMarshalBinary du = Inr data \<Longrightarrow> DurationFromBinary data = Inr du"
    using Duration_roundtrip [of du] by simp
qed (rule DateFromBinary_canonical LocalTimeFromBinary_canonical TimeFromBinary_canonical
  LocalDateTimeFromBinary_canonical DateTimeFromBinary_canonical DurationFromBinary_canonical; assumption)+

theorem binary_bijection_witness:
  "\<exists>data. DateTimeMarshalBinary sample_fixed = Inr data \<and> DateTimeFromBinary data = Inr sample_fixed"
proof -
  have "\<exists>data. DateTimeMarshalBinary sample_fixed = Inr data"
    using restoreDateTime_Inr_iff [of "dt_zone sample_fixed" 1800 0 sample_fixed] valid_sample_fixed
    by (simp add: DateTimeMarshalBinary_def valid_datetime_def sample_fixed_def)
  then obtain data where "DateTimeMarshalBinary sample_fixed = Inr data" by blast
  with binary_bijection [of data sample_date sample_time sample_offset_time _ sample_fixed sample_duration]
    valid_sample_fixed show ?thesis by blast
qed

section \<open>Truncation\<close>

text \<open>C30: Truncating a date or a local time to a unit gives a valid value that is not later, and truncating
  again changes nothing.\<close>

theorem truncation_down_and_idempotent:
  assumes "valid_date d" "DateTruncate d u = Inr e" "valid_local_time t" "LocalTimeTruncate t w = Inr s"
  shows "valid_date e \<and> EpochDay e \<le> EpochDay d \<and> DateTruncate e u = Inr e \<and>
    valid_local_time s \<and> nanoOfDay s \<le> nanoOfDay t \<and> LocalTimeTruncate s w = Inr s"
  using DateTruncate_cases [OF assms(1,2)] LocalTimeTruncate_cases [OF assms(3,4)] by blast

text \<open>The witnesses of the properties with computed hypotheses.\<close>

theorem fractional_duration_within_a_nanosecond_witness:
  "\<bar>of_int (orderNanoseconds empty_duration) - (0 :: rat)\<bar> < 1"
proof -
  have "durationFromRationals 0 0 0 = Inr empty_duration"
    by (simp add: durationFromRationals_def empty_duration_def splitRat_def rat_quo_def durationFromTotalNanoseconds_def
      NewDuration_exact in64_def)
  moreover have "scale empty_duration 1 = Inr empty_duration"
    by (simp add: scale_def empty_duration_def durationFromRationals_def splitRat_def rat_quo_def
      durationFromTotalNanoseconds_def NewDuration_exact in64_def secondsGroupNanoseconds_def)
  ultimately show ?thesis using fractional_duration_within_a_nanosecond [of 0 0 0 empty_duration] by fastforce
qed

theorem elapsed_addition_exact_witness:
  "\<exists>e. AddWithDatabase sample_fixed sample_duration None = Inr e \<and> instant_nanos e = 1890000000005"
proof -
  let ?e = "sample_fixed\<lparr>dt_epochSecond := 1890, dt_nanosecond := 5\<rparr>"
  let ?l = "\<lparr>ldt_date = zeroDate\<lparr>date_year := 1970\<rparr>, ldt_time = \<lparr>nanoOfDay = 1890000000005\<rparr>\<rparr>"
  have "localDateTimeAt 1890 5 0 = Inr ?l"
    using localDateTimeAt_Inr_iff [of 1890 0 5 ?l]
    by (simp add: in64_def valid_ldt_def valid_date_def valid_civil_def valid_local_time_iff zeroDate_def
        Month_def Day_def range_simps daysInMonth_def local_second_def EpochDay_def daysFromCivil_epoch Nanosecond_mod)
  then have e: "valid_datetime ?e"
    by (simp add: valid_datetime_def sample_fixed_def in64_def valid_zone_def valid_offset_def)
  have "newFixedDateTime (DateTimeLocal sample_fixed) 0 = Inr sample_fixed"
    unfolding newFixedDateTime_Inr_iff [OF DateTimeLocal_facts(1) [OF valid_sample_fixed]]
    using valid_sample_fixed by (simp add: valid_offset_def sample_fixed_def)
  moreover have "addEpochDuration 1800 0 90 5 = Inr (1890, 5)"
    by (simp add: addEpochDuration_def checkedAdd_def i64_def unit_defs)
  moreover have "restoreDateTime 1890 5 (dt_zone sample_fixed) = Inr ?e"
    using restoreDateTime_Inr_iff [of "dt_zone sample_fixed" 1890 5 ?e] e
    by (simp add: valid_datetime_def sample_fixed_def)
  ultimately have "AddWithDatabase sample_fixed sample_duration None = Inr ?e"
    using LocalDateTimeAdd_calendar_zero [OF DateTimeLocal_facts(1) [OF valid_sample_fixed]]
    by (simp add: AddWithDatabase_def sample_fixed_def sample_duration_def OffsetZone_def NamedZone_def)
  with elapsed_addition_exact [OF valid_sample_fixed _ valid_sample_duration _ _ this]
  show ?thesis by (simp add: sample_fixed_def sample_duration_def instant_nanos_def secondsGroupNanoseconds_def unit_defs)
qed

theorem truncation_down_and_idempotent_witness:
  "DateTruncate sample_date ''day'' = Inr sample_date \<and> LocalTimeTruncate sample_time ''day'' = Inr zeroLocalTime"
  using truncation_down_and_idempotent [OF valid_sample_date, of "''day''" sample_date sample_time "''day''" zeroLocalTime]
    valid_sample_time by (simp add: DateTruncate_def LocalTimeTruncate_def)

end
