(* ===== verification/Text_Codecs.thy ===== *)
theory Text_Codecs
  imports Text_Limits Temporal_Binary
begin

text \<open>
  The text encodings of the standard library that the property codec uses: base64, hexadecimal
  integers and JSON strings in the HTML-safe spelling of \<open>encoding/json\<close>.
\<close>

section \<open>Base64\<close>

definition b64_char :: "nat \<Rightarrow> char" where
  "b64_char n = (if n < 26 then char_of (65 + n) else if n < 52 then char_of (71 + n)
     else if n < 62 then char_of (n - 4) else if n = 62 then CHR ''+'' else CHR ''/'')"

definition b64_val :: "char \<Rightarrow> nat option" where
  "b64_val c = (let x = byte_of c in
     if 65 \<le> x \<and> x \<le> 90 then Some (x - 65) else if 97 \<le> x \<and> x \<le> 122 then Some (x - 71)
     else if 48 \<le> x \<and> x \<le> 57 then Some (x + 4) else if x = 43 then Some 62 else if x = 47 then Some 63 else None)"

text \<open>\<open>base64.StdEncoding.EncodeToString\<close>, \<open>EncodedLen\<close> and \<open>DecodeString\<close> (which skips line breaks and does
  not insist on zero trailing bits).\<close>

fun b64_encode :: "string \<Rightarrow> string" where
  "b64_encode (a # b # c # r) =
     b64_char (byte_of a div 4) # b64_char (byte_of a mod 4 * 16 + byte_of b div 16) #
     b64_char (byte_of b mod 16 * 4 + byte_of c div 64) # b64_char (byte_of c mod 64) # b64_encode r"
| "b64_encode [a, b] =
     [b64_char (byte_of a div 4), b64_char (byte_of a mod 4 * 16 + byte_of b div 16),
      b64_char (byte_of b mod 16 * 4), CHR ''='']"
| "b64_encode [a] = [b64_char (byte_of a div 4), b64_char (byte_of a mod 4 * 16), CHR ''='', CHR ''='']"
| "b64_encode [] = []"

definition b64_len :: "nat \<Rightarrow> nat" where
  "b64_len n = (n + 2) div 3 * 4"

fun b64_groups :: "string \<Rightarrow> string option" where
  "b64_groups [] = Some []"
| "b64_groups (a # b # c # d # r) =
     (if d = CHR ''='' then
        if r \<noteq> [] then None
        else if c = CHR ''='' then
          (case (b64_val a, b64_val b) of
             (Some p, Some q) \<Rightarrow> Some [char_of (p * 4 + q div 16)] | _ \<Rightarrow> None)
        else
          (case (b64_val a, b64_val b, b64_val c) of
             (Some p, Some q, Some s) \<Rightarrow> Some [char_of (p * 4 + q div 16), char_of (q mod 16 * 16 + s div 4)]
           | _ \<Rightarrow> None)
      else
        (case (b64_val a, b64_val b, b64_val c, b64_val d, b64_groups r) of
           (Some p, Some q, Some s, Some t, Some out) \<Rightarrow>
             Some (char_of (p * 4 + q div 16) # char_of (q mod 16 * 16 + s div 4) # char_of (s mod 4 * 64 + t) # out)
         | _ \<Rightarrow> None))"
| "b64_groups _ = None"

definition b64_decode :: "string \<Rightarrow> string option" where
  "b64_decode s = b64_groups (filter (\<lambda>c. c \<noteq> CHR 0x0A \<and> c \<noteq> CHR 0x0D) s)"

lemma b64_val_char [simp]:
  assumes "n < 64"
  shows "b64_val (b64_char n) = Some n"
proof -
  consider "n < 26" | "26 \<le> n" "n < 52" | "52 \<le> n" "n < 62" | "n = 62" | "n = 63" using assms by linarith
  then show ?thesis by cases (auto simp: b64_char_def b64_val_def byte_of_def of_char_of Let_def)
qed

lemma b64_char_not_pad:
  assumes "n < 64"
  shows "b64_char n \<noteq> CHR ''=''" "b64_char n \<noteq> CHR 0x0A" "b64_char n \<noteq> CHR 0x0D"
proof -
  have "b64_val (CHR ''='') = None" "b64_val (CHR 0x0A) = None" "b64_val (CHR 0x0D) = None"
    by (simp_all add: b64_val_def byte_of_def)
  then show "b64_char n \<noteq> CHR ''=''" "b64_char n \<noteq> CHR 0x0A" "b64_char n \<noteq> CHR 0x0D"
    using b64_val_char [OF assms] by (metis option.distinct(1))+
qed

lemma b64_sextets:
  "byte_of a div 4 < 64" "byte_of a mod 4 * 16 + byte_of b div 16 < 64" "byte_of a mod 4 * 16 < 64"
  "byte_of b mod 16 * 4 + byte_of c div 64 < 64" "byte_of b mod 16 * 4 < 64" "byte_of c mod 64 < 64"
proof -
  have "byte_of a < 256" "byte_of b < 256" "byte_of c < 256" by (rule byte_of_less)+
  then have h: "byte_of a div 4 < 64" "byte_of b div 16 < 16" "byte_of c div 64 < 4" by simp_all
  have m: "byte_of a mod 4 < 4" "byte_of b mod 16 < 16" "byte_of c mod 64 < 64" by simp_all
  show "byte_of a div 4 < 64" "byte_of a mod 4 * 16 + byte_of b div 16 < 64" "byte_of a mod 4 * 16 < 64"
    "byte_of b mod 16 * 4 + byte_of c div 64 < 64" "byte_of b mod 16 * 4 < 64" "byte_of c mod 64 < 64"
    using h m by linarith+
qed

lemma b64_octets:
  "char_of (byte_of a div 4 * 4 + (byte_of a mod 4 * 16 + byte_of b div 16) div 16) = a"
  "char_of (byte_of a div 4 * 4 + byte_of a mod 4 * 16 div 16) = a"
  "char_of ((byte_of a mod 4 * 16 + byte_of b div 16) mod 16 * 16 + (byte_of b mod 16 * 4 + byte_of c div 64) div 4) = b"
  "char_of ((byte_of a mod 4 * 16 + byte_of b div 16) mod 16 * 16 + byte_of b mod 16 * 4 div 4) = b"
  "char_of ((byte_of b mod 16 * 4 + byte_of c div 64) mod 4 * 64 + byte_of c mod 64) = c"
proof -
  have h: "byte_of b div 16 < 16" "byte_of c div 64 < 4"
    using byte_of_less [of b] byte_of_less [of c] by simp_all
  have e: "(byte_of a mod 4 * 16 + byte_of b div 16) div 16 = byte_of a mod 4"
    "(byte_of a mod 4 * 16 + byte_of b div 16) mod 16 = byte_of b div 16"
    "(byte_of b mod 16 * 4 + byte_of c div 64) div 4 = byte_of b mod 16"
    "(byte_of b mod 16 * 4 + byte_of c div 64) mod 4 = byte_of c div 64"
    using h by simp_all
  show "char_of (byte_of a div 4 * 4 + (byte_of a mod 4 * 16 + byte_of b div 16) div 16) = a"
    "char_of (byte_of a div 4 * 4 + byte_of a mod 4 * 16 div 16) = a"
    "char_of ((byte_of a mod 4 * 16 + byte_of b div 16) mod 16 * 16 + (byte_of b mod 16 * 4 + byte_of c div 64) div 4) = b"
    "char_of ((byte_of a mod 4 * 16 + byte_of b div 16) mod 16 * 16 + byte_of b mod 16 * 4 div 4) = b"
    "char_of ((byte_of b mod 16 * 4 + byte_of c div 64) mod 4 * 64 + byte_of c mod 64) = c"
    unfolding e by simp_all
qed

lemma b64_groups_encode: "b64_groups (b64_encode s) = Some s"
proof (induction s rule: b64_encode.induct)
  case (1 a b c r)
  then show ?case
    by (simp only: b64_encode.simps b64_groups.simps b64_sextets b64_val_char b64_char_not_pad b64_octets
        option.case prod.case if_False simp_thms)
next
  case (2 a b)
  then show ?case
    by (simp only: b64_encode.simps b64_groups.simps b64_sextets b64_val_char b64_char_not_pad b64_octets
        option.case prod.case if_False if_True simp_thms)
next
  case (3 a)
  then show ?case
    by (simp only: b64_encode.simps b64_groups.simps b64_sextets b64_val_char b64_octets
        option.case prod.case if_False if_True simp_thms)
qed simp

lemma b64_encode_chars: "c \<in> set (b64_encode s) \<Longrightarrow> c \<noteq> CHR 0x0A \<and> c \<noteq> CHR 0x0D"
  by (induction s rule: b64_encode.induct) (auto simp: b64_char_not_pad b64_sextets)

lemma b64_decode_encode [simp]: "b64_decode (b64_encode s) = Some s"
proof -
  have "filter (\<lambda>c. c \<noteq> CHR 0x0A \<and> c \<noteq> CHR 0x0D) (b64_encode s) = b64_encode s"
    by (rule filter_True) (use b64_encode_chars in blast)
  then show ?thesis by (simp add: b64_decode_def b64_groups_encode)
qed

lemma b64_len_group: "b64_len (Suc (Suc (Suc n))) = Suc (Suc (Suc (Suc (b64_len n))))"
proof -
  have "(n + 2 + 3) div 3 = Suc ((n + 2) div 3)" by (subst div_add_self2) simp_all
  then show ?thesis by (simp add: b64_len_def add.commute)
qed

lemma length_b64_encode [simp]: "length (b64_encode s) = b64_len (length s)"
  by (induction s rule: b64_encode.induct) (simp_all add: b64_len_group, simp_all add: b64_len_def)

lemma b64_len_mono: "m \<le> n \<Longrightarrow> b64_len m \<le> b64_len n"
  unfolding b64_len_def by (intro mult_right_mono div_le_mono) simp_all

section \<open>Hexadecimal\<close>

definition hex_digit :: "nat \<Rightarrow> char" where
  "hex_digit n = char_of (if n < 10 then 48 + n else 87 + n)"

definition hex_val :: "char \<Rightarrow> nat option" where
  "hex_val c = (let x = byte_of c in
     if 48 \<le> x \<and> x \<le> 57 then Some (x - 48) else if 97 \<le> x \<and> x \<le> 102 then Some (x - 87)
     else if 65 \<le> x \<and> x \<le> 70 then Some (x - 55) else None)"

text \<open>\<open>strconv.FormatUint(n, 16)\<close> and \<open>strconv.ParseUint(s, 16, 64)\<close>.\<close>

fun hex_text :: "nat \<Rightarrow> string" where
  "hex_text n = (if n < 16 then [hex_digit n] else hex_text (n div 16) @ [hex_digit (n mod 16)])"

declare hex_text.simps [simp del]

fun hex_value :: "nat \<Rightarrow> string \<Rightarrow> nat option" where
  "hex_value acc [] = Some acc"
| "hex_value acc (c # s) = (case hex_val c of None \<Rightarrow> None | Some d \<Rightarrow> hex_value (acc * 16 + d) s)"

definition parse_hex64 :: "string \<Rightarrow> int option" where
  "parse_hex64 s =
     (if s = [] then None
      else case hex_value 0 s of None \<Rightarrow> None
           | Some n \<Rightarrow> if int n < 18446744073709551616 then Some (int n) else None)"

lemma hex_val_digit [simp]: "n < 16 \<Longrightarrow> hex_val (hex_digit n) = Some n"
  by (auto simp: hex_val_def hex_digit_def byte_of_def of_char_of)

lemma hex_value_append: "hex_value acc (s @ t) = (case hex_value acc s of None \<Rightarrow> None | Some n \<Rightarrow> hex_value n t)"
  by (induction s arbitrary: acc) (auto split: option.splits)

lemma hex_value_text [simp]: "hex_value 0 (hex_text n) = Some n"
proof (induction n rule: hex_text.induct)
  case (1 n)
  then show ?case by (subst hex_text.simps) (auto simp: hex_value_append mult.commute)
qed

lemma hex_text_nonempty [simp]: "hex_text n \<noteq> []"
  by (subst hex_text.simps) simp

lemma parse_hex64_text: "int n < 18446744073709551616 \<Longrightarrow> parse_hex64 (hex_text n) = Some (int n)"
  by (simp add: parse_hex64_def)

section \<open>JSON strings\<close>

text \<open>One character of a JSON string: two-byte escapes, \<open>\u00XX\<close> escapes of control characters and of the
  HTML characters, the two line separators, and the replacement of an invalid byte.\<close>

definition unicode_escape :: "nat \<Rightarrow> string" where
  "unicode_escape r = CHR 0x5C # CHR ''u'' #
     [hex_digit (r div 4096 mod 16), hex_digit (r div 256 mod 16), hex_digit (r div 16 mod 16), hex_digit (r mod 16)]"

definition json_ascii :: "char \<Rightarrow> string" where
  "json_ascii c =
     (let x = byte_of c in
      if x = 92 then [CHR 0x5C, CHR 0x5C] else if x = 34 then [CHR 0x5C, CHR 0x22]
      else if x = 8 then [CHR 0x5C, CHR ''b''] else if x = 12 then [CHR 0x5C, CHR ''f'']
      else if x = 10 then [CHR 0x5C, CHR ''n''] else if x = 13 then [CHR 0x5C, CHR ''r'']
      else if x = 9 then [CHR 0x5C, CHR ''t'']
      else if x = 60 \<or> x = 62 \<or> x = 38 \<or> x < 32 then unicode_escape x
      else [c])"

function json_chars :: "string \<Rightarrow> string" where
  "json_chars s =
     (case s of [] \<Rightarrow> []
      | c # r \<Rightarrow>
          if byte_of c < 128 then json_ascii c @ json_chars r
          else (case decode_rune s of (rune, width) \<Rightarrow>
                  (if rune = rune_error \<and> width = 1 then unicode_escape 65533
                   else if rune = 8232 \<or> rune = 8233 then unicode_escape rune
                   else take width s) @ json_chars (drop width s)))"
  by pat_completeness auto
termination by (relation "measure length") (auto dest: decode_rune_pos)

declare json_chars.simps [simp del]

definition json_string :: "string \<Rightarrow> string" where
  "json_string s = CHR 0x22 # json_chars s @ [CHR 0x22]"

text \<open>\<open>jsonStringSize\<close> of \<open>internal/store/codec.go\<close>.\<close>

function json_chars_size :: "string \<Rightarrow> int" where
  "json_chars_size s =
     (case s of [] \<Rightarrow> 0
      | c # r \<Rightarrow>
          if byte_of c < 128 then
            (let x = byte_of c in
             if x = 92 \<or> x = 34 \<or> x = 8 \<or> x = 12 \<or> x = 10 \<or> x = 13 \<or> x = 9 then 2
             else if x = 60 \<or> x = 62 \<or> x = 38 then 6
             else if x < 32 then 6 else 1) + json_chars_size r
          else (case decode_rune s of (rune, width) \<Rightarrow>
                  (if rune = 8232 \<or> rune = 8233 then 6 else int width) + json_chars_size (drop width s)))"
  by pat_completeness auto
termination by (relation "measure length") (auto dest: decode_rune_pos)

declare json_chars_size.simps [simp del]

definition jsonStringSize :: "string \<Rightarrow> int" where
  "jsonStringSize value = 2 + json_chars_size value"

lemma decode_rune_fits:
  assumes "s \<noteq> []" "decode_rune s = (r, n)"
  shows "n \<le> length s"
  using assms by (auto simp: decode_rune_def Let_def split: list.splits if_splits)

lemma json_chars_size_eq: "utf8_valid s \<Longrightarrow> json_chars_size s = int (length (json_chars s))"
proof (induction s rule: json_chars.induct)
  case (1 s)
  show ?case
  proof (cases s)
    case Nil
    then show ?thesis by (simp add: json_chars.simps json_chars_size.simps)
  next
    case (Cons c r)
    show ?thesis
    proof (cases "byte_of c < 128")
      case True
      with Cons 1 have "json_chars_size r = int (length (json_chars r))" by simp
      with True Cons show ?thesis
        by (subst json_chars.simps, subst json_chars_size.simps)
          (auto simp: json_ascii_def unicode_escape_def Let_def)
    next
      case False
      obtain rune width where d: "decode_rune s = (rune, width)" by (cases "decode_rune s")
      have v: "\<not> (rune = rune_error \<and> width = 1)" "utf8_valid (drop width s)"
        using 1(3) Cons d by (subst (asm) utf8_valid.simps, simp)+
      have "json_chars_size (drop width s) = int (length (json_chars (drop width s)))"
        using 1(2) [OF Cons False d [symmetric] v(2)] .
      moreover have "width \<le> length s" using decode_rune_fits [OF _ d] Cons by simp
      ultimately show ?thesis using False v(1) d Cons
        by (subst json_chars.simps, subst json_chars_size.simps) (auto simp: unicode_escape_def)
    qed
  qed
qed

theorem jsonStringSize_exact: "utf8_valid s \<Longrightarrow> jsonStringSize s = int (length (json_string s))"
  by (simp add: jsonStringSize_def json_string_def json_chars_size_eq)

end
