(* ===== verification/Go_Time.thy ===== *)
theory Go_Time
  imports Text_Codecs
begin

text \<open>
  Go's \<open>time.Time\<close> as the property codec uses it.  A value is its instant and its location; a location is
  \<open>time.UTC\<close>, the process-local zone, or any other zone, and what the codec sees of the last two is the
  location's name and its offset at the instant.  Seconds count from the first of January of year 1.
  \<open>goMarshalBinary\<close> and \<open>goUnmarshalBinary\<close> are the methods of the standard library; the codec
  replaces the location that the latter guesses, so only the instant is returned.
\<close>

datatype place = PUTC | PLocal int | PZone string int

record GoTime =
  gt_seconds :: int
  gt_nanoseconds :: int
  gt_place :: place

fun place_offset :: "place \<Rightarrow> int" where
  "place_offset PUTC = 0"
| "place_offset (PLocal offset) = offset"
| "place_offset (PZone name offset) = offset"

fun place_name :: "place \<Rightarrow> string" where
  "place_name PUTC = ''UTC''"
| "place_name (PLocal offset) = ''Local''"
| "place_name (PZone name offset) = name"

definition goMarshalBinary :: "GoTime \<Rightarrow> string option" where
  "goMarshalBinary t =
     (let instant = be_put 8 (gt_seconds t) @ be_put 4 (gt_nanoseconds t);
          offset = place_offset (gt_place t)
      in if gt_place t = PUTC then Some (CHR 0x01 # instant @ be_put 2 (- 1))
         else let second = offset smod 60; minute = offset sdiv 60
              in if minute < -32768 \<or> minute = -1 \<or> minute > 32767 then None
                 else if second \<noteq> 0
                 then Some (CHR 0x02 # instant @ be_put 2 minute @ [char_of (nat (u8 second))])
                 else Some (CHR 0x01 # instant @ be_put 2 minute))"

text \<open>A nanosecond field of \<open>2^30\<close> or more runs into the other fields of the representation.\<close>

definition goUnmarshalBinary :: "string \<Rightarrow> (int \<times> int) option" where
  "goUnmarshalBinary data =
     (if data = [] then None
      else if hd data \<noteq> CHR 0x01 \<and> hd data \<noteq> CHR 0x02 then None
      else if length data \<noteq> (if hd data = CHR 0x02 then 16 else 15) then None
      else let seconds = i64 (be_get (take 8 (drop 1 data)));
               nanoseconds = be_get (take 4 (drop 9 data))
           in if nanoseconds < 2147483648 then Some (seconds, nanoseconds mod 1073741824)
              else Some (59453308800 + 8589934590 + nanoseconds div 1073741824 mod 2, nanoseconds mod 1073741824))"

lemma goMarshalBinary_length:
  "goMarshalBinary t = Some data \<Longrightarrow> length data = 15 \<or> length data = 16"
  by (auto simp: goMarshalBinary_def Let_def split: if_splits)

lemma goUnmarshal_instant:
  assumes "in64 seconds" "0 \<le> nanoseconds" "nanoseconds < 1000000000"
    "length rest = 2 \<and> v = CHR 0x01 \<or> length rest = 3 \<and> v = CHR 0x02"
  shows "goUnmarshalBinary (v # (be_put 8 seconds @ be_put 4 nanoseconds) @ rest) = Some (seconds, nanoseconds)"
proof -
  have "be_get (be_put 4 nanoseconds) = nanoseconds" using assms(2,3) by (simp add: be_get_put)
  with assms show ?thesis by (auto simp: goUnmarshalBinary_def i64_be_get_put)
qed

lemma goMarshal_roundtrip:
  assumes "goMarshalBinary t = Some data" "in64 (gt_seconds t)" "0 \<le> gt_nanoseconds t" "gt_nanoseconds t < 1000000000"
  shows "goUnmarshalBinary data = Some (gt_seconds t, gt_nanoseconds t)"
  using assms(1) goUnmarshal_instant [OF assms(2-4)]
  by (auto simp: goMarshalBinary_def Let_def split: if_splits)

end
