(* ===== verification/Codec.thy ===== *)
theory Codec
  imports Go_Time
begin

text \<open>
  The property and label codec of \<open>internal/store/codec.go\<close>.

  \<open>pvalue\<close> is a Go property value by its dynamic type: a nil of any kind is \<open>VNull\<close>, every signed integer
  type is \<open>VInt\<close>, every unsigned one \<open>VUint\<close>, a float is its 64-bit pattern, and a string-keyed map is
  its entries in key order (Go visits them in any order and \<open>encoding/json\<close> writes them in this one).
  \<open>encodedValue\<close> is the struct of the same name.  A stored property blob is its tree; \<open>json_marshal\<close> gives
  its bytes.  Not modelled: the tokenising passes over JSON input and the cycle check, which concerns
  pointer cycles that a finite value cannot have.
\<close>

section \<open>Values and their encoding\<close>

datatype pvalue =
    VNull
  | VBool bool
  | VString string
  | VBytes string
  | VDate Date
  | VLocalTime LocalTime
  | VTime Time
  | VLocalDateTime LocalDateTime
  | VDateTime DateTime
  | VDuration Duration
  | VGoTime GoTime
  | VGoDuration int
  | VInt int
  | VUint int
  | VFloat int
  | VList "pvalue list"
  | VMap "(string \<times> pvalue) list"

datatype encodedValue =
  EncodedValue (ev_kind: string) (ev_bool: bool) (ev_text: string) (ev_zone: string) (ev_offset: int)
    (ev_items: "encodedValue list") (ev_map: "(string \<times> encodedValue) list")

definition ev_of :: "string \<Rightarrow> string \<Rightarrow> encodedValue" where
  "ev_of kind txt = EncodedValue kind False txt [] 0 [] []"

section \<open>JSON size and text\<close>

definition add_field :: "string \<Rightarrow> int \<Rightarrow> int \<times> nat \<Rightarrow> int \<times> nat" where
  "add_field name valueSize acc =
     (case acc of (total_size, nfields) \<Rightarrow>
        ((if nfields > 0 then total_size + 1 else total_size) + (jsonStringSize name + 1 + valueSize), nfields + 1))"

definition bracket_size :: "int list \<Rightarrow> int" where
  "bracket_size sizes = 2 + sum_list sizes + (if sizes = [] then 0 else int (length sizes) - 1)"

fun canonicalEncodedValueSize :: "encodedValue \<Rightarrow> int" where
  "canonicalEncodedValueSize (EncodedValue k b t z u items m) =
     (let acc = add_field ''k'' (jsonStringSize k) (2, 0);
          acc = (if b then add_field ''b'' 4 acc else acc);
          acc = (if t \<noteq> [] then add_field ''s'' (jsonStringSize t) acc else acc);
          acc = (if z \<noteq> [] then add_field ''z'' (jsonStringSize z) acc else acc);
          acc = (if u \<noteq> 0 then add_field ''u'' (int (length (format_int 0 u))) acc else acc);
          acc = (if items \<noteq> [] then add_field ''a'' (bracket_size (map canonicalEncodedValueSize items)) acc else acc);
          acc = (if m \<noteq> [] then add_field ''o''
                   (bracket_size (map (\<lambda>(key, item). jsonStringSize key + 1 + canonicalEncodedValueSize item) m)) acc
                 else acc)
      in fst acc)"

fun join_comma :: "string list \<Rightarrow> string" where
  "join_comma [] = []"
| "join_comma [x] = x"
| "join_comma (x # y # xs) = x @ CHR '','' # join_comma (y # xs)"

definition json_field :: "string \<Rightarrow> string \<Rightarrow> string" where
  "json_field name value = json_string name @ CHR '':'' # value"

text \<open>\<open>json.Marshal\<close> of an \<open>encodedValue\<close>: the fields in struct order, empty ones omitted.\<close>

fun json_marshal :: "encodedValue \<Rightarrow> string" where
  "json_marshal (EncodedValue k b t z u items m) =
     CHR ''{'' # join_comma
       ([json_field ''k'' (json_string k)] @
        (if b then [json_field ''b'' ''true''] else []) @
        (if t \<noteq> [] then [json_field ''s'' (json_string t)] else []) @
        (if z \<noteq> [] then [json_field ''z'' (json_string z)] else []) @
        (if u \<noteq> 0 then [json_field ''u'' (format_int 0 u)] else []) @
        (if items \<noteq> [] then [json_field ''a'' (CHR ''['' # join_comma (map json_marshal items) @ '']'')] else []) @
        (if m \<noteq> [] then [json_field ''o'' (CHR ''{'' # join_comma
            (map (\<lambda>(key, item). json_field key (json_marshal item)) m) @ ''}'')] else [])) @ ''}''"

section \<open>Shape and index budget\<close>

definition validateEncodedShape :: "encodedValue \<Rightarrow> derror + unit" where
  "validateEncodedShape v =
     (let noBool = (\<not> ev_bool v); noText = (ev_text v = []); noZone = (ev_zone v = [] \<and> ev_offset v = 0);
          noItems = (ev_items v = []); noMap = (ev_map v = []); k = ev_kind v;
          valid =
            (if k = ''null'' then noBool \<and> noText \<and> noZone \<and> noItems \<and> noMap
             else if k = ''bool'' then noText \<and> noZone \<and> noItems \<and> noMap
             else if k \<in> {''string'', ''bytes'', ''duration'', ''int'', ''float'', ''date'', ''local_time'', ''offset_time'',
                          ''local_datetime'', ''zoned_datetime'', ''cypher_duration''}
                  then noBool \<and> noZone \<and> noItems \<and> noMap
             else if k = ''time'' then noBool \<and> noItems \<and> noMap
             else if k = ''list'' then noBool \<and> noText \<and> noZone \<and> noMap
             else if k = ''map'' then noBool \<and> noText \<and> noZone \<and> noItems
             else False)
      in if valid then Inr () else Inl PlainError)"

text \<open>The budget of the derived index counts the top-level entries that are neither maps nor lists.\<close>

definition indexed_entries :: "(string \<times> encodedValue) list \<Rightarrow> (string \<times> encodedValue) list" where
  "indexed_entries m = filter (\<lambda>(key, property). \<not> (ev_kind property = ''map'' \<or> ev_kind property = ''list'')) m"

definition validateEncodedIndexBudget :: "encodedValue \<Rightarrow> derror + unit" where
  "validateEncodedIndexBudget value =
     bindE (validateEncodedShape value) (\<lambda>_.
       if ev_kind value \<noteq> ''map'' then Inr ()
       else bindE (mapE (\<lambda>(key, property). validateEncodedShape property) (ev_map value)) (\<lambda>_.
              let indexed = indexed_entries (ev_map value);
                  count = int (length indexed);
                  payloadBytes = sum_list (map (\<lambda>(key, property).
                    int (length key) + canonicalEncodedValueSize property) indexed)
              in if count > MaxIndexedPropertiesPerVersion
                 then Inl (ResourceLimitError ''indexed properties'' ''values'' MaxIndexedPropertiesPerVersion count)
                 else if payloadBytes > MaxDerivedPropertyBytesPerVersion
                 then Inl (ResourceLimitError ''derived property index'' ''bytes'' MaxDerivedPropertyBytesPerVersion payloadBytes)
                 else Inr ()))"

section \<open>Encoding\<close>

record encodeState =
  enc_values :: int
  enc_base64 :: int

definition reserveEncodedBytes :: "encodeState \<Rightarrow> nat \<Rightarrow> derror + encodeState" where
  "reserveEncodedBytes s len =
     (let encodedBytes = int (b64_len len)
      in if enc_base64 s > MaxCanonicalPropertyBytes - encodedBytes
         then Inl (ResourceLimitError ''aggregate encoded property byte strings'' ''bytes''
                     MaxCanonicalPropertyBytes (enc_base64 s + encodedBytes))
         else Inr (s\<lparr>enc_base64 := enc_base64 s + encodedBytes\<rparr>))"

definition encodeBytes :: "encodeState \<Rightarrow> string \<Rightarrow> derror + encodedValue \<times> encodeState" where
  "encodeBytes s value =
     bindE (ValidateBytes ''property byte string'' value MaxPropertyScalarBytes) (\<lambda>_.
     bindE (reserveEncodedBytes s (length value)) (\<lambda>s.
       Inr (ev_of ''bytes'' (b64_encode value), s)))"

definition reserveChildren :: "string \<Rightarrow> int \<Rightarrow> nat \<Rightarrow> derror + unit" where
  "reserveChildren field values children =
     (if int children > MaxPropertyValues - values
      then Inl (ResourceLimitError field ''values'' MaxPropertyValues (values + int children)) else Inr ())"

definition encodeTemporalBinary :: "string \<Rightarrow> terror + string \<Rightarrow> derror + encodedValue" where
  "encodeTemporalBinary kind marshal =
     (case marshal of Inl _ \<Rightarrow> Inl PlainError | Inr data \<Rightarrow> Inr (ev_of kind (b64_encode data)))"

definition integerValue :: "int \<Rightarrow> encodedValue" where
  "integerValue v = ev_of ''int'' (format_int 0 v)"

definition floatValue :: "int \<Rightarrow> encodedValue" where
  "floatValue bits = ev_of ''float'' (hex_text (nat bits))"

text \<open>A \<open>time.Time\<close>: the process-local zone is written as the tag \<open>Local\<close>, an unnamed offset as the empty name,
  and both are marshalled in a fixed zone.  Decoding chooses a location by its name: \<open>UTC\<close> loads \<open>time.UTC\<close>,
  whose offset must agree, and any other name, whether it loads or not, gives that name with the written
  offset at the instant.\<close>

definition canonicalFixedZonePrefix :: string where
  "canonicalFixedZonePrefix = ''sheets-fixed-offset:''"

definition canonicalFixedZone :: "int \<Rightarrow> string" where
  "canonicalFixedZone offset = canonicalFixedZonePrefix @ format_int 0 offset"

definition isCanonicalFixedZone :: "string \<Rightarrow> bool" where
  "isCanonicalFixedZone name \<longleftrightarrow> take (length canonicalFixedZonePrefix) name = canonicalFixedZonePrefix"

definition wireTime :: "GoTime \<Rightarrow> string \<times> GoTime" where
  "wireTime v =
     (let offset = place_offset (gt_place v);
          locationName = place_name (gt_place v);
          fixed = v\<lparr>gt_place := PZone (canonicalFixedZone offset) offset\<rparr>
      in if locationName = ''Local'' then (''Local'', fixed)
         else if locationName = [] \<or> isCanonicalFixedZone locationName then ([], fixed)
         else (locationName, v))"

definition encodeGoTime :: "GoTime \<Rightarrow> derror + encodedValue" where
  "encodeGoTime v =
     (case wireTime v of (wireZone, v') \<Rightarrow>
        case goMarshalBinary v' of
          None \<Rightarrow> Inl PlainError
        | Some data \<Rightarrow>
            bindE (ValidateText ''time zone name'' wireZone MaxTimeZoneNameBytes) (\<lambda>_.
              Inr (EncodedValue ''time'' False (b64_encode data) wireZone (place_offset (gt_place v)) [] [])))"

definition decodeGoTime :: "string \<Rightarrow> string \<Rightarrow> int \<Rightarrow> derror + GoTime" where
  "decodeGoTime txt zone offset =
     bindE (ValidateText ''time zone name'' zone MaxTimeZoneNameBytes) (\<lambda>_.
       case b64_decode txt of
         None \<Rightarrow> Inl PlainError
       | Some data \<Rightarrow>
           (case goUnmarshalBinary data of
              None \<Rightarrow> Inl PlainError
            | Some (seconds, nanoseconds) \<Rightarrow>
                Inr \<lparr>gt_seconds = seconds, gt_nanoseconds = nanoseconds,
                     gt_place = (if zone = ''Local'' then PZone ''Local'' offset
                                 else if zone = ''UTC'' \<and> offset = 0 then PUTC
                                 else if zone \<noteq> [] then PZone zone offset
                                 else PZone (canonicalFixedZone offset) offset)\<rparr>))"

definition encodeScalar :: "encodeState \<Rightarrow> pvalue \<Rightarrow> derror + encodedValue \<times> encodeState" where
  "encodeScalar s v =
     (let keep = (\<lambda>r. bindE r (\<lambda>e. Inr (e, s)))
      in case v of
           VBool b \<Rightarrow> Inr (EncodedValue ''bool'' b [] [] 0 [] [], s)
         | VString t \<Rightarrow>
             bindE (ValidateText ''property string'' t MaxPropertyScalarBytes) (\<lambda>_. Inr (ev_of ''string'' t, s))
         | VBytes t \<Rightarrow> encodeBytes s t
         | VDate d \<Rightarrow> keep (encodeTemporalBinary ''date'' (DateMarshalBinary d))
         | VLocalTime t \<Rightarrow> keep (encodeTemporalBinary ''local_time'' (LocalTimeMarshalBinary t))
         | VTime t \<Rightarrow> keep (encodeTemporalBinary ''offset_time'' (TimeMarshalBinary t))
         | VLocalDateTime d \<Rightarrow> keep (encodeTemporalBinary ''local_datetime'' (LocalDateTimeMarshalBinary d))
         | VDateTime d \<Rightarrow> keep (encodeTemporalBinary ''zoned_datetime'' (DateTimeMarshalBinary d))
         | VDuration d \<Rightarrow> keep (encodeTemporalBinary ''cypher_duration'' (DurationMarshalBinary d))
         | VGoTime t \<Rightarrow> keep (encodeGoTime t)
         | VGoDuration n \<Rightarrow> Inr (ev_of ''duration'' (format_int 0 n), s)
         | VInt n \<Rightarrow> Inr (integerValue n, s)
         | VUint n \<Rightarrow> if n > 9223372036854775807 then Inl PlainError else Inr (integerValue n, s)
         | VFloat bits \<Rightarrow> Inr (floatValue bits, s)
         | _ \<Rightarrow> Inr (ev_of ''null'' [], s))"

fun encodeValue :: "encodeState \<Rightarrow> int \<Rightarrow> pvalue \<Rightarrow> derror + encodedValue \<times> encodeState"
and encodeListItems :: "encodeState \<Rightarrow> int \<Rightarrow> pvalue list \<Rightarrow> derror + encodedValue list \<times> encodeState"
and encodeMapItems :: "encodeState \<Rightarrow> int \<Rightarrow> (string \<times> pvalue) list \<Rightarrow>
       derror + (string \<times> encodedValue) list \<times> encodeState" where
  "encodeValue s depth v =
     (if depth > MaxPropertyDepth then Inl PlainError
      else let s = s\<lparr>enc_values := enc_values s + 1\<rparr>
           in if enc_values s > MaxPropertyValues then Inl PlainError
              else case v of
                     VList vs \<Rightarrow>
                       bindE (reserveChildren ''property list'' (enc_values s) (length vs)) (\<lambda>_.
                       bindE (encodeListItems s (depth + 1) vs) (\<lambda>(items, s).
                         Inr (EncodedValue ''list'' False [] [] 0 items [], s)))
                   | VMap m \<Rightarrow>
                       bindE (reserveChildren ''property map'' (enc_values s) (length m)) (\<lambda>_.
                       bindE (encodeMapItems s (depth + 1) m) (\<lambda>(out, s).
                         Inr (EncodedValue ''map'' False [] [] 0 [] out, s)))
                   | _ \<Rightarrow> encodeScalar s v)"
| "encodeListItems s depth [] = Inr ([], s)"
| "encodeListItems s depth (v # vs) =
     bindE (encodeValue s depth v) (\<lambda>(e, s).
     bindE (encodeListItems s depth vs) (\<lambda>(es, s). Inr (e # es, s)))"
| "encodeMapItems s depth [] = Inr ([], s)"
| "encodeMapItems s depth ((key, v) # m) =
     bindE (ValidateText ''property map key'' key MaxPropertyKeyBytes) (\<lambda>_.
     bindE (encodeValue s depth v) (\<lambda>(e, s).
     bindE (encodeMapItems s depth m) (\<lambda>(es, s). Inr ((key, e) # es, s))))"

declare encodeValue.simps [simp del]

section \<open>Decoding\<close>

definition decodeTemporalBinary :: "string \<Rightarrow> nat \<Rightarrow> nat \<Rightarrow> (string \<Rightarrow> terror + 'a) \<Rightarrow> derror + 'a" where
  "decodeTemporalBinary txt minimumBytes maximumBytes dec =
     (if length txt < b64_len minimumBytes \<or> length txt > b64_len maximumBytes then Inl PlainError
      else case b64_decode txt of
             None \<Rightarrow> Inl PlainError
           | Some data \<Rightarrow> (case dec data of Inl _ \<Rightarrow> Inl PlainError | Inr value \<Rightarrow> Inr value))"

definition decodeScalar :: "encodedValue \<Rightarrow> derror + pvalue" where
  "decodeScalar v =
     (let t = ev_text v; k = ev_kind v
      in if k = ''null'' then Inr VNull
         else if k = ''bool'' then Inr (VBool (ev_bool v))
         else if k = ''string'' then
           bindE (ValidateText ''property string'' t MaxPropertyScalarBytes) (\<lambda>_. Inr (VString t))
         else if k = ''bytes'' then
           (if length t > b64_len (nat MaxPropertyScalarBytes)
            then Inl (ResourceLimitError ''encoded property byte string'' ''bytes''
                        (int (b64_len (nat MaxPropertyScalarBytes))) (int (length t)))
            else case b64_decode t of
                   None \<Rightarrow> Inl PlainError
                 | Some data \<Rightarrow>
                     bindE (ValidateBytes ''property byte string'' data MaxPropertyScalarBytes) (\<lambda>_. Inr (VBytes data)))
         else if k = ''date'' then bindE (decodeTemporalBinary t 7 7 DateFromBinary) (\<lambda>x. Inr (VDate x))
         else if k = ''local_time'' then bindE (decodeTemporalBinary t 9 9 LocalTimeFromBinary) (\<lambda>x. Inr (VLocalTime x))
         else if k = ''offset_time'' then bindE (decodeTemporalBinary t 13 13 TimeFromBinary) (\<lambda>x. Inr (VTime x))
         else if k = ''local_datetime'' then
           bindE (decodeTemporalBinary t 15 15 LocalDateTimeFromBinary) (\<lambda>x. Inr (VLocalDateTime x))
         else if k = ''zoned_datetime'' then
           bindE (decodeTemporalBinary t 20 65555 DateTimeFromBinary) (\<lambda>x. Inr (VDateTime x))
         else if k = ''cypher_duration'' then
           bindE (decodeTemporalBinary t 29 29 DurationFromBinary) (\<lambda>x. Inr (VDuration x))
         else if k = ''time'' then
           bindE (decodeGoTime t (ev_zone v) (ev_offset v)) (\<lambda>x. Inr (VGoTime x))
         else if k = ''duration'' then
           (case parse_int64 t of None \<Rightarrow> Inl PlainError | Some n \<Rightarrow> Inr (VGoDuration n))
         else if k = ''int'' then (case parse_int64 t of None \<Rightarrow> Inl PlainError | Some n \<Rightarrow> Inr (VInt n))
         else if k = ''float'' then (case parse_hex64 t of None \<Rightarrow> Inl PlainError | Some bits \<Rightarrow> Inr (VFloat bits))
         else Inl PlainError)"

fun decodeValue :: "int \<Rightarrow> int \<Rightarrow> encodedValue \<Rightarrow> derror + pvalue \<times> int"
and decodeListItems :: "int \<Rightarrow> int \<Rightarrow> encodedValue list \<Rightarrow> derror + pvalue list \<times> int"
and decodeMapItems :: "int \<Rightarrow> int \<Rightarrow> (string \<times> encodedValue) list \<Rightarrow> derror + (string \<times> pvalue) list \<times> int" where
  "decodeValue values depth (EncodedValue k b t z u items m) =
     (if depth > MaxPropertyDepth then Inl PlainError
      else let values = values + 1
           in if values > MaxPropertyValues then Inl PlainError
              else bindE (validateEncodedShape (EncodedValue k b t z u items m)) (\<lambda>_.
                     if k = ''list'' then
                       bindE (reserveChildren ''decoded property list'' values (length items)) (\<lambda>_.
                       bindE (decodeListItems values (depth + 1) items) (\<lambda>(vs, values). Inr (VList vs, values)))
                     else if k = ''map'' then
                       bindE (reserveChildren ''decoded property map'' values (length m)) (\<lambda>_.
                       bindE (decodeMapItems values (depth + 1) m) (\<lambda>(vs, values). Inr (VMap vs, values)))
                     else bindE (decodeScalar (EncodedValue k b t z u items m)) (\<lambda>v. Inr (v, values))))"
| "decodeListItems values depth [] = Inr ([], values)"
| "decodeListItems values depth (e # es) =
     bindE (decodeValue values depth e) (\<lambda>(v, values).
     bindE (decodeListItems values depth es) (\<lambda>(vs, values). Inr (v # vs, values)))"
| "decodeMapItems values depth [] = Inr ([], values)"
| "decodeMapItems values depth ((key, e) # m) =
     bindE (ValidateText ''property map key'' key MaxPropertyKeyBytes) (\<lambda>_.
     bindE (decodeValue values depth e) (\<lambda>(v, values).
     bindE (decodeMapItems values depth m) (\<lambda>(vs, values). Inr ((key, v) # vs, values))))"

declare decodeValue.simps [simp del]

end
