(* ===== verification/Codec_Facts.thy ===== *)
theory Codec_Facts
  imports Codec
begin

text \<open>
  Facts on the property codec: the size computed before marshalling is the size of the marshalled
  text, and decoding an encoded value gives the value back (unsigned integers as signed ones) while
  both passes count the same number of values.
\<close>

section \<open>The size computed is the size written\<close>

fun ev_utf8 :: "encodedValue \<Rightarrow> bool" where
  "ev_utf8 (EncodedValue k b t z u items m) \<longleftrightarrow>
     utf8_valid k \<and> utf8_valid t \<and> utf8_valid z \<and> list_all ev_utf8 items \<and>
     list_all (\<lambda>(key, item). utf8_valid key \<and> ev_utf8 item) m"

lemma join_comma_snoc: "P \<noteq> [] \<Longrightarrow> join_comma (P @ [x]) = join_comma P @ CHR '','' # x"
  by (induction P rule: join_comma.induct) auto

lemma length_join_comma:
  "int (length (join_comma P)) = sum_list (map (int \<circ> length) P) + (if P = [] then 0 else int (length P) - 1)"
  by (induction P rule: join_comma.induct) auto

definition sized :: "int \<times> nat \<Rightarrow> string list \<Rightarrow> bool" where
  "sized acc P \<longleftrightarrow> P \<noteq> [] \<and> fst acc = 2 + int (length (join_comma P)) \<and> snd acc = length P"

lemma length_json_field: "utf8_valid name \<Longrightarrow>
    int (length (json_field name v)) = jsonStringSize name + 1 + int (length v)"
  by (simp add: json_field_def jsonStringSize_exact)

lemma sized_add:
  assumes "sized acc P" "utf8_valid name" "n = int (length v)"
  shows "sized (add_field name n acc) (P @ [json_field name v])"
  using assms length_json_field [of name v]
  by (cases acc) (auto simp: sized_def add_field_def join_comma_snoc)

lemma sized_add_if:
  assumes "sized acc P" "utf8_valid name" "c \<Longrightarrow> n = int (length v)"
  shows "sized (if c then add_field name n acc else acc) (P @ (if c then [json_field name v] else []))"
  using assms sized_add by simp

lemma sized_first:
  assumes "utf8_valid name" "n = int (length v)"
  shows "sized (add_field name n (2, 0)) [json_field name v]"
  using assms length_json_field [of name v] by (simp add: sized_def add_field_def)

lemma utf8_valid_names: "utf8_valid ''k''" "utf8_valid ''b''" "utf8_valid ''s''" "utf8_valid ''z''"
  "utf8_valid ''u''" "utf8_valid ''a''" "utf8_valid ''o''"
  by (simp_all add: byte_of_def)

lemma bracket_size_length:
  assumes "list_all2 (\<lambda>n v. n = int (length v)) ns vs"
  shows "bracket_size ns = int (length (CHR ''['' # join_comma vs @ '']''))"
    "bracket_size ns = int (length (CHR ''{'' # join_comma vs @ ''}''))"
proof -
  have "sum_list ns = sum_list (map (int \<circ> length) vs)" using assms by (induction) auto
  moreover have "length ns = length vs" using assms by (rule list_all2_lengthD)
  ultimately show "bracket_size ns = int (length (CHR ''['' # join_comma vs @ '']''))"
    "bracket_size ns = int (length (CHR ''{'' # join_comma vs @ ''}''))"
    by (auto simp: bracket_size_def length_join_comma)
qed

theorem canonicalEncodedValueSize_exact:
  "ev_utf8 v \<Longrightarrow> canonicalEncodedValueSize v = int (length (json_marshal v))"
proof (induction v rule: canonicalEncodedValueSize.induct)
  case (1 k b t z u items m)
  have u: "utf8_valid k" "utf8_valid t" "utf8_valid z" using "1.prems" by simp_all
  have iu: "list_all2 (\<lambda>n v. n = int (length v)) (map canonicalEncodedValueSize items) (map json_marshal items)"
    if "items \<noteq> []"
    using "1.IH"(1) "1.prems" that by (auto simp: list_all2_conv_all_nth list_all_length)
  have mu: "list_all2 (\<lambda>n v. n = int (length v))
      (map (\<lambda>(key, item). jsonStringSize key + 1 + canonicalEncodedValueSize item) m)
      (map (\<lambda>(key, item). json_field key (json_marshal item)) m)" if "m \<noteq> []"
  proof -
    have "jsonStringSize key + 1 + canonicalEncodedValueSize item = int (length (json_field key (json_marshal item)))"
      if x: "(key, item) \<in> set m" for key item
    proof -
      have "utf8_valid key" "ev_utf8 item" using "1.prems" x by (auto simp: list_all_iff)
      moreover from this have "canonicalEncodedValueSize item = int (length (json_marshal item))"
        using "1.IH"(2) \<open>m \<noteq> []\<close> x by fastforce
      ultimately show ?thesis by (simp add: length_json_field)
    qed
    then show ?thesis by (auto simp: list_all2_conv_all_nth split: prod.splits) (metis nth_mem)
  qed
  have "sized (let acc = add_field ''k'' (jsonStringSize k) (2, 0);
          acc = (if b then add_field ''b'' 4 acc else acc);
          acc = (if t \<noteq> [] then add_field ''s'' (jsonStringSize t) acc else acc);
          acc = (if z \<noteq> [] then add_field ''z'' (jsonStringSize z) acc else acc);
          acc = (if u \<noteq> 0 then add_field ''u'' (int (length (format_int 0 u))) acc else acc);
          acc = (if items \<noteq> [] then add_field ''a'' (bracket_size (map canonicalEncodedValueSize items)) acc else acc);
          acc = (if m \<noteq> [] then add_field ''o''
                   (bracket_size (map (\<lambda>(key, item). jsonStringSize key + 1 + canonicalEncodedValueSize item) m)) acc
                 else acc) in acc)
      (((((([json_field ''k'' (json_string k)] @
        (if b then [json_field ''b'' ''true''] else [])) @
        (if t \<noteq> [] then [json_field ''s'' (json_string t)] else [])) @
        (if z \<noteq> [] then [json_field ''z'' (json_string z)] else [])) @
        (if u \<noteq> 0 then [json_field ''u'' (format_int 0 u)] else [])) @
        (if items \<noteq> [] then [json_field ''a'' (CHR ''['' # join_comma (map json_marshal items) @ '']'')] else [])) @
        (if m \<noteq> [] then [json_field ''o'' (CHR ''{'' # join_comma
            (map (\<lambda>(key, item). json_field key (json_marshal item)) m) @ ''}'')] else []))" (is "sized ?acc ?P")
    unfolding Let_def
    by (intro sized_add_if sized_first utf8_valid_names jsonStringSize_exact u refl
        bracket_size_length(1) [OF iu] bracket_size_length(2) [OF mu]) simp_all
  then have "fst ?acc = int (length (CHR ''{'' # join_comma ?P @ ''}''))" by (simp add: sized_def)
  then show ?case unfolding canonicalEncodedValueSize.simps json_marshal.simps Let_def append_assoc by simp
qed

section \<open>Values that can be stored\<close>

fun wf_value :: "pvalue \<Rightarrow> bool" where
  "wf_value (VDate d) \<longleftrightarrow> valid_date d"
| "wf_value (VLocalTime t) \<longleftrightarrow> valid_local_time t"
| "wf_value (VTime t) \<longleftrightarrow> valid_time t"
| "wf_value (VLocalDateTime d) \<longleftrightarrow> valid_ldt d"
| "wf_value (VDateTime d) \<longleftrightarrow> valid_datetime d"
| "wf_value (VDuration d) \<longleftrightarrow> valid_duration d"
| "wf_value (VGoTime t) \<longleftrightarrow> in64 (gt_seconds t) \<and> 0 \<le> gt_nanoseconds t \<and> gt_nanoseconds t < 1000000000"
| "wf_value (VGoDuration n) \<longleftrightarrow> in64 n"
| "wf_value (VInt n) \<longleftrightarrow> in64 n"
| "wf_value (VUint n) \<longleftrightarrow> 0 \<le> n"
| "wf_value (VFloat bits) \<longleftrightarrow> 0 \<le> bits \<and> bits < 18446744073709551616"
| "wf_value (VList vs) \<longleftrightarrow> list_all wf_value vs"
| "wf_value (VMap m) \<longleftrightarrow> list_all (\<lambda>(key, v). wf_value v) m"
| "wf_value _ \<longleftrightarrow> True"

text \<open>What a stored value is read back as: every integer type becomes \<open>int64\<close>, and the location of a
  \<open>time.Time\<close> becomes the one its written name and offset select.\<close>

definition norm_place :: "place \<Rightarrow> place" where
  "norm_place p =
     (let name = place_name p; offset = place_offset p
      in if name = ''Local'' then PZone ''Local'' offset
         else if name = [] \<or> isCanonicalFixedZone name then PZone (canonicalFixedZone offset) offset
         else if name = ''UTC'' \<and> offset = 0 then PUTC
         else PZone name offset)"

fun norm_value :: "pvalue \<Rightarrow> pvalue" where
  "norm_value (VUint n) = VInt n"
| "norm_value (VGoTime t) = VGoTime (t\<lparr>gt_place := norm_place (gt_place t)\<rparr>)"
| "norm_value (VList vs) = VList (map norm_value vs)"
| "norm_value (VMap m) = VMap (map (\<lambda>(key, v). (key, norm_value v)) m)"
| "norm_value v = v"

lemma parse_format_int [simp]: "in64 n \<Longrightarrow> parse_int64 (format_int 0 n) = Some n"
proof (cases "n < 0")
  case False
  then show "in64 n \<Longrightarrow> ?thesis"
    using format_int_digits [of n 0] by (simp add: parse_int64_digits)
next
  case True
  assume n: "in64 n"
  have d: "list_all is_digit (nat_text (nat (- n)))" using nat_text_digits by (simp add: list_all_iff)
  have f: "format_int 0 n = CHR ''-'' # nat_text (nat (- n))" using True by (simp add: format_int_def pad0_def)
  show ?thesis using True n d unfolding f by (simp add: parse_int64_def)
qed

lemma decodeTemporal_encode:
  assumes "m \<le> length data" "length data \<le> M" "dec data = Inr x"
  shows "decodeTemporalBinary (b64_encode data) m M dec = Inr x"
  using assms b64_len_mono [of m "length data"] b64_len_mono [of "length data" M]
  by (simp add: decodeTemporalBinary_def)

lemma encodeTemporalBinary_Inr_iff:
  "encodeTemporalBinary k r = Inr e \<longleftrightarrow> (\<exists>data. r = Inr data \<and> e = ev_of k (b64_encode data))"
  by (auto simp: encodeTemporalBinary_def split: sum.splits)

lemma marshal_lengths:
  "DateMarshalBinary d = Inr s \<Longrightarrow> length s = 7"
  "LocalTimeMarshalBinary lt = Inr s \<Longrightarrow> length s = 9"
  "TimeMarshalBinary t = Inr s \<Longrightarrow> length s = 13"
  "LocalDateTimeMarshalBinary l = Inr s \<Longrightarrow> length s = 15"
  "DurationMarshalBinary du = Inr s \<Longrightarrow> length s = 29"
  by (auto simp: DateMarshalBinary_def LocalTimeMarshalBinary_def TimeMarshalBinary_def
      LocalDateTimeMarshalBinary_def DurationMarshalBinary_def bindE_Inr_iff split: if_splits)

lemma DateTimeMarshal_facts:
  "DateTimeMarshalBinary d = Inr s \<Longrightarrow> length (zone_name (dt_zone d)) \<le> 65535 \<and> 20 \<le> length s \<and> length s \<le> 65555"
  by (auto simp: DateTimeMarshalBinary_def bindE_Inr_iff split: if_splits)

definition is_scalar :: "pvalue \<Rightarrow> bool" where
  "is_scalar v \<longleftrightarrow> (case v of VList _ \<Rightarrow> False | VMap _ \<Rightarrow> False | _ \<Rightarrow> True)"

definition text_kinds :: "string set" where
  "text_kinds = {''string'', ''bytes'', ''duration'', ''int'', ''float'', ''date'', ''local_time'', ''offset_time'',
                 ''local_datetime'', ''zoned_datetime'', ''cypher_duration''}"

lemma shape_text: "k \<in> text_kinds \<Longrightarrow> validateEncodedShape (ev_of k t) = Inr ()"
  unfolding validateEncodedShape_def text_kinds_def Let_def ev_of_def by (elim insertE emptyE) simp_all

lemma shape_plain:
  "validateEncodedShape (EncodedValue ''bool'' b [] [] 0 [] []) = Inr ()"
  "validateEncodedShape (ev_of ''null'' []) = Inr ()"
  "validateEncodedShape (EncodedValue ''list'' False [] [] 0 es []) = Inr ()"
  "validateEncodedShape (EncodedValue ''map'' False [] [] 0 [] m) = Inr ()"
  by (simp_all add: validateEncodedShape_def Let_def ev_of_def)

lemma text_kinds_not: "k \<in> text_kinds \<Longrightarrow> k \<noteq> ''list'' \<and> k \<noteq> ''map''"
  unfolding text_kinds_def by (elim insertE emptyE) simp_all

definition scalar_shape :: "encodedValue \<Rightarrow> bool" where
  "scalar_shape e \<longleftrightarrow> validateEncodedShape e = Inr () \<and> ev_kind e \<noteq> ''list'' \<and> ev_kind e \<noteq> ''map'' \<and>
     ev_items e = [] \<and> ev_map e = []"

lemma scalar_shape_text: "k \<in> text_kinds \<Longrightarrow> scalar_shape (ev_of k t)"
  using shape_text [of k t] text_kinds_not [of k] by (simp add: scalar_shape_def ev_of_def)

lemma scalar_shape_time: "scalar_shape (EncodedValue ''time'' False t z u [] [])"
  by (simp add: scalar_shape_def validateEncodedShape_def)

lemma scalar_shape_simps [simp]:
  "scalar_shape (EncodedValue ''bool'' b [] [] 0 [] [])" "scalar_shape (ev_of ''null'' [])"
  "scalar_shape (ev_of ''string'' t)" "scalar_shape (ev_of ''bytes'' t)" "scalar_shape (ev_of ''duration'' t)"
  "scalar_shape (ev_of ''int'' t)" "scalar_shape (ev_of ''float'' t)" "scalar_shape (ev_of ''date'' t)"
  "scalar_shape (ev_of ''local_time'' t)" "scalar_shape (ev_of ''offset_time'' t)"
  "scalar_shape (ev_of ''local_datetime'' t)" "scalar_shape (ev_of ''zoned_datetime'' t)"
  "scalar_shape (ev_of ''cypher_duration'' t)"
  using shape_plain(1) [of b] shape_plain(2)
  by (simp_all add: scalar_shape_def ev_of_def) (simp_all add: scalar_shape_text [unfolded scalar_shape_def ev_of_def] text_kinds_def
      shape_text [unfolded ev_of_def])

lemma encodeGoTime_shape: "encodeGoTime t = Inr e \<Longrightarrow> scalar_shape e"
  by (auto simp: encodeGoTime_def bindE_Inr_iff scalar_shape_time split: prod.splits option.splits)

lemma encodeScalar_shape:
  assumes "encodeScalar s v = Inr (e, s')"
  shows "scalar_shape e \<and> enc_values s' = enc_values s"
  using assms
  by (cases v) (auto simp: encodeScalar_def encodeBytes_def reserveEncodedBytes_def encodeTemporalBinary_Inr_iff
      bindE_Inr_iff integerValue_def floatValue_def Let_def encodeGoTime_shape split: if_splits)

section \<open>Decoding what was encoded\<close>

lemma decodeScalar_kinds:
  "decodeScalar (ev_of ''null'' t) = Inr VNull"
  "decodeScalar (EncodedValue ''bool'' b [] [] 0 [] []) = Inr (VBool b)"
  "decodeScalar (ev_of ''string'' t) = bindE (ValidateText ''property string'' t MaxPropertyScalarBytes) (\<lambda>_. Inr (VString t))"
  "decodeScalar (ev_of ''date'' t) = bindE (decodeTemporalBinary t 7 7 DateFromBinary) (\<lambda>x. Inr (VDate x))"
  "decodeScalar (ev_of ''local_time'' t) = bindE (decodeTemporalBinary t 9 9 LocalTimeFromBinary) (\<lambda>x. Inr (VLocalTime x))"
  "decodeScalar (ev_of ''offset_time'' t) = bindE (decodeTemporalBinary t 13 13 TimeFromBinary) (\<lambda>x. Inr (VTime x))"
  "decodeScalar (ev_of ''local_datetime'' t) =
     bindE (decodeTemporalBinary t 15 15 LocalDateTimeFromBinary) (\<lambda>x. Inr (VLocalDateTime x))"
  "decodeScalar (ev_of ''zoned_datetime'' t) = bindE (decodeTemporalBinary t 20 65555 DateTimeFromBinary) (\<lambda>x. Inr (VDateTime x))"
  "decodeScalar (ev_of ''cypher_duration'' t) = bindE (decodeTemporalBinary t 29 29 DurationFromBinary) (\<lambda>x. Inr (VDuration x))"
  "decodeScalar (EncodedValue ''time'' False t z u [] []) = bindE (decodeGoTime t z u) (\<lambda>x. Inr (VGoTime x))"
  "decodeScalar (ev_of ''duration'' t) = (case parse_int64 t of None \<Rightarrow> Inl PlainError | Some n \<Rightarrow> Inr (VGoDuration n))"
  "decodeScalar (ev_of ''int'' t) = (case parse_int64 t of None \<Rightarrow> Inl PlainError | Some n \<Rightarrow> Inr (VInt n))"
  "decodeScalar (ev_of ''float'' t) = (case parse_hex64 t of None \<Rightarrow> Inl PlainError | Some bits \<Rightarrow> Inr (VFloat bits))"
  by (simp_all add: decodeScalar_def ev_of_def)

lemma decodeScalar_bytes:
  "length t \<le> b64_len (nat MaxPropertyScalarBytes) \<Longrightarrow> b64_decode t = Some data \<Longrightarrow>
   decodeScalar (ev_of ''bytes'' t) =
     bindE (ValidateBytes ''property byte string'' data MaxPropertyScalarBytes) (\<lambda>_. Inr (VBytes data))"
  by (simp add: decodeScalar_def ev_of_def)

lemma decodeGoTime_encode:
  assumes e: "encodeGoTime t = Inr e" and w: "in64 (gt_seconds t)" "0 \<le> gt_nanoseconds t" "gt_nanoseconds t < 1000000000"
  shows "decodeScalar e = Inr (VGoTime (t\<lparr>gt_place := norm_place (gt_place t)\<rparr>))"
proof -
  obtain z t' data where z: "wireTime t = (z, t')" "goMarshalBinary t' = Some data"
    "ValidateText ''time zone name'' z MaxTimeZoneNameBytes = Inr ()"
    "e = EncodedValue ''time'' False (b64_encode data) z (place_offset (gt_place t)) [] []"
    using e by (auto simp: encodeGoTime_def bindE_Inr_iff split: prod.splits option.splits)
  have i: "gt_seconds t' = gt_seconds t" "gt_nanoseconds t' = gt_nanoseconds t"
    using z(1) by (auto simp: wireTime_def Let_def split: if_splits)
  have p: "(if z = ''Local'' then PZone ''Local'' (place_offset (gt_place t))
     else if z = ''UTC'' \<and> place_offset (gt_place t) = 0 then PUTC
     else if z \<noteq> [] then PZone z (place_offset (gt_place t))
     else PZone (canonicalFixedZone (place_offset (gt_place t))) (place_offset (gt_place t))) = norm_place (gt_place t)"
    using z(1) by (auto simp: wireTime_def Let_def norm_place_def split: if_splits)
  show ?thesis
    using goMarshal_roundtrip [OF z(2)] w
    unfolding z(4) decodeScalar_kinds decodeGoTime_def z(3) p
    by (simp add: i)
qed

end
