(* ===== verification/Codec_Roundtrip.thy ===== *)
theory Codec_Roundtrip
  imports Codec_Facts
begin

text \<open>
  Every value that encodes decodes to its normal form, with the same count of values.
\<close>

lemma decodeScalar_temporal:
  "DateMarshalBinary d = Inr data \<Longrightarrow> valid_date d \<Longrightarrow> decodeScalar (ev_of ''date'' (b64_encode data)) = Inr (VDate d)"
  "LocalTimeMarshalBinary lt = Inr data \<Longrightarrow> valid_local_time lt \<Longrightarrow>
     decodeScalar (ev_of ''local_time'' (b64_encode data)) = Inr (VLocalTime lt)"
  "TimeMarshalBinary t = Inr data \<Longrightarrow> valid_time t \<Longrightarrow> decodeScalar (ev_of ''offset_time'' (b64_encode data)) = Inr (VTime t)"
  "LocalDateTimeMarshalBinary l = Inr data \<Longrightarrow> valid_ldt l \<Longrightarrow>
     decodeScalar (ev_of ''local_datetime'' (b64_encode data)) = Inr (VLocalDateTime l)"
  "DurationMarshalBinary du = Inr data \<Longrightarrow> valid_duration du \<Longrightarrow>
     decodeScalar (ev_of ''cypher_duration'' (b64_encode data)) = Inr (VDuration du)"
  "DateTimeMarshalBinary z = Inr data \<Longrightarrow> valid_datetime z \<Longrightarrow>
     decodeScalar (ev_of ''zoned_datetime'' (b64_encode data)) = Inr (VDateTime z)"
proof -
  show "DateMarshalBinary d = Inr data \<Longrightarrow> valid_date d \<Longrightarrow> decodeScalar (ev_of ''date'' (b64_encode data)) = Inr (VDate d)"
    using decodeTemporal_encode [of 7 data 7 DateFromBinary d] marshal_lengths(1) [of d data] Date_roundtrip [of d]
    by (simp add: decodeScalar_kinds)
  show "LocalTimeMarshalBinary lt = Inr data \<Longrightarrow> valid_local_time lt \<Longrightarrow>
     decodeScalar (ev_of ''local_time'' (b64_encode data)) = Inr (VLocalTime lt)"
    using decodeTemporal_encode [of 9 data 9 LocalTimeFromBinary lt] marshal_lengths(2) [of lt data] LocalTime_roundtrip [of lt]
    by (simp add: decodeScalar_kinds)
  show "TimeMarshalBinary t = Inr data \<Longrightarrow> valid_time t \<Longrightarrow> decodeScalar (ev_of ''offset_time'' (b64_encode data)) = Inr (VTime t)"
    using decodeTemporal_encode [of 13 data 13 TimeFromBinary t] marshal_lengths(3) [of t data] Time_roundtrip [of t]
    by (simp add: decodeScalar_kinds)
  show "LocalDateTimeMarshalBinary l = Inr data \<Longrightarrow> valid_ldt l \<Longrightarrow>
     decodeScalar (ev_of ''local_datetime'' (b64_encode data)) = Inr (VLocalDateTime l)"
    using decodeTemporal_encode [of 15 data 15 LocalDateTimeFromBinary l] marshal_lengths(4) [of l data] LocalDateTime_roundtrip [of l]
    by (simp add: decodeScalar_kinds)
  show "DurationMarshalBinary du = Inr data \<Longrightarrow> valid_duration du \<Longrightarrow>
     decodeScalar (ev_of ''cypher_duration'' (b64_encode data)) = Inr (VDuration du)"
    using decodeTemporal_encode [of 29 data 29 DurationFromBinary du] marshal_lengths(5) [of du data] Duration_roundtrip [of du]
    by (simp add: decodeScalar_kinds)
  show "DateTimeMarshalBinary z = Inr data \<Longrightarrow> valid_datetime z \<Longrightarrow>
     decodeScalar (ev_of ''zoned_datetime'' (b64_encode data)) = Inr (VDateTime z)"
    using decodeTemporal_encode [of 20 data 65555 DateTimeFromBinary z] DateTimeMarshal_facts [of z data] DateTime_roundtrip [of z]
    by (simp add: decodeScalar_kinds)
qed

lemma decodeScalar_encodeBytes:
  assumes "encodeBytes s t = Inr (e, s')"
  shows "decodeScalar e = Inr (VBytes t)"
proof -
  have l: "int (length t) \<le> MaxPropertyScalarBytes" and e: "e = ev_of ''bytes'' (b64_encode t)"
    using assms by (auto simp: encodeBytes_def bindE_Inr_iff)
  from l have "length t \<le> nat MaxPropertyScalarBytes" by (simp add: limit_defs)
  from b64_len_mono [OF this]
  have "decodeScalar e = bindE (ValidateBytes ''property byte string'' t MaxPropertyScalarBytes) (\<lambda>_. Inr (VBytes t))"
    unfolding e by (intro decodeScalar_bytes) simp_all
  moreover have "ValidateBytes ''property byte string'' t MaxPropertyScalarBytes = Inr ()" using l by simp
  ultimately show ?thesis by simp
qed

lemma decodeScalar_encode:
  assumes e: "encodeScalar s v = Inr (e, s')" and w: "wf_value v" and k: "is_scalar v"
  shows "decodeScalar e = Inr (norm_value v)"
proof (cases v)
  case (VBytes t)
  with e show ?thesis using decodeScalar_encodeBytes by (simp add: encodeScalar_def)
next
  case (VGoTime t)
  with e w show ?thesis using decodeGoTime_encode by (auto simp: encodeScalar_def bindE_Inr_iff)
next
  case (VUint n)
  then have "e = ev_of ''int'' (format_int 0 n)" "in64 n"
    using e w by (auto simp: encodeScalar_def integerValue_def in64_def split: if_splits)
  with VUint show ?thesis by (simp add: decodeScalar_kinds)
next
  case (VFloat bits)
  then have "e = ev_of ''float'' (hex_text (nat bits))" "parse_hex64 (hex_text (nat bits)) = Some bits"
    using e w parse_hex64_text [of "nat bits"] by (auto simp: encodeScalar_def floatValue_def)
  with VFloat show ?thesis by (simp add: decodeScalar_kinds)
qed (use e w k in \<open>auto simp: encodeScalar_def encodeTemporalBinary_Inr_iff bindE_Inr_iff decodeScalar_temporal
    decodeScalar_kinds(1-3,11-13) integerValue_def is_scalar_def\<close>)

lemma reserveChildren_Inr_iff [simp]:
  "reserveChildren f values n = Inr u \<longleftrightarrow> int n \<le> MaxPropertyValues - values"
  by (auto simp: reserveChildren_def)

lemma reserveChildren_ok: "int n \<le> MaxPropertyValues - values \<Longrightarrow> reserveChildren f values n = Inr ()"
  by simp

lemma encodeListItems_length: "encodeListItems s d vs = Inr (es, s') \<Longrightarrow> length es = length vs"
  by (induction vs arbitrary: s es s') (auto simp: bindE_Inr_iff)

lemma encodeMapItems_keys: "encodeMapItems s d m = Inr (es, s') \<Longrightarrow> map fst es = map fst m"
  by (induction m arbitrary: s es s') (auto simp: bindE_Inr_iff)

lemma decodeValue_scalar:
  assumes "scalar_shape e" "d \<le> MaxPropertyDepth" "n + 1 \<le> MaxPropertyValues"
  shows "decodeValue n d e = bindE (decodeScalar e) (\<lambda>v. Inr (v, n + 1))"
  using assms by (cases e) (simp add: decodeValue.simps scalar_shape_def)

theorem decode_encode:
  "encodeValue s d v = Inr (e, s') \<Longrightarrow> wf_value v \<Longrightarrow>
     decodeValue (enc_values s) d e = Inr (norm_value v, enc_values s')"
  "encodeListItems s d vs = Inr (es, s') \<Longrightarrow> list_all wf_value vs \<Longrightarrow>
     decodeListItems (enc_values s) d es = Inr (map norm_value vs, enc_values s')"
  "encodeMapItems s d m = Inr (ms, s') \<Longrightarrow> list_all (\<lambda>(key, v). wf_value v) m \<Longrightarrow>
     decodeMapItems (enc_values s) d ms = Inr (map (\<lambda>(key, v). (key, norm_value v)) m, enc_values s')"
proof (induction s d v and s d vs and s d m arbitrary: e s' and es s' and ms s'
    rule: encodeValue_encodeListItems_encodeMapItems.induct)
  case (1 s d v)
  define t where "t = s\<lparr>enc_values := enc_values s + 1\<rparr>"
  have lim: "d \<le> MaxPropertyDepth" "enc_values s + 1 \<le> MaxPropertyValues"
    using "1.prems"(1) by (auto simp: encodeValue.simps Let_def split: if_splits)
  show ?case
  proof (cases "is_scalar v")
    case True
    then have sc: "encodeScalar t v = Inr (e, s')"
      using "1.prems"(1) lim by (cases v) (auto simp: encodeValue.simps Let_def t_def is_scalar_def)
    from encodeScalar_shape [OF this] have "scalar_shape e" "enc_values s' = enc_values s + 1" by (simp_all add: t_def)
    then show ?thesis
      using decodeValue_scalar [OF _ lim] decodeScalar_encode [OF sc "1.prems"(2) True] by simp
  next
    case False
    then consider (L) vs where "v = VList vs" | (M) m where "v = VMap m" by (cases v) (auto simp: is_scalar_def)
    then show ?thesis
    proof cases
      case L
      then obtain es where e: "e = EncodedValue ''list'' False [] [] 0 es []" "encodeListItems t (d + 1) vs = Inr (es, s')"
        "int (length vs) \<le> MaxPropertyValues - enc_values t"
        using "1.prems"(1) lim by (auto simp: encodeValue.simps Let_def t_def bindE_Inr_iff)
      have "decodeListItems (enc_values t) (d + 1) es = Inr (map norm_value vs, enc_values s')"
        using "1.IH"(1) [OF _ refl _ L, of "()" es s'] "1.prems"(2) lim e L by (simp add: t_def)
      then show ?thesis
        using e(3) encodeListItems_length [OF e(2)] lim shape_plain(3) [of es]
        by (simp add: e(1) L decodeValue.simps t_def reserveChildren_ok)
    next
      case M
      then obtain ms where e: "e = EncodedValue ''map'' False [] [] 0 [] ms" "encodeMapItems t (d + 1) m = Inr (ms, s')"
        "int (length m) \<le> MaxPropertyValues - enc_values t"
        using "1.prems"(1) lim by (auto simp: encodeValue.simps Let_def t_def bindE_Inr_iff)
      have "decodeMapItems (enc_values t) (d + 1) ms = Inr (map (\<lambda>(key, v). (key, norm_value v)) m, enc_values s')"
        using "1.IH"(2) [OF _ refl _ M, of "()" ms s'] "1.prems"(2) lim e M by (simp add: t_def)
      moreover have "length ms = length m" using encodeMapItems_keys [OF e(2)] by (metis length_map)
      ultimately show ?thesis
        using e(3) lim shape_plain(4) [of ms] by (simp add: e(1) M decodeValue.simps t_def reserveChildren_ok)
    qed
  qed
next
  case (3 s d v vs)
  then show ?case by (fastforce simp: bindE_Inr_iff)
next
  case (5 s d key v m)
  then show ?case by (fastforce simp: bindE_Inr_iff)
qed simp_all

end
