(* ===== verification/Codec_Limits.thy ===== *)
theory Codec_Limits
  imports Codec_Roundtrip
begin

text \<open>
  The passes of \<open>internal/store/codec.go\<close> around the codec: the preflight that accounts for a property
  tree before it is encoded, with the sizes it predicts without encoding, and \<open>encodeProperties\<close> and
  \<open>decodeProperties\<close>.  A blob is the tree it spells, so \<open>decodeProperties\<close> starts from the tree that
  \<open>encoding/json\<close> reads; its token passes over the raw bytes are not modelled.
\<close>

section \<open>Predicted sizes\<close>

fun decimalUint64Length :: "nat \<Rightarrow> nat" where
  "decimalUint64Length value = (if value \<ge> 10 then decimalUint64Length (value div 10) + 1 else 1)"

definition decimalInt64Length :: "int \<Rightarrow> nat" where
  "decimalInt64Length value =
     (if value \<ge> 0 then decimalUint64Length (nat value) else 1 + decimalUint64Length (nat (- (value + 1)) + 1))"

fun hexadecimalUint64Length :: "nat \<Rightarrow> nat" where
  "hexadecimalUint64Length value = (if value \<ge> 16 then hexadecimalUint64Length (value div 16) + 1 else 1)"

declare decimalUint64Length.simps [simp del] hexadecimalUint64Length.simps [simp del]

definition canonicalSafeTextValueSize :: "string \<Rightarrow> nat \<Rightarrow> int" where
  "canonicalSafeTextValueSize kind textLength =
     (if textLength = 0 then canonicalEncodedValueSize (ev_of kind [])
      else 2 + jsonStringSize ''k'' + 1 + jsonStringSize kind + 1 + jsonStringSize ''s'' + 1 + 2 + int textLength)"

definition temporalScalarEncodedSize :: "string \<Rightarrow> terror + string \<Rightarrow> derror + int option" where
  "temporalScalarEncodedSize kind marshal =
     (case marshal of Inl _ \<Rightarrow> Inl PlainError
      | Inr payload \<Rightarrow> Inr (Some (canonicalSafeTextValueSize kind (b64_len (length payload)))))"

definition unsignedScalarEncodedSize :: "int \<Rightarrow> derror + int option" where
  "unsignedScalarEncodedSize value =
     (if value > 9223372036854775807 then Inl PlainError
      else Inr (Some (canonicalSafeTextValueSize ''int'' (decimalInt64Length value))))"

text \<open>\<open>None\<close> for a map or a list, which the derived index leaves out.\<close>

definition scalarPropertyEncodedSize :: "pvalue \<Rightarrow> derror + int option" where
  "scalarPropertyEncodedSize value =
     (case value of
        VNull \<Rightarrow> Inr (Some (canonicalEncodedValueSize (ev_of ''null'' [])))
      | VBool b \<Rightarrow> Inr (Some (canonicalEncodedValueSize (EncodedValue ''bool'' b [] [] 0 [] [])))
      | VString t \<Rightarrow> Inr (Some (canonicalEncodedValueSize (ev_of ''string'' t)))
      | VBytes t \<Rightarrow> Inr (Some (canonicalSafeTextValueSize ''bytes'' (b64_len (length t))))
      | VDate d \<Rightarrow> temporalScalarEncodedSize ''date'' (DateMarshalBinary d)
      | VLocalTime t \<Rightarrow> temporalScalarEncodedSize ''local_time'' (LocalTimeMarshalBinary t)
      | VTime t \<Rightarrow> temporalScalarEncodedSize ''offset_time'' (TimeMarshalBinary t)
      | VLocalDateTime d \<Rightarrow> temporalScalarEncodedSize ''local_datetime'' (LocalDateTimeMarshalBinary d)
      | VDateTime d \<Rightarrow> temporalScalarEncodedSize ''zoned_datetime'' (DateTimeMarshalBinary d)
      | VDuration d \<Rightarrow> temporalScalarEncodedSize ''cypher_duration'' (DurationMarshalBinary d)
      | VGoDuration n \<Rightarrow> Inr (Some (canonicalSafeTextValueSize ''duration'' (decimalInt64Length n)))
      | VInt n \<Rightarrow> Inr (Some (canonicalSafeTextValueSize ''int'' (decimalInt64Length n)))
      | VUint n \<Rightarrow> unsignedScalarEncodedSize n
      | VFloat bits \<Rightarrow> Inr (Some (canonicalSafeTextValueSize ''float'' (hexadecimalUint64Length (nat bits))))
      | VGoTime t \<Rightarrow> bindE (encodeGoTime t) (\<lambda>encoded. Inr (Some (canonicalEncodedValueSize encoded)))
      | VList _ \<Rightarrow> Inr None
      | VMap _ \<Rightarrow> Inr None)"

section \<open>Preflight\<close>

record propertyInputPreflight =
  pf_values :: int
  pf_base64 :: int
  pf_count :: int
  pf_bytes :: int

definition preflightBytes :: "propertyInputPreflight \<Rightarrow> nat \<Rightarrow> derror + propertyInputPreflight" where
  "preflightBytes s len =
     (if int len > MaxPropertyScalarBytes
      then Inl (ResourceLimitError ''property byte string'' ''bytes'' MaxPropertyScalarBytes (int len))
      else let encodedBytes = int (b64_len len)
           in if pf_base64 s > MaxCanonicalPropertyBytes - encodedBytes
              then Inl (ResourceLimitError ''aggregate encoded property byte strings'' ''bytes''
                          MaxCanonicalPropertyBytes (pf_base64 s + encodedBytes))
              else Inr (s\<lparr>pf_base64 := pf_base64 s + encodedBytes\<rparr>))"

definition preflightIndexed :: "propertyInputPreflight \<Rightarrow> nat \<Rightarrow> int \<Rightarrow> derror + propertyInputPreflight" where
  "preflightIndexed s keyBytes encodedSize =
     (let s = s\<lparr>pf_count := pf_count s + 1\<rparr>
      in if pf_count s > MaxIndexedPropertiesPerVersion
         then Inl (ResourceLimitError ''indexed properties'' ''values'' MaxIndexedPropertiesPerVersion (pf_count s))
         else let s = s\<lparr>pf_bytes := pf_bytes s + (int keyBytes + encodedSize)\<rparr>
              in if pf_bytes s > MaxDerivedPropertyBytesPerVersion
                 then Inl (ResourceLimitError ''derived property index'' ''bytes''
                             MaxDerivedPropertyBytesPerVersion (pf_bytes s))
                 else Inr s)"

fun preflightValue :: "propertyInputPreflight \<Rightarrow> int \<Rightarrow> pvalue \<Rightarrow> derror + propertyInputPreflight"
and preflightList :: "propertyInputPreflight \<Rightarrow> int \<Rightarrow> pvalue list \<Rightarrow> derror + propertyInputPreflight"
and preflightMap :: "propertyInputPreflight \<Rightarrow> int \<Rightarrow> (string \<times> pvalue) list \<Rightarrow> derror + propertyInputPreflight" where
  "preflightValue s depth v =
     (if depth > MaxPropertyDepth
      then Inl (ResourceLimitError ''property nesting'' ''levels'' MaxPropertyDepth depth)
      else let s = s\<lparr>pf_values := pf_values s + 1\<rparr>
           in if pf_values s > MaxPropertyValues
              then Inl (ResourceLimitError ''property collection'' ''values'' MaxPropertyValues (pf_values s))
              else case v of
                     VString t \<Rightarrow> bindE (ValidateText ''property string'' t MaxPropertyScalarBytes) (\<lambda>_. Inr s)
                   | VBytes t \<Rightarrow> preflightBytes s (length t)
                   | VMap m \<Rightarrow>
                       bindE (reserveChildren ''property map'' (pf_values s) (length m)) (\<lambda>_. preflightMap s depth m)
                   | VList vs \<Rightarrow>
                       bindE (reserveChildren ''property list'' (pf_values s) (length vs)) (\<lambda>_. preflightList s depth vs)
                   | VGoTime t \<Rightarrow>
                       (let name = place_name (gt_place t)
                        in if name = [] \<or> isCanonicalFixedZone name then Inr s
                           else bindE (ValidateText ''time zone name'' name MaxTimeZoneNameBytes) (\<lambda>_. Inr s))
                   | _ \<Rightarrow> Inr s)"
| "preflightList s depth [] = Inr s"
| "preflightList s depth (v # vs) =
     bindE (preflightValue s (depth + 1) v) (\<lambda>s. preflightList s depth vs)"
| "preflightMap s depth [] = Inr s"
| "preflightMap s depth ((key, v) # m) =
     bindE (ValidateText ''property map key'' key MaxPropertyKeyBytes) (\<lambda>_.
     bindE (preflightValue s (depth + 1) v) (\<lambda>s.
     bindE (if depth = 0
            then bindE (scalarPropertyEncodedSize v) (\<lambda>size.
                   case size of None \<Rightarrow> Inr s | Some encodedSize \<Rightarrow> preflightIndexed s (length key) encodedSize)
            else Inr s) (\<lambda>s. preflightMap s depth m)))"

declare preflightValue.simps [simp del]

definition preflightPropertyInput :: "pvalue \<Rightarrow> derror + propertyInputPreflight" where
  "preflightPropertyInput value = preflightValue \<lparr>pf_values = 0, pf_base64 = 0, pf_count = 0, pf_bytes = 0\<rparr> 0 value"

section \<open>Properties\<close>

definition encodeProperties :: "pvalue \<Rightarrow> derror + encodedValue" where
  "encodeProperties p =
     bindE (preflightPropertyInput p) (\<lambda>_.
     bindE (encodeValue \<lparr>enc_values = 0, enc_base64 = 0\<rparr> 0 p) (\<lambda>(v, s).
     bindE (validateEncodedIndexBudget v) (\<lambda>_.
       let encodedSize = canonicalEncodedValueSize v
       in if encodedSize > MaxCanonicalPropertyBytes
          then Inl (ResourceLimitError ''canonical property encoding'' ''bytes'' MaxCanonicalPropertyBytes encodedSize)
          else if int (length (json_marshal v)) > MaxCanonicalPropertyBytes
          then Inl (ResourceLimitError ''canonical property encoding'' ''bytes'' MaxCanonicalPropertyBytes
                      (int (length (json_marshal v))))
          else Inr v)))"

definition decodeProperties :: "encodedValue \<Rightarrow> derror + pvalue" where
  "decodeProperties value =
     bindE (ValidateBytes ''canonical property encoding'' (json_marshal value) MaxCanonicalPropertyBytes) (\<lambda>_.
     bindE (validateEncodedIndexBudget value) (\<lambda>_.
     bindE (decodeValue 0 0 value) (\<lambda>(v, n).
       case v of
         VNull \<Rightarrow> Inr VNull
       | VMap m \<Rightarrow>
           bindE (encodeProperties v) (\<lambda>reencoded.
             if json_marshal reencoded \<noteq> json_marshal value then Inl PlainError else Inr v)
       | _ \<Rightarrow> Inl PlainError)))"

end
