(* ===== verification/Codec_Limits_Facts.thy ===== *)
theory Codec_Limits_Facts
  imports Codec_Limits
begin

text \<open>
  The sizes that the preflight predicts are the sizes of the encodings, its accounts are the encoder's,
  and what \<open>encodeProperties\<close> accepts \<open>decodeProperties\<close> reads back.
\<close>

section \<open>Exact sizes\<close>

lemma decimalUint64Length_eq: "decimalUint64Length n = length (nat_text n)"
proof (induction n rule: decimalUint64Length.induct)
  case (1 n)
  then show ?case by (subst decimalUint64Length.simps, subst nat_text.simps) simp
qed

lemma decimalInt64Length_eq: "decimalInt64Length n = length (format_int 0 n)"
proof (cases "n \<ge> 0")
  case False
  then have "nat (- (n + 1)) + 1 = nat (- n)" by simp
  with False show ?thesis by (simp add: decimalInt64Length_def decimalUint64Length_eq format_int_def pad0_def)
qed (simp add: decimalInt64Length_def decimalUint64Length_eq format_int_def pad0_def)

lemma hexadecimalUint64Length_eq: "hexadecimalUint64Length n = length (hex_text n)"
proof (induction n rule: hexadecimalUint64Length.induct)
  case (1 n)
  then show ?case by (subst hexadecimalUint64Length.simps, subst hex_text.simps) simp
qed

definition json_safe :: "char \<Rightarrow> bool" where
  "json_safe c \<longleftrightarrow> 32 \<le> byte_of c \<and> byte_of c < 128 \<and> byte_of c \<notin> {34, 38, 60, 62, 92}"

lemma json_chars_size_safe: "\<forall>c \<in> set t. json_safe c \<Longrightarrow> json_chars_size t = int (length t)"
proof (induction t)
  case Nil
  then show ?case by (simp add: json_chars_size.simps)
next
  case (Cons c t)
  then show ?case by (subst json_chars_size.simps) (auto simp: json_safe_def Let_def)
qed

lemma safe_b64_char: "n < 64 \<Longrightarrow> json_safe (b64_char n)"
  by (auto simp: b64_char_def json_safe_def byte_of_def of_char_of)

lemma safe_equals: "json_safe (CHR ''='')"
  by (simp add: json_safe_def byte_of_def)

lemma safe_b64: "\<forall>c \<in> set (b64_encode s). json_safe c"
proof (induction s rule: b64_encode.induct)
  case (1 a b c r)
  have "byte_of a < 256" "byte_of b < 256" "byte_of c < 256" by (simp_all add: byte_of_less)
  then have "byte_of a div 4 < 64" "byte_of a mod 4 * 16 + byte_of b div 16 < 64"
    "byte_of b mod 16 * 4 + byte_of c div 64 < 64" "byte_of c mod 64 < 64" by linarith+
  with 1 show ?case by (simp add: safe_b64_char)
next
  case (2 a b)
  have "byte_of a < 256" "byte_of b < 256" by (simp_all add: byte_of_less)
  then have "byte_of a div 4 < 64" "byte_of a mod 4 * 16 + byte_of b div 16 < 64" "byte_of b mod 16 * 4 < 64" by linarith+
  then show ?case by (simp add: safe_b64_char safe_equals)
next
  case (3 a)
  have "byte_of a < 256" by (simp add: byte_of_less)
  then have "byte_of a div 4 < 64" "byte_of a mod 4 * 16 < 64" by linarith+
  then show ?case by (simp add: safe_b64_char safe_equals)
qed simp

lemma safe_digit: "is_digit c \<Longrightarrow> json_safe c"
  by (auto simp: is_digit_def json_safe_def byte_of_def)

lemma safe_format_int: "\<forall>c \<in> set (format_int 0 n). json_safe c"
  using nat_text_digits safe_digit by (auto simp: format_int_def pad0_def json_safe_def [of "CHR ''-''"] byte_of_def)

lemma safe_hex: "\<forall>c \<in> set (hex_text n). json_safe c"
proof (induction n rule: hex_text.induct)
  case (1 n)
  have "json_safe (hex_digit k)" if "k < 16" for k
    using that by (auto simp: hex_digit_def json_safe_def byte_of_def of_char_of)
  with 1 show ?case by (subst hex_text.simps) auto
qed

lemma canonicalSafeTextValueSize_eq:
  assumes "\<forall>c \<in> set t. json_safe c"
  shows "canonicalSafeTextValueSize k (length t) = canonicalEncodedValueSize (ev_of k t)"
  using json_chars_size_safe [OF assms]
  by (cases t) (simp_all add: canonicalSafeTextValueSize_def ev_of_def add_field_def jsonStringSize_def)

lemmas safe_sizes =
  canonicalSafeTextValueSize_eq [OF safe_b64, unfolded length_b64_encode]
  canonicalSafeTextValueSize_eq [OF safe_format_int, folded decimalInt64Length_eq]
  canonicalSafeTextValueSize_eq [OF safe_hex, folded hexadecimalUint64Length_eq]

lemma temporalScalarEncodedSize_eq:
  "temporalScalarEncodedSize k m = bindE (encodeTemporalBinary k m) (\<lambda>e. Inr (Some (canonicalEncodedValueSize e)))"
  by (simp add: temporalScalarEncodedSize_def encodeTemporalBinary_def safe_sizes split: sum.splits)

lemma scalar_size_map_list: "\<not> is_scalar v \<Longrightarrow> scalarPropertyEncodedSize v = Inr None"
  by (cases v) (auto simp: is_scalar_def scalarPropertyEncodedSize_def)

text \<open>The predicted size of a scalar is the size of its encoding, and it is refused exactly when the
  encoder refuses it for its value rather than its length.\<close>

lemma scalar_size_exact:
  assumes "is_scalar v" "encodeScalar s v = Inr (e, s')"
  shows "scalarPropertyEncodedSize v = Inr (Some (canonicalEncodedValueSize e))"
  using assms
  by (cases v) (auto simp: is_scalar_def encodeScalar_def scalarPropertyEncodedSize_def encodeBytes_def
      temporalScalarEncodedSize_eq unsignedScalarEncodedSize_def integerValue_def floatValue_def safe_sizes
      bindE_Inr_iff split: if_splits)

section \<open>The preflight accounts for the encoder\<close>

definition accounts :: "propertyInputPreflight \<Rightarrow> encodeState \<Rightarrow> bool" where
  "accounts s t \<longleftrightarrow> pf_values s = enc_values t \<and> pf_base64 s = enc_base64 t"

lemma ValidateText_ok: "utf8_valid v \<Longrightarrow> int (length v) \<le> m \<Longrightarrow> ValidateText f v m = Inr ()"
  by simp

lemma utf8_Local: "utf8_valid ''Local''"
  by (simp add: utf8_valid.simps decode_rune_def byte_of_def rune_error_def)

text \<open>What the encoder refuses for its value and not for its size: an unsigned integer beyond 64 bits, a temporal value
  that its binary form refuses, a \<open>time.Time\<close> that \<open>MarshalBinary\<close> refuses, anywhere in the value.\<close>

fun representable :: "pvalue \<Rightarrow> bool" where
  "representable (VList vs) = list_all representable vs"
| "representable (VMap m) = list_all (\<lambda>(_, v). representable v) m"
| "representable (VUint n) = (n \<le> 9223372036854775807)"
| "representable (VDate d) = is_ok (DateMarshalBinary d)"
| "representable (VLocalTime t) = is_ok (LocalTimeMarshalBinary t)"
| "representable (VTime t) = is_ok (TimeMarshalBinary t)"
| "representable (VLocalDateTime d) = is_ok (LocalDateTimeMarshalBinary d)"
| "representable (VDateTime d) = is_ok (DateTimeMarshalBinary d)"
| "representable (VDuration d) = is_ok (DurationMarshalBinary d)"
| "representable (VGoTime t) = (goMarshalBinary (snd (wireTime t)) \<noteq> None)"
| "representable _ = True"

text \<open>An encoding that succeeds with the counts of the preflight, or fails because of an unrepresentable value.\<close>

definition as_counted :: "bool \<Rightarrow> propertyInputPreflight \<Rightarrow> derror + 'a \<times> encodeState \<Rightarrow> bool" where
  "as_counted b s r \<longleftrightarrow> (if b then \<exists>e t. r = Inr (e, t) \<and> accounts s t else r = Inl PlainError)"

lemma encodeGoTime_preflighted:
  assumes "place_name (gt_place x) = [] \<or> isCanonicalFixedZone (place_name (gt_place x)) \<or>
    ValidateText ''time zone name'' (place_name (gt_place x)) MaxTimeZoneNameBytes = Inr ()"
  shows "if representable (VGoTime x) then \<exists>e. encodeGoTime x = Inr e else encodeGoTime x = Inl PlainError"
proof -
  have "ValidateText ''time zone name'' (fst (wireTime x)) MaxTimeZoneNameBytes = Inr ()"
    using assms utf8_Local by (auto simp: wireTime_def Let_def utf8_valid.simps [of "[]"] limit_defs)
  then show ?thesis by (auto simp: encodeGoTime_def ValidateText_ok split: prod.splits option.splits)
qed

lemma preflight_scalar:
  assumes p: "preflightValue s d v = Inr s1" and k: "is_scalar v" and a: "accounts s t"
  shows "as_counted (representable v) s1 (encodeValue t d v)"
proof -
  define t1 where "t1 = t\<lparr>enc_values := enc_values t + 1\<rparr>"
  have lim: "d \<le> MaxPropertyDepth" "enc_values t + 1 \<le> MaxPropertyValues"
    using p a by (auto simp: preflightValue.simps Let_def accounts_def split: if_splits)
  then have e: "encodeValue t d v = encodeScalar t1 v"
    using k by (cases v) (auto simp: encodeValue.simps Let_def t1_def is_scalar_def)
  have same: "accounts (s\<lparr>pf_values := pf_values s + 1\<rparr>) t1" using a by (simp add: accounts_def t1_def)
  have keep: ?thesis if "encodeScalar t1 v = bindE m (\<lambda>e. Inr (e, t1))"
    "if representable v then \<exists>e. m = Inr e else m = Inl PlainError" "s1 = s\<lparr>pf_values := pf_values s + 1\<rparr>" for m
    using that same e by (auto simp: as_counted_def split: if_splits)
  have s1: "s1 = s\<lparr>pf_values := pf_values s + 1\<rparr>" if "\<And>x. v \<noteq> VBytes x"
    using p k that by (cases v) (auto simp: preflightValue.simps Let_def is_scalar_def bindE_Inr_iff split: if_splits)
  show ?thesis
  proof (cases v)
    case (VBytes x)
    then show ?thesis using p a lim unfolding e
      by (auto simp: preflightValue.simps Let_def preflightBytes_def encodeScalar_def encodeBytes_def reserveEncodedBytes_def
          accounts_def as_counted_def t1_def ValidateBytes_def split: if_splits)
  next
    case (VGoTime x)
    then have "place_name (gt_place x) = [] \<or> isCanonicalFixedZone (place_name (gt_place x)) \<or>
      ValidateText ''time zone name'' (place_name (gt_place x)) MaxTimeZoneNameBytes = Inr ()"
      using p by (auto simp: preflightValue.simps Let_def bindE_Inr_iff split: if_splits)
    from keep [OF _ encodeGoTime_preflighted [OF this, folded VGoTime]] s1 VGoTime show ?thesis by (simp add: encodeScalar_def)
  next
    case (VString x)
    then have "ValidateText ''property string'' x MaxPropertyScalarBytes = Inr ()"
      using p by (auto simp: preflightValue.simps Let_def bindE_Inr_iff split: if_splits)
    then have "encodeScalar t1 v = Inr (ev_of ''string'' x, t1)" by (simp add: VString encodeScalar_def bindE_Inr_iff)
    with VString s1 same show ?thesis unfolding e by (simp add: as_counted_def)
  qed (use e s1 same k in
      \<open>auto simp: as_counted_def encodeScalar_def is_scalar_def is_ok_def encodeTemporalBinary_def split: sum.splits\<close>)
qed

lemma preflight_encode:
  "preflightValue s d v = Inr s1 \<Longrightarrow> accounts s t \<Longrightarrow> as_counted (representable v) s1 (encodeValue t d v)"
  "preflightList s d vs = Inr s1 \<Longrightarrow> accounts s t \<Longrightarrow>
     as_counted (list_all representable vs) s1 (encodeListItems t (d + 1) vs)"
  "preflightMap s d m = Inr s1 \<Longrightarrow> accounts s t \<Longrightarrow>
     as_counted (list_all (\<lambda>(_, v). representable v) m) s1 (encodeMapItems t (d + 1) m)"
proof (induction s d v and s d vs and s d m arbitrary: s1 t and s1 t and s1 t
    rule: preflightValue_preflightList_preflightMap.induct)
  case (1 s d v)
  define s0 t0 where "s0 = s\<lparr>pf_values := pf_values s + 1\<rparr>" and "t0 = t\<lparr>enc_values := enc_values t + 1\<rparr>"
  have a: "accounts s0 t0" using "1.prems"(2) by (simp add: accounts_def s0_def t0_def)
  have lim: "d \<le> MaxPropertyDepth" "pf_values s0 \<le> MaxPropertyValues" "enc_values t0 \<le> MaxPropertyValues"
    using "1.prems" a by (auto simp: preflightValue.simps Let_def s0_def accounts_def split: if_splits)
  show ?case
  proof (cases "is_scalar v")
    case True
    then show ?thesis using preflight_scalar "1.prems" by blast
  next
    case False
    then consider (L) vs where "v = VList vs" | (M) m where "v = VMap m" by (cases v) (auto simp: is_scalar_def)
    then show ?thesis
    proof cases
      case L
      then have p: "preflightList s0 d vs = Inr s1" "int (length vs) \<le> MaxPropertyValues - pf_values s0"
        using "1.prems"(1) lim by (auto simp: preflightValue.simps Let_def s0_def bindE_Inr_iff)
      have "as_counted (list_all representable vs) s1 (encodeListItems t0 (d + 1) vs)"
        using "1.IH"(1) [OF _ s0_def _ L reserveChildren_ok [OF p(2)] p(1) a] lim by simp
      then show ?thesis
        using L lim p(2) a
        by (auto simp: encodeValue.simps Let_def t0_def accounts_def as_counted_def reserveChildren_ok split: if_splits)
    next
      case M
      then have p: "preflightMap s0 d m = Inr s1" "int (length m) \<le> MaxPropertyValues - pf_values s0"
        using "1.prems"(1) lim by (auto simp: preflightValue.simps Let_def s0_def bindE_Inr_iff)
      have "as_counted (list_all (\<lambda>(_, v). representable v) m) s1 (encodeMapItems t0 (d + 1) m)"
        using "1.IH"(2) [OF _ s0_def _ M reserveChildren_ok [OF p(2)] p(1) a] lim by simp
      then show ?thesis
        using M lim p(2) a
        by (auto simp: encodeValue.simps Let_def t0_def accounts_def as_counted_def reserveChildren_ok split: if_splits)
    qed
  qed
next
  case (3 s d v vs)
  then obtain s2 where s2: "preflightValue s (d + 1) v = Inr s2" "preflightList s2 d vs = Inr s1"
    by (auto simp: bindE_Inr_iff)
  have first: "as_counted (representable v) s2 (encodeValue t (d + 1) v)" by (rule "3.IH"(1) [OF s2(1) "3.prems"(2)])
  show ?case
  proof (cases "representable v")
    case True
    then obtain e t' where e: "encodeValue t (d + 1) v = Inr (e, t')" "accounts s2 t'" using first by (auto simp: as_counted_def)
    from "3.IH"(2) [OF s2(1) s2(2) e(2)] e(1) True show ?thesis by (auto simp: as_counted_def split: if_splits)
  qed (use first in \<open>simp add: as_counted_def\<close>)
next
  case (5 s d key v m)
  then obtain s2 s3 where s2: "preflightValue s (d + 1) v = Inr s2" "preflightMap s3 d m = Inr s1"
    "ValidateText ''property map key'' key MaxPropertyKeyBytes = Inr ()"
    "(if d = 0 then bindE (scalarPropertyEncodedSize v) (\<lambda>size.
        case size of None \<Rightarrow> Inr s2 | Some n \<Rightarrow> preflightIndexed s2 (length key) n) else Inr s2) = Inr s3"
    by (auto simp: bindE_Inr_iff)
  have same: "accounts s3 t' = accounts s2 t'" for t'
    using s2(4) by (auto simp: bindE_Inr_iff preflightIndexed_def Let_def accounts_def split: if_splits option.splits)
  have first: "as_counted (representable v) s2 (encodeValue t (d + 1) v)" by (rule "5.IH"(1) [OF s2(3,1) "5.prems"(2)])
  show ?case
  proof (cases "representable v")
    case True
    then obtain e t' where e: "encodeValue t (d + 1) v = Inr (e, t')" "accounts s2 t'" using first by (auto simp: as_counted_def)
    from "5.IH"(2) [OF s2(3,1,4,2), of t'] e s2(3) same True show ?thesis by (auto simp: ValidateText_ok as_counted_def split: if_splits)
  qed (use first s2(3) in \<open>simp add: ValidateText_ok as_counted_def\<close>)
qed (simp_all add: as_counted_def)

section \<open>The derived index budget\<close>

lemma encodeValue_shape:
  assumes "encodeValue t d v = Inr (e, t')"
  shows "validateEncodedShape e = Inr ()" "(ev_kind e = ''map'' \<or> ev_kind e = ''list'') = (\<not> is_scalar v)"
proof -
  define t1 where "t1 = t\<lparr>enc_values := enc_values t + 1\<rparr>"
  consider (S) "is_scalar v" "encodeScalar t1 v = Inr (e, t')"
    | (L) es where "e = EncodedValue ''list'' False [] [] 0 es []" "\<not> is_scalar v"
    | (M) ms where "e = EncodedValue ''map'' False [] [] 0 [] ms" "\<not> is_scalar v"
    using assms
    by (cases v) (auto simp: encodeValue.simps Let_def t1_def is_scalar_def bindE_Inr_iff split: if_splits)
  then have "validateEncodedShape e = Inr () \<and> (ev_kind e = ''map'' \<or> ev_kind e = ''list'') = (\<not> is_scalar v)"
  proof cases
    case S
    then show ?thesis using encodeScalar_shape [OF S(2)] by (simp add: scalar_shape_def)
  qed (use shape_plain in auto)
  then show "validateEncodedShape e = Inr ()" "(ev_kind e = ''map'' \<or> ev_kind e = ''list'') = (\<not> is_scalar v)" by blast+
qed

lemma encodeMapItems_shapes:
  "encodeMapItems t d m = Inr (ms, t') \<Longrightarrow> (key, e) \<in> set ms \<Longrightarrow> validateEncodedShape e = Inr ()"
proof (induction m arbitrary: t ms t')
  case (Cons entry m)
  obtain k v where kv: "entry = (k, v)" by (cases entry)
  with Cons.prems(1) obtain e1 t1 ms1 where x: "encodeValue t d v = Inr (e1, t1)" "encodeMapItems t1 d m = Inr (ms1, t')"
    "ms = (k, e1) # ms1"
    by (auto simp: bindE_Inr_iff)
  show ?case using Cons.prems(2) Cons.IH [OF x(2)] encodeValue_shape(1) [OF x(1)] by (auto simp: x(3))
qed simp

lemma preflight_deep:
  "preflightValue s d v = Inr s1 \<Longrightarrow> 0 < d \<Longrightarrow> pf_count s1 = pf_count s \<and> pf_bytes s1 = pf_bytes s"
  "preflightList s d vs = Inr s1 \<Longrightarrow> 0 \<le> d \<Longrightarrow> pf_count s1 = pf_count s \<and> pf_bytes s1 = pf_bytes s"
  "preflightMap s d m = Inr s1 \<Longrightarrow> 0 < d \<Longrightarrow> pf_count s1 = pf_count s \<and> pf_bytes s1 = pf_bytes s"
proof (induction s d v and s d vs and s d m arbitrary: s1 and s1 and s1
    rule: preflightValue_preflightList_preflightMap.induct)
  case (1 s d v)
  define s0 where "s0 = s\<lparr>pf_values := pf_values s + 1\<rparr>"
  have lim: "\<not> MaxPropertyDepth < d" "\<not> MaxPropertyValues < pf_values s0"
    using "1.prems"(1) by (auto simp: preflightValue.simps Let_def s0_def split: if_splits)
  have same: "pf_count s0 = pf_count s" "pf_bytes s0 = pf_bytes s" by (simp_all add: s0_def)
  show ?case
  proof (cases v)
    case (VList vs)
    then obtain u where u: "reserveChildren ''property list'' (pf_values s0) (length vs) = Inr u" "preflightList s0 d vs = Inr s1"
      using "1.prems"(1) lim unfolding preflightValue.simps Let_def s0_def [symmetric] by (simp add: bindE_Inr_iff)
    from "1.IH"(1) [OF lim(1) s0_def lim(2) VList this] "1.prems"(2) same show ?thesis by simp
  next
    case (VMap m)
    then obtain u where u: "reserveChildren ''property map'' (pf_values s0) (length m) = Inr u" "preflightMap s0 d m = Inr s1"
      using "1.prems"(1) lim unfolding preflightValue.simps Let_def s0_def [symmetric] by (simp add: bindE_Inr_iff)
    from "1.IH"(2) [OF lim(1) s0_def lim(2) VMap this] "1.prems"(2) same show ?thesis by simp
  next
    case (VBytes t)
    then have "preflightBytes s0 (length t) = Inr s1"
      using "1.prems"(1) lim unfolding preflightValue.simps Let_def s0_def [symmetric] by simp
    with same show ?thesis by (auto simp: preflightBytes_def Let_def split: if_splits)
  next
    case (VGoTime t)
    then have "s1 = s0" using "1.prems"(1) lim unfolding preflightValue.simps Let_def s0_def [symmetric]
      by (simp add: bindE_Inr_iff split: if_splits)
    with same show ?thesis by simp
  qed (use "1.prems"(1) lim same in \<open>simp_all add: preflightValue.simps Let_def s0_def [symmetric] bindE_Inr_iff\<close>)
next
  case (3 s d v vs)
  from "3.prems"(1) obtain s2 where s2: "preflightValue s (d + 1) v = Inr s2" "preflightList s2 d vs = Inr s1"
    by (auto simp: bindE_Inr_iff)
  from "3.IH"(1) [OF s2(1)] "3.IH"(2) [OF s2] "3.prems"(2) show ?case by simp
next
  case (5 s d key v m)
  have "d \<noteq> 0" using "5.prems"(2) by simp
  with "5.prems"(1) obtain s2 where s2: "preflightValue s (d + 1) v = Inr s2" "preflightMap s2 d m = Inr s1"
    and k: "ValidateText ''property map key'' key MaxPropertyKeyBytes = Inr ()"
    by (auto simp: bindE_Inr_iff)
  have "(if d = 0 then bindE (scalarPropertyEncodedSize v) (\<lambda>size.
        case size of None \<Rightarrow> Inr s2 | Some n \<Rightarrow> preflightIndexed s2 (length key) n) else Inr s2) = Inr s2"
    using "5.prems"(2) by simp
  from "5.IH"(1) [OF k s2(1)] "5.IH"(2) [OF k s2(1) this s2(2)] "5.prems"(2) show ?case by simp
qed simp_all

definition index_payload :: "(string \<times> encodedValue) list \<Rightarrow> int" where
  "index_payload ms = sum_list (map (\<lambda>(key, e). int (length key) + canonicalEncodedValueSize e) (indexed_entries ms))"

lemma preflight_index:
  assumes "preflightMap s 0 m = Inr s1" "encodeMapItems t 1 m = Inr (ms, t')"
    "pf_count s \<le> MaxIndexedPropertiesPerVersion" "pf_bytes s \<le> MaxDerivedPropertyBytesPerVersion"
  shows "pf_count s1 = pf_count s + int (length (indexed_entries ms)) \<and> pf_bytes s1 = pf_bytes s + index_payload ms \<and>
    pf_count s1 \<le> MaxIndexedPropertiesPerVersion \<and> pf_bytes s1 \<le> MaxDerivedPropertyBytesPerVersion"
  using assms
proof (induction m arbitrary: s t ms)
  case (Cons entry m)
  obtain key v where kv: "entry = (key, v)" by (cases entry)
  obtain s2 s3 e t2 ms2 where x: "preflightValue s 1 v = Inr s2" "preflightMap s3 0 m = Inr s1"
    "bindE (scalarPropertyEncodedSize v) (\<lambda>size.
        case size of None \<Rightarrow> Inr s2 | Some n \<Rightarrow> preflightIndexed s2 (length key) n) = Inr s3"
    "encodeValue t 1 v = Inr (e, t2)" "encodeMapItems t2 1 m = Inr (ms2, t')" "ms = (key, e) # ms2"
    using Cons.prems(1,2) by (auto simp: kv bindE_Inr_iff)
  have same: "pf_count s2 = pf_count s" "pf_bytes s2 = pf_bytes s" using preflight_deep(1) [OF x(1)] by simp_all
  show ?case
  proof (cases "is_scalar v")
    case False
    then have "s3 = s2" using x(3) scalar_size_map_list by simp
    moreover have "indexed_entries ms = indexed_entries ms2"
      using encodeValue_shape(2) [OF x(4)] False by (auto simp: indexed_entries_def x(6))
    ultimately show ?thesis using Cons.IH [OF x(2) x(5)] Cons.prems(3,4) same by (simp add: index_payload_def)
  next
    case True
    have lim: "1 \<le> MaxPropertyDepth" "enc_values t + 1 \<le> MaxPropertyValues"
      using x(4) by (auto simp: encodeValue.simps Let_def limit_defs split: if_splits)
    have "encodeScalar (t\<lparr>enc_values := enc_values t + 1\<rparr>) v = Inr (e, t2)"
      using x(4) True lim by (cases v) (auto simp: encodeValue.simps Let_def is_scalar_def)
    from scalar_size_exact [OF True this] x(3)
    have p: "preflightIndexed s2 (length key) (canonicalEncodedValueSize e) = Inr s3" by simp
    have n: "pf_count s3 = pf_count s + 1" "pf_bytes s3 = pf_bytes s + (int (length key) + canonicalEncodedValueSize e)"
      "pf_count s3 \<le> MaxIndexedPropertiesPerVersion" "pf_bytes s3 \<le> MaxDerivedPropertyBytesPerVersion"
      using p same by (auto simp: preflightIndexed_def Let_def split: if_splits)
    have "indexed_entries ms = (key, e) # indexed_entries ms2"
      using encodeValue_shape(2) [OF x(4)] True by (auto simp: indexed_entries_def x(6))
    with Cons.IH [OF x(2) x(5) n(3,4)] n(1,2) show ?thesis by (simp add: index_payload_def)
  qed
qed (auto simp: indexed_entries_def index_payload_def)

theorem preflight_index_budget:
  assumes p: "preflightPropertyInput v = Inr s" and e: "encodeValue \<lparr>enc_values = 0, enc_base64 = 0\<rparr> 0 v = Inr (e, t)"
  shows "validateEncodedIndexBudget e = Inr ()"
proof (cases "ev_kind e = ''map''")
  case False
  then show ?thesis using encodeValue_shape(1) [OF e] by (simp add: validateEncodedIndexBudget_def)
next
  case True
  then have "\<not> is_scalar v" using encodeValue_shape(2) [OF e] by simp
  then obtain m where v: "v = VMap m"
    using e True by (cases v) (auto simp: is_scalar_def encodeValue.simps Let_def bindE_Inr_iff split: if_splits)
  obtain ms where ms: "e = EncodedValue ''map'' False [] [] 0 [] ms"
    "encodeMapItems \<lparr>enc_values = 1, enc_base64 = 0\<rparr> 1 m = Inr (ms, t)"
    using e by (auto simp: v encodeValue.simps Let_def bindE_Inr_iff split: if_splits)
  have pm: "preflightMap \<lparr>pf_values = 1, pf_base64 = 0, pf_count = 0, pf_bytes = 0\<rparr> 0 m = Inr s"
    using p by (auto simp: v preflightPropertyInput_def preflightValue.simps Let_def bindE_Inr_iff split: if_splits)
  have "int (length (indexed_entries ms)) \<le> MaxIndexedPropertiesPerVersion \<and>
    index_payload ms \<le> MaxDerivedPropertyBytesPerVersion"
    using preflight_index [OF pm ms(2)] by (simp add: limit_defs)
  moreover have "mapE (\<lambda>(key, property). validateEncodedShape property) ms = Inr (map (\<lambda>_. ()) ms)"
    using encodeMapItems_shapes [OF ms(2)] by (intro mapE_map) auto
  ultimately show ?thesis
    using encodeValue_shape(1) [OF e] by (simp add: validateEncodedIndexBudget_def ms(1) index_payload_def Let_def)
qed

section \<open>Safe characters\<close>

lemma utf8_safe: "\<forall>c \<in> set t. json_safe c \<Longrightarrow> utf8_valid t"
proof (induction t)
  case (Cons c t)
  then have "utf8_valid t" "byte_of c < 128" by (auto simp: json_safe_def)
  then show ?case by (subst utf8_valid.simps) (simp add: decode_rune_def rune_error_def Let_def)
qed (simp add: utf8_valid.simps)

lemma json_chars_safe: "\<forall>c \<in> set t. json_safe c \<Longrightarrow> json_chars t = t"
proof (induction t)
  case Nil
  then show ?case by (simp add: json_chars.simps)
next
  case (Cons c t)
  then show ?case by (subst json_chars.simps) (auto simp: json_safe_def Let_def json_ascii_def)
qed

end
