(* ===== verification/Codec_Recode.thy ===== *)
theory Codec_Recode
  imports Codec_Limits_Facts
begin

text \<open>
  Encoding what was decoded gives the same bytes again, which \<open>decodeProperties\<close> insists on, for every
  value but a \<open>time.Time\<close> in a fixed zone that is named \<open>UTC\<close> at offset zero.
\<close>

fun recodes :: "pvalue \<Rightarrow> bool" where
  "recodes (VGoTime t) \<longleftrightarrow> gt_place t \<noteq> PZone ''UTC'' 0"
| "recodes (VList vs) \<longleftrightarrow> list_all recodes vs"
| "recodes (VMap m) \<longleftrightarrow> list_all (\<lambda>(key, v). recodes v) m"
| "recodes _ \<longleftrightarrow> True"

lemma canonical_prefix [simp]: "isCanonicalFixedZone (canonicalFixedZone n)"
  by (simp add: isCanonicalFixedZone_def canonicalFixedZone_def)

lemma canonical_names [simp]: "\<not> isCanonicalFixedZone ''Local''" "\<not> isCanonicalFixedZone ''UTC''"
  "canonicalFixedZone n \<noteq> ''Local''" "canonicalFixedZone n \<noteq> []" "canonicalFixedZone n \<noteq> ''UTC''"
  by (simp_all add: isCanonicalFixedZone_def canonicalFixedZone_def canonicalFixedZonePrefix_def)

lemma norm_place_cases:
  assumes "p \<noteq> PZone ''UTC'' 0"
  obtains (L) "place_name p = ''Local''" "norm_place p = PZone ''Local'' (place_offset p)"
  | (C) "place_name p \<noteq> ''Local''" "place_name p = [] \<or> isCanonicalFixedZone (place_name p)"
      "norm_place p = PZone (canonicalFixedZone (place_offset p)) (place_offset p)"
  | (S) "place_name p \<noteq> ''Local''" "\<not> (place_name p = [] \<or> isCanonicalFixedZone (place_name p))" "norm_place p = p"
proof (cases p)
  case PUTC
  then show ?thesis using S by (simp add: norm_place_def)
next
  case (PLocal x)
  then show ?thesis using L by (simp add: norm_place_def)
next
  case (PZone n x)
  then show ?thesis using L C S assms by (cases "n = ''Local''"; cases "n = [] \<or> isCanonicalFixedZone n") (auto simp: norm_place_def)
qed

lemma encodeGoTime_norm:
  assumes "gt_place t \<noteq> PZone ''UTC'' 0"
  shows "encodeGoTime (t\<lparr>gt_place := norm_place (gt_place t)\<rparr>) = encodeGoTime t"
  using assms
proof (cases rule: norm_place_cases)
  case S
  then have "t\<lparr>gt_place := norm_place (gt_place t)\<rparr> = t" by simp
  then show ?thesis by simp
qed (simp_all add: encodeGoTime_def wireTime_def Let_def split: option.splits)

lemma encodeScalar_norm:
  assumes "encodeScalar s v = Inr r" "is_scalar v" "recodes v"
  shows "encodeScalar s (norm_value v) = Inr r"
  using assms by (cases v) (auto simp: encodeScalar_def is_scalar_def encodeGoTime_norm split: if_splits)

lemma is_scalar_norm [simp]: "is_scalar (norm_value v) = is_scalar v"
  by (cases v) (auto simp: is_scalar_def)

lemma encodeValue_scalar:
  "is_scalar v \<Longrightarrow> encodeValue s d v =
     (if d > MaxPropertyDepth \<or> enc_values s + 1 > MaxPropertyValues then Inl PlainError
      else encodeScalar (s\<lparr>enc_values := enc_values s + 1\<rparr>) v)"
  by (cases v) (auto simp: encodeValue.simps Let_def is_scalar_def)

lemma encode_norm:
  "encodeValue s d v = Inr r \<Longrightarrow> recodes v \<Longrightarrow> encodeValue s d (norm_value v) = Inr r"
  "encodeListItems s d vs = Inr q \<Longrightarrow> list_all recodes vs \<Longrightarrow> encodeListItems s d (map norm_value vs) = Inr q"
  "encodeMapItems s d m = Inr w \<Longrightarrow> list_all (\<lambda>(key, v). recodes v) m \<Longrightarrow>
     encodeMapItems s d (map (\<lambda>(key, v). (key, norm_value v)) m) = Inr w"
proof (induction s d v and s d vs and s d m arbitrary: r and q and w
    rule: encodeValue_encodeListItems_encodeMapItems.induct)
  case (1 s d v)
  define t where "t = s\<lparr>enc_values := enc_values s + 1\<rparr>"
  have lim: "\<not> MaxPropertyDepth < d" "\<not> MaxPropertyValues < enc_values t"
    using "1.prems"(1) by (auto simp: encodeValue.simps Let_def t_def split: if_splits)
  show ?case
  proof (cases "is_scalar v")
    case True
    then show ?thesis using "1.prems" encodeScalar_norm [OF _ True]
      by (simp add: encodeValue_scalar split: if_splits)
  next
    case False
    then consider (L) vs where "v = VList vs" | (M) m where "v = VMap m" by (cases v) (auto simp: is_scalar_def)
    then show ?thesis
    proof cases
      case L
      obtain es s' where e: "reserveChildren ''property list'' (enc_values t) (length vs) = Inr ()"
        "encodeListItems t (d + 1) vs = Inr (es, s')" "r = (EncodedValue ''list'' False [] [] 0 es [], s')"
        using "1.prems"(1) lim L unfolding encodeValue.simps Let_def t_def [symmetric] by (auto simp: bindE_Inr_iff)
      have "encodeListItems t (d + 1) (map norm_value vs) = Inr (es, s')"
        using "1.IH"(1) [OF lim(1) t_def lim(2) L e(1,2)] "1.prems"(2) L by simp
      then show ?thesis using lim e(1,3) L unfolding encodeValue.simps Let_def t_def [symmetric]
        by (simp add: reserveChildren_ok)
    next
      case M
      obtain ms s' where e: "reserveChildren ''property map'' (enc_values t) (length m) = Inr ()"
        "encodeMapItems t (d + 1) m = Inr (ms, s')" "r = (EncodedValue ''map'' False [] [] 0 [] ms, s')"
        using "1.prems"(1) lim M unfolding encodeValue.simps Let_def t_def [symmetric] by (auto simp: bindE_Inr_iff)
      have "encodeMapItems t (d + 1) (map (\<lambda>(key, v). (key, norm_value v)) m) = Inr (ms, s')"
        using "1.IH"(2) [OF lim(1) t_def lim(2) M e(1,2)] "1.prems"(2) M by simp
      then show ?thesis using lim e(1,3) M unfolding encodeValue.simps Let_def t_def [symmetric]
        by (simp add: reserveChildren_ok)
    qed
  qed
next
  case (3 s d v vs)
  from "3.prems"(1) obtain e s1 es s2 where x: "encodeValue s d v = Inr (e, s1)" "encodeListItems s1 d vs = Inr (es, s2)"
    "q = (e # es, s2)" by (auto simp: bindE_Inr_iff)
  from "3.IH"(1) [OF x(1)] "3.IH"(2) [OF x(1) refl x(2)] "3.prems"(2) x(3) show ?case by simp
next
  case (5 s d key v m)
  from "5.prems"(1) obtain e s1 es s2 where x: "ValidateText ''property map key'' key MaxPropertyKeyBytes = Inr ()"
    "encodeValue s d v = Inr (e, s1)" "encodeMapItems s1 d m = Inr (es, s2)"
    "w = ((key, e) # es, s2)" by (auto simp: bindE_Inr_iff)
  from "5.IH"(1) [OF x(1,2)] "5.IH"(2) [OF x(1,2) refl x(3)] "5.prems"(2) x(1,4) show ?case
    by (simp add: ValidateText_ok)
qed simp_all

section \<open>The preflight of a decoded value\<close>

lemma preflight_scalar_state:
  assumes "is_scalar v" "\<And>x. v \<noteq> VBytes x"
  shows "preflightValue s d v = Inr s1 \<longleftrightarrow> d \<le> MaxPropertyDepth \<and> pf_values s + 1 \<le> MaxPropertyValues \<and>
    s1 = s\<lparr>pf_values := pf_values s + 1\<rparr> \<and>
    (case v of VString t \<Rightarrow> utf8_valid t \<and> int (length t) \<le> MaxPropertyScalarBytes
     | VGoTime t \<Rightarrow> place_name (gt_place t) = [] \<or> isCanonicalFixedZone (place_name (gt_place t)) \<or>
         utf8_valid (place_name (gt_place t)) \<and> int (length (place_name (gt_place t))) \<le> MaxTimeZoneNameBytes
     | _ \<Rightarrow> True)"
  using assms by (cases v) (auto simp: preflightValue.simps Let_def is_scalar_def bindE_Inr_iff)

lemma norm_place_name:
  "place_name (norm_place p) = ''Local'' \<or> isCanonicalFixedZone (place_name (norm_place p)) \<or>
   place_name (norm_place p) = place_name p"
  by (auto simp: norm_place_def Let_def)

lemma preflight_norm_scalar:
  assumes p: "preflightValue s d v = Inr s1" and k: "is_scalar v"
  shows "preflightValue s d (norm_value v) = Inr s1"
proof (cases "\<exists>x. v = VBytes x")
  case True
  then show ?thesis using p by auto
next
  case False
  then have b: "\<And>x. v \<noteq> VBytes x" "\<And>x. norm_value v \<noteq> VBytes x" using k by (cases v; auto)+
  have "is_scalar (norm_value v)" using k by simp
  from preflight_scalar_state [OF this b(2)] preflight_scalar_state [OF k b(1)] p show ?thesis
  proof (cases v)
    case (VGoTime t)
    have "isCanonicalFixedZone (place_name (norm_place (gt_place t))) \<or>
      place_name (norm_place (gt_place t)) = place_name (gt_place t) \<or>
      utf8_valid (place_name (norm_place (gt_place t))) \<and>
        int (length (place_name (norm_place (gt_place t)))) \<le> MaxTimeZoneNameBytes"
      using norm_place_name [of "gt_place t"] utf8_Local by (auto simp: limit_defs)
    then show ?thesis
      using VGoTime p preflight_scalar_state [OF k b(1), of s d s1]
        preflight_scalar_state [OF \<open>is_scalar (norm_value v)\<close> b(2), of s d s1] by auto
  qed (use k in \<open>simp_all add: is_scalar_def\<close>)
qed

lemma scalar_size_norm:
  assumes "encodeValue t d v = Inr r" "recodes v"
  shows "scalarPropertyEncodedSize (norm_value v) = scalarPropertyEncodedSize v"
proof (cases "is_scalar v")
  case True
  obtain e t' where r: "r = (e, t')" by (cases r)
  let ?t = "t\<lparr>enc_values := enc_values t + 1\<rparr>"
  have e: "encodeScalar ?t v = Inr (e, t')" using assms(1) True by (simp add: encodeValue_scalar r split: if_splits)
  from scalar_size_exact [OF True e] scalar_size_exact [OF _ encodeScalar_norm [OF e True assms(2)]] True
  show ?thesis by simp
next
  case False
  then show ?thesis using scalar_size_map_list [of v] scalar_size_map_list [of "norm_value v"] by simp
qed

lemma preflight_norm:
  "preflightValue s d v = Inr s1 \<Longrightarrow> encodeValue t d v = Inr (e, t') \<Longrightarrow> recodes v \<Longrightarrow>
     preflightValue s d (norm_value v) = Inr s1"
  "preflightList s d vs = Inr s1 \<Longrightarrow> encodeListItems t (d + 1) vs = Inr (es, t') \<Longrightarrow> list_all recodes vs \<Longrightarrow>
     preflightList s d (map norm_value vs) = Inr s1"
  "preflightMap s d m = Inr s1 \<Longrightarrow> encodeMapItems t (d + 1) m = Inr (ms, t') \<Longrightarrow> list_all (\<lambda>(key, v). recodes v) m \<Longrightarrow>
     preflightMap s d (map (\<lambda>(key, v). (key, norm_value v)) m) = Inr s1"
proof (induction s d v and s d vs and s d m arbitrary: s1 t e t' and s1 t es t' and s1 t ms t'
    rule: preflightValue_preflightList_preflightMap.induct)
  case (1 s d v)
  define s0 where "s0 = s\<lparr>pf_values := pf_values s + 1\<rparr>"
  have lim: "\<not> MaxPropertyDepth < d" "\<not> MaxPropertyValues < pf_values s0"
    using "1.prems"(1) by (auto simp: preflightValue.simps Let_def s0_def split: if_splits)
  show ?case
  proof (cases "is_scalar v")
    case True
    then show ?thesis using preflight_norm_scalar "1.prems"(1) by blast
  next
    case False
    then consider (L) vs where "v = VList vs" | (M) m where "v = VMap m" by (cases v) (auto simp: is_scalar_def)
    then show ?thesis
    proof cases
      case L
      then have p: "reserveChildren ''property list'' (pf_values s0) (length vs) = Inr ()" "preflightList s0 d vs = Inr s1"
        using "1.prems"(1) lim unfolding preflightValue.simps Let_def s0_def [symmetric] by (simp_all add: bindE_Inr_iff)
      obtain es t1 where e: "encodeListItems t1 (d + 1) vs = Inr (es, t')"
        using "1.prems"(2) L lim(1) by (auto simp: encodeValue.simps Let_def bindE_Inr_iff split: if_splits)
      have "preflightList s0 d (map norm_value vs) = Inr s1"
        using "1.IH"(1) [OF lim(1) s0_def lim(2) L p e] "1.prems"(3) L by simp
      with p(1) L lim show ?thesis unfolding preflightValue.simps Let_def s0_def [symmetric]
        by (simp add: reserveChildren_ok)
    next
      case M
      then have p: "reserveChildren ''property map'' (pf_values s0) (length m) = Inr ()" "preflightMap s0 d m = Inr s1"
        using "1.prems"(1) lim unfolding preflightValue.simps Let_def s0_def [symmetric] by (simp_all add: bindE_Inr_iff)
      obtain ms t1 where e: "encodeMapItems t1 (d + 1) m = Inr (ms, t')"
        using "1.prems"(2) M lim(1) by (auto simp: encodeValue.simps Let_def bindE_Inr_iff split: if_splits)
      have "preflightMap s0 d (map (\<lambda>(key, v). (key, norm_value v)) m) = Inr s1"
        using "1.IH"(2) [OF lim(1) s0_def lim(2) M p e] "1.prems"(3) M by simp
      with p(1) M lim show ?thesis unfolding preflightValue.simps Let_def s0_def [symmetric]
        by (simp add: reserveChildren_ok)
    qed
  qed
next
  case (3 s d v vs)
  from "3.prems"(1) obtain s2 where s2: "preflightValue s (d + 1) v = Inr s2" "preflightList s2 d vs = Inr s1"
    by (auto simp: bindE_Inr_iff)
  from "3.prems"(2) obtain e t1 es1 where e: "encodeValue t (d + 1) v = Inr (e, t1)" "encodeListItems t1 (d + 1) vs = Inr (es1, t')"
    by (auto simp: bindE_Inr_iff)
  from "3.IH"(1) [OF s2(1) e(1)] "3.IH"(2) [OF s2 e(2)] "3.prems"(3) show ?case by simp
next
  case (5 s d key v m)
  from "5.prems"(1) obtain s2 s3 where s2: "preflightValue s (d + 1) v = Inr s2" "preflightMap s3 d m = Inr s1"
    "ValidateText ''property map key'' key MaxPropertyKeyBytes = Inr ()"
    "(if d = 0 then bindE (scalarPropertyEncodedSize v) (\<lambda>size.
        case size of None \<Rightarrow> Inr s2 | Some n \<Rightarrow> preflightIndexed s2 (length key) n) else Inr s2) = Inr s3"
    by (auto simp: bindE_Inr_iff)
  from "5.prems"(2) obtain e t1 es1 where e: "encodeValue t (d + 1) v = Inr (e, t1)" "encodeMapItems t1 (d + 1) m = Inr (es1, t')"
    by (auto simp: bindE_Inr_iff)
  from "5.IH"(1) [OF s2(3,1) e(1)] "5.IH"(2) [OF s2(3,1,4,2) e(2)] "5.prems"(3) s2(3,4) scalar_size_norm [OF e(1)]
  show ?case by (cases "d = 0") (auto simp: ValidateText_ok)
qed simp_all

section \<open>Reading back what was written\<close>

lemma ValidateBytes_ok: "int (length data) \<le> m \<Longrightarrow> ValidateBytes f data m = Inr ()"
  by simp

lemma encodeProperties_norm:
  assumes e: "encodeProperties (VMap m) = Inr e" and k: "recodes (VMap m)"
  shows "encodeProperties (norm_value (VMap m)) = Inr e"
proof -
  obtain s t where x: "preflightPropertyInput (VMap m) = Inr s"
    "encodeValue \<lparr>enc_values = 0, enc_base64 = 0\<rparr> 0 (VMap m) = Inr (e, t)"
    "validateEncodedIndexBudget e = Inr ()" "canonicalEncodedValueSize e \<le> MaxCanonicalPropertyBytes"
    "int (length (json_marshal e)) \<le> MaxCanonicalPropertyBytes"
    using e by (auto simp: encodeProperties_def bindE_Inr_iff Let_def split: if_splits)
  show ?thesis
    using preflight_norm(1) [OF x(1) [unfolded preflightPropertyInput_def] x(2) k] encode_norm(1) [OF x(2) k] x(3-5)
    by (simp add: encodeProperties_def preflightPropertyInput_def del: norm_value.simps)
qed

theorem decodeProperties_encode:
  assumes e: "encodeProperties (VMap m) = Inr e" and w: "wf_value (VMap m)" and k: "recodes (VMap m)"
  shows "decodeProperties e = Inr (norm_value (VMap m))"
proof -
  obtain s t where x: "preflightPropertyInput (VMap m) = Inr s"
    "encodeValue \<lparr>enc_values = 0, enc_base64 = 0\<rparr> 0 (VMap m) = Inr (e, t)"
    "validateEncodedIndexBudget e = Inr ()" "canonicalEncodedValueSize e \<le> MaxCanonicalPropertyBytes"
    "int (length (json_marshal e)) \<le> MaxCanonicalPropertyBytes"
    using e by (auto simp: encodeProperties_def bindE_Inr_iff Let_def split: if_splits)
  have "decodeValue 0 0 e = Inr (norm_value (VMap m), enc_values t)" using decode_encode(1) [OF x(2) w] by simp
  moreover have "encodeProperties (norm_value (VMap m)) = Inr e" by (rule encodeProperties_norm [OF e k])
  ultimately show ?thesis using x(3,5) by (simp add: decodeProperties_def ValidateBytes_ok)
qed

end
