(* ===== verification/Label_Codec.thy ===== *)
theory Label_Codec
  imports Codec_Recode "HOL-Library.Char_ord" "HOL-Library.List_Lexorder"
begin

text \<open>
  Node labels (\<open>encodeLabels\<close>, \<open>decodeLabels\<close> and \<open>normalizeLabels\<close> of \<open>internal/store/codec.go\<close>).  Go
  compares strings byte by byte, which is the lexicographic order of character lists.  A nil list and
  an empty one normalise to nil, so the empty list stands for both; a label blob is the list it
  spells, and \<open>labels_json\<close> gives its bytes.
\<close>

fun keepDistinct :: "string list \<Rightarrow> string list \<Rightarrow> string list" where
  "keepDistinct out [] = out"
| "keepDistinct out (label # rest) =
     keepDistinct (if out = [] \<or> last out \<noteq> label then out @ [label] else out) rest"

definition normalizeLabels :: "string list \<Rightarrow> string list" where
  "normalizeLabels labels = keepDistinct [] (sort labels)"

definition labels_json :: "string list \<Rightarrow> string" where
  "labels_json labels =
     (if labels = [] then ''null'' else CHR ''['' # join_comma (map json_string labels) @ '']'')"

text \<open>The loop over the normalised labels: the bytes of the derived index and of the encoding.\<close>

fun labelSizes :: "int \<Rightarrow> int \<Rightarrow> bool \<Rightarrow> string list \<Rightarrow> derror + int" where
  "labelSizes derivedBytes encodedSize first [] = Inr encodedSize"
| "labelSizes derivedBytes encodedSize first (label # rest) =
     (let derivedBytes = derivedBytes + int (length label)
      in if derivedBytes > MaxDerivedLabelBytesPerVersion
         then Inl (ResourceLimitError ''derived label index'' ''bytes'' MaxDerivedLabelBytesPerVersion derivedBytes)
         else labelSizes derivedBytes ((if first then encodedSize else encodedSize + 1) + jsonStringSize label) False rest)"

definition encodeLabels :: "string list \<Rightarrow> derror + string list" where
  "encodeLabels labels =
     (if int (length labels) > MaxLabelsPerNode
      then Inl (ResourceLimitError ''node labels'' ''values'' MaxLabelsPerNode (int (length labels)))
      else bindE (mapE (\<lambda>label. ValidateTextWithoutNUL ''node label'' label MaxLabelBytes) labels) (\<lambda>_.
           let normalized = normalizeLabels labels
           in bindE (if normalized = [] then Inr 4 else labelSizes 0 2 True normalized) (\<lambda>encodedSize.
              if encodedSize > MaxEncodedLabelsBytes
              then Inl (ResourceLimitError ''canonical label encoding'' ''bytes'' MaxEncodedLabelsBytes encodedSize)
              else if int (length (labels_json normalized)) > MaxEncodedLabelsBytes
              then Inl (ResourceLimitError ''canonical label encoding'' ''bytes'' MaxEncodedLabelsBytes
                          (int (length (labels_json normalized))))
              else Inr normalized)))"

text \<open>\<open>preflightLabels\<close> reads the labels in order and keeps the previous one.\<close>

fun preflightLabels :: "int \<Rightarrow> int \<Rightarrow> string \<Rightarrow> string list \<Rightarrow> derror + unit" where
  "preflightLabels seen derivedBytes previous [] = Inr ()"
| "preflightLabels seen derivedBytes previous (label # rest) =
     (let seen = seen + 1
      in if seen > MaxLabelsPerNode
         then Inl (ResourceLimitError ''node labels'' ''values'' MaxLabelsPerNode seen)
         else bindE (ValidateTextWithoutNUL ''node label'' label MaxLabelBytes) (\<lambda>_.
              if seen > 1 \<and> label \<le> previous then Inl PlainError
              else let derivedBytes = derivedBytes + int (length label)
                   in if derivedBytes > MaxDerivedLabelBytesPerVersion
                      then Inl (ResourceLimitError ''derived label index'' ''bytes''
                                  MaxDerivedLabelBytesPerVersion derivedBytes)
                      else preflightLabels seen derivedBytes label rest))"

definition decodeLabels :: "string list \<Rightarrow> derror + string list" where
  "decodeLabels labels =
     bindE (ValidateBytes ''canonical label encoding'' (labels_json labels) MaxEncodedLabelsBytes) (\<lambda>_.
     bindE (preflightLabels 0 0 [] labels) (\<lambda>_. Inr labels))"

section \<open>Normal lists\<close>

definition strict_labels :: "string list \<Rightarrow> bool" where
  "strict_labels labels \<longleftrightarrow> sorted_wrt (<) labels"

lemma keepDistinct_strict:
  assumes "sorted_wrt (<) out" "sorted xs" "\<forall>a \<in> set out. \<forall>b \<in> set xs. a \<le> b"
  shows "sorted_wrt (<) (keepDistinct out xs) \<and> set (keepDistinct out xs) = set out \<union> set xs"
  using assms
proof (induction xs arbitrary: out)
  case (Cons x xs)
  show ?case
  proof (cases "out = [] \<or> last out \<noteq> x")
    case True
    have "a < x" if a: "a \<in> set out" for a
    proof -
      have "out \<noteq> []" using a by auto
      then have "last out \<le> x" "last out \<noteq> x" using Cons.prems(3) True by auto
      moreover have "a \<le> last out"
      proof -
        obtain ys z where "out = ys @ [z]" using \<open>out \<noteq> []\<close> by (metis append_butlast_last_id)
        then show ?thesis using Cons.prems(1) a by (auto simp: sorted_wrt_append)
      qed
      ultimately show ?thesis by order
    qed
    then show ?thesis using Cons.IH [of "out @ [x]"] Cons.prems True by (auto simp: sorted_wrt_append)
  next
    case False
    then have "x \<in> set out" by (metis last_in_set)
    then show ?thesis using Cons.IH [of out] Cons.prems False by auto
  qed
qed simp

lemma normalizeLabels_strict: "strict_labels (normalizeLabels labels)" "set (normalizeLabels labels) = set labels"
  using keepDistinct_strict [of "[]" "sort labels"] by (simp_all add: normalizeLabels_def strict_labels_def)

lemma strict_unique:
  fixes xs ys :: "string list"
  assumes "strict_labels xs" "strict_labels ys" "set xs = set ys"
  shows "xs = ys"
  using assms unfolding strict_labels_def by (metis strict_sorted_equal)

lemma normalizeLabels_id: "strict_labels labels \<Longrightarrow> normalizeLabels labels = labels"
  using strict_unique normalizeLabels_strict by blast

section \<open>What is encoded is decoded\<close>

lemma labelSizes_Inr:
  "labelSizes d e f labels = Inr n \<Longrightarrow> d + sum_list (map (int \<circ> length) labels) \<le> max d MaxDerivedLabelBytesPerVersion"
proof (induction d e f labels rule: labelSizes.induct)
  case (2 d e f label rest)
  then show ?case by (auto simp: Let_def split: if_splits)
qed simp

lemma ValidateTextWithoutNUL_ok:
  "utf8_valid v \<Longrightarrow> int (length v) \<le> m \<Longrightarrow> CHR 0x00 \<notin> set v \<Longrightarrow> ValidateTextWithoutNUL f v m = Inr ()"
  by simp

lemma preflightLabels_ok:
  assumes "sorted_wrt (<) labels" "seen + int (length labels) \<le> MaxLabelsPerNode"
    "\<forall>label \<in> set labels. utf8_valid label \<and> int (length label) \<le> MaxLabelBytes \<and> CHR 0x00 \<notin> set label"
    "d + sum_list (map (int \<circ> length) labels) \<le> MaxDerivedLabelBytesPerVersion"
    "0 < seen \<Longrightarrow> labels \<noteq> [] \<Longrightarrow> previous < hd labels" "0 \<le> seen"
  shows "preflightLabels seen d previous labels = Inr ()"
  using assms
proof (induction labels arbitrary: seen d previous)
  case (Cons label rest)
  have "0 \<le> (\<Sum>a\<leftarrow>rest. int (length a))" by (intro sum_list_nonneg) auto
  moreover have "preflightLabels (seen + 1) (d + int (length label)) label rest = Inr ()"
    using Cons.prems by (intro Cons.IH) (auto simp: neq_Nil_conv)
  moreover have "\<not> (seen + 1 > 1 \<and> label \<le> previous)" using Cons.prems(5,6) by auto
  ultimately show ?case using Cons.prems(2-4) by (auto simp: Let_def ValidateTextWithoutNUL_ok comp_def)
qed simp

theorem decodeLabels_encode:
  assumes "encodeLabels labels = Inr out"
  shows "decodeLabels out = Inr out \<and> strict_labels out \<and> set out = set labels"
proof -
  have n: "out = normalizeLabels labels" "int (length labels) \<le> MaxLabelsPerNode"
    "int (length (labels_json out)) \<le> MaxEncodedLabelsBytes"
    "\<exists>e. (if out = [] then Inr 4 else labelSizes 0 2 True out) = Inr e"
    using assms by (auto simp: encodeLabels_def bindE_Inr_iff Let_def split: if_splits)
  have s: "strict_labels out" "set out = set labels" using normalizeLabels_strict n(1) by simp_all
  have v: "\<forall>label \<in> set labels. utf8_valid label \<and> int (length label) \<le> MaxLabelBytes \<and> CHR 0x00 \<notin> set label"
    using assms by (auto simp: encodeLabels_def bindE_Inr_iff mapE_Inr_iff list_all2_conv_all_nth in_set_conv_nth split: if_splits)
  have "distinct out" using s(1) strict_sorted_iff unfolding strict_labels_def by blast
  then have "length out \<le> length labels" using s(2) card_length [of labels] distinct_card by metis
  moreover have "sum_list (map (int \<circ> length) out) \<le> MaxDerivedLabelBytesPerVersion"
    using n(4) labelSizes_Inr [of 0 2 True out] by (cases "out = []") (auto simp: limit_defs)
  ultimately have "preflightLabels 0 0 [] out = Inr ()"
    using s v n(2) by (intro preflightLabels_ok) (auto simp: strict_labels_def)
  then show ?thesis using s n(3) by (simp add: decodeLabels_def ValidateBytes_ok)
qed

lemma encodeLabels_mono:
  assumes "encodeLabels labels = Inr out"
  shows "encodeLabels out = Inr out"
proof -
  have d: "strict_labels out" "set out = set labels" using decodeLabels_encode [OF assms] by simp_all
  have n: "out = normalizeLabels labels" "int (length labels) \<le> MaxLabelsPerNode"
    using assms by (auto simp: encodeLabels_def bindE_Inr_iff Let_def split: if_splits)
  have v: "\<forall>label \<in> set labels. utf8_valid label \<and> int (length label) \<le> MaxLabelBytes \<and> CHR 0x00 \<notin> set label"
    using assms by (auto simp: encodeLabels_def bindE_Inr_iff mapE_Inr_iff list_all2_conv_all_nth in_set_conv_nth split: if_splits)
  then have "mapE (\<lambda>label. ValidateTextWithoutNUL ''node label'' label MaxLabelBytes) out = Inr (map (\<lambda>_. ()) out)"
    using d(2) by (intro mapE_map) simp
  moreover have "distinct out" using d(1) strict_sorted_iff unfolding strict_labels_def by blast
  then have "length out \<le> length labels" using d(2) card_length [of labels] distinct_card by metis
  ultimately show ?thesis
    using assms n normalizeLabels_id [OF d(1)] by (auto simp: encodeLabels_def bindE_Inr_iff Let_def split: if_splits)
qed

end
