(* ===== verification/Codec_Properties.thy ===== *)
theory Codec_Properties
  imports Label_Codec
begin

text \<open>
  The properties of the codec as theorems about the code's model, each with an instance: what is encoded
  is read back, the size predicted for a tree is the size written, the preflight bounds what the encoder
  does, and the one value that is written but refused when it is read.
\<close>

section \<open>A property map with one timestamp\<close>


definition fixed_utc :: GoTime where
  "fixed_utc = \<lparr>gt_seconds = 0, gt_nanoseconds = 0, gt_place = PZone ''UTC'' 0\<rparr>"

definition time_text :: "int \<Rightarrow> string" where
  "time_text minute = b64_encode (CHR 0x01 # (be_put 8 0 @ be_put 4 0) @ be_put 2 minute)"

definition time_node :: "string \<Rightarrow> encodedValue" where
  "time_node txt = EncodedValue ''map'' False [] [] 0 [] [(''t'', EncodedValue ''time'' False txt ''UTC'' 0 [] [])]"

lemma utf8_UTC: "utf8_valid ''UTC''" "utf8_valid ''t''"
  by (simp_all add: utf8_valid.simps decode_rune_def byte_of_def rune_error_def)

lemma time_text_facts: "length (time_text n) = 20" "\<forall>c \<in> set (time_text n). json_safe c" "time_text n \<noteq> []"
proof -
  show l: "length (time_text n) = 20" by (simp add: time_text_def b64_len_def)
  show "\<forall>c \<in> set (time_text n). json_safe c" unfolding time_text_def by (rule safe_b64)
  show "time_text n \<noteq> []" using l by auto
qed

lemma time_text_differs: "time_text 0 \<noteq> time_text (- 1)"
proof
  assume "time_text 0 = time_text (- 1)"
  then have "be_put 2 0 = be_put 2 (- 1)"
    using b64_decode_encode unfolding time_text_def by (metis append_Cons append_same_eq list.inject option.inject same_append_eq)
  then have "be_get (be_put 2 0) = be_get (be_put 2 (- 1))" by simp
  then show False by (simp add: be_get_put)
qed

lemma encodeGoTime_utc:
  "encodeGoTime fixed_utc = Inr (EncodedValue ''time'' False (time_text 0) ''UTC'' 0 [] [])"
  "encodeGoTime (fixed_utc\<lparr>gt_place := PUTC\<rparr>) = Inr (EncodedValue ''time'' False (time_text (- 1)) ''UTC'' 0 [] [])"
  using utf8_UTC(1)
  by (simp_all add: encodeGoTime_def fixed_utc_def wireTime_def goMarshalBinary_def smod_nonneg sdiv_nonneg ValidateText_ok
      limit_defs Let_def time_text_def del: be_put.simps)

lemma safe_names: "\<forall>c \<in> set ''UTC''. json_safe c" "\<forall>c \<in> set ''time''. json_safe c" "\<forall>c \<in> set ''map''. json_safe c"
  "\<forall>c \<in> set ''t''. json_safe c" "\<forall>c \<in> set ''k''. json_safe c" "\<forall>c \<in> set ''s''. json_safe c" "\<forall>c \<in> set ''z''. json_safe c"
  "\<forall>c \<in> set ''o''. json_safe c"
  by (simp_all add: json_safe_def byte_of_def)

lemmas utf8_names = utf8_safe [OF safe_names(2)] utf8_safe [OF safe_names(3)]

lemmas safe_texts = json_chars_safe [OF safe_names(1)] json_chars_safe [OF safe_names(2)] json_chars_safe [OF safe_names(3)]
  json_chars_safe [OF safe_names(4)] json_chars_safe [OF safe_names(5)] json_chars_safe [OF safe_names(6)]
  json_chars_safe [OF safe_names(7)] json_chars_safe [OF safe_names(8)]
  json_chars_safe [OF time_text_facts(2)]

lemmas safe_text_sizes = json_chars_size_safe [OF safe_names(1)] json_chars_size_safe [OF safe_names(2)]
  json_chars_size_safe [OF safe_names(3)] json_chars_size_safe [OF safe_names(4)] json_chars_size_safe [OF safe_names(5)]
  json_chars_size_safe [OF safe_names(6)] json_chars_size_safe [OF safe_names(7)] json_chars_size_safe [OF safe_names(8)]
  json_chars_size_safe [OF time_text_facts(2)]

lemma time_node_json:
  "json_marshal (time_node (time_text 0)) \<noteq> json_marshal (time_node (time_text (- 1)))"
  "length (json_marshal (time_node (time_text n))) = 71"
  "canonicalEncodedValueSize (time_node (time_text n)) = 71"
  "canonicalEncodedValueSize (EncodedValue ''time'' False (time_text n) ''UTC'' 0 [] []) = 49"
  using time_text_differs time_text_facts(1,3)
  by (simp_all add: time_node_def json_field_def json_string_def safe_texts bracket_size_def add_field_def jsonStringSize_def
      safe_text_sizes del: One_nat_def)

lemma encode_time_node:
  assumes "encodeGoTime x = Inr (EncodedValue ''time'' False (time_text n) ''UTC'' 0 [] [])" "place_name (gt_place x) = ''UTC''"
  shows "encodeProperties (VMap [(''t'', VGoTime x)]) = Inr (time_node (time_text n))"
    "validateEncodedIndexBudget (time_node (time_text n)) = Inr ()"
proof -
  have p: "preflightPropertyInput (VMap [(''t'', VGoTime x)]) = Inr \<lparr>pf_values = 2, pf_base64 = 0, pf_count = 1, pf_bytes = 50\<rparr>"
    using assms utf8_UTC time_node_json(4) [of n]
    by (simp add: preflightPropertyInput_def preflightValue.simps Let_def limit_defs reserveChildren_def ValidateText_ok
        scalarPropertyEncodedSize_def preflightIndexed_def del: canonicalEncodedValueSize.simps)
  have e: "encodeValue \<lparr>enc_values = 0, enc_base64 = 0\<rparr> 0 (VMap [(''t'', VGoTime x)]) =
      Inr (time_node (time_text n), \<lparr>enc_values = 2, enc_base64 = 0\<rparr>)"
    using assms(1) utf8_UTC
    by (simp add: encodeValue.simps Let_def limit_defs reserveChildren_def ValidateText_ok encodeScalar_def time_node_def)
  show b: "validateEncodedIndexBudget (time_node (time_text n)) = Inr ()" by (rule preflight_index_budget [OF p e])
  show "encodeProperties (VMap [(''t'', VGoTime x)]) = Inr (time_node (time_text n))"
    using p e b time_node_json(2,3) [of n] by (simp add: encodeProperties_def limit_defs)
qed

section \<open>Properties\<close>

text \<open>C31: Whatever property map encodeProperties accepts, decodeProperties reads back, with every integer as a
  signed 64-bit one and every time.Time in the location its written name and offset select; the value
  read back encodes to the same tree again.  The map must hold values of their Go types (wf_value) and no
  time.Time in a fixed zone called UTC (recodes).\<close>

theorem properties_read_back:
  assumes "encodeProperties (VMap m) = Inr e" "wf_value (VMap m)" "recodes (VMap m)"
  shows "decodeProperties e = Inr (norm_value (VMap m)) \<and> encodeProperties (norm_value (VMap m)) = Inr e"
  using decodeProperties_encode [OF assms] encodeProperties_norm [OF assms(1,3)] by simp

lemma properties_read_back_witness:
  "decodeProperties (time_node (time_text (- 1))) = Inr (VMap [(''t'', VGoTime (fixed_utc\<lparr>gt_place := PUTC\<rparr>))])"
proof -
  have n: "place_name (gt_place (fixed_utc\<lparr>gt_place := PUTC\<rparr>)) = ''UTC''" by (simp add: fixed_utc_def)
  show ?thesis
    using properties_read_back [OF encode_time_node(1) [OF encodeGoTime_utc(2) n]]
    by (simp add: fixed_utc_def norm_place_def in64_def)
qed

text \<open>C33: The size that canonicalEncodedValueSize computes for a tree without building its text is the length of
  the text that json.Marshal writes for it, escapes included, whenever its strings are valid UTF-8.\<close>

theorem predicted_size_exact:
  assumes "ev_utf8 v"
  shows "canonicalEncodedValueSize v = int (length (json_marshal v))"
  using assms by (rule canonicalEncodedValueSize_exact)

lemma predicted_size_exact_witness:
  "canonicalEncodedValueSize (time_node (time_text 0)) = int (length (json_marshal (time_node (time_text 0))))"
  by (rule predicted_size_exact) (simp add: time_node_def utf8_UTC utf8_names utf8_safe [OF time_text_facts(2)])

text \<open>C32: A property value that passes preflightPropertyInput hits no resource limit in the encoder, neither of depth
  nor of the number of values or children, text lengths or base64 bytes: if the binary forms admit every temporal value in it and
  every unsigned integer in it has a signed 64-bit value, encoding yields a tree whose values and base64 bytes are
  exactly those the preflight counted and whose derived index is within its budget; otherwise encoding fails with
  a plain error.\<close>

theorem preflight_accounts:
  assumes "preflightPropertyInput v = Inr s"
  shows "if representable v
    then \<exists>e t. encodeValue \<lparr>enc_values = 0, enc_base64 = 0\<rparr> 0 v = Inr (e, t) \<and> enc_values t = pf_values s \<and>
      enc_base64 t = pf_base64 s \<and> validateEncodedIndexBudget e = Inr ()
    else encodeValue \<lparr>enc_values = 0, enc_base64 = 0\<rparr> 0 v = Inl PlainError"
proof -
  have "accounts \<lparr>pf_values = 0, pf_base64 = 0, pf_count = 0, pf_bytes = 0\<rparr> \<lparr>enc_values = 0, enc_base64 = 0\<rparr>"
    by (simp add: accounts_def)
  from preflight_encode(1) [OF assms [unfolded preflightPropertyInput_def] this]
  show ?thesis using preflight_index_budget [OF assms] unfolding accounts_def as_counted_def by (metis (full_types))
qed

lemma preflight_accounts_witness:
  "\<exists>e t. encodeValue \<lparr>enc_values = 0, enc_base64 = 0\<rparr> 0 (VInt 5) = Inr (e, t) \<and> enc_values t = 1 \<and>
     validateEncodedIndexBudget e = Inr ()"
proof -
  have "preflightPropertyInput (VInt 5) = Inr \<lparr>pf_values = 1, pf_base64 = 0, pf_count = 0, pf_bytes = 0\<rparr>"
    by (simp add: preflightPropertyInput_def preflightValue.simps limit_defs Let_def)
  from preflight_accounts [OF this] show ?thesis
    by (auto simp: encodeValue.simps encodeScalar_def limit_defs Let_def)
qed

text \<open>C34: encodeLabels sorts the labels of a node and drops the repeated ones without losing or inventing one,
  decodeLabels accepts what it wrote, and encoding that list again changes nothing.\<close>

theorem labels_canonical:
  assumes "encodeLabels labels = Inr out"
  shows "decodeLabels out = Inr out \<and> sorted_wrt (<) out \<and> set out = set labels \<and> encodeLabels out = Inr out"
  using decodeLabels_encode [OF assms] encodeLabels_mono [OF assms] unfolding strict_labels_def by simp

lemma labels_canonical_witness: "decodeLabels [''a'', ''b''] = Inr [''a'', ''b'']"
proof -
  have safe: "\<forall>c \<in> set ''a''. json_safe c" "\<forall>c \<in> set ''b''. json_safe c" by (simp_all add: json_safe_def byte_of_def)
  note u = utf8_safe [OF safe(1)] utf8_safe [OF safe(2)]
  have "normalizeLabels [''b'', ''a'', ''b''] = [''a'', ''b'']" by (simp add: normalizeLabels_def)
  moreover have "mapE (\<lambda>label. ValidateTextWithoutNUL ''node label'' label MaxLabelBytes) [''b'', ''a'', ''b''] = Inr (map (\<lambda>_. ()) [''b'', ''a'', ''b''])"
    using u by (intro mapE_map) (auto simp: ValidateTextWithoutNUL_ok limit_defs)
  moreover have "labelSizes 0 2 True [''a'', ''b''] = Inr 9"
    by (simp add: limit_defs Let_def jsonStringSize_def json_chars_size_safe [OF safe(1)] json_chars_size_safe [OF safe(2)])
  moreover have "length (labels_json [''a'', ''b'']) = 9"
    by (simp add: labels_json_def json_string_def json_chars_safe [OF safe(1)] json_chars_safe [OF safe(2)])
  ultimately have "encodeLabels [''b'', ''a'', ''b''] = Inr [''a'', ''b'']"
    by (simp add: encodeLabels_def limit_defs Let_def)
  from labels_canonical [OF this] show ?thesis by simp
qed

text \<open>C36: A timestamp in time.FixedZone("UTC", 0) is written and then refused: decodeProperties chooses time.UTC by
  the written name, whose binary form differs, so the text it encodes again is not the one it read.\<close>

theorem fixed_utc_refused: "\<exists>e. encodeProperties (VMap [(''t'', VGoTime fixed_utc)]) = Inr e \<and> decodeProperties e = Inl PlainError"
proof -
  have n: "place_name (gt_place fixed_utc) = ''UTC''" "place_name (gt_place (fixed_utc\<lparr>gt_place := PUTC\<rparr>)) = ''UTC''"
    by (simp_all add: fixed_utc_def)
  note a = encode_time_node [OF encodeGoTime_utc(1) n(1)]
  note b = encode_time_node [OF encodeGoTime_utc(2) n(2)]
  obtain t where e: "encodeValue \<lparr>enc_values = 0, enc_base64 = 0\<rparr> 0 (VMap [(''t'', VGoTime fixed_utc)]) = Inr (time_node (time_text 0), t)"
    using a(1) by (auto simp: encodeProperties_def bindE_Inr_iff Let_def split: if_splits)
  have "decodeValue 0 0 (time_node (time_text 0)) = Inr (VMap [(''t'', VGoTime (fixed_utc\<lparr>gt_place := PUTC\<rparr>))], enc_values t)"
    using decode_encode(1) [OF e] by (simp add: fixed_utc_def norm_place_def in64_def)
  then have "decodeProperties (time_node (time_text 0)) = Inl PlainError"
    using a(2) b(1) time_node_json(1,2) by (simp add: decodeProperties_def ValidateBytes_ok limit_defs)
  with a(1) show ?thesis by blast
qed
end
