(* ===== verification/Version_Table.thy ===== *)
theory Version_Table
  imports Prelude
begin

text \<open>
  The version tables of the store (\<open>node_versions\<close> and \<open>edge_versions\<close> of
  \<open>internal/store/migrations/001_initial.sql\<close>) and the statements that \<open>write.go\<close> and \<open>read.go\<close> run on
  them.  A row holds an identity, the revision it is valid from, the revision it is valid to (\<open>None\<close> for
  the SQL \<open>NULL\<close> of the current version) and its data; a table is the list of its rows.
\<close>

section \<open>Rows and statements\<close>

record ('k, 'a) version =
  ver_id :: 'k
  ver_from :: int
  ver_to :: "int option"
  ver_data :: 'a

type_synonym ('k, 'a) vtable = "('k, 'a) version list"

text \<open>\<open>valid_from <= r AND (valid_to IS NULL OR valid_to > r)\<close>\<close>

definition visible :: "int \<Rightarrow> ('k, 'a) version \<Rightarrow> bool" where
  "visible r v \<longleftrightarrow> ver_from v \<le> r \<and> (case ver_to v of None \<Rightarrow> True | Some k \<Rightarrow> r < k)"

definition select_at :: "int \<Rightarrow> ('k, 'a) vtable \<Rightarrow> 'k \<Rightarrow> ('k, 'a) version option" where
  "select_at r t k = find (\<lambda>v. ver_id v = k \<and> visible r v) t"

definition select_current :: "('k, 'a) vtable \<Rightarrow> 'k \<Rightarrow> ('k, 'a) version option" where
  "select_current t k = find (\<lambda>v. ver_id v = k \<and> ver_to v = None) t"

definition current_rows :: "('k, 'a) vtable \<Rightarrow> ('k, 'a) version list" where
  "current_rows t = filter (\<lambda>v. ver_to v = None) t"

definition insert_version :: "'k \<Rightarrow> int \<Rightarrow> 'a \<Rightarrow> ('k, 'a) vtable \<Rightarrow> ('k, 'a) vtable" where
  "insert_version k r d t = t @ [\<lparr>ver_id = k, ver_from = r, ver_to = None, ver_data = d\<rparr>]"

definition close_version :: "'k \<Rightarrow> int \<Rightarrow> ('k, 'a) vtable \<Rightarrow> ('k, 'a) vtable" where
  "close_version k r t = map (\<lambda>v. if ver_id v = k \<and> ver_to v = None then v\<lparr>ver_to := Some r\<rparr> else v) t"

definition edit_version :: "'k \<Rightarrow> int \<Rightarrow> 'a \<Rightarrow> ('k, 'a) vtable \<Rightarrow> ('k, 'a) vtable" where
  "edit_version k r d t = map (\<lambda>v. if ver_id v = k \<and> ver_from v = r then v\<lparr>ver_data := d\<rparr> else v) t"

definition delete_version :: "'k \<Rightarrow> int \<Rightarrow> ('k, 'a) vtable \<Rightarrow> ('k, 'a) vtable" where
  "delete_version k r t = filter (\<lambda>v. \<not> (ver_id v = k \<and> ver_from v = r)) t"

definition cascade_delete :: "'k \<Rightarrow> ('k, 'a) vtable \<Rightarrow> ('k, 'a) vtable" where
  "cascade_delete k t = filter (\<lambda>v. ver_id v \<noteq> k) t"

section \<open>Histories\<close>

text \<open>Two rows of one identity have disjoint half-open intervals, and every interval starts and ends at a
  revision up to \<open>r\<close>, the newest one.\<close>

definition before :: "('k, 'a) version \<Rightarrow> ('k, 'a) version \<Rightarrow> bool" where
  "before v w \<longleftrightarrow> (case ver_to v of None \<Rightarrow> False | Some k \<Rightarrow> k \<le> ver_from w)"

definition row_ok :: "int \<Rightarrow> ('k, 'a) version \<Rightarrow> bool" where
  "row_ok r v \<longleftrightarrow> 1 \<le> ver_from v \<and> ver_from v \<le> r \<and> (case ver_to v of None \<Rightarrow> True | Some k \<Rightarrow> ver_from v < k \<and> k \<le> r)"

definition history_ok :: "int \<Rightarrow> ('k, 'a) vtable \<Rightarrow> bool" where
  "history_ok r t \<longleftrightarrow>
     distinct (map (\<lambda>v. (ver_id v, ver_from v)) t) \<and> (\<forall>v \<in> set t. row_ok r v) \<and>
     (\<forall>v \<in> set t. \<forall>w \<in> set t. ver_id v = ver_id w \<longrightarrow> ver_from v = ver_from w \<or> before v w \<or> before w v)"

text \<open>What a table says at a revision, and what it says now.\<close>

definition view_at :: "int \<Rightarrow> ('k, 'a) vtable \<Rightarrow> 'k \<Rightarrow> 'a option" where
  "view_at r t k = map_option ver_data (select_at r t k)"

definition view_now :: "('k, 'a) vtable \<Rightarrow> 'k \<Rightarrow> 'a option" where
  "view_now t k = map_option ver_data (select_current t k)"

lemma find_unique:
  assumes "\<And>v w. v \<in> set t \<Longrightarrow> w \<in> set t \<Longrightarrow> P v \<Longrightarrow> P w \<Longrightarrow> v = w"
  shows "find P t = Some v \<longleftrightarrow> v \<in> set t \<and> P v"
  using assms by (induction t) auto

lemma history_key:
  assumes "history_ok r t" "v \<in> set t" "w \<in> set t" "ver_id v = ver_id w" "ver_from v = ver_from w"
  shows "v = w"
  using assms unfolding history_ok_def by (metis (no_types, lifting) distinct_map inj_onD)

lemma visible_unique:
  assumes h: "history_ok r t" and v: "v \<in> set t" "w \<in> set t" "ver_id v = ver_id w" "visible n v" "visible n w"
  shows "v = w"
proof -
  have "\<not> before v w" "\<not> before w v" using v(4,5) by (auto simp: visible_def before_def split: option.splits)
  then have "ver_from v = ver_from w" using h v(1-3) unfolding history_ok_def by blast
  then show ?thesis using history_key [OF h v(1-3)] by blast
qed

lemma row_okD: "history_ok r t \<Longrightarrow> v \<in> set t \<Longrightarrow> row_ok r v"
  by (simp add: history_ok_def)

lemma current_visible: "row_ok r v \<Longrightarrow> ver_to v = None \<longleftrightarrow> visible r v"
  by (auto simp: row_ok_def visible_def split: option.splits)

lemma select_at_Some:
  assumes "history_ok r t"
  shows "select_at n t k = Some v \<longleftrightarrow> v \<in> set t \<and> ver_id v = k \<and> visible n v"
  unfolding select_at_def using visible_unique [OF assms] by (subst find_unique) auto

lemma select_current_Some:
  assumes "history_ok r t"
  shows "select_current t k = Some v \<longleftrightarrow> v \<in> set t \<and> ver_id v = k \<and> ver_to v = None"
  unfolding select_current_def
  using visible_unique [OF assms] current_visible [OF row_okD [OF assms]] by (subst find_unique) auto

lemma select_current_None: "select_current t k = None \<longleftrightarrow> (\<forall>v \<in> set t. ver_id v = k \<longrightarrow> ver_to v \<noteq> None)"
  unfolding select_current_def by (auto simp: find_None_iff)

lemma select_at_current:
  assumes "history_ok r t"
  shows "select_at r t = select_current t"
proof
  fix k
  have "select_at r t k = Some v \<longleftrightarrow> select_current t k = Some v" for v
    unfolding select_at_Some [OF assms] select_current_Some [OF assms]
    using current_visible [OF row_okD [OF assms]] by blast
  then show "select_at r t k = select_current t k" by (metis not_Some_eq)
qed

lemma view_at_now: "history_ok r t \<Longrightarrow> view_at r t = view_now t"
  by (simp add: fun_eq_iff view_at_def view_now_def select_at_current)

lemma view_now_Some:
  assumes "history_ok r t"
  shows "view_now t k = Some d \<longleftrightarrow> (\<exists>v \<in> set t. ver_id v = k \<and> ver_to v = None \<and> ver_data v = d)"
  unfolding view_now_def using select_current_Some [OF assms] by (auto simp: map_option_eq_Some)

lemma view_at_Some:
  assumes "history_ok r t"
  shows "view_at n t k = Some d \<longleftrightarrow> (\<exists>v \<in> set t. ver_id v = k \<and> visible n v \<and> ver_data v = d)"
  unfolding view_at_def using select_at_Some [OF assms] by (auto simp: map_option_eq_Some)

lemma view_now_None: "view_now t k = None \<longleftrightarrow> (\<forall>v \<in> set t. ver_id v = k \<longrightarrow> ver_to v \<noteq> None)"
  by (simp add: view_now_def select_current_None)

text \<open>A new revision changes no row, and a table without rows of the newest revision says what it said before.\<close>

lemma history_ok_next: "history_ok r t \<Longrightarrow> history_ok (r + 1) t"
  by (fastforce simp: history_ok_def row_ok_def split: option.splits)

section \<open>What each statement does to a history\<close>

lemma fresh_key:
  assumes "history_ok r t" "view_now t k = None" "v \<in> set t" "ver_id v = k"
  shows "ver_from v < r" "before v \<lparr>ver_id = k, ver_from = r, ver_to = None, ver_data = d\<rparr>"
  using assms row_okD [OF assms(1,3)]
  by (auto simp: view_now_None row_ok_def before_def split: option.splits)

lemma insert_history:
  assumes h: "history_ok r t" and r: "1 \<le> r" and n: "view_now t k = None"
  shows "history_ok r (insert_version k r d t)"
proof -
  have "(k, r) \<notin> set (map (\<lambda>v. (ver_id v, ver_from v)) t)" using fresh_key(1) [OF h n] by force
  moreover have "before v \<lparr>ver_id = k, ver_from = r, ver_to = None, ver_data = d\<rparr>" if "v \<in> set t" "ver_id v = k" for v
    using fresh_key(2) [OF h n that] .
  ultimately show ?thesis using h r unfolding history_ok_def insert_version_def by (auto simp: row_ok_def)
qed

lemma close_rows:
  assumes "v \<in> set (close_version k r t)"
  obtains w where "w \<in> set t" "ver_id w = ver_id v" "ver_from w = ver_from v" "ver_data w = ver_data v"
    "ver_to v = (if ver_id w = k \<and> ver_to w = None then Some r else ver_to w)"
  using assms by (auto simp: close_version_def split: if_splits)

lemma close_history:
  assumes h: "history_ok r t" and k: "\<And>v. v \<in> set t \<Longrightarrow> ver_id v = k \<Longrightarrow> ver_to v = None \<Longrightarrow> ver_from v < r"
  shows "history_ok r (close_version k r t)"
proof -
  have m: "map (\<lambda>v. (ver_id v, ver_from v)) (close_version k r t) = map (\<lambda>v. (ver_id v, ver_from v)) t"
    by (simp add: close_version_def)
  have ok: "row_ok r v" if v: "v \<in> set (close_version k r t)" for v
  proof -
    obtain w where w: "w \<in> set t" "ver_id w = ver_id v" "ver_from w = ver_from v"
      "ver_to v = (if ver_id w = k \<and> ver_to w = None then Some r else ver_to w)" using close_rows [OF v] by metis
    show ?thesis using row_okD [OF h w(1)] k [OF w(1)] w(2-4) by (auto simp: row_ok_def split: option.splits if_splits)
  qed
  have dis: "ver_from v = ver_from w \<or> before v w \<or> before w v"
    if vw: "v \<in> set (close_version k r t)" "w \<in> set (close_version k r t)" "ver_id v = ver_id w" for v w
  proof -
    obtain v0 where v0: "v0 \<in> set t" "ver_id v0 = ver_id v" "ver_from v0 = ver_from v"
      "ver_to v = (if ver_id v0 = k \<and> ver_to v0 = None then Some r else ver_to v0)" using close_rows [OF vw(1)] by metis
    obtain w0 where w0: "w0 \<in> set t" "ver_id w0 = ver_id w" "ver_from w0 = ver_from w"
      "ver_to w = (if ver_id w0 = k \<and> ver_to w0 = None then Some r else ver_to w0)" using close_rows [OF vw(2)] by metis
    have "ver_from v0 = ver_from w0 \<or> before v0 w0 \<or> before w0 v0"
      using h v0(1,2) w0(1,2) vw(3) unfolding history_ok_def by metis
    then show ?thesis using v0(3,4) w0(3,4) by (auto simp: before_def split: option.splits if_splits)
  qed
  show ?thesis using h m ok dis unfolding history_ok_def by metis
qed

lemma edit_history:
  assumes h: "history_ok r t"
  shows "history_ok r (edit_version k r d t)"
proof -
  define f where "f = (\<lambda>v. if ver_id v = k \<and> ver_from v = r then v\<lparr>ver_data := d\<rparr> else (v :: ('a, 'b) version))"
  have f: "ver_id (f v) = ver_id v" "ver_from (f v) = ver_from v" "row_ok r (f v) = row_ok r v"
    "before (f v) w = before v w" "before w (f v) = before w v" for v w
    by (auto simp: f_def row_ok_def before_def split: option.splits)
  have e: "edit_version k r d t = map f t" by (simp add: edit_version_def f_def)
  show ?thesis using h by (simp add: history_ok_def e f comp_def)
qed

lemma delete_history:
  assumes "history_ok r t"
  shows "history_ok r (delete_version k n t)" "history_ok r (cascade_delete k t)"
  using assms by (auto simp: history_ok_def delete_version_def cascade_delete_def distinct_map inj_on_def)

text \<open>Rows of the newest revision and rows that it closes are all that changes, so the past stays as it is.\<close>

lemma find_map_same: "(\<And>v. P (f v) = P v) \<Longrightarrow> find P (map f t) = map_option f (find P t)"
  by (induction t) auto

lemma find_filter_same: "(\<And>v. P v \<Longrightarrow> Q v) \<Longrightarrow> find P (filter Q t) = find P t"
  by (induction t) auto

lemma find_snoc: "find P (t @ [x]) = (case find P t of None \<Rightarrow> if P x then Some x else None | Some v \<Rightarrow> Some v)"
  by (induction t) auto

lemma find_SomeD: "find P t = Some v \<Longrightarrow> v \<in> set t \<and> P v"
  by (auto simp: find_Some_iff)

lemma view_map:
  assumes "\<And>v. ver_id (f v) = ver_id v" "\<And>v. v \<in> set t \<Longrightarrow> visible n (f v) = visible n v"
    "\<And>v. v \<in> set t \<Longrightarrow> visible n v \<Longrightarrow> ver_data (f v) = ver_data v"
  shows "view_at n (map f t) = view_at n t"
proof
  fix k
  show "view_at n (map f t) k = view_at n t k"
    using assms(2,3) unfolding view_at_def select_at_def by (induction t) (simp_all add: assms(1))
qed

lemma insert_past: "n < r \<Longrightarrow> view_at n (insert_version k r d t) = view_at n t"
  by (simp add: fun_eq_iff view_at_def select_at_def insert_version_def find_snoc visible_def split: option.splits)

lemma edit_past: "n < r \<Longrightarrow> view_at n (edit_version k r d t) = view_at n t"
  unfolding edit_version_def by (rule view_map) (auto simp: visible_def)

lemma delete_past: "n < r \<Longrightarrow> view_at n (delete_version k r t) = view_at n t"
  by (auto simp: fun_eq_iff view_at_def select_at_def delete_version_def visible_def intro!: arg_cong [where f = "map_option _"]
      find_filter_same)

lemma close_past: "n < r \<Longrightarrow> view_at n (close_version k r t) = view_at n t"
  unfolding close_version_def by (rule view_map) (auto simp: visible_def)

section \<open>What each statement does to the current versions\<close>

lemma insert_now: "view_now t k = None \<Longrightarrow> view_now (insert_version k r d t) = (view_now t)(k := Some d)"
  by (auto simp: fun_eq_iff view_now_def select_current_def insert_version_def find_snoc split: option.splits)

lemma close_now: "view_now (close_version k r t) = (view_now t)(k := None)"
proof
  fix j
  show "view_now (close_version k r t) j = ((view_now t)(k := None)) j"
  proof (cases "j = k")
    case True
    have "view_now (close_version k r t) k = None" unfolding view_now_None
      by (metis close_rows option.simps(3))
    then show ?thesis using True by simp
  next
    case False
    have "find (\<lambda>v. ver_id v = j \<and> ver_to v = None) (close_version k r t) = find (\<lambda>v. ver_id v = j \<and> ver_to v = None) t"
      using False unfolding close_version_def by (induction t) simp_all
    then show ?thesis using False by (simp add: view_now_def select_current_def)
  qed
qed

lemma current_unique:
  assumes "history_ok r t" "v \<in> set t" "ver_to v = None" "w \<in> set t" "ver_id w = ver_id v" "ver_to w = None"
  shows "w = v"
  using assms visible_unique [OF assms(1,4,2,5)] current_visible [OF row_okD [OF assms(1)]] by blast

lemma from_newest_current: "row_ok r v \<Longrightarrow> ver_from v = r \<Longrightarrow> ver_to v = None"
  by (auto simp: row_ok_def split: option.splits)

lemma edit_now:
  assumes h: "history_ok r t" and v: "select_current t k = Some v" "ver_from v = r"
  shows "view_now (edit_version k r d t) = (view_now t)(k := Some d)"
proof -
  have "view_now (edit_version k r d t) j = Some e \<longleftrightarrow> ((view_now t)(k := Some d)) j = Some e" for j e
  proof (cases "j = k")
    case True
    have k: "v \<in> set t" "ver_id v = k" "ver_to v = None" using v(1) select_current_Some [OF h] by auto
    then have "v\<lparr>ver_data := d\<rparr> \<in> set (edit_version k r d t)" using v(2) by (force simp: edit_version_def)
    then have "view_now (edit_version k r d t) k = Some d"
      unfolding view_now_Some [OF edit_history [OF h]] by (rule bexI [rotated]) (simp add: k)
    then show ?thesis using True by simp
  next
    case False
    then show ?thesis
      unfolding view_now_Some [OF edit_history [OF h]] fun_upd_apply by (auto simp: view_now_Some [OF h] edit_version_def)
  qed
  then show ?thesis by (metis ext not_Some_eq)
qed

lemma delete_now:
  assumes h: "history_ok r t" and v: "select_current t k = Some v" "ver_from v = r"
  shows "view_now (delete_version k r t) = (view_now t)(k := None)"
proof -
  have k: "v \<in> set t" "ver_id v = k" "ver_to v = None" using v(1) select_current_Some [OF h] by auto
  have "view_now (delete_version k r t) j = Some e \<longleftrightarrow> ((view_now t)(k := None)) j = Some e" for j e
    unfolding view_now_Some [OF delete_history(1) [OF h]] fun_upd_apply
    using current_unique [OF h k(1,3)] k(2) v(2) by (auto simp: view_now_Some [OF h] delete_version_def)
  then show ?thesis by (metis ext not_Some_eq)
qed

text \<open>An identity all of whose rows are of the newest revision has only the current one.\<close>

lemma cascade_delete_eq:
  assumes "history_ok r t" "\<And>v. v \<in> set t \<Longrightarrow> ver_id v = k \<Longrightarrow> ver_from v = r"
  shows "cascade_delete k t = delete_version k r t"
  using assms(2) unfolding cascade_delete_def delete_version_def by (intro filter_cong) auto

section \<open>Writing the newest revision\<close>

text \<open>The way \<open>write.go\<close> combines the statements: a version of the active revision is edited or deleted in
  place, an older one is closed, and a new value gets a new row.\<close>

definition write_version :: "int \<Rightarrow> 'k \<Rightarrow> 'a option \<Rightarrow> ('k, 'a) vtable \<Rightarrow> ('k, 'a) vtable" where
  "write_version r k x t =
     (case select_current t k of
        Some v \<Rightarrow>
          (if ver_from v = r
           then (case x of Some d \<Rightarrow> edit_version k r d t | None \<Rightarrow> delete_version k r t)
           else (case x of Some d \<Rightarrow> insert_version k r d (close_version k r t) | None \<Rightarrow> close_version k r t))
      | None \<Rightarrow> (case x of Some d \<Rightarrow> insert_version k r d t | None \<Rightarrow> t))"

lemma write_version_ok:
  assumes h: "history_ok r t" and r: "1 \<le> r"
  shows "history_ok r (write_version r k x t)"
    and "view_now (write_version r k x t) = (view_now t)(k := x)"
    and "n < r \<Longrightarrow> view_at n (write_version r k x t) = view_at n t"
proof -
  have none: "view_now t k = None" if "select_current t k = None" using that by (simp add: view_now_def)
  have closed: "view_now (close_version k r t) k = None" by (simp add: close_now)
  have older: "history_ok r (close_version k r t)" if v: "select_current t k = Some v" "ver_from v \<noteq> r" for v
  proof (rule close_history [OF h])
    fix w assume w: "w \<in> set t" "ver_id w = k" "ver_to w = None"
    have "v \<in> set t" "ver_id v = k" "ver_to v = None" using v(1) select_current_Some [OF h] by auto
    then have "w = v" using current_unique [OF h _ _ w(1)] w by metis
    then show "ver_from w < r" using v(2) row_okD [OF h w(1)] by (auto simp: row_ok_def)
  qed
  show "history_ok r (write_version r k x t)"
    using insert_history [OF h r] insert_history [OF older r closed] edit_history [OF h] delete_history(1) [OF h] older h none
    by (auto simp: write_version_def split: option.splits)
  show "view_now (write_version r k x t) = (view_now t)(k := x)"
    using insert_now [OF none] edit_now [OF h] delete_now [OF h] none
    by (auto simp: write_version_def insert_now [OF closed] close_now fun_upd_idem_iff split: option.splits)
  show "view_at n (write_version r k x t) = view_at n t" if "n < r"
    using that
    by (auto simp: write_version_def insert_past edit_past delete_past close_past split: option.splits)
qed

section \<open>The contract of a version table\<close>

text \<open>What the writer relies on: writing an identity changes what the table says now about that identity and
  nothing of what it says about an earlier revision.\<close>

locale version_log =
  fixes ok :: "'t \<Rightarrow> bool" and now :: "'t \<Rightarrow> 'k \<Rightarrow> 'a option" and past :: "'t \<Rightarrow> 'p"
    and put :: "'k \<Rightarrow> 'a option \<Rightarrow> 't \<Rightarrow> 't"
  assumes put_ok: "ok t \<Longrightarrow> ok (put k x t)"
    and put_now: "ok t \<Longrightarrow> now (put k x t) = (now t)(k := x)"
    and put_past: "ok t \<Longrightarrow> past (put k x t) = past t"
begin

lemma writes_ok: "ok t \<Longrightarrow> ok (fold (\<lambda>(k, x). put k x) us t)"
  by (induction us arbitrary: t) (auto simp: put_ok)

lemma writes_now: "ok t \<Longrightarrow> now (fold (\<lambda>(k, x). put k x) us t) = fold (\<lambda>(k, x) m. m(k := x)) us (now t)"
  by (induction us arbitrary: t) (auto simp: put_ok put_now)

lemma writes_past: "ok t \<Longrightarrow> past (fold (\<lambda>(k, x). put k x) us t) = past t"
  by (induction us arbitrary: t) (auto simp: put_ok put_past)

lemma drops_now:
  assumes "ok t"
  shows "now (fold (\<lambda>k. put k None) ks t) = (now t) |` (- set ks)"
  using assms
proof (induction ks arbitrary: t)
  case (Cons k ks)
  show ?case using Cons.IH [OF put_ok [OF Cons.prems]] by (auto simp: put_now [OF Cons.prems] restrict_map_def fun_eq_iff)
qed (simp add: restrict_map_def fun_eq_iff)

lemma drops_ok: "ok t \<Longrightarrow> ok (fold (\<lambda>k. put k None) ks t)"
  by (induction ks arbitrary: t) (auto simp: put_ok)

lemma drops_past: "ok t \<Longrightarrow> past (fold (\<lambda>k. put k None) ks t) = past t"
  by (induction ks arbitrary: t) (auto simp: put_ok put_past)

end

text \<open>The tables of the store meet it at every revision from the first one on.\<close>

interpretation versions: version_log "\<lambda>t. 1 \<le> r \<and> history_ok r t" view_now "\<lambda>t n. if n < r then view_at n t else Map.empty" "write_version r" for r
  by unfold_locales (auto simp: write_version_ok fun_eq_iff)

end
