(* ===== verification/Child_Search.thy ===== *)
theory Child_Search
  imports Prelude
begin

text \<open>
  The search for CHILD paths: \<open>childPathExists\<close> of \<open>internal/store/write.go\<close>, which reads the targets of a
  batch of sources at a time.  The edges are the (source, target) pairs the query may return, in table
  order.  The recursive query of the schema's cycle trigger is the same search with batches of one, by the
  documented queue semantics of \<open>WITH RECURSIVE\<close> with \<open>UNION\<close>.
\<close>

text \<open>The loop over the rows of one batch, which stops at the goal.\<close>

fun scanTargets :: "'n \<Rightarrow> 'n list \<Rightarrow> 'n list \<Rightarrow> 'n list \<Rightarrow> bool \<times> 'n list \<times> 'n list" where
  "scanTargets goal [] seen queue = (False, seen, queue)"
| "scanTargets goal (n # rows) seen queue =
     (if n = goal then (True, seen, queue)
      else if n \<in> set seen then scanTargets goal rows seen queue
      else scanTargets goal rows (n # seen) (queue @ [n]))"

lemma scanTargets_found: "fst (scanTargets goal rows seen queue) \<longleftrightarrow> goal \<in> set rows"
  by (induction goal rows seen queue rule: scanTargets.induct) auto

lemma scanTargets_seen:
  "scanTargets goal rows seen queue = (False, seen', queue') \<Longrightarrow>
     set seen' = set seen \<union> set rows \<and> set queue' = set queue \<union> (set rows - set seen)"
  by (induction goal rows seen queue rule: scanTargets.induct) (auto split: if_splits)

lemma scanTargets_measure:
  assumes "scanTargets goal rows seen queue = (b, seen', queue')" "set rows \<subseteq> T" "finite T"
  shows "2 * card (T - set seen') + length queue' \<le> 2 * card (T - set seen) + length queue"
  using assms
proof (induction goal rows seen queue rule: scanTargets.induct)
  case (2 goal n rows seen queue)
  show ?case
  proof (cases "n = goal \<or> n \<in> set seen")
    case True
    then show ?thesis using 2 by (auto split: if_splits)
  next
    case False
    have "T - set (n # seen) = (T - set seen) - {n}" by auto
    moreover have "n \<in> T - set seen" using False "2.prems"(2) by auto
    ultimately have "card (T - set (n # seen)) + 1 = card (T - set seen)"
      using "2.prems"(3) by (metis Suc_eq_plus1 card.remove finite_Diff)
    moreover have "2 * card (T - set seen') + length queue' \<le> 2 * card (T - set (n # seen)) + length (queue @ [n])"
      using False 2 by auto
    ultimately show ?thesis by simp
  qed
qed auto

definition batchTargets :: "('n \<times> 'n) list \<Rightarrow> 'n list \<Rightarrow> 'n list" where
  "batchTargets edges batch = map snd (filter (\<lambda>(a, b). a \<in> set batch) edges)"

function childSearch :: "nat \<Rightarrow> ('n \<times> 'n) list \<Rightarrow> 'n \<Rightarrow> 'n list \<Rightarrow> 'n list \<Rightarrow> bool" where
  "childSearch width edges goal seen queue =
     (if queue = [] \<or> width = 0 then False
      else let batch = take width queue
           in case scanTargets goal (batchTargets edges batch) seen (drop width queue) of
                (found, seen, queue) \<Rightarrow> if found then True else childSearch width edges goal seen queue)"
  by pat_completeness auto

termination
proof (relation "measure (\<lambda>(width, edges, goal, seen, queue). 2 * card (set (map snd edges) - set seen) + length queue)",
    goal_cases)
  case (2 width edges goal seen queue batch found y seen' queue')
  have "set (batchTargets edges batch) \<subseteq> set (map snd edges)" by (auto simp: batchTargets_def)
  then have "2 * card (set (map snd edges) - set seen') + length queue' \<le>
      2 * card (set (map snd edges) - set seen) + length (drop width queue)"
    using 2 by (intro scanTargets_measure [where b = found and goal = goal and rows = "batchTargets edges batch"]) simp_all
  moreover have "length (drop width queue) < length queue" using 2(1) by (cases queue) auto
  ultimately show ?case by simp
qed simp

declare childSearch.simps [simp del]

text \<open>The search finds the goal exactly when a path leads there: what it has seen is reachable, and every
  target of what it has seen and taken from the queue is seen as well.\<close>

lemma batchTargets_set: "set (batchTargets edges batch) = set edges `` set batch"
  by (auto simp: batchTargets_def Image_def image_iff)

lemma childSearch_iff:
  assumes "0 < width" "set queue \<subseteq> set seen" "goal \<notin> set seen" "set edges `` (set seen - set queue) \<subseteq> set seen"
  shows "childSearch width edges goal seen queue \<longleftrightarrow> (\<exists>s \<in> set seen. (s, goal) \<in> (set edges)\<^sup>*)"
  using assms
proof (induction width edges goal seen queue rule: childSearch.induct)
  case (1 width edges goal seen queue)
  show ?case
  proof (cases "queue = []")
    case True
    have "s' \<in> set seen" if "(s, s') \<in> (set edges)\<^sup>*" "s \<in> set seen" for s s'
      using that by (induction rule: rtrancl_induct) (use 1(5) True in auto)
    then show ?thesis using True 1(4) by (subst childSearch.simps) auto
  next
    case False
    define batch where "batch = take width queue"
    define rows where "rows = batchTargets edges batch"
    obtain found seen' queue' where t: "scanTargets goal rows seen (drop width queue) = (found, seen', queue')"
      by (cases "scanTargets goal rows seen (drop width queue)") auto
    have rows: "set rows = set edges `` set batch" unfolding rows_def by (rule batchTargets_set)
    have q: "set queue = set batch \<union> set (drop width queue)" unfolding batch_def by (metis append_take_drop_id set_append)
    have unfold: "childSearch width edges goal seen queue \<longleftrightarrow> found \<or> childSearch width edges goal seen' queue'"
      using False 1(2) t by (subst childSearch.simps) (simp add: batch_def rows_def Let_def)
    show ?thesis
    proof (cases found)
      case True
      then have "goal \<in> set rows" using scanTargets_found [of goal rows seen "drop width queue"] t by simp
      then have "goal \<in> set edges `` set batch" using rows by simp
      then obtain b where "b \<in> set batch" "(b, goal) \<in> set edges" by auto
      moreover from this have "b \<in> set seen" using q 1(3) by auto
      ultimately show ?thesis using True unfold by (metis r_into_rtrancl)
    next
      case no: False
      have goal: "goal \<notin> set rows" using scanTargets_found [of goal rows seen "drop width queue"] t no by simp
      have s: "set seen' = set seen \<union> set rows" "set queue' = set (drop width queue) \<union> (set rows - set seen)"
        using scanTargets_seen [of goal rows seen "drop width queue" seen' queue'] t no by auto
      have "childSearch width edges goal seen' queue' \<longleftrightarrow> (\<exists>s \<in> set seen'. (s, goal) \<in> (set edges)\<^sup>*)"
      proof (rule "1.IH")
        show "batch = take width queue" by (rule batch_def)
        show "(found, seen', queue') = scanTargets goal (batchTargets edges batch) seen (drop width queue)"
          using t by (simp add: rows_def)
        show "set queue' \<subseteq> set seen'" using s q 1(3) by auto
        show "goal \<notin> set seen'" using s goal 1(4) by auto
        show "set edges `` (set seen' - set queue') \<subseteq> set seen'"
        proof
          fix y assume "y \<in> set edges `` (set seen' - set queue')"
          then obtain x where x: "(x, y) \<in> set edges" "x \<in> set seen'" "x \<notin> set queue'" by auto
          then have "x \<in> set seen" "x \<notin> set (drop width queue)" using s by auto
          then have "x \<in> set batch \<or> x \<in> set seen - set queue" using q by auto
          then have "y \<in> set rows \<or> y \<in> set seen" using x(1) rows 1(5) by auto
          then show "y \<in> set seen'" using s(1) by auto
        qed
      qed (use False 1(2) no in simp_all)
      moreover have "(\<exists>s \<in> set seen'. (s, goal) \<in> (set edges)\<^sup>*) \<longleftrightarrow> (\<exists>s \<in> set seen. (s, goal) \<in> (set edges)\<^sup>*)"
      proof -
        have "\<exists>s \<in> set seen. (s, goal) \<in> (set edges)\<^sup>*" if "r \<in> set rows" "(r, goal) \<in> (set edges)\<^sup>*" for r
        proof -
          have "r \<in> set edges `` set batch" using that(1) rows by simp
          then obtain b where "b \<in> set batch" "(b, r) \<in> set edges" by auto
          moreover from this have "b \<in> set seen" using q 1(3) by auto
          ultimately show ?thesis using that(2) by (metis converse_rtrancl_into_rtrancl)
        qed
        then show ?thesis using s(1) by auto
      qed
      ultimately show ?thesis using unfold no by simp
    qed
  qed
qed

definition pathExists :: "nat \<Rightarrow> ('n \<times> 'n) list \<Rightarrow> 'n \<Rightarrow> 'n \<Rightarrow> bool" where
  "pathExists width edges start goal = (if start = goal then True else childSearch width edges goal [start] [start])"

lemma pathExists_iff: "0 < width \<Longrightarrow> pathExists width edges start goal \<longleftrightarrow> (start, goal) \<in> (set edges)\<^sup>*"
  using childSearch_iff [of width "[start]" "[start]" goal edges] by (auto simp: pathExists_def)

text \<open>An edge that closes no path keeps a graph acyclic.\<close>

lemma acyclic_insert_edge: "acyclic R \<Longrightarrow> (b, a) \<notin> R\<^sup>* \<Longrightarrow> acyclic (insert (a, b) R)"
  by (simp add: acyclic_insert)

end
