(* ===== verification/Store_Schema.thy ===== *)
theory Store_Schema
  imports Version_Table Child_Search Label_Codec
begin

text \<open>
  The database of the store: the tables of \<open>internal/store/migrations\<close> and the SQL statements that
  \<open>write.go\<close> runs on them, each with the constraints and triggers that guard it.  A statement gives the
  new database or the constraint that aborted it.  Left out are the derived label and property index
  tables, which the writer never reads, and the checks of the schema that repeat, on the stored bytes, the
  limits and shapes of values which the Go code has already encoded.  Which of several constraints that
  fail together is reported first is not modelled.
\<close>

section \<open>Tables\<close>

record nodeData =
  nd_labels :: "string list"
  nd_properties :: encodedValue
  nd_body :: string

record edgeData =
  ed_from :: string
  ed_type :: string
  ed_to :: string
  ed_position :: "int option"
  ed_properties :: encodedValue

text \<open>The columns as SQLite compares them: blobs are compared byte by byte.\<close>

definition node_columns :: "nodeData \<Rightarrow> string \<times> string \<times> string" where
  "node_columns d = (labels_json (nd_labels d), json_marshal (nd_properties d), nd_body d)"

definition edge_columns :: "edgeData \<Rightarrow> string \<times> string \<times> string \<times> int option \<times> string" where
  "edge_columns d = (ed_from d, ed_type d, ed_to d, ed_position d, json_marshal (ed_properties d))"

record revisionRow =
  rev_no :: int
  rev_ns :: int
  rev_actor :: string
  rev_message :: string
  rev_sealed :: bool

text \<open>An identity table with its version table.\<close>

record 'a entities =
  ent_ids :: "(string \<times> int) list"
  ent_versions :: "(string, 'a) vtable"

record database =
  db_revisions :: "revisionRow list"
  db_nodes :: "nodeData entities"
  db_edges :: "edgeData entities"

datatype sqlError =
    SqlRevisionSequence | SqlRevisionTime | SqlRevisionInactive | SqlRevisionImmutable | SqlNoChange
  | SqlIdentity | SqlHistory | SqlEndpoint | SqlChildCycle | SqlChildParent | SqlUnique | SqlCheck | SqlForeignKey
  | SqlResourceLimit

definition guard :: "bool \<Rightarrow> 'e \<Rightarrow> 'e + unit" where
  "guard b e = (if b then Inr () else Inl e)"

lemma guard_Inr [simp]: "guard b e = Inr u \<longleftrightarrow> b"
  by (simp add: guard_def)

lemma guard_True [simp]: "guard True e = Inr ()"
  by (simp add: guard_def)

section \<open>Revisions\<close>

definition max_revision :: "revisionRow list \<Rightarrow> int" where
  "max_revision revs = foldr (\<lambda>row m. max (rev_no row) m) revs 0"

text \<open>\<open>COALESCE(MAX(revision), 0) ... WHERE sealed = 1\<close>\<close>

definition sealed_revision :: "revisionRow list \<Rightarrow> int" where
  "sealed_revision revs = max_revision (filter rev_sealed revs)"

definition unsealed_count :: "revisionRow list \<Rightarrow> nat" where
  "unsealed_count revs = length (filter (\<lambda>row. \<not> rev_sealed row) revs)"

text \<open>The revision that may be written: the newest one, and not sealed.\<close>

definition active :: "database \<Rightarrow> int \<Rightarrow> bool" where
  "active db r \<longleftrightarrow>
     r = max_revision (db_revisions db) \<and>
     (case find (\<lambda>row. rev_no row = r) (db_revisions db) of None \<Rightarrow> False | Some row \<Rightarrow> \<not> rev_sealed row)"

text \<open>\<open>SELECT committed_ns FROM revisions ORDER BY revision DESC LIMIT 1\<close>\<close>

definition last_committed :: "database \<Rightarrow> int option" where
  "last_committed db =
     map_option rev_ns (find (\<lambda>row. rev_no row = max_revision (db_revisions db)) (db_revisions db))"

definition insertRevision :: "int \<Rightarrow> int \<Rightarrow> string \<Rightarrow> string \<Rightarrow> database \<Rightarrow> sqlError + database" where
  "insertRevision r ns actor message db =
     bindE (guard (0 < r \<and> r = max_revision (db_revisions db) + 1) SqlRevisionSequence) (\<lambda>_.
     bindE (guard (\<forall>row \<in> set (db_revisions db). rev_ns row < ns) SqlRevisionTime) (\<lambda>_.
     bindE (guard (unsealed_count (db_revisions db) = 0) SqlUnique) (\<lambda>_.
       Inr (db\<lparr>db_revisions := db_revisions db @
              [\<lparr>rev_no = r, rev_ns = ns, rev_actor = actor, rev_message = message, rev_sealed = False\<rparr>]\<rparr>))))"

section \<open>Identities and versions\<close>

definition insertIdentity :: "bool \<Rightarrow> string \<Rightarrow> int \<Rightarrow> 'a entities \<Rightarrow> sqlError + 'a entities" where
  "insertIdentity act k r es =
     bindE (guard act SqlRevisionInactive) (\<lambda>_.
     bindE (guard (k \<notin> fst ` set (ent_ids es)) SqlUnique) (\<lambda>_.
       Inr (es\<lparr>ent_ids := ent_ids es @ [(k, r)]\<rparr>)))"

text \<open>A new version either starts the history of its identity or follows a version closed by the same revision.\<close>

definition insertVersion :: "bool \<Rightarrow> string \<Rightarrow> int \<Rightarrow> 'a \<Rightarrow> 'a entities \<Rightarrow> sqlError + 'a entities" where
  "insertVersion act k r d es =
     (let rows = filter (\<lambda>v. ver_id v = k) (ent_versions es)
      in bindE (guard act SqlRevisionInactive) (\<lambda>_.
         bindE (guard (rows = [] \<and> map_of (ent_ids es) k = Some r \<or>
                       list_ex (\<lambda>v. ver_to v = Some r) rows \<and> \<not> list_ex (\<lambda>v. ver_to v = None) rows) SqlHistory) (\<lambda>_.
         bindE (guard (k \<in> fst ` set (ent_ids es)) SqlForeignKey) (\<lambda>_.
         bindE (guard (\<not> list_ex (\<lambda>v. ver_from v = r \<or> ver_to v = None) rows) SqlUnique) (\<lambda>_.
           Inr (es\<lparr>ent_versions := insert_version k r d (ent_versions es)\<rparr>))))))"

text \<open>\<open>UPDATE ... SET valid_to = r WHERE id = k AND valid_to IS NULL\<close>, with the number of rows it changed.\<close>

definition closeVersion :: "bool \<Rightarrow> string \<Rightarrow> int \<Rightarrow> 'a entities \<Rightarrow> sqlError + nat \<times> 'a entities" where
  "closeVersion act k r es =
     (let rows = filter (\<lambda>v. ver_id v = k \<and> ver_to v = None) (ent_versions es)
      in bindE (guard (rows = [] \<or> act) SqlHistory) (\<lambda>_.
         bindE (guard (list_all (\<lambda>v. ver_from v < r) rows) SqlCheck) (\<lambda>_.
           Inr (length rows, es\<lparr>ent_versions := close_version k r (ent_versions es)\<rparr>))))"

text \<open>\<open>UPDATE ... SET data WHERE id = k AND valid_from = r\<close>\<close>

definition editVersion :: "bool \<Rightarrow> string \<Rightarrow> int \<Rightarrow> 'a \<Rightarrow> 'a entities \<Rightarrow> sqlError + 'a entities" where
  "editVersion act k r d es =
     (let rows = filter (\<lambda>v. ver_id v = k \<and> ver_from v = r) (ent_versions es)
      in bindE (guard (rows = [] \<or> act \<and> list_all (\<lambda>v. ver_to v = None) rows) SqlHistory) (\<lambda>_.
           Inr (es\<lparr>ent_versions := edit_version k r d (ent_versions es)\<rparr>)))"

definition deleteVersion :: "bool \<Rightarrow> string \<Rightarrow> int \<Rightarrow> 'a entities \<Rightarrow> sqlError + 'a entities" where
  "deleteVersion act k r es =
     (let rows = filter (\<lambda>v. ver_id v = k \<and> ver_from v = r) (ent_versions es)
      in bindE (guard (rows = [] \<or> act) SqlHistory) (\<lambda>_.
           Inr (es\<lparr>ent_versions := delete_version k r (ent_versions es)\<rparr>)))"

text \<open>\<open>DELETE FROM nodes (edges) WHERE id = k\<close> takes the versions along; \<open>act r\<close> says whether revision \<open>r\<close> is active.\<close>

definition deleteIdentity :: "(int \<Rightarrow> bool) \<Rightarrow> string \<Rightarrow> 'a entities \<Rightarrow> sqlError + 'a entities" where
  "deleteIdentity act k es =
     bindE (guard (\<forall>(j, c) \<in> set (ent_ids es). j = k \<longrightarrow> act c) SqlIdentity) (\<lambda>_.
     bindE (guard (\<forall>v \<in> set (ent_versions es). ver_id v = k \<longrightarrow> act (ver_from v)) SqlHistory) (\<lambda>_.
       Inr (es\<lparr>ent_ids := filter (\<lambda>(j, c). j \<noteq> k) (ent_ids es),
               ent_versions := cascade_delete k (ent_versions es)\<rparr>)))"

section \<open>Nodes\<close>

definition onNodes :: "database \<Rightarrow> sqlError + nodeData entities \<Rightarrow> sqlError + database" where
  "onNodes db m = bindE m (\<lambda>es. Inr (db\<lparr>db_nodes := es\<rparr>))"

definition onEdges :: "database \<Rightarrow> sqlError + edgeData entities \<Rightarrow> sqlError + database" where
  "onEdges db m = bindE m (\<lambda>es. Inr (db\<lparr>db_edges := es\<rparr>))"

definition current_node :: "database \<Rightarrow> string \<Rightarrow> bool" where
  "current_node db k \<longleftrightarrow> list_ex (\<lambda>v. ver_id v = k \<and> ver_to v = None) (ent_versions (db_nodes db))"

text \<open>The edge versions refer to their endpoints, so a node that one of them names cannot be deleted.\<close>

definition sqlDeleteNode :: "string \<Rightarrow> database \<Rightarrow> sqlError + database" where
  "sqlDeleteNode k db =
     bindE (deleteIdentity (active db) k (db_nodes db)) (\<lambda>es.
     bindE (guard (\<forall>v \<in> set (ent_versions (db_edges db)). ed_from (ver_data v) \<noteq> k \<and> ed_to (ver_data v) \<noteq> k) SqlForeignKey) (\<lambda>_.
       Inr (db\<lparr>db_nodes := es\<rparr>)))"

section \<open>Edges\<close>

text \<open>The pairs of the current CHILD edges, one edge left out.\<close>

definition child_pairs :: "database \<Rightarrow> string \<Rightarrow> (string \<times> string) list" where
  "child_pairs db exclude =
     map (\<lambda>v. (ed_from (ver_data v), ed_to (ver_data v)))
       (filter (\<lambda>v. ver_to v = None \<and> ed_type (ver_data v) = ''CHILD'' \<and> ver_id v \<noteq> exclude) (ent_versions (db_edges db)))"

text \<open>What the schema asks of a current edge version, whether it is inserted or edited.\<close>

definition edge_guard :: "database \<Rightarrow> string \<Rightarrow> edgeData \<Rightarrow> sqlError + unit" where
  "edge_guard db k d =
     bindE (guard (ed_type d \<noteq> [] \<and> CHR 0x00 \<notin> set (ed_type d) \<and> (ed_type d = ''CHILD'' \<or> ed_position d = None)) SqlCheck) (\<lambda>_.
     bindE (guard (current_node db (ed_from d) \<and> current_node db (ed_to d)) SqlEndpoint) (\<lambda>_.
     bindE (guard (ed_type d = ''CHILD'' \<longrightarrow> \<not> pathExists 1 (child_pairs db k) (ed_to d) (ed_from d)) SqlChildCycle) (\<lambda>_.
       guard (ed_type d = ''CHILD'' \<longrightarrow> ed_to d \<notin> snd ` set (child_pairs db k)) SqlChildParent)))"

definition sqlInsertEdgeVersion :: "string \<Rightarrow> int \<Rightarrow> edgeData \<Rightarrow> database \<Rightarrow> sqlError + database" where
  "sqlInsertEdgeVersion k r d db =
     bindE (edge_guard db k d) (\<lambda>_. onEdges db (insertVersion (active db r) k r d (db_edges db)))"

definition sqlEditEdgeVersion :: "string \<Rightarrow> int \<Rightarrow> edgeData \<Rightarrow> database \<Rightarrow> sqlError + database" where
  "sqlEditEdgeVersion k r d db =
     bindE (edge_guard db k d) (\<lambda>_. onEdges db (editVersion (active db r) k r d (db_edges db)))"

section \<open>Sealing\<close>

text \<open>The rows of a table that a revision touched whose columns differ between two revisions.\<close>

definition changed_rows :: "('a \<Rightarrow> 'c) \<Rightarrow> int \<Rightarrow> int \<Rightarrow> (string, 'a) vtable \<Rightarrow> bool" where
  "changed_rows columns base r t \<longleftrightarrow>
     list_ex (\<lambda>v. (ver_from v = r \<or> ver_to v = Some r) \<and>
       map_option (columns \<circ> ver_data) (select_at base t (ver_id v)) \<noteq>
       map_option (columns \<circ> ver_data) (select_at r t (ver_id v))) t"

definition graph_changed :: "database \<Rightarrow> int \<Rightarrow> int \<Rightarrow> bool" where
  "graph_changed db base r \<longleftrightarrow>
     changed_rows node_columns base r (ent_versions (db_nodes db)) \<or>
     changed_rows edge_columns base r (ent_versions (db_edges db))"

definition loose_end :: "database \<Rightarrow> int \<Rightarrow> bool" where
  "loose_end db r \<longleftrightarrow>
     list_ex (\<lambda>closed. ver_to closed = Some r \<and> \<not> current_node db (ver_id closed) \<and>
       list_ex (\<lambda>e. ver_to e = None \<and> (ed_from (ver_data e) = ver_id closed \<or> ed_to (ver_data e) = ver_id closed))
         (ent_versions (db_edges db))) (ent_versions (db_nodes db)) \<or>
     list_ex (\<lambda>e. ver_from e = r \<and> ver_to e = None \<and>
       \<not> (current_node db (ed_from (ver_data e)) \<and> current_node db (ed_to (ver_data e)))) (ent_versions (db_edges db))"

text \<open>\<open>UPDATE revisions SET sealed = 1 WHERE revision = r AND sealed = 0\<close>\<close>

definition sealRevision :: "int \<Rightarrow> database \<Rightarrow> sqlError + nat \<times> database" where
  "sealRevision r db =
     (let hit = (\<lambda>row. rev_no row = r \<and> \<not> rev_sealed row);
          n = length (filter hit (db_revisions db))
      in bindE (guard (n = 0 \<or> \<not> loose_end db r) SqlEndpoint) (\<lambda>_.
         bindE (guard (n = 0 \<or> graph_changed db (r - 1) r) SqlNoChange) (\<lambda>_.
           Inr (n, db\<lparr>db_revisions := map (\<lambda>row. if hit row then row\<lparr>rev_sealed := True\<rparr> else row) (db_revisions db)\<rparr>))))"

end
