(* ===== verification/Entity_Facts.thy ===== *)
theory Entity_Facts
  imports Store_Schema
begin

text \<open>
  What the statements of \<open>Store_Schema\<close> do to one pair of an identity and a version table whose history is
  in order: none of the constraints and triggers fires on the statements the writer issues, and each of
  them amounts to \<open>write_version\<close>.
\<close>

definition ids_ok :: "int \<Rightarrow> 'a entities \<Rightarrow> bool" where
  "ids_ok r es \<longleftrightarrow>
     distinct (map fst (ent_ids es)) \<and> (\<forall>(k, c) \<in> set (ent_ids es). c \<le> r \<and> k \<noteq> []) \<and>
     (\<forall>v \<in> set (ent_versions es). \<exists>c. (ver_id v, c) \<in> set (ent_ids es) \<and> c \<le> ver_from v)"

definition entities_ok :: "int \<Rightarrow> 'a entities \<Rightarrow> bool" where
  "entities_ok r es \<longleftrightarrow> history_ok r (ent_versions es) \<and> ids_ok r es"

definition now :: "'a entities \<Rightarrow> string \<Rightarrow> 'a option" where
  "now es = view_now (ent_versions es)"

definition past :: "int \<Rightarrow> 'a entities \<Rightarrow> string \<Rightarrow> 'a option" where
  "past n es = view_at n (ent_versions es)"

lemma entities_ok_next: "entities_ok r es \<Longrightarrow> entities_ok (r + 1) es"
  by (auto simp: entities_ok_def ids_ok_def history_ok_next)

lemma guard_cases: "guard b e = (if b then Inr () else Inl e)"
  by (simp add: guard_def)

section \<open>Creating\<close>

lemma fresh_rows:
  assumes "entities_ok r es" "k \<notin> fst ` set (ent_ids es)" "v \<in> set (ent_versions es)"
  shows "ver_id v \<noteq> k"
  using assms unfolding entities_ok_def ids_ok_def by force

lemma create_entity:
  fixes es :: "'a entities" and d :: 'a
  assumes h: "entities_ok r es" and r: "1 \<le> r" and k: "k \<notin> fst ` set (ent_ids es)" and ne: "k \<noteq> []"
  defines "es1 \<equiv> es\<lparr>ent_ids := ent_ids es @ [(k, r)]\<rparr>"
  defines "es2 \<equiv> es1\<lparr>ent_versions := write_version r k (Some d) (ent_versions es)\<rparr>"
  shows "insertIdentity True k r es = Inr es1" "insertVersion True k r d es1 = Inr es2"
    "entities_ok r es2" "now es2 = (now es)(k := Some d)" "n < r \<Longrightarrow> past n es2 = past n es"
    "set (ent_versions es2) = insert \<lparr>ver_id = k, ver_from = r, ver_to = None, ver_data = d\<rparr> (set (ent_versions es))"
proof -
  have rows: "filter (\<lambda>v. ver_id v = k) (ent_versions es) = []" using fresh_rows [OF h k] by simp
  have sel: "select_current (ent_versions es) k = None"
    unfolding select_current_None using fresh_rows [OF h k] by metis
  have hist: "history_ok r (ent_versions es)" using h by (simp add: entities_ok_def)
  have w: "write_version r k (Some d) (ent_versions es) = insert_version k r d (ent_versions es)"
    by (simp add: write_version_def sel)
  have m: "map_of (ent_ids es) k = None" using k by (simp add: map_of_eq_None_iff)
  show "insertIdentity True k r es = Inr es1" using k by (simp add: insertIdentity_def es1_def)
  show "insertVersion True k r d es1 = Inr es2"
    using rows m by (simp add: insertVersion_def es1_def es2_def w map_add_def)
  show "now es2 = (now es)(k := Some d)"
    using write_version_ok(2) [OF hist r] by (simp add: now_def es2_def)
  show "n < r \<Longrightarrow> past n es2 = past n es"
    using write_version_ok(3) [OF hist r] by (simp add: past_def es2_def)
  show s: "set (ent_versions es2) = insert \<lparr>ver_id = k, ver_from = r, ver_to = None, ver_data = d\<rparr> (set (ent_versions es))"
    by (simp add: es2_def w insert_version_def)
  have "ids_ok r es2"
    using h k ne unfolding ids_ok_def s by (fastforce simp: entities_ok_def ids_ok_def es2_def es1_def)
  then show "entities_ok r es2"
    using write_version_ok(1) [OF hist r] by (simp add: entities_ok_def es2_def)
qed

lemma distinct_singleton_list: "distinct xs \<Longrightarrow> set xs = {x} \<Longrightarrow> xs = [x]"
  by (cases xs; cases "tl xs") auto

section \<open>Replacing and removing\<close>

lemma rows_write:
  assumes "v \<in> set (write_version r k x t)"
  shows "(\<exists>w \<in> set t. ver_id w = ver_id v \<and> ver_from w = ver_from v \<and>
            (ver_data v = ver_data w \<or> x = Some (ver_data v) \<and> ver_id v = k \<and> ver_from v = r)) \<or>
         x = Some (ver_data v) \<and> ver_id v = k \<and> ver_from v = r \<and> ver_to v = None"
  using assms
  by (auto simp: write_version_def insert_version_def close_version_def edit_version_def delete_version_def
      split: option.splits if_splits)

lemma write_entity:
  assumes h: "entities_ok r es" and r: "1 \<le> r" and k: "x \<noteq> None \<Longrightarrow> k \<in> fst ` set (ent_ids es)"
  defines "es' \<equiv> es\<lparr>ent_versions := write_version r k x (ent_versions es)\<rparr>"
  shows "entities_ok r es'" "now es' = (now es)(k := x)" "n < r \<Longrightarrow> past n es' = past n es"
proof -
  have hist: "history_ok r (ent_versions es)" using h by (simp add: entities_ok_def)
  show "now es' = (now es)(k := x)" using write_version_ok(2) [OF hist r] by (simp add: now_def es'_def)
  show "n < r \<Longrightarrow> past n es' = past n es" using write_version_ok(3) [OF hist r] by (simp add: past_def es'_def)
  have i: "ids_ok r es" using h by (simp add: entities_ok_def)
  have "\<exists>c. (ver_id v, c) \<in> set (ent_ids es) \<and> c \<le> ver_from v" if v: "v \<in> set (write_version r k x (ent_versions es))" for v
    using rows_write [OF v]
  proof
    assume "\<exists>w \<in> set (ent_versions es). ver_id w = ver_id v \<and> ver_from w = ver_from v \<and>
            (ver_data v = ver_data w \<or> x = Some (ver_data v) \<and> ver_id v = k \<and> ver_from v = r)"
    then show ?thesis using i unfolding ids_ok_def by metis
  next
    assume n: "x = Some (ver_data v) \<and> ver_id v = k \<and> ver_from v = r \<and> ver_to v = None"
    then have "k \<in> fst ` set (ent_ids es)" using k by simp
    then obtain c where "(k, c) \<in> set (ent_ids es)" by force
    then show ?thesis using n i unfolding ids_ok_def by blast
  qed
  then have "ids_ok r es'" using i unfolding ids_ok_def es'_def by simp
  then show "entities_ok r es'" using write_version_ok(1) [OF hist r] by (simp add: entities_ok_def es'_def)
qed

lemma current_row:
  assumes "entities_ok r es" "select_current (ent_versions es) k = Some v"
  shows "v \<in> set (ent_versions es)" "ver_id v = k" "ver_to v = None" "k \<in> fst ` set (ent_ids es)" "ver_from v \<le> r"
    "filter (\<lambda>v. ver_id v = k \<and> ver_to v = None) (ent_versions es) = [v]"
proof -
  have h: "history_ok r (ent_versions es)" using assms(1) by (simp add: entities_ok_def)
  show v: "v \<in> set (ent_versions es)" "ver_id v = k" "ver_to v = None"
    using assms(2) select_current_Some [OF h] by auto
  obtain c where "(ver_id v, c) \<in> set (ent_ids es)" using assms(1) v(1) unfolding entities_ok_def ids_ok_def by blast
  then show "k \<in> fst ` set (ent_ids es)" using v(2) by force
  show "ver_from v \<le> r" using row_okD [OF h v(1)] by (simp add: row_ok_def)
  have d: "distinct (ent_versions es)" using h by (simp add: history_ok_def distinct_map)
  have "set (filter (\<lambda>v. ver_id v = k \<and> ver_to v = None) (ent_versions es)) = {v}"
  proof (intro subset_antisym subsetI)
    fix w assume "w \<in> set (filter (\<lambda>v. ver_id v = k \<and> ver_to v = None) (ent_versions es))"
    then have "w = v" using current_unique [OF h v(1,3)] v(2) by simp
    then show "w \<in> {v}" by simp
  qed (use v in simp)
  then show "filter (\<lambda>v. ver_id v = k \<and> ver_to v = None) (ent_versions es) = [v]"
    using d by (intro distinct_singleton_list) simp_all
qed

lemma newest_rows:
  assumes "entities_ok r es" "select_current (ent_versions es) k = Some v" "ver_from v = r"
    "w \<in> set (ent_versions es)" "ver_id w = k" "ver_from w = r"
  shows "w = v"
  using assms current_row(1,2) [OF assms(1,2)] history_key unfolding entities_ok_def by metis

lemma replace_entity:
  assumes h: "entities_ok r es" and r: "1 \<le> r" and v: "select_current (ent_versions es) k = Some v"
  defines "es' \<equiv> \<lambda>x. es\<lparr>ent_versions := write_version r k x (ent_versions es)\<rparr>"
  shows "ver_from v = r \<Longrightarrow> editVersion True k r d es = Inr (es' (Some d))"
    and "ver_from v \<noteq> r \<Longrightarrow> closeVersion True k r es = Inr (1, es' None)"
    and "ver_from v \<noteq> r \<Longrightarrow> insertVersion True k r d (es' None) = Inr (es' (Some d))"
    and "ver_from v = r \<Longrightarrow> deleteVersion True k r es = Inr (es' None)"
proof -
  note row = current_row [OF h v]
  have hist: "history_ok r (ent_versions es)" using h by (simp add: entities_ok_def)
  show "editVersion True k r d es = Inr (es' (Some d))" if f: "ver_from v = r"
  proof -
    have "list_all (\<lambda>v. ver_to v = None) (filter (\<lambda>v. ver_id v = k \<and> ver_from v = r) (ent_versions es))"
      using newest_rows [OF h v f] row(3) by (auto simp: list_all_iff)
    then show ?thesis by (simp add: editVersion_def es'_def write_version_def v f)
  qed
  show "deleteVersion True k r es = Inr (es' None)" if f: "ver_from v = r"
    by (simp add: deleteVersion_def es'_def write_version_def v f)
  show "closeVersion True k r es = Inr (1, es' None)" if f: "ver_from v \<noteq> r"
    using f row(5,6) by (simp add: closeVersion_def es'_def write_version_def v)
  show "insertVersion True k r d (es' None) = Inr (es' (Some d))" if f: "ver_from v \<noteq> r"
  proof -
    have e: "ent_versions (es' None) = close_version k r (ent_versions es)" using f by (simp add: es'_def write_version_def v)
    have "v\<lparr>ver_to := Some r\<rparr> \<in> set (ent_versions (es' None))"
      using row(1-3) unfolding e close_version_def by force
    then have a: "list_ex (\<lambda>v. ver_to v = Some r) (filter (\<lambda>v. ver_id v = k) (ent_versions (es' None)))"
      using row(2) by (auto simp: list_ex_iff intro!: bexI [of _ "v\<lparr>ver_to := Some r\<rparr>"])
    have "view_now (ent_versions (es' None)) k = None" unfolding e by (simp add: close_now)
    then have b: "ver_to w \<noteq> None" if "w \<in> set (ent_versions (es' None))" "ver_id w = k" for w
      using that unfolding view_now_None by blast
    have "history_ok r (ent_versions (es' None))" using write_version_ok(1) [OF hist r] by (simp add: es'_def)
    then have "ver_from w \<noteq> r" if "w \<in> set (ent_versions (es' None))" "ver_id w = k" for w
      using that b from_newest_current row_okD by metis
    then have c: "\<not> list_ex (\<lambda>v. ver_from v = r \<or> ver_to v = None) (filter (\<lambda>v. ver_id v = k) (ent_versions (es' None)))"
      using b by (auto simp: list_ex_iff)
    then have "\<not> list_ex (\<lambda>v. ver_to v = None) (filter (\<lambda>v. ver_id v = k) (ent_versions (es' None)))"
      by (auto simp: list_ex_iff)
    moreover have "ent_ids (es' None) = ent_ids es" by (simp add: es'_def)
    ultimately have "insertVersion True k r d (es' None) =
        Inr ((es' None)\<lparr>ent_versions := insert_version k r d (ent_versions (es' None))\<rparr>)"
      using a c row(4) by (simp add: insertVersion_def Let_def)
    also have "\<dots> = Inr (es' (Some d))" unfolding e using f by (simp add: es'_def write_version_def v)
    finally show ?thesis .
  qed
qed

text \<open>An identity of the active revision goes with its only version.\<close>

lemma delete_entity:
  assumes h: "entities_ok r es" and r: "1 \<le> r" and v: "select_current (ent_versions es) k = Some v" "ver_from v = r"
    and k: "map_of (ent_ids es) k = Some r"
  defines "es' \<equiv> es\<lparr>ent_ids := filter (\<lambda>(j, c). j \<noteq> k) (ent_ids es),
      ent_versions := write_version r k None (ent_versions es)\<rparr>"
  shows "deleteIdentity (\<lambda>c. c = r) k es = Inr es'" "entities_ok r es'" "now es' = (now es)(k := None)"
    "n < r \<Longrightarrow> past n es' = past n es"
proof -
  have hist: "history_ok r (ent_versions es)" and i: "ids_ok r es" using h by (simp_all add: entities_ok_def)
  have only: "c = r" if "(k, c) \<in> set (ent_ids es)" for c
    using that k i unfolding ids_ok_def by (metis map_of_is_SomeI option.inject)
  have newest: "ver_from w = r" if w: "w \<in> set (ent_versions es)" "ver_id w = k" for w
  proof -
    obtain c where "(k, c) \<in> set (ent_ids es)" "c \<le> ver_from w" using i w unfolding ids_ok_def by blast
    then show ?thesis using only row_okD [OF hist w(1)] by (fastforce simp: row_ok_def)
  qed
  have e: "cascade_delete k (ent_versions es) = write_version r k None (ent_versions es)"
    using cascade_delete_eq [OF hist newest] v by (simp add: write_version_def)
  show "deleteIdentity (\<lambda>c. c = r) k es = Inr es'"
    using only newest by (auto simp: deleteIdentity_def es'_def e guard_cases)
  show "now es' = (now es)(k := None)" using write_version_ok(2) [OF hist r] by (simp add: now_def es'_def)
  show "n < r \<Longrightarrow> past n es' = past n es" using write_version_ok(3) [OF hist r] by (simp add: past_def es'_def)
  have rows: "ver_id w \<noteq> k \<and> w \<in> set (ent_versions es)" if "w \<in> set (ent_versions es')" for w
    using that unfolding es'_def e [symmetric] by (auto simp: cascade_delete_def)
  have "ids_ok r es'"
    unfolding ids_ok_def
  proof (intro conjI ballI)
    show "distinct (map fst (ent_ids es'))"
      using i by (auto simp: ids_ok_def es'_def distinct_map inj_on_def)
    show "case x of (k, c) \<Rightarrow> c \<le> r \<and> k \<noteq> []" if "x \<in> set (ent_ids es')" for x
      using that i by (auto simp: ids_ok_def es'_def)
    show "\<exists>c. (ver_id w, c) \<in> set (ent_ids es') \<and> c \<le> ver_from w" if w: "w \<in> set (ent_versions es')" for w
      using rows [OF w] i unfolding ids_ok_def by (auto simp: es'_def)
  qed
  then show "entities_ok r es'" using write_version_ok(1) [OF hist r] by (simp add: entities_ok_def es'_def)
qed

end
