(* ===== verification/Store_Write.thy ===== *)
theory Store_Write
  imports Store_Schema
begin

text \<open>
  The mutation surface of \<open>internal/store/write.go\<close>: \<open>WriteTx\<close> and its operations.  An operation takes the
  transaction and gives its result, or its error, with the transaction it leaves; a failing mutation leaves
  its error in \<open>tx_failure\<close>, as \<open>recordMutationFailure\<close> does.  An instant is its number of nanoseconds since
  1970; the identifier that \<open>newUUIDv7\<close> draws is an argument.  Of an error that wraps another, the outermost
  sentinel is kept.  Failures of the database connection itself are not modelled.
\<close>

section \<open>Entities and inputs\<close>

record Node =
  node_id :: string
  node_labels :: "string list"
  node_properties :: pvalue
  node_body :: string
  node_from :: int
  node_to :: "int option"

record Edge =
  edge_id :: string
  edge_source :: string
  edge_type :: string
  edge_target :: string
  edge_position :: "int option"
  edge_properties :: pvalue
  edge_from :: int
  edge_to :: "int option"

record RevisionInfo =
  ri_revision :: int
  ri_time :: int
  ri_actor :: string
  ri_message :: string

record RevisionMeta =
  rm_actor :: string
  rm_message :: string
  rm_time :: int

record NodeInput =
  in_id :: string
  in_labels :: "string list"
  in_properties :: pvalue
  in_body :: string

record NodeUpdate =
  nu_labels :: "string list option"
  nu_properties :: "pvalue option"
  nu_body :: "string option"

record EdgeInput =
  ei_id :: string
  ei_from :: string
  ei_type :: string
  ei_to :: string
  ei_position :: "int option"
  ei_properties :: pvalue

record EdgeUpdate =
  eu_from :: "string option"
  eu_type :: "string option"
  eu_to :: "string option"
  eu_set_position :: bool
  eu_position :: "int option"
  eu_properties :: "pvalue option"

record WriteTx =
  tx_db :: database
  tx_meta :: RevisionMeta
  tx_clock :: int
  tx_base :: int
  tx_revision :: int
  tx_info :: "RevisionInfo option"
  tx_failure :: "derror option"
  tx_done :: bool

section \<open>Operations on a transaction\<close>

type_synonym 'a operation = "WriteTx \<Rightarrow> (derror + 'a) \<times> WriteTx"

definition bindT :: "'a operation \<Rightarrow> ('a \<Rightarrow> 'b operation) \<Rightarrow> 'b operation" where
  "bindT m f tx = (case m tx of (Inl e, tx) \<Rightarrow> (Inl e, tx) | (Inr x, tx) \<Rightarrow> f x tx)"

definition returnT :: "derror + 'a \<Rightarrow> 'a operation" where
  "returnT r tx = (r, tx)"

definition readT :: "(database \<Rightarrow> derror + 'a) \<Rightarrow> 'a operation" where
  "readT q tx = (q (tx_db tx), tx)"

definition execT :: "(sqlError \<Rightarrow> derror) \<Rightarrow> (database \<Rightarrow> sqlError + database) \<Rightarrow> unit operation" where
  "execT wrap stmt tx =
     (case stmt (tx_db tx) of Inl e \<Rightarrow> (Inl (wrap e), tx) | Inr db \<Rightarrow> (Inr (), tx\<lparr>tx_db := db\<rparr>))"

text \<open>A statement that reports how many rows it changed.\<close>

definition countT :: "(sqlError \<Rightarrow> derror) \<Rightarrow> (database \<Rightarrow> sqlError + nat \<times> database) \<Rightarrow> nat operation" where
  "countT wrap stmt tx =
     (case stmt (tx_db tx) of Inl e \<Rightarrow> (Inl (wrap e), tx) | Inr (n, db) \<Rightarrow> (Inr n, tx\<lparr>tx_db := db\<rparr>))"

definition expectOneRow :: "nat \<Rightarrow> derror + unit" where
  "expectOneRow affected = (if affected \<noteq> 1 then Inl PlainError else Inr ())"

text \<open>The deferred \<open>recordMutationFailure\<close> keeps the first failure.\<close>

definition recordMutationFailure :: "'a operation \<Rightarrow> 'a operation" where
  "recordMutationFailure m tx =
     (case m tx of
        (Inl e, tx) \<Rightarrow> (Inl e, if tx_failure tx = None then tx\<lparr>tx_failure := Some e\<rparr> else tx)
      | (Inr x, tx) \<Rightarrow> (Inr x, tx))"

definition invalid_argument :: "derror + 'a \<Rightarrow> derror + 'a" where
  "invalid_argument r = (case r of Inl _ \<Rightarrow> Inl ErrInvalidArgument | Inr x \<Rightarrow> Inr x)"

definition corrupt :: "derror + 'a \<Rightarrow> derror + 'a" where
  "corrupt r = (case r of Inl _ \<Rightarrow> Inl ErrCorrupt | Inr x \<Rightarrow> Inr x)"

section \<open>Validation\<close>

definition validateRevisionMeta :: "RevisionMeta \<Rightarrow> derror + unit" where
  "validateRevisionMeta meta =
     bindE (ValidateText ''revision actor'' (rm_actor meta) MaxRevisionActorBytes) (\<lambda>_.
       ValidateText ''revision message'' (rm_message meta) MaxRevisionMessageBytes)"

definition validateNodeBody :: "string \<Rightarrow> derror + unit" where
  "validateNodeBody body = ValidateText ''node body'' body MaxNodeBodyBytes"

definition validateRelationshipType :: "string \<Rightarrow> derror + unit" where
  "validateRelationshipType edgeType =
     (if edgeType = [] then Inl (ConstraintError ''edge_type'')
      else invalid_argument (ValidateTextWithoutNUL ''relationship type'' edgeType MaxRelationshipTypeBytes))"

definition validateID :: "string \<Rightarrow> derror + unit" where
  "validateID txt =
     (if length txt \<noteq> 36 \<or> txt ! 8 \<noteq> CHR ''-'' \<or> txt ! 13 \<noteq> CHR ''-'' \<or> txt ! 18 \<noteq> CHR ''-'' \<or> txt ! 23 \<noteq> CHR ''-'' \<or>
         txt ! 14 \<noteq> CHR ''7'' \<or> txt ! 19 \<notin> set ''89ab''
      then Inl ErrInvalidArgument
      else if list_all (\<lambda>index. index \<in> {8, 13, 18, 23} \<or> txt ! index \<in> set ''0123456789abcdef'') [0..<36]
      then Inr () else Inl ErrInvalidArgument)"

definition mapConflict :: "sqlError \<Rightarrow> derror" where
  "mapConflict e = (case e of SqlResourceLimit \<Rightarrow> ErrInvalidArgument | _ \<Rightarrow> ErrConflict)"

definition mapConstraintError :: "sqlError \<Rightarrow> derror" where
  "mapConstraintError e =
     (case e of
        SqlResourceLimit \<Rightarrow> ErrInvalidArgument
      | SqlChildParent \<Rightarrow> ConstraintError ''child_parent''
      | SqlChildCycle \<Rightarrow> ConstraintError ''child_cycle''
      | SqlEndpoint \<Rightarrow> ConstraintError ''edge_endpoint''
      | _ \<Rightarrow> ErrConflict)"

definition plain :: "sqlError \<Rightarrow> derror" where
  "plain e = PlainError"

text \<open>Nanoseconds since 1970, if they fit; the zero \<open>time.Time\<close> is the start of year 1.\<close>

definition zero_time :: int where
  "zero_time = -62135596800000000000"

definition unixNano :: "int \<Rightarrow> derror + int" where
  "unixNano value = (if value < -9223372036854775808 \<or> value > 9223372036854775807 then Inl PlainError else Inr value)"

section \<open>Revisions\<close>

definition CurrentRevision :: "WriteTx \<Rightarrow> int" where
  "CurrentRevision tx = (if tx_revision tx \<noteq> 0 then tx_revision tx else tx_base tx)"

definition Changed :: "WriteTx \<Rightarrow> bool" where
  "Changed tx \<longleftrightarrow> tx_revision tx \<noteq> 0"

definition checkActive :: "unit operation" where
  "checkActive tx = (if tx_done tx then (Inl PlainError, tx) else (Inr (), tx))"

definition ensureRevision :: "int operation" where
  "ensureRevision tx =
     (if tx_revision tx \<noteq> 0 then (Inr (tx_revision tx), tx)
      else if tx_base tx \<ge> 9223372036854775807 then (Inl PlainError, tx)
      else
        bindT (returnT (invalid_argument (validateRevisionMeta (tx_meta tx)))) (\<lambda>_.
        let requested = (if rm_time (tx_meta tx) = zero_time then tx_clock tx else rm_time (tx_meta tx))
        in bindT (returnT (unixNano requested)) (\<lambda>whenNS.
           bindT (readT (\<lambda>db. Inr (last_committed db))) (\<lambda>previous.
           bindT (returnT (case previous of
                    None \<Rightarrow> Inr whenNS
                  | Some p \<Rightarrow> if whenNS \<le> p then (if p = 9223372036854775807 then Inl PlainError else Inr (p + 1))
                              else Inr whenNS)) (\<lambda>whenNS.
           let revision = tx_base tx + 1
           in bindT (execT plain (insertRevision revision whenNS (rm_actor (tx_meta tx)) (rm_message (tx_meta tx)))) (\<lambda>_ tx.
                (Inr revision,
                 tx\<lparr>tx_revision := revision,
                    tx_info := Some \<lparr>ri_revision = revision, ri_time = whenNS,
                                     ri_actor = rm_actor (tx_meta tx), ri_message = rm_message (tx_meta tx)\<rparr>\<rparr>)))))) tx)"

section \<open>Reading in a transaction\<close>

definition scanNode :: "(string, nodeData) version option \<Rightarrow> derror + Node" where
  "scanNode row =
     (case row of None \<Rightarrow> Inl ErrNotFound
      | Some v \<Rightarrow>
          bindE (corrupt (decodeLabels (nd_labels (ver_data v)))) (\<lambda>labels.
          bindE (corrupt (decodeProperties (nd_properties (ver_data v)))) (\<lambda>properties.
            Inr \<lparr>node_id = ver_id v, node_labels = labels, node_properties = properties,
                 node_body = nd_body (ver_data v), node_from = ver_from v, node_to = ver_to v\<rparr>)))"

definition scanEdge :: "(string, edgeData) version option \<Rightarrow> derror + Edge" where
  "scanEdge row =
     (case row of None \<Rightarrow> Inl ErrNotFound
      | Some v \<Rightarrow>
          bindE (corrupt (decodeProperties (ed_properties (ver_data v)))) (\<lambda>properties.
            Inr \<lparr>edge_id = ver_id v, edge_source = ed_from (ver_data v), edge_type = ed_type (ver_data v),
                 edge_target = ed_to (ver_data v), edge_position = ed_position (ver_data v),
                 edge_properties = properties, edge_from = ver_from v, edge_to = ver_to v\<rparr>))"

definition GetNode :: "string \<Rightarrow> Node operation" where
  "GetNode k = bindT checkActive (\<lambda>_. readT (\<lambda>db. scanNode (select_current (ent_versions (db_nodes db)) k)))"

definition GetEdge :: "string \<Rightarrow> Edge operation" where
  "GetEdge k = bindT checkActive (\<lambda>_. readT (\<lambda>db. scanEdge (select_current (ent_versions (db_edges db)) k)))"

definition ListNodes :: "Node list operation" where
  "ListNodes = bindT checkActive (\<lambda>_. readT (\<lambda>db.
     mapE (\<lambda>v. scanNode (Some v)) (sort_key ver_id (current_rows (ent_versions (db_nodes db))))))"

definition ListEdges :: "Edge list operation" where
  "ListEdges = bindT checkActive (\<lambda>_. readT (\<lambda>db.
     mapE (\<lambda>v. scanEdge (Some v)) (sort_key ver_id (current_rows (ent_versions (db_edges db))))))"

text \<open>\<open>SELECT created_revision FROM nodes (edges) WHERE id = ?\<close>\<close>

definition identityCreatedAt :: "'a entities \<Rightarrow> string \<Rightarrow> derror + int" where
  "identityCreatedAt es k = (case map_of (ent_ids es) k of None \<Rightarrow> Inl PlainError | Some c \<Rightarrow> Inr c)"

section \<open>Mutating nodes\<close>

definition CreateNode :: "derror + string \<Rightarrow> NodeInput \<Rightarrow> Node operation" where
  "CreateNode fresh input = recordMutationFailure (
     bindT checkActive (\<lambda>_.
     bindT (returnT (invalid_argument (validateNodeBody (in_body input)))) (\<lambda>_.
     bindT (returnT (if in_id input = [] then fresh else Inr (in_id input))) (\<lambda>k.
     bindT (returnT (validateID k)) (\<lambda>_.
     bindT (returnT (invalid_argument (encodeLabels (in_labels input)))) (\<lambda>labels.
     bindT (returnT (invalid_argument (encodeProperties (in_properties input)))) (\<lambda>properties.
     bindT (returnT (decodeProperties properties)) (\<lambda>cloned.
     bindT (readT (\<lambda>db. if k \<in> fst ` set (ent_ids (db_nodes db)) then Inl ErrConflict else Inr ())) (\<lambda>_.
     bindT ensureRevision (\<lambda>revision.
     bindT (execT mapConflict (\<lambda>db. onNodes db (insertIdentity (active db revision) k revision (db_nodes db)))) (\<lambda>_.
     bindT (execT mapConflict (\<lambda>db. onNodes db (insertVersion (active db revision) k revision
              \<lparr>nd_labels = labels, nd_properties = properties, nd_body = in_body input\<rparr> (db_nodes db)))) (\<lambda>_.
     returnT (Inr \<lparr>node_id = k, node_labels = labels, node_properties = cloned, node_body = in_body input,
                   node_from = revision, node_to = None\<rparr>)))))))))))))"

definition replaceNodeVersion :: "Node \<Rightarrow> nodeData \<Rightarrow> int \<Rightarrow> unit operation" where
  "replaceNodeVersion current d revision =
     (if node_from current = revision
      then execT plain (\<lambda>db. onNodes db (editVersion (active db revision) (node_id current) revision d (db_nodes db)))
      else bindT (countT plain (\<lambda>db.
             bindE (closeVersion (active db revision) (node_id current) revision (db_nodes db)) (\<lambda>(n, es).
               Inr (n, db\<lparr>db_nodes := es\<rparr>)))) (\<lambda>affected.
           bindT (returnT (expectOneRow affected)) (\<lambda>_.
           execT plain (\<lambda>db. onNodes db (insertVersion (active db revision) (node_id current) revision d (db_nodes db))))))"

definition UpdateNode :: "string \<Rightarrow> NodeUpdate \<Rightarrow> Node operation" where
  "UpdateNode k upd = recordMutationFailure (
     bindT (GetNode k) (\<lambda>current.
     let labels = (case nu_labels upd of Some x \<Rightarrow> x | None \<Rightarrow> node_labels current);
         props = (case nu_properties upd of Some x \<Rightarrow> x | None \<Rightarrow> node_properties current);
         body = (case nu_body upd of Some x \<Rightarrow> x | None \<Rightarrow> node_body current)
     in bindT (returnT (invalid_argument (validateNodeBody body))) (\<lambda>_.
        bindT (returnT (invalid_argument (encodeLabels labels))) (\<lambda>normalized.
        bindT (returnT (invalid_argument (encodeProperties props))) (\<lambda>properties.
        let currentLabels = (case encodeLabels (node_labels current) of Inl _ \<Rightarrow> [] | Inr l \<Rightarrow> labels_json l)
        in bindT (returnT (encodeProperties (node_properties current))) (\<lambda>currentProperties.
           if labels_json normalized = currentLabels \<and> json_marshal properties = json_marshal currentProperties \<and>
              body = node_body current
           then returnT (Inr current)
           else bindT (returnT (decodeProperties properties)) (\<lambda>cloned.
                bindT ensureRevision (\<lambda>revision.
                bindT (replaceNodeVersion current
                         \<lparr>nd_labels = normalized, nd_properties = properties, nd_body = body\<rparr> revision) (\<lambda>_.
                returnT (Inr \<lparr>node_id = node_id current, node_labels = normalized, node_properties = cloned,
                              node_body = body, node_from = revision, node_to = None\<rparr>))))))))))"

definition closeEdge :: "Edge \<Rightarrow> int \<Rightarrow> unit operation" where
  "closeEdge current revision =
     (if edge_from current = revision
      then bindT (readT (\<lambda>db. identityCreatedAt (db_edges db) (edge_id current))) (\<lambda>created.
           if created = revision
           then execT plain (\<lambda>db. onEdges db (deleteIdentity (active db) (edge_id current) (db_edges db)))
           else execT plain (\<lambda>db. onEdges db (deleteVersion (active db revision) (edge_id current) revision (db_edges db))))
      else execT plain (\<lambda>db. onEdges db
             (bindE (closeVersion (active db revision) (edge_id current) revision (db_edges db)) (\<lambda>(n, es). Inr es))))"

fun closeEdges :: "Edge list \<Rightarrow> int \<Rightarrow> unit operation" where
  "closeEdges [] revision = returnT (Inr ())"
| "closeEdges (e # incident) revision = bindT (closeEdge e revision) (\<lambda>_. closeEdges incident revision)"

definition incidentEdges :: "database \<Rightarrow> string \<Rightarrow> (string, edgeData) version list" where
  "incidentEdges db k =
     sort_key ver_id (filter (\<lambda>v. ver_to v = None \<and> (ed_from (ver_data v) = k \<or> ed_to (ver_data v) = k))
       (ent_versions (db_edges db)))"

definition DeleteNode :: "string \<Rightarrow> unit operation" where
  "DeleteNode k = recordMutationFailure (
     bindT (GetNode k) (\<lambda>current.
     bindT ensureRevision (\<lambda>revision.
     bindT (readT (\<lambda>db. mapE (\<lambda>v. scanEdge (Some v)) (incidentEdges db k))) (\<lambda>incident.
     bindT (closeEdges incident revision) (\<lambda>_.
       if node_from current = revision
       then bindT (readT (\<lambda>db. identityCreatedAt (db_nodes db) k)) (\<lambda>created.
            if created = revision then execT plain (sqlDeleteNode k)
            else execT plain (\<lambda>db. onNodes db (deleteVersion (active db revision) k revision (db_nodes db))))
       else execT plain (\<lambda>db. onNodes db
              (bindE (closeVersion (active db revision) k revision (db_nodes db)) (\<lambda>(n, es). Inr es))))))))"

section \<open>Mutating edges\<close>

definition validateEdge :: "database \<Rightarrow> string \<Rightarrow> string \<Rightarrow> string \<Rightarrow> int option \<Rightarrow> string \<Rightarrow> derror + unit" where
  "validateEdge db source edgeType target position exclude =
     (if source = [] \<or> target = [] then Inl (ConstraintError ''edge_endpoint'')
      else bindE (validateRelationshipType edgeType) (\<lambda>_.
        if edgeType \<noteq> ''CHILD'' \<and> position \<noteq> None then Inl (ConstraintError ''edge_position'')
        else if \<not> current_node db source \<or> \<not> current_node db target then Inl (ConstraintError ''edge_endpoint'')
        else if edgeType \<noteq> ''CHILD'' then Inr ()
        else if target \<in> snd ` set (child_pairs db exclude) then Inl (ConstraintError ''child_parent'')
        else if pathExists 400 (child_pairs db exclude) target source then Inl (ConstraintError ''child_cycle'')
        else Inr ()))"

definition CreateEdge :: "derror + string \<Rightarrow> EdgeInput \<Rightarrow> Edge operation" where
  "CreateEdge fresh input = recordMutationFailure (
     bindT checkActive (\<lambda>_.
     bindT (returnT (validateRelationshipType (ei_type input))) (\<lambda>_.
     bindT (returnT (if ei_id input = [] then fresh else Inr (ei_id input))) (\<lambda>k.
     bindT (returnT (validateID k)) (\<lambda>_.
     bindT (returnT (invalid_argument (encodeProperties (ei_properties input)))) (\<lambda>properties.
     bindT (returnT (decodeProperties properties)) (\<lambda>cloned.
     bindT (readT (\<lambda>db. validateEdge db (ei_from input) (ei_type input) (ei_to input) (ei_position input) [])) (\<lambda>_.
     bindT (readT (\<lambda>db. if k \<in> fst ` set (ent_ids (db_edges db)) then Inl ErrConflict else Inr ())) (\<lambda>_.
     bindT ensureRevision (\<lambda>revision.
     bindT (execT mapConflict (\<lambda>db. onEdges db (insertIdentity (active db revision) k revision (db_edges db)))) (\<lambda>_.
     bindT (execT mapConstraintError (sqlInsertEdgeVersion k revision
              \<lparr>ed_from = ei_from input, ed_type = ei_type input, ed_to = ei_to input, ed_position = ei_position input,
               ed_properties = properties\<rparr>)) (\<lambda>_.
     returnT (Inr \<lparr>edge_id = k, edge_source = ei_from input, edge_type = ei_type input, edge_target = ei_to input,
                   edge_position = ei_position input, edge_properties = cloned, edge_from = revision,
                   edge_to = None\<rparr>)))))))))))))"

definition equalInt64 :: "int option \<Rightarrow> int option \<Rightarrow> bool" where
  "equalInt64 a b \<longleftrightarrow> a = None \<and> b = None \<or> a \<noteq> None \<and> b \<noteq> None \<and> the a = the b"

definition replaceEdgeVersion :: "Edge \<Rightarrow> edgeData \<Rightarrow> int \<Rightarrow> unit operation" where
  "replaceEdgeVersion current d revision =
     (if edge_from current = revision
      then execT mapConstraintError (sqlEditEdgeVersion (edge_id current) revision d)
      else bindT (execT mapConstraintError (\<lambda>db. onEdges db
             (bindE (closeVersion (active db revision) (edge_id current) revision (db_edges db)) (\<lambda>(n, es).
                Inr es)))) (\<lambda>_.
           execT mapConstraintError (sqlInsertEdgeVersion (edge_id current) revision d)))"

definition UpdateEdge :: "string \<Rightarrow> EdgeUpdate \<Rightarrow> Edge operation" where
  "UpdateEdge k upd = recordMutationFailure (
     bindT (GetEdge k) (\<lambda>current.
     let source = (case eu_from upd of Some x \<Rightarrow> x | None \<Rightarrow> edge_source current);
         edgeType = (case eu_type upd of Some x \<Rightarrow> x | None \<Rightarrow> edge_type current);
         target = (case eu_to upd of Some x \<Rightarrow> x | None \<Rightarrow> edge_target current);
         position = (if eu_set_position upd then eu_position upd else edge_position current);
         props = (case eu_properties upd of Some x \<Rightarrow> x | None \<Rightarrow> edge_properties current)
     in bindT (readT (\<lambda>db. validateEdge db source edgeType target position k)) (\<lambda>_.
        bindT (returnT (invalid_argument (encodeProperties props))) (\<lambda>properties.
        bindT (returnT (encodeProperties (edge_properties current))) (\<lambda>currentProperties.
          if edge_source current = source \<and> edge_type current = edgeType \<and> edge_target current = target \<and>
             equalInt64 (edge_position current) position \<and> json_marshal currentProperties = json_marshal properties
          then returnT (Inr current)
          else bindT (returnT (decodeProperties properties)) (\<lambda>cloned.
               bindT ensureRevision (\<lambda>revision.
               bindT (replaceEdgeVersion current
                        \<lparr>ed_from = source, ed_type = edgeType, ed_to = target, ed_position = position,
                         ed_properties = properties\<rparr> revision) (\<lambda>_.
               returnT (Inr \<lparr>edge_id = edge_id current, edge_source = source, edge_type = edgeType,
                             edge_target = target, edge_position = position, edge_properties = cloned,
                             edge_from = revision, edge_to = None\<rparr>)))))))))"

definition DeleteEdge :: "string \<Rightarrow> unit operation" where
  "DeleteEdge k = recordMutationFailure (
     bindT (GetEdge k) (\<lambda>current.
     bindT ensureRevision (\<lambda>revision. closeEdge current revision)))"

end
