(* ===== verification/Store_Invariant.thy ===== *)
theory Store_Invariant
  imports Entity_Facts Store_Write
begin

text \<open>
  What holds of the database at every moment of a transaction, and how each statement moves it.  A graph
  is what the current versions say; \<open>graph_ok\<close> is the contract of the store for it: edges join current
  nodes, a node has at most one CHILD parent and CHILD edges form no cycle.
\<close>

section \<open>Graphs\<close>

abbreviation child_edge :: "edgeData \<Rightarrow> bool" where
  "child_edge d \<equiv> ed_type d = ''CHILD''"

definition child_rel :: "(string \<Rightarrow> edgeData option) \<Rightarrow> (string \<times> string) set" where
  "child_rel E = {(a, b). \<exists>k d. E k = Some d \<and> child_edge d \<and> ed_from d = a \<and> ed_to d = b}"

definition edge_shape :: "edgeData \<Rightarrow> bool" where
  "edge_shape d \<longleftrightarrow> ed_type d \<noteq> [] \<and> CHR 0x00 \<notin> set (ed_type d) \<and> (child_edge d \<or> ed_position d = None)"

definition joined :: "(string \<Rightarrow> nodeData option) \<Rightarrow> edgeData \<Rightarrow> bool" where
  "joined N d \<longleftrightarrow> N (ed_from d) \<noteq> None \<and> N (ed_to d) \<noteq> None"

definition one_parent :: "(string \<Rightarrow> edgeData option) \<Rightarrow> bool" where
  "one_parent E \<longleftrightarrow>
     (\<forall>j k d e. E j = Some d \<longrightarrow> E k = Some e \<longrightarrow> child_edge d \<longrightarrow> child_edge e \<longrightarrow> ed_to d = ed_to e \<longrightarrow> j = k)"

definition graph_ok :: "(string \<Rightarrow> nodeData option) \<Rightarrow> (string \<Rightarrow> edgeData option) \<Rightarrow> bool" where
  "graph_ok N E \<longleftrightarrow>
     (\<forall>k d. E k = Some d \<longrightarrow> joined N d \<and> edge_shape d) \<and> one_parent E \<and> acyclic (child_rel E)"

lemma graph_okD:
  assumes "graph_ok N E"
  shows "E k = Some d \<Longrightarrow> joined N d" "E k = Some d \<Longrightarrow> edge_shape d" "one_parent E" "acyclic (child_rel E)"
  using assms by (simp_all add: graph_ok_def)

lemma child_rel_upd:
  "child_rel (E(k := Some d)) = (if child_edge d then insert (ed_from d, ed_to d) (child_rel (E(k := None))) else child_rel (E(k := None)))"
  unfolding child_rel_def by (auto split: if_splits)

lemma graph_ok_add_node:
  assumes "graph_ok N E"
  shows "graph_ok (N(k := Some d)) E"
  using graph_okD [OF assms] by (auto simp: graph_ok_def joined_def)

lemma graph_ok_subset:
  assumes g: "graph_ok N E" and s: "\<And>k d. F k = Some d \<Longrightarrow> E k = Some d" and m: "\<And>k d. F k = Some d \<Longrightarrow> joined M d"
  shows "graph_ok M F"
proof -
  have "child_rel F \<subseteq> child_rel E" using s unfolding child_rel_def by blast
  then have "acyclic (child_rel F)" by (rule acyclic_subset [OF graph_okD(4) [OF g]])
  moreover have "one_parent F" using graph_okD(3) [OF g] s unfolding one_parent_def by blast
  ultimately show ?thesis using m s graph_okD(2) [OF g] unfolding graph_ok_def by blast
qed

lemma graph_ok_drop_edge:
  assumes g: "graph_ok N E"
  shows "graph_ok N (E(k := None))"
  by (rule graph_ok_subset [OF g]) (auto split: if_splits intro: graph_okD(1) [OF g])

text \<open>The checks of \<open>validateEdge\<close>, in terms of the graph.\<close>

definition edge_fits :: "(string \<Rightarrow> nodeData option) \<Rightarrow> (string \<Rightarrow> edgeData option) \<Rightarrow> string \<Rightarrow> edgeData \<Rightarrow> bool" where
  "edge_fits N E k d \<longleftrightarrow>
     joined N d \<and> edge_shape d \<and>
     (child_edge d \<longrightarrow>
        (\<forall>j e. j \<noteq> k \<longrightarrow> E j = Some e \<longrightarrow> child_edge e \<longrightarrow> ed_to e \<noteq> ed_to d) \<and>
        (ed_to d, ed_from d) \<notin> (child_rel (E(k := None)))\<^sup>*)"

lemma graph_ok_put_edge:
  assumes g: "graph_ok N E" and f: "edge_fits N E k d"
  shows "graph_ok N (E(k := Some d))"
  unfolding graph_ok_def
proof (intro conjI allI impI)
  have "acyclic (child_rel (E(k := None)))" using graph_okD(4) [OF graph_ok_drop_edge [OF g]] .
  then show "acyclic (child_rel (E(k := Some d)))"
    using f by (simp add: child_rel_upd edge_fits_def acyclic_insert)
  show "one_parent (E(k := Some d))"
    unfolding one_parent_def
  proof (intro allI impI)
    fix i j a b
    assume x: "(E(k := Some d)) i = Some a" "(E(k := Some d)) j = Some b" "child_edge a" "child_edge b" "ed_to a = ed_to b"
    show "i = j"
    proof (cases "i = k \<or> j = k")
      case True
      then show ?thesis using x f unfolding edge_fits_def by (metis fun_upd_apply option.inject)
    next
      case False
      then show ?thesis using x graph_okD(3) [OF g] unfolding one_parent_def by simp
    qed
  qed
  fix i a assume "(E(k := Some d)) i = Some a"
  then have "a = d \<or> E i = Some a" by (simp split: if_splits)
  then show "joined N a" "edge_shape a" using f graph_okD(1,2) [OF g] unfolding edge_fits_def by blast+
qed

definition detached :: "string \<Rightarrow> (string \<Rightarrow> edgeData option) \<Rightarrow> string \<Rightarrow> edgeData option" where
  "detached k E j = (case E j of None \<Rightarrow> None | Some d \<Rightarrow> if ed_from d = k \<or> ed_to d = k then None else Some d)"

lemma graph_ok_drop_node:
  assumes g: "graph_ok N E"
  shows "graph_ok (N(k := None)) (detached k E)"
proof (rule graph_ok_subset [OF g])
  fix j d assume "detached k E j = Some d"
  then have d: "E j = Some d" "ed_from d \<noteq> k" "ed_to d \<noteq> k" by (auto simp: detached_def split: option.splits if_splits)
  then show "E j = Some d" by simp
  show "joined (N(k := None)) d" using graph_okD(1) [OF g d(1)] d(2,3) by (simp add: joined_def)
qed

section \<open>The database between statements\<close>

definition graph_nodes :: "database \<Rightarrow> string \<Rightarrow> nodeData option" where
  "graph_nodes db = now (db_nodes db)"

definition graph_edges :: "database \<Rightarrow> string \<Rightarrow> edgeData option" where
  "graph_edges db = now (db_edges db)"

definition revisions_ok :: "bool \<Rightarrow> int \<Rightarrow> revisionRow list \<Rightarrow> bool" where
  "revisions_ok act r revs \<longleftrightarrow>
     map rev_no revs = [1..r] \<and> sorted_wrt (<) (map rev_ns revs) \<and>
     (\<forall>row \<in> set revs. rev_sealed row \<longleftrightarrow> \<not> (act \<and> rev_no row = r)) \<and> 0 \<le> r \<and> (act \<longrightarrow> 1 \<le> r)"

definition node_value_ok :: "nodeData \<Rightarrow> bool" where
  "node_value_ok d \<longleftrightarrow>
     decodeLabels (nd_labels d) = Inr (nd_labels d) \<and> encodeLabels (nd_labels d) = Inr (nd_labels d) \<and>
     is_ok (decodeProperties (nd_properties d))"

definition edge_value_ok :: "edgeData \<Rightarrow> bool" where
  "edge_value_ok d \<longleftrightarrow> is_ok (decodeProperties (ed_properties d))"

text \<open>An edge version names nodes whose identities are not younger than it is.\<close>

definition refs_ok :: "nodeData entities \<Rightarrow> edgeData entities \<Rightarrow> bool" where
  "refs_ok ns es \<longleftrightarrow>
     (\<forall>v \<in> set (ent_versions es). \<forall>k \<in> {ed_from (ver_data v), ed_to (ver_data v)}.
        \<exists>c. (k, c) \<in> set (ent_ids ns) \<and> c \<le> ver_from v)"

definition db_ok :: "bool \<Rightarrow> int \<Rightarrow> database \<Rightarrow> bool" where
  "db_ok act r db \<longleftrightarrow>
     revisions_ok act r (db_revisions db) \<and> entities_ok r (db_nodes db) \<and> entities_ok r (db_edges db) \<and>
     refs_ok (db_nodes db) (db_edges db) \<and>
     (\<forall>v \<in> set (ent_versions (db_nodes db)). node_value_ok (ver_data v)) \<and>
     (\<forall>v \<in> set (ent_versions (db_edges db)). edge_value_ok (ver_data v)) \<and>
     graph_ok (graph_nodes db) (graph_edges db)"

section \<open>Stored values\<close>

lemma encodeProperties_null: "encodeProperties VNull = Inr (ev_of ''null'' [])"
proof -
  have safe: "\<forall>c \<in> set ''null''. json_safe c" "\<forall>c \<in> set ''k''. json_safe c" by (simp_all add: json_safe_def byte_of_def)
  note safe_null = json_chars_safe [OF safe(1)] json_chars_safe [OF safe(2)]
    json_chars_size_safe [OF safe(1)] json_chars_size_safe [OF safe(2)]
  have "canonicalEncodedValueSize (ev_of ''null'' []) = 12" "length (json_marshal (ev_of ''null'' [])) = 12"
    by (simp_all add: ev_of_def add_field_def jsonStringSize_def json_field_def json_string_def safe_null)
  then show ?thesis
    by (simp add: encodeProperties_def preflightPropertyInput_def preflightValue.simps encodeValue.simps encodeScalar_def
        validateEncodedIndexBudget_def validateEncodedShape_def ev_of_def limit_defs Let_def)
qed

text \<open>A property blob that can be read is one that the writer would write again.\<close>

lemma decode_null:
  assumes "decodeValue n d e = Inr (VNull, n')"
  shows "e = ev_of ''null'' []"
proof (cases e)
  case (EncodedValue k b t z u items m)
  have k: "k \<noteq> ''list''" "k \<noteq> ''map''" and shape: "validateEncodedShape e = Inr ()" and s: "decodeScalar e = Inr VNull"
    using assms by (auto simp: EncodedValue decodeValue.simps Let_def bindE_Inr_iff split: if_splits)
  have "k = ''null''"
    using s by (auto simp: EncodedValue decodeScalar_def Let_def bindE_Inr_iff split: if_splits option.splits)
  then show ?thesis using shape by (auto simp: EncodedValue validateEncodedShape_def ev_of_def split: if_splits)
qed

lemma decodeProperties_reencode:
  assumes "decodeProperties b = Inr p"
  obtains b' where "encodeProperties p = Inr b'" "json_marshal b' = json_marshal b"
proof -
  obtain v n where d: "decodeValue 0 0 b = Inr (v, n)" and r: "(case v of VNull \<Rightarrow> Inr VNull | VMap m \<Rightarrow>
        bindE (encodeProperties v) (\<lambda>reencoded. if json_marshal reencoded \<noteq> json_marshal b then Inl PlainError else Inr v)
      | _ \<Rightarrow> Inl PlainError) = (Inr p :: derror + pvalue)"
    using assms by (auto simp: decodeProperties_def bindE_Inr_iff)
  show thesis
  proof (cases "v = VNull")
    case True
    then show thesis using that decode_null [of 0 0 b n] d r encodeProperties_null by auto
  next
    case False
    then obtain m where "v = VMap m" using r by (cases v) auto
    then show thesis using that r by (auto simp: bindE_Inr_iff split: if_splits)
  qed
qed

section \<open>Revisions\<close>

lemma foldr_max_upto:
  assumes "0 \<le> r"
  shows "foldr max [a..r] (0::int) = (if a \<le> r then r else 0)"
  using assms
proof (induction "nat (r - a + 1)" arbitrary: a)
  case 0
  then show ?case by (simp add: upto.simps)
next
  case (Suc n)
  then have a: "a \<le> r" by linarith
  have "foldr max [a + 1..r] 0 = (if a + 1 \<le> r then r else 0)" using Suc by (intro Suc.hyps) auto
  then show ?case using a Suc.prems by (subst upto.simps) auto
qed

lemma max_revision_upto: "0 \<le> r \<Longrightarrow> map rev_no revs = [1..r] \<Longrightarrow> max_revision revs = r"
proof -
  assume a: "0 \<le> r" "map rev_no revs = [1..r]"
  have "max_revision revs = foldr max (map rev_no revs) 0" by (simp add: max_revision_def foldr_map comp_def)
  then show ?thesis using a foldr_max_upto [of r 1] by simp
qed

lemma revisions_max: "revisions_ok act r revs \<Longrightarrow> max_revision revs = r"
  by (simp add: revisions_ok_def max_revision_upto)

lemma revisions_find:
  assumes "revisions_ok act r revs" "1 \<le> n" "n \<le> r"
  shows "\<exists>row \<in> set revs. find (\<lambda>row. rev_no row = n) revs = Some row \<and> rev_no row = n"
proof -
  have "n \<in> set (map rev_no revs)" using assms by (simp add: revisions_ok_def)
  then have "find (\<lambda>row. rev_no row = n) revs \<noteq> None" by (auto simp: find_None_iff)
  then obtain row where "find (\<lambda>row. rev_no row = n) revs = Some row" by auto
  then show ?thesis using find_SomeD by fastforce
qed

lemma db_active: "db_ok True r db \<Longrightarrow> active db n \<longleftrightarrow> n = r"
proof -
  assume "db_ok True r db"
  then have o: "revisions_ok True r (db_revisions db)" by (simp add: db_ok_def)
  then have "1 \<le> r" by (simp add: revisions_ok_def)
  from revisions_find [OF o this order_refl] obtain row where
    row: "row \<in> set (db_revisions db)" "find (\<lambda>row. rev_no row = r) (db_revisions db) = Some row" "rev_no row = r" by blast
  then have "\<not> rev_sealed row" using o by (auto simp: revisions_ok_def)
  then show ?thesis using row(2) by (auto simp: active_def revisions_max [OF o])
qed

lemma revisions_unsealed: "revisions_ok False r revs \<Longrightarrow> unsealed_count revs = 0"
  by (simp add: revisions_ok_def unsealed_count_def filter_empty_conv)

lemma revisions_last:
  assumes "revisions_ok act r revs"
  shows "map_option rev_ns (find (\<lambda>row. rev_no row = max_revision revs) revs) =
    (if revs = [] then None else Some (rev_ns (last revs)))"
proof (cases "revs = []")
  case False
  have n: "map rev_no revs = [1..r]" and r: "0 \<le> r" using assms by (simp_all add: revisions_ok_def)
  have "1 \<le> r"
  proof (rule ccontr)
    assume "\<not> 1 \<le> r"
    then have "[1..r] = []" by simp
    with n False show False by (metis map_is_Nil_conv)
  qed
  then have u: "[1..r] = [1..r - 1] @ [r]" using upto_rec2 [of 1 r] by simp
  obtain rs row where x: "revs = rs @ [row]" using False by (metis append_butlast_last_id)
  have "map rev_no rs @ [rev_no row] = [1..r - 1] @ [r]" using n [unfolded u] x by (metis list.map map_append)
  then have m: "map rev_no rs = [1..r - 1]" "rev_no row = r" by blast+
  have "find (\<lambda>row. rev_no row = r) rs = None"
  proof -
    have "rev_no x \<noteq> r" if "x \<in> set rs" for x
    proof -
      have "rev_no x \<in> set [1..r - 1]" using that m(1) by (metis image_eqI set_map)
      then show ?thesis by simp
    qed
    then show ?thesis by (simp add: find_None_iff)
  qed
  then show ?thesis using m(2) by (simp add: x find_snoc revisions_max [OF assms, unfolded x])
qed simp

lemma revisions_add:
  assumes o: "revisions_ok False r revs" and t: "\<forall>row \<in> set revs. rev_ns row < ns"
  shows "revisions_ok True (r + 1) (revs @ [\<lparr>rev_no = r + 1, rev_ns = ns, rev_actor = a, rev_message = m, rev_sealed = False\<rparr>])"
proof -
  have "[1..r + 1] = [1..r] @ [r + 1]" using o upto_rec2 [of 1 "r + 1"] by (simp add: revisions_ok_def)
  moreover have "rev_no row \<noteq> r + 1" if "row \<in> set revs" for row
  proof -
    have "rev_no row \<in> set [1..r]" using that o by (metis image_eqI revisions_ok_def set_map)
    then show ?thesis by simp
  qed
  ultimately show ?thesis using o t by (auto simp: revisions_ok_def sorted_wrt_append)
qed

end
