(* ===== verification/Store_Steps.thy ===== *)
theory Store_Steps
  imports Store_Invariant
begin

text \<open>
  How the writer's statements move a database that is in order: each one succeeds, keeps the invariant,
  leaves what the database says about earlier revisions, and changes the current graph at one place.
\<close>

definition db_step :: "int \<Rightarrow> database \<Rightarrow> database \<Rightarrow> bool" where
  "db_step r db db' \<longleftrightarrow>
     db_ok True r db' \<and> db_revisions db' = db_revisions db \<and>
     (\<forall>n < r. past n (db_nodes db') = past n (db_nodes db) \<and> past n (db_edges db') = past n (db_edges db))"

lemma db_step_refl: "db_ok True r db \<Longrightarrow> db_step r db db"
  by (simp add: db_step_def)

lemma db_step_trans: "db_step r db db1 \<Longrightarrow> db_step r db1 db2 \<Longrightarrow> db_step r db db2"
  by (simp add: db_step_def)

lemma active_update [simp]:
  "active (db\<lparr>db_nodes := ns\<rparr>) = active db" "active (db\<lparr>db_edges := es\<rparr>) = active db"
  by (simp_all add: active_def fun_eq_iff)

lemma onNodes_Inr [simp]: "onNodes db (Inr es) = Inr (db\<lparr>db_nodes := es\<rparr>)"
  by (simp add: onNodes_def)

lemma onEdges_Inr [simp]: "onEdges db (Inr es) = Inr (db\<lparr>db_edges := es\<rparr>)"
  by (simp add: onEdges_def)

lemma db_okD:
  assumes "db_ok act r db"
  shows "revisions_ok act r (db_revisions db)" "entities_ok r (db_nodes db)" "entities_ok r (db_edges db)"
    "refs_ok (db_nodes db) (db_edges db)" "graph_ok (graph_nodes db) (graph_edges db)"
    "v \<in> set (ent_versions (db_nodes db)) \<Longrightarrow> node_value_ok (ver_data v)"
    "e \<in> set (ent_versions (db_edges db)) \<Longrightarrow> edge_value_ok (ver_data e)"
  using assms by (simp_all add: db_ok_def)

lemma db_ok_pos: "db_ok True r db \<Longrightarrow> 1 \<le> r"
  by (simp add: db_ok_def revisions_ok_def)

lemma graph_updates [simp]:
  "graph_nodes (db\<lparr>db_nodes := ns\<rparr>) = now ns" "graph_edges (db\<lparr>db_nodes := ns\<rparr>) = graph_edges db"
  "graph_edges (db\<lparr>db_edges := es\<rparr>) = now es" "graph_nodes (db\<lparr>db_edges := es\<rparr>) = graph_nodes db"
  by (simp_all add: graph_nodes_def graph_edges_def)

text \<open>A node that is current has an identity that is not younger than the revision.\<close>

lemma current_identity:
  assumes "entities_ok r es" "now es k \<noteq> None"
  shows "\<exists>c. (k, c) \<in> set (ent_ids es) \<and> c \<le> r"
proof -
  obtain v where v: "select_current (ent_versions es) k = Some v"
    using assms(2) by (auto simp: now_def view_now_def)
  note row = current_row [OF assms(1) v]
  obtain c where "(k, c) \<in> set (ent_ids es)" "c \<le> ver_from v"
    using assms(1) row(1,2) unfolding entities_ok_def ids_ok_def by blast
  then show ?thesis using row(5) by auto
qed

section \<open>Writing a node\<close>

definition put_node :: "int \<Rightarrow> string \<Rightarrow> nodeData option \<Rightarrow> database \<Rightarrow> database" where
  "put_node r k x db = db\<lparr>db_nodes := (db_nodes db)\<lparr>ent_versions := write_version r k x (ent_versions (db_nodes db))\<rparr>\<rparr>"

definition unused :: "string \<Rightarrow> database \<Rightarrow> bool" where
  "unused k db \<longleftrightarrow> (\<forall>j d. graph_edges db j = Some d \<longrightarrow> ed_from d \<noteq> k \<and> ed_to d \<noteq> k)"

lemma write_node_graph:
  assumes "db_ok True r db" "x = None \<longrightarrow> unused k db"
  shows "graph_ok ((graph_nodes db)(k := x)) (graph_edges db)"
proof (cases x)
  case (Some d)
  then show ?thesis using graph_ok_add_node [OF db_okD(5) [OF assms(1)]] by simp
next
  case None
  show ?thesis
  proof (rule graph_ok_subset [OF db_okD(5) [OF assms(1)]])
    fix j d assume e: "graph_edges db j = Some d"
    then have "ed_from d \<noteq> k \<and> ed_to d \<noteq> k" using assms(2) None unfolding unused_def by blast
    then show "joined ((graph_nodes db)(k := x)) d"
      using graph_okD(1) [OF db_okD(5) [OF assms(1)] e] None by (simp add: joined_def)
  qed
qed

lemma put_node_step:
  assumes o: "db_ok True r db" and x: "\<And>d. x = Some d \<Longrightarrow> k \<in> fst ` set (ent_ids (db_nodes db)) \<and> node_value_ok d"
    and u: "x = None \<longrightarrow> unused k db"
  shows "db_step r db (put_node r k x db)" "graph_nodes (put_node r k x db) = (graph_nodes db)(k := x)"
    "graph_edges (put_node r k x db) = graph_edges db"
proof -
  let ?es = "(db_nodes db)\<lparr>ent_versions := write_version r k x (ent_versions (db_nodes db))\<rparr>"
  have k: "x \<noteq> None \<Longrightarrow> k \<in> fst ` set (ent_ids (db_nodes db))" using x by blast
  note w = write_entity [OF db_okD(2) [OF o] db_ok_pos [OF o] k]
  show g: "graph_nodes (put_node r k x db) = (graph_nodes db)(k := x)"
    using w(2) by (simp add: put_node_def graph_nodes_def)
  show e: "graph_edges (put_node r k x db) = graph_edges db" by (simp add: put_node_def)
  have vals: "node_value_ok (ver_data v)" if v: "v \<in> set (ent_versions ?es)" for v
    using rows_write [of v r k x "ent_versions (db_nodes db)"] v x db_okD(6) [OF o] by fastforce
  have "db_ok True r (put_node r k x db)"
    unfolding db_ok_def
  proof (intro conjI ballI)
    show "graph_ok (graph_nodes (put_node r k x db)) (graph_edges (put_node r k x db))"
      unfolding g e by (rule write_node_graph [OF o u])
    show "refs_ok (db_nodes (put_node r k x db)) (db_edges (put_node r k x db))"
      using db_okD(4) [OF o] by (simp add: put_node_def refs_ok_def)
  qed (use db_okD [OF o] w(1) vals in \<open>simp_all add: put_node_def\<close>)
  then show "db_step r db (put_node r k x db)" using w(3) by (simp add: db_step_def put_node_def)
qed

section \<open>Writing an edge\<close>

definition put_edge :: "int \<Rightarrow> string \<Rightarrow> edgeData option \<Rightarrow> database \<Rightarrow> database" where
  "put_edge r k x db = db\<lparr>db_edges := (db_edges db)\<lparr>ent_versions := write_version r k x (ent_versions (db_edges db))\<rparr>\<rparr>"

lemma put_edge_step:
  assumes o: "db_ok True r db"
    and x: "\<And>d. x = Some d \<Longrightarrow> k \<in> fst ` set (ent_ids (db_edges db)) \<and> edge_value_ok d \<and> edge_fits (graph_nodes db) (graph_edges db) k d"
  shows "db_step r db (put_edge r k x db)" "graph_edges (put_edge r k x db) = (graph_edges db)(k := x)"
    "graph_nodes (put_edge r k x db) = graph_nodes db"
proof -
  let ?es = "(db_edges db)\<lparr>ent_versions := write_version r k x (ent_versions (db_edges db))\<rparr>"
  have k: "x \<noteq> None \<Longrightarrow> k \<in> fst ` set (ent_ids (db_edges db))" using x by blast
  note w = write_entity [OF db_okD(3) [OF o] db_ok_pos [OF o] k]
  show g: "graph_edges (put_edge r k x db) = (graph_edges db)(k := x)"
    using w(2) by (simp add: put_edge_def graph_edges_def)
  show e: "graph_nodes (put_edge r k x db) = graph_nodes db" by (simp add: put_edge_def)
  have vals: "edge_value_ok (ver_data v)" if v: "v \<in> set (ent_versions ?es)" for v
    using rows_write [of v r k x "ent_versions (db_edges db)"] v x db_okD(7) [OF o] by fastforce
  have ends: "\<exists>c. (j, c) \<in> set (ent_ids (db_nodes db)) \<and> c \<le> ver_from v"
    if v: "v \<in> set (ent_versions ?es)" and j: "j \<in> {ed_from (ver_data v), ed_to (ver_data v)}" for v j
  proof (cases "x = Some (ver_data v) \<and> ver_id v = k \<and> ver_from v = r")
    case True
    then have "graph_nodes db j \<noteq> None" using x j unfolding edge_fits_def joined_def by blast
    then show ?thesis using current_identity [OF db_okD(2) [OF o]] True by (simp add: graph_nodes_def)
  next
    case False
    then obtain w where "w \<in> set (ent_versions (db_edges db))" "ver_from w = ver_from v" "ver_data w = ver_data v"
      using rows_write [of v r k x "ent_versions (db_edges db)"] v by auto
    then show ?thesis using db_okD(4) [OF o] j unfolding refs_ok_def by metis
  qed
  have "db_ok True r (put_edge r k x db)"
    unfolding db_ok_def
  proof (intro conjI ballI)
    show "graph_ok (graph_nodes (put_edge r k x db)) (graph_edges (put_edge r k x db))"
      unfolding g e using graph_ok_put_edge graph_ok_drop_edge db_okD(5) [OF o] x by (cases x) auto
    show "refs_ok (db_nodes (put_edge r k x db)) (db_edges (put_edge r k x db))"
      using ends by (simp add: put_edge_def refs_ok_def)
  qed (use db_okD [OF o] w(1) vals in \<open>simp_all add: put_edge_def\<close>)
  then show "db_step r db (put_edge r k x db)" using w(3) by (simp add: db_step_def put_edge_def)
qed

section \<open>New identities\<close>

definition node_identity :: "int \<Rightarrow> string \<Rightarrow> database \<Rightarrow> database" where
  "node_identity r k db = db\<lparr>db_nodes := (db_nodes db)\<lparr>ent_ids := ent_ids (db_nodes db) @ [(k, r)]\<rparr>\<rparr>"

definition edge_identity :: "int \<Rightarrow> string \<Rightarrow> database \<Rightarrow> database" where
  "edge_identity r k db = db\<lparr>db_edges := (db_edges db)\<lparr>ent_ids := ent_ids (db_edges db) @ [(k, r)]\<rparr>\<rparr>"

definition add_node :: "int \<Rightarrow> string \<Rightarrow> nodeData \<Rightarrow> database \<Rightarrow> database" where
  "add_node r k d db = put_node r k (Some d) (node_identity r k db)"

definition add_edge :: "int \<Rightarrow> string \<Rightarrow> edgeData \<Rightarrow> database \<Rightarrow> database" where
  "add_edge r k d db = put_edge r k (Some d) (edge_identity r k db)"

lemma add_identity:
  assumes h: "entities_ok r es" and k: "k \<notin> fst ` set (ent_ids es)" and ne: "k \<noteq> []"
  shows "entities_ok r (es\<lparr>ent_ids := ent_ids es @ [(k, r)]\<rparr>)"
proof -
  have i: "ids_ok r es" using h by (simp add: entities_ok_def)
  have "ids_ok r (es\<lparr>ent_ids := ent_ids es @ [(k, r)]\<rparr>)"
    unfolding ids_ok_def
  proof (intro conjI ballI)
    show "distinct (map fst (ent_ids (es\<lparr>ent_ids := ent_ids es @ [(k, r)]\<rparr>)))" using i k by (simp add: ids_ok_def)
    show "case x of (k, c) \<Rightarrow> c \<le> r \<and> k \<noteq> []" if "x \<in> set (ent_ids (es\<lparr>ent_ids := ent_ids es @ [(k, r)]\<rparr>))" for x
      using that i ne by (auto simp: ids_ok_def)
    show "\<exists>c. (ver_id v, c) \<in> set (ent_ids (es\<lparr>ent_ids := ent_ids es @ [(k, r)]\<rparr>)) \<and> c \<le> ver_from v"
      if "v \<in> set (ent_versions (es\<lparr>ent_ids := ent_ids es @ [(k, r)]\<rparr>))" for v
      using that i by (auto simp: ids_ok_def)
  qed
  then show ?thesis using h by (simp add: entities_ok_def)
qed

lemma add_node_step:
  assumes o: "db_ok True r db" and k: "k \<notin> fst ` set (ent_ids (db_nodes db))" and ne: "k \<noteq> []" and d: "node_value_ok d"
  shows "onNodes db (insertIdentity (active db r) k r (db_nodes db)) = Inr (node_identity r k db)"
    and "onNodes (node_identity r k db) (insertVersion (active (node_identity r k db) r) k r d (db_nodes (node_identity r k db))) = Inr (add_node r k d db)"
    and "db_step r db (add_node r k d db)" "graph_nodes (add_node r k d db) = (graph_nodes db)(k := Some d)"
    "graph_edges (add_node r k d db) = graph_edges db"
proof -
  note c = create_entity [OF db_okD(2) [OF o] db_ok_pos [OF o] k ne]
  show "onNodes db (insertIdentity (active db r) k r (db_nodes db)) = Inr (node_identity r k db)"
    using c(1) by (simp add: db_active [OF o] node_identity_def edge_identity_def)
  show "onNodes (node_identity r k db) (insertVersion (active (node_identity r k db) r) k r d (db_nodes (node_identity r k db))) = Inr (add_node r k d db)"
    using c(2) [of d] by (simp add: db_active [OF o] add_node_def put_node_def node_identity_def)
  have "refs_ok (db_nodes (node_identity r k db)) (db_edges (node_identity r k db))"
    using db_okD(4) [OF o] unfolding refs_ok_def node_identity_def by fastforce
  moreover have "graph_nodes (node_identity r k db) = graph_nodes db" "graph_edges (node_identity r k db) = graph_edges db"
    by (simp_all add: graph_nodes_def graph_edges_def now_def node_identity_def)
  ultimately have o1: "db_ok True r (node_identity r k db)"
    using o add_identity [OF db_okD(2) [OF o] k ne] by (simp add: db_ok_def node_identity_def)
  then have "db_step r db (node_identity r k db)" by (simp add: db_step_def past_def node_identity_def)
  moreover have x: "k \<in> fst ` set (ent_ids (db_nodes (node_identity r k db))) \<and> node_value_ok d'" if "Some d = Some d'" for d'
    using that d by (simp add: node_identity_def)
  note s = put_node_step [where x = "Some d" and k = k, OF o1 x, simplified]
  ultimately show "db_step r db (add_node r k d db)" using s(1) db_step_trans unfolding add_node_def by metis
  show "graph_nodes (add_node r k d db) = (graph_nodes db)(k := Some d)"
    using s(2) \<open>graph_nodes (node_identity r k db) = graph_nodes db\<close> unfolding add_node_def by simp
  show "graph_edges (add_node r k d db) = graph_edges db"
    using s(3) \<open>graph_edges (node_identity r k db) = graph_edges db\<close> unfolding add_node_def by simp
qed

text \<open>The constraints on an edge version are those of \<open>edge_fits\<close>.\<close>

lemma current_node_iff: "db_ok act r db \<Longrightarrow> current_node db k \<longleftrightarrow> graph_nodes db k \<noteq> None"
  unfolding current_node_def graph_nodes_def now_def using view_now_None [of "ent_versions (db_nodes db)" k]
  by (auto simp: list_ex_iff)

lemma current_edge:
  assumes "db_ok act r db"
  shows "graph_edges db j = Some d \<longleftrightarrow> (\<exists>v \<in> set (ent_versions (db_edges db)). ver_id v = j \<and> ver_to v = None \<and> ver_data v = d)"
  using db_okD(3) [OF assms] view_now_Some unfolding graph_edges_def now_def entities_ok_def by metis

lemma child_pairs_set:
  assumes "db_ok act r db"
  shows "set (child_pairs db k) = child_rel ((graph_edges db)(k := None))"
proof -
  have "(a, b) \<in> set (child_pairs db k) \<longleftrightarrow> (a, b) \<in> child_rel ((graph_edges db)(k := None))" for a b
  proof -
    have "(a, b) \<in> set (child_pairs db k) \<longleftrightarrow>
        (\<exists>v \<in> set (ent_versions (db_edges db)). ver_to v = None \<and> child_edge (ver_data v) \<and> ver_id v \<noteq> k \<and>
           ed_from (ver_data v) = a \<and> ed_to (ver_data v) = b)"
      by (auto simp: child_pairs_def)
    also have "\<dots> \<longleftrightarrow> (\<exists>j d. j \<noteq> k \<and> graph_edges db j = Some d \<and> child_edge d \<and> ed_from d = a \<and> ed_to d = b)"
      unfolding current_edge [OF assms] by blast
    also have "\<dots> \<longleftrightarrow> (a, b) \<in> child_rel ((graph_edges db)(k := None))"
      by (simp add: child_rel_def) metis
    finally show ?thesis .
  qed
  then show ?thesis by auto
qed

lemma child_parent_iff:
  assumes "db_ok act r db"
  shows "b \<in> snd ` set (child_pairs db k) \<longleftrightarrow> (\<exists>j e. j \<noteq> k \<and> graph_edges db j = Some e \<and> child_edge e \<and> ed_to e = b)"
  unfolding child_pairs_set [OF assms] child_rel_def by (force split: if_splits)

lemma edge_guard_ok:
  assumes o: "db_ok act r db" and f: "edge_fits (graph_nodes db) (graph_edges db) k d"
  shows "edge_guard db k d = Inr ()"
proof -
  have "ed_type d \<noteq> [] \<and> CHR 0x00 \<notin> set (ed_type d) \<and> (ed_type d = ''CHILD'' \<or> ed_position d = None)"
    "current_node db (ed_from d) \<and> current_node db (ed_to d)"
    using f by (simp_all add: edge_fits_def edge_shape_def joined_def current_node_iff [OF o])
  moreover have "ed_type d = ''CHILD'' \<longrightarrow> \<not> pathExists 1 (child_pairs db k) (ed_to d) (ed_from d)"
    using f by (simp add: pathExists_iff child_pairs_set [OF o] edge_fits_def)
  moreover have "ed_type d = ''CHILD'' \<longrightarrow> ed_to d \<notin> snd ` set (child_pairs db k)"
    unfolding child_parent_iff [OF o] using f unfolding edge_fits_def by blast
  ultimately show ?thesis by (simp add: edge_guard_def)
qed

lemma add_edge_step:
  assumes o: "db_ok True r db" and k: "k \<notin> fst ` set (ent_ids (db_edges db))" and ne: "k \<noteq> []"
    and d: "edge_value_ok d" "edge_fits (graph_nodes db) (graph_edges db) k d"
  shows "onEdges db (insertIdentity (active db r) k r (db_edges db)) = Inr (edge_identity r k db)"
    and "sqlInsertEdgeVersion k r d (edge_identity r k db) = Inr (add_edge r k d db)"
    and "db_step r db (add_edge r k d db)" "graph_edges (add_edge r k d db) = (graph_edges db)(k := Some d)"
    "graph_nodes (add_edge r k d db) = graph_nodes db"
proof -
  note c = create_entity [OF db_okD(3) [OF o] db_ok_pos [OF o] k ne]
  show "onEdges db (insertIdentity (active db r) k r (db_edges db)) = Inr (edge_identity r k db)"
    using c(1) by (simp add: db_active [OF o] node_identity_def edge_identity_def)
  have g: "graph_nodes (edge_identity r k db) = graph_nodes db" "graph_edges (edge_identity r k db) = graph_edges db"
    by (simp_all add: graph_nodes_def graph_edges_def now_def edge_identity_def)
  moreover have "refs_ok (db_nodes (edge_identity r k db)) (db_edges (edge_identity r k db))"
    using db_okD(4) [OF o] by (simp add: refs_ok_def edge_identity_def)
  ultimately have o1: "db_ok True r (edge_identity r k db)"
    using o add_identity [OF db_okD(3) [OF o] k ne] by (simp add: db_ok_def edge_identity_def)
  have f: "edge_fits (graph_nodes (edge_identity r k db)) (graph_edges (edge_identity r k db)) k d" unfolding g by (rule d(2))
  show "sqlInsertEdgeVersion k r d (edge_identity r k db) = Inr (add_edge r k d db)"
    using c(2) [of d] edge_guard_ok [OF o1 f]
    by (simp add: sqlInsertEdgeVersion_def db_active [OF o] add_edge_def put_edge_def edge_identity_def)
  have "db_step r db (edge_identity r k db)" using o1 by (simp add: db_step_def past_def edge_identity_def)
  moreover have x: "k \<in> fst ` set (ent_ids (db_edges (edge_identity r k db))) \<and> edge_value_ok d' \<and> edge_fits (graph_nodes (edge_identity r k db)) (graph_edges (edge_identity r k db)) k d'"
    if "Some d = Some d'" for d' using that d(1) f by (simp add: edge_identity_def)
  note s = put_edge_step [where x = "Some d" and k = k, OF o1 x, simplified]
  ultimately show "db_step r db (add_edge r k d db)" using s(1) db_step_trans unfolding add_edge_def by metis
  show "graph_edges (add_edge r k d db) = (graph_edges db)(k := Some d)" using s(2) g unfolding add_edge_def by simp
  show "graph_nodes (add_edge r k d db) = graph_nodes db" using s(3) g unfolding add_edge_def by simp
qed

lemma db_active_fun: "db_ok True r db \<Longrightarrow> active db = (\<lambda>n. n = r)"
  by (simp add: fun_eq_iff db_active)

section \<open>Removing identities of the active revision\<close>

definition del_node :: "int \<Rightarrow> string \<Rightarrow> database \<Rightarrow> database" where
  "del_node r k db = db\<lparr>db_nodes := (db_nodes db)\<lparr>ent_ids := filter (\<lambda>(j, c). j \<noteq> k) (ent_ids (db_nodes db)),
     ent_versions := write_version r k None (ent_versions (db_nodes db))\<rparr>\<rparr>"

definition del_edge :: "int \<Rightarrow> string \<Rightarrow> database \<Rightarrow> database" where
  "del_edge r k db = db\<lparr>db_edges := (db_edges db)\<lparr>ent_ids := filter (\<lambda>(j, c). j \<noteq> k) (ent_ids (db_edges db)),
     ent_versions := write_version r k None (ent_versions (db_edges db))\<rparr>\<rparr>"

lemma rows_drop: "v \<in> set (write_version r k None t) \<Longrightarrow> \<exists>w \<in> set t. ver_id w = ver_id v \<and> ver_from w = ver_from v \<and> ver_data w = ver_data v"
  using rows_write [of v r k None t] by auto

lemma del_node_step:
  assumes o: "db_ok True r db" and v: "select_current (ent_versions (db_nodes db)) k = Some v" "ver_from v = r"
    and c: "map_of (ent_ids (db_nodes db)) k = Some r" and u: "unused k db"
  shows "sqlDeleteNode k db = Inr (del_node r k db)" "db_step r db (del_node r k db)"
    "graph_nodes (del_node r k db) = (graph_nodes db)(k := None)" "graph_edges (del_node r k db) = graph_edges db"
proof -
  note e = delete_entity [OF db_okD(2) [OF o] db_ok_pos [OF o] v c]
  have free: "ed_from (ver_data w) \<noteq> k \<and> ed_to (ver_data w) \<noteq> k" if w: "w \<in> set (ent_versions (db_edges db))" for w
  proof (rule ccontr)
    assume not: "\<not> (ed_from (ver_data w) \<noteq> k \<and> ed_to (ver_data w) \<noteq> k)"
    then have "k \<in> {ed_from (ver_data w), ed_to (ver_data w)}" by auto
    then obtain n where n: "(k, n) \<in> set (ent_ids (db_nodes db))" "n \<le> ver_from w"
      using db_okD(4) [OF o] w unfolding refs_ok_def by blast
    have "n = r" using n(1) c db_okD(2) [OF o] unfolding entities_ok_def ids_ok_def by (metis map_of_is_SomeI option.inject)
    moreover have "row_ok r w" using db_okD(3) [OF o] w row_okD unfolding entities_ok_def by blast
    ultimately have "ver_to w = None" using n(2) from_newest_current [of r w] by (simp add: row_ok_def)
    then have "graph_edges db (ver_id w) = Some (ver_data w)" using current_edge [OF o] w by blast
    then show False using u not unfolding unused_def by blast
  qed
  show "sqlDeleteNode k db = Inr (del_node r k db)"
    using e(1) free by (simp add: sqlDeleteNode_def del_node_def db_active_fun [OF o])
  show g: "graph_nodes (del_node r k db) = (graph_nodes db)(k := None)"
    using e(3) by (simp add: del_node_def graph_nodes_def)
  show h: "graph_edges (del_node r k db) = graph_edges db" by (simp add: del_node_def)
  have "db_ok True r (del_node r k db)"
    unfolding db_ok_def
  proof (intro conjI ballI)
    show "graph_ok (graph_nodes (del_node r k db)) (graph_edges (del_node r k db))"
      unfolding g h using write_node_graph [OF o] u by blast
    show "refs_ok (db_nodes (del_node r k db)) (db_edges (del_node r k db))"
      using db_okD(4) [OF o] free unfolding refs_ok_def del_node_def by (auto 0 3)
    show "node_value_ok (ver_data w)" if "w \<in> set (ent_versions (db_nodes (del_node r k db)))" for w
      using that rows_drop [of w r k] db_okD(6) [OF o] by (fastforce simp: del_node_def)
  qed (use db_okD [OF o] e(2) in \<open>simp_all add: del_node_def\<close>)
  then show "db_step r db (del_node r k db)" using e(4) by (simp add: db_step_def del_node_def past_def)
qed

lemma del_edge_step:
  assumes o: "db_ok True r db" and v: "select_current (ent_versions (db_edges db)) k = Some v" "ver_from v = r"
    and c: "map_of (ent_ids (db_edges db)) k = Some r"
  shows "onEdges db (deleteIdentity (active db) k (db_edges db)) = Inr (del_edge r k db)" "db_step r db (del_edge r k db)"
    "graph_edges (del_edge r k db) = (graph_edges db)(k := None)" "graph_nodes (del_edge r k db) = graph_nodes db"
proof -
  note e = delete_entity [OF db_okD(3) [OF o] db_ok_pos [OF o] v c]
  show "onEdges db (deleteIdentity (active db) k (db_edges db)) = Inr (del_edge r k db)"
    using e(1) by (simp add: del_edge_def db_active_fun [OF o])
  show g: "graph_edges (del_edge r k db) = (graph_edges db)(k := None)"
    using e(3) by (simp add: del_edge_def graph_edges_def)
  show h: "graph_nodes (del_edge r k db) = graph_nodes db" by (simp add: del_edge_def)
  have "db_ok True r (del_edge r k db)"
    unfolding db_ok_def
  proof (intro conjI ballI)
    show "graph_ok (graph_nodes (del_edge r k db)) (graph_edges (del_edge r k db))"
      unfolding g h by (rule graph_ok_drop_edge [OF db_okD(5) [OF o]])
    show "refs_ok (db_nodes (del_edge r k db)) (db_edges (del_edge r k db))"
      unfolding refs_ok_def
    proof (intro ballI)
      fix w j assume "w \<in> set (ent_versions (db_edges (del_edge r k db)))" and j: "j \<in> {ed_from (ver_data w), ed_to (ver_data w)}"
      then obtain w' where "w' \<in> set (ent_versions (db_edges db))" "ver_from w' = ver_from w" "ver_data w' = ver_data w"
        using rows_drop [of w r k] by (auto simp: del_edge_def)
      then show "\<exists>c. (j, c) \<in> set (ent_ids (db_nodes (del_edge r k db))) \<and> c \<le> ver_from w"
        using db_okD(4) [OF o] j unfolding refs_ok_def by (simp add: del_edge_def) metis
    qed
    show "edge_value_ok (ver_data w)" if "w \<in> set (ent_versions (db_edges (del_edge r k db)))" for w
      using that rows_drop [of w r k] db_okD(7) [OF o] by (fastforce simp: del_edge_def)
  qed (use db_okD [OF o] e(2) in \<open>simp_all add: del_edge_def\<close>)
  then show "db_step r db (del_edge r k db)" using e(4) by (simp add: db_step_def del_edge_def past_def)
qed

section \<open>A new revision\<close>

lemma new_revision:
  fixes a m :: string
  assumes o: "db_ok False b db" and t: "\<forall>row \<in> set (db_revisions db). rev_ns row < ns"
  defines "db' \<equiv> db\<lparr>db_revisions := db_revisions db @
      [\<lparr>rev_no = b + 1, rev_ns = ns, rev_actor = a, rev_message = m, rev_sealed = False\<rparr>]\<rparr>"
  shows "insertRevision (b + 1) ns a m db = Inr db'" "db_ok True (b + 1) db'"
proof -
  have r: "revisions_ok False b (db_revisions db)" using o by (simp add: db_ok_def)
  then have "0 \<le> b" by (simp add: revisions_ok_def)
  then show "insertRevision (b + 1) ns a m db = Inr db'"
    using t revisions_max [OF r] revisions_unsealed [OF r] by (simp add: insertRevision_def db'_def)
  have "graph_nodes db' = graph_nodes db" "graph_edges db' = graph_edges db"
    by (simp_all add: db'_def graph_nodes_def graph_edges_def)
  then show "db_ok True (b + 1) db'"
    using o revisions_add [OF r t] by (simp add: db_ok_def db'_def entities_ok_next)
qed

end
