(* ===== verification/Transaction.thy ===== *)
theory Transaction
  imports Store_Steps
begin

text \<open>
  What a write transaction keeps: its database is in order, its revision is the one after its base, and
  what its base and the revisions before it say never changes.
\<close>

section \<open>Successful operations\<close>

lemma bindT_Inr_iff [result_simps]:
  "bindT m f tx = (Inr y, tx') \<longleftrightarrow> (\<exists>x tx1. m tx = (Inr x, tx1) \<and> f x tx1 = (Inr y, tx'))"
  by (auto simp: bindT_def split: prod.splits sum.splits)

lemma bindT_step [simp]: "m tx = (Inr x, tx1) \<Longrightarrow> bindT m f tx = f x tx1"
  by (simp add: bindT_def)

lemma returnT_Inr_iff [result_simps]: "returnT q tx = (Inr y, tx') \<longleftrightarrow> q = Inr y \<and> tx' = tx"
  by (auto simp: returnT_def)

lemma readT_Inr_iff [result_simps]: "readT q tx = (Inr y, tx') \<longleftrightarrow> q (tx_db tx) = Inr y \<and> tx' = tx"
  by (auto simp: readT_def)

lemma execT_Inr_iff [result_simps]:
  "execT w stmt tx = (Inr y, tx') \<longleftrightarrow> (\<exists>db. stmt (tx_db tx) = Inr db \<and> tx' = tx\<lparr>tx_db := db\<rparr>)"
  by (auto simp: execT_def split: sum.splits)

lemma recordMutationFailure_Inr_iff [result_simps]:
  "recordMutationFailure m tx = (Inr y, tx') \<longleftrightarrow> m tx = (Inr y, tx')"
  by (auto simp: recordMutationFailure_def split: prod.splits sum.splits)

lemma checkActive_Inr_iff [result_simps]: "checkActive tx = (Inr y, tx') \<longleftrightarrow> \<not> tx_done tx \<and> tx' = tx"
  by (auto simp: checkActive_def)

lemma invalid_argument_Inr_iff [result_simps]: "invalid_argument q = Inr y \<longleftrightarrow> q = Inr y"
  by (cases q) (auto simp: invalid_argument_def)

lemma corrupt_Inr_iff [result_simps]: "corrupt q = Inr y \<longleftrightarrow> q = Inr y"
  by (cases q) (auto simp: corrupt_def)

section \<open>The invariant\<close>

definition row_info :: "revisionRow \<Rightarrow> RevisionInfo" where
  "row_info row = \<lparr>ri_revision = rev_no row, ri_time = rev_ns row, ri_actor = rev_actor row, ri_message = rev_message row\<rparr>"

definition tx_ok :: "WriteTx \<Rightarrow> bool" where
  "tx_ok tx \<longleftrightarrow>
     db_ok (tx_revision tx \<noteq> 0) (CurrentRevision tx) (tx_db tx) \<and> 0 \<le> tx_base tx \<and>
     (tx_revision tx \<noteq> 0 \<longrightarrow>
        tx_revision tx = tx_base tx + 1 \<and> rev_actor (last (db_revisions (tx_db tx))) = rm_actor (tx_meta tx) \<and>
        rev_message (last (db_revisions (tx_db tx))) = rm_message (tx_meta tx)) \<and> \<not> tx_done tx \<and>
     tx_info tx = (if tx_revision tx = 0 then None else Some (row_info (last (db_revisions (tx_db tx)))))"

definition sealed_rows :: "database \<Rightarrow> revisionRow list" where
  "sealed_rows db = filter rev_sealed (db_revisions db)"

definition advance :: "WriteTx \<Rightarrow> WriteTx \<Rightarrow> bool" where
  "advance tx tx' \<longleftrightarrow>
     tx_ok tx' \<and> tx_base tx' = tx_base tx \<and> tx_meta tx' = tx_meta tx \<and> tx_clock tx' = tx_clock tx \<and>
     tx_failure tx' = tx_failure tx \<and> sealed_rows (tx_db tx') = sealed_rows (tx_db tx) \<and>
     (tx_revision tx \<noteq> 0 \<longrightarrow> tx_revision tx' \<noteq> 0) \<and> (tx_revision tx' = 0 \<longrightarrow> tx_db tx' = tx_db tx) \<and>
     (\<forall>n \<le> tx_base tx. past n (db_nodes (tx_db tx')) = past n (db_nodes (tx_db tx)) \<and>
        past n (db_edges (tx_db tx')) = past n (db_edges (tx_db tx)))"

lemma advance_refl: "tx_ok tx \<Longrightarrow> advance tx tx"
  by (simp add: advance_def)

lemma advance_trans: "advance tx tx1 \<Longrightarrow> advance tx1 tx2 \<Longrightarrow> advance tx tx2"
  by (auto simp: advance_def)

lemma advance_ok: "advance tx tx' \<Longrightarrow> tx_ok tx'"
  by (simp add: advance_def)

lemma tx_ok_db: "tx_ok tx \<Longrightarrow> db_ok (tx_revision tx \<noteq> 0) (CurrentRevision tx) (tx_db tx)"
  by (simp add: tx_ok_def)

lemma tx_active: "tx_ok tx \<Longrightarrow> tx_revision tx = r \<Longrightarrow> r \<noteq> 0 \<Longrightarrow> db_ok True r (tx_db tx)"
  unfolding tx_ok_def CurrentRevision_def by (metis (full_types))

lemma exec_step:
  assumes t: "tx_ok tx" "tx_revision tx = r" "r \<noteq> 0" and s: "db_step r (tx_db tx) db'"
  shows "advance tx (tx\<lparr>tx_db := db'\<rparr>)"
  using t s by (auto simp: advance_def tx_ok_def db_step_def CurrentRevision_def sealed_rows_def)

section \<open>Allocating the revision\<close>

definition requested_time :: "WriteTx \<Rightarrow> int" where
  "requested_time tx = (if rm_time (tx_meta tx) = zero_time then tx_clock tx else rm_time (tx_meta tx))"

text \<open>A revision can be allocated unless its number, its metadata or its time is out of range, or the last
  revision took the last timestamp.\<close>

definition can_allocate :: "WriteTx \<Rightarrow> bool" where
  "can_allocate tx \<longleftrightarrow>
     tx_revision tx \<noteq> 0 \<or>
     tx_base tx < 9223372036854775807 \<and> validateRevisionMeta (tx_meta tx) = Inr () \<and> in64 (requested_time tx) \<and>
     last_committed (tx_db tx) \<noteq> Some 9223372036854775807"

definition commit_time :: "WriteTx \<Rightarrow> int" where
  "commit_time tx =
     (case last_committed (tx_db tx) of
        None \<Rightarrow> requested_time tx
      | Some p \<Rightarrow> if requested_time tx \<le> p then p + 1 else requested_time tx)"

definition allocate :: "WriteTx \<Rightarrow> WriteTx" where
  "allocate tx =
     (if tx_revision tx \<noteq> 0 then tx
      else let row = \<lparr>rev_no = tx_base tx + 1, rev_ns = commit_time tx, rev_actor = rm_actor (tx_meta tx),
                      rev_message = rm_message (tx_meta tx), rev_sealed = False\<rparr>
           in tx\<lparr>tx_db := (tx_db tx)\<lparr>db_revisions := db_revisions (tx_db tx) @ [row]\<rparr>,
                 tx_revision := tx_base tx + 1, tx_info := Some (row_info row)\<rparr>)"

lemma commit_time_later:
  assumes "db_ok False b (tx_db tx)"
  shows "\<forall>row \<in> set (db_revisions (tx_db tx)). rev_ns row < commit_time tx"
proof
  fix row assume row: "row \<in> set (db_revisions (tx_db tx))"
  let ?revs = "db_revisions (tx_db tx)"
  have r: "revisions_ok False b ?revs" using assms by (simp add: db_ok_def)
  have ne: "?revs \<noteq> []" using row by auto
  then have p: "last_committed (tx_db tx) = Some (rev_ns (last ?revs))"
    using revisions_last [OF r] by (simp add: last_committed_def)
  have "rev_ns row \<le> rev_ns (last ?revs)"
  proof -
    obtain rs where rs: "?revs = rs @ [last ?revs]" using ne by (metis append_butlast_last_id)
    have "sorted_wrt (<) (map rev_ns (rs @ [last ?revs]))" using r rs by (simp add: revisions_ok_def)
    then have "\<forall>x \<in> set rs. rev_ns x < rev_ns (last ?revs)" by (simp add: sorted_wrt_append)
    moreover have "row \<in> set rs \<or> row = last ?revs" using row rs by (metis Un_iff empty_iff empty_set set_ConsD set_append)
    ultimately show ?thesis by auto
  qed
  then show "rev_ns row < commit_time tx" by (auto simp: commit_time_def p)
qed

lemma ensureRevision_eq:
  assumes t: "tx_ok tx" and c: "can_allocate tx"
  shows "ensureRevision tx = (Inr (tx_base tx + 1), allocate tx)"
proof (cases "tx_revision tx = 0")
  case False
  then show ?thesis using t by (simp add: ensureRevision_def allocate_def tx_ok_def)
next
  case True
  then have o: "db_ok False (tx_base tx) (tx_db tx)" using t by (simp add: tx_ok_def CurrentRevision_def)
  note n = new_revision(1) [OF o commit_time_later [OF o]]
  have ready: "tx_base tx < 9223372036854775807" "validateRevisionMeta (tx_meta tx) = Inr ()" "in64 (requested_time tx)"
    "last_committed (tx_db tx) \<noteq> Some 9223372036854775807"
    using c True by (simp_all add: can_allocate_def)
  have t: "(case last_committed (tx_db tx) of None \<Rightarrow> Inr (requested_time tx)
      | Some p \<Rightarrow> if requested_time tx \<le> p then if p = 9223372036854775807 then Inl PlainError else Inr (p + 1)
          else Inr (requested_time tx)) = Inr (commit_time tx)"
    using ready(4) by (auto simp: commit_time_def split: option.splits)
  have u: "unixNano (requested_time tx) = Inr (requested_time tx)" using ready(3) by (simp add: unixNano_def in64_def)
  show ?thesis
    using True ready(1,2) n u t
    by (simp add: ensureRevision_def allocate_def returnT_def readT_def execT_def invalid_argument_def bindT_def
        requested_time_def [symmetric] row_info_def Let_def)
qed

lemma ensureRevision_fails:
  assumes t: "tx_ok tx" and c: "\<not> can_allocate tx"
  shows "\<exists>e. ensureRevision tx = (Inl e, tx)"
proof -
  have True: "tx_revision tx = 0" using c by (simp add: can_allocate_def)
  then have o: "db_ok False (tx_base tx) (tx_db tx)" using t by (simp add: tx_ok_def CurrentRevision_def)
  show ?thesis
  proof (cases "tx_base tx < 9223372036854775807 \<and> validateRevisionMeta (tx_meta tx) = Inr () \<and> in64 (requested_time tx)")
    case False
    then show ?thesis
      using True
      by (auto simp: ensureRevision_def returnT_def readT_def execT_def invalid_argument_def bindT_def unixNano_def in64_def
        requested_time_def [symmetric] Let_def split: sum.splits)
  next
    case ready: True
    then have p: "last_committed (tx_db tx) = Some 9223372036854775807" using c True by (simp add: can_allocate_def)
    have u: "unixNano (requested_time tx) = Inr (requested_time tx)" "requested_time tx \<le> 9223372036854775807"
      using ready by (simp_all add: unixNano_def in64_def)
    show ?thesis
      using True ready p u
      by (simp add: ensureRevision_def returnT_def readT_def invalid_argument_def bindT_def
          requested_time_def [symmetric] Let_def)
  qed
qed

lemma allocate_advance:
  assumes t: "tx_ok tx"
  shows "advance tx (allocate tx)" "tx_revision (allocate tx) = tx_base tx + 1"
    "db_nodes (tx_db (allocate tx)) = db_nodes (tx_db tx)" "db_edges (tx_db (allocate tx)) = db_edges (tx_db tx)"
proof -
  show r: "tx_revision (allocate tx) = tx_base tx + 1" using t by (simp add: allocate_def tx_ok_def Let_def)
  show "db_nodes (tx_db (allocate tx)) = db_nodes (tx_db tx)" "db_edges (tx_db (allocate tx)) = db_edges (tx_db tx)"
    by (simp_all add: allocate_def Let_def)
  show "advance tx (allocate tx)"
  proof (cases "tx_revision tx = 0")
    case False
    then show ?thesis using t by (simp add: allocate_def advance_refl)
  next
    case True
    then have o: "db_ok False (tx_base tx) (tx_db tx)" using t by (simp add: tx_ok_def CurrentRevision_def)
    from new_revision(2) [OF o commit_time_later [OF o], of "rm_actor (tx_meta tx)" "rm_message (tx_meta tx)"]
    show ?thesis
      using t True by (simp add: advance_def tx_ok_def allocate_def Let_def CurrentRevision_def sealed_rows_def)
  qed
qed

lemma ensureRevision_Inr:
  assumes "tx_ok tx" "ensureRevision tx = (Inr r, tx1)"
  shows "can_allocate tx" "r = tx_base tx + 1" "tx1 = allocate tx" "db_ok True r (tx_db tx1)"
proof -
  show c: "can_allocate tx" using ensureRevision_fails [OF assms(1)] assms(2) by force
  then show r: "r = tx_base tx + 1" and a: "tx1 = allocate tx" using ensureRevision_eq [OF assms(1)] assms(2) by simp_all
  note v = allocate_advance [OF assms(1)]
  have "tx_base tx + 1 \<noteq> 0" using assms(1) by (simp add: tx_ok_def)
  then show "db_ok True r (tx_db tx1)" unfolding r a by (rule tx_active [OF advance_ok [OF v(1)] v(2)])
qed

end
