(* ===== verification/Node_Mutations.thy ===== *)
theory Node_Mutations
  imports Transaction
begin

text \<open>
  \<open>CreateNode\<close> and \<open>UpdateNode\<close>: when they succeed, and what they do to the graph of the transaction.
\<close>

section \<open>CreateNode\<close>

definition tx_nodes :: "WriteTx \<Rightarrow> string \<Rightarrow> nodeData option" where
  "tx_nodes tx = graph_nodes (tx_db tx)"

definition tx_edges :: "WriteTx \<Rightarrow> string \<Rightarrow> edgeData option" where
  "tx_edges tx = graph_edges (tx_db tx)"

lemma allocate_graph [simp]: "tx_nodes (allocate tx) = tx_nodes tx" "tx_edges (allocate tx) = tx_edges tx"
  by (simp_all add: tx_nodes_def tx_edges_def graph_nodes_def graph_edges_def allocate_def Let_def)

lemma allocated:
  assumes t: "tx_ok tx"
  shows "db_ok True (tx_base tx + 1) (tx_db (allocate tx))"
proof -
  have "tx_base tx + 1 \<noteq> 0" using t by (simp add: tx_ok_def)
  then show ?thesis by (rule tx_active [OF advance_ok [OF allocate_advance(1) [OF t]] allocate_advance(2) [OF t]])
qed

text \<open>Allocating the revision and then moving the database is one step of the transaction.\<close>

lemma mutate_advance:
  assumes t: "tx_ok tx" and s: "db_step (tx_base tx + 1) (tx_db (allocate tx)) db'"
  shows "advance tx ((allocate tx)\<lparr>tx_db := db'\<rparr>)"
proof -
  note a = allocate_advance [OF t]
  have "tx_base tx + 1 \<noteq> 0" using t by (simp add: tx_ok_def)
  from advance_trans [OF a(1) exec_step [OF advance_ok [OF a(1)] a(2) this s]] show ?thesis .
qed

definition node_exists :: "WriteTx \<Rightarrow> string \<Rightarrow> bool" where
  "node_exists tx k \<longleftrightarrow> k \<in> fst ` set (ent_ids (db_nodes (tx_db tx)))"

definition edge_exists :: "WriteTx \<Rightarrow> string \<Rightarrow> bool" where
  "edge_exists tx k \<longleftrightarrow> k \<in> fst ` set (ent_ids (db_edges (tx_db tx)))"

definition chosen_id :: "derror + string \<Rightarrow> string \<Rightarrow> derror + string" where
  "chosen_id fresh given = (if given = [] then fresh else Inr given)"

lemma encoded_labels_ok: "encodeLabels labels = Inr out \<Longrightarrow> decodeLabels out = Inr out \<and> encodeLabels out = Inr out"
  using decodeLabels_encode encodeLabels_mono by blast

lemma validateID_not_empty: "validateID k = Inr () \<Longrightarrow> k \<noteq> []"
  by (auto simp: validateID_def)

lemma CreateNode_guards:
  assumes t: "tx_ok tx" and c: "CreateNode fresh input tx = (Inr n, tx')"
  obtains k labels props cloned where "chosen_id fresh (in_id input) = Inr k" "validateID k = Inr ()"
    "validateNodeBody (in_body input) = Inr ()" "encodeLabels (in_labels input) = Inr labels"
    "encodeProperties (in_properties input) = Inr props" "decodeProperties props = Inr cloned"
    "\<not> node_exists tx k" "can_allocate tx"
proof -
  obtain k labels props cloned r tx1 u where g: "(if in_id input = [] then fresh else Inr (in_id input)) = Inr k" "validateID k = Inr ()"
    "validateNodeBody (in_body input) = Inr ()" "encodeLabels (in_labels input) = Inr labels"
    "encodeProperties (in_properties input) = Inr props" "decodeProperties props = Inr cloned"
    "(if k \<in> fst ` set (ent_ids (db_nodes (tx_db tx))) then Inl ErrConflict else Inr ()) = (Inr u :: derror + unit)"
    "ensureRevision tx = (Inr r, tx1)"
    using c unfolding CreateNode_def recordMutationFailure_Inr_iff bindT_Inr_iff returnT_Inr_iff readT_Inr_iff checkActive_Inr_iff
      invalid_argument_Inr_iff by fastforce
  show thesis
    using that [OF g(1) [folded chosen_id_def] g(2-6) _ ensureRevision_Inr(1) [OF t g(8)]] g(7)
    by (simp add: node_exists_def split: if_splits)
qed

lemma CreateNode_runs:
  assumes t: "tx_ok tx" and g: "chosen_id fresh (in_id input) = Inr k" "validateID k = Inr ()"
    "validateNodeBody (in_body input) = Inr ()" "encodeLabels (in_labels input) = Inr labels"
    "encodeProperties (in_properties input) = Inr props" "decodeProperties props = Inr cloned"
    "\<not> node_exists tx k" "can_allocate tx"
  defines "d \<equiv> \<lparr>nd_labels = labels, nd_properties = props, nd_body = in_body input\<rparr>"
  defines "tx' \<equiv> (allocate tx)\<lparr>tx_db := add_node (tx_base tx + 1) k d (tx_db (allocate tx))\<rparr>"
  shows "CreateNode fresh input tx = (Inr \<lparr>node_id = k, node_labels = labels, node_properties = cloned,
      node_body = in_body input, node_from = tx_base tx + 1, node_to = None\<rparr>, tx')"
    and "advance tx tx'" "tx_nodes tx' = (tx_nodes tx)(k := Some d)" "tx_edges tx' = tx_edges tx"
proof -
  have v: "node_value_ok d" using encoded_labels_ok [OF g(4)] g(6) by (simp add: node_value_ok_def d_def is_ok_def)
  have k: "k \<notin> fst ` set (ent_ids (db_nodes (tx_db (allocate tx))))"
    using g(7) allocate_advance(3) [OF t] by (simp add: node_exists_def)
  note a = add_node_step [OF allocated [OF t] k validateID_not_empty [OF g(2)] v]
  show "CreateNode fresh input tx = (Inr \<lparr>node_id = k, node_labels = labels, node_properties = cloned,
      node_body = in_body input, node_from = tx_base tx + 1, node_to = None\<rparr>, tx')"
    using t g(2-7) g(1) [unfolded chosen_id_def] a(1) a(2) [unfolded d_def]
    unfolding CreateNode_def
    by (simp add: bindT_def [of checkActive] bindT_def [of "returnT _"] bindT_def [of "readT _"] bindT_def [of "execT _ _"]
        checkActive_def tx_ok_def returnT_def readT_def execT_def invalid_argument_def recordMutationFailure_def
        ensureRevision_eq [OF t g(8)] node_exists_def tx'_def d_def)
  show "advance tx tx'" unfolding tx'_def by (rule mutate_advance [OF t a(3)])
  show "tx_nodes tx' = (tx_nodes tx)(k := Some d)"
    using a(4) allocate_graph(1) [of tx] by (simp add: tx'_def tx_nodes_def)
  show "tx_edges tx' = tx_edges tx" using a(5) allocate_graph(2) [of tx] by (simp add: tx'_def tx_edges_def)
qed

section \<open>GetNode\<close>

lemma GetNode_Inr:
  assumes "tx_ok tx" "GetNode k tx = (Inr n, tx')"
  obtains v where "tx' = tx" "select_current (ent_versions (db_nodes (tx_db tx))) k = Some v"
    "tx_nodes tx k = Some (ver_data v)" "node_id n = k" "node_from n = ver_from v" "node_labels n = nd_labels (ver_data v)"
    "decodeProperties (nd_properties (ver_data v)) = Inr (node_properties n)" "node_body n = nd_body (ver_data v)"
proof -
  have o: "entities_ok (CurrentRevision tx) (db_nodes (tx_db tx))" using db_okD(2) [OF tx_ok_db [OF assms(1)]] .
  have x: "tx' = tx" "scanNode (select_current (ent_versions (db_nodes (tx_db tx))) k) = Inr n"
    using assms(2) unfolding GetNode_def bindT_Inr_iff checkActive_Inr_iff readT_Inr_iff by auto
  then obtain v labels props where v: "select_current (ent_versions (db_nodes (tx_db tx))) k = Some v"
    "decodeLabels (nd_labels (ver_data v)) = Inr labels" "decodeProperties (nd_properties (ver_data v)) = Inr props"
    "n = \<lparr>node_id = ver_id v, node_labels = labels, node_properties = props, node_body = nd_body (ver_data v),
          node_from = ver_from v, node_to = ver_to v\<rparr>"
    by (auto simp: scanNode_def bindE_Inr_iff corrupt_Inr_iff split: option.splits)
  have "node_value_ok (ver_data v)" using db_okD(6) [OF tx_ok_db [OF assms(1)]] current_row(1) [OF o v(1)] by blast
  then have "labels = nd_labels (ver_data v)" using v(2) by (simp add: node_value_ok_def)
  moreover have "tx_nodes tx k = Some (ver_data v)" using v(1) by (simp add: tx_nodes_def graph_nodes_def now_def view_now_def)
  ultimately show thesis using that [OF x(1) v(1)] v(3,4) current_row(2) [OF o v(1)] by simp
qed

lemma GetNode_runs:
  assumes "tx_ok tx" "tx_nodes tx k = Some d"
  obtains n where "GetNode k tx = (Inr n, tx)"
proof -
  have o: "entities_ok (CurrentRevision tx) (db_nodes (tx_db tx))" using db_okD(2) [OF tx_ok_db [OF assms(1)]] .
  obtain v where v: "select_current (ent_versions (db_nodes (tx_db tx))) k = Some v"
    using assms(2) by (auto simp: tx_nodes_def graph_nodes_def now_def view_now_def)
  have "node_value_ok (ver_data v)" using db_okD(6) [OF tx_ok_db [OF assms(1)]] current_row(1) [OF o v] by blast
  then obtain props where "decodeProperties (nd_properties (ver_data v)) = Inr props" "decodeLabels (nd_labels (ver_data v)) = Inr (nd_labels (ver_data v))"
    by (auto simp: node_value_ok_def is_ok_iff)
  then show thesis
    using that v assms(1)
    by (simp add: GetNode_def bindT_def checkActive_def readT_def tx_ok_def scanNode_def corrupt_def)
qed

lemma GetNode_missing:
  assumes "tx_ok tx" "tx_nodes tx k = None"
  shows "GetNode k tx = (Inl ErrNotFound, tx)"
proof -
  have "select_current (ent_versions (db_nodes (tx_db tx))) k = None"
    using assms(2) by (simp add: tx_nodes_def graph_nodes_def now_def view_now_def)
  then show ?thesis using assms(1) by (simp add: GetNode_def bindT_def checkActive_def readT_def tx_ok_def scanNode_def)
qed

section \<open>UpdateNode\<close>

lemma replaceNodeVersion_runs:
  assumes o: "db_ok True r (tx_db tx)" and v: "select_current (ent_versions (db_nodes (tx_db tx))) k = Some v"
    and n: "node_id n = k" "node_from n = ver_from v"
  shows "replaceNodeVersion n d r tx = (Inr (), tx\<lparr>tx_db := put_node r k (Some d) (tx_db tx)\<rparr>)"
proof -
  note e = replace_entity [OF db_okD(2) [OF o] db_ok_pos [OF o] v]
  show ?thesis
  proof (cases "ver_from v = r")
    case True
    then show ?thesis
      using e(1) [of d] n by (simp add: replaceNodeVersion_def execT_def db_active [OF o] put_node_def)
  next
    case False
    then show ?thesis
      using e(2) [OF False] e(3) [OF False, of d] n
      by (simp add: replaceNodeVersion_def execT_def countT_def expectOneRow_def returnT_def bindT_def db_active [OF o] put_node_def)
  qed
qed

definition node_cols :: "WriteTx \<Rightarrow> string \<Rightarrow> (string \<times> string \<times> string) option" where
  "node_cols tx k = map_option node_columns (tx_nodes tx k)"

definition edge_cols :: "WriteTx \<Rightarrow> string \<Rightarrow> (string \<times> string \<times> string \<times> int option \<times> string) option" where
  "edge_cols tx k = map_option edge_columns (tx_edges tx k)"

text \<open>What the update asks for: the fields it sets, and those of the node for the rest.\<close>

definition wanted_labels :: "NodeUpdate \<Rightarrow> Node \<Rightarrow> string list" where
  "wanted_labels upd n = (case nu_labels upd of Some x \<Rightarrow> x | None \<Rightarrow> node_labels n)"

definition wanted_properties :: "NodeUpdate \<Rightarrow> Node \<Rightarrow> pvalue" where
  "wanted_properties upd n = (case nu_properties upd of Some x \<Rightarrow> x | None \<Rightarrow> node_properties n)"

definition wanted_body :: "NodeUpdate \<Rightarrow> Node \<Rightarrow> string" where
  "wanted_body upd n = (case nu_body upd of Some x \<Rightarrow> x | None \<Rightarrow> node_body n)"

lemma current_columns:
  assumes t: "tx_ok tx" and v: "select_current (ent_versions (db_nodes (tx_db tx))) k = Some v"
    "node_labels n = nd_labels (ver_data v)" "decodeProperties (nd_properties (ver_data v)) = Inr (node_properties n)"
  obtains b where "encodeLabels (node_labels n) = Inr (node_labels n)" "encodeProperties (node_properties n) = Inr b"
    "json_marshal b = json_marshal (nd_properties (ver_data v))"
proof -
  have o: "entities_ok (CurrentRevision tx) (db_nodes (tx_db tx))" using db_okD(2) [OF tx_ok_db [OF t]] .
  have "node_value_ok (ver_data v)" using db_okD(6) [OF tx_ok_db [OF t]] current_row(1) [OF o v(1)] by blast
  then have "encodeLabels (node_labels n) = Inr (node_labels n)" using v(2) by (simp add: node_value_ok_def)
  moreover obtain b where "encodeProperties (node_properties n) = Inr b" "json_marshal b = json_marshal (nd_properties (ver_data v))"
    using decodeProperties_reencode [OF v(3)] .
  ultimately show thesis using that by blast
qed

text \<open>The write of \<open>UpdateNode\<close>, when it has something to write.\<close>

definition update_write :: "string \<Rightarrow> nodeData \<Rightarrow> WriteTx \<Rightarrow> WriteTx" where
  "update_write k d tx = (allocate tx)\<lparr>tx_db := put_node (tx_base tx + 1) k (Some d) (tx_db (allocate tx))\<rparr>"

lemma update_write_effect:
  assumes t: "tx_ok tx" and v: "select_current (ent_versions (db_nodes (tx_db tx))) k = Some v" and d: "node_value_ok d"
  shows "advance tx (update_write k d tx)" "tx_nodes (update_write k d tx) = (tx_nodes tx)(k := Some d)"
    "tx_edges (update_write k d tx) = tx_edges tx"
proof -
  have o: "entities_ok (CurrentRevision tx) (db_nodes (tx_db tx))" using db_okD(2) [OF tx_ok_db [OF t]] .
  have x: "k \<in> fst ` set (ent_ids (db_nodes (tx_db (allocate tx)))) \<and> node_value_ok d'" if "Some d = Some d'" for d'
    using that d current_row(4) [OF o v] allocate_advance(3) [OF t] by simp
  note p = put_node_step [where x = "Some d" and k = k, OF allocated [OF t] x, simplified]
  show "advance tx (update_write k d tx)" unfolding update_write_def by (rule mutate_advance [OF t p(1)])
  show "tx_nodes (update_write k d tx) = (tx_nodes tx)(k := Some d)"
    using p(2) allocate_graph(1) [of tx] by (simp add: update_write_def tx_nodes_def)
  show "tx_edges (update_write k d tx) = tx_edges tx"
    using p(3) allocate_graph(2) [of tx] by (simp add: update_write_def tx_edges_def)
qed

lemma UpdateNode_unfold:
  assumes t: "tx_ok tx" and n: "GetNode k tx = (Inr n, tx)" and b: "validateNodeBody (wanted_body upd n) = Inr ()"
    "encodeLabels (wanted_labels upd n) = Inr labels" "encodeProperties (wanted_properties upd n) = Inr props"
    and s: "select_current (ent_versions (db_nodes (tx_db tx))) k = Some v" "node_id n = k" "node_from n = ver_from v"
      "node_labels n = nd_labels (ver_data v)" "decodeProperties (nd_properties (ver_data v)) = Inr (node_properties n)"
      "node_body n = nd_body (ver_data v)"
  defines "d \<equiv> \<lparr>nd_labels = labels, nd_properties = props, nd_body = wanted_body upd n\<rparr>"
  shows "node_columns d = node_columns (ver_data v) \<Longrightarrow> UpdateNode k upd tx = (Inr n, tx)"
    and "node_columns d \<noteq> node_columns (ver_data v) \<Longrightarrow> decodeProperties props = Inr cloned \<Longrightarrow> can_allocate tx \<Longrightarrow>
      UpdateNode k upd tx = (Inr \<lparr>node_id = k, node_labels = labels, node_properties = cloned,
        node_body = wanted_body upd n, node_from = tx_base tx + 1, node_to = None\<rparr>, update_write k d tx)"
    and "node_columns d \<noteq> node_columns (ver_data v) \<Longrightarrow> UpdateNode k upd tx = (Inr n', tx') \<Longrightarrow>
      is_ok (decodeProperties props) \<and> can_allocate tx"
proof -
  obtain e where e: "encodeLabels (node_labels n) = Inr (node_labels n)" "encodeProperties (node_properties n) = Inr e"
    "json_marshal e = json_marshal (nd_properties (ver_data v))"
    using current_columns [OF t s(1,4,5)] .
  have same: "node_columns d = node_columns (ver_data v) \<longleftrightarrow>
      labels_json labels = labels_json (node_labels n) \<and> json_marshal props = json_marshal e \<and> wanted_body upd n = node_body n"
    using e(3) s(4,6) by (simp add: node_columns_def d_def)
  have u: "UpdateNode k upd tx = recordMutationFailure
      (if labels_json labels = labels_json (node_labels n) \<and> json_marshal props = json_marshal e \<and> wanted_body upd n = node_body n
       then returnT (Inr n)
       else bindT (returnT (decodeProperties props)) (\<lambda>cloned.
            bindT ensureRevision (\<lambda>revision.
            bindT (replaceNodeVersion n d revision) (\<lambda>_.
            returnT (Inr \<lparr>node_id = node_id n, node_labels = labels, node_properties = cloned,
                          node_body = wanted_body upd n, node_from = revision, node_to = None\<rparr>))))) tx"
    using n b e(1,2) unfolding UpdateNode_def wanted_body_def [symmetric] wanted_labels_def [symmetric] wanted_properties_def [symmetric]
    by (simp add: recordMutationFailure_def bindT_def [of "GetNode _"] bindT_def [of "returnT _"] returnT_def [of "Inr _"] returnT_def [of "invalid_argument _"]
        invalid_argument_def Let_def d_def)
  show "node_columns d = node_columns (ver_data v) \<Longrightarrow> UpdateNode k upd tx = (Inr n, tx)"
    unfolding u same by (simp add: recordMutationFailure_def returnT_def)
  show "node_columns d \<noteq> node_columns (ver_data v) \<Longrightarrow> UpdateNode k upd tx = (Inr n', tx') \<Longrightarrow>
      is_ok (decodeProperties props) \<and> can_allocate tx"
    unfolding u same
    using ensureRevision_Inr(1) [OF t] by (auto simp: result_simps is_ok_iff)
  assume c: "node_columns d \<noteq> node_columns (ver_data v)" "decodeProperties props = Inr cloned" "can_allocate tx"
  have "select_current (ent_versions (db_nodes (tx_db (allocate tx)))) k = Some v"
    using s(1) allocate_advance(3) [OF t] by simp
  note r = replaceNodeVersion_runs [OF allocated [OF t] this s(2,3)]
  show "UpdateNode k upd tx = (Inr \<lparr>node_id = k, node_labels = labels, node_properties = cloned,
        node_body = wanted_body upd n, node_from = tx_base tx + 1, node_to = None\<rparr>, update_write k d tx)"
    unfolding u using c same s(2)
    by (auto simp: recordMutationFailure_def bindT_def returnT_def ensureRevision_eq [OF t c(3)] r update_write_def)
qed

lemma UpdateNode_guards:
  assumes t: "tx_ok tx" and c: "UpdateNode k upd tx = (Inr n', tx')"
  obtains n labels props where "GetNode k tx = (Inr n, tx)" "validateNodeBody (wanted_body upd n) = Inr ()"
    "encodeLabels (wanted_labels upd n) = Inr labels" "encodeProperties (wanted_properties upd n) = Inr props"
proof -
  obtain n tx1 where n: "GetNode k tx = (Inr n, tx1)" and rest: "\<exists>labels props. validateNodeBody (wanted_body upd n) = Inr () \<and>
      encodeLabels (wanted_labels upd n) = Inr labels \<and> encodeProperties (wanted_properties upd n) = Inr props"
    using c unfolding UpdateNode_def recordMutationFailure_Inr_iff bindT_Inr_iff Let_def returnT_Inr_iff
      invalid_argument_Inr_iff wanted_body_def wanted_labels_def wanted_properties_def by fastforce
  moreover have "tx1 = tx" by (rule GetNode_Inr [OF t n])
  ultimately show thesis using that by blast
qed

lemma UpdateNode_effect:
  assumes t: "tx_ok tx" and c: "UpdateNode k upd tx = (Inr n', tx')"
  obtains n labels props where "GetNode k tx = (Inr n, tx)" "encodeLabels (wanted_labels upd n) = Inr labels"
    "encodeProperties (wanted_properties upd n) = Inr props" "advance tx tx'"
    "node_cols tx' = (node_cols tx)(k := Some (labels_json labels, json_marshal props, wanted_body upd n))"
    "tx_edges tx' = tx_edges tx" "tx_nodes tx' = tx_nodes tx \<or> (\<exists>d. tx_nodes tx' = (tx_nodes tx)(k := Some d))"
    "node_cols tx' = node_cols tx \<longrightarrow> tx' = tx"
proof -
  obtain n labels props where n: "GetNode k tx = (Inr n, tx)" and g: "validateNodeBody (wanted_body upd n) = Inr ()"
    "encodeLabels (wanted_labels upd n) = Inr labels" "encodeProperties (wanted_properties upd n) = Inr props"
    using UpdateNode_guards [OF t c] .
  obtain v where v: "select_current (ent_versions (db_nodes (tx_db tx))) k = Some v" "tx_nodes tx k = Some (ver_data v)"
    and s: "node_id n = k" "node_from n = ver_from v" "node_labels n = nd_labels (ver_data v)"
      "decodeProperties (nd_properties (ver_data v)) = Inr (node_properties n)" "node_body n = nd_body (ver_data v)"
    using GetNode_Inr [OF t n] by metis
  note u = UpdateNode_unfold [OF t n g v(1) s]
  define d where "d = \<lparr>nd_labels = labels, nd_properties = props, nd_body = wanted_body upd n\<rparr>"
  have cols: "node_columns d = (labels_json labels, json_marshal props, wanted_body upd n)" by (simp add: node_columns_def d_def)
  show thesis
  proof (cases "node_columns d = node_columns (ver_data v)")
    case True
    then have e: "tx' = tx" using u(1) c by (simp add: d_def)
    have "node_cols tx k = Some (node_columns d)" using v(2) True by (simp add: node_cols_def)
    then have "node_cols tx' = (node_cols tx)(k := Some (labels_json labels, json_marshal props, wanted_body upd n))"
      unfolding cols e by (simp add: fun_upd_idem)
    then show thesis using that [OF n g(2,3)] advance_refl [OF t] e by simp
  next
    case False
    then have "is_ok (decodeProperties props) \<and> can_allocate tx" using u(3) c by (simp add: d_def)
    then obtain cloned where dec: "decodeProperties props = Inr cloned" "can_allocate tx" by (auto simp: is_ok_iff)
    have e: "tx' = update_write k d tx" using u(2) [OF _ dec] False c by (simp add: d_def)
    have "node_value_ok d" using encoded_labels_ok [OF g(2)] dec by (simp add: node_value_ok_def d_def is_ok_def)
    note w = update_write_effect [OF t v(1) this]
    have "node_cols tx' = (node_cols tx)(k := Some (node_columns d))"
      using w(2) by (auto simp: node_cols_def e fun_eq_iff)
    moreover from this have "node_cols tx' \<noteq> node_cols tx"
      using False v(2) by (metis fun_upd_same node_cols_def option.inject option.simps(9))
    ultimately show thesis using that [OF n g(2,3)] w e cols by auto
  qed
qed

end
