(* ===== verification/Edge_Mutations.thy ===== *)
theory Edge_Mutations
  imports Node_Mutations
begin

text \<open>
  \<open>CreateEdge\<close>, \<open>UpdateEdge\<close>, \<open>DeleteEdge\<close> and \<open>DeleteNode\<close>: when they succeed, and what they do to the
  graph of the transaction.
\<close>

section \<open>validateEdge\<close>

lemma validateRelationshipType_shape:
  "validateRelationshipType ty = Inr () \<Longrightarrow> ty \<noteq> [] \<and> CHR 0x00 \<notin> set ty"
  by (auto simp: validateRelationshipType_def invalid_argument_Inr_iff split: if_splits)

text \<open>The Go checks say exactly that the edge fits the graph.\<close>

lemma validateEdge_iff:
  assumes o: "db_ok act r db"
  shows "validateEdge db (ed_from d) (ed_type d) (ed_to d) (ed_position d) k = Inr () \<longleftrightarrow>
    ed_from d \<noteq> [] \<and> ed_to d \<noteq> [] \<and> validateRelationshipType (ed_type d) = Inr () \<and>
    edge_fits (graph_nodes db) (graph_edges db) k d"
proof (cases "ed_from d = [] \<or> ed_to d = [] \<or> validateRelationshipType (ed_type d) \<noteq> Inr ()")
  case True
  then show ?thesis by (auto simp: validateEdge_def bindE_Inr_iff)
next
  case False
  then have t: "validateRelationshipType (ed_type d) = Inr ()" by simp
  have p: "child_edge d \<Longrightarrow> ed_to d \<in> snd ` set (child_pairs db k) \<longleftrightarrow>
      \<not> (\<forall>j e. j \<noteq> k \<longrightarrow> graph_edges db j = Some e \<longrightarrow> child_edge e \<longrightarrow> ed_to e \<noteq> ed_to d)"
    unfolding child_parent_iff [OF o] by blast
  have c: "pathExists 400 (child_pairs db k) (ed_to d) (ed_from d) \<longleftrightarrow>
      (ed_to d, ed_from d) \<in> (child_rel ((graph_edges db)(k := None)))\<^sup>*"
    by (simp add: pathExists_iff child_pairs_set [OF o])
  show ?thesis
  proof (cases "child_edge d")
    case True
    then show ?thesis
      using False t p c validateRelationshipType_shape [OF t]
      by (simp add: validateEdge_def edge_fits_def edge_shape_def joined_def current_node_iff [OF o]) blast
  next
    case other: False
    then show ?thesis
      using False t validateRelationshipType_shape [OF t]
      by (simp add: validateEdge_def edge_fits_def edge_shape_def joined_def current_node_iff [OF o])
  qed
qed

section \<open>CreateEdge\<close>

definition input_edge :: "EdgeInput \<Rightarrow> encodedValue \<Rightarrow> edgeData" where
  "input_edge input props = \<lparr>ed_from = ei_from input, ed_type = ei_type input, ed_to = ei_to input,
     ed_position = ei_position input, ed_properties = props\<rparr>"

lemma refit_edge:
  assumes "edge_fits N E k d" "E k = None" "E j = None"
  shows "edge_fits N E j d"
proof -
  have "E(k := None) = E" "E(j := None) = E" using assms(2,3) by (simp_all add: fun_upd_idem)
  then show ?thesis using assms unfolding edge_fits_def by (metis option.distinct(1))
qed

lemma CreateEdge_guards:
  assumes t: "tx_ok tx" and c: "CreateEdge fresh input tx = (Inr e, tx')"
  obtains k props cloned where "chosen_id fresh (ei_id input) = Inr k" "validateID k = Inr ()"
    "validateRelationshipType (ei_type input) = Inr ()" "encodeProperties (ei_properties input) = Inr props"
    "decodeProperties props = Inr cloned"
    "validateEdge (tx_db tx) (ei_from input) (ei_type input) (ei_to input) (ei_position input) [] = Inr ()"
    "\<not> edge_exists tx k" "can_allocate tx"
proof -
  obtain k props cloned r tx1 u where g: "(if ei_id input = [] then fresh else Inr (ei_id input)) = Inr k" "validateID k = Inr ()"
    "validateRelationshipType (ei_type input) = Inr ()" "encodeProperties (ei_properties input) = Inr props"
    "decodeProperties props = Inr cloned"
    "validateEdge (tx_db tx) (ei_from input) (ei_type input) (ei_to input) (ei_position input) [] = Inr ()"
    "(if k \<in> fst ` set (ent_ids (db_edges (tx_db tx))) then Inl ErrConflict else Inr ()) = (Inr u :: derror + unit)"
    "ensureRevision tx = (Inr r, tx1)"
    using c unfolding CreateEdge_def recordMutationFailure_Inr_iff bindT_Inr_iff returnT_Inr_iff readT_Inr_iff checkActive_Inr_iff
      invalid_argument_Inr_iff by fastforce
  show thesis
    using that [OF g(1) [folded chosen_id_def] g(2-6) _ ensureRevision_Inr(1) [OF t g(8)]] g(7)
    by (simp add: edge_exists_def split: if_splits)
qed

lemma unknown_edge:
  assumes "tx_ok tx" "\<not> edge_exists tx k"
  shows "tx_edges tx k = None"
proof (rule ccontr)
  assume "tx_edges tx k \<noteq> None"
  then have "now (db_edges (tx_db tx)) k \<noteq> None" by (simp add: tx_edges_def graph_edges_def)
  from current_identity [OF db_okD(3) [OF tx_ok_db [OF assms(1)]] this] show False
    using assms(2) unfolding edge_exists_def by force
qed

lemma no_empty_edge: "tx_ok tx \<Longrightarrow> \<not> edge_exists tx []"
  using db_okD(3) [OF tx_ok_db, of tx] unfolding entities_ok_def ids_ok_def edge_exists_def by fastforce

definition create_edge_write :: "string \<Rightarrow> edgeData \<Rightarrow> WriteTx \<Rightarrow> WriteTx" where
  "create_edge_write k d tx = (allocate tx)\<lparr>tx_db := add_edge (tx_base tx + 1) k d (tx_db (allocate tx))\<rparr>"

lemma CreateEdge_runs:
  assumes t: "tx_ok tx" and g: "chosen_id fresh (ei_id input) = Inr k" "validateID k = Inr ()"
    "validateRelationshipType (ei_type input) = Inr ()" "encodeProperties (ei_properties input) = Inr props"
    "decodeProperties props = Inr cloned"
    "validateEdge (tx_db tx) (ei_from input) (ei_type input) (ei_to input) (ei_position input) [] = Inr ()"
    "\<not> edge_exists tx k" "can_allocate tx"
  defines "d \<equiv> input_edge input props"
  shows "CreateEdge fresh input tx = (Inr \<lparr>edge_id = k, edge_source = ei_from input, edge_type = ei_type input,
      edge_target = ei_to input, edge_position = ei_position input, edge_properties = cloned,
      edge_from = tx_base tx + 1, edge_to = None\<rparr>, create_edge_write k d tx)"
    and "advance tx (create_edge_write k d tx)" "tx_edges (create_edge_write k d tx) = (tx_edges tx)(k := Some d)"
    and "tx_nodes (create_edge_write k d tx) = tx_nodes tx"
proof -
  have v: "edge_value_ok d" using g(5) by (simp add: edge_value_ok_def d_def input_edge_def is_ok_def)
  have k: "k \<notin> fst ` set (ent_ids (db_edges (tx_db (allocate tx))))"
    using g(7) allocate_advance(4) [OF t] by (simp add: edge_exists_def)
  have "edge_fits (tx_nodes tx) (tx_edges tx) [] d"
    using g(6) validateEdge_iff [OF tx_ok_db [OF t], of d "[]"] by (simp add: d_def input_edge_def tx_nodes_def tx_edges_def)
  then have "edge_fits (tx_nodes tx) (tx_edges tx) k d"
    by (rule refit_edge [OF _ unknown_edge [OF t no_empty_edge [OF t]] unknown_edge [OF t g(7)]])
  then have f: "edge_fits (graph_nodes (tx_db (allocate tx))) (graph_edges (tx_db (allocate tx))) k d"
    using allocate_graph [of tx] by (simp add: tx_nodes_def tx_edges_def)
  note a = add_edge_step [OF allocated [OF t] k validateID_not_empty [OF g(2)] v f]
  show "CreateEdge fresh input tx = (Inr \<lparr>edge_id = k, edge_source = ei_from input, edge_type = ei_type input,
      edge_target = ei_to input, edge_position = ei_position input, edge_properties = cloned,
      edge_from = tx_base tx + 1, edge_to = None\<rparr>, create_edge_write k d tx)"
    using t g(2-7) g(1) [unfolded chosen_id_def] a(1) a(2) [unfolded d_def]
    unfolding CreateEdge_def input_edge_def [symmetric]
    by (simp add: bindT_def [of checkActive] bindT_def [of "returnT _"] bindT_def [of "readT _"] bindT_def [of "execT _ _"]
        checkActive_def tx_ok_def returnT_def readT_def execT_def invalid_argument_def recordMutationFailure_def
        ensureRevision_eq [OF t g(8)] edge_exists_def create_edge_write_def d_def)
  show "advance tx (create_edge_write k d tx)" unfolding create_edge_write_def by (rule mutate_advance [OF t a(3)])
  show "tx_edges (create_edge_write k d tx) = (tx_edges tx)(k := Some d)"
    using a(4) allocate_graph(2) [of tx] by (simp add: create_edge_write_def tx_edges_def)
  show "tx_nodes (create_edge_write k d tx) = tx_nodes tx"
    using a(5) allocate_graph(1) [of tx] by (simp add: create_edge_write_def tx_nodes_def)
qed

section \<open>GetEdge\<close>

lemma GetEdge_Inr:
  assumes "tx_ok tx" "GetEdge k tx = (Inr e, tx')"
  obtains v where "tx' = tx" "select_current (ent_versions (db_edges (tx_db tx))) k = Some v"
    "tx_edges tx k = Some (ver_data v)" "edge_id e = k" "edge_from e = ver_from v" "edge_source e = ed_from (ver_data v)"
    "edge_type e = ed_type (ver_data v)" "edge_target e = ed_to (ver_data v)" "edge_position e = ed_position (ver_data v)"
    "decodeProperties (ed_properties (ver_data v)) = Inr (edge_properties e)"
proof -
  have o: "entities_ok (CurrentRevision tx) (db_edges (tx_db tx))" using db_okD(3) [OF tx_ok_db [OF assms(1)]] .
  have x: "tx' = tx" "scanEdge (select_current (ent_versions (db_edges (tx_db tx))) k) = Inr e"
    using assms(2) unfolding GetEdge_def bindT_Inr_iff checkActive_Inr_iff readT_Inr_iff by auto
  then obtain v props where v: "select_current (ent_versions (db_edges (tx_db tx))) k = Some v"
    "decodeProperties (ed_properties (ver_data v)) = Inr props"
    "e = \<lparr>edge_id = ver_id v, edge_source = ed_from (ver_data v), edge_type = ed_type (ver_data v),
          edge_target = ed_to (ver_data v), edge_position = ed_position (ver_data v), edge_properties = props,
          edge_from = ver_from v, edge_to = ver_to v\<rparr>"
    by (auto simp: scanEdge_def bindE_Inr_iff corrupt_Inr_iff split: option.splits)
  moreover have "tx_edges tx k = Some (ver_data v)" using v(1) by (simp add: tx_edges_def graph_edges_def now_def view_now_def)
  ultimately show thesis using that [OF x(1) v(1)] current_row(2) [OF o v(1)] by simp
qed

lemma GetEdge_runs:
  assumes "tx_ok tx" "tx_edges tx k = Some d"
  obtains e where "GetEdge k tx = (Inr e, tx)"
proof -
  have o: "entities_ok (CurrentRevision tx) (db_edges (tx_db tx))" using db_okD(3) [OF tx_ok_db [OF assms(1)]] .
  obtain v where v: "select_current (ent_versions (db_edges (tx_db tx))) k = Some v"
    using assms(2) by (auto simp: tx_edges_def graph_edges_def now_def view_now_def)
  have "edge_value_ok (ver_data v)" using db_okD(7) [OF tx_ok_db [OF assms(1)]] current_row(1) [OF o v] by blast
  then obtain props where "decodeProperties (ed_properties (ver_data v)) = Inr props" by (auto simp: edge_value_ok_def is_ok_iff)
  then show thesis
    using that v assms(1) by (simp add: GetEdge_def bindT_def checkActive_def readT_def tx_ok_def scanEdge_def corrupt_def)
qed

section \<open>UpdateEdge\<close>

lemma edge_fits_closed: "edge_fits N E k d \<Longrightarrow> edge_fits N (E(k := None)) k d"
  by (simp add: edge_fits_def)

lemma replaceEdgeVersion_runs:
  assumes o: "db_ok True r (tx_db tx)" and v: "select_current (ent_versions (db_edges (tx_db tx))) k = Some v"
    and e: "edge_id e = k" "edge_from e = ver_from v" and f: "edge_fits (graph_nodes (tx_db tx)) (graph_edges (tx_db tx)) k d"
  shows "replaceEdgeVersion e d r tx = (Inr (), tx\<lparr>tx_db := put_edge r k (Some d) (tx_db tx)\<rparr>)"
proof -
  note q = replace_entity [OF db_okD(3) [OF o] db_ok_pos [OF o] v]
  show ?thesis
  proof (cases "ver_from v = r")
    case True
    then show ?thesis
      using q(1) [of d] e edge_guard_ok [OF o f]
      by (simp add: replaceEdgeVersion_def sqlEditEdgeVersion_def execT_def db_active [OF o] put_edge_def)
  next
    case False
    note p = put_edge_step [where x = None and k = k, OF o, simplified]
    have o1: "db_ok True r (put_edge r k None (tx_db tx))" using p(1) by (simp add: db_step_def)
    have "edge_fits (graph_nodes (put_edge r k None (tx_db tx))) (graph_edges (put_edge r k None (tx_db tx))) k d"
      unfolding p(2,3) by (rule edge_fits_closed [OF f])
    note g = edge_guard_ok [OF o1 this]
    have "replaceEdgeVersion e d r tx = execT mapConstraintError (sqlInsertEdgeVersion k r d) (tx\<lparr>tx_db := put_edge r k None (tx_db tx)\<rparr>)"
      using q(2) [OF False] e False
      by (simp add: replaceEdgeVersion_def execT_def bindT_def db_active [OF o] put_edge_def)
    also have "\<dots> = (Inr (), tx\<lparr>tx_db := put_edge r k (Some d) (tx_db tx)\<rparr>)"
      using q(3) [OF False, of d] g by (simp add: sqlInsertEdgeVersion_def execT_def put_edge_def db_active [OF o])
    finally show ?thesis .
  qed
qed

definition wanted_edge :: "EdgeUpdate \<Rightarrow> Edge \<Rightarrow> encodedValue \<Rightarrow> edgeData" where
  "wanted_edge upd e props =
     \<lparr>ed_from = (case eu_from upd of Some x \<Rightarrow> x | None \<Rightarrow> edge_source e),
      ed_type = (case eu_type upd of Some x \<Rightarrow> x | None \<Rightarrow> edge_type e),
      ed_to = (case eu_to upd of Some x \<Rightarrow> x | None \<Rightarrow> edge_target e),
      ed_position = (if eu_set_position upd then eu_position upd else edge_position e), ed_properties = props\<rparr>"

definition wanted_edge_properties :: "EdgeUpdate \<Rightarrow> Edge \<Rightarrow> pvalue" where
  "wanted_edge_properties upd e = (case eu_properties upd of Some x \<Rightarrow> x | None \<Rightarrow> edge_properties e)"

definition validate_wanted :: "WriteTx \<Rightarrow> string \<Rightarrow> edgeData \<Rightarrow> derror + unit" where
  "validate_wanted tx k d = validateEdge (tx_db tx) (ed_from d) (ed_type d) (ed_to d) (ed_position d) k"

definition edge_write :: "string \<Rightarrow> edgeData option \<Rightarrow> WriteTx \<Rightarrow> WriteTx" where
  "edge_write k x tx = (allocate tx)\<lparr>tx_db := put_edge (tx_base tx + 1) k x (tx_db (allocate tx))\<rparr>"

lemma edge_write_effect:
  assumes t: "tx_ok tx" and v: "select_current (ent_versions (db_edges (tx_db tx))) k = Some v"
    and x: "\<And>d. x = Some d \<Longrightarrow> edge_value_ok d \<and> edge_fits (tx_nodes tx) (tx_edges tx) k d"
  shows "advance tx (edge_write k x tx)" "tx_edges (edge_write k x tx) = (tx_edges tx)(k := x)"
    "tx_nodes (edge_write k x tx) = tx_nodes tx"
proof -
  have o: "entities_ok (CurrentRevision tx) (db_edges (tx_db tx))" using db_okD(3) [OF tx_ok_db [OF t]] .
  have y: "k \<in> fst ` set (ent_ids (db_edges (tx_db (allocate tx)))) \<and> edge_value_ok d \<and>
      edge_fits (graph_nodes (tx_db (allocate tx))) (graph_edges (tx_db (allocate tx))) k d" if "x = Some d" for d
    using x [OF that] current_row(4) [OF o v] allocate_advance(4) [OF t] allocate_graph [of tx] by (simp add: tx_nodes_def tx_edges_def)
  note p = put_edge_step [where x = x and k = k, OF allocated [OF t] y]
  show "advance tx (edge_write k x tx)" unfolding edge_write_def by (rule mutate_advance [OF t p(1)])
  show "tx_edges (edge_write k x tx) = (tx_edges tx)(k := x)"
    using p(2) allocate_graph(2) [of tx] by (simp add: edge_write_def tx_edges_def)
  show "tx_nodes (edge_write k x tx) = tx_nodes tx"
    using p(3) allocate_graph(1) [of tx] by (simp add: edge_write_def tx_nodes_def)
qed

lemma equalInt64_iff [simp]: "equalInt64 a b \<longleftrightarrow> a = b"
  by (cases a; cases b) (auto simp: equalInt64_def)

lemma UpdateEdge_unfold:
  assumes t: "tx_ok tx" and e: "GetEdge k tx = (Inr e, tx)"
    and g: "validate_wanted tx k (wanted_edge upd e props) = Inr ()" "encodeProperties (wanted_edge_properties upd e) = Inr props"
    and s: "select_current (ent_versions (db_edges (tx_db tx))) k = Some v" "edge_id e = k" "edge_from e = ver_from v"
      "edge_source e = ed_from (ver_data v)" "edge_type e = ed_type (ver_data v)" "edge_target e = ed_to (ver_data v)"
      "edge_position e = ed_position (ver_data v)" "decodeProperties (ed_properties (ver_data v)) = Inr (edge_properties e)"
  defines "d \<equiv> wanted_edge upd e props"
  shows "edge_columns d = edge_columns (ver_data v) \<Longrightarrow> UpdateEdge k upd tx = (Inr e, tx)"
    and "edge_columns d \<noteq> edge_columns (ver_data v) \<Longrightarrow> decodeProperties props = Inr cloned \<Longrightarrow> can_allocate tx \<Longrightarrow>
      UpdateEdge k upd tx = (Inr \<lparr>edge_id = k, edge_source = ed_from d, edge_type = ed_type d, edge_target = ed_to d,
        edge_position = ed_position d, edge_properties = cloned, edge_from = tx_base tx + 1, edge_to = None\<rparr>,
        edge_write k (Some d) tx)"
    and "edge_columns d \<noteq> edge_columns (ver_data v) \<Longrightarrow> UpdateEdge k upd tx = (Inr e', tx') \<Longrightarrow>
      is_ok (decodeProperties props) \<and> can_allocate tx"
    and "edge_fits (tx_nodes tx) (tx_edges tx) k d"
proof -
  obtain b where b: "encodeProperties (edge_properties e) = Inr b" "json_marshal b = json_marshal (ed_properties (ver_data v))"
    using decodeProperties_reencode [OF s(8)] .
  define same where "same \<longleftrightarrow> edge_source e = ed_from d \<and> edge_type e = ed_type d \<and> edge_target e = ed_to d \<and>
      edge_position e = ed_position d \<and> json_marshal b = json_marshal props"
  have same: "same \<longleftrightarrow> edge_columns d = edge_columns (ver_data v)"
    using b(2) s(4-7) by (auto simp: edge_columns_def same_def d_def wanted_edge_def)
  have u: "UpdateEdge k upd tx = recordMutationFailure
      (if same then returnT (Inr e)
       else bindT (returnT (decodeProperties props)) (\<lambda>cloned.
            bindT ensureRevision (\<lambda>revision.
            bindT (replaceEdgeVersion e d revision) (\<lambda>_.
            returnT (Inr \<lparr>edge_id = edge_id e, edge_source = ed_from d, edge_type = ed_type d, edge_target = ed_to d,
              edge_position = ed_position d, edge_properties = cloned, edge_from = revision, edge_to = None\<rparr>))))) tx"
    using e g b(1)
    unfolding UpdateEdge_def wanted_edge_properties_def validate_wanted_def same_def Let_def d_def wanted_edge_def
    by (simp add: recordMutationFailure_def bindT_def [of "GetEdge _"] bindT_def [of "returnT _"] bindT_def [of "readT _"]
        returnT_def [of "Inr _"] returnT_def [of "invalid_argument _"] readT_def invalid_argument_def cong: if_cong)
  show "edge_columns d = edge_columns (ver_data v) \<Longrightarrow> UpdateEdge k upd tx = (Inr e, tx)"
    unfolding u same by (simp add: recordMutationFailure_def returnT_def)
  show "edge_columns d \<noteq> edge_columns (ver_data v) \<Longrightarrow> UpdateEdge k upd tx = (Inr e', tx') \<Longrightarrow>
      is_ok (decodeProperties props) \<and> can_allocate tx"
    unfolding u same
    using ensureRevision_Inr(1) [OF t] by (auto simp: result_simps is_ok_iff)
  show f: "edge_fits (tx_nodes tx) (tx_edges tx) k d"
    using g(1) [folded d_def] validateEdge_iff [OF tx_ok_db [OF t], of d k] by (simp add: validate_wanted_def tx_nodes_def tx_edges_def)
  assume c: "edge_columns d \<noteq> edge_columns (ver_data v)" "decodeProperties props = Inr cloned" "can_allocate tx"
  have cur: "select_current (ent_versions (db_edges (tx_db (allocate tx)))) k = Some v"
    using s(1) allocate_advance(4) [OF t] by simp
  have "edge_fits (graph_nodes (tx_db (allocate tx))) (graph_edges (tx_db (allocate tx))) k d"
    using f allocate_graph [of tx] by (simp add: tx_nodes_def tx_edges_def)
  note r = replaceEdgeVersion_runs [OF allocated [OF t] cur s(2,3) this]
  show "UpdateEdge k upd tx = (Inr \<lparr>edge_id = k, edge_source = ed_from d, edge_type = ed_type d, edge_target = ed_to d,
        edge_position = ed_position d, edge_properties = cloned, edge_from = tx_base tx + 1, edge_to = None\<rparr>,
        edge_write k (Some d) tx)"
    unfolding u using c same s(2)
    by (auto simp: recordMutationFailure_def bindT_def returnT_def ensureRevision_eq [OF t c(3)] r edge_write_def)
qed

lemma UpdateEdge_guards:
  assumes t: "tx_ok tx" and c: "UpdateEdge k upd tx = (Inr e', tx')"
  obtains e props where "GetEdge k tx = (Inr e, tx)" "validate_wanted tx k (wanted_edge upd e props) = Inr ()"
    "encodeProperties (wanted_edge_properties upd e) = Inr props"
proof -
  obtain e tx1 where e: "GetEdge k tx = (Inr e, tx1)" and rest: "\<exists>props. validate_wanted tx1 k (wanted_edge upd e props) = Inr () \<and>
      encodeProperties (wanted_edge_properties upd e) = Inr props"
    using c unfolding UpdateEdge_def recordMutationFailure_Inr_iff bindT_Inr_iff Let_def returnT_Inr_iff readT_Inr_iff
      invalid_argument_Inr_iff validate_wanted_def wanted_edge_def wanted_edge_properties_def by fastforce
  moreover have "tx1 = tx" by (rule GetEdge_Inr [OF t e])
  ultimately show thesis using that by blast
qed

lemma UpdateEdge_effect:
  assumes t: "tx_ok tx" and c: "UpdateEdge k upd tx = (Inr e', tx')"
  obtains e props where "GetEdge k tx = (Inr e, tx)" "encodeProperties (wanted_edge_properties upd e) = Inr props"
    "edge_fits (tx_nodes tx) (tx_edges tx) k (wanted_edge upd e props)" "advance tx tx'"
    "edge_cols tx' = (edge_cols tx)(k := Some (edge_columns (wanted_edge upd e props)))" "tx_nodes tx' = tx_nodes tx"
    "tx_edges tx' = tx_edges tx \<or> tx_edges tx' = (tx_edges tx)(k := Some (wanted_edge upd e props))"
proof -
  obtain e props where e: "GetEdge k tx = (Inr e, tx)" and g: "validate_wanted tx k (wanted_edge upd e props) = Inr ()"
    "encodeProperties (wanted_edge_properties upd e) = Inr props"
    using UpdateEdge_guards [OF t c] .
  obtain v where v: "select_current (ent_versions (db_edges (tx_db tx))) k = Some v" "tx_edges tx k = Some (ver_data v)"
    and s: "edge_id e = k" "edge_from e = ver_from v" "edge_source e = ed_from (ver_data v)"
    "edge_type e = ed_type (ver_data v)" "edge_target e = ed_to (ver_data v)" "edge_position e = ed_position (ver_data v)"
    "decodeProperties (ed_properties (ver_data v)) = Inr (edge_properties e)"
    using GetEdge_Inr [OF t e] by metis
  note u = UpdateEdge_unfold [OF t e g v(1) s]
  define d where "d = wanted_edge upd e props"
  show thesis
  proof (cases "edge_columns d = edge_columns (ver_data v)")
    case True
    then have q: "tx' = tx" using u(1) c by (simp add: d_def)
    have "edge_cols tx k = Some (edge_columns d)" using v(2) True by (simp add: edge_cols_def)
    then have "edge_cols tx' = (edge_cols tx)(k := Some (edge_columns d))" unfolding q by (simp add: fun_upd_idem)
    then show thesis using that [OF e g(2) u(4)] advance_refl [OF t] q d_def by simp
  next
    case False
    then have "is_ok (decodeProperties props) \<and> can_allocate tx" using u(3) c by (simp add: d_def)
    then obtain cloned where dec: "decodeProperties props = Inr cloned" "can_allocate tx" by (auto simp: is_ok_iff)
    have q: "tx' = edge_write k (Some d) tx" using u(2) [OF _ dec] False c by (simp add: d_def)
    have "edge_value_ok d" using dec by (simp add: edge_value_ok_def d_def wanted_edge_def is_ok_def)
    then have x: "edge_value_ok d' \<and> edge_fits (tx_nodes tx) (tx_edges tx) k d'" if "Some d = Some d'" for d'
      using that u(4) d_def by simp
    note w = edge_write_effect [where x = "Some d" and k = k, OF t v(1) x, simplified]
    have "edge_cols tx' = (edge_cols tx)(k := Some (edge_columns d))"
      using w(2) by (auto simp: edge_cols_def q fun_eq_iff)
    then show thesis using that [OF e g(2) u(4)] w q d_def by simp
  qed
qed

section \<open>Closing edges\<close>

text \<open>Closing an edge removes it from the graph and leaves every other current row as it is.\<close>

lemma select_current_other:
  fixes t :: "('k, 'a) vtable"
  assumes "j \<noteq> k"
  shows "select_current (write_version r k x t) j = select_current t j"
proof -
  have "find (\<lambda>v. ver_id v = j \<and> ver_to v = None) (map f t) = find (\<lambda>v. ver_id v = j \<and> ver_to v = None) t"
    if "\<And>v. ver_id (f v) = ver_id v" "\<And>v. ver_id v = j \<Longrightarrow> f v = v" for f
    using that by (induction t) auto
  then have "select_current (close_version k r t) j = select_current t j" "select_current (edit_version k r d t) j = select_current t j" for d
    using assms unfolding select_current_def close_version_def edit_version_def by auto
  moreover have "select_current (delete_version k r t) j = select_current t j"
    using assms unfolding select_current_def delete_version_def by (intro find_filter_same) auto
  moreover have "select_current (insert_version k r d u) j = select_current u j" for d and u :: "('k, 'a) vtable"
    using assms by (simp add: select_current_def insert_version_def find_snoc split: option.splits)
  ultimately show ?thesis by (simp add: write_version_def split: option.splits)
qed

lemma closeEdge_runs:
  assumes t: "tx_ok tx" "tx_revision tx = r" "r \<noteq> 0" and v: "select_current (ent_versions (db_edges (tx_db tx))) k = Some v"
    and e: "edge_id e = k" "edge_from e = ver_from v"
  obtains db' where "closeEdge e r tx = (Inr (), tx\<lparr>tx_db := db'\<rparr>)" "db_step r (tx_db tx) db'"
    "graph_edges db' = (graph_edges (tx_db tx))(k := None)" "graph_nodes db' = graph_nodes (tx_db tx)"
    "db_nodes db' = db_nodes (tx_db tx)"
    "\<And>j. j \<noteq> k \<Longrightarrow> select_current (ent_versions (db_edges db')) j = select_current (ent_versions (db_edges (tx_db tx))) j"
proof -
  have o: "db_ok True r (tx_db tx)" by (rule tx_active [OF t])
  note q = replace_entity [OF db_okD(3) [OF o] db_ok_pos [OF o] v]
  note row = current_row [OF db_okD(3) [OF o] v]
  obtain c where c: "map_of (ent_ids (db_edges (tx_db tx))) k = Some c"
    using row(4) by (metis map_of_eq_None_iff not_Some_eq)
  show thesis
  proof (cases "ver_from v = r \<and> c = r")
    case True
    then have m: "ver_from v = r" "map_of (ent_ids (db_edges (tx_db tx))) k = Some r" using c by auto
    note d = del_edge_step [OF o v m]
    have "closeEdge e r tx = (Inr (), tx\<lparr>tx_db := del_edge r k (tx_db tx)\<rparr>)"
      using d(1) m e by (simp add: closeEdge_def bindT_def readT_def execT_def identityCreatedAt_def)
    then show thesis
      using that [OF _ d(2,3,4)] by (simp add: del_edge_def select_current_other)
  next
    case False
    note p = put_edge_step [where x = None and k = k, OF o, simplified]
    have "closeEdge e r tx = (Inr (), tx\<lparr>tx_db := put_edge r k None (tx_db tx)\<rparr>)"
      using False c e q(2,4)
      by (auto simp: closeEdge_def bindT_def readT_def execT_def identityCreatedAt_def db_active [OF o] put_edge_def)
    then show thesis
      using that [OF _ p] by (simp add: put_edge_def select_current_other)
  qed
qed

lemma closeEdges_runs:
  assumes "tx_ok tx" "tx_revision tx = r" "r \<noteq> 0" "distinct (map edge_id es)"
    and "\<And>e. e \<in> set es \<Longrightarrow> \<exists>v. select_current (ent_versions (db_edges (tx_db tx))) (edge_id e) = Some v \<and> edge_from e = ver_from v"
  obtains db' where "closeEdges es r tx = (Inr (), tx\<lparr>tx_db := db'\<rparr>)" "db_step r (tx_db tx) db'"
    "graph_edges db' = (graph_edges (tx_db tx)) |` (- edge_id ` set es)" "graph_nodes db' = graph_nodes (tx_db tx)"
    "db_nodes db' = db_nodes (tx_db tx)"
proof -
  have "\<exists>db'. closeEdges es r tx = (Inr (), tx\<lparr>tx_db := db'\<rparr>) \<and> db_step r (tx_db tx) db' \<and>
    graph_edges db' = (graph_edges (tx_db tx)) |` (- edge_id ` set es) \<and> graph_nodes db' = graph_nodes (tx_db tx) \<and>
    db_nodes db' = db_nodes (tx_db tx)"
    using assms
  proof (induction es arbitrary: tx)
    case Nil
    have "tx\<lparr>tx_db := tx_db tx\<rparr> = tx" by simp
    moreover have "(graph_edges (tx_db tx)) |` UNIV = graph_edges (tx_db tx)" by (simp add: restrict_map_def fun_eq_iff)
    ultimately show ?case
      using db_step_refl [OF tx_active [OF Nil.prems(1-3)]] by (intro exI [of _ "tx_db tx"]) (simp add: returnT_def)
  next
    case (Cons e es)
    obtain v where v: "select_current (ent_versions (db_edges (tx_db tx))) (edge_id e) = Some v" "edge_from e = ver_from v"
      using Cons.prems(5) by auto
    obtain db1 where c: "closeEdge e r tx = (Inr (), tx\<lparr>tx_db := db1\<rparr>)" "db_step r (tx_db tx) db1"
      "graph_edges db1 = (graph_edges (tx_db tx))(edge_id e := None)" "graph_nodes db1 = graph_nodes (tx_db tx)"
      "db_nodes db1 = db_nodes (tx_db tx)"
      and other: "\<And>j. j \<noteq> edge_id e \<Longrightarrow> select_current (ent_versions (db_edges db1)) j = select_current (ent_versions (db_edges (tx_db tx))) j"
      using closeEdge_runs [OF Cons.prems(1-3) v(1) refl v(2)] by metis
    let ?tx1 = "tx\<lparr>tx_db := db1\<rparr>"
    have ok: "tx_ok ?tx1" using advance_ok exec_step Cons.prems(1-3) c(2) by blast
    have rev: "tx_revision ?tx1 = r" using Cons.prems(2) by simp
    have rows: "\<exists>v. select_current (ent_versions (db_edges (tx_db ?tx1))) (edge_id f) = Some v \<and> edge_from f = ver_from v"
      if f: "f \<in> set es" for f
    proof -
      have "edge_id e \<notin> edge_id ` set es" using Cons.prems(4) by simp
      then have "edge_id f \<noteq> edge_id e" using f by (metis imageI)
      then show ?thesis using Cons.prems(5) f other by simp
    qed
    have dis: "distinct (map edge_id es)" using Cons.prems(4) by simp
    obtain db' where d: "closeEdges es r ?tx1 = (Inr (), ?tx1\<lparr>tx_db := db'\<rparr>)" "db_step r (tx_db ?tx1) db'"
      "graph_edges db' = (graph_edges (tx_db ?tx1)) |` (- edge_id ` set es)" "graph_nodes db' = graph_nodes (tx_db ?tx1)"
      "db_nodes db' = db_nodes (tx_db ?tx1)"
      using Cons.IH [OF ok rev Cons.prems(3) dis rows] by blast
    have "(graph_edges (tx_db tx))(edge_id e := None) |` (- edge_id ` set es) = (graph_edges (tx_db tx)) |` (- edge_id ` set (e # es))"
      by (auto simp: restrict_map_def fun_eq_iff)
    then show ?case
      using c d db_step_trans [OF c(2)] by (intro exI [of _ db']) (simp add: bindT_def)
  qed
  then show thesis using that by blast
qed

section \<open>DeleteEdge\<close>

lemma DeleteEdge_runs:
  assumes t: "tx_ok tx" and e: "tx_edges tx k = Some d" and a: "can_allocate tx"
  obtains tx' where "DeleteEdge k tx = (Inr (), tx')" "advance tx tx'" "tx_edges tx' = (tx_edges tx)(k := None)" "tx_nodes tx' = tx_nodes tx"
proof -
  obtain e where e: "GetEdge k tx = (Inr e, tx)" using GetEdge_runs [OF t e] .
  obtain v where v: "select_current (ent_versions (db_edges (tx_db tx))) k = Some v" "edge_id e = k" "edge_from e = ver_from v"
    using GetEdge_Inr [OF t e] by metis
  have v': "select_current (ent_versions (db_edges (tx_db (allocate tx)))) k = Some v" using v(1) allocate_advance(4) [OF t] by simp
  have n: "tx_base tx + 1 \<noteq> 0" using t by (simp add: tx_ok_def)
  note al = allocate_advance [OF t]
  obtain db' where c: "closeEdge e (tx_base tx + 1) (allocate tx) = (Inr (), (allocate tx)\<lparr>tx_db := db'\<rparr>)"
    "db_step (tx_base tx + 1) (tx_db (allocate tx)) db'"
    "graph_edges db' = (graph_edges (tx_db (allocate tx)))(k := None)" "graph_nodes db' = graph_nodes (tx_db (allocate tx))"
    using closeEdge_runs [OF advance_ok [OF al(1)] al(2) n v' v(2,3)] by metis
  have "DeleteEdge k tx = (Inr (), (allocate tx)\<lparr>tx_db := db'\<rparr>)"
    using e c(1) by (simp add: DeleteEdge_def recordMutationFailure_def ensureRevision_eq [OF t a] bindT_def)
  then show thesis
    using that mutate_advance [OF t c(2)] c(3,4) allocate_graph [of tx] by (simp add: tx_edges_def tx_nodes_def)
qed

lemma DeleteEdge_guards:
  assumes t: "tx_ok tx" and c: "DeleteEdge k tx = (Inr u, tx')"
  shows "tx_edges tx k \<noteq> None \<and> can_allocate tx"
proof -
  obtain e tx1 r tx2 where x: "GetEdge k tx = (Inr e, tx1)" "ensureRevision tx1 = (Inr r, tx2)"
    using c unfolding DeleteEdge_def recordMutationFailure_Inr_iff bindT_Inr_iff by blast
  have "tx1 = tx" "tx_edges tx k \<noteq> None" using GetEdge_Inr [OF t x(1)] by auto
  then show ?thesis using ensureRevision_Inr(1) [OF t] x(2) by simp
qed

end
