(* ===== verification/Delete_Node.thy ===== *)
theory Delete_Node
  imports Edge_Mutations
begin

text \<open>
  \<open>DeleteNode\<close>: it closes the edges at the node and then the node, and nothing else.
\<close>

lemma scanEdge_current:
  assumes "edge_value_ok (ver_data v)"
  obtains e where "scanEdge (Some v) = Inr e" "edge_id e = ver_id v" "edge_from e = ver_from v"
  using assms by (auto simp: edge_value_ok_def is_ok_iff scanEdge_def corrupt_def)

text \<open>The edges that the query lists are those of the graph that meet the node, each once.\<close>

lemma incidentEdges_facts:
  assumes o: "db_ok act r db"
  obtains es where "mapE (\<lambda>v. scanEdge (Some v)) (incidentEdges db k) = Inr es" "distinct (map edge_id es)"
    "\<And>e. e \<in> set es \<Longrightarrow> \<exists>v. select_current (ent_versions (db_edges db)) (edge_id e) = Some v \<and> edge_from e = ver_from v"
    "(graph_edges db) |` (- edge_id ` set es) = detached k (graph_edges db)"
proof -
  define rows where "rows = incidentEdges db k"
  have h: "history_ok r (ent_versions (db_edges db))" using db_okD(3) [OF o] by (simp add: entities_ok_def)
  have set: "set rows = {v \<in> set (ent_versions (db_edges db)). ver_to v = None \<and> (ed_from (ver_data v) = k \<or> ed_to (ver_data v) = k)}"
    by (auto simp: rows_def incidentEdges_def)
  have "\<exists>e. scanEdge (Some v) = Inr e \<and> edge_id e = ver_id v \<and> edge_from e = ver_from v" if "v \<in> set rows" for v
    using scanEdge_current db_okD(7) [OF o] that set by blast
  then obtain f where f: "\<And>v. v \<in> set rows \<Longrightarrow> scanEdge (Some v) = Inr (f v) \<and> edge_id (f v) = ver_id v \<and> edge_from (f v) = ver_from v"
    by metis
  have m: "mapE (\<lambda>v. scanEdge (Some v)) (incidentEdges db k) = Inr (map f rows)"
    unfolding rows_def [symmetric] using f by (intro mapE_map) blast
  have ids: "map edge_id (map f rows) = map ver_id rows" using f by simp
  have "distinct (ent_versions (db_edges db))" using h by (simp add: history_ok_def distinct_map)
  then have "distinct rows" by (simp add: rows_def incidentEdges_def)
  moreover have "inj_on ver_id (set rows)"
    using current_unique [OF h] set by (intro inj_onI) (metis (mono_tags, lifting) mem_Collect_eq)
  ultimately have d: "distinct (map edge_id (map f rows))" unfolding ids by (simp add: distinct_map)
  have cur: "\<exists>v. select_current (ent_versions (db_edges db)) (edge_id e) = Some v \<and> edge_from e = ver_from v"
    if e: "e \<in> set (map f rows)" for e
  proof -
    obtain v where v: "v \<in> set rows" "e = f v" using e by auto
    then have "select_current (ent_versions (db_edges db)) (ver_id v) = Some v" using select_current_Some [OF h] set by blast
    then show ?thesis using f [OF v(1)] v(2) by auto
  qed
  have "((graph_edges db) |` (- edge_id ` set (map f rows))) j = detached k (graph_edges db) j" for j
  proof (cases "graph_edges db j")
    case None
    then show ?thesis by (simp add: detached_def restrict_map_def)
  next
    case (Some d)
    then obtain v where v: "v \<in> set (ent_versions (db_edges db))" "ver_id v = j" "ver_to v = None" "ver_data v = d"
      using current_edge [OF o] by blast
    have "j \<in> edge_id ` set (map f rows) \<longleftrightarrow> (\<exists>w \<in> set rows. ver_id w = j)" using f by (auto simp: image_iff)
    also have "\<dots> \<longleftrightarrow> v \<in> set rows" using v(1-3) current_unique [OF h v(1,3)] set by (metis (mono_tags, lifting) mem_Collect_eq)
    also have "\<dots> \<longleftrightarrow> ed_from d = k \<or> ed_to d = k" using v set by simp
    finally show ?thesis using Some by (simp add: detached_def restrict_map_def)
  qed
  then show thesis using that [OF m d cur] by blast
qed

lemma detached_unused: "graph_edges db = detached k E \<Longrightarrow> unused k db"
  by (auto simp: unused_def detached_def split: option.splits if_splits)

text \<open>The last statements of \<open>DeleteNode\<close>, once no edge meets the node.\<close>

definition drop_node :: "Node \<Rightarrow> string \<Rightarrow> int \<Rightarrow> unit operation" where
  "drop_node current k revision =
     (if node_from current = revision
      then bindT (readT (\<lambda>db. identityCreatedAt (db_nodes db) k)) (\<lambda>created.
           if created = revision then execT plain (sqlDeleteNode k)
           else execT plain (\<lambda>db. onNodes db (deleteVersion (active db revision) k revision (db_nodes db))))
      else execT plain (\<lambda>db. onNodes db
             (bindE (closeVersion (active db revision) k revision (db_nodes db)) (\<lambda>(n, es). Inr es))))"

lemma drop_node_runs:
  assumes o: "db_ok True r (tx_db tx)" and v: "select_current (ent_versions (db_nodes (tx_db tx))) k = Some v"
    and n: "node_from n = ver_from v" and u: "unused k (tx_db tx)"
  obtains db' where "drop_node n k r tx = (Inr (), tx\<lparr>tx_db := db'\<rparr>)" "db_step r (tx_db tx) db'"
    "graph_nodes db' = (graph_nodes (tx_db tx))(k := None)" "graph_edges db' = graph_edges (tx_db tx)"
proof -
  note q = replace_entity [OF db_okD(2) [OF o] db_ok_pos [OF o] v]
  note row = current_row [OF db_okD(2) [OF o] v]
  obtain c where c: "map_of (ent_ids (db_nodes (tx_db tx))) k = Some c"
    using row(4) by (metis map_of_eq_None_iff not_Some_eq)
  show thesis
  proof (cases "ver_from v = r \<and> c = r")
    case True
    then have m: "ver_from v = r" "map_of (ent_ids (db_nodes (tx_db tx))) k = Some r" using c by auto
    note d = del_node_step [OF o v m u]
    have "drop_node n k r tx = (Inr (), tx\<lparr>tx_db := del_node r k (tx_db tx)\<rparr>)"
      using d(1) m n by (simp add: drop_node_def bindT_def readT_def execT_def identityCreatedAt_def)
    then show thesis using that [OF _ d(2,3,4)] by simp
  next
    case False
    have x: "k \<in> fst ` set (ent_ids (db_nodes (tx_db tx))) \<and> node_value_ok d" if "None = Some d" for d using that by simp
    note p = put_node_step [where x = None and k = k, OF o x]
    have "drop_node n k r tx = (Inr (), tx\<lparr>tx_db := put_node r k None (tx_db tx)\<rparr>)"
      using False c n q(2,4)
      by (auto simp: drop_node_def bindT_def readT_def execT_def identityCreatedAt_def db_active [OF o] put_node_def)
    then show thesis using that p u by simp
  qed
qed

lemma DeleteNode_runs:
  assumes t: "tx_ok tx" and d: "tx_nodes tx k = Some d" and a: "can_allocate tx"
  obtains tx' where "DeleteNode k tx = (Inr (), tx')" "advance tx tx'" "tx_nodes tx' = (tx_nodes tx)(k := None)"
    "tx_edges tx' = detached k (tx_edges tx)"
proof -
  obtain n where n: "GetNode k tx = (Inr n, tx)" using GetNode_runs [OF t d] .
  obtain v where v: "select_current (ent_versions (db_nodes (tx_db tx))) k = Some v" "node_from n = ver_from v"
    using GetNode_Inr [OF t n] by metis
  define r where "r = tx_base tx + 1"
  define tx1 where "tx1 = allocate tx"
  have r: "r \<noteq> 0" using t by (simp add: tx_ok_def r_def)
  note al = allocate_advance [OF t, folded tx1_def r_def]
  have o: "db_ok True r (tx_db tx1)" unfolding r_def tx1_def by (rule allocated [OF t])
  obtain es where es: "mapE (\<lambda>v. scanEdge (Some v)) (incidentEdges (tx_db tx1) k) = Inr es" "distinct (map edge_id es)"
    "\<And>e. e \<in> set es \<Longrightarrow> \<exists>v. select_current (ent_versions (db_edges (tx_db tx1))) (edge_id e) = Some v \<and> edge_from e = ver_from v"
    "(graph_edges (tx_db tx1)) |` (- edge_id ` set es) = detached k (graph_edges (tx_db tx1))"
    using incidentEdges_facts [OF o, where k = k] by metis
  obtain db2 where c: "closeEdges es r tx1 = (Inr (), tx1\<lparr>tx_db := db2\<rparr>)" "db_step r (tx_db tx1) db2"
    "graph_edges db2 = detached k (graph_edges (tx_db tx1))" "graph_nodes db2 = graph_nodes (tx_db tx1)"
    "db_nodes db2 = db_nodes (tx_db tx1)"
    using closeEdges_runs [OF advance_ok [OF al(1)] al(2) r es(2,3)] es(4) by metis
  let ?tx2 = "tx1\<lparr>tx_db := db2\<rparr>"
  have o2: "db_ok True r (tx_db ?tx2)" using c(2) by (simp add: db_step_def)
  have v2: "select_current (ent_versions (db_nodes (tx_db ?tx2))) k = Some v" using v(1) c(5) al(3) by simp
  have "unused k (tx_db ?tx2)" using detached_unused c(3) by simp
  then obtain db3 where e: "drop_node n k r ?tx2 = (Inr (), ?tx2\<lparr>tx_db := db3\<rparr>)" "db_step r (tx_db ?tx2) db3"
    "graph_nodes db3 = (graph_nodes (tx_db ?tx2))(k := None)" "graph_edges db3 = graph_edges (tx_db ?tx2)"
    using drop_node_runs [OF o2 v2 v(2)] by metis
  have "DeleteNode k tx = (Inr (), tx1\<lparr>tx_db := db3\<rparr>)"
    using n es(1) c(1) e(1) ensureRevision_eq [OF t a, folded r_def tx1_def]
    unfolding DeleteNode_def drop_node_def [symmetric]
    by (simp add: recordMutationFailure_def bindT_def readT_def)
  moreover have "db_step r (tx_db tx1) db3" using db_step_trans [OF c(2)] e(2) by simp
  then have "advance tx (tx1\<lparr>tx_db := db3\<rparr>)" unfolding tx1_def r_def by (rule mutate_advance [OF t])
  ultimately show thesis
    using that [of "tx1\<lparr>tx_db := db3\<rparr>"] c(3,4) e(3,4) allocate_graph [of tx, folded tx1_def] by (simp add: tx_nodes_def tx_edges_def)
qed

lemma DeleteNode_guards:
  assumes t: "tx_ok tx" and c: "DeleteNode k tx = (Inr u, tx')"
  shows "tx_nodes tx k \<noteq> None \<and> can_allocate tx"
proof -
  obtain n tx1 r tx2 where x: "GetNode k tx = (Inr n, tx1)" "ensureRevision tx1 = (Inr r, tx2)"
    using c unfolding DeleteNode_def recordMutationFailure_Inr_iff bindT_Inr_iff by blast
  have "tx1 = tx" "tx_nodes tx k \<noteq> None" using GetNode_Inr [OF t x(1)] by auto
  then show ?thesis using ensureRevision_Inr(1) [OF t] x(2) by simp
qed

end
