(* ===== verification/Store_Commit.thy ===== *)
theory Store_Commit
  imports Delete_Node
begin

text \<open>
  \<open>Store.Write\<close> of \<open>internal/store/write.go\<close>: the callback runs on a transaction and its changes are sealed
  as one revision, or discarded.  A callback is any function that leaves a transaction which the public
  operations reach from the one it was given; \<open>tx_step\<close> is one of these operations.  Cancelled contexts,
  panics and failing connections are not modelled.
\<close>

section \<open>Write\<close>

record WriteResult =
  wr_revision :: int
  wr_changed :: bool
  wr_info :: "RevisionInfo option"

definition begin_tx :: "int \<Rightarrow> RevisionMeta \<Rightarrow> database \<Rightarrow> WriteTx" where
  "begin_tx clock meta db =
     \<lparr>tx_db = db, tx_meta = meta, tx_clock = clock, tx_base = sealed_revision (db_revisions db), tx_revision = 0,
      tx_info = None, tx_failure = None, tx_done = False\<rparr>"

definition graphChanged :: "WriteTx \<Rightarrow> bool" where
  "graphChanged tx = graph_changed (tx_db tx) (tx_base tx) (tx_revision tx)"

type_synonym callback = "WriteTx \<Rightarrow> derror option \<times> WriteTx"

definition Write :: "int \<Rightarrow> RevisionMeta \<Rightarrow> callback \<Rightarrow> database \<Rightarrow> (derror + WriteResult) \<times> database" where
  "Write clock meta fn db =
     (if unsealed_count (db_revisions db) \<noteq> 0 then (Inl PlainError, db)
      else case fn (begin_tx clock meta db) of
             (Some e, tx) \<Rightarrow> (Inl e, db)
           | (None, tx) \<Rightarrow>
               (case tx_failure tx of
                  Some e \<Rightarrow> (Inl e, db)
                | None \<Rightarrow>
                    if tx_revision tx = 0
                    then (Inr \<lparr>wr_revision = tx_base tx, wr_changed = False, wr_info = None\<rparr>, tx_db tx)
                    else if \<not> graphChanged tx
                    then (Inr \<lparr>wr_revision = tx_base tx, wr_changed = False, wr_info = None\<rparr>, db)
                    else case sealRevision (tx_revision tx) (tx_db tx) of
                           Inl _ \<Rightarrow> (Inl PlainError, db)
                         | Inr (affected, db') \<Rightarrow>
                             if \<not> is_ok (expectOneRow affected) then (Inl PlainError, db)
                             else (Inr \<lparr>wr_revision = tx_revision tx, wr_changed = True, wr_info = tx_info tx\<rparr>, db')))"

section \<open>Reachable transactions\<close>

inductive tx_step :: "WriteTx \<Rightarrow> WriteTx \<Rightarrow> bool" where
  step_CreateNode: "CreateNode fresh input tx = (q, tx') \<Longrightarrow> tx_step tx tx'"
| step_UpdateNode: "UpdateNode k upd tx = (q', tx') \<Longrightarrow> tx_step tx tx'"
| step_DeleteNode: "DeleteNode k tx = (u, tx') \<Longrightarrow> tx_step tx tx'"
| step_CreateEdge: "CreateEdge fresh einput tx = (p, tx') \<Longrightarrow> tx_step tx tx'"
| step_UpdateEdge: "UpdateEdge k eupd tx = (p', tx') \<Longrightarrow> tx_step tx tx'"
| step_DeleteEdge: "DeleteEdge k tx = (u, tx') \<Longrightarrow> tx_step tx tx'"
| step_GetNode: "GetNode k tx = (q, tx') \<Longrightarrow> tx_step tx tx'"
| step_GetEdge: "GetEdge k tx = (p, tx') \<Longrightarrow> tx_step tx tx'"
| step_ListNodes: "ListNodes tx = (qs, tx') \<Longrightarrow> tx_step tx tx'"
| step_ListEdges: "ListEdges tx = (ps, tx') \<Longrightarrow> tx_step tx tx'"

definition reaches :: "WriteTx \<Rightarrow> WriteTx \<Rightarrow> bool" where
  "reaches tx tx' \<longleftrightarrow> tx_step\<^sup>*\<^sup>* tx tx'"

definition is_callback :: "callback \<Rightarrow> bool" where
  "is_callback fn \<longleftrightarrow> (\<forall>tx. reaches tx (snd (fn tx)))"

section \<open>Failures stay\<close>

definition keeps_failure :: "'a operation \<Rightarrow> bool" where
  "keeps_failure m \<longleftrightarrow> (\<forall>tx. tx_failure (snd (m tx)) = tx_failure tx)"

named_theorems keeps \<open>operations that leave the recorded failure alone\<close>

lemma keeps_bindT [keeps]: "keeps_failure m \<Longrightarrow> (\<And>x. keeps_failure (f x)) \<Longrightarrow> keeps_failure (bindT m f)"
  unfolding keeps_failure_def bindT_def by (auto split: prod.splits sum.splits) (metis snd_conv)+

lemma keeps_basic [keeps]:
  "keeps_failure (returnT q)" "keeps_failure (readT r)" "keeps_failure (execT w stmt)" "keeps_failure (countT w cstmt)"
  "keeps_failure checkActive"
  by (auto simp: keeps_failure_def returnT_def readT_def execT_def countT_def checkActive_def split: sum.splits)

lemma keeps_cases [keeps]: "keeps_failure m \<Longrightarrow> keeps_failure n \<Longrightarrow> keeps_failure (if b then m else n)"
  by simp

lemma keeps_Let [keeps]: "(\<And>x. keeps_failure (f x)) \<Longrightarrow> keeps_failure (Let v f)"
  by (simp add: Let_def)

lemma keeps_ensureRevision [keeps]: "keeps_failure ensureRevision"
  unfolding keeps_failure_def ensureRevision_def
  by (auto simp: bindT_def returnT_def readT_def execT_def Let_def split: prod.splits sum.splits)

lemma keeps_reads [keeps]: "keeps_failure (GetNode k)" "keeps_failure (GetEdge k)" "keeps_failure ListNodes" "keeps_failure ListEdges"
  unfolding GetNode_def GetEdge_def ListNodes_def ListEdges_def by (intro keeps)+

lemma keeps_replace [keeps]: "keeps_failure (replaceNodeVersion n d r)" "keeps_failure (replaceEdgeVersion e f r)" "keeps_failure (closeEdge e r)"
  unfolding replaceNodeVersion_def replaceEdgeVersion_def closeEdge_def by (intro keeps)+

lemma keeps_closeEdges [keeps]: "keeps_failure (closeEdges es r)"
  by (induction es) (auto intro!: keeps)

lemma recorded:
  assumes "keeps_failure m" "recordMutationFailure m tx = (q, tx')" "tx_failure tx' = None"
  shows "tx_failure tx = None \<and> (\<exists>x. q = Inr x)"
  using assms unfolding recordMutationFailure_def keeps_failure_def
  by (auto split: prod.splits sum.splits if_splits) (metis snd_conv)+

lemma CreateNode_failure:
  assumes "CreateNode fresh input tx = (q, tx')" "tx_failure tx' = None"
  shows "tx_failure tx = None \<and> (\<exists>x. q = Inr x)"
  using assms(1) unfolding CreateNode_def by (rule recorded [rotated, OF _ assms(2)]) (intro keeps)+

lemma UpdateNode_failure:
  assumes "UpdateNode k upd tx = (q, tx')" "tx_failure tx' = None"
  shows "tx_failure tx = None \<and> (\<exists>x. q = Inr x)"
  using assms(1) unfolding UpdateNode_def by (rule recorded [rotated, OF _ assms(2)]) (intro keeps)+

lemma DeleteNode_failure:
  assumes "DeleteNode k tx = (q, tx')" "tx_failure tx' = None"
  shows "tx_failure tx = None \<and> (\<exists>x. q = Inr x)"
  using assms(1) unfolding DeleteNode_def by (rule recorded [rotated, OF _ assms(2)]) (intro keeps)+

lemma CreateEdge_failure:
  assumes "CreateEdge fresh input tx = (q, tx')" "tx_failure tx' = None"
  shows "tx_failure tx = None \<and> (\<exists>x. q = Inr x)"
  using assms(1) unfolding CreateEdge_def by (rule recorded [rotated, OF _ assms(2)]) (intro keeps)+

lemma UpdateEdge_failure:
  assumes "UpdateEdge k upd tx = (q, tx')" "tx_failure tx' = None"
  shows "tx_failure tx = None \<and> (\<exists>x. q = Inr x)"
  using assms(1) unfolding UpdateEdge_def by (rule recorded [rotated, OF _ assms(2)]) (intro keeps)+

lemma DeleteEdge_failure:
  assumes "DeleteEdge k tx = (q, tx')" "tx_failure tx' = None"
  shows "tx_failure tx = None \<and> (\<exists>x. q = Inr x)"
  using assms(1) unfolding DeleteEdge_def by (rule recorded [rotated, OF _ assms(2)]) (intro keeps)+

section \<open>Every step advances the transaction\<close>

lemma reads_same:
  "GetNode k tx = (q, tx') \<Longrightarrow> tx' = tx" "GetEdge k tx = (p, tx') \<Longrightarrow> tx' = tx"
  "ListNodes tx = (qs, tx') \<Longrightarrow> tx' = tx" "ListEdges tx = (ps, tx') \<Longrightarrow> tx' = tx"
  by (auto simp: GetNode_def GetEdge_def ListNodes_def ListEdges_def bindT_def checkActive_def readT_def split: if_splits)

lemma CreateNode_effect:
  assumes t: "tx_ok tx" and c: "CreateNode fresh input tx = (Inr n, tx')"
  shows "advance tx tx'"
  using CreateNode_guards [OF t c] CreateNode_runs [OF t] c by (metis prod.inject)

lemma CreateEdge_effect:
  assumes t: "tx_ok tx" and c: "CreateEdge fresh input tx = (Inr e, tx')"
  shows "advance tx tx'"
  using CreateEdge_guards [OF t c] CreateEdge_runs [OF t] c by (metis prod.inject)

lemma DeleteNode_effect:
  assumes t: "tx_ok tx" and c: "DeleteNode k tx = (Inr u, tx')"
  shows "advance tx tx'" "tx_nodes tx' = (tx_nodes tx)(k := None)" "tx_edges tx' = detached k (tx_edges tx)"
  using DeleteNode_guards [OF t c] DeleteNode_runs [OF t] c by (metis not_Some_eq prod.inject)+

lemma DeleteEdge_effect:
  assumes t: "tx_ok tx" and c: "DeleteEdge k tx = (Inr u, tx')"
  shows "advance tx tx'" "tx_edges tx' = (tx_edges tx)(k := None)" "tx_nodes tx' = tx_nodes tx"
  using DeleteEdge_guards [OF t c] DeleteEdge_runs [OF t] c by (metis not_Some_eq prod.inject)+

lemma step_advance:
  assumes s: "tx_step tx tx'" and f: "tx_failure tx' = None"
  shows "tx_failure tx = None \<and> (tx_ok tx \<longrightarrow> advance tx tx')"
  using s
proof cases
  case (step_CreateNode fresh input q)
  then show ?thesis using CreateNode_failure [OF step_CreateNode f] CreateNode_effect by blast
next
  case (step_UpdateNode k upd q)
  then show ?thesis using UpdateNode_failure [OF step_UpdateNode f] UpdateNode_effect by metis
next
  case (step_DeleteNode k u)
  then show ?thesis using DeleteNode_failure [OF step_DeleteNode f] DeleteNode_effect(1) by blast
next
  case (step_CreateEdge fresh input p)
  then show ?thesis using CreateEdge_failure [OF step_CreateEdge f] CreateEdge_effect by blast
next
  case (step_UpdateEdge k upd p)
  then show ?thesis using UpdateEdge_failure [OF step_UpdateEdge f] UpdateEdge_effect by metis
next
  case (step_DeleteEdge k u)
  then show ?thesis using DeleteEdge_failure [OF step_DeleteEdge f] DeleteEdge_effect(1) by blast
qed (use reads_same f advance_refl in blast)+

lemma reaches_advance:
  assumes "reaches tx tx'" "tx_failure tx' = None"
  shows "tx_failure tx = None \<and> (tx_ok tx \<longrightarrow> advance tx tx')"
  using assms unfolding reaches_def
proof (induction rule: rtranclp_induct)
  case base
  then show ?case using advance_refl by blast
next
  case (step y z)
  then have y: "tx_failure y = None" "tx_ok y \<longrightarrow> advance y z" using step_advance by blast+
  then show ?case using step.IH advance_ok advance_trans by blast
qed

end
