(* ===== verification/Commit_Facts.thy ===== *)
theory Commit_Facts
  imports Store_Commit
begin

text \<open>
  What \<open>Write\<close> does to a store in order: the seal never fails, a batch that changes nothing leaves no
  revision, and one that does becomes the next revision.
\<close>

section \<open>What a revision says\<close>

definition store_ok :: "database \<Rightarrow> bool" where
  "store_ok db \<longleftrightarrow> db_ok False (max_revision (db_revisions db)) db"

definition current_revision :: "database \<Rightarrow> int" where
  "current_revision db = sealed_revision (db_revisions db)"

text \<open>The columns that a snapshot shows, for nodes and for edges.\<close>

definition node_snapshot :: "int \<Rightarrow> database \<Rightarrow> string \<Rightarrow> (string \<times> string \<times> string) option" where
  "node_snapshot n db k = map_option node_columns (past n (db_nodes db) k)"

definition edge_snapshot :: "int \<Rightarrow> database \<Rightarrow> string \<Rightarrow> (string \<times> string \<times> string \<times> int option \<times> string) option" where
  "edge_snapshot n db k = map_option edge_columns (past n (db_edges db) k)"

lemma store_ok_sealed:
  assumes "store_ok db"
  shows "current_revision db = max_revision (db_revisions db)" "unsealed_count (db_revisions db) = 0"
    "revisions_ok False (current_revision db) (db_revisions db)" "db_ok False (current_revision db) db"
proof -
  have r: "revisions_ok False (max_revision (db_revisions db)) (db_revisions db)" using assms by (simp add: store_ok_def db_ok_def)
  then have "filter rev_sealed (db_revisions db) = db_revisions db" by (simp add: revisions_ok_def filter_id_conv)
  then show c: "current_revision db = max_revision (db_revisions db)" by (simp add: current_revision_def sealed_revision_def)
  show "unsealed_count (db_revisions db) = 0" by (rule revisions_unsealed [OF r])
  show "revisions_ok False (current_revision db) (db_revisions db)" "db_ok False (current_revision db) db"
    using r assms by (simp_all add: c store_ok_def)
qed

lemma begin_ok:
  assumes "store_ok db"
  shows "tx_ok (begin_tx clock meta db)" "tx_base (begin_tx clock meta db) = current_revision db"
    "tx_failure (begin_tx clock meta db) = None" "tx_db (begin_tx clock meta db) = db"
proof -
  show b: "tx_base (begin_tx clock meta db) = current_revision db" by (simp add: begin_tx_def current_revision_def)
  have "0 \<le> current_revision db" using store_ok_sealed(3) [OF assms] by (simp add: revisions_ok_def)
  then show "tx_ok (begin_tx clock meta db)"
    using store_ok_sealed(4) [OF assms] b by (simp add: tx_ok_def CurrentRevision_def begin_tx_def)
  show "tx_failure (begin_tx clock meta db) = None" "tx_db (begin_tx clock meta db) = db" by (simp_all add: begin_tx_def)
qed

section \<open>The comparison with the base revision\<close>

lemma untouched_row:
  "ver_from v \<noteq> r \<Longrightarrow> ver_to v \<noteq> Some r \<Longrightarrow> visible (r - 1) v = visible r v"
  by (auto simp: visible_def split: option.splits)

lemma untouched:
  assumes "\<And>v. v \<in> set t \<Longrightarrow> ver_id v = k \<Longrightarrow> ver_from v \<noteq> r \<and> ver_to v \<noteq> Some r"
  shows "select_at (r - 1) t k = select_at r t k"
proof -
  have "(ver_id v = k \<and> visible (r - 1) v) = (ver_id v = k \<and> visible r v)" if "v \<in> set t" for v
    using assms [OF that] untouched_row by blast
  then show ?thesis unfolding select_at_def by (induction t) auto
qed

lemma changed_rows_iff:
  fixes t :: "(string, 'a) vtable"
  shows
  "changed_rows cols (r - 1) r t \<longleftrightarrow> (\<lambda>k. map_option cols (view_at (r - 1) t k)) \<noteq> (\<lambda>k. map_option cols (view_at r t k))"
proof
  assume "changed_rows cols (r - 1) r t"
  then obtain v :: "(string, 'a) version" where "map_option (cols \<circ> ver_data) (select_at (r - 1) t (ver_id v)) \<noteq> map_option (cols \<circ> ver_data) (select_at r t (ver_id v))"
    unfolding changed_rows_def list_ex_iff by auto
  then show "(\<lambda>k. map_option cols (view_at (r - 1) t k)) \<noteq> (\<lambda>k. map_option cols (view_at r t k))"
    by (auto simp: view_at_def option.map_comp fun_eq_iff)
next
  assume "(\<lambda>k. map_option cols (view_at (r - 1) t k)) \<noteq> (\<lambda>k. map_option cols (view_at r t k))"
  then obtain k where k: "map_option (cols \<circ> ver_data) (select_at (r - 1) t k) \<noteq> map_option (cols \<circ> ver_data) (select_at r t k)"
    by (auto simp: view_at_def option.map_comp fun_eq_iff)
  then have "select_at (r - 1) t k \<noteq> select_at r t k" by auto
  then obtain v where "v \<in> set t" "ver_id v = k" "ver_from v = r \<or> ver_to v = Some r" using untouched by metis
  then show "changed_rows cols (r - 1) r t" unfolding changed_rows_def list_ex_iff using k by auto
qed

lemma past_now: "entities_ok r es \<Longrightarrow> past r es = now es"
  by (simp add: past_def now_def view_at_now entities_ok_def)

lemma graph_changed_iff:
  assumes "db_ok act r db"
  shows "graph_changed db (r - 1) r \<longleftrightarrow>
    (node_snapshot (r - 1) db, edge_snapshot (r - 1) db) \<noteq> (node_snapshot r db, edge_snapshot r db)"
  unfolding graph_changed_def changed_rows_iff by (simp add: node_snapshot_def [abs_def] edge_snapshot_def [abs_def] past_def)

section \<open>The seal\<close>

lemma no_loose_end:
  assumes o: "db_ok act r db"
  shows "\<not> loose_end db n"
proof -
  have joined: "current_node db (ed_from (ver_data e)) \<and> current_node db (ed_to (ver_data e))"
    if "e \<in> set (ent_versions (db_edges db))" "ver_to e = None" for e
  proof -
    have "graph_edges db (ver_id e) = Some (ver_data e)" using current_edge [OF o] that by blast
    then show ?thesis using graph_okD(1) [OF db_okD(5) [OF o]] by (simp add: joined_def current_node_iff [OF o])
  qed
  have "current_node db (ver_id v)"
    if "e \<in> set (ent_versions (db_edges db))" "ver_to e = None" "ed_from (ver_data e) = ver_id v \<or> ed_to (ver_data e) = ver_id v" for e and v :: "(string, nodeData) version"
    using joined [OF that(1,2)] that(3) by metis
  with joined show ?thesis unfolding loose_end_def list_ex_iff by blast
qed

lemma seal_rows:
  assumes "revisions_ok True r revs"
  shows "length (filter (\<lambda>row. rev_no row = r \<and> \<not> rev_sealed row) revs) = 1"
    and "revisions_ok False r (map (\<lambda>row. if rev_no row = r \<and> \<not> rev_sealed row then row\<lparr>rev_sealed := True\<rparr> else row) revs)"
proof -
  have n: "map rev_no revs = [1..r]" and r: "1 \<le> r" and s: "\<And>row. row \<in> set revs \<Longrightarrow> rev_sealed row \<longleftrightarrow> rev_no row \<noteq> r"
    using assms by (auto simp: revisions_ok_def)
  have "filter (\<lambda>row. rev_no row = r \<and> \<not> rev_sealed row) revs = filter (\<lambda>row. rev_no row = r) revs"
    using s by (intro filter_cong) auto
  moreover have "length (filter (\<lambda>row. rev_no row = r) revs) = length (filter (\<lambda>x. x = r) (map rev_no revs))"
    by (induction revs) auto
  moreover have "filter (\<lambda>x. x = r) [1..r] = [r]"
    using r by (intro distinct_singleton_list) auto
  ultimately show "length (filter (\<lambda>row. rev_no row = r \<and> \<not> rev_sealed row) revs) = 1" unfolding n by simp
  show "revisions_ok False r (map (\<lambda>row. if rev_no row = r \<and> \<not> rev_sealed row then row\<lparr>rev_sealed := True\<rparr> else row) revs)"
  proof -
    define f :: "revisionRow \<Rightarrow> revisionRow" where "f = (\<lambda>row. if rev_no row = r \<and> \<not> rev_sealed row then row\<lparr>rev_sealed := True\<rparr> else row)"
    have f: "rev_no (f row) = rev_no row" "rev_ns (f row) = rev_ns row" for row by (simp_all add: f_def)
    have "rev_sealed (f row)" if "row \<in> set revs" for row using s [OF that] by (simp add: f_def)
    then show ?thesis using assms unfolding revisions_ok_def f_def [symmetric] by (simp add: comp_def f)
  qed
qed

lemma seal_runs:
  assumes o: "db_ok True r db" and c: "graph_changed db (r - 1) r"
  obtains db' where "sealRevision r db = Inr (1, db')" "store_ok db'" "current_revision db' = r"
    "db_nodes db' = db_nodes db" "db_edges db' = db_edges db"
    "db_revisions db' = map (\<lambda>row. if rev_no row = r \<and> \<not> rev_sealed row then row\<lparr>rev_sealed := True\<rparr> else row) (db_revisions db)"
proof -
  define db' where "db' = db\<lparr>db_revisions := map (\<lambda>row. if rev_no row = r \<and> \<not> rev_sealed row then row\<lparr>rev_sealed := True\<rparr> else row) (db_revisions db)\<rparr>"
  note s = seal_rows [OF db_okD(1) [OF o]]
  have "sealRevision r db = Inr (1, db')"
    using s(1) no_loose_end [OF o] c by (simp add: sealRevision_def db'_def Let_def)
  moreover have ok: "db_ok False r db'"
    using o s(2) by (simp add: db_ok_def db'_def graph_nodes_def graph_edges_def)
  have m: "max_revision (db_revisions db') = r" using revisions_max [OF db_okD(1) [OF ok]] .
  then have "store_ok db'" using ok by (simp add: store_ok_def)
  moreover from this have "current_revision db' = r" using store_ok_sealed(1) m by simp
  ultimately show thesis using that by (simp add: db'_def)
qed

section \<open>Every outcome of a batch\<close>

definition outcome :: "database \<Rightarrow> WriteTx \<Rightarrow> (derror + WriteResult) \<times> database \<Rightarrow> bool" where
  "outcome db tx res \<longleftrightarrow>
     (case res of (q, db') \<Rightarrow>
        if (node_cols tx, edge_cols tx) = (node_snapshot (current_revision db) db, edge_snapshot (current_revision db) db)
        then q = Inr \<lparr>wr_revision = current_revision db, wr_changed = False, wr_info = None\<rparr> \<and> db' = db
        else q = Inr \<lparr>wr_revision = current_revision db + 1, wr_changed = True, wr_info = tx_info tx\<rparr> \<and>
             store_ok db' \<and> current_revision db' = current_revision db + 1 \<and> tx_revision tx = current_revision db + 1 \<and>
             db_nodes db' = db_nodes (tx_db tx) \<and> db_edges db' = db_edges (tx_db tx) \<and>
             map row_info (db_revisions db') = map row_info (db_revisions db) @ [the (tx_info tx)])"

lemma cols_now:
  assumes "tx_ok tx"
  shows "node_cols tx = node_snapshot (CurrentRevision tx) (tx_db tx)" "edge_cols tx = edge_snapshot (CurrentRevision tx) (tx_db tx)"
  using past_now [OF db_okD(2) [OF tx_ok_db [OF assms]]] past_now [OF db_okD(3) [OF tx_ok_db [OF assms]]]
  by (simp_all add: fun_eq_iff node_cols_def edge_cols_def node_snapshot_def edge_snapshot_def tx_nodes_def tx_edges_def
      graph_nodes_def graph_edges_def)

lemma row_info_seal [simp]: "row_info (row\<lparr>rev_sealed := b\<rparr>) = row_info row"
  by (simp add: row_info_def)

lemma sealed_prefix:
  assumes o: "revisions_ok True r revs"
  shows "revs = filter rev_sealed revs @ [last revs]"
proof -
  have n: "map rev_no revs = [1..r]" and r: "1 \<le> r" using o by (auto simp: revisions_ok_def)
  then have "revs \<noteq> []" by auto
  then obtain rs row where x: "revs = rs @ [row]" by (metis append_butlast_last_id)
  have "[1..r] = [1..r - 1] @ [r]" using upto_rec2 [of 1 r] r by simp
  then have "map rev_no rs @ [rev_no row] = [1..r - 1] @ [r]" using n x by simp
  then have m: "map rev_no rs = [1..r - 1]" "rev_no row = r" by blast+
  have "rev_sealed y" if y: "y \<in> set rs" for y
  proof -
    have "rev_no y \<in> set [1..r - 1]" using y m(1) by (metis image_eqI set_map)
    then have "rev_no y \<noteq> r" by simp
    then show ?thesis using o x y by (auto simp: revisions_ok_def)
  qed
  moreover have "\<not> rev_sealed row" using o x m(2) by (auto simp: revisions_ok_def)
  ultimately show ?thesis by (simp add: x filter_id_conv)
qed

theorem Write_outcome:
  assumes s: "store_ok db" and fn: "fn (begin_tx clock meta db) = (None, tx)" "reaches (begin_tx clock meta db) tx"
    and ok: "tx_failure tx = None"
  shows "outcome db tx (Write clock meta fn db)" "advance (begin_tx clock meta db) tx"
proof -
  let ?b = "current_revision db"
  note b = begin_ok [OF s, of clock meta]
  show a: "advance (begin_tx clock meta db) tx" using reaches_advance [OF fn(2) ok] b(1) by blast
  then have t: "tx_ok tx" "tx_base tx = ?b" using b(2) by (simp_all add: advance_def)
  have past: "node_snapshot ?b (tx_db tx) = node_snapshot ?b db" "edge_snapshot ?b (tx_db tx) = edge_snapshot ?b db"
    using a b(2,4) by (simp_all add: advance_def node_snapshot_def [abs_def] edge_snapshot_def [abs_def])
  have u: "unsealed_count (db_revisions db) = 0" by (rule store_ok_sealed(2) [OF s])
  show "outcome db tx (Write clock meta fn db)"
  proof (cases "tx_revision tx = 0")
    case True
    then have "tx_db tx = db" using a b(4) by (simp add: advance_def)
    then show ?thesis
      using u fn(1) ok True t(2) cols_now [OF t(1)] by (simp add: Write_def outcome_def CurrentRevision_def)
  next
    case False
    then have r: "tx_revision tx = ?b + 1" using t by (simp add: tx_ok_def)
    have o: "db_ok True (?b + 1) (tx_db tx)" using tx_active [OF t(1) r] r False by simp
    have c: "graphChanged tx \<longleftrightarrow> (node_cols tx, edge_cols tx) \<noteq> (node_snapshot ?b db, edge_snapshot ?b db)"
      using graph_changed_iff [OF o] cols_now [OF t(1)] r past False t(2)
      by (auto simp: graphChanged_def CurrentRevision_def)
    show ?thesis
    proof (cases "graphChanged tx")
      case no: False
      then show ?thesis using u fn(1) ok False t(2) c by (simp add: Write_def outcome_def)
    next
      case True
      then have g: "graph_changed (tx_db tx) (?b + 1 - 1) (?b + 1)" using r t(2) by (simp add: graphChanged_def)
      obtain db' where d: "sealRevision (?b + 1) (tx_db tx) = Inr (1, db')" "store_ok db'" "current_revision db' = ?b + 1"
        "db_nodes db' = db_nodes (tx_db tx)" "db_edges db' = db_edges (tx_db tx)"
        "db_revisions db' = map (\<lambda>row. if rev_no row = ?b + 1 \<and> \<not> rev_sealed row then row\<lparr>rev_sealed := True\<rparr> else row)
           (db_revisions (tx_db tx))"
        using seal_runs [OF o g] .
      have "map row_info (db_revisions db') = map row_info (db_revisions (tx_db tx))"
        unfolding d(6) by (simp add: comp_def if_distrib cong: if_cong)
      also have "db_revisions (tx_db tx) = sealed_rows (tx_db tx) @ [last (db_revisions (tx_db tx))]"
        unfolding sealed_rows_def by (rule sealed_prefix [OF db_okD(1) [OF o]])
      also have "sealed_rows (tx_db tx) = db_revisions db"
        using a b(4) store_ok_sealed(3) [OF s] by (simp add: advance_def sealed_rows_def revisions_ok_def filter_id_conv)
      finally have "map row_info (db_revisions db') = map row_info (db_revisions db) @ [the (tx_info tx)]"
        using t(1) False by (simp add: tx_ok_def)
      moreover have "Write clock meta fn db = (Inr \<lparr>wr_revision = ?b + 1, wr_changed = True, wr_info = tx_info tx\<rparr>, db')"
        using u fn(1) ok False True d(1) r by (simp add: Write_def expectOneRow_def is_ok_def)
      ultimately show ?thesis using True c d(2-5) r by (simp add: outcome_def)
    qed
  qed
qed

end
