(* ===== verification/Store_Samples.thy ===== *)
theory Store_Samples
  imports Commit_Facts
begin

text \<open>
  A small store on which the properties are instantiated: the empty database, a transaction on it, and the
  transaction after one node has been created.
\<close>

definition empty_db :: database where
  "empty_db = \<lparr>db_revisions = [], db_nodes = \<lparr>ent_ids = [], ent_versions = []\<rparr>, db_edges = \<lparr>ent_ids = [], ent_versions = []\<rparr>\<rparr>"

definition sample_meta :: RevisionMeta where
  "sample_meta = \<lparr>rm_actor = [], rm_message = [], rm_time = 5\<rparr>"

definition sample_id :: string where
  "sample_id = ''01900000-0000-7000-8000-000000000000''"

definition sample_input :: NodeInput where
  "sample_input = \<lparr>in_id = sample_id, in_labels = [], in_properties = VNull, in_body = []\<rparr>"

definition tx0 :: WriteTx where
  "tx0 = begin_tx 7 sample_meta empty_db"

definition tx1 :: WriteTx where
  "tx1 = snd (CreateNode (Inl PlainError) sample_input tx0)"

definition create_one :: callback where
  "create_one tx = (None, snd (CreateNode (Inl PlainError) sample_input tx))"

lemma empty_ok: "store_ok empty_db" "current_revision empty_db = 0"
proof -
  have "entities_ok 0 (db_nodes empty_db)" "entities_ok 0 (db_edges empty_db)"
    by (simp_all add: entities_ok_def history_ok_def ids_ok_def empty_db_def)
  moreover have "graph_ok (graph_nodes empty_db) (graph_edges empty_db)"
    by (simp add: graph_ok_def one_parent_def child_rel_def empty_db_def graph_edges_def graph_nodes_def now_def view_now_def
        select_current_def acyclic_def)
  ultimately show "store_ok empty_db"
    unfolding store_ok_def db_ok_def by (simp add: empty_db_def max_revision_def revisions_ok_def refs_ok_def)
  show "current_revision empty_db = 0" by (simp add: current_revision_def empty_db_def sealed_revision_def max_revision_def)
qed

lemma tx0_ok: "tx_ok tx0" "tx_base tx0 = 0" "tx_failure tx0 = None" "tx_db tx0 = empty_db"
  using begin_ok [OF empty_ok(1), of 7 sample_meta] empty_ok(2) by (simp_all add: tx0_def)

lemma decode_null_blob: "decodeProperties (ev_of ''null'' []) = Inr VNull"
proof -
  have safe: "\<forall>c \<in> set ''null''. json_safe c" "\<forall>c \<in> set ''k''. json_safe c" by (simp_all add: json_safe_def byte_of_def)
  have "length (json_marshal (ev_of ''null'' [])) = 12"
    by (simp add: ev_of_def json_field_def json_string_def json_chars_safe [OF safe(1)] json_chars_safe [OF safe(2)])
  then have v: "ValidateBytes f (json_marshal (ev_of ''null'' [])) MaxCanonicalPropertyBytes = Inr ()" for f
    by (intro ValidateBytes_ok) (simp add: limit_defs)
  show ?thesis
    unfolding decodeProperties_def v
    by (simp add: validateEncodedIndexBudget_def validateEncodedShape_def
        decodeValue.simps decodeScalar_def ev_of_def limit_defs Let_def)
qed

lemma encode_no_labels: "encodeLabels [] = Inr []"
  by (simp add: encodeLabels_def normalizeLabels_def labels_json_def limit_defs Let_def)

lemma sample_id_ok: "validateID sample_id = Inr ()" "sample_id \<noteq> []"
  by (simp_all add: validateID_def sample_id_def upt_rec)

lemma empty_text: "utf8_valid []" "validateNodeBody [] = Inr ()" "validateRevisionMeta sample_meta = Inr ()"
  by (simp_all add: utf8_valid.simps validateNodeBody_def validateRevisionMeta_def sample_meta_def ValidateText_ok limit_defs)

lemma tx0_allocates: "can_allocate tx0"
  using tx0_ok empty_text(3)
  by (simp add: can_allocate_def requested_time_def last_committed_def empty_db_def zero_time_def in64_def tx0_def begin_tx_def
      sample_meta_def sealed_revision_def max_revision_def)

definition sample_node :: Node where
  "sample_node = \<lparr>node_id = sample_id, node_labels = [], node_properties = VNull, node_body = [], node_from = 1, node_to = None\<rparr>"

lemma create_sample:
  shows "CreateNode (Inl PlainError) sample_input tx0 = (Inr sample_node, tx1)"
  "advance tx0 tx1" "\<exists>d. tx_nodes tx1 = [sample_id \<mapsto> d]" "tx_edges tx1 = Map.empty"
  and create_sample_write: "\<exists>d. tx1 = (allocate tx0)\<lparr>tx_db := add_node 1 sample_id d (tx_db (allocate tx0))\<rparr>"
proof -
  have e: "tx_nodes tx0 = Map.empty" "tx_edges tx0 = Map.empty" "\<not> node_exists tx0 sample_id"
    using tx0_ok(4) by (simp_all add: tx_nodes_def tx_edges_def graph_nodes_def graph_edges_def now_def view_now_def select_current_def
        empty_db_def node_exists_def fun_eq_iff)
  have c: "chosen_id (Inl PlainError) (in_id sample_input) = Inr sample_id" "validateNodeBody (in_body sample_input) = Inr ()"
    "encodeLabels (in_labels sample_input) = Inr []" "encodeProperties (in_properties sample_input) = Inr (ev_of ''null'' [])"
    using sample_id_ok(2) empty_text(2) encode_no_labels encodeProperties_null by (simp_all add: chosen_id_def sample_input_def)
  note r = CreateNode_runs [OF tx0_ok(1) c(1) sample_id_ok(1) c(2-4) decode_null_blob e(3) tx0_allocates]
  show n: "CreateNode (Inl PlainError) sample_input tx0 = (Inr sample_node, tx1)"
    using r(1) tx0_ok(2) by (simp add: tx1_def sample_node_def sample_input_def)
  then show "advance tx0 tx1" "\<exists>d. tx_nodes tx1 = [sample_id \<mapsto> d]" "tx_edges tx1 = Map.empty"
    using r(1) r(2-4) [unfolded e] by auto
  show "\<exists>d. tx1 = (allocate tx0)\<lparr>tx_db := add_node 1 sample_id d (tx_db (allocate tx0))\<rparr>"
    using n r(1) tx0_ok(2) by (auto intro: sym)
qed

lemma tx1_ok: "tx_ok tx1" "can_allocate tx1" "tx_failure tx1 = None" "tx_revision tx1 = 1"
proof -
  show t: "tx_ok tx1" by (rule advance_ok [OF create_sample(2)])
  show "tx_failure tx1 = None" using create_sample(2) tx0_ok(3) by (simp add: advance_def)
  have "tx_db tx1 \<noteq> empty_db"
  proof
    assume "tx_db tx1 = empty_db"
    then have "tx_nodes tx1 = Map.empty"
      by (simp add: tx_nodes_def graph_nodes_def now_def view_now_def select_current_def empty_db_def fun_eq_iff)
    then show False using create_sample(3) by (metis fun_upd_same option.distinct(1))
  qed
  then have "tx_revision tx1 \<noteq> 0" using create_sample(2) tx0_ok(4) by (auto simp: advance_def)
  then show "tx_revision tx1 = 1" "can_allocate tx1"
    using t create_sample(2) tx0_ok(2) by (simp_all add: tx_ok_def advance_def can_allocate_def)
qed

lemma create_one_ok: "is_callback create_one" "create_one tx0 = (None, tx1)" "reaches tx0 tx1"
proof -
  show "is_callback create_one"
    unfolding is_callback_def reaches_def create_one_def using step_CreateNode by (metis prod.collapse r_into_rtranclp snd_conv)
  show "create_one tx0 = (None, tx1)" by (simp add: create_one_def tx1_def)
  then show "reaches tx0 tx1" using \<open>is_callback create_one\<close> unfolding is_callback_def by (metis snd_conv)
qed

end
