(* ===== verification/Graph_Steps.thy ===== *)
theory Graph_Steps
  imports Store_Samples
begin

text \<open>
  The abstract graph that the writer implements: the current nodes and edges with the columns that are stored, and for
  every mutation and its arguments the one step it may take on them.  Each operation of the transaction is shown to take that step.
\<close>

section \<open>Mutations and their steps\<close>

datatype mutation =
    MCreateNode "derror + string" NodeInput
  | MUpdateNode string NodeUpdate
  | MDeleteNode string
  | MCreateEdge "derror + string" EdgeInput
  | MUpdateEdge string EdgeUpdate
  | MDeleteEdge string

text \<open>Running a mutation, and whether it reported success.\<close>

definition perform :: "mutation \<Rightarrow> WriteTx \<Rightarrow> bool \<times> WriteTx" where
  "perform m tx =
     (case m of
        MCreateNode fresh input \<Rightarrow> map_prod is_ok id (CreateNode fresh input tx)
      | MUpdateNode k upd \<Rightarrow> map_prod is_ok id (UpdateNode k upd tx)
      | MDeleteNode k \<Rightarrow> map_prod is_ok id (DeleteNode k tx)
      | MCreateEdge fresh input \<Rightarrow> map_prod is_ok id (CreateEdge fresh input tx)
      | MUpdateEdge k upd \<Rightarrow> map_prod is_ok id (UpdateEdge k upd tx)
      | MDeleteEdge k \<Rightarrow> map_prod is_ok id (DeleteEdge k tx))"

text \<open>The columns of a node: labels, properties, body; of an edge: source, type, target, position, properties.\<close>

type_synonym node_row = "string \<times> string \<times> string"
type_synonym edge_row = "string \<times> string \<times> string \<times> int option \<times> string"
type_synonym graph = "(string \<Rightarrow> node_row option) \<times> (string \<Rightarrow> edge_row option)"

definition stored_graph :: "WriteTx \<Rightarrow> graph" where
  "stored_graph tx = (node_cols tx, edge_cols tx)"

definition is_child :: "(string \<Rightarrow> edge_row option) \<Rightarrow> string \<Rightarrow> string \<Rightarrow> string \<Rightarrow> bool" where
  "is_child E j parent child \<longleftrightarrow> (\<exists>position props. E j = Some (parent, ''CHILD'', child, position, props))"

text \<open>What may stand as edge \<open>k\<close> beside the others.\<close>

definition edge_admitted :: "graph \<Rightarrow> string \<Rightarrow> edge_row \<Rightarrow> bool" where
  "edge_admitted g k r \<longleftrightarrow>
     (case (g, r) of
        ((N, E), (source, kind, target, position, props)) \<Rightarrow>
          N source \<noteq> None \<and> N target \<noteq> None \<and> kind \<noteq> [] \<and> CHR 0x00 \<notin> set kind \<and> (kind = ''CHILD'' \<or> position = None) \<and>
          (kind = ''CHILD'' \<longrightarrow>
             (\<forall>j parent. j \<noteq> k \<longrightarrow> \<not> is_child E j parent target) \<and>
             (target, source) \<notin> {(a, b). \<exists>j. j \<noteq> k \<and> is_child E j a b}\<^sup>*))"

definition encodes_labels :: "string list \<Rightarrow> string \<Rightarrow> bool" where
  "encodes_labels labels column \<longleftrightarrow> (\<exists>out. encodeLabels labels = Inr out \<and> column = labels_json out)"

definition encodes_properties :: "pvalue \<Rightarrow> string \<Rightarrow> bool" where
  "encodes_properties p column \<longleftrightarrow> (\<exists>e. encodeProperties p = Inr e \<and> column = json_marshal e)"

text \<open>An update: a field it sets has the new value, a field it leaves out the column it had.\<close>

definition node_updated :: "NodeUpdate \<Rightarrow> node_row \<Rightarrow> node_row \<Rightarrow> bool" where
  "node_updated upd old new \<longleftrightarrow>
     (case (old, new) of
        ((labels, props, body), (labels', props', body')) \<Rightarrow>
          (case nu_labels upd of None \<Rightarrow> labels' = labels | Some x \<Rightarrow> encodes_labels x labels') \<and>
          (case nu_properties upd of None \<Rightarrow> props' = props | Some x \<Rightarrow> encodes_properties x props') \<and>
          body' = (case nu_body upd of None \<Rightarrow> body | Some x \<Rightarrow> x))"

definition edge_updated :: "EdgeUpdate \<Rightarrow> edge_row \<Rightarrow> edge_row \<Rightarrow> bool" where
  "edge_updated upd old new \<longleftrightarrow>
     (case (old, new) of
        ((source, kind, target, position, props), (source', kind', target', position', props')) \<Rightarrow>
          source' = (case eu_from upd of None \<Rightarrow> source | Some x \<Rightarrow> x) \<and>
          kind' = (case eu_type upd of None \<Rightarrow> kind | Some x \<Rightarrow> x) \<and>
          target' = (case eu_to upd of None \<Rightarrow> target | Some x \<Rightarrow> x) \<and>
          position' = (if eu_set_position upd then eu_position upd else position) \<and>
          (case eu_properties upd of None \<Rightarrow> props' = props | Some x \<Rightarrow> encodes_properties x props'))"

definition incident_row :: "string \<Rightarrow> edge_row \<Rightarrow> bool" where
  "incident_row k r \<longleftrightarrow> (case r of (source, kind, target, position, props) \<Rightarrow> source = k \<or> target = k)"

fun graph_step :: "mutation \<Rightarrow> graph \<Rightarrow> graph \<Rightarrow> bool" where
  "graph_step (MCreateNode fresh input) (N, E) g' \<longleftrightarrow>
     (\<exists>k labels props. chosen_id fresh (in_id input) = Inr k \<and> N k = None \<and>
        encodes_labels (in_labels input) labels \<and> encodes_properties (in_properties input) props \<and>
        g' = (N(k := Some (labels, props, in_body input)), E))"
| "graph_step (MUpdateNode k upd) (N, E) g' \<longleftrightarrow>
     (\<exists>old new. N k = Some old \<and> node_updated upd old new \<and> g' = (N(k := Some new), E))"
| "graph_step (MDeleteNode k) (N, E) g' \<longleftrightarrow>
     N k \<noteq> None \<and> g' = (N(k := None), \<lambda>j. case E j of None \<Rightarrow> None | Some r \<Rightarrow> if incident_row k r then None else Some r)"
| "graph_step (MCreateEdge fresh input) (N, E) g' \<longleftrightarrow>
     (\<exists>k props. chosen_id fresh (ei_id input) = Inr k \<and> E k = None \<and> encodes_properties (ei_properties input) props \<and>
        edge_admitted (N, E) k (ei_from input, ei_type input, ei_to input, ei_position input, props) \<and>
        g' = (N, E(k := Some (ei_from input, ei_type input, ei_to input, ei_position input, props))))"
| "graph_step (MUpdateEdge k upd) (N, E) g' \<longleftrightarrow>
     (\<exists>old new. E k = Some old \<and> edge_updated upd old new \<and> edge_admitted (N, E) k new \<and> g' = (N, E(k := Some new)))"
| "graph_step (MDeleteEdge k) (N, E) g' \<longleftrightarrow> E k \<noteq> None \<and> g' = (N, E(k := None))"

section \<open>Each operation takes its step\<close>

lemma cols_None: "node_cols tx k = None \<longleftrightarrow> tx_nodes tx k = None" "edge_cols tx k = None \<longleftrightarrow> tx_edges tx k = None"
  by (simp_all add: node_cols_def edge_cols_def)

lemma cols_update:
  "tx_nodes tx' = (tx_nodes tx)(k := Some d) \<Longrightarrow> node_cols tx' = (node_cols tx)(k := Some (node_columns d))"
  "tx_edges tx' = (tx_edges tx)(k := Some e) \<Longrightarrow> edge_cols tx' = (edge_cols tx)(k := Some (edge_columns e))"
  "tx_nodes tx' = (tx_nodes tx)(k := None) \<Longrightarrow> node_cols tx' = (node_cols tx)(k := None)"
  "tx_edges tx' = (tx_edges tx)(k := None) \<Longrightarrow> edge_cols tx' = (edge_cols tx)(k := None)"
  "tx_nodes tx' = tx_nodes tx \<Longrightarrow> node_cols tx' = node_cols tx" "tx_edges tx' = tx_edges tx \<Longrightarrow> edge_cols tx' = edge_cols tx"
  by (auto simp: node_cols_def edge_cols_def fun_eq_iff)

lemma cols_child:
  "is_child (edge_cols tx) j a b \<longleftrightarrow> (\<exists>d. tx_edges tx j = Some d \<and> child_edge d \<and> ed_from d = a \<and> ed_to d = b)"
  by (auto simp: is_child_def edge_cols_def edge_columns_def)

lemma fits_admitted:
  assumes "edge_fits (tx_nodes tx) (tx_edges tx) k d"
  shows "edge_admitted (stored_graph tx) k (edge_columns d)"
proof -
  have rel: "{(a, b). \<exists>j. j \<noteq> k \<and> is_child (edge_cols tx) j a b} = child_rel ((tx_edges tx)(k := None))"
    unfolding cols_child child_rel_def by auto
  have "j \<noteq> k \<Longrightarrow> child_edge d \<Longrightarrow> \<not> is_child (edge_cols tx) j a (ed_to d)" for j a
    using assms unfolding cols_child edge_fits_def by blast
  then show ?thesis
    using assms unfolding edge_admitted_def stored_graph_def edge_columns_def prod.case rel
    by (auto simp: edge_fits_def joined_def edge_shape_def cols_None simp del: not_None_eq)
qed

lemma CreateNode_step:
  assumes t: "tx_ok tx" and c: "CreateNode fresh input tx = (Inr n, tx')"
  shows "graph_step (MCreateNode fresh input) (stored_graph tx) (stored_graph tx')"
proof -
  obtain k labels props cloned where g: "chosen_id fresh (in_id input) = Inr k" "validateID k = Inr ()"
    "validateNodeBody (in_body input) = Inr ()" "encodeLabels (in_labels input) = Inr labels"
    "encodeProperties (in_properties input) = Inr props" "decodeProperties props = Inr cloned"
    "\<not> node_exists tx k" "can_allocate tx"
    using CreateNode_guards [OF t c] .
  note r = CreateNode_runs [OF t g]
  define d where "d = \<lparr>nd_labels = labels, nd_properties = props, nd_body = in_body input\<rparr>"
  note r = r [folded d_def]
  have tx': "tx' = (allocate tx)\<lparr>tx_db := add_node (tx_base tx + 1) k d (tx_db (allocate tx))\<rparr>"
    using trans [OF sym [OF c] r(1)] by (rule Pair_inject)
  have "tx_nodes tx k = None"
  proof (rule ccontr)
    assume "tx_nodes tx k \<noteq> None"
    then have "now (db_nodes (tx_db tx)) k \<noteq> None" by (simp add: tx_nodes_def graph_nodes_def)
    from current_identity [OF db_okD(2) [OF tx_ok_db [OF t]] this] show False
      using g(7) unfolding node_exists_def by force
  qed
  moreover have "node_columns d = (labels_json labels, json_marshal props, in_body input)" by (simp add: node_columns_def d_def)
  moreover have "node_cols tx' = (node_cols tx)(k := Some (node_columns d))" "edge_cols tx' = edge_cols tx"
    unfolding tx' by (rule cols_update(1) [OF r(3)], rule cols_update(6) [OF r(4)])
  ultimately show ?thesis using g(1,4,5) unfolding stored_graph_def graph_step.simps encodes_labels_def encodes_properties_def by (auto simp: cols_None)
qed

lemma UpdateNode_step:
  assumes t: "tx_ok tx" and c: "UpdateNode k upd tx = (Inr n', tx')"
  shows "graph_step (MUpdateNode k upd) (stored_graph tx) (stored_graph tx')"
proof -
  obtain n labels props where u: "GetNode k tx = (Inr n, tx)" "encodeLabels (wanted_labels upd n) = Inr labels"
    "encodeProperties (wanted_properties upd n) = Inr props"
    "node_cols tx' = (node_cols tx)(k := Some (labels_json labels, json_marshal props, wanted_body upd n))"
    "tx_edges tx' = tx_edges tx"
    using UpdateNode_effect [OF t c] by metis
  obtain v where v: "select_current (ent_versions (db_nodes (tx_db tx))) k = Some v" "tx_nodes tx k = Some (ver_data v)"
    "node_labels n = nd_labels (ver_data v)" "decodeProperties (nd_properties (ver_data v)) = Inr (node_properties n)"
    "node_body n = nd_body (ver_data v)"
    using GetNode_Inr [OF t u(1)] by metis
  obtain b where b: "encodeLabels (node_labels n) = Inr (node_labels n)" "encodeProperties (node_properties n) = Inr b"
    "json_marshal b = json_marshal (nd_properties (ver_data v))"
    using current_columns [OF t v(1,3,4)] .
  have "node_updated upd (node_columns (ver_data v)) (labels_json labels, json_marshal props, wanted_body upd n)"
    using u(2,3) b v(3,5) unfolding node_updated_def node_columns_def encodes_labels_def encodes_properties_def
    by (auto simp: wanted_labels_def wanted_properties_def wanted_body_def split: option.splits)
  moreover have "node_cols tx k = Some (node_columns (ver_data v))" using v(2) by (simp add: node_cols_def)
  ultimately show ?thesis using u(4) cols_update(6) [OF u(5)] unfolding stored_graph_def graph_step.simps by auto
qed

lemma DeleteNode_step:
  assumes t: "tx_ok tx" and c: "DeleteNode k tx = (Inr u, tx')"
  shows "graph_step (MDeleteNode k) (stored_graph tx) (stored_graph tx')"
proof -
  note e = DeleteNode_effect [OF t c]
  have "edge_cols tx' j = (case edge_cols tx j of None \<Rightarrow> None | Some r \<Rightarrow> if incident_row k r then None else Some r)" for j
    unfolding edge_cols_def e(3) by (auto simp: detached_def incident_row_def edge_columns_def split: option.split)
  then show ?thesis using DeleteNode_guards [OF t c] cols_update(3) [OF e(2)] unfolding stored_graph_def graph_step.simps
    by (auto simp: fun_eq_iff cols_None simp del: not_None_eq)
qed

lemma CreateEdge_step:
  assumes t: "tx_ok tx" and c: "CreateEdge fresh input tx = (Inr e, tx')"
  shows "graph_step (MCreateEdge fresh input) (stored_graph tx) (stored_graph tx')"
proof -
  obtain k props cloned where g: "chosen_id fresh (ei_id input) = Inr k" "validateID k = Inr ()"
    "validateRelationshipType (ei_type input) = Inr ()" "encodeProperties (ei_properties input) = Inr props"
    "decodeProperties props = Inr cloned"
    "validateEdge (tx_db tx) (ei_from input) (ei_type input) (ei_to input) (ei_position input) [] = Inr ()"
    "\<not> edge_exists tx k" "can_allocate tx"
    using CreateEdge_guards [OF t c] .
  note r = CreateEdge_runs [OF t g]
  have tx': "tx' = create_edge_write k (input_edge input props) tx" using trans [OF sym [OF c] r(1)] by (rule Pair_inject)
  have "edge_fits (tx_nodes tx) (tx_edges tx) [] (input_edge input props)"
    using g(6) validateEdge_iff [OF tx_ok_db [OF t], of "input_edge input props" "[]"]
    by (simp add: input_edge_def tx_nodes_def tx_edges_def)
  then have "edge_fits (tx_nodes tx) (tx_edges tx) k (input_edge input props)"
    by (rule refit_edge [OF _ unknown_edge [OF t no_empty_edge [OF t]] unknown_edge [OF t g(7)]])
  from fits_admitted [OF this] have a: "edge_admitted (node_cols tx, edge_cols tx) k (edge_columns (input_edge input props))"
    by (simp add: stored_graph_def)
  have row: "edge_columns (input_edge input props) = (ei_from input, ei_type input, ei_to input, ei_position input, json_marshal props)"
    by (simp add: edge_columns_def input_edge_def)
  have "edge_cols tx' = (edge_cols tx)(k := Some (edge_columns (input_edge input props)))" "node_cols tx' = node_cols tx"
    unfolding tx' by (rule cols_update(2) [OF r(3)], rule cols_update(5) [OF r(4)])
  moreover have "edge_cols tx k = None" using unknown_edge [OF t g(7)] by (simp add: cols_None)
  ultimately show ?thesis using a g(1,4) unfolding stored_graph_def graph_step.simps row encodes_properties_def by blast
qed

lemma UpdateEdge_step:
  assumes t: "tx_ok tx" and c: "UpdateEdge k upd tx = (Inr e', tx')"
  shows "graph_step (MUpdateEdge k upd) (stored_graph tx) (stored_graph tx')"
proof -
  obtain e props where u: "GetEdge k tx = (Inr e, tx)" "encodeProperties (wanted_edge_properties upd e) = Inr props"
    "edge_fits (tx_nodes tx) (tx_edges tx) k (wanted_edge upd e props)"
    "edge_cols tx' = (edge_cols tx)(k := Some (edge_columns (wanted_edge upd e props)))" "tx_nodes tx' = tx_nodes tx"
    using UpdateEdge_effect [OF t c] by metis
  obtain v where v: "tx = tx" "select_current (ent_versions (db_edges (tx_db tx))) k = Some v" "tx_edges tx k = Some (ver_data v)"
    "edge_id e = k" "edge_from e = ver_from v" "edge_source e = ed_from (ver_data v)" "edge_type e = ed_type (ver_data v)"
    "edge_target e = ed_to (ver_data v)" "edge_position e = ed_position (ver_data v)"
    "decodeProperties (ed_properties (ver_data v)) = Inr (edge_properties e)"
    using GetEdge_Inr [OF t u(1)] .
  obtain b where b: "encodeProperties (edge_properties e) = Inr b" "json_marshal b = json_marshal (ed_properties (ver_data v))"
    using decodeProperties_reencode [OF v(10)] .
  have "edge_updated upd (edge_columns (ver_data v)) (edge_columns (wanted_edge upd e props))"
    using u(2) b v(6-9) unfolding edge_updated_def edge_columns_def wanted_edge_def encodes_properties_def
    by (auto simp: wanted_edge_properties_def split: option.splits)
  moreover have "edge_cols tx k = Some (edge_columns (ver_data v))" using v(3) by (simp add: edge_cols_def)
  moreover have "edge_admitted (node_cols tx, edge_cols tx) k (edge_columns (wanted_edge upd e props))"
    using fits_admitted [OF u(3)] by (simp add: stored_graph_def)
  ultimately show ?thesis using u(4) cols_update(5) [OF u(5)] unfolding stored_graph_def graph_step.simps by metis
qed

lemma DeleteEdge_step:
  assumes t: "tx_ok tx" and c: "DeleteEdge k tx = (Inr u, tx')"
  shows "graph_step (MDeleteEdge k) (stored_graph tx) (stored_graph tx')"
proof -
  note e = DeleteEdge_effect [OF t c]
  show ?thesis using DeleteEdge_guards [OF t c] cols_update(4) [OF e(2)] cols_update(5) [OF e(3)]
    unfolding stored_graph_def graph_step.simps by (simp add: cols_None del: not_None_eq)
qed

lemma succeeded:
  assumes "map_prod is_ok id r = (True, tx')"
  obtains x where "r = (Inr x, tx')"
  using assms by (cases r) (auto simp: is_ok_iff)

lemma perform_step:
  assumes t: "tx_ok tx" and p: "perform m tx = (True, tx')"
  shows "graph_step m (stored_graph tx) (stored_graph tx')"
proof (cases m)
  case (MCreateNode fresh input)
  with p have "map_prod is_ok id (CreateNode fresh input tx) = (True, tx')" by (simp add: perform_def)
  from succeeded [OF this] obtain x where "CreateNode fresh input tx = (Inr x, tx')" .
  from CreateNode_step [OF t this] show ?thesis unfolding MCreateNode .
next
  case (MUpdateNode k upd)
  with p have "map_prod is_ok id (UpdateNode k upd tx) = (True, tx')" by (simp add: perform_def)
  from succeeded [OF this] obtain x where "UpdateNode k upd tx = (Inr x, tx')" .
  from UpdateNode_step [OF t this] show ?thesis unfolding MUpdateNode .
next
  case (MDeleteNode k)
  with p have "map_prod is_ok id (DeleteNode k tx) = (True, tx')" by (simp add: perform_def)
  from succeeded [OF this] obtain x where "DeleteNode k tx = (Inr x, tx')" .
  from DeleteNode_step [OF t this] show ?thesis unfolding MDeleteNode .
next
  case (MCreateEdge fresh input)
  with p have "map_prod is_ok id (CreateEdge fresh input tx) = (True, tx')" by (simp add: perform_def)
  from succeeded [OF this] obtain x where "CreateEdge fresh input tx = (Inr x, tx')" .
  from CreateEdge_step [OF t this] show ?thesis unfolding MCreateEdge .
next
  case (MUpdateEdge k upd)
  with p have "map_prod is_ok id (UpdateEdge k upd tx) = (True, tx')" by (simp add: perform_def)
  from succeeded [OF this] obtain x where "UpdateEdge k upd tx = (Inr x, tx')" .
  from UpdateEdge_step [OF t this] show ?thesis unfolding MUpdateEdge .
next
  case (MDeleteEdge k)
  with p have "map_prod is_ok id (DeleteEdge k tx) = (True, tx')" by (simp add: perform_def)
  from succeeded [OF this] obtain x where "DeleteEdge k tx = (Inr x, tx')" .
  from DeleteEdge_step [OF t this] show ?thesis unfolding MDeleteEdge .
qed

end
