(* ===== verification/Store_Properties.thy ===== *)
theory Store_Properties
  imports Graph_Steps
begin

text \<open>
  The properties of the store's writer as theorems about the model of \<open>write.go\<close>, each with an instance on
  the samples.
\<close>

section \<open>What a write may leave\<close>

definition graph_at :: "int \<Rightarrow> database \<Rightarrow> bool" where
  "graph_at n db \<longleftrightarrow> graph_ok (past n (db_nodes db)) (past n (db_edges db))"

text \<open>A store is sound when it is in order and every revision in it is a graph that the store may hold.\<close>

definition store_sound :: "database \<Rightarrow> bool" where
  "store_sound db \<longleftrightarrow> store_ok db \<and> (\<forall>n. 0 \<le> n \<and> n \<le> current_revision db \<longrightarrow> graph_at n db)"

lemma Write_cases:
  assumes s: "store_ok db" and f: "is_callback fn" and w: "Write clock meta fn db = (q, db')"
  obtains (error) e where "q = Inl e" "db' = db"
  | (commit) tx where "fn (begin_tx clock meta db) = (None, tx)" "tx_failure tx = None" "outcome db tx (q, db')"
      "advance (begin_tx clock meta db) tx"
proof (cases "fn (begin_tx clock meta db)")
  case (Pair r tx)
  then have t: "reaches (begin_tx clock meta db) tx" using f unfolding is_callback_def by (metis snd_conv)
  show thesis
  proof (cases "r = None \<and> tx_failure tx = None")
    case True
    then have c: "fn (begin_tx clock meta db) = (None, tx)" "tx_failure tx = None" using Pair by simp_all
    show thesis using commit [OF c] Write_outcome [where fn = fn, OF s c(1) t c(2)] w by simp
  next
    case False
    then show thesis
      using error w Pair store_ok_sealed(2) [OF s] by (auto simp: Write_def split: option.splits)
  qed
qed

lemma outcome_past:
  assumes s: "store_ok db" and o: "outcome db tx (q, db')" and a: "advance (begin_tx clock meta db) tx" and n: "n \<le> current_revision db"
  shows "past n (db_nodes db') = past n (db_nodes db) \<and> past n (db_edges db') = past n (db_edges db)"
proof (cases "db' = db")
  case False
  then have "db_nodes db' = db_nodes (tx_db tx)" "db_edges db' = db_edges (tx_db tx)"
    using o by (auto simp: outcome_def split: if_splits)
  then show ?thesis using a n begin_ok(2,4) [OF s, of clock meta] by (simp add: advance_def)
qed simp

lemma outcome_cases:
  assumes "outcome db tx (q, db')"
  shows "db' = db \<or> store_ok db' \<and> current_revision db' = current_revision db + 1"
  using assms by (auto simp: outcome_def split: if_splits)

text \<open>C2: Whatever callback a Write runs, and whether it commits, is rolled back or fails, every revision that was
  committed before shows exactly the nodes and edges it showed before: history is immutable.\<close>

theorem past_revisions_immutable:
  assumes "store_ok db" "is_callback fn" "Write clock meta fn db = (q, db')" "n \<le> current_revision db"
  shows "node_snapshot n db' = node_snapshot n db \<and> edge_snapshot n db' = edge_snapshot n db"
  using assms(1-3)
proof (cases rule: Write_cases)
  case (commit tx)
  then show ?thesis
    using outcome_past [OF assms(1) commit(3,4) assms(4)] by (simp add: node_snapshot_def [abs_def] edge_snapshot_def [abs_def])
qed simp

lemma past_revisions_immutable_witness:
  "node_snapshot 0 (snd (Write 7 sample_meta create_one empty_db)) = node_snapshot 0 empty_db"
  using past_revisions_immutable [OF empty_ok(1) create_one_ok(1), of 7 sample_meta _ _ 0] empty_ok(2) by (metis order_refl prod.collapse)

text \<open>C1: Every write keeps the store sound: its revisions are numbered without a gap, sealed, and strictly later than
  their predecessors; the intervals of an identity's versions never overlap; every stored label and property
  blob can be read; and in every revision the edges join nodes that exist there, a node has at most one
  CHILD parent, and the CHILD edges form no cycle.\<close>

theorem write_keeps_store_sound:
  assumes s: "store_sound db" and f: "is_callback fn" and w: "Write clock meta fn db = (q, db')"
  shows "store_sound db'"
proof -
  have ok: "store_ok db" using s by (simp add: store_sound_def)
  from ok f w show ?thesis
  proof (cases rule: Write_cases)
    case (commit tx)
    show ?thesis
    proof (cases "db' = db")
      case False
      then have n: "store_ok db'" "current_revision db' = current_revision db + 1" using outcome_cases [OF commit(3)] by simp_all
      note d = store_ok_sealed(4) [OF n(1)]
      have "graph_at (current_revision db') db'"
        using db_okD(5) [OF d] past_now [OF db_okD(2) [OF d]] past_now [OF db_okD(3) [OF d]]
        by (simp add: graph_at_def graph_nodes_def graph_edges_def)
      moreover have "graph_at i db'" if "0 \<le> i" "i \<le> current_revision db" for i
        using outcome_past [OF ok commit(3,4) that(2)] s that by (simp add: store_sound_def graph_at_def)
      ultimately show ?thesis using n unfolding store_sound_def by (metis zle_add1_eq_le order_le_less)
    qed (use s in simp)
  qed (use s in simp)
qed

lemma empty_sound: "store_sound empty_db"
proof -
  note d = store_ok_sealed(4) [OF empty_ok(1), unfolded empty_ok(2)]
  have "graph_at 0 empty_db"
    using db_okD(5) [OF d] past_now [OF db_okD(2) [OF d]] past_now [OF db_okD(3) [OF d]]
    by (simp add: graph_at_def graph_nodes_def graph_edges_def)
  then show ?thesis using empty_ok by (simp add: store_sound_def) (metis order_antisym)
qed

lemma write_keeps_store_sound_witness: "store_sound (snd (Write 7 sample_meta create_one empty_db))"
  using write_keeps_store_sound [OF empty_sound create_one_ok(1)] by (metis prod.collapse)

text \<open>C3: A batch whose callback and mutations all succeed always commits.  If the graph ends as it began, byte for
  byte, no revision appears and the database is as before; otherwise the batch becomes the next revision,
  which shows the graph the callback left.\<close>

theorem write_commits_the_graph:
  assumes s: "store_ok db" and f: "is_callback fn" and c: "fn (begin_tx clock meta db) = (None, tx)" "tx_failure tx = None"
  shows "\<exists>db'. if (node_cols tx, edge_cols tx) = (node_snapshot (current_revision db) db, edge_snapshot (current_revision db) db)
    then Write clock meta fn db = (Inr \<lparr>wr_revision = current_revision db, wr_changed = False, wr_info = None\<rparr>, db)
    else Write clock meta fn db = (Inr \<lparr>wr_revision = current_revision db + 1, wr_changed = True, wr_info = tx_info tx\<rparr>, db') \<and>
      current_revision db' = current_revision db + 1 \<and>
      node_snapshot (current_revision db') db' = node_cols tx \<and> edge_snapshot (current_revision db') db' = edge_cols tx"
proof -
  have "reaches (begin_tx clock meta db) tx" using f c(1) unfolding is_callback_def by (metis snd_conv)
  note w = Write_outcome [where fn = fn, OF s c(1) this c(2)]
  obtain q db' where q: "Write clock meta fn db = (q, db')" by (cases "Write clock meta fn db")
  have t: "tx_ok tx" using w(2) advance_ok by blast
  have "node_cols tx = node_snapshot (current_revision db') db' \<and> edge_cols tx = edge_snapshot (current_revision db') db'"
    if "db_nodes db' = db_nodes (tx_db tx)" "db_edges db' = db_edges (tx_db tx)" "current_revision db' = current_revision db + 1"
      "tx_revision tx = current_revision db + 1"
  proof -
    have "0 \<le> current_revision db" using store_ok_sealed(3) [OF s] by (simp add: revisions_ok_def)
    then show ?thesis
      using cols_now [OF t] that by (simp add: CurrentRevision_def node_snapshot_def [abs_def] edge_snapshot_def [abs_def])
  qed
  note snap = this
  show ?thesis
  proof (cases "(node_cols tx, edge_cols tx) = (node_snapshot (current_revision db) db, edge_snapshot (current_revision db) db)")
    case True
    then show ?thesis using w(1) q by (simp add: outcome_def)
  next
    case False
    then have o: "q = Inr \<lparr>wr_revision = current_revision db + 1, wr_changed = True, wr_info = tx_info tx\<rparr>"
      "current_revision db' = current_revision db + 1" "tx_revision tx = current_revision db + 1"
      "db_nodes db' = db_nodes (tx_db tx)" "db_edges db' = db_edges (tx_db tx)"
      using w(1) unfolding q outcome_def prod.case if_not_P [OF False] by simp_all
    then show ?thesis unfolding if_not_P [OF False] using q snap [OF o(4,5,2,3)] by (intro exI [of _ db']) simp
  qed
qed

lemma sample_changed: "(node_cols tx1, edge_cols tx1) \<noteq> (node_snapshot 0 empty_db, edge_snapshot 0 empty_db)"
proof -
  have "node_cols tx1 sample_id \<noteq> None" using create_sample(3) by (auto simp: node_cols_def)
  moreover have "node_snapshot 0 empty_db sample_id = None"
    by (simp add: node_snapshot_def past_def view_at_def select_at_def empty_db_def)
  ultimately show ?thesis by auto
qed

lemma sample_callback: "create_one (begin_tx 7 sample_meta empty_db) = (None, tx1)"
  using create_one_ok(2) by (simp add: tx0_def)

lemma sample_write:
  "\<exists>db'. Write 7 sample_meta create_one empty_db =
     (Inr \<lparr>wr_revision = 1, wr_changed = True, wr_info = tx_info tx1\<rparr>, db')"
proof -
  have "reaches (begin_tx 7 sample_meta empty_db) tx1" using create_one_ok(3) by (simp add: tx0_def)
  from Write_outcome(1) [where fn = create_one, OF empty_ok(1) sample_callback this tx1_ok(3)] show ?thesis
    using sample_changed empty_ok(2) by (cases "Write 7 sample_meta create_one empty_db") (simp add: outcome_def)
qed

lemma write_commits_the_graph_witness:
  "\<exists>db'. Write 7 sample_meta create_one empty_db =
     (Inr \<lparr>wr_revision = 1, wr_changed = True, wr_info = tx_info tx1\<rparr>, db')"
  using write_commits_the_graph [OF empty_ok(1) create_one_ok(1) sample_callback tx1_ok(3)] sample_changed empty_ok(2) by auto

section \<open>Failures\<close>

inductive failed_mutation :: "WriteTx \<Rightarrow> derror \<Rightarrow> WriteTx \<Rightarrow> bool" where
  fail_CreateNode: "CreateNode fresh input tx = (Inl e, tx') \<Longrightarrow> failed_mutation tx e tx'"
| fail_UpdateNode: "UpdateNode k upd tx = (Inl e, tx') \<Longrightarrow> failed_mutation tx e tx'"
| fail_DeleteNode: "DeleteNode k tx = (Inl e, tx') \<Longrightarrow> failed_mutation tx e tx'"
| fail_CreateEdge: "CreateEdge fresh einput tx = (Inl e, tx') \<Longrightarrow> failed_mutation tx e tx'"
| fail_UpdateEdge: "UpdateEdge k eupd tx = (Inl e, tx') \<Longrightarrow> failed_mutation tx e tx'"
| fail_DeleteEdge: "DeleteEdge k tx = (Inl e, tx') \<Longrightarrow> failed_mutation tx e tx'"

lemma record_failure:
  assumes "keeps_failure m" "recordMutationFailure m tx = (q, tx')"
  shows "tx_failure tx = Some e \<Longrightarrow> tx_failure tx' = Some e"
    and "q = Inl e \<Longrightarrow> tx_failure tx = None \<Longrightarrow> tx_failure tx' = Some e"
proof -
  obtain p t where m: "m tx = (p, t)" by (cases "m tx")
  then have "tx_failure t = tx_failure tx" using assms(1) unfolding keeps_failure_def by (metis snd_conv)
  then show "tx_failure tx = Some e \<Longrightarrow> tx_failure tx' = Some e"
    "q = Inl e \<Longrightarrow> tx_failure tx = None \<Longrightarrow> tx_failure tx' = Some e"
    using assms(2) m by (auto simp: recordMutationFailure_def split: sum.splits)
qed

lemmas mutation_defs = CreateNode_def UpdateNode_def DeleteNode_def CreateEdge_def UpdateEdge_def DeleteEdge_def

lemma mutation_records:
  "failed_mutation tx e tx' \<Longrightarrow> tx_failure tx = None \<Longrightarrow> tx_failure tx' = Some e"
  by (induction rule: failed_mutation.induct; unfold mutation_defs; erule record_failure(2) [rotated]; (intro keeps refl)?; assumption?)

lemma step_keeps_failure:
  assumes "tx_step tx tx'" "tx_failure tx = Some e"
  shows "tx_failure tx' = Some e"
  using assms
proof (induction rule: tx_step.induct)
  case (step_CreateNode fresh input tx q tx')
  from step_CreateNode(1) [unfolded CreateNode_def] step_CreateNode(2) show ?case by (rule record_failure(1) [rotated]) (intro keeps)+
next
  case (step_UpdateNode k upd tx q tx')
  from step_UpdateNode(1) [unfolded UpdateNode_def] step_UpdateNode(2) show ?case by (rule record_failure(1) [rotated]) (intro keeps)+
next
  case (step_DeleteNode k tx q tx')
  from step_DeleteNode(1) [unfolded DeleteNode_def] step_DeleteNode(2) show ?case by (rule record_failure(1) [rotated]) (intro keeps)+
next
  case (step_CreateEdge fresh input tx q tx')
  from step_CreateEdge(1) [unfolded CreateEdge_def] step_CreateEdge(2) show ?case by (rule record_failure(1) [rotated]) (intro keeps)+
next
  case (step_UpdateEdge k upd tx q tx')
  from step_UpdateEdge(1) [unfolded UpdateEdge_def] step_UpdateEdge(2) show ?case by (rule record_failure(1) [rotated]) (intro keeps)+
next
  case (step_DeleteEdge k tx q tx')
  from step_DeleteEdge(1) [unfolded DeleteEdge_def] step_DeleteEdge(2) show ?case by (rule record_failure(1) [rotated]) (intro keeps)+
qed (auto dest: reads_same)

lemma reaches_keeps_failure: "reaches tx tx' \<Longrightarrow> tx_failure tx = Some e \<Longrightarrow> tx_failure tx' = Some e"
  unfolding reaches_def by (induction rule: rtranclp_induct) (auto intro: step_keeps_failure)

text \<open>C8: A callback that ignores the error of a mutation cannot commit: the first mutation that fails poisons the
  batch, and Write returns that error and leaves the database as it was.\<close>

theorem failed_mutation_discards_batch:
  assumes s: "store_ok db" and c: "fn (begin_tx clock meta db) = (None, tx)"
    and r: "tx_failure ta = None" "failed_mutation ta e tb" "reaches tb tx"
  shows "Write clock meta fn db = (Inl e, db)"
proof -
  have "tx_failure tx = Some e" by (rule reaches_keeps_failure [OF r(3) mutation_records [OF r(2,1)]])
  then show ?thesis using c store_ok_sealed(2) [OF s] by (simp add: Write_def)
qed

lemma failed_mutation_discards_batch_witness:
  "Write 7 sample_meta (\<lambda>tx. (None, snd (DeleteNode [] tx))) empty_db = (Inl ErrNotFound, empty_db)"
proof -
  have "tx_nodes tx0 [] = None" using tx0_ok(4)
    by (simp add: tx_nodes_def graph_nodes_def now_def view_now_def select_current_def empty_db_def)
  from GetNode_missing [OF tx0_ok(1) this]
  have d: "DeleteNode [] tx0 = (Inl ErrNotFound, snd (DeleteNode [] tx0))"
    by (simp add: DeleteNode_def recordMutationFailure_def bindT_def)
  show ?thesis
    by (rule failed_mutation_discards_batch [OF empty_ok(1) _ tx0_ok(3) fail_DeleteNode [OF d]])
      (unfold tx0_def reaches_def, rule refl, rule rtranclp.rtrancl_refl)
qed

section \<open>The operations on the graph\<close>

lemma CreateNode_graph:
  assumes t: "tx_ok tx" and c: "CreateNode fresh input tx = (Inr n, tx')"
  obtains d where "tx_nodes tx' = (tx_nodes tx)(node_id n := Some d)" "tx_edges tx' = tx_edges tx"
    "n = \<lparr>node_id = node_id n, node_labels = nd_labels d, node_properties = node_properties n, node_body = nd_body d,
          node_from = tx_base tx + 1, node_to = None\<rparr>"
    "decodeProperties (nd_properties d) = Inr (node_properties n)" "tx_nodes tx (node_id n) = None" "advance tx tx'"
proof -
  obtain k labels props cloned where g: "chosen_id fresh (in_id input) = Inr k" "validateID k = Inr ()"
    "validateNodeBody (in_body input) = Inr ()" "encodeLabels (in_labels input) = Inr labels"
    "encodeProperties (in_properties input) = Inr props" "decodeProperties props = Inr cloned"
    "\<not> node_exists tx k" "can_allocate tx"
    using CreateNode_guards [OF t c] .
  note r = CreateNode_runs [OF t g]
  have "tx_nodes tx k = None"
  proof (rule ccontr)
    assume "tx_nodes tx k \<noteq> None"
    then have "now (db_nodes (tx_db tx)) k \<noteq> None" by (simp add: tx_nodes_def graph_nodes_def)
    from current_identity [OF db_okD(2) [OF tx_ok_db [OF t]] this] show False
      using g(7) unfolding node_exists_def by force
  qed
  moreover define d where "d = \<lparr>nd_labels = labels, nd_properties = props, nd_body = in_body input\<rparr>"
  note r = r [folded d_def]
  have n0: "Inr n = (Inr \<lparr>node_id = k, node_labels = labels, node_properties = cloned, node_body = in_body input,
      node_from = tx_base tx + 1, node_to = None\<rparr> :: derror + Node)"
    and e: "tx' = (allocate tx)\<lparr>tx_db := add_node (tx_base tx + 1) k d (tx_db (allocate tx))\<rparr>"
    by (rule Pair_inject [OF trans [OF sym [OF c] r(1)]], assumption)+
  have n: "n = \<lparr>node_id = k, node_labels = labels, node_properties = cloned, node_body = in_body input,
      node_from = tx_base tx + 1, node_to = None\<rparr>" by (rule sum.inject(2) [THEN iffD1, OF n0])
  have f: "node_id n = k" "nd_labels d = labels" "nd_body d = in_body input" "nd_properties d = props" "node_properties n = cloned"
    by (simp_all add: n d_def)
  ultimately show thesis
    using r(2-4) g(6) n by (intro that [of d]) (simp_all only: e f)
qed

text \<open>C4: The writer refines the abstract graph.  A mutation that succeeds in a transaction does to the stored columns of the current
  nodes and edges exactly the step of that operation with those arguments: a create puts a row under a free identifier
  with the encoded input in every column; an update replaces the named row alone, each field it sets by the new value,
  each field it leaves out kept as stored; deleting a node removes it and exactly its incident edges; deleting an edge
  removes it alone.  An edge that is created or updated joins current nodes, has a type, a position only when it is a
  CHILD, and as a CHILD is the only one into its target and closes no cycle.\<close>

theorem operations_refine_graph:
  assumes "tx_ok tx" "perform m tx = (True, tx')"
  shows "graph_step m (stored_graph tx) (stored_graph tx')"
  using assms by (rule perform_step)

lemma operations_refine_graph_witness:
  "graph_step (MCreateNode (Inl PlainError) sample_input) (stored_graph tx0) (stored_graph tx1)"
  by (rule operations_refine_graph [OF tx0_ok(1)]) (simp add: perform_def create_sample(1))

text \<open>C5: CreateEdge accepts an edge exactly when its type, identifier and properties are admissible, its source and
  target are current nodes, a CHILD edge gives its target no second parent and closes no cycle, the identifier is new
  and a revision can be allocated.  Of the schema the model has, and the theorem covers, the checks on the shape of type
  and position, unique identifiers, the history of versions, the active revision, endpoints, single parents and cycles:
  none of these rejects what the Go code lets through.  The model leaves out, so the theorem says nothing of, the
  schema's checks of storage classes, of the JSON of the properties and the kinds of value in it, its byte and nesting
  limits on identifiers, types and properties (migrations 004 and 005), and the tables of the derived property index.\<close>

theorem create_edge_accepts:
  assumes t: "tx_ok tx"
  shows "(\<exists>e tx'. CreateEdge fresh input tx = (Inr e, tx')) \<longleftrightarrow>
    (\<exists>k props. chosen_id fresh (ei_id input) = Inr k \<and> validateID k = Inr () \<and> ei_from input \<noteq> [] \<and> ei_to input \<noteq> [] \<and>
       validateRelationshipType (ei_type input) = Inr () \<and> encodeProperties (ei_properties input) = Inr props \<and>
       is_ok (decodeProperties props) \<and> edge_fits (tx_nodes tx) (tx_edges tx) k (input_edge input props) \<and>
       \<not> edge_exists tx k \<and> can_allocate tx)" (is "?run \<longleftrightarrow> ?admissible")
proof
  assume ?run
  then obtain e tx' where c: "CreateEdge fresh input tx = (Inr e, tx')" by blast
  obtain k props cloned where g: "chosen_id fresh (ei_id input) = Inr k" "validateID k = Inr ()"
    "validateRelationshipType (ei_type input) = Inr ()" "encodeProperties (ei_properties input) = Inr props"
    "decodeProperties props = Inr cloned"
    "validateEdge (tx_db tx) (ei_from input) (ei_type input) (ei_to input) (ei_position input) [] = Inr ()"
    "\<not> edge_exists tx k" "can_allocate tx"
    using CreateEdge_guards [OF t c] .
  have v: "ei_from input \<noteq> []" "ei_to input \<noteq> []" "edge_fits (tx_nodes tx) (tx_edges tx) [] (input_edge input props)"
    using g(6) validateEdge_iff [OF tx_ok_db [OF t], of "input_edge input props" "[]"]
    by (simp_all add: input_edge_def tx_nodes_def tx_edges_def)
  have "edge_fits (tx_nodes tx) (tx_edges tx) k (input_edge input props)"
    by (rule refit_edge [OF v(3) unknown_edge [OF t no_empty_edge [OF t]] unknown_edge [OF t g(7)]])
  then show ?admissible using g v(1,2) by (auto simp: is_ok_iff)
next
  assume ?admissible
  then obtain k props cloned where g: "chosen_id fresh (ei_id input) = Inr k" "validateID k = Inr ()" "ei_from input \<noteq> []"
    "ei_to input \<noteq> []" "validateRelationshipType (ei_type input) = Inr ()" "encodeProperties (ei_properties input) = Inr props"
    "decodeProperties props = Inr cloned" "edge_fits (tx_nodes tx) (tx_edges tx) k (input_edge input props)"
    "\<not> edge_exists tx k" "can_allocate tx"
    by (auto simp: is_ok_iff)
  have "edge_fits (tx_nodes tx) (tx_edges tx) [] (input_edge input props)"
    by (rule refit_edge [OF g(8) unknown_edge [OF t g(9)] unknown_edge [OF t no_empty_edge [OF t]]])
  then have "validateEdge (tx_db tx) (ei_from input) (ei_type input) (ei_to input) (ei_position input) [] = Inr ()"
    using validateEdge_iff [OF tx_ok_db [OF t], of "input_edge input props" "[]"] g(3-5)
    by (simp add: input_edge_def tx_nodes_def tx_edges_def)
  from CreateEdge_runs(1) [OF t g(1,2,5,6,7) this g(9,10)] show ?run by blast
qed

lemma link_type: "validateRelationshipType ''LINK'' = Inr ()"
proof -
  have "\<forall>c \<in> set ''LINK''. json_safe c" by (simp add: json_safe_def byte_of_def)
  then have "utf8_valid ''LINK''" by (rule utf8_safe)
  then show ?thesis by (simp add: validateRelationshipType_def invalid_argument_def ValidateTextWithoutNUL_ok limit_defs)
qed

lemma no_edges_yet: "tx_edges tx1 = Map.empty" "\<not> edge_exists tx1 k"
proof -
  show "tx_edges tx1 = Map.empty" by (rule create_sample(4))
  have "db_edges (tx_db tx1) = db_edges (tx_db tx0)"
  proof -
    obtain d where d: "tx1 = (allocate tx0)\<lparr>tx_db := add_node 1 sample_id d (tx_db (allocate tx0))\<rparr>"
      using create_sample_write by blast
    show ?thesis unfolding d using allocate_advance(4) [OF tx0_ok(1)] by (simp add: add_node_def put_node_def node_identity_def)
  qed
  then show "\<not> edge_exists tx1 k" using tx0_ok(4) by (simp add: edge_exists_def empty_db_def)
qed

lemma create_edge_accepts_witness:
  "\<exists>e tx'. CreateEdge (Inl PlainError) \<lparr>ei_id = sample_id, ei_from = sample_id, ei_type = ''LINK'', ei_to = sample_id,
      ei_position = None, ei_properties = VNull\<rparr> tx1 = (Inr e, tx')"
proof -
  have "edge_fits (tx_nodes tx1) (tx_edges tx1) sample_id \<lparr>ed_from = sample_id, ed_type = ''LINK'', ed_to = sample_id,
      ed_position = None, ed_properties = ev_of ''null'' []\<rparr>"
    using create_sample(3) by (auto simp: edge_fits_def joined_def edge_shape_def)
  then show ?thesis
    unfolding create_edge_accepts [OF tx1_ok(1)]
    using sample_id_ok encodeProperties_null decode_null_blob tx1_ok(2) no_edges_yet(2) link_type
    by (auto simp: chosen_id_def input_edge_def is_ok_def)
qed

lemma fresh_row:
  assumes o: "db_ok True r db" and k: "k \<notin> fst ` set (ent_ids (db_nodes db))" "k \<noteq> []"
    and v: "select_current (ent_versions (db_nodes (add_node r k d db))) k = Some v"
  shows "ver_from v = r"
proof -
  let ?new = "\<lparr>ver_id = k, ver_from = r, ver_to = None, ver_data = d\<rparr>"
  have s: "set (ent_versions (db_nodes (add_node r k d db))) = insert ?new (set (ent_versions (db_nodes db)))"
    using create_entity(6) [OF db_okD(2) [OF o] db_ok_pos [OF o] k, of d] by (simp add: add_node_def put_node_def node_identity_def)
  have "v \<in> set (ent_versions (db_nodes (add_node r k d db)))" "ver_id v = k"
    using find_SomeD [OF v [unfolded select_current_def]] by simp_all
  then have "v = ?new" using s fresh_rows [OF db_okD(2) [OF o] k(1)] by blast
  then show ?thesis by (metis version.select_convs(2))
qed

lemma created_row_from:
  assumes t: "tx_ok tx" and c: "CreateNode fresh input tx = (Inr n, tx')"
    and v: "select_current (ent_versions (db_nodes (tx_db tx'))) (node_id n) = Some v"
  shows "ver_from v = tx_base tx + 1"
proof -
  obtain k labels props cloned where g: "chosen_id fresh (in_id input) = Inr k" "validateID k = Inr ()"
    "validateNodeBody (in_body input) = Inr ()" "encodeLabels (in_labels input) = Inr labels"
    "encodeProperties (in_properties input) = Inr props" "decodeProperties props = Inr cloned"
    "\<not> node_exists tx k" "can_allocate tx"
    using CreateNode_guards [OF t c] .
  define d where "d = \<lparr>nd_labels = labels, nd_properties = props, nd_body = in_body input\<rparr>"
  have e: "node_id n = k" "tx_db tx' = add_node (tx_base tx + 1) k d (tx_db (allocate tx))"
    using CreateNode_runs(1) [OF t g] c by (auto simp: d_def)
  have "k \<notin> fst ` set (ent_ids (db_nodes (tx_db (allocate tx))))"
    using g(7) allocate_advance(3) [OF t] by (simp add: node_exists_def)
  from fresh_row [OF allocated [OF t] this validateID_not_empty [OF g(2)]] v show ?thesis by (simp add: e)
qed

lemma UpdateNode_same:
  assumes t: "tx_ok tx" and n: "GetNode k tx = (Inr n, tx)" and w: "wanted_labels upd n = node_labels n"
    "wanted_properties upd n = node_properties n" "wanted_body upd n = node_body n" "validateNodeBody (node_body n) = Inr ()"
  shows "UpdateNode k upd tx = (Inr n, tx)"
proof -
  obtain v where v: "select_current (ent_versions (db_nodes (tx_db tx))) k = Some v"
    and s: "node_id n = k" "node_from n = ver_from v" "node_labels n = nd_labels (ver_data v)"
      "decodeProperties (nd_properties (ver_data v)) = Inr (node_properties n)" "node_body n = nd_body (ver_data v)"
    using GetNode_Inr [OF t n] by metis
  obtain b where b: "encodeLabels (node_labels n) = Inr (node_labels n)" "encodeProperties (node_properties n) = Inr b"
    "json_marshal b = json_marshal (nd_properties (ver_data v))"
    using current_columns [OF t v s(3,4)] .
  have e: "validateNodeBody (wanted_body upd n) = Inr ()" "encodeLabels (wanted_labels upd n) = Inr (node_labels n)"
    "encodeProperties (wanted_properties upd n) = Inr b" using b w by simp_all
  show ?thesis
    by (rule UpdateNode_unfold(1) [OF t n e v s]) (use b(3) w(3) s(3,5) in \<open>simp add: node_columns_def\<close>)
qed

lemma created_reads_back:
  assumes t: "tx_ok tx" and c: "CreateNode fresh input tx = (Inr n, tx')"
  shows "GetNode (node_id n) tx' = (Inr n, tx')"
proof -
  obtain d where d: "tx_nodes tx' = (tx_nodes tx)(node_id n := Some d)"
    "n = \<lparr>node_id = node_id n, node_labels = nd_labels d, node_properties = node_properties n, node_body = nd_body d,
          node_from = tx_base tx + 1, node_to = None\<rparr>"
    "decodeProperties (nd_properties d) = Inr (node_properties n)" "advance tx tx'"
    using CreateNode_graph [OF t c] by metis
  have t': "tx_ok tx'" using d(4) advance_ok by blast
  obtain m where m: "GetNode (node_id n) tx' = (Inr m, tx')" using GetNode_runs [OF t'] d(1) by (metis fun_upd_same)
  obtain v where v: "select_current (ent_versions (db_nodes (tx_db tx'))) (node_id n) = Some v" "tx_nodes tx' (node_id n) = Some (ver_data v)"
    "node_id m = node_id n" "node_from m = ver_from v" "node_labels m = nd_labels (ver_data v)"
    "decodeProperties (nd_properties (ver_data v)) = Inr (node_properties m)" "node_body m = nd_body (ver_data v)"
    using GetNode_Inr [OF t' m] by metis
  have e: "ver_data v = d" using v(2) d(1) by simp
  note row = current_row [OF db_okD(2) [OF tx_ok_db [OF t']] v(1)]
  have "node_to m = None"
  proof -
    obtain labels props where "m = \<lparr>node_id = ver_id v, node_labels = labels, node_properties = props,
        node_body = nd_body (ver_data v), node_from = ver_from v, node_to = ver_to v\<rparr>"
      using m v(1) unfolding GetNode_def bindT_Inr_iff checkActive_Inr_iff readT_Inr_iff
      by (auto simp: scanNode_def bindE_Inr_iff)
    then show ?thesis using row(3) by simp
  qed
  moreover have "ver_from v = tx_base tx + 1"
    using created_row_from [OF t c v(1)] .
  moreover have "node_labels n = nd_labels d" "node_body n = nd_body d" "node_from n = tx_base tx + 1" "node_to n = None"
    using arg_cong [OF d(2), of node_labels] arg_cong [OF d(2), of node_body] arg_cong [OF d(2), of node_from]
      arg_cong [OF d(2), of node_to] by (simp_all only: Node.select_convs)
  ultimately have "m = n" using v(3-7) d(3) e by (intro Node.equality) simp_all
  then show ?thesis using m by simp
qed

text \<open>C9: UpdateNode replaces the fields it is given and keeps the others, touches no other node and no edge, and an
  update that asks for what the node already holds, byte for byte, writes nothing and allocates no revision.\<close>

theorem update_node_replaces:
  assumes t: "tx_ok tx" and c: "UpdateNode k upd tx = (Inr n', tx')"
  shows "\<exists>n labels props. GetNode k tx = (Inr n, tx) \<and> encodeLabels (wanted_labels upd n) = Inr labels \<and>
    encodeProperties (wanted_properties upd n) = Inr props \<and>
    node_cols tx' = (node_cols tx)(k := Some (labels_json labels, json_marshal props, wanted_body upd n)) \<and>
    tx_edges tx' = tx_edges tx \<and> (node_cols tx' = node_cols tx \<longrightarrow> tx' = tx)"
  using UpdateNode_effect [OF t c] by metis

lemma update_node_replaces_witness:
  "\<exists>n'. UpdateNode sample_id \<lparr>nu_labels = None, nu_properties = None, nu_body = None\<rparr> tx1 = (Inr n', tx1) \<and>
     node_cols tx1 sample_id = Some (labels_json [], json_marshal (ev_of ''null'' []), [])"
proof -
  let ?u = "\<lparr>nu_labels = None, nu_properties = None, nu_body = None\<rparr> :: NodeUpdate"
  note g = created_reads_back [OF tx0_ok(1) create_sample(1)]
  have f: "node_id sample_node = sample_id" "node_labels sample_node = []" "node_properties sample_node = VNull" "node_body sample_node = []"
    by (simp_all add: sample_node_def)
  have w: "wanted_labels ?u sample_node = []" "wanted_properties ?u sample_node = VNull" "wanted_body ?u sample_node = []"
    by (simp_all add: wanted_labels_def wanted_properties_def wanted_body_def f)
  obtain n' tx' where c: "UpdateNode sample_id ?u tx1 = (Inr n', tx')" "tx' = tx1"
    using UpdateNode_same [OF tx1_ok(1) g [unfolded f(1)], of ?u] f w empty_text(2) by force
  from update_node_replaces [OF tx1_ok(1) c(1)] obtain n labels props where u: "GetNode sample_id tx1 = (Inr n, tx1)"
    "encodeLabels (wanted_labels ?u n) = Inr labels" "encodeProperties (wanted_properties ?u n) = Inr props"
    "node_cols tx' = (node_cols tx1)(sample_id := Some (labels_json labels, json_marshal props, wanted_body ?u n))"
    by blast
  have "n = sample_node" using u(1) g [unfolded f(1)] by simp
  then have "labels = []" "props = ev_of ''null'' []" using u(2,3) w encode_no_labels encodeProperties_null by simp_all
  then show ?thesis using u(4) c w \<open>n = sample_node\<close> by (metis fun_upd_same)
qed

text \<open>C12: A node that CreateNode reports is the node that GetNode reads afterwards in the same transaction.\<close>

theorem read_your_writes:
  assumes "tx_ok tx" "CreateNode fresh input tx = (Inr n, tx')"
  shows "GetNode (node_id n) tx' = (Inr n, tx')"
  using assms by (rule created_reads_back)

lemma read_your_writes_witness: "GetNode sample_id tx1 = (Inr sample_node, tx1)"
  using read_your_writes [OF tx0_ok(1) create_sample(1)] by (simp add: sample_node_def)

text \<open>C7: DeleteNode of a current node always succeeds when a revision can be allocated, removes the node and every
  edge that starts or ends at it, and nothing else.\<close>

theorem delete_node_cascades:
  assumes "tx_ok tx" "tx_nodes tx k \<noteq> None" "can_allocate tx"
  shows "\<exists>tx'. DeleteNode k tx = (Inr (), tx') \<and> tx_nodes tx' = (tx_nodes tx)(k := None) \<and>
    (\<forall>j. tx_edges tx' j = (case tx_edges tx j of None \<Rightarrow> None
        | Some d \<Rightarrow> if ed_from d = k \<or> ed_to d = k then None else Some d))"
proof -
  obtain d where "tx_nodes tx k = Some d" using assms(2) by auto
  from DeleteNode_runs [OF assms(1) this assms(3)] obtain tx' where
    "DeleteNode k tx = (Inr (), tx')" "tx_nodes tx' = (tx_nodes tx)(k := None)" "tx_edges tx' = detached k (tx_edges tx)" .
  then show ?thesis by (intro exI [of _ tx']) (simp add: detached_def)
qed

lemma delete_node_cascades_witness: "\<exists>tx'. DeleteNode sample_id tx1 = (Inr (), tx') \<and> tx_nodes tx' = Map.empty"
proof -
  obtain d where d: "tx_nodes tx1 = [sample_id \<mapsto> d]" using create_sample(3) by blast
  then have "tx_nodes tx1 sample_id \<noteq> None" by simp
  from delete_node_cascades [OF tx1_ok(1) this tx1_ok(2)] obtain tx' where
    "DeleteNode sample_id tx1 = (Inr (), tx')" "tx_nodes tx' = (tx_nodes tx1)(sample_id := None)" by blast
  then show ?thesis unfolding d by (intro exI [of _ tx']) (simp add: fun_eq_iff)
qed

text \<open>C6: The breadth-first search of childPathExists, in batches of 400 sources, terminates and answers exactly
  whether a chain of current CHILD edges, one edge left out, leads from the start to the goal.\<close>

theorem child_search_exact:
  assumes "db_ok act r db"
  shows "pathExists 400 (child_pairs db exclude) start goal \<longleftrightarrow>
    (start, goal) \<in> {(ed_from d, ed_to d) | j d. j \<noteq> exclude \<and> graph_edges db j = Some d \<and> ed_type d = ''CHILD''}\<^sup>*"
proof -
  have "set (child_pairs db exclude) = {(ed_from d, ed_to d) | j d. j \<noteq> exclude \<and> graph_edges db j = Some d \<and> ed_type d = ''CHILD''}"
    unfolding child_pairs_set [OF assms] child_rel_def by (auto split: if_splits)
  then show ?thesis by (simp add: pathExists_iff)
qed

lemma child_search_exact_witness: "\<not> pathExists 400 (child_pairs empty_db []) ''a'' ''b''"
proof -
  have "graph_edges empty_db j = None" for j
    by (simp add: graph_edges_def now_def view_now_def select_current_def empty_db_def)
  then have e: "{(ed_from d, ed_to d) | j d. j \<noteq> [] \<and> graph_edges empty_db j = Some d \<and> ed_type d = ''CHILD''} = {}" by simp
  show ?thesis unfolding child_search_exact [OF store_ok_sealed(4) [OF empty_ok(1)]] e by simp
qed

text \<open>C10: A committed batch reports the revision it added: the next number, the actor and message of its metadata,
  and a time later than that of every revision before it; the earlier entries of the history stay as they are.\<close>

theorem revision_metadata:
  assumes s: "store_ok db" and f: "is_callback fn" and w: "Write clock meta fn db = (Inr res, db')" "wr_changed res"
  shows "\<exists>i. wr_info res = Some i \<and> wr_revision res = ri_revision i \<and> ri_revision i = current_revision db + 1 \<and>
    ri_actor i = rm_actor meta \<and> ri_message i = rm_message meta \<and> (\<forall>row \<in> set (db_revisions db). rev_ns row < ri_time i) \<and>
    map row_info (db_revisions db') = map row_info (db_revisions db) @ [i]"
  using s f w(1)
proof (cases rule: Write_cases)
  case (commit tx)
  have o: "Inr res = (Inr \<lparr>wr_revision = current_revision db + 1, wr_changed = True, wr_info = tx_info tx\<rparr> :: derror + WriteResult)"
    "store_ok db'" "current_revision db' = current_revision db + 1" "tx_revision tx = current_revision db + 1"
    "map row_info (db_revisions db') = map row_info (db_revisions db) @ [the (tx_info tx)]"
    using commit(3) w(2) by (auto simp: outcome_def split: if_splits)
  have t: "tx_ok tx" "tx_meta tx = meta" using commit(4) by (simp_all add: advance_def begin_tx_def)
  have "0 \<le> current_revision db" using store_ok_sealed(3) [OF s] by (simp add: revisions_ok_def)
  then have r: "tx_revision tx \<noteq> 0" using o(4) by simp
  then obtain row where row: "tx_info tx = Some (row_info row)" "rev_actor row = rm_actor meta" "rev_message row = rm_message meta"
    "row = last (db_revisions (tx_db tx))" using t by (simp add: tx_ok_def)
  have d: "db_ok True (tx_revision tx) (tx_db tx)" by (rule tx_active [OF t(1) refl r])
  have "rev_no row = tx_revision tx"
  proof -
    have "map rev_no (db_revisions (tx_db tx)) = [1..tx_revision tx]" "1 \<le> tx_revision tx"
      using db_okD(1) [OF d] by (simp_all add: revisions_ok_def)
    then show ?thesis unfolding row(4) using last_map [of "db_revisions (tx_db tx)" rev_no] upto_rec2 [of 1 "tx_revision tx"]
      by (metis last_snoc list.map_disc_iff snoc_eq_iff_butlast)
  qed
  moreover have "rev_ns x < rev_ns row" if x: "x \<in> set (db_revisions db)" for x
  proof -
    have "map ri_time (map row_info (db_revisions db')) = map rev_ns (db_revisions db')" by (simp add: row_info_def comp_def)
    then have "map rev_ns (db_revisions db') = map rev_ns (db_revisions db) @ [rev_ns row]"
      unfolding o(5) row(1) by (simp add: row_info_def comp_def)
    moreover have "sorted_wrt (<) (map rev_ns (db_revisions db'))" using store_ok_sealed(3) [OF o(2)] by (simp add: revisions_ok_def)
    ultimately show ?thesis using x by (simp add: sorted_wrt_append)
  qed
  ultimately show ?thesis using o row(1-3) by (intro exI [of _ "row_info row"]) (simp add: row_info_def)
qed simp

lemma revision_metadata_witness:
  "\<exists>i. tx_info tx1 = Some i \<and> ri_revision i = 1"
proof -
  obtain db' where w: "Write 7 sample_meta create_one empty_db = (Inr \<lparr>wr_revision = 1, wr_changed = True, wr_info = tx_info tx1\<rparr>, db')"
    using sample_write by blast
  from revision_metadata [OF empty_ok(1) create_one_ok(1) w] show ?thesis using empty_ok(2) by auto
qed

end
