(* ===== verification/UUID.thy ===== *)
theory UUID
  imports Store_Write "HOL-Library.Word"
begin

text \<open>
  Entity identifiers: \<open>newUUIDv7\<close> and \<open>incrementUUIDv7Payload\<close> of \<open>internal/store/write.go\<close>.  The sixteen
  bytes are words of eight bits.  The clock reading and the ten random bytes, or the error of the random
  source, are arguments; the package variable \<open>uuidV7State\<close>, which a mutex guards, is passed along.
\<close>

unbundle bit_operations_syntax

section \<open>The code\<close>

type_synonym byte = "8 word"

record uuidV7State =
  uuid_last :: "byte list"
  uuid_set :: bool

text \<open>The loop over the bytes after the variant byte.\<close>

fun carryBytes :: "nat list \<Rightarrow> byte list \<Rightarrow> bool \<times> byte list" where
  "carryBytes [] bs = (False, bs)"
| "carryBytes (index # rest) bs =
     (let bs = bs[index := bs ! index + 1] in if bs ! index \<noteq> 0 then (True, bs) else carryBytes rest bs)"

text \<open>The loop over the bytes before it; the sum is kept in sixteen bits.\<close>

fun carryMasked :: "nat list \<Rightarrow> byte list \<Rightarrow> bool \<times> byte list" where
  "carryMasked [] bs = (False, bs)"
| "carryMasked (index # rest) bs =
     (let limitMask = (if index = 6 then 0x0f else 0xff) :: byte;
          value = (ucast (bs ! index AND limitMask) :: 16 word) + 1;
          bs = bs[index := (bs ! index AND NOT limitMask) OR ucast (value AND ucast limitMask)]
      in if value \<le> ucast limitMask then (True, bs) else carryMasked rest bs)"

declare carryBytes.simps [simp del] carryMasked.simps [simp del]

definition incrementUUIDv7Payload :: "byte list \<Rightarrow> bool \<times> byte list" where
  "incrementUUIDv7Payload bs =
     (case carryBytes [15, 14, 13, 12, 11, 10, 9] bs of
        (True, bs) \<Rightarrow> (True, bs)
      | (False, bs) \<Rightarrow>
          let low = (bs ! 8 AND 0x3f) + 1;
              bs = bs[8 := (bs ! 8 AND 0xc0) OR (low AND 0x3f)]
          in if low \<le> 0x3f then (True, bs)
             else carryMasked [7, 6] (bs[8 := bs ! 8 AND 0xc0]))"

definition lastMillis :: "uuidV7State \<Rightarrow> 64 word" where
  "lastMillis st =
     (if uuid_set st
      then push_bit 40 (ucast (uuid_last st ! 0)) OR push_bit 32 (ucast (uuid_last st ! 1)) OR
           push_bit 24 (ucast (uuid_last st ! 2)) OR push_bit 16 (ucast (uuid_last st ! 3)) OR
           push_bit 8 (ucast (uuid_last st ! 4)) OR ucast (uuid_last st ! 5)
      else 0)"

definition hexEncode :: "byte list \<Rightarrow> string" where
  "hexEncode bs = concat (map (\<lambda>b. [hex_digit (unat b div 16), hex_digit (unat b mod 16)]) bs)"

definition uuidText :: "byte list \<Rightarrow> string" where
  "uuidText bs =
     hexEncode (take 4 bs) @ ''-'' @ hexEncode (take 2 (drop 4 bs)) @ ''-'' @ hexEncode (take 2 (drop 6 bs)) @ ''-'' @
     hexEncode (take 2 (drop 8 bs)) @ ''-'' @ hexEncode (drop 10 bs)"

text \<open>The bytes and the time stamp before the version and variant are set.\<close>

definition uuidSeed :: "64 word \<Rightarrow> derror + byte list \<Rightarrow> uuidV7State \<Rightarrow> derror + 64 word \<times> byte list" where
  "uuidSeed now drawn st =
     (let bs = replicate 16 0
      in if uuid_set st \<and> now \<le> lastMillis st
         then case incrementUUIDv7Payload (uuid_last st) of
                (False, bs) \<Rightarrow> bindE drawn (\<lambda>random. Inr (lastMillis st + 1, take 6 bs @ random))
              | (True, bs) \<Rightarrow> Inr (lastMillis st, bs)
         else bindE drawn (\<lambda>random. Inr (now, take 6 bs @ random)))"

definition uuidStamp :: "64 word \<Rightarrow> byte list \<Rightarrow> byte list" where
  "uuidStamp millis bs =
     (let bs = bs[0 := ucast (drop_bit 40 millis), 1 := ucast (drop_bit 32 millis), 2 := ucast (drop_bit 24 millis),
                  3 := ucast (drop_bit 16 millis), 4 := ucast (drop_bit 8 millis), 5 := ucast millis]
      in bs[6 := (bs ! 6 AND 0x0f) OR 0x70, 8 := (bs ! 8 AND 0x3f) OR 0x80])"

definition newUUIDv7 :: "64 word \<Rightarrow> derror + byte list \<Rightarrow> uuidV7State \<Rightarrow> (derror + string) \<times> uuidV7State" where
  "newUUIDv7 now drawn st =
     (case uuidSeed now drawn st of
        Inl e \<Rightarrow> (Inl e, st)
      | Inr (millis, bs) \<Rightarrow>
          let bs = uuidStamp millis bs in (Inr (uuidText bs), \<lparr>uuid_last = bs, uuid_set = True\<rparr>))"

section \<open>Bytes as digits\<close>

definition be_nat :: "byte list \<Rightarrow> nat" where
  "be_nat bs = foldl (\<lambda>n b. n * 256 + unat b) 0 bs"

lemma unat_byte: "unat (b :: byte) < 256"
  using unsigned_less [of b] by simp

lemma be_nat_simps [simp]: "be_nat [] = 0" "be_nat (bs @ [b]) = be_nat bs * 256 + unat b"
  by (simp_all add: be_nat_def)

lemma be_nat_append: "be_nat (bs @ cs) = be_nat bs * 256 ^ length cs + be_nat cs"
  by (induction cs rule: rev_induct) (simp_all add: algebra_simps flip: append_assoc)

lemma be_nat_bound: "be_nat bs < 256 ^ length bs"
proof (induction bs rule: rev_induct)
  case (snoc b bs)
  have "be_nat bs * 256 + 256 \<le> 256 ^ length bs * 256" using snoc by simp
  moreover note unat_byte [of b]
  ultimately have "be_nat bs * 256 + unat b < 256 ^ length bs * 256" by linarith
  then show ?case by simp
qed simp

lemma be_nat_zeros: "list_all (\<lambda>b. b = 0) bs \<Longrightarrow> be_nat bs = 0"
  by (induction bs rule: rev_induct) simp_all

text \<open>Big-endian order is lexicographic order.\<close>

lemma be_nat_less:
  assumes "length bs = length cs"
  shows "bs < cs \<longleftrightarrow> be_nat bs < be_nat cs"
  using assms
proof (induction bs cs rule: list_induct2)
  case (Cons b bs c cs)
  have e: "be_nat (x # xs) = unat x * 256 ^ length xs + be_nat xs" for x xs using be_nat_append [of "[x]" xs] by (simp add: be_nat_def)
  let ?w = "256 ^ length bs :: nat"
  have bound: "be_nat bs < ?w" "be_nat cs < ?w" using be_nat_bound [of bs] be_nat_bound [of cs] Cons.hyps by simp_all
  consider "unat b < unat c" | "b = c" | "unat c < unat b" by (metis linorder_neqE_nat word_unat_eq_iff)
  then show ?case
  proof cases
    case 1
    then have "(unat b + 1) * ?w \<le> unat c * ?w" by (intro mult_le_mono1) simp
    then show ?thesis using 1 bound Cons.hyps by (auto simp: e word_less_nat_alt algebra_simps)
  next
    case 2
    then show ?thesis using Cons by (simp add: e)
  next
    case 3
    then have "(unat c + 1) * ?w \<le> unat b * ?w" by (intro mult_le_mono1) simp
    then show ?thesis using 3 bound Cons.hyps by (auto simp: e word_less_nat_alt algebra_simps)
  qed
qed simp

section \<open>Bit fields of a byte\<close>

lemma unat_or_disjoint: "a AND b = 0 \<Longrightarrow> unat (a OR b) = unat a + unat (b :: byte)"
  by (metis disjunctive_add_eq_or unsigned_0 unsigned_and_eq unsigned_or_eq)

lemma unat_low: "unat ((b :: byte) AND mask n) = unat b mod 2 ^ n"
  by (simp add: unsigned_take_bit_eq flip: take_bit_eq_mask take_bit_eq_mod)

lemma unat_high: "unat ((b :: byte) AND NOT (mask n)) = unat b div 2 ^ n * 2 ^ n"
proof -
  have d: "(b AND NOT (mask n)) AND (b AND mask n) = 0" by (simp add: bit_eq_iff bit_simps)
  have "(b AND NOT (mask n)) OR (b AND mask n) = b" by (auto simp: bit_eq_iff bit_simps)
  then have "unat b = unat (b AND NOT (mask n)) + unat b mod 2 ^ n" using unat_or_disjoint [OF d] unat_low by metis
  then show ?thesis by (simp add: minus_mod_eq_div_mult [symmetric])
qed

lemma masks: "(0x3f :: byte) = mask 6" "(0x0f :: byte) = mask 4" "(0xc0 :: byte) = NOT (mask 6)" "(0xff :: byte) = mask 8"
  by (simp_all add: mask_eq_exp_minus_1)

lemma unat_field: "unat (((a :: byte) AND NOT (mask n)) OR (b AND mask n)) = unat a div 2 ^ n * 2 ^ n + unat b mod 2 ^ n"
proof -
  have "(a AND NOT (mask n)) AND (b AND mask n) = 0" by (simp add: bit_eq_iff bit_simps)
  then show ?thesis by (simp add: unat_or_disjoint unat_low unat_high)
qed

lemma unat_plus_one: "unat ((b :: byte) + 1) = (unat b + 1) mod 256"
  by (simp add: unat_word_ariths)

lemma variant_field:
  fixes b :: byte
  shows "unat (b AND 0x3f) = unat b mod 64"
  "unat ((b AND 0xc0) OR ((b AND 0x3f) + 1 AND 0x3f)) = unat b div 64 * 64 + (unat b + 1) mod 64"
  "(b AND 0x3f) + 1 \<le> 0x3f \<longleftrightarrow> unat b mod 64 < 63"
  "unat (b AND 0xc0) = unat b div 64 * 64"
  "unat ((b AND 0x3f) OR 0x80) = 128 + unat b mod 64"
proof -
  have m: "unat b mod 64 < 64" by simp
  show l: "unat (b AND 0x3f) = unat b mod 64" "unat (b AND 0xc0) = unat b div 64 * 64"
    by (simp_all add: masks unat_low unat_high)
  have s: "unat ((b AND 0x3f) + 1) = unat b mod 64 + 1" unfolding unat_plus_one l using m by simp
  show "(b AND 0x3f) + 1 \<le> 0x3f \<longleftrightarrow> unat b mod 64 < 63"
    unfolding word_le_nat_alt s by (simp add: less_Suc_eq_le [symmetric])
  show "unat ((b AND 0xc0) OR ((b AND 0x3f) + 1 AND 0x3f)) = unat b div 64 * 64 + (unat b + 1) mod 64"
    using unat_field [of b 6 "(b AND 0x3f) + 1"] s by (simp add: masks mod_Suc_eq)
  have "(b AND 0x3f) AND 0x80 = 0" by (simp add: and.assoc)
  then show "unat ((b AND 0x3f) OR 0x80) = 128 + unat b mod 64" by (simp add: unat_or_disjoint l)
qed

lemma version_field:
  fixes b :: byte
  shows "unat (b AND 0x0f) = unat b mod 16"
  "unat ((b AND NOT 0x0f) OR ((b AND 0x0f) + 1 AND 0x0f)) = unat b div 16 * 16 + (unat b + 1) mod 16"
  "unat ((b AND 0x0f) OR 0x70) = 112 + unat b mod 16"
proof -
  have m: "unat b mod 16 < 16" by simp
  show l: "unat (b AND 0x0f) = unat b mod 16" by (simp add: masks unat_low)
  have s: "unat ((b AND 0x0f) + 1) = unat b mod 16 + 1" unfolding unat_plus_one l using m by simp
  show "unat ((b AND NOT 0x0f) OR ((b AND 0x0f) + 1 AND 0x0f)) = unat b div 16 * 16 + (unat b + 1) mod 16"
    using unat_field [of b 4 "(b AND 0x0f) + 1"] s by (simp add: masks mod_Suc_eq)
  have "(b AND 0x0f) AND 0x70 = 0" by (simp add: and.assoc)
  then show "unat ((b AND 0x0f) OR 0x70) = 112 + unat b mod 16" by (simp add: unat_or_disjoint l)
qed

text \<open>A sum of sixteen bits that keeps the carry.\<close>

lemma wide_sum:
  fixes x m :: byte
  shows "unat ((ucast x :: 16 word) + 1) = unat x + 1"
    and "ucast (((ucast x :: 16 word) + 1) AND ucast m) = (x + 1) AND m"
    and "(ucast x :: 16 word) + 1 \<le> ucast m \<longleftrightarrow> unat x < unat m"
proof -
  note b = unat_byte [of x] unat_byte [of m]
  show s: "unat ((ucast x :: 16 word) + 1) = unat x + 1"
    using b by (simp add: unat_word_ariths unsigned_ucast_eq take_bit_eq_mod)
  show "(ucast x :: 16 word) + 1 \<le> ucast m \<longleftrightarrow> unat x < unat m"
    using b unfolding word_le_nat_alt s by (simp add: unsigned_ucast_eq take_bit_eq_mod Suc_le_eq)
  have "unat (ucast ((ucast x :: 16 word) + 1) :: byte) = unat (x + 1)"
    using b by (simp add: unsigned_ucast_eq unat_word_ariths take_bit_eq_mod)
  moreover have "unat (ucast (ucast m :: 16 word) :: byte) = unat m"
    by (simp add: unsigned_ucast_eq take_bit_word_eq_self)
  ultimately have "ucast ((ucast x :: 16 word) + 1) = x + 1" "ucast (ucast m :: 16 word) = m"
    by (simp_all add: word_unat_eq_iff)
  then show "ucast (((ucast x :: 16 word) + 1) AND ucast m) = (x + 1) AND m" by (simp add: unsigned_and_eq)
qed

lemma full_field:
  "(b :: byte) AND 0xff = b" "((b :: byte) AND NOT 0xff) OR (b + 1 AND 0xff) = b + 1"
  by (simp_all add: masks bit_eq_iff bit_simps)
section \<open>The counter\<close>

lemma carryBytes_props:
  assumes "carryBytes (rev [m..<n]) bs = (found, cs)" "m \<le> n" "n \<le> length bs"
  shows "length cs = length bs \<and> take m cs = take m bs \<and> drop n cs = drop n bs \<and>
    be_nat (take (n - m) (drop m cs)) = (be_nat (take (n - m) (drop m bs)) + 1) mod 256 ^ (n - m) \<and>
    (found \<longleftrightarrow> be_nat (take (n - m) (drop m bs)) + 1 < 256 ^ (n - m))"
  using assms
proof (induction n arbitrary: bs)
  case (Suc n)
  show ?case
  proof (cases "m \<le> n")
    case m: True
    define k where "k = n - m"
    define b where "b = bs ! n"
    define bs1 where "bs1 = bs[n := b + 1]"
    have e: "carryBytes (rev [m..<Suc n]) bs = (if b + 1 \<noteq> 0 then (True, bs1) else carryBytes (rev [m..<n]) bs1)"
      using m Suc.prems(3) by (simp add: carryBytes.simps b_def bs1_def Let_def)
    have sn: "take (Suc n - m) (drop m xs) = take k (drop m xs) @ [xs ! n]" if "length xs = length bs" for xs :: "byte list"
      using m Suc.prems(3) that by (simp add: k_def Suc_diff_le take_Suc_conv_app_nth)
    define x where "x = be_nat (take k (drop m bs))"
    have x: "x < 256 ^ k" using be_nat_bound [of "take k (drop m bs)"] m Suc.prems(3) by (simp add: x_def k_def)
    have b1: "be_nat (take k (drop m bs1)) = x" using m by (simp add: bs1_def x_def k_def take_drop drop_update_cancel)
    have v: "be_nat (take (Suc n - m) (drop m bs)) = x * 256 + unat b" by (simp add: sn x_def b_def)
    have sk: "Suc n - m = Suc k" using m by (simp add: k_def Suc_diff_le)
    show ?thesis
    proof (cases "b + 1 = 0")
      case False
      then have "unat (b + 1) \<noteq> 0" by (metis unsigned_0 word_unat_eq_iff)
      then have "unat b + 1 \<noteq> 256" using unat_plus_one [of b] by auto
      then have "unat b + 1 < 256" using unat_byte [of b] by linarith
      then have u: "unat (b + 1) = unat b + 1" "unat b + 1 < 256" using unat_plus_one [of b] by simp_all
      have c: "found" "cs = bs1" using Suc.prems(1) e False by simp_all
      have "be_nat (take (Suc n - m) (drop m cs)) = x * 256 + unat b + 1"
        using sn [of bs1] Suc.prems(3) b1 u by (simp add: c bs1_def)
      moreover have "x * 256 + unat b + 1 < 256 ^ Suc k" using x u by simp
      moreover have "length cs = length bs" "take m cs = take m bs" "drop (Suc n) cs = drop (Suc n) bs"
        using m by (simp_all add: c bs1_def)
      ultimately show ?thesis using c(1) v unfolding sk by simp
    next
      case True
      then have "unat (b + 1) = 0" by simp
      then have "\<not> unat b + 1 < 256" using unat_plus_one [of b] mod_less [of "unat b + 1" 256] by linarith
      then have u: "unat b = 255" using unat_byte [of b] by linarith
      have c: "carryBytes (rev [m..<n]) bs1 = (found, cs)" using Suc.prems(1) e True by simp
      have "length bs1 = length bs" by (simp add: bs1_def)
      with Suc.IH [OF c m] Suc.prems(3) have ih: "length cs = length bs" "take m cs = take m bs1" "drop n cs = drop n bs1"
        "be_nat (take k (drop m cs)) = (x + 1) mod 256 ^ k" "found \<longleftrightarrow> x + 1 < 256 ^ k"
        by (simp_all add: b1 flip: k_def)
      have "cs ! n = 0" using arg_cong [OF ih(3), of hd] ih(1) Suc.prems(3) True by (simp add: hd_drop_conv_nth bs1_def)
      then have "be_nat (take (Suc n - m) (drop m cs)) = (x + 1) mod 256 ^ k * 256" using sn [OF ih(1)] ih(4) by simp
      moreover have "drop (Suc n) cs = drop (Suc n) bs" 
      proof -
        have s: "drop (Suc n) ys = drop 1 (drop n ys)" for ys :: "byte list" by simp
        show ?thesis unfolding s [of cs] ih(3) s [of bs1, symmetric] by (simp add: bs1_def)
      qed
      moreover have "take m cs = take m bs" using ih(2) m by (simp add: bs1_def)
      moreover have "(x * 256 + 255 + 1) mod 256 ^ Suc k = (x + 1) mod 256 ^ k * 256"
        using mod_mult_mult2 [of "x + 1" 256 "256 ^ k"] by (simp add: algebra_simps)
      moreover have "found \<longleftrightarrow> x * 256 + 255 + 1 < 256 ^ Suc k" unfolding ih(5) power_Suc by presburger
      ultimately show ?thesis using ih(1) v u unfolding sk by simp
    qed
  next
    case False
    then have "m = Suc n" using Suc.prems(2) by simp
    then show ?thesis using Suc.prems(1) by (simp add: carryBytes.simps)
  qed
qed (simp add: carryBytes.simps)

text \<open>The counter has 74 bits: four of byte 6, byte 7, six of byte 8 and bytes 9 to 15.\<close>

definition payload :: "byte list \<Rightarrow> nat" where
  "payload bs = (((unat (bs ! 6) mod 16 * 256 + unat (bs ! 7)) * 64 + unat (bs ! 8) mod 64) * 256 ^ 7) + be_nat (drop 9 bs)"

lemma payload_bound:
  assumes "length bs = 16"
  shows "payload bs < 2 ^ 74"
proof -
  have "be_nat (drop 9 bs) < 256 ^ 7" using be_nat_bound [of "drop 9 bs"] assms by simp
  moreover have "unat (bs ! 6) mod 16 \<le> 15" "unat (bs ! 8) mod 64 \<le> 63" by (simp_all add: less_Suc_eq_le [symmetric])
  moreover have "unat (bs ! 7) < 256" by (rule unat_byte)
  ultimately show ?thesis unfolding payload_def by simp
qed

lemma mod_pair:
  assumes "a < n" "b < (m :: nat)"
  shows "(a * m + b + 1) mod (n * m) = (if b + 1 < m then a * m + b + 1 else (a + 1) mod n * m)"
proof (cases "b + 1 < m")
  case True
  have "(a + 1) * m \<le> n * m" using assms(1) by (intro mult_le_mono1) simp
  then have "a * m + b + 1 < n * m" using True by (simp add: algebra_simps)
  then show ?thesis unfolding if_P [OF True] by (rule mod_less)
next
  case False
  then have "b + 1 = m" using assms(2) by linarith
  then have e: "a * m + b + 1 = (a + 1) * m" by (simp add: algebra_simps)
  show ?thesis unfolding if_not_P [OF False] e by (rule mod_mult_mult2)
qed

lemma carryMasked_props:
  assumes l: "length bs = 16" and c: "carryMasked [7, 6] bs = (found, cs)"
  shows "length cs = 16" "take 6 cs = take 6 bs" "drop 8 cs = drop 8 bs"
    "unat (cs ! 6) div 16 = unat (bs ! 6) div 16"
    "unat (cs ! 6) mod 16 * 256 + unat (cs ! 7) = (unat (bs ! 6) mod 16 * 256 + unat (bs ! 7) + 1) mod 4096"
    "found \<longleftrightarrow> unat (bs ! 6) mod 16 * 256 + unat (bs ! 7) + 1 < 4096"
proof -
  define b6 b7 where "b6 = bs ! 6" and "b7 = bs ! 7"
  define n6 where "n6 = (b6 AND NOT 0x0f) OR ((b6 AND 0x0f) + 1 AND 0x0f)"
  have m: "ucast ((ucast x :: 16 word) + 1 AND 15) = (x + 1) AND (15 :: byte)" "ucast ((ucast x :: 16 word) + 1 AND 255) = (x + 1 :: byte)" for x :: byte
    using wide_sum(2) [of x 15] wide_sum(2) [of x 255] by (simp_all add: full_field(1))
  have n: "(x AND - 256) OR y = y" for x y :: byte
  proof -
    have z: "(- 256 :: byte) = 0" by code_simp
    show ?thesis unfolding z by simp
  qed
  have e: "carryMasked [7, 6] bs = (if unat b7 < 255 then (True, bs[7 := b7 + 1])
      else (unat b6 mod 16 < 15, bs[7 := b7 + 1, 6 := n6]))"
    using l by (simp add: carryMasked.simps Let_def m n wide_sum full_field version_field b6_def b7_def n6_def)
  have u6: "unat n6 = unat b6 div 16 * 16 + (unat b6 + 1) mod 16" unfolding n6_def by (rule version_field)
  have u7: "unat (b7 + 1) = (unat b7 + 1) mod 256" by (rule unat_plus_one)
  have bounds: "unat b6 < 256" "unat b7 < 256" by (rule unat_byte)+
  show "length cs = 16" "take 6 cs = take 6 bs" "drop 8 cs = drop 8 bs"
    using c l unfolding e by (auto split: if_splits)
  have v: "cs ! 7 = b7 + 1" "cs ! 6 = (if unat b7 < 255 then b6 else n6)"
    using c l unfolding e by (auto split: if_splits simp: b6_def)
  show "unat (cs ! 6) div 16 = unat (bs ! 6) div 16" unfolding v by (simp add: u6 b6_def)
  show "unat (cs ! 6) mod 16 * 256 + unat (cs ! 7) = (unat (bs ! 6) mod 16 * 256 + unat (bs ! 7) + 1) mod 4096"
  proof -
    have n: "unat n6 mod 16 = (unat b6 mod 16 + 1) mod 16" unfolding u6 by (simp add: mod_Suc_eq)
    have "unat b7 < 255 \<or> unat b7 = 255" using bounds(2) by linarith
    then show ?thesis
      using mod_pair [of "unat b6 mod 16" 16 "unat b7" 256] bounds(2) n
      unfolding v u7 b6_def [symmetric] b7_def [symmetric] by auto
  qed
  show "found \<longleftrightarrow> unat (bs ! 6) mod 16 * 256 + unat (bs ! 7) + 1 < 4096"
  proof (cases "unat b7 < 255")
    case True
    then have "unat b6 mod 16 * 256 + unat b7 + 1 < 4096" using pos_mod_bound [of 16 "int (unat b6)"] by linarith
    then show ?thesis using c True unfolding e b6_def [symmetric] b7_def [symmetric] by simp
  next
    case False
    then have "unat b7 = 255" using bounds(2) by linarith
    then show ?thesis using c unfolding e b6_def [symmetric] b7_def [symmetric] by auto
  qed
qed

text \<open>A well-formed identifier: sixteen bytes with version 7 and variant 2.\<close>

definition uuid_bytes :: "byte list \<Rightarrow> bool" where
  "uuid_bytes bs \<longleftrightarrow> length bs = 16 \<and> unat (bs ! 6) div 16 = 7 \<and> unat (bs ! 8) div 64 = 2"

lemma increment_props:
  assumes l: "length bs = 16" and c: "incrementUUIDv7Payload bs = (found, cs)"
  shows "length cs = 16 \<and> take 6 cs = take 6 bs \<and> unat (cs ! 6) div 16 = unat (bs ! 6) div 16 \<and>
    unat (cs ! 8) div 64 = unat (bs ! 8) div 64 \<and> payload cs = (payload bs + 1) mod 2 ^ 74 \<and> (found \<longleftrightarrow> payload bs + 1 < 2 ^ 74)"
proof -
  define high mid tail where "high = unat (bs ! 6) mod 16 * 256 + unat (bs ! 7)" and "mid = unat (bs ! 8) mod 64"
    and "tail = be_nat (drop 9 bs)"
  have p: "payload bs = (high * 64 + mid) * 256 ^ 7 + tail" by (simp add: payload_def high_def mid_def tail_def)
  have b: "high < 4096" "mid < 64" "tail < 256 ^ 7"
    using unat_byte [of "bs ! 7"] be_nat_bound [of "drop 9 bs"] l by (auto simp: high_def mid_def tail_def)
  obtain f1 cs1 where c1: "carryBytes [15, 14, 13, 12, 11, 10, 9] bs = (f1, cs1)" by force
  have "carryBytes (rev [9..<16]) bs = (f1, cs1)" unfolding c1 [symmetric] by (simp add: upt_rec)
  from carryBytes_props [OF this] l have t: "length cs1 = 16" "take 9 cs1 = take 9 bs"
    "be_nat (drop 9 cs1) = (tail + 1) mod 256 ^ 7" "f1 \<longleftrightarrow> tail + 1 < 256 ^ 7"
    by (auto simp: tail_def)
  have same: "cs1 ! i = bs ! i" if "i < 9" for i using t(2) that by (metis nth_take)
  show ?thesis
  proof (cases "tail + 1 < 256 ^ 7")
    case True
    then have "cs = cs1" "found" using c t(4) by (simp_all add: incrementUUIDv7Payload_def c1)
    moreover have "payload cs1 = payload bs + 1"
      unfolding p payload_def t(3) same [of 6, simplified] same [of 7, simplified] same [of 8, simplified]
      using True by (simp add: high_def mid_def tail_def)
    moreover have "take 6 cs1 = take 6 bs" using arg_cong [OF t(2), of "take 6"] by simp
    moreover have "payload bs + 1 < 2 ^ 74" unfolding p using b True by simp
    ultimately show ?thesis using t(1) same [of 6] same [of 8] by simp
  next
    case False
    define low where "low = (cs1 ! 8 AND 0x3f) + 1"
    define cs2 where "cs2 = cs1[8 := (cs1 ! 8 AND 0xc0) OR (low AND 0x3f)]"
    have e: "incrementUUIDv7Payload bs = (if low \<le> 0x3f then (True, cs2) else carryMasked [7, 6] (cs2[8 := cs2 ! 8 AND 0xc0]))"
      using False t(4) by (simp add: incrementUUIDv7Payload_def c1 low_def cs2_def Let_def)
    have low: "low \<le> 0x3f \<longleftrightarrow> mid < 63" by (simp add: low_def variant_field same mid_def)
    have cs2: "length cs2 = 16" "take 6 cs2 = take 6 bs" "cs2 ! 6 = bs ! 6" "cs2 ! 7 = bs ! 7"
      using t(1) same [of 6] same [of 7] arg_cong [OF t(2), of "take 6"] by (simp_all add: cs2_def)
    have u8: "unat (cs2 ! 8) = unat (bs ! 8) div 64 * 64 + (mid + 1) mod 64"
      using t(1) by (simp add: cs2_def low_def variant_field same mid_def mod_Suc_eq)
    have top: "tail + 1 = 256 ^ 7" using False b(3) by simp
    have tail: "be_nat (drop 9 cs2) = 0" using t(3) unfolding top by (simp add: cs2_def)
    show ?thesis
    proof (cases "mid < 63")
      case mid: True
      then have "cs = cs2" "found" using c e low by simp_all
      moreover have "payload cs2 = (high * 64 + mid + 1) * 256 ^ 7"
        unfolding payload_def tail cs2(3,4) u8 using mid by (simp add: high_def)
      moreover have "payload bs + 1 < 2 ^ 74" unfolding p using b mid by simp
      ultimately show ?thesis
        using cs2 u8 mid mod_pair [of "high * 64 + mid" "2 ^ 18" tail "256 ^ 7"] False b by (simp add: p)
    next
      case mid: False
      define cs3 where "cs3 = cs2[8 := cs2 ! 8 AND 0xc0]"
      have c3: "carryMasked [7, 6] cs3 = (found, cs)" using c e low mid by (simp add: cs3_def)
      have cs3: "length cs3 = 16" "take 6 cs3 = take 6 bs" "cs3 ! 6 = bs ! 6" "cs3 ! 7 = bs ! 7" "be_nat (drop 9 cs3) = 0"
        "unat (cs3 ! 8) = unat (bs ! 8) div 64 * 64"
        using cs2 tail u8 mid b(2) by (simp_all add: cs3_def variant_field)
      note q = carryMasked_props [OF cs3(1) c3]
      have d: "cs ! 8 = cs3 ! 8" "drop 9 cs = drop 9 cs3"
        using arg_cong [OF q(3), of hd] arg_cong [OF q(3), of "drop 1"] q(1) cs3(1) by (simp_all add: hd_drop_conv_nth)
      have "payload cs = ((high + 1) mod 4096) * 64 * 256 ^ 7"
        unfolding payload_def d cs3 q(5) by (simp add: high_def)
      moreover have n: "payload bs + 1 = (high + 1) * (64 * 256 ^ 7)" unfolding p using top b(2) mid by simp
      then have "(payload bs + 1) mod 2 ^ 74 = ((high + 1) mod 4096) * 64 * 256 ^ 7"
        using mod_mult_mult2 [of "high + 1" "64 * 256 ^ 7" 4096] by simp
      moreover have "found \<longleftrightarrow> payload bs + 1 < 2 ^ 74"
        unfolding q(6) cs3 n by (simp add: high_def [symmetric])
      ultimately show ?thesis using q(1,2,4) cs3 d by simp
    qed
  qed
qed

section \<open>The text of an identifier\<close>

lemma hexEncode_simps [simp]:
  "hexEncode [] = []" "hexEncode (b # bs) = hex_digit (unat b div 16) # hex_digit (unat b mod 16) # hexEncode bs"
  by (simp_all add: hexEncode_def)

lemma list16:
  assumes "length bs = 16"
  obtains b0 b1 b2 b3 b4 b5 b6 b7 b8 b9 b10 b11 b12 b13 b14 b15
  where "bs = [b0, b1, b2, b3, b4, b5, b6, b7, b8, b9, b10, b11, b12, b13, b14, b15]"
  using assms by (auto simp: length_Suc_conv numeral_eq_Suc)

text \<open>Hexadecimal digits keep the order of their values.\<close>

lemma hex_digit_less: "m < 16 \<Longrightarrow> n < 16 \<Longrightarrow> hex_digit m < hex_digit n \<longleftrightarrow> m < n"
  by (auto simp: hex_digit_def less_char_def of_char_of)

lemma hex_digit_eq: "m < 16 \<Longrightarrow> n < 16 \<Longrightarrow> hex_digit m = hex_digit n \<longleftrightarrow> m = n"
  using hex_digit_less by (metis linorder_neqE_nat order_less_irrefl)

lemma digits_less:
  "(x :: nat) < y \<longleftrightarrow> x div 16 < y div 16 \<or> x div 16 = y div 16 \<and> x mod 16 < y mod 16"
  "x = y \<longleftrightarrow> x div 16 = y div 16 \<and> x mod 16 = y mod 16"
proof -
  have e: "16 * (x div 16) + x mod 16 = x" "16 * (y div 16) + y mod 16 = y" "x mod 16 < 16" "y mod 16 < 16" by simp_all
  show "x < y \<longleftrightarrow> x div 16 < y div 16 \<or> x div 16 = y div 16 \<and> x mod 16 < y mod 16"
  proof (cases "x div 16" "y div 16" rule: linorder_cases)
    case equal
    then show ?thesis using e by linarith
  qed (use e in linarith)+
  show "x = y \<longleftrightarrow> x div 16 = y div 16 \<and> x mod 16 = y mod 16" using e by metis
qed

lemma hex_pair_less:
  "hex_digit (unat b div 16) # hex_digit (unat b mod 16) # r < hex_digit (unat c div 16) # hex_digit (unat c mod 16) # s \<longleftrightarrow>
     (b :: byte) < c \<or> b = c \<and> r < s"
proof -
  have "unat b div 16 < 16" "unat c div 16 < 16" using unat_byte [of b] unat_byte [of c] by simp_all
  then show ?thesis
    unfolding word_less_nat_alt word_unat_eq_iff digits_less [of "unat b"] by (auto simp: hex_digit_less hex_digit_eq)
qed

lemma hexEncode_less:
  "length bs = length cs \<Longrightarrow> hexEncode bs @ r < hexEncode cs @ s \<longleftrightarrow> bs < cs \<or> bs = cs \<and> r < s"
proof (induction bs cs rule: list_induct2)
  case (Cons b bs c cs)
  then show ?case by (simp only: hexEncode_simps append_Cons hex_pair_less) auto
qed simp

lemma append_less:
  "length xs = length ys \<Longrightarrow> xs @ r < ys @ (s :: 'a :: order list) \<longleftrightarrow> xs < ys \<or> xs = ys \<and> r < s"
  by (induction xs ys rule: list_induct2) auto

lemma split_less:
  fixes xs ys :: "'a :: order list"
  assumes "length xs = length ys"
  shows "xs < ys \<longleftrightarrow> take n xs < take n ys \<or> take n xs = take n ys \<and> drop n xs < drop n ys"
  using append_less [of "take n xs" "take n ys" "drop n xs" "drop n ys"] assms by simp

lemma uuidText_less:
  assumes "length bs = 16" "length cs = 16"
  shows "uuidText bs < uuidText cs \<longleftrightarrow> bs < cs"
proof -
  have l: "length (take n (drop m bs)) = length (take n (drop m cs))" "length (drop m bs) = length (drop m cs)"
    "length (take n bs) = length (take n cs)" for m n
    using assms by simp_all
  have e: "hexEncode bs' < hexEncode cs' \<longleftrightarrow> bs' < cs'" if "length bs' = length cs'" for bs' cs'
    using hexEncode_less [OF that, of "[]" "[]"] by simp
  show ?thesis
    unfolding split_less [OF l(2) [of 0, simplified], of 4] split_less [OF l(2) [of 4], of 2] uuidText_def
    using assms split_less [OF l(2) [of 6], of 2] split_less [OF l(2) [of 8], of 2] by (simp add: hexEncode_less e)
qed

lemma hex_char: "n < 16 \<Longrightarrow> hex_digit n \<in> set ''0123456789abcdef''"
proof -
  assume "n < 16"
  then have "n \<in> set [0..<16]" by simp
  moreover have "list_all (\<lambda>n. hex_digit n \<in> set ''0123456789abcdef'') [0..<16]" by code_simp
  ultimately show ?thesis by (simp add: list_all_iff)
qed

lemma uuidText_valid:
  assumes "uuid_bytes bs"
  shows "validateID (uuidText bs) = Inr ()"
proof (rule list16)
  show "length bs = 16" using assms by (simp add: uuid_bytes_def)
  fix b0 b1 b2 b3 b4 b5 b6 b7 b8 b9 b10 b11 b12 b13 b14 b15
  assume e: "bs = [b0, b1, b2, b3, b4, b5, b6, b7, b8, b9, b10, b11, b12, b13, b14, b15]"
  have h: "hex_digit (unat b div 16) \<in> set ''0123456789abcdef''" "hex_digit (unat b mod 16) \<in> set ''0123456789abcdef''" for b :: byte
    using unat_byte [of b] by (intro hex_char; simp)+
  define S where "S = set ''0123456789abcdef''"
  note h = h [folded S_def]
  have v: "unat b6 div 16 = 7" "unat b8 div 64 = 2" using assms by (simp_all add: uuid_bytes_def e)
  have "unat b8 div 16 \<in> {8, 9, 10, 11}"
  proof -
    have "128 \<le> unat b8" "unat b8 < 192" using v(2) by linarith+
    then have "8 \<le> unat b8 div 16" "unat b8 div 16 < 12" by linarith+
    then show ?thesis by auto
  qed
  then have "unat b8 div 16 \<in> set [8, 9, 10, 11]" by simp
  moreover have "list_all (\<lambda>n. hex_digit n \<in> set ''89ab'') [8, 9, 10, 11]" by code_simp
  ultimately have k: "hex_digit (unat b8 div 16) \<in> set ''89ab''" unfolding list_all_iff by (rule bspec [rotated])
  have seven_S: "CHR ''7'' \<in> S" by (simp add: S_def)
  have seven: "hex_digit 7 = CHR ''7''" by code_simp
  have chars: "uuidText bs =
    [hex_digit (unat b0 div 16), hex_digit (unat b0 mod 16), hex_digit (unat b1 div 16), hex_digit (unat b1 mod 16),
     hex_digit (unat b2 div 16), hex_digit (unat b2 mod 16), hex_digit (unat b3 div 16), hex_digit (unat b3 mod 16), CHR ''-'',
     hex_digit (unat b4 div 16), hex_digit (unat b4 mod 16), hex_digit (unat b5 div 16), hex_digit (unat b5 mod 16), CHR ''-'',
     CHR ''7'', hex_digit (unat b6 mod 16), hex_digit (unat b7 div 16), hex_digit (unat b7 mod 16), CHR ''-'',
     hex_digit (unat b8 div 16), hex_digit (unat b8 mod 16), hex_digit (unat b9 div 16), hex_digit (unat b9 mod 16), CHR ''-'',
     hex_digit (unat b10 div 16), hex_digit (unat b10 mod 16), hex_digit (unat b11 div 16), hex_digit (unat b11 mod 16),
     hex_digit (unat b12 div 16), hex_digit (unat b12 mod 16), hex_digit (unat b13 div 16), hex_digit (unat b13 mod 16),
     hex_digit (unat b14 div 16), hex_digit (unat b14 mod 16), hex_digit (unat b15 div 16), hex_digit (unat b15 mod 16)]"
    (is "_ = ?chars")
    unfolding uuidText_def e by (simp add: v(1) seven)
  have digits: "list_all (\<lambda>index. index \<in> {8, 13, 18, 23} \<or> ?chars ! index \<in> S) [0..<36]"
    by (simp add: upt_rec h seven_S)
  have shape: "length ?chars = 36" "?chars ! 8 = CHR ''-''" "?chars ! 13 = CHR ''-''" "?chars ! 18 = CHR ''-''" "?chars ! 23 = CHR ''-''"
    "?chars ! 14 = CHR ''7''" "?chars ! 19 = hex_digit (unat b8 div 16)"
    by simp_all
  show ?thesis
    unfolding validateID_def chars S_def [symmetric] shape using k digits by simp
qed

section \<open>Time stamps\<close>

definition stamp :: "byte list \<Rightarrow> nat" where
  "stamp bs = be_nat (take 6 bs)"

lemma or_fields:
  fixes x y :: "64 word"
  assumes "2 ^ k dvd unat x" "unat y < 2 ^ k"
  shows "unat (x OR y) = unat x + unat y"
proof -
  have x: "take_bit k (unat x) = 0" using assms(1) by (simp add: take_bit_eq_mod)
  have y: "take_bit k (unat y) = unat y" using assms(2) by (simp add: take_bit_eq_mod)
  have "unat x AND unat y = 0"
  proof (rule bit_eqI)
    fix n
    have "bit (unat y) n \<Longrightarrow> n < k" using y by (metis bit_take_bit_iff)
    moreover have "n < k \<Longrightarrow> \<not> bit (unat x) n" using x by (metis bit_take_bit_iff bit_0_eq bot_apply bot_bool_def)
    ultimately show "bit (unat x AND unat y) n = bit 0 n" by (auto simp: bit_and_iff)
  qed
  then show ?thesis by (simp add: unsigned_or_eq disjunctive_add_eq_or)
qed

lemma unat_shifted: "k \<le> 40 \<Longrightarrow> unat (push_bit k (ucast (b :: byte)) :: 64 word) = unat b * 2 ^ k"
proof -
  assume k: "k \<le> 40"
  have "unat b * 2 ^ k < 2 ^ 8 * 2 ^ k" using unat_byte [of b] by simp
  also have "\<dots> \<le> 2 ^ 8 * 2 ^ 40" using k by (intro mult_le_mono2 power_increasing) simp_all
  finally have "unat b * 2 ^ k < 2 ^ 64" by simp
  moreover have "unat (ucast b :: 64 word) = unat b" using unat_byte [of b] by (simp add: unsigned_ucast_eq take_bit_eq_mod)
  ultimately show ?thesis by (simp only: unsigned_push_bit_eq) (simp add: push_bit_eq_mult take_bit_eq_mod)
qed

lemma lastMillis_stamp:
  assumes "uuid_set st" "length (uuid_last st) = 16"
  shows "unat (lastMillis st) = stamp (uuid_last st)"
proof -
  obtain b0 b1 b2 b3 b4 b5 r where e: "uuid_last st = b0 # b1 # b2 # b3 # b4 # b5 # r"
    using assms(2) by (auto simp: length_Suc_conv numeral_eq_Suc)
  have u: "unat b0 < 256" "unat b1 < 256" "unat b2 < 256" "unat b3 < 256" "unat b4 < 256" "unat b5 < 256"
    by (rule unat_byte)+
  let ?p = "\<lambda>k b. push_bit k (ucast (b :: byte)) :: 64 word"
  have s0: "unat (?p 0 b5) = unat b5" using unat_shifted [of 0 b5] by simp
  have s8: "unat (?p 8 b4 OR ?p 0 b5) = unat b4 * 2 ^ 8 + unat b5"
    by (subst or_fields [where k = 8]) (use u in \<open>simp_all add: unat_shifted s0 del: push_bit_0_id\<close>)
  have s16: "unat (?p 16 b3 OR (?p 8 b4 OR ?p 0 b5)) = unat b3 * 2 ^ 16 + (unat b4 * 2 ^ 8 + unat b5)"
    by (subst or_fields [where k = 16]) (use u in \<open>simp_all add: unat_shifted s8 del: push_bit_0_id\<close>)
  have s24: "unat (?p 24 b2 OR (?p 16 b3 OR (?p 8 b4 OR ?p 0 b5))) = unat b2 * 2 ^ 24 + (unat b3 * 2 ^ 16 + (unat b4 * 2 ^ 8 + unat b5))"
    by (subst or_fields [where k = 24]) (use u in \<open>simp_all add: unat_shifted s16 del: push_bit_0_id\<close>)
  have s32: "unat (?p 32 b1 OR (?p 24 b2 OR (?p 16 b3 OR (?p 8 b4 OR ?p 0 b5)))) =
      unat b1 * 2 ^ 32 + (unat b2 * 2 ^ 24 + (unat b3 * 2 ^ 16 + (unat b4 * 2 ^ 8 + unat b5)))"
    by (subst or_fields [where k = 32]) (use u in \<open>simp_all add: unat_shifted s24 del: push_bit_0_id\<close>)
  have s40: "unat (?p 40 b0 OR (?p 32 b1 OR (?p 24 b2 OR (?p 16 b3 OR (?p 8 b4 OR ?p 0 b5))))) =
      unat b0 * 2 ^ 40 + (unat b1 * 2 ^ 32 + (unat b2 * 2 ^ 24 + (unat b3 * 2 ^ 16 + (unat b4 * 2 ^ 8 + unat b5))))"
    by (subst or_fields [where k = 40]) (use u in \<open>simp_all add: unat_shifted s32 del: push_bit_0_id\<close>)
  have "lastMillis st = ?p 40 b0 OR (?p 32 b1 OR (?p 24 b2 OR (?p 16 b3 OR (?p 8 b4 OR ?p 0 b5))))"
    using assms(1) by (simp add: lastMillis_def e or.assoc)
  then show ?thesis unfolding stamp_def e using s40 by (simp add: be_nat_def)
qed

lemma unat_shifted_down: "unat (ucast (drop_bit k (m :: 64 word)) :: byte) = unat m div 2 ^ k mod 256"
proof -
  have "unat m < 18446744073709551616" using unsigned_less [of m, where ?'a = nat] by simp
  then have "unat m mod 18446744073709551616 = unat m" by simp
  then show ?thesis by (simp only: unsigned_ucast_eq unsigned_drop_bit_eq) (simp add: drop_bit_eq_div take_bit_eq_mod)
qed

lemma uuidStamp_props:
  assumes l: "length bs = 16" and m: "unat millis < 2 ^ 48"
  shows "uuid_bytes (uuidStamp millis bs)" "stamp (uuidStamp millis bs) = unat millis" "payload (uuidStamp millis bs) = payload bs"
proof -
  obtain b0 b1 b2 b3 b4 b5 b6 b7 b8 r where e: "bs = b0 # b1 # b2 # b3 # b4 # b5 # b6 # b7 # b8 # r" "length r = 7"
    using l by (auto simp: length_Suc_conv numeral_eq_Suc)
  let ?b = "\<lambda>k. ucast (drop_bit k millis) :: byte"
  have s: "uuidStamp millis bs =
      ?b 40 # ?b 32 # ?b 24 # ?b 16 # ?b 8 # ?b 0 # ((b6 AND 0x0f) OR 0x70) # b7 # ((b8 AND 0x3f) OR 0x80) # r"
    by (simp add: uuidStamp_def e)
  have "unat b6 mod 16 < 16" "unat b8 mod 64 < 64" by simp_all
  then have f: "(112 + unat b6 mod 16) div 16 = 7" "(128 + unat b8 mod 64) div 64 = 2" by linarith+
  have g: "(112 + i mod 16) mod 16 = i mod 16" "(128 + i mod 64) mod 64 = i mod 64" for i :: nat
    using mod_mult_self4 [of 16 7 "i mod 16"] mod_mult_self4 [of 64 2 "i mod 64"] by simp_all
  then show "uuid_bytes (uuidStamp millis bs)"
    unfolding uuid_bytes_def s by (simp add: f variant_field version_field e)
  show "payload (uuidStamp millis bs) = payload bs"
    unfolding payload_def s by (simp add: e g variant_field version_field)
  define x where "x = unat millis"
  have d: "x div 2 ^ (k + 8) * 256 + x div 2 ^ k mod 256 = x div 2 ^ k" for k
    using div_mult_mod_eq [of "x div 2 ^ k" 256] by (simp add: power_add div_mult2_eq)
  have "x div 2 ^ 40 < 256" using m by (simp add: x_def)
  then have "x div 2 ^ 40 mod 256 = x div 2 ^ 40" by simp
  then show "stamp (uuidStamp millis bs) = unat millis"
    unfolding stamp_def s using d [of 32] d [of 24] d [of 16] d [of 8] d [of 0] unat_shifted_down [of 0 millis]
    by (simp add: be_nat_def unat_shifted_down flip: x_def)
qed

section \<open>Issuing identifiers\<close>

text \<open>The number an identifier stands for; identifiers are in the order of their numbers.\<close>

definition rank :: "byte list \<Rightarrow> nat" where
  "rank bs = stamp bs * 2 ^ 74 + payload bs"

lemma rank_less:
  assumes b: "uuid_bytes bs" and c: "uuid_bytes cs" and r: "rank bs < rank cs"
  shows "bs < cs"
proof -
  have l: "length bs = 16" "length cs = 16" using b c by (simp_all add: uuid_bytes_def)
  have "stamp bs < stamp cs \<or> stamp bs = stamp cs \<and> payload bs < payload cs"
    using r payload_bound [OF l(1)] payload_bound [OF l(2)]
    by (cases "stamp bs" "stamp cs" rule: linorder_cases) (simp_all add: rank_def)
  moreover have "bs < cs" if "stamp bs < stamp cs"
    using that l split_less [of bs cs 6] be_nat_less [of "take 6 bs" "take 6 cs"] by (simp add: stamp_def)
  moreover have "bs < cs" if s: "stamp bs = stamp cs" and p: "payload bs < payload cs"
  proof -
    have "take 6 bs = take 6 cs"
      using be_nat_less [of "take 6 bs" "take 6 cs"] be_nat_less [of "take 6 cs" "take 6 bs"] s l
      by (metis length_take less_irrefl linorder_neqE stamp_def)
    moreover have "drop 6 bs < drop 6 cs"
    proof -
      have n: "be_nat (drop 6 xs) = ((unat (xs ! 6) * 256 + unat (xs ! 7)) * 256 + unat (xs ! 8)) * 256 ^ 7 + be_nat (drop 9 xs)"
        if "length xs = 16" for xs
      proof -
        have "drop 6 xs = [xs ! 6, xs ! 7, xs ! 8] @ drop 9 xs" using that by (rule list16) simp
        moreover have "length (drop 9 xs) = 7" using that by simp
        ultimately show ?thesis by (simp only: be_nat_append) (simp add: be_nat_def)
      qed
      have f: "unat (xs ! 6) = 112 + unat (xs ! 6) mod 16" "unat (xs ! 8) = 128 + unat (xs ! 8) mod 64" if "uuid_bytes xs" for xs
        using that div_mult_mod_eq [of "unat (xs ! 6)" 16] div_mult_mod_eq [of "unat (xs ! 8)" 64] by (simp_all add: uuid_bytes_def)
      define hb hc mb mc where "hb = unat (bs ! 6) mod 16 * 256 + unat (bs ! 7)" and "hc = unat (cs ! 6) mod 16 * 256 + unat (cs ! 7)"
        and "mb = unat (bs ! 8) mod 64" and "mc = unat (cs ! 8) mod 64"
      have m: "mb < 64" "mc < 64" "be_nat (drop 9 bs) < 256 ^ 7" "be_nat (drop 9 cs) < 256 ^ 7"
        using be_nat_bound [of "drop 9 bs"] be_nat_bound [of "drop 9 cs"] l by (simp_all add: mb_def mc_def)
      have q: "(hb * 64 + mb) * 256 ^ 7 + be_nat (drop 9 bs) < (hc * 64 + mc) * 256 ^ 7 + be_nat (drop 9 cs)"
        using p by (simp add: payload_def hb_def hc_def mb_def mc_def)
      have "be_nat (drop 6 bs) = ((28672 + hb) * 256 + (128 + mb)) * 256 ^ 7 + be_nat (drop 9 bs)"
        "be_nat (drop 6 cs) = ((28672 + hc) * 256 + (128 + mc)) * 256 ^ 7 + be_nat (drop 9 cs)"
        unfolding n [OF l(1)] n [OF l(2)] hb_def hc_def mb_def mc_def using f [OF b] f [OF c] by simp_all
      moreover have "hb < hc \<or> hb = hc \<and> (mb < mc \<or> mb = mc \<and> be_nat (drop 9 bs) < be_nat (drop 9 cs))"
        using q m by (cases hb hc rule: linorder_cases; cases mb mc rule: linorder_cases) simp_all
      ultimately have "be_nat (drop 6 bs) < be_nat (drop 6 cs)" using m by auto
      then show ?thesis using be_nat_less [of "drop 6 bs" "drop 6 cs"] l by simp
    qed
    ultimately show ?thesis using l split_less [of bs cs 6] by simp
  qed
  ultimately show ?thesis by blast
qed

definition uuid_ok :: "uuidV7State \<Rightarrow> bool" where
  "uuid_ok st \<longleftrightarrow> (uuid_set st \<longrightarrow> uuid_bytes (uuid_last st))"

lemma newUUIDv7_props:
  assumes s: "uuid_ok st" and c: "newUUIDv7 now drawn st = (Inr k, st')"
    and d: "\<And>random. drawn = Inr random \<Longrightarrow> length random = 10"
    and n: "unat now < 2 ^ 48" "uuid_set st \<Longrightarrow> stamp (uuid_last st) + 1 < 2 ^ 48"
  obtains bs where "k = uuidText bs" "uuid_bytes bs" "st' = \<lparr>uuid_last = bs, uuid_set = True\<rparr>"
    "uuid_set st \<Longrightarrow> rank (uuid_last st) < rank bs" "stamp bs \<le> unat now \<or> uuid_set st \<and> stamp bs \<le> stamp (uuid_last st) + 1"
proof -
  obtain millis seed where m: "uuidSeed now drawn st = Inr (millis, seed)" and r: "k = uuidText (uuidStamp millis seed)"
    "st' = \<lparr>uuid_last = uuidStamp millis seed, uuid_set = True\<rparr>"
    using c by (auto simp: newUUIDv7_def Let_def split: sum.splits prod.splits)
  have last: "length (uuid_last st) = 16" "unat (lastMillis st) = stamp (uuid_last st)" if "uuid_set st"
    using that s lastMillis_stamp [OF that] by (simp_all add: uuid_ok_def uuid_bytes_def)
  have fresh: "length (take 6 (zs :: byte list) @ random) = 16" if "drawn = Inr random" "length zs = 16" for random zs
    using d [OF that(1)] that(2) by simp
  have seed: "length seed = 16 \<and> (unat millis \<le> unat now \<or> uuid_set st \<and> unat millis \<le> stamp (uuid_last st) + 1) \<and> unat millis < 2 ^ 48 \<and>
      (uuid_set st \<longrightarrow> stamp (uuid_last st) < unat millis \<or>
         stamp (uuid_last st) = unat millis \<and> payload (uuid_last st) < payload seed)"
  proof (cases "uuid_set st \<and> now \<le> lastMillis st")
    case True
    then have u: "uuid_set st" by simp
    obtain found cs where i: "incrementUUIDv7Payload (uuid_last st) = (found, cs)" by force
    note p = increment_props [OF last(1) [OF u] i]
    have one: "unat (lastMillis st + 1) = stamp (uuid_last st) + 1"
      using last(2) [OF u] n(2) [OF u] by (simp add: unat_word_ariths)
    show ?thesis
    proof (cases found)
      case True
      then show ?thesis using m i \<open>uuid_set st \<and> now \<le> lastMillis st\<close> p last(2) [OF u] n(2) [OF u]
        by (simp add: uuidSeed_def)
    next
      case False
      then obtain random where "drawn = Inr random" "millis = lastMillis st + 1" "seed = take 6 cs @ random"
        using m i \<open>uuid_set st \<and> now \<le> lastMillis st\<close> by (auto simp: uuidSeed_def bindE_Inr_iff)
      then show ?thesis using fresh [of random cs] p one n(2) [OF u] u by simp
    qed
  next
    case False
    then obtain random where "drawn = Inr random" "millis = now" "seed = take 6 (replicate 16 0) @ random"
      using m by (auto simp: uuidSeed_def bindE_Inr_iff simp del: take_replicate split: if_splits)
    then show ?thesis using fresh [of random "replicate 16 0"] n(1) False last(2) by (auto simp: word_le_nat_alt simp del: take_replicate)
  qed
  note u = uuidStamp_props [of seed millis]
  have "uuid_set st \<Longrightarrow> rank (uuid_last st) < rank (uuidStamp millis seed)"
    using seed u payload_bound [OF last(1)] unfolding rank_def by auto
  then show thesis using that [OF r(1) _ r(2)] seed u by auto
qed

fun issue :: "(64 word \<times> (derror + byte list)) list \<Rightarrow> uuidV7State \<Rightarrow> string list" where
  "issue [] st = []"
| "issue ((now, drawn) # calls) st =
     (case newUUIDv7 now drawn st of (Inl e, st) \<Rightarrow> issue calls st | (Inr k, st) \<Rightarrow> k # issue calls st)"

lemma newUUIDv7_error: "newUUIDv7 now drawn st = (Inl e, st') \<Longrightarrow> st' = st"
  by (auto simp: newUUIDv7_def Let_def split: sum.splits prod.splits)

lemma issue_props:
  assumes "uuid_ok st" "\<forall>(now, drawn) \<in> set calls. unat now + length calls < 2 ^ 48 \<and> (\<forall>random. drawn = Inr random \<longrightarrow> length random = 10)"
    "uuid_set st \<Longrightarrow> stamp (uuid_last st) + length calls < 2 ^ 48"
  shows "sorted_wrt (<) (issue calls st) \<and> (\<forall>k \<in> set (issue calls st). validateID k = Inr () \<and> (uuid_set st \<longrightarrow> uuidText (uuid_last st) < k))"
  using assms
proof (induction calls arbitrary: st)
  case (Cons call calls)
  obtain now drawn where call: "call = (now, drawn)" by force
  show ?case
  proof (cases "newUUIDv7 now drawn st")
    case (Pair q st')
    show ?thesis
    proof (cases q)
      case (Inl e)
      then have "st' = st" using Pair newUUIDv7_error by blast
      then have "issue (call # calls) st = issue calls st" using Pair Inl by (simp add: call)
      moreover have "uuid_set st \<Longrightarrow> stamp (uuid_last st) + length calls < 2 ^ 48" using Cons.prems(3) by simp
      ultimately show ?thesis using Cons.IH [of st] Cons.prems(1,2) by force
    next
      case (Inr k)
      have h: "unat now + length calls + 1 < 2 ^ 48" "\<And>random. drawn = Inr random \<Longrightarrow> length random = 10"
        using Cons.prems(2) by (auto simp: call)
      have "unat now < 2 ^ 48" "uuid_set st \<Longrightarrow> stamp (uuid_last st) + 1 < 2 ^ 48"
        using h(1) Cons.prems(3) by simp_all
      from newUUIDv7_props [OF Cons.prems(1) Pair [unfolded Inr] h(2) this] obtain bs where b: "k = uuidText bs" "uuid_bytes bs"
        "st' = \<lparr>uuid_last = bs, uuid_set = True\<rparr>" "uuid_set st \<Longrightarrow> rank (uuid_last st) < rank bs"
        "stamp bs \<le> unat now \<or> uuid_set st \<and> stamp bs \<le> stamp (uuid_last st) + 1"
        by blast
      have o: "uuid_ok st'" "stamp (uuid_last st') + length calls < 2 ^ 48"
        using b(2,3,5) h(1) Cons.prems(3) by (auto simp: uuid_ok_def)
      have above: "uuid_set st \<Longrightarrow> uuidText (uuid_last st) < k"
        using b Cons.prems(1) rank_less [of "uuid_last st" bs] uuidText_less [of "uuid_last st" bs]
        by (simp add: uuid_ok_def uuid_bytes_def)
      have "sorted_wrt (<) (issue calls st') \<and> (\<forall>j \<in> set (issue calls st'). validateID j = Inr () \<and> k < j)"
        using Cons.IH [OF o(1) _ o(2)] Cons.prems(2) b(1,3) by force
      then show ?thesis using Pair Inr above uuidText_valid [OF b(2)] by (auto simp: call b(1) [symmetric] intro: less_trans)
    qed
  qed
qed simp

definition fresh_uuids :: uuidV7State where
  "fresh_uuids = \<lparr>uuid_last = replicate 16 0, uuid_set = False\<rparr>"

text \<open>C11: The identifiers that newUUIDv7 issues in one process strictly increase as texts, so none is issued twice and
  the order of identifiers is the order of creation, also when the clock stands still or goes back and when the random
  source fails; and each of them passes validateID.  This needs every clock reading, in milliseconds, to be non-negative
  and so far below 2 to the 48th that adding the number of calls stays below it, and a random source that, when it
  succeeds, gives the ten bytes asked for.\<close>

theorem identifiers_increase:
  assumes "\<forall>(now, drawn) \<in> set calls. unat now + length calls < 2 ^ 48 \<and> (\<forall>random. drawn = Inr random \<longrightarrow> length random = 10)"
  shows "sorted_wrt (<) (issue calls fresh_uuids) \<and> (\<forall>k \<in> set (issue calls fresh_uuids). validateID k = Inr ())"
  using issue_props [of fresh_uuids calls] assms by (simp add: fresh_uuids_def uuid_ok_def)

lemma identifiers_increase_witness:
  "sorted_wrt (<) (issue [(7, Inr (replicate 10 0)), (3, Inl PlainError), (9, Inl PlainError), (8, Inr (replicate 10 255))] fresh_uuids)"
  using identifiers_increase [of "[(7, Inr (replicate 10 0)), (3, Inl PlainError), (9, Inl PlainError), (8, Inr (replicate 10 255))]"]
  by simp

end
