(* ===== verification/Revision_Cursor.thy ===== *)
theory Revision_Cursor
  imports Store_Schema
begin

text \<open>
  The opaque cursors of the revision history: \<open>internal/store/revision_cursor.go\<close>.  SHA-256 is a parameter of
  the definitions; of it only the length of its digest matters.  A cursor is accepted when its payload is
  the canonical JSON text of the expected fields, so reading a payload is written here as reading that text;
  a payload in any other spelling, or with escapes in its strings, is rejected by the code as well.
\<close>

section \<open>Unpadded URL-safe base64\<close>

definition url_char :: "char \<Rightarrow> char" where
  "url_char c = (if c = CHR ''+'' then CHR ''-'' else if c = CHR ''/'' then CHR ''_'' else c)"

definition std_char :: "char \<Rightarrow> char" where
  "std_char c = (if c = CHR ''-'' then CHR ''+'' else if c = CHR ''_'' then CHR ''/'' else c)"

definition raw_url_encode :: "string \<Rightarrow> string" where
  "raw_url_encode s = map url_char (filter (\<lambda>c. c \<noteq> CHR ''='') (b64_encode s))"

text \<open>\<open>base64.RawURLEncoding.Strict().DecodeString\<close>, which skips line breaks.\<close>

definition raw_url_decode :: "string \<Rightarrow> string option" where
  "raw_url_decode s =
     (let t = filter (\<lambda>c. c \<noteq> CHR 0x0A \<and> c \<noteq> CHR 0x0D) s
      in if list_ex (\<lambda>c. c \<in> set ''+/='') t then None
         else case b64_groups (map std_char t @ replicate ((4 - length t mod 4) mod 4) (CHR ''='')) of
                None \<Rightarrow> None
              | Some d \<Rightarrow> if raw_url_encode d = t then Some d else None)"

lemma b64_padding:
  "b64_encode s = filter (\<lambda>c. c \<noteq> CHR ''='') (b64_encode s) @
     replicate ((4 - length (filter (\<lambda>c. c \<noteq> CHR ''='') (b64_encode s)) mod 4) mod 4) (CHR ''='')"
  by (induction s rule: b64_encode.induct) (simp_all add: b64_char_not_pad b64_sextets numeral_2_eq_2)

lemma b64_alphabet: "c \<in> set (b64_encode s) \<Longrightarrow> c \<noteq> CHR ''='' \<Longrightarrow> \<exists>n < 64. c = b64_char n"
  by (induction s rule: b64_encode.induct) (auto intro: b64_sextets)

lemma letter_or_digit:
  assumes "n < 62" and other: "byte_of c < 48 \<or> byte_of c = 61 \<or> byte_of c = 95"
  shows "b64_char n \<noteq> c"
proof
  assume "b64_char n = c"
  moreover have "48 \<le> byte_of (b64_char n) \<and> byte_of (b64_char n) \<noteq> 61 \<and> byte_of (b64_char n) \<noteq> 95"
    using assms(1) by (auto simp: b64_char_def byte_of_def of_char_of)
  ultimately show False using other by auto
qed

lemma url_alphabet:
  assumes "n < 64"
  shows "std_char (url_char (b64_char n)) = b64_char n" "url_char (b64_char n) \<notin> set ''+/=.''"
    "url_char (b64_char n) \<noteq> CHR 0x0A" "url_char (b64_char n) \<noteq> CHR 0x0D" "json_safe (url_char (b64_char n))"
proof -
  consider "n < 62" | "n = 62" | "n = 63" using assms by linarith
  then have "std_char (url_char (b64_char n)) = b64_char n \<and> url_char (b64_char n) \<notin> set ''+/=.'' \<and>
      url_char (b64_char n) \<noteq> CHR 0x0A \<and> url_char (b64_char n) \<noteq> CHR 0x0D \<and> json_safe (url_char (b64_char n))"
  proof cases
    case 1
    note other = letter_or_digit [OF 1]
    have "b64_char n \<noteq> CHR ''+''" "b64_char n \<noteq> CHR ''/''" "b64_char n \<noteq> CHR ''=''" "b64_char n \<noteq> CHR ''.''"
      "b64_char n \<noteq> CHR ''-''" "b64_char n \<noteq> CHR ''_''" "b64_char n \<noteq> CHR 0x0A" "b64_char n \<noteq> CHR 0x0D"
      by (rule other, simp add: byte_of_def)+
    then show ?thesis using safe_b64_char [OF assms] by (simp add: url_char_def std_char_def)
  next
    case 2
    then show ?thesis by (simp add: b64_char_def url_char_def std_char_def json_safe_def byte_of_def)
  next
    case 3
    then show ?thesis by (simp add: b64_char_def url_char_def std_char_def json_safe_def byte_of_def)
  qed
  then show "std_char (url_char (b64_char n)) = b64_char n" "url_char (b64_char n) \<notin> set ''+/=.''"
    "url_char (b64_char n) \<noteq> CHR 0x0A" "url_char (b64_char n) \<noteq> CHR 0x0D" "json_safe (url_char (b64_char n))"
    by blast+
qed

lemma raw_url_chars:
  assumes "c \<in> set (raw_url_encode s)"
  shows "c \<notin> set ''+/=.''" "c \<noteq> CHR 0x0A" "c \<noteq> CHR 0x0D" "json_safe c"
proof -
  obtain b where b: "b \<in> set (b64_encode s)" "b \<noteq> CHR ''=''" "c = url_char b"
    using assms unfolding raw_url_encode_def by auto
  obtain n where n: "n < 64" "c = url_char (b64_char n)" using b64_alphabet [OF b(1,2)] b(3) by blast
  show "c \<notin> set ''+/=.''" "c \<noteq> CHR 0x0A" "c \<noteq> CHR 0x0D" "json_safe c"
    unfolding n(2) by (rule url_alphabet [OF n(1)])+
qed

lemma raw_url_decode_encode: "raw_url_decode (raw_url_encode s) = Some s"
proof -
  let ?f = "filter (\<lambda>c. c \<noteq> CHR ''='') (b64_encode s)"
  have t: "filter (\<lambda>c. c \<noteq> CHR 0x0A \<and> c \<noteq> CHR 0x0D) (raw_url_encode s) = raw_url_encode s"
    by (rule filter_True) (use raw_url_chars in blast)
  have "\<not> list_ex (\<lambda>c. c \<in> set ''+/='') (raw_url_encode s)"
    using raw_url_chars(1) unfolding list_ex_iff by fastforce
  moreover have "map std_char (raw_url_encode s) = ?f"
  proof -
    have "std_char (url_char c) = c" if "c \<in> set ?f" for c
      using that b64_alphabet [of c s] url_alphabet(1) by auto
    then show ?thesis unfolding raw_url_encode_def map_map by (intro map_idI) simp
  qed
  moreover have "length (raw_url_encode s) = length ?f" by (simp add: raw_url_encode_def)
  ultimately show ?thesis
    unfolding raw_url_decode_def Let_def t using b64_padding [of s] b64_groups_encode [of s] by simp
qed

lemma length_raw_url: "length (raw_url_encode s) = (4 * length s + 2) div 3"
  by (induction s rule: b64_encode.induct) (simp_all add: raw_url_encode_def b64_char_not_pad b64_sextets)

section \<open>Cursors\<close>

datatype RevisionOrder = RevisionOrderAscending | RevisionOrderDescending | RevisionOrderOther int

definition Valid :: "RevisionOrder \<Rightarrow> bool" where
  "Valid order \<longleftrightarrow> order = RevisionOrderAscending \<or> order = RevisionOrderDescending"

definition orderString :: "RevisionOrder \<Rightarrow> string" where
  "orderString order =
     (case order of RevisionOrderAscending \<Rightarrow> ''ascending'' | RevisionOrderDescending \<Rightarrow> ''descending''
      | RevisionOrderOther _ \<Rightarrow> ''unknown'')"

record revisionCursorPayload =
  cur_version :: int
  cur_schema :: int
  cur_generation :: string
  cur_order :: string
  cur_predicate :: string
  cur_boundary :: int

definition revisionCursorVersion :: int where "revisionCursorVersion = 1"
definition maxRevisionCursorLength :: nat where "maxRevisionCursorLength = 1024"
definition schemaVersion :: int where "schemaVersion = 6"

definition expectedSchemaFingerprint :: string where
  "expectedSchemaFingerprint = ''77d1f4abe30e4a710190224b76f665c625ca85ae738b0ff0a8f6fffadcc7878d''"

type_synonym sha256 = "string \<Rightarrow> string"

definition checksumRevisionCursor :: "sha256 \<Rightarrow> string \<Rightarrow> string" where
  "checksumRevisionCursor sha payload = sha (''sheets/revision-cursor/checksum/v1'' @ CHR 0x00 # payload)"

definition fingerprintRevisionCursorPart :: "sha256 \<Rightarrow> string \<Rightarrow> string" where
  "fingerprintRevisionCursorPart sha value = raw_url_encode (sha (''sheets/revision-cursor/fingerprint/v1'' @ CHR 0x00 # value))"

definition revisionPredicateFingerprint :: "sha256 \<Rightarrow> string" where
  "revisionPredicateFingerprint sha = fingerprintRevisionCursorPart sha ''revisions:sealed=1''"

definition marshalPayload :: "revisionCursorPayload \<Rightarrow> string" where
  "marshalPayload p =
     ''{'' @ json_field ''v'' (format_int 0 (cur_version p)) @ '','' @ json_field ''s'' (format_int 0 (cur_schema p)) @ '','' @
     json_field ''g'' (json_string (cur_generation p)) @ '','' @ json_field ''o'' (json_string (cur_order p)) @ '','' @
     json_field ''p'' (json_string (cur_predicate p)) @ '','' @ json_field ''b'' (format_int 0 (cur_boundary p)) @ ''}''"

definition encodeRevisionCursorPayload :: "sha256 \<Rightarrow> revisionCursorPayload \<Rightarrow> string" where
  "encodeRevisionCursorPayload sha payload =
     (let encoded = marshalPayload payload
      in raw_url_encode encoded @ ''.'' @ raw_url_encode (checksumRevisionCursor sha encoded))"

definition encodeRevisionCursor :: "sha256 \<Rightarrow> RevisionOrder \<Rightarrow> int \<Rightarrow> string" where
  "encodeRevisionCursor sha order boundary =
     encodeRevisionCursorPayload sha
       \<lparr>cur_version = revisionCursorVersion, cur_schema = schemaVersion, cur_generation = expectedSchemaFingerprint,
        cur_order = orderString order, cur_predicate = revisionPredicateFingerprint sha, cur_boundary = boundary\<rparr>"

text \<open>Reading the text of a payload: literal text, a number, or a string without escapes.\<close>

definition readText :: "string \<Rightarrow> string \<Rightarrow> string option" where
  "readText lit s = (if take (length lit) s = lit then Some (drop (length lit) s) else None)"

definition readNumber :: "string \<Rightarrow> (int \<times> string) option" where
  "readNumber s =
     (let digits = takeWhile is_digit s
      in if digits = [] then None else Some (int (digits_val 0 digits), dropWhile is_digit s))"

definition readString :: "string \<Rightarrow> string \<times> string" where
  "readString s = (takeWhile (\<lambda>c. c \<noteq> CHR 0x22) s, dropWhile (\<lambda>c. c \<noteq> CHR 0x22) s)"

definition quoted :: "string \<Rightarrow> string" where
  "quoted name = CHR 0x22 # name @ [CHR 0x22]"

definition unmarshalPayload :: "string \<Rightarrow> revisionCursorPayload option" where
  "unmarshalPayload s =
     Option.bind (readText (''{'' @ quoted ''v'' @ '':'') s) (\<lambda>s. Option.bind (readNumber s) (\<lambda>(v, s).
     Option.bind (readText ('','' @ quoted ''s'' @ '':'') s) (\<lambda>s. Option.bind (readNumber s) (\<lambda>(c, s).
     Option.bind (readText ('','' @ quoted ''g'' @ '':'' @ [CHR 0x22]) s) (\<lambda>s. case readString s of (g, s) \<Rightarrow>
     Option.bind (readText (CHR 0x22 # '','' @ quoted ''o'' @ '':'' @ [CHR 0x22]) s) (\<lambda>s. case readString s of (k, s) \<Rightarrow>
     Option.bind (readText (CHR 0x22 # '','' @ quoted ''p'' @ '':'' @ [CHR 0x22]) s) (\<lambda>s. case readString s of (p, s) \<Rightarrow>
     Option.bind (readText (CHR 0x22 # '','' @ quoted ''b'' @ '':'') s) (\<lambda>s. Option.bind (readNumber s) (\<lambda>(b, s).
       if s = ''}''
       then Some \<lparr>cur_version = v, cur_schema = c, cur_generation = g, cur_order = k, cur_predicate = p, cur_boundary = b\<rparr>
       else None)))))))))"

definition decodeRevisionCursor :: "sha256 \<Rightarrow> string \<Rightarrow> RevisionOrder \<Rightarrow> string \<Rightarrow> derror + int" where
  "decodeRevisionCursor sha cursor order predicate =
     (if cursor = [] \<or> length cursor > maxRevisionCursorLength then Inl ErrInvalidArgument
      else
        let encodedPayload = takeWhile (\<lambda>c. c \<noteq> CHR ''.'') cursor;
            rest = dropWhile (\<lambda>c. c \<noteq> CHR ''.'') cursor;
            encodedChecksum = tl rest
        in if rest = [] \<or> encodedPayload = [] \<or> encodedChecksum = [] \<or> CHR ''.'' \<in> set encodedChecksum then Inl ErrInvalidArgument
           else case (raw_url_decode encodedPayload, raw_url_decode encodedChecksum) of
                  (Some payloadBytes, Some checksum) \<Rightarrow>
                    if payloadBytes = [] \<or> length payloadBytes > maxRevisionCursorLength \<or> length checksum \<noteq> 32 \<or>
                       checksum \<noteq> checksumRevisionCursor sha payloadBytes
                    then Inl ErrInvalidArgument
                    else (case unmarshalPayload payloadBytes of
                            None \<Rightarrow> Inl ErrInvalidArgument
                          | Some payload \<Rightarrow>
                              if marshalPayload payload \<noteq> payloadBytes \<or> cur_version payload \<noteq> revisionCursorVersion \<or>
                                 cur_schema payload \<noteq> schemaVersion \<or> cur_generation payload \<noteq> expectedSchemaFingerprint \<or>
                                 cur_order payload \<noteq> orderString order \<or> cur_predicate payload \<noteq> predicate \<or>
                                 cur_boundary payload = 0 \<or> cur_boundary payload > 9223372036854775807
                              then Inl ErrInvalidArgument
                              else Inr (cur_boundary payload))
                | _ \<Rightarrow> Inl ErrInvalidArgument)"

definition upgradeLegacyRevisionCursor :: "sha256 \<Rightarrow> string \<Rightarrow> string option" where
  "upgradeLegacyRevisionCursor sha cursor =
     (if cursor = [] \<or> length cursor > maxRevisionCursorLength \<or> CHR ''.'' \<in> set cursor then None
      else case raw_url_decode cursor of
             None \<Rightarrow> None
           | Some decoded \<Rightarrow>
               if decoded = [] \<or> length decoded > 19 \<or> \<not> list_all is_digit decoded then None
               else let boundary = int (digits_val 0 decoded)
                    in if boundary > 9223372036854775807 \<or> boundary = 0 \<or> format_int 0 boundary \<noteq> decoded then None
                       else Some (encodeRevisionCursor sha RevisionOrderAscending boundary))"

section \<open>A cursor reads back\<close>

lemma readText_append: "readText lit (lit @ s) = Some s"
  by (simp add: readText_def)

lemma readNumber_text:
  assumes "0 \<le> n" "s \<noteq> [] \<Longrightarrow> \<not> is_digit (hd s)"
  shows "readNumber (format_int 0 n @ s) = Some (n, s)"
proof -
  have d: "\<forall>c \<in> set (format_int 0 n). is_digit c" using format_int_digits [OF assms(1), of 0] by (simp add: list_all_iff)
  have "takeWhile is_digit (format_int 0 n @ s) = format_int 0 n" "dropWhile is_digit (format_int 0 n @ s) = s"
    using d assms(2) by (cases s; simp add: takeWhile_append2 dropWhile_append2)+
  then show ?thesis using assms(1) by (simp add: readNumber_def)
qed

lemma readString_text:
  assumes "CHR 0x22 \<notin> set t"
  shows "readString (t @ CHR 0x22 # s) = (t, CHR 0x22 # s)"
proof -
  have "\<forall>c \<in> set t. c \<noteq> CHR 0x22" using assms by metis
  then show ?thesis by (simp add: readString_def takeWhile_append2 dropWhile_append2)
qed

lemma safe_quote: "\<forall>c \<in> set t. json_safe c \<Longrightarrow> CHR 0x22 \<notin> set t"
  by (auto simp: json_safe_def byte_of_def)

lemma safe_json_string: "\<forall>c \<in> set t. json_safe c \<Longrightarrow> json_string t = CHR 0x22 # t @ [CHR 0x22]"
  by (simp add: json_string_def json_chars_safe)

lemma field_names:
  "json_chars ''v'' = ''v''" "json_chars ''s'' = ''s''" "json_chars ''g'' = ''g''" "json_chars ''o'' = ''o''" "json_chars ''p'' = ''p''"
  "json_chars ''b'' = ''b''"
proof -
  have "json_safe q" if "q \<in> set ''vsgopb''" for q
    using that by (auto simp: json_safe_def byte_of_def)
  then have key: "json_chars [q] = [q]" if "q \<in> set ''vsgopb''" for q
    using that by (simp add: json_chars_safe)
  show "json_chars ''v'' = ''v''" "json_chars ''s'' = ''s''" "json_chars ''g'' = ''g''" "json_chars ''o'' = ''o''"
    "json_chars ''p'' = ''p''" "json_chars ''b'' = ''b''"
    by (rule key, simp)+
qed

lemma unmarshal_marshal:
  assumes n: "0 \<le> v" "0 \<le> c" "0 \<le> b" and s: "\<forall>x \<in> set g. json_safe x" "\<forall>x \<in> set k. json_safe x" "\<forall>x \<in> set p. json_safe x"
  shows "unmarshalPayload (marshalPayload \<lparr>cur_version = v, cur_schema = c, cur_generation = g, cur_order = k, cur_predicate = p,
    cur_boundary = b\<rparr>) = Some \<lparr>cur_version = v, cur_schema = c, cur_generation = g, cur_order = k, cur_predicate = p, cur_boundary = b\<rparr>"
proof -
  have e: "marshalPayload \<lparr>cur_version = v, cur_schema = c, cur_generation = g, cur_order = k, cur_predicate = p, cur_boundary = b\<rparr> =
    (''{'' @ quoted ''v'' @ '':'') @ format_int 0 v @ ('','' @ quoted ''s'' @ '':'') @ format_int 0 c @
    ('','' @ quoted ''g'' @ '':'' @ [CHR 0x22]) @ g @ (CHR 0x22 # '','' @ quoted ''o'' @ '':'' @ [CHR 0x22]) @ k @
    (CHR 0x22 # '','' @ quoted ''p'' @ '':'' @ [CHR 0x22]) @ p @ (CHR 0x22 # '','' @ quoted ''b'' @ '':'') @ format_int 0 b @ ''}''"
    using s by (simp add: marshalPayload_def json_field_def json_string_def json_chars_safe field_names quoted_def)
  have nd: "\<not> is_digit (CHR '','')" "\<not> is_digit (CHR ''}'')" by (simp_all add: is_digit_def)
  show ?thesis
    unfolding e unmarshalPayload_def readText_append Option.bind.bind_lunit
    using n nd s [THEN safe_quote]
    by (simp add: readNumber_text readString_text readText_append [of "_ # _", simplified] readText_def quoted_def)
qed

definition cursor_payload :: "sha256 \<Rightarrow> RevisionOrder \<Rightarrow> int \<Rightarrow> revisionCursorPayload" where
  "cursor_payload sha order boundary =
     \<lparr>cur_version = revisionCursorVersion, cur_schema = schemaVersion, cur_generation = expectedSchemaFingerprint,
      cur_order = orderString order, cur_predicate = revisionPredicateFingerprint sha, cur_boundary = boundary\<rparr>"

lemma cursor_payload_fields:
  "cur_version (cursor_payload sha order b) = revisionCursorVersion" "cur_schema (cursor_payload sha order b) = schemaVersion"
  "cur_generation (cursor_payload sha order b) = expectedSchemaFingerprint" "cur_order (cursor_payload sha order b) = orderString order"
  "cur_predicate (cursor_payload sha order b) = revisionPredicateFingerprint sha" "cur_boundary (cursor_payload sha order b) = b"
  by (simp_all add: cursor_payload_def)

lemma safe_fixed: "\<forall>x \<in> set expectedSchemaFingerprint. json_safe x" "\<forall>x \<in> set (orderString order). json_safe x"
  by (simp_all add: expectedSchemaFingerprint_def orderString_def json_safe_def byte_of_def split: RevisionOrder.splits)

lemma safe_fingerprint: "\<forall>x \<in> set (revisionPredicateFingerprint sha). json_safe x"
  unfolding revisionPredicateFingerprint_def fingerprintRevisionCursorPart_def using raw_url_chars(4) by blast

lemma unmarshal_cursor:
  assumes "0 < b"
  shows "unmarshalPayload (marshalPayload (cursor_payload sha order b)) = Some (cursor_payload sha order b)"
  unfolding cursor_payload_def
  by (rule unmarshal_marshal [OF _ _ _ safe_fixed safe_fingerprint]) (use assms in \<open>simp_all add: revisionCursorVersion_def schemaVersion_def\<close>)

lemma length_cursor:
  assumes sha: "\<And>x. length (sha x) = 32" and b: "0 < b" "b \<le> 9223372036854775807"
  shows "length (marshalPayload (cursor_payload sha order b)) \<le> 220"
proof -
  have f: "length (revisionPredicateFingerprint sha) = 43"
    by (simp add: revisionPredicateFingerprint_def fingerprintRevisionCursorPart_def length_raw_url sha)
  have "length (orderString order) \<le> 10" by (simp add: orderString_def split: RevisionOrder.splits)
  moreover have "length expectedSchemaFingerprint = 64" by (simp add: expectedSchemaFingerprint_def)
  moreover have "length (format_int 0 x) \<le> k" if "0 \<le> x" "x < 10 ^ k" "0 < k" for x k
    using that length_nat_text_le [of "nat x" k] by (simp add: format_int_nonneg pad0_def nat_less_iff)
  from this [of b 19] this [of 1 1] this [of 6 1]
  have "length (format_int 0 b) \<le> 19" "length (format_int 0 1) \<le> 1" "length (format_int 0 6) \<le> 1"
    using b by simp_all
  ultimately show ?thesis
    by (simp add: marshalPayload_def cursor_payload_def json_field_def json_string_def json_chars_safe field_names safe_fixed
      safe_fingerprint f revisionCursorVersion_def schemaVersion_def)
qed

lemma decode_encode_cursor:
  assumes sha: "\<And>x. length (sha x) = 32" and b: "0 < b" "b \<le> 9223372036854775807"
  shows "decodeRevisionCursor sha (encodeRevisionCursor sha order b) order' (revisionPredicateFingerprint sha) =
    (if orderString order = orderString order' then Inr b else Inl ErrInvalidArgument)"
proof -
  let ?m = "marshalPayload (cursor_payload sha order b)"
  let ?p = "raw_url_encode ?m" and ?c = "raw_url_encode (checksumRevisionCursor sha ?m)"
  have e: "encodeRevisionCursor sha order b = ?p @ CHR ''.'' # ?c"
    by (simp add: encodeRevisionCursor_def encodeRevisionCursorPayload_def cursor_payload_def Let_def)
  have m: "?m \<noteq> []" by (simp add: marshalPayload_def)
  have lm: "length ?m \<le> 220" by (rule length_cursor) (use sha b in simp_all)
  have "0 < length ?m" using m by simp
  then have "(4 * length ?m + 2) div 3 \<le> 300" "0 < (4 * length ?m + 2) div 3" using lm by linarith+
  moreover have k: "length (checksumRevisionCursor sha ?m) = 32" by (simp add: checksumRevisionCursor_def sha)
  moreover have lp: "length ?p = (4 * length ?m + 2) div 3" and lc: "length ?c = 43" by (simp_all add: length_raw_url k)
  ultimately have "length ?p \<le> 300" "0 < length ?p" by simp_all
  then have ne: "?p \<noteq> []" "?c \<noteq> []" "length (?p @ CHR ''.'' # ?c) \<le> 1024" using lc by auto
  have dots: "\<forall>x \<in> set ?p. x \<noteq> CHR ''.''" "CHR ''.'' \<notin> set ?c" using raw_url_chars(1) by fastforce+
  have t: "takeWhile (\<lambda>x. x \<noteq> CHR ''.'') (?p @ CHR ''.'' # ?c) = ?p" "dropWhile (\<lambda>x. x \<noteq> CHR ''.'') (?p @ CHR ''.'' # ?c) = CHR ''.'' # ?c"
    using dots(1) by (simp_all add: takeWhile_append2 dropWhile_append2)
  show ?thesis
    unfolding e decodeRevisionCursor_def Let_def t
    using ne dots(2) lm m k b
    by (simp add: raw_url_decode_encode unmarshal_cursor maxRevisionCursorLength_def cursor_payload_fields)
qed

text \<open>A cursor of the older form, the digits of its boundary, is upgraded to the cursor that the boundary has now.\<close>

lemma upgrade_legacy:
  assumes b: "0 < b" "b \<le> 9223372036854775807"
  shows "upgradeLegacyRevisionCursor sha (raw_url_encode (format_int 0 b)) = Some (encodeRevisionCursor sha RevisionOrderAscending b)"
proof -
  let ?t = "format_int 0 b"
  have l: "length ?t \<le> 19" using b length_nat_text_le [of "nat b" 19] by (simp add: format_int_nonneg pad0_def nat_less_iff)
  have "0 < length ?t" by simp
  then have "0 < (4 * length ?t + 2) div 3" "(4 * length ?t + 2) div 3 \<le> 1024" using l by linarith+
  then have "raw_url_encode ?t \<noteq> []" "length (raw_url_encode ?t) \<le> 1024" by (simp_all only: length_raw_url flip: length_greater_0_conv)
  moreover have "CHR ''.'' \<notin> set (raw_url_encode ?t)" using raw_url_chars(1) by fastforce
  ultimately show ?thesis
    using b l by (simp add: upgradeLegacyRevisionCursor_def raw_url_decode_encode maxRevisionCursorLength_def Let_def)
qed

lemma upgrade_not_legacy: "upgradeLegacyRevisionCursor sha (encodeRevisionCursor sha' order b) = None"
  by (simp add: upgradeLegacyRevisionCursor_def encodeRevisionCursor_def encodeRevisionCursorPayload_def Let_def)

end
