(* ===== verification/Store_Read.thy ===== *)
theory Store_Read
  imports Revision_Cursor Store_Properties
begin

text \<open>
  Reading committed revisions: \<open>internal/store/read.go\<close>.  A reader selects a snapshot (the newest revision, a
  revision by number, or the state at a moment), which is resolved to one revision before rows are read;
  the revision history is listed in pages joined by cursors.  Cancelled contexts, a closed store and errors
  of the driver are not modelled.
\<close>

section \<open>Snapshots\<close>

record Snapshot =
  snap_revision :: "int option"
  snap_time :: "int option"

definition IsCurrent :: "Snapshot \<Rightarrow> bool" where
  "IsCurrent s \<longleftrightarrow> snap_revision s = None \<and> snap_time s = None"

definition storeCurrentRevision :: "database \<Rightarrow> derror + int" where
  "storeCurrentRevision db = Inr (sealed_revision (db_revisions db))"

text \<open>\<open>SELECT revision FROM revisions WHERE sealed = 1 AND committed_ns <= ? ORDER BY committed_ns DESC, revision DESC LIMIT 1\<close>\<close>

definition revision_at :: "int \<Rightarrow> database \<Rightarrow> int option" where
  "revision_at nanoseconds db =
     (case rev (sort_key rev_ns (sort_key rev_no (filter (\<lambda>row. rev_sealed row \<and> rev_ns row \<le> nanoseconds) (db_revisions db)))) of
        [] \<Rightarrow> None
      | row # _ \<Rightarrow> Some (rev_no row))"

definition ResolveSnapshot :: "Snapshot \<Rightarrow> database \<Rightarrow> derror + int" where
  "ResolveSnapshot s db =
     (case (snap_revision s, snap_time s) of
        (Some _, Some _) \<Rightarrow> Inl ErrInvalidArgument
      | (Some revision, None) \<Rightarrow>
          if revision = 0 then Inr 0
          else if revision > 9223372036854775807 then Inl ErrNotFound
          else (case find (\<lambda>row. rev_no row = revision \<and> rev_sealed row) (db_revisions db) of
                  None \<Rightarrow> Inl ErrNotFound
                | Some _ \<Rightarrow> Inr revision)
      | (None, Some t) \<Rightarrow>
          bindE (invalid_argument (unixNano t)) (\<lambda>nanoseconds.
            case revision_at nanoseconds db of None \<Rightarrow> Inr 0 | Some revision \<Rightarrow> Inr revision)
      | (None, None) \<Rightarrow> storeCurrentRevision db)"

definition storeRevision :: "int \<Rightarrow> database \<Rightarrow> derror + RevisionInfo" where
  "storeRevision revision db =
     (if revision = 0 then Inl ErrNotFound
      else if revision > 9223372036854775807 then Inl ErrNotFound
      else case find (\<lambda>row. rev_no row = revision \<and> rev_sealed row) (db_revisions db) of
             None \<Rightarrow> Inl ErrNotFound
           | Some row \<Rightarrow> Inr (row_info row))"

definition storeGetNode :: "string \<Rightarrow> Snapshot \<Rightarrow> database \<Rightarrow> derror + Node" where
  "storeGetNode k s db =
     bindE (ResolveSnapshot s db) (\<lambda>revision. scanNode (select_at revision (ent_versions (db_nodes db)) k))"

definition storeGetEdge :: "string \<Rightarrow> Snapshot \<Rightarrow> database \<Rightarrow> derror + Edge" where
  "storeGetEdge k s db =
     bindE (ResolveSnapshot s db) (\<lambda>revision. scanEdge (select_at revision (ent_versions (db_edges db)) k))"

section \<open>Pages of the revision history\<close>

record Page =
  pg_limit :: int
  pg_after :: string

record RevisionPage =
  page_limit :: int
  page_cursor :: string
  page_order :: RevisionOrder

definition defaultPageSize :: int where "defaultPageSize = 100"
definition maxPageSize :: int where "maxPageSize = 1000"

definition pageLimit :: "int \<Rightarrow> derror + int" where
  "pageLimit most =
     (if most < 0 \<or> most > maxPageSize then Inl ErrInvalidArgument
      else if most = 0 then Inr defaultPageSize else Inr most)"

text \<open>The three queries of \<open>ListRevisionPage\<close>.\<close>

definition select_revisions :: "RevisionOrder \<Rightarrow> string \<Rightarrow> int \<Rightarrow> nat \<Rightarrow> database \<Rightarrow> revisionRow list" where
  "select_revisions order cursor boundary n db =
     (if order = RevisionOrderAscending
      then take n (sort_key rev_no (filter (\<lambda>row. rev_sealed row \<and> rev_no row > boundary) (db_revisions db)))
      else if cursor = []
      then take n (rev (sort_key rev_no (filter rev_sealed (db_revisions db))))
      else take n (rev (sort_key rev_no (filter (\<lambda>row. rev_sealed row \<and> rev_no row < boundary) (db_revisions db)))))"

definition ListRevisionPage :: "sha256 \<Rightarrow> RevisionPage \<Rightarrow> database \<Rightarrow> derror + RevisionInfo list \<times> string" where
  "ListRevisionPage sha page db =
     bindE (pageLimit (page_limit page)) (\<lambda>most.
     bindE (if Valid (page_order page) then Inr () else Inl ErrInvalidArgument) (\<lambda>_.
     bindE (if page_cursor page \<noteq> [] then decodeRevisionCursor sha (page_cursor page) (page_order page) (revisionPredicateFingerprint sha)
            else Inr 0) (\<lambda>boundary.
       let infos = map row_info (select_revisions (page_order page) (page_cursor page) boundary (nat most + 1) db)
       in if length infos > nat most
          then let infos = take (nat most) infos in Inr (infos, encodeRevisionCursor sha (page_order page) (ri_revision (last infos)))
          else Inr (infos, []))))"

definition ListRevisions :: "sha256 \<Rightarrow> Page \<Rightarrow> database \<Rightarrow> derror + RevisionInfo list \<times> string" where
  "ListRevisions sha page db =
     (let cursor = (if pg_after page \<noteq> []
                    then case upgradeLegacyRevisionCursor sha (pg_after page) of Some upgraded \<Rightarrow> upgraded | None \<Rightarrow> pg_after page
                    else pg_after page)
      in ListRevisionPage sha \<lparr>page_limit = pg_limit page, page_cursor = cursor, page_order = RevisionOrderAscending\<rparr> db)"

text \<open>
  A client that follows the cursors until a page has none.  The database may change between two pages: the
  page with number \<open>i\<close> is read from \<open>dbs i\<close>.  The result also says which request was the last.
\<close>

fun followPages :: "nat \<Rightarrow> sha256 \<Rightarrow> int \<Rightarrow> RevisionOrder \<Rightarrow> string \<Rightarrow> (nat \<Rightarrow> database) \<Rightarrow> nat \<Rightarrow> (derror + RevisionInfo list \<times> nat) option" where
  "followPages 0 sha most order cursor dbs i = None"
| "followPages (Suc fuel) sha most order cursor dbs i =
     (case ListRevisionPage sha \<lparr>page_limit = most, page_cursor = cursor, page_order = order\<rparr> (dbs i) of
        Inl e \<Rightarrow> Some (Inl e)
      | Inr (infos, next) \<Rightarrow>
          if next = [] then Some (Inr (infos, i))
          else map_option (\<lambda>r. bindE r (\<lambda>(rest, last). Inr (infos @ rest, last))) (followPages fuel sha most order next dbs (Suc i)))"

section \<open>Sealed revisions\<close>

text \<open>In a store at rest the rows are numbered from 1, sealed, and in the order of their times.\<close>

lemma store_rows:
  assumes "store_ok db"
  shows "map rev_no (db_revisions db) = [1..current_revision db]" "sorted_wrt (<) (map rev_ns (db_revisions db))"
    "0 \<le> current_revision db" "\<forall>row \<in> set (db_revisions db). rev_sealed row" "length (db_revisions db) = nat (current_revision db)"
proof -
  note o = store_ok_sealed(3) [OF assms, unfolded revisions_ok_def]
  show r: "map rev_no (db_revisions db) = [1..current_revision db]" using o by simp
  show "sorted_wrt (<) (map rev_ns (db_revisions db))" "0 \<le> current_revision db" "\<forall>row \<in> set (db_revisions db). rev_sealed row"
    using o by simp_all
  show "length (db_revisions db) = nat (current_revision db)" using arg_cong [OF r, of length] by simp
qed

lemma row_at:
  assumes "store_ok db" "n < length (db_revisions db)"
  shows "rev_no (db_revisions db ! n) = int n + 1"
proof -
  have "map rev_no (db_revisions db) ! n = [1..current_revision db] ! n" by (simp only: store_rows(1) [OF assms(1)])
  then show ?thesis using assms(2) store_rows(5) [OF assms(1)] by simp
qed

text \<open>Sorting by number or by time leaves the rows, and any selection of them, as they are.\<close>

lemma sorted_rows:
  assumes "store_ok db"
  shows "sort_key rev_no (filter P (db_revisions db)) = filter P (db_revisions db)"
    "sort_key rev_ns (filter P (db_revisions db)) = filter P (db_revisions db)"
proof -
  have "sorted (map rev_no (db_revisions db))" unfolding store_rows(1) [OF assms] by simp
  moreover have "sorted (map rev_ns (db_revisions db))"
    using store_rows(2) [OF assms] strict_sorted_imp_sorted by blast
  ultimately show "sort_key rev_no (filter P (db_revisions db)) = filter P (db_revisions db)"
    "sort_key rev_ns (filter P (db_revisions db)) = filter P (db_revisions db)"
    by (intro sorted_sort_id sort_key_id_if_sorted; simp add: sorted_filter)+
qed

lemma rows_monotone:
  assumes s: "store_ok db" and r: "x \<in> set (db_revisions db)" "y \<in> set (db_revisions db)"
  shows "rev_no x \<le> rev_no y \<longleftrightarrow> rev_ns x \<le> rev_ns y"
proof -
  obtain i j where n: "i < length (db_revisions db)" "x = db_revisions db ! i" "j < length (db_revisions db)" "y = db_revisions db ! j"
    using r by (auto simp: in_set_conv_nth)
  have less: "rev_ns (db_revisions db ! a) < rev_ns (db_revisions db ! b)" if "a < b" "b < length (db_revisions db)" for a b
    using sorted_wrt_nth_less [OF store_rows(2) [OF s] that(1)] that by simp
  have "rev_no x \<le> rev_no y \<longleftrightarrow> i \<le> j" using n row_at [OF s] by simp
  also have "\<dots> \<longleftrightarrow> rev_ns x \<le> rev_ns y"
    using less [of i j] less [of j i] n by (cases i j rule: linorder_cases) auto
  finally show ?thesis .
qed

lemma revision_numbers:
  assumes "store_ok db"
  shows "(\<exists>row \<in> set (db_revisions db). rev_no row = n) \<longleftrightarrow> 1 \<le> n \<and> n \<le> current_revision db"
proof -
  have "n \<in> set (map rev_no (db_revisions db)) \<longleftrightarrow> 1 \<le> n \<and> n \<le> current_revision db"
    unfolding store_rows(1) [OF assms] by simp
  then show ?thesis by auto
qed

lemma revision_at_exact:
  fixes t :: int
  assumes s: "store_ok db"
  defines "r \<equiv> (case revision_at t db of None \<Rightarrow> 0 | Some n \<Rightarrow> n)"
  shows "0 \<le> r" "r \<le> current_revision db" "\<forall>row \<in> set (db_revisions db). rev_ns row \<le> t \<longleftrightarrow> rev_no row \<le> r"
proof -
  let ?rows = "filter (\<lambda>row. rev_sealed row \<and> rev_ns row \<le> t) (db_revisions db)"
  have all: "row \<in> set ?rows \<longleftrightarrow> row \<in> set (db_revisions db) \<and> rev_ns row \<le> t" for row
    using store_rows(4) [OF s] by auto
  have at: "revision_at t db = (case rev ?rows of [] \<Rightarrow> None | row # _ \<Rightarrow> Some (rev_no row))"
    unfolding revision_at_def sorted_rows [OF s] ..
  have "0 \<le> r \<and> r \<le> current_revision db \<and> (\<forall>row \<in> set (db_revisions db). rev_ns row \<le> t \<longleftrightarrow> rev_no row \<le> r)"
  proof (cases ?rows rule: rev_cases)
    case Nil
    then have "r = 0" by (simp add: r_def at)
    moreover have "\<not> rev_ns row \<le> t \<and> \<not> rev_no row \<le> 0" if "row \<in> set (db_revisions db)" for row
      using that all [of row] Nil revision_numbers [OF s, of "rev_no row"] by auto
    ultimately show ?thesis using store_rows(3) [OF s] by auto
  next
    case (snoc rs top)
    then have r: "r = rev_no top" by (simp add: r_def at)
    have top: "top \<in> set (db_revisions db)" "rev_ns top \<le> t" using all [of top] snoc by auto
    have "sorted (map rev_no ?rows)" by (subst sorted_rows(1) [OF s, symmetric]) simp
    then have "rev_no row \<le> rev_no top" if "row \<in> set ?rows" for row
      using that unfolding snoc by (auto simp: sorted_append)
    then have "rev_ns row \<le> t \<longleftrightarrow> rev_no row \<le> r" if "row \<in> set (db_revisions db)" for row
      using that top all [of row] rows_monotone [OF s that top(1)] by (auto simp: r)
    moreover have "0 \<le> r \<and> r \<le> current_revision db" using revision_numbers [OF s, of r] top(1) by (auto simp: r)
    ultimately show ?thesis by blast
  qed
  then show "0 \<le> r" "r \<le> current_revision db" "\<forall>row \<in> set (db_revisions db). rev_ns row \<le> t \<longleftrightarrow> rev_no row \<le> r" by blast+
qed

section \<open>Reading a page\<close>

lemma rows_after:
  assumes "store_ok db" "0 \<le> b"
  shows "filter (\<lambda>row. rev_sealed row \<and> rev_no row > b) (db_revisions db) = drop (nat b) (db_revisions db)"
proof -
  have f: "filter P xs = drop k xs" if "\<And>n. n < length xs \<Longrightarrow> P (xs ! n) \<longleftrightarrow> k \<le> n" for P :: "revisionRow \<Rightarrow> bool" and k xs
  proof -
    have "filter P (take k xs) = []" using that by (auto simp: filter_empty_conv in_set_conv_nth)
    moreover have "filter P (drop k xs) = drop k xs" using that by (auto simp: filter_id_conv in_set_conv_nth)
    ultimately show ?thesis using filter_append [of P "take k xs" "drop k xs"] by simp
  qed
  show ?thesis using row_at [OF assms(1)] store_rows(4) [OF assms(1)] assms(2) by (intro f) (auto simp: nat_le_iff)
qed

lemma rows_before:
  assumes "store_ok db" "1 \<le> b"
  shows "filter (\<lambda>row. rev_sealed row \<and> rev_no row < b) (db_revisions db) = take (nat (b - 1)) (db_revisions db)"
proof -
  have f: "filter P xs = take k xs" if "\<And>n. n < length xs \<Longrightarrow> P (xs ! n) \<longleftrightarrow> n < k" for P :: "revisionRow \<Rightarrow> bool" and k xs
  proof -
    have "filter P (drop k xs) = []" using that by (auto simp: filter_empty_conv in_set_conv_nth)
    moreover have "filter P (take k xs) = take k xs" using that by (auto simp: filter_id_conv in_set_conv_nth)
    ultimately show ?thesis using filter_append [of P "take k xs" "drop k xs"] by simp
  qed
  show ?thesis using row_at [OF assms(1)] store_rows(4) [OF assms(1)] assms(2) by (intro f) (auto simp: zless_nat_eq_int_zless)
qed

definition cursor_at :: "sha256 \<Rightarrow> RevisionOrder \<Rightarrow> int \<Rightarrow> string" where
  "cursor_at sha order b = (if b = 0 then [] else encodeRevisionCursor sha order b)"

definition history :: "database \<Rightarrow> RevisionInfo list" where
  "history db = map row_info (db_revisions db)"

lemma pageLimit_bounds: "pageLimit most = Inr m \<Longrightarrow> 0 < m \<and> m \<le> 1000"
  by (auto simp: pageLimit_def maxPageSize_def defaultPageSize_def split: if_splits)

lemma cursor_nonempty: "encodeRevisionCursor sha order b \<noteq> []"
  by (simp add: encodeRevisionCursor_def encodeRevisionCursorPayload_def Let_def)

lemma decode_cursor_at:
  assumes "\<forall>x. length (sha x) = 32" "0 \<le> b" "b \<le> 9223372036854775807"
  shows "(if cursor_at sha order b \<noteq> [] then decodeRevisionCursor sha (cursor_at sha order b) order (revisionPredicateFingerprint sha)
    else Inr 0) = Inr b"
  using decode_encode_cursor [of sha b order order] assms by (auto simp: cursor_at_def cursor_nonempty)

lemma page_cut:
  assumes sha: "\<forall>x. length (sha x) = 32" and m: "pageLimit most = Inr m" and o: "Valid order"
    and b: "0 \<le> b" "b \<le> 9223372036854775807"
    and q: "select_revisions order (cursor_at sha order b) b (nat m + 1) db = take (nat m + 1) rows"
  shows "ListRevisionPage sha \<lparr>page_limit = most, page_cursor = cursor_at sha order b, page_order = order\<rparr> db =
    Inr (map row_info (take (nat m) rows),
         if nat m < length rows then encodeRevisionCursor sha order (ri_revision (last (map row_info (take (nat m) rows)))) else [])"
proof -
  have "ListRevisionPage sha \<lparr>page_limit = most, page_cursor = cursor_at sha order b, page_order = order\<rparr> db =
    (let infos = map row_info (take (nat m + 1) rows)
     in if length infos > nat m
        then let infos = take (nat m) infos in Inr (infos, encodeRevisionCursor sha order (ri_revision (last infos)))
        else Inr (infos, []))"
    unfolding ListRevisionPage_def RevisionPage.select_convs m bindE_Inr decode_cursor_at [OF sha b] q using o by simp
  moreover have "take (nat m) (map row_info (take (nat m + 1) rows)) = map row_info (take (nat m) rows)" by (simp add: take_map)
  ultimately show ?thesis by (cases "nat m < length rows") (simp_all add: Let_def)
qed

lemma page_ascending:
  assumes s: "store_ok db" and sha: "\<forall>x. length (sha x) = 32" and m: "pageLimit most = Inr m"
    and b: "0 \<le> b" "b \<le> 9223372036854775807"
  shows "ListRevisionPage sha \<lparr>page_limit = most, page_cursor = cursor_at sha RevisionOrderAscending b, page_order = RevisionOrderAscending\<rparr> db =
    Inr (take (nat m) (drop (nat b) (history db)),
         if nat b + nat m < length (history db) then cursor_at sha RevisionOrderAscending (b + m) else [])"
proof -
  let ?rows = "drop (nat b) (db_revisions db)"
  have q: "select_revisions RevisionOrderAscending c b n db = take n ?rows" for c n
    unfolding select_revisions_def sorted_rows(1) [OF s] unfolding rows_after [OF s b(1)] by simp
  have last: "ri_revision (last (map row_info (take (nat m) ?rows))) = b + m" if "nat m < length ?rows"
  proof -
    have "0 < nat m" using pageLimit_bounds [OF m] by simp
    then have "last (map row_info (take (nat m) ?rows)) = row_info (db_revisions db ! (nat b + (nat m - 1)))"
      using that by (subst last_conv_nth) auto
    moreover have "int (nat m - Suc 0) + 1 = m" using \<open>0 < nat m\<close> by (simp add: of_nat_diff)
    ultimately show ?thesis using row_at [OF s, of "nat b + (nat m - 1)"] that \<open>0 < nat m\<close> b(1) by (simp add: row_info_def)
  qed
  show ?thesis
    using page_cut [OF sha m _ b q] last b m pageLimit_bounds [OF m]
    by (auto simp: Valid_def history_def drop_map take_map cursor_at_def)
qed

lemma page_descending:
  assumes s: "store_ok db" and sha: "\<forall>x. length (sha x) = 32" and m: "pageLimit most = Inr m"
    and b: "0 \<le> b" "b \<le> 9223372036854775807" and c: "current_revision db \<le> 9223372036854775807"
  defines "older \<equiv> (if b = 0 then history db else take (nat (b - 1)) (history db))"
  shows "ListRevisionPage sha \<lparr>page_limit = most, page_cursor = cursor_at sha RevisionOrderDescending b, page_order = RevisionOrderDescending\<rparr> db =
    Inr (take (nat m) (rev older),
         if nat m < length older then cursor_at sha RevisionOrderDescending (int (length older) - m + 1) else [])"
proof -
  let ?rows = "if b = 0 then db_revisions db else take (nat (b - 1)) (db_revisions db)"
  have older: "older = map row_info ?rows" by (simp add: older_def history_def take_map)
  have q: "select_revisions RevisionOrderDescending (cursor_at sha RevisionOrderDescending b) b n db = take n (rev ?rows)" for n
  proof (cases "b = 0")
    case True
    have "filter rev_sealed (db_revisions db) = db_revisions db" using store_rows(4) [OF s] by (simp add: filter_id_conv)
    then show ?thesis using sorted_rows(1) [OF s, of rev_sealed] True by (simp add: select_revisions_def cursor_at_def)
  next
    case False
    then have "1 \<le> b" using b by simp
    then show ?thesis
      unfolding select_revisions_def sorted_rows(1) [OF s] unfolding rows_before [OF s \<open>1 \<le> b\<close>] by (simp add: cursor_at_def cursor_nonempty)
  qed
  have last: "ri_revision (last (map row_info (take (nat m) (rev ?rows)))) = int (length ?rows) - m + 1" if "nat m < length ?rows"
  proof -
    have "0 < nat m" using pageLimit_bounds [OF m] by simp
    then have "last (map row_info (take (nat m) (rev ?rows))) = row_info (?rows ! (length ?rows - nat m))"
      using that by (subst last_conv_nth) (auto simp: rev_nth)
    moreover have "?rows ! (length ?rows - nat m) = db_revisions db ! (length ?rows - nat m)" using that \<open>0 < nat m\<close> by auto
    moreover have "length ?rows - nat m < length (db_revisions db)" using that \<open>0 < nat m\<close> by auto
    ultimately show ?thesis using row_at [OF s, of "length ?rows - nat m"] that \<open>0 < nat m\<close> by (simp add: row_info_def of_nat_diff)
  qed
  have len: "length older = length ?rows" by (simp only: older length_map)
  have "rev older = map row_info (rev ?rows)" by (simp only: older rev_map)
  then have page: "take (nat m) (rev older) = map row_info (take (nat m) (rev ?rows))" by (simp only: take_map)
  have onward: "nat m < length ?rows \<Longrightarrow> int (length ?rows) - m + 1 \<noteq> 0" using pageLimit_bounds [OF m] by linarith
  have "ListRevisionPage sha \<lparr>page_limit = most, page_cursor = cursor_at sha RevisionOrderDescending b, page_order = RevisionOrderDescending\<rparr> db =
    Inr (map row_info (take (nat m) (rev ?rows)), if nat m < length (rev ?rows)
      then encodeRevisionCursor sha RevisionOrderDescending (ri_revision (last (map row_info (take (nat m) (rev ?rows))))) else [])"
    by (rule page_cut [OF sha m _ b q]) (simp add: Valid_def)
  also have "\<dots> = Inr (take (nat m) (rev older),
      if nat m < length older then cursor_at sha RevisionOrderDescending (int (length older) - m + 1) else [])"
    unfolding page len length_rev using last onward by (simp add: cursor_at_def split del: if_split cong: if_cong)
  finally show ?thesis .
qed

text \<open>Databases between which writes have run.\<close>

inductive wrote :: "database \<Rightarrow> database \<Rightarrow> bool" where
  wrote_Write: "is_callback fn \<Longrightarrow> Write clock meta fn db = (q, db') \<Longrightarrow> wrote db db'"

lemma wrote_history:
  assumes "wrote db db'" "store_ok db"
  shows "store_ok db' \<and> (\<exists>more. history db' = history db @ more)"
  using assms(1)
proof cases
  case (wrote_Write fn clock meta q)
  from assms(2) this show ?thesis
  proof (cases rule: Write_cases)
    case (commit tx)
    then show ?thesis using assms(2) by (auto simp: outcome_def history_def split: if_splits)
  qed (use assms(2) in auto)
qed

lemma writes_history:
  assumes "wrote\<^sup>*\<^sup>* db db'" "store_ok db"
  shows "store_ok db' \<and> (\<exists>more. history db' = history db @ more)"
  using assms by (induction rule: rtranclp_induct) (auto dest: wrote_history)

lemma grows:
  assumes "store_ok (dbs 0)" "\<forall>i. wrote\<^sup>*\<^sup>* (dbs i) (dbs (Suc i))"
  shows "store_ok (dbs i)" "i \<le> k \<Longrightarrow> \<exists>more. history (dbs k) = history (dbs i) @ more"
proof -
  show ok: "store_ok (dbs i)" for i using assms writes_history by (induction i) blast+
  show "\<exists>more. history (dbs k) = history (dbs i) @ more" if "i \<le> k"
    using that
  proof (induction k)
    case (Suc k)
    moreover obtain more where "history (dbs (Suc k)) = history (dbs k) @ more" using assms(2) writes_history ok by blast
    ultimately show ?case by (cases "i = Suc k") auto
  qed simp
qed

lemma length_history: "store_ok db \<Longrightarrow> int (length (history db)) = current_revision db"
  using store_rows(3,5) by (simp add: history_def)

lemma follow_ascending:
  assumes g: "store_ok (dbs 0)" "\<forall>i. wrote\<^sup>*\<^sup>* (dbs i) (dbs (Suc i))" and n: "\<forall>i. current_revision (dbs i) \<le> N" "N \<le> 9223372036854775807"
    and sha: "\<forall>x. length (sha x) = 32" and m: "pageLimit most = Inr m"
    and b: "0 \<le> b" "b \<le> current_revision (dbs i)" "N < int fuel + b"
  shows "\<exists>k \<ge> i. followPages fuel sha most RevisionOrderAscending (cursor_at sha RevisionOrderAscending b) dbs i =
    Some (Inr (drop (nat b) (history (dbs k)), k))"
  using b
proof (induction fuel arbitrary: i b)
  case 0
  then show ?case using n(1) [rule_format, of i] by simp
next
  case (Suc fuel)
  let ?h = "history (dbs i)" and ?a = "RevisionOrderAscending"
  have big: "b \<le> 9223372036854775807" using Suc.prems n(1) [rule_format, of i] n(2) by linarith
  note page = page_ascending [OF grows(1) [OF g, of i] sha m Suc.prems(1) big]
  note mb = pageLimit_bounds [OF m]
  show ?case
  proof (cases "nat b + nat m < length ?h")
    case False
    then have "take (nat m) (drop (nat b) ?h) = drop (nat b) ?h" by simp
    then show ?thesis using page False by auto
  next
    case True
    have l: "int (length ?h) = current_revision (dbs i)" by (rule length_history [OF grows(1) [OF g]])
    obtain more where more: "history (dbs (Suc i)) = ?h @ more" using grows(2) [OF g, of i "Suc i"] by auto
    have "0 \<le> b + m" "b + m \<le> current_revision (dbs (Suc i))" "N < int fuel + (b + m)"
      using Suc.prems mb True l length_history [OF grows(1) [OF g, of "Suc i"]] more by auto
    from Suc.IH [OF this] obtain k where k: "Suc i \<le> k"
      "followPages fuel sha most ?a (cursor_at sha ?a (b + m)) dbs (Suc i) = Some (Inr (drop (nat (b + m)) (history (dbs k)), k))"
      by blast
    obtain rest where rest: "history (dbs k) = ?h @ rest" using grows(2) [OF g, of i k] k(1) by auto
    have s: "nat (b + m) = nat b + nat m" using Suc.prems(1) mb by (simp add: nat_add_distrib)
    have "take (nat m) (drop (nat b) ?h) @ drop (nat (b + m)) (history (dbs k)) = drop (nat b) (history (dbs k))"
    proof -
      have "take (nat m) (drop (nat b) ?h) = take (nat m) (drop (nat b) (history (dbs k)))" using True by (simp add: rest)
      then show ?thesis by (simp add: s) (metis add.commute append_take_drop_id drop_drop)
    qed
    moreover have "cursor_at sha ?a (b + m) \<noteq> []" using Suc.prems(1) mb by (simp add: cursor_at_def cursor_nonempty)
    ultimately show ?thesis using page True k by (intro exI [of _ k]) simp
  qed
qed

lemma follow_descending:
  assumes g: "store_ok (dbs 0)" "\<forall>i. wrote\<^sup>*\<^sup>* (dbs i) (dbs (Suc i))" and n: "\<forall>i. current_revision (dbs i) \<le> N" "N \<le> 9223372036854775807"
    and sha: "\<forall>x. length (sha x) = 32" and m: "pageLimit most = Inr m"
    and b: "0 < b" "b \<le> current_revision (dbs 0)" "b \<le> int fuel"
  shows "\<exists>k. followPages fuel sha most RevisionOrderDescending (cursor_at sha RevisionOrderDescending b) dbs i =
    Some (Inr (rev (take (nat (b - 1)) (history (dbs 0))), k))"
  using b
proof (induction fuel arbitrary: i b)
  case (Suc fuel)
  let ?d = "RevisionOrderDescending"
  define h where "h = take (nat (b - 1)) (history (dbs 0))"
  have big: "0 \<le> b" "b \<le> 9223372036854775807" "current_revision (dbs i) \<le> 9223372036854775807"
    using Suc.prems n(1) [rule_format, of 0] n(1) [rule_format, of i] n(2) by linarith+
  note mb = pageLimit_bounds [OF m]
  have l: "int (length (history (dbs 0))) = current_revision (dbs 0)" by (rule length_history [OF g(1)])
  obtain more where "history (dbs i) = history (dbs 0) @ more" using grows(2) [OF g, of 0 i] by auto
  then have h: "(if b = 0 then history (dbs i) else take (nat (b - 1)) (history (dbs i))) = h" using Suc.prems l by (simp add: h_def)
  note page = page_descending [OF grows(1) [OF g, of i] sha m big, unfolded h]
  have len: "int (length h) = b - 1" using Suc.prems l by (simp add: h_def)
  show ?case
  proof (cases "nat m < length h")
    case False
    then show ?thesis using page by (simp flip: h_def)
  next
    case True
    let ?b = "int (length h) - m + 1"
    have "0 < ?b" "?b \<le> current_revision (dbs 0)" "?b \<le> int fuel" using Suc.prems mb True len by linarith+
    from Suc.IH [OF this, of "Suc i"] obtain k where ih:
      "followPages fuel sha most ?d (cursor_at sha ?d ?b) dbs (Suc i) = Some (Inr (rev (take (nat (?b - 1)) (history (dbs 0))), k))" ..
    have "cursor_at sha ?d ?b \<noteq> []" using \<open>0 < ?b\<close> by (simp add: cursor_at_def cursor_nonempty)
    moreover have "take (nat m) (rev h) @ rev (take (nat (?b - 1)) (history (dbs 0))) = rev h"
    proof -
      have "nat (?b - 1) = length h - nat m" using True mb by linarith
      moreover have "length h \<le> nat (b - 1)" by (simp add: h_def)
      ultimately have "take (nat (?b - 1)) (history (dbs 0)) = take (length h - nat m) h" by (simp add: h_def min_def)
      then show ?thesis by (simp add: take_rev flip: rev_append)
    qed
    ultimately show ?thesis using page True ih by (simp flip: h_def)
  qed
qed simp

lemma first_descending:
  assumes g: "store_ok (dbs 0)" "\<forall>i. wrote\<^sup>*\<^sup>* (dbs i) (dbs (Suc i))" and n: "\<forall>i. current_revision (dbs i) \<le> N" "N \<le> 9223372036854775807"
    and sha: "\<forall>x. length (sha x) = 32" and m: "pageLimit most = Inr m"
  shows "\<exists>k. followPages (nat N + 1) sha most RevisionOrderDescending [] dbs 0 = Some (Inr (rev (history (dbs 0)), k))"
proof -
  let ?d = "RevisionOrderDescending"
  define h where "h = history (dbs 0)"
  have big: "current_revision (dbs 0) \<le> N" "current_revision (dbs 0) \<le> 9223372036854775807" using n by (blast, metis order_trans)
  have len: "int (length h) = current_revision (dbs 0)" unfolding h_def by (rule length_history [OF g(1)])
  note mb = pageLimit_bounds [OF m]
  have page: "ListRevisionPage sha \<lparr>page_limit = most, page_cursor = [], page_order = ?d\<rparr> (dbs 0) =
    Inr (take (nat m) (rev h), if nat m < length h then cursor_at sha ?d (int (length h) - m + 1) else [])"
    using page_descending [OF g(1) sha m, of 0] big(2) by (simp add: cursor_at_def h_def)
  show ?thesis
  proof (cases "nat m < length h")
    case False
    then show ?thesis using page by (simp flip: h_def)
  next
    case True
    let ?b = "int (length h) - m + 1"
    have b: "0 < ?b" "?b \<le> current_revision (dbs 0)" "?b \<le> int (nat N)" using mb True len big by linarith+
    from follow_descending [OF g n sha m b, of 1, folded h_def] obtain k where rest:
      "followPages (nat N) sha most ?d (cursor_at sha ?d ?b) dbs 1 = Some (Inr (rev (take (nat (?b - 1)) h), k))" ..
    have "cursor_at sha ?d ?b \<noteq> []" using b(1) by (simp add: cursor_at_def cursor_nonempty)
    moreover have "take (nat m) (rev h) @ rev (take (nat (?b - 1)) h) = rev h"
    proof -
      have "nat (?b - 1) = length h - nat m" using True mb by linarith
      then show ?thesis by (simp add: take_rev flip: rev_append)
    qed
    ultimately show ?thesis using page True rest by (simp flip: h_def)
  qed
qed

section \<open>Reading at a snapshot\<close>

lemma select_at_past: "past r es k = map_option ver_data (select_at r (ent_versions es) k)"
  by (simp add: past_def view_at_def)

lemma snapshot_node:
  assumes s: "store_ok db" and r: "ResolveSnapshot s db = Inr r"
  shows "case past r (db_nodes db) k of
      None \<Rightarrow> storeGetNode k s db = Inl ErrNotFound
    | Some d \<Rightarrow> \<exists>n. storeGetNode k s db = Inr n \<and> node_id n = k \<and> node_labels n = nd_labels d \<and>
        decodeProperties (nd_properties d) = Inr (node_properties n) \<and> node_body n = nd_body d \<and> node_from n \<le> r \<and>
        (\<forall>m. node_to n = Some m \<longrightarrow> r < m)"
proof (cases "select_at r (ent_versions (db_nodes db)) k")
  case None
  then show ?thesis by (simp add: select_at_past storeGetNode_def r scanNode_def)
next
  case (Some v)
  note ok = store_ok_sealed(4) [OF s]
  have "history_ok (current_revision db) (ent_versions (db_nodes db))" using db_okD(2) [OF ok] by (simp add: entities_ok_def)
  then have v: "v \<in> set (ent_versions (db_nodes db))" "ver_id v = k" "visible r v" using Some by (simp_all add: select_at_Some)
  then have "node_value_ok (ver_data v)" using ok by (simp add: db_ok_def)
  then obtain p where "decodeLabels (nd_labels (ver_data v)) = Inr (nd_labels (ver_data v))"
    "decodeProperties (nd_properties (ver_data v)) = Inr p"
    by (auto simp: node_value_ok_def is_ok_iff)
  then have "storeGetNode k s db = Inr \<lparr>node_id = k, node_labels = nd_labels (ver_data v), node_properties = p,
      node_body = nd_body (ver_data v), node_from = ver_from v, node_to = ver_to v\<rparr>"
    using v(2) by (simp add: storeGetNode_def r Some scanNode_def corrupt_def)
  then show ?thesis
    using v(3) \<open>decodeProperties (nd_properties (ver_data v)) = Inr p\<close> by (auto simp: select_at_past Some visible_def)
qed

lemma snapshot_edge:
  assumes s: "store_ok db" and r: "ResolveSnapshot s db = Inr r"
  shows "case past r (db_edges db) k of
      None \<Rightarrow> storeGetEdge k s db = Inl ErrNotFound
    | Some d \<Rightarrow> \<exists>e. storeGetEdge k s db = Inr e \<and> edge_id e = k \<and> edge_source e = ed_from d \<and> edge_target e = ed_to d \<and>
        edge_type e = ed_type d \<and> edge_position e = ed_position d \<and> decodeProperties (ed_properties d) = Inr (edge_properties e) \<and>
        edge_from e \<le> r \<and> (\<forall>m. edge_to e = Some m \<longrightarrow> r < m)"
proof (cases "select_at r (ent_versions (db_edges db)) k")
  case None
  then show ?thesis by (simp add: select_at_past storeGetEdge_def r scanEdge_def)
next
  case (Some v)
  note ok = store_ok_sealed(4) [OF s]
  have "history_ok (current_revision db) (ent_versions (db_edges db))" using db_okD(3) [OF ok] by (simp add: entities_ok_def)
  then have v: "v \<in> set (ent_versions (db_edges db))" "ver_id v = k" "visible r v" using Some by (simp_all add: select_at_Some)
  then have "edge_value_ok (ver_data v)" using ok by (simp add: db_ok_def)
  then obtain p where p: "decodeProperties (ed_properties (ver_data v)) = Inr p" by (auto simp: edge_value_ok_def is_ok_iff)
  then have "storeGetEdge k s db = Inr \<lparr>edge_id = k, edge_source = ed_from (ver_data v), edge_type = ed_type (ver_data v),
      edge_target = ed_to (ver_data v), edge_position = ed_position (ver_data v), edge_properties = p, edge_from = ver_from v,
      edge_to = ver_to v\<rparr>"
    using v(2) by (simp add: storeGetEdge_def r Some scanEdge_def corrupt_def)
  then show ?thesis using v(3) p by (auto simp: select_at_past Some visible_def)
qed

lemma resolve_revision:
  assumes "store_ok db" "0 \<le> n"
  shows "ResolveSnapshot \<lparr>snap_revision = Some n, snap_time = None\<rparr> db =
    (if n \<le> current_revision db \<and> n \<le> 9223372036854775807 then Inr n else Inl ErrNotFound)"
proof -
  have "find (\<lambda>row. rev_no row = n \<and> rev_sealed row) (db_revisions db) = None \<longleftrightarrow> \<not> (1 \<le> n \<and> n \<le> current_revision db)"
    unfolding find_None_iff revision_numbers [OF assms(1), symmetric] using store_rows(4) [OF assms(1)] by auto
  then show ?thesis
    using assms(2) store_rows(3) [OF assms(1)] by (auto simp: ResolveSnapshot_def split: option.splits)
qed

text \<open>C13: A snapshot of a store at rest resolves to the newest revision, to the revision it names if that exists, or for
  a moment to the revision that was newest then; and reading an entity at it gives exactly the version in
  force at that revision, ErrNotFound if there is none, and never an error of corruption.\<close>

theorem snapshot_reads_exact:
  assumes s: "store_ok db"
  shows "ResolveSnapshot \<lparr>snap_revision = None, snap_time = None\<rparr> db = Inr (current_revision db) \<and>
    (\<forall>n \<ge> 0. ResolveSnapshot \<lparr>snap_revision = Some n, snap_time = None\<rparr> db =
       (if n \<le> current_revision db \<and> n \<le> 9223372036854775807 then Inr n else Inl ErrNotFound)) \<and>
    (\<forall>t. in64 t \<longrightarrow> (\<exists>r. ResolveSnapshot \<lparr>snap_revision = None, snap_time = Some t\<rparr> db = Inr r \<and> 0 \<le> r \<and> r \<le> current_revision db \<and>
       (\<forall>row \<in> set (db_revisions db). rev_ns row \<le> t \<longleftrightarrow> rev_no row \<le> r))) \<and>
    (\<forall>r k. ResolveSnapshot snap db = Inr r \<longrightarrow>
       (case past r (db_nodes db) k of
          None \<Rightarrow> storeGetNode k snap db = Inl ErrNotFound
        | Some d \<Rightarrow> \<exists>n. storeGetNode k snap db = Inr n \<and> node_id n = k \<and> node_labels n = nd_labels d \<and>
            decodeProperties (nd_properties d) = Inr (node_properties n) \<and> node_body n = nd_body d \<and> node_from n \<le> r \<and>
            (\<forall>m. node_to n = Some m \<longrightarrow> r < m)) \<and>
       (case past r (db_edges db) k of
          None \<Rightarrow> storeGetEdge k snap db = Inl ErrNotFound
        | Some d \<Rightarrow> \<exists>e. storeGetEdge k snap db = Inr e \<and> edge_id e = k \<and> edge_source e = ed_from d \<and> edge_target e = ed_to d \<and>
            edge_type e = ed_type d \<and> edge_position e = ed_position d \<and> decodeProperties (ed_properties d) = Inr (edge_properties e) \<and>
            edge_from e \<le> r \<and> (\<forall>m. edge_to e = Some m \<longrightarrow> r < m)))"
proof (intro conjI allI impI)
  show "ResolveSnapshot \<lparr>snap_revision = None, snap_time = None\<rparr> db = Inr (current_revision db)"
    by (simp add: ResolveSnapshot_def storeCurrentRevision_def current_revision_def)
  show "ResolveSnapshot \<lparr>snap_revision = Some n, snap_time = None\<rparr> db =
      (if n \<le> current_revision db \<and> n \<le> 9223372036854775807 then Inr n else Inl ErrNotFound)" if "0 \<le> n" for n
    by (rule resolve_revision [OF s that])
  show "\<exists>r. ResolveSnapshot \<lparr>snap_revision = None, snap_time = Some t\<rparr> db = Inr r \<and> 0 \<le> r \<and> r \<le> current_revision db \<and>
      (\<forall>row \<in> set (db_revisions db). rev_ns row \<le> t \<longleftrightarrow> rev_no row \<le> r)" if "in64 t" for t
    using that revision_at_exact [OF s, of t]
    by (intro exI [of _ "case revision_at t db of None \<Rightarrow> 0 | Some n \<Rightarrow> n"])
      (simp add: ResolveSnapshot_def unixNano_def invalid_argument_def in64_def split: option.splits)
qed (use snapshot_node [OF s] snapshot_edge [OF s] in blast)+

text \<open>A store with three revisions of an empty graph.\<close>

definition three_revisions :: database where
  "three_revisions = empty_db\<lparr>db_revisions := map (\<lambda>n. \<lparr>rev_no = n, rev_ns = 10 * n, rev_actor = [], rev_message = [], rev_sealed = True\<rparr>) [1, 2, 3]\<rparr>"

lemma three_ok: "store_ok three_revisions" "current_revision three_revisions = 3"
proof -
  have "entities_ok 3 (db_nodes empty_db)" "entities_ok 3 (db_edges empty_db)"
    by (simp_all add: entities_ok_def history_ok_def ids_ok_def empty_db_def)
  moreover have "graph_ok (graph_nodes empty_db) (graph_edges empty_db)"
    using empty_ok(1) by (simp add: store_ok_def db_ok_def)
  moreover have "revisions_ok False 3 (db_revisions three_revisions)"
    by (simp add: revisions_ok_def three_revisions_def upto.simps)
  moreover have "max_revision (db_revisions three_revisions) = 3" by (simp add: three_revisions_def max_revision_def)
  ultimately show "store_ok three_revisions"
    unfolding store_ok_def db_ok_def by (simp add: three_revisions_def refs_ok_def empty_db_def graph_nodes_def graph_edges_def)
  show "current_revision three_revisions = 3"
    by (simp add: current_revision_def three_revisions_def sealed_revision_def max_revision_def)
qed

lemma snapshot_reads_exact_witness:
  "ResolveSnapshot \<lparr>snap_revision = Some 2, snap_time = None\<rparr> three_revisions = Inr 2 \<and>
   (\<exists>r. ResolveSnapshot \<lparr>snap_revision = None, snap_time = Some 25\<rparr> three_revisions = Inr r) \<and>
   storeGetNode sample_id \<lparr>snap_revision = None, snap_time = None\<rparr> three_revisions = Inl ErrNotFound"
proof -
  have none: "past 3 (db_nodes three_revisions) sample_id = None"
    by (simp add: past_def view_at_def select_at_def three_revisions_def empty_db_def)
  note w = snapshot_reads_exact [OF three_ok(1), of "\<lparr>snap_revision = None, snap_time = None\<rparr>", unfolded three_ok(2)]
  note current = w [THEN conjunct1] and by_number = w [THEN conjunct2, THEN conjunct1, rule_format, of 2]
    and by_time = w [THEN conjunct2, THEN conjunct2, THEN conjunct1, rule_format, of 25]
    and reads = w [THEN conjunct2, THEN conjunct2, THEN conjunct2, rule_format, OF current, of sample_id, THEN conjunct1]
  have "in64 25" by (simp add: in64_def)
  then show ?thesis using by_number by_time reads none by auto
qed

text \<open>C14: A client that follows the cursors of the revision history reaches a last page.  Whatever writes run between
  its requests, in descending order it has then read every revision that existed at its first request exactly
  once, newest first; in ascending order, every revision that existed at its last request, oldest first.  This holds
  for a store in order, as long as the store never has more than N revisions (the last page is reached within N + 1
  requests, and N is a 64-bit number), the page limit is one that the store accepts, and SHA-256 gives 32 bytes.\<close>

theorem revision_pages_complete:
  assumes "store_ok (dbs 0)" "\<forall>i. wrote\<^sup>*\<^sup>* (dbs i) (dbs (Suc i))" "\<forall>i. current_revision (dbs i) \<le> N" "N \<le> 9223372036854775807"
    and "\<forall>x. length (sha x) = 32" "pageLimit most = Inr m"
  shows "(\<exists>final. followPages (nat N + 1) sha most RevisionOrderDescending [] dbs 0 = Some (Inr (rev (history (dbs 0)), final))) \<and>
    (\<exists>final. followPages (nat N + 1) sha most RevisionOrderAscending [] dbs 0 = Some (Inr (history (dbs final), final)))"
proof
  have r: "0 \<le> current_revision (dbs 0)" "current_revision (dbs 0) \<le> N" using store_rows(3) assms(1,3) by auto
  show "\<exists>final. followPages (nat N + 1) sha most RevisionOrderAscending [] dbs 0 = Some (Inr (history (dbs final), final))"
    using follow_ascending [OF assms, of 0 0 "nat N + 1"] r by (auto simp: cursor_at_def)
  show "\<exists>final. followPages (nat N + 1) sha most RevisionOrderDescending [] dbs 0 = Some (Inr (rev (history (dbs 0)), final))"
    by (rule first_descending [OF assms])
qed

lemma revision_pages_complete_witness:
  "(\<exists>final. followPages 4 (\<lambda>_. replicate 32 (CHR 0x00)) 1 RevisionOrderDescending [] (\<lambda>_. three_revisions) 0 =
     Some (Inr (rev (history three_revisions), final))) \<and>
   (\<exists>final. followPages 4 (\<lambda>_. replicate 32 (CHR 0x00)) 1 RevisionOrderAscending [] (\<lambda>_. three_revisions) 0 =
     Some (Inr (history three_revisions, final)))"
proof -
  have "pageLimit 1 = Inr 1" by (simp add: pageLimit_def maxPageSize_def)
  then show ?thesis
    using revision_pages_complete [of "\<lambda>_. three_revisions" 3 "\<lambda>_. replicate 32 (CHR 0x00)" 1 1] three_ok by simp
qed

end
