(* ===== verification/Go_Float.thy ===== *)
theory Go_Float
  imports Prelude "HOL-Library.Log_Nat"
begin

text \<open>
  Go's \<open>float64\<close>: a value is not a number, infinite, or finite with a sign and an exact rational magnitude.
  Conversion and the arithmetic operators round the exact result to the nearest representable number, ties to
  even; \<open>math.Mod\<close>, \<open>math.Abs\<close> and \<open>math.Ceil\<close> are exact.
\<close>

datatype float64 = NaN | Infinite bool | Finite bool rat

definition signed :: "bool \<Rightarrow> rat \<Rightarrow> rat" where
  "signed negative q = (if negative then - q else q)"

section \<open>Rounding\<close>

definition pow2 :: "int \<Rightarrow> rat" where
  "pow2 e = (if 0 \<le> e then 2 ^ nat e else 1 / 2 ^ nat (- e))"

definition rat_floor :: "rat \<Rightarrow> int" where
  "rat_floor q = (case quotient_of q of (n, d) \<Rightarrow> n div d)"

definition ilog2 :: "rat \<Rightarrow> int" where
  "ilog2 q =
     (case quotient_of q of (n, d) \<Rightarrow>
        let k = bitlen n - bitlen d in if pow2 k \<le> q then k else k - 1)"

definition half_even :: "rat \<Rightarrow> int" where
  "half_even q =
     (let f = rat_floor q; r = q - of_int f
      in if r < 1 / 2 then f else if r > 1 / 2 then f + 1 else if even f then f else f + 1)"

definition round64 :: "bool \<Rightarrow> rat \<Rightarrow> float64" where
  "round64 negative q =
     (if q = 0 then Finite negative 0
      else let e = max (ilog2 q - 52) (-1074);
               v = of_int (half_even (q / pow2 e)) * pow2 e
           in if v \<ge> pow2 1024 then Infinite negative else Finite negative v)"

definition float_of_int :: "int \<Rightarrow> float64" where
  "float_of_int n = round64 (n < 0) (of_int \<bar>n\<bar>)"

text \<open>The value of a bit pattern, as \<open>math.Float64frombits\<close> gives it.\<close>

definition float_of_bits :: "int \<Rightarrow> float64" where
  "float_of_bits bits =
     (let negative = bits div 2 ^ 63 mod 2 = 1; e = bits div 2 ^ 52 mod 2048; f = bits mod 2 ^ 52
      in if e = 2047 then (if f = 0 then Infinite negative else NaN)
         else if e = 0 then Finite negative (of_int f * pow2 (-1074))
         else Finite negative (of_int (2 ^ 52 + f) * pow2 (e - 1075)))"

section \<open>Arithmetic\<close>

definition float_neg :: "float64 \<Rightarrow> float64" where
  "float_neg x = (case x of NaN \<Rightarrow> NaN | Infinite s \<Rightarrow> Infinite (\<not> s) | Finite s q \<Rightarrow> Finite (\<not> s) q)"

definition float_abs :: "float64 \<Rightarrow> float64" where
  "float_abs x = (case x of NaN \<Rightarrow> NaN | Infinite _ \<Rightarrow> Infinite False | Finite _ q \<Rightarrow> Finite False q)"

definition float_add :: "float64 \<Rightarrow> float64 \<Rightarrow> float64" where
  "float_add x y =
     (case (x, y) of
        (NaN, _) \<Rightarrow> NaN | (_, NaN) \<Rightarrow> NaN
      | (Infinite s, Infinite t) \<Rightarrow> if s = t then Infinite s else NaN
      | (Infinite s, _) \<Rightarrow> Infinite s | (_, Infinite t) \<Rightarrow> Infinite t
      | (Finite s p, Finite t q) \<Rightarrow>
          let r = signed s p + signed t q
          in if r = 0 then Finite (s \<and> t) 0 else round64 (r < 0) \<bar>r\<bar>)"

definition float_sub :: "float64 \<Rightarrow> float64 \<Rightarrow> float64" where
  "float_sub x y = float_add x (float_neg y)"

definition float_mul :: "float64 \<Rightarrow> float64 \<Rightarrow> float64" where
  "float_mul x y =
     (case (x, y) of
        (NaN, _) \<Rightarrow> NaN | (_, NaN) \<Rightarrow> NaN
      | (Infinite s, Infinite t) \<Rightarrow> Infinite (s \<noteq> t)
      | (Infinite s, Finite t q) \<Rightarrow> if q = 0 then NaN else Infinite (s \<noteq> t)
      | (Finite s p, Infinite t) \<Rightarrow> if p = 0 then NaN else Infinite (s \<noteq> t)
      | (Finite s p, Finite t q) \<Rightarrow> round64 (s \<noteq> t) (p * q))"

definition float_div :: "float64 \<Rightarrow> float64 \<Rightarrow> float64" where
  "float_div x y =
     (case (x, y) of
        (NaN, _) \<Rightarrow> NaN | (_, NaN) \<Rightarrow> NaN
      | (Infinite _, Infinite _) \<Rightarrow> NaN
      | (Infinite s, Finite t _) \<Rightarrow> Infinite (s \<noteq> t)
      | (Finite s _, Infinite t) \<Rightarrow> Finite (s \<noteq> t) 0
      | (Finite s p, Finite t q) \<Rightarrow>
          if q = 0 then (if p = 0 then NaN else Infinite (s \<noteq> t)) else round64 (s \<noteq> t) (p / q))"

definition float_mod :: "float64 \<Rightarrow> float64 \<Rightarrow> float64" where
  "float_mod x y =
     (case (x, y) of
        (NaN, _) \<Rightarrow> NaN | (_, NaN) \<Rightarrow> NaN | (Infinite _, _) \<Rightarrow> NaN
      | (Finite s p, Infinite _) \<Rightarrow> Finite s p
      | (Finite s p, Finite _ q) \<Rightarrow> if q = 0 then NaN else Finite s (p - q * of_int (rat_floor (p / q))))"

definition float_ceil :: "float64 \<Rightarrow> float64" where
  "float_ceil x =
     (case x of
        Finite s q \<Rightarrow> if s then Finite True (of_int (rat_floor q)) else Finite False (of_int (- rat_floor (- q)))
      | _ \<Rightarrow> x)"

section \<open>Comparison\<close>

definition float_level :: "float64 \<Rightarrow> int \<times> rat" where
  "float_level x = (case x of Finite s q \<Rightarrow> (0, signed s q) | Infinite s \<Rightarrow> (if s then -1 else 1, 0) | NaN \<Rightarrow> (2, 0))"

definition float_less :: "float64 \<Rightarrow> float64 \<Rightarrow> bool" where
  "float_less x y \<longleftrightarrow>
     x \<noteq> NaN \<and> y \<noteq> NaN \<and>
     (fst (float_level x) < fst (float_level y) \<or> fst (float_level x) = fst (float_level y) \<and> snd (float_level x) < snd (float_level y))"

text \<open>\<open>==\<close> and the generic \<open>compare\<close> of \<open>internal/engine/eval.go\<close>.\<close>

definition float_zero :: "float64 \<Rightarrow> bool" where
  "float_zero x \<longleftrightarrow> (case x of Finite _ q \<Rightarrow> q = 0 | _ \<Rightarrow> False)"

definition compareFloat :: "float64 \<Rightarrow> float64 \<Rightarrow> int" where
  "compareFloat left right = (if float_less left right then -1 else if float_less right left then 1 else 0)"

definition is_infinite :: "float64 \<Rightarrow> bool" where
  "is_infinite x \<longleftrightarrow> (case x of Infinite _ \<Rightarrow> True | _ \<Rightarrow> False)"

end
