(* ===== verification/Duration_Text.thy ===== *)
theory Duration_Text
  imports Date_Time
begin

text \<open>
  The text of durations: \<open>Duration.String\<close>, \<open>ParseDuration\<close> and \<open>DurationFromComponents\<close> of
  \<open>internal/domain/temporal/duration.go\<close>.  A component is an integer or the decimal text of a number; the
  exponents and fractions that \<open>numberRat\<close> also reads in a text come from component maps only, never from
  the text of a duration, and are left out.
\<close>

section \<open>Components\<close>

datatype componentNumber = NumberText string | NumberInt int

definition decimalRat :: "string \<Rightarrow> rat option" where
  "decimalRat t =
     (let negative = (t \<noteq> [] \<and> hd t = CHR ''-'');
          body = (if t \<noteq> [] \<and> (hd t = CHR ''-'' \<or> hd t = CHR ''+'') then tl t else t);
          whole = takeWhile (\<lambda>c. c \<noteq> CHR ''.'') body;
          rest = dropWhile (\<lambda>c. c \<noteq> CHR ''.'') body;
          fraction = tl rest
      in if list_all is_digit (whole @ fraction) \<and> whole @ fraction \<noteq> []
         then let magnitude = of_nat (digits_val 0 whole) + of_nat (digits_val 0 fraction) / 10 ^ length fraction
              in Some (if negative then - magnitude else magnitude)
         else None)"

definition numberRat :: "componentNumber \<Rightarrow> terror + rat" where
  "numberRat number =
     (case number of
        NumberInt n \<Rightarrow> Inr (of_int n)
      | NumberText t \<Rightarrow>
          if length t > 1024 then Inl ErrInvalid
          else (case decimalRat t of None \<Rightarrow> Inl ErrInvalid | Some q \<Rightarrow> Inr q))"

type_synonym componentMap = "(string \<times> componentNumber) list"

definition durationComponents :: "string list" where
  "durationComponents =
     [''years'', ''quarters'', ''months'', ''weeks'', ''days'', ''hours'', ''minutes'', ''seconds'', ''milliseconds'',
      ''microseconds'', ''nanoseconds'']"

text \<open>The loops over the terms of one group; a component that is not there adds nothing.\<close>

definition component_value :: "componentMap \<Rightarrow> string \<Rightarrow> terror + rat" where
  "component_value components name = (case map_of components name of None \<Rightarrow> Inr 0 | Some value \<Rightarrow> numberRat value)"

fun sumTerms :: "componentMap \<Rightarrow> (string \<times> rat) list \<Rightarrow> terror + rat" where
  "sumTerms components [] = Inr 0"
| "sumTerms components ((name, factor) # terms) =
     bindE (component_value components name) (\<lambda>number.
     bindE (sumTerms components terms) (\<lambda>rest. Inr (number * factor + rest)))"

definition DurationFromComponents :: "componentMap \<Rightarrow> terror + Duration" where
  "DurationFromComponents components =
     (if list_ex (\<lambda>(key, _). key \<notin> set durationComponents) components then Inl ErrInvalid
      else
        bindE (sumTerms components [(''years'', 12), (''quarters'', 3), (''months'', 1)]) (\<lambda>months.
        bindE (sumTerms components [(''weeks'', 7), (''days'', 1)]) (\<lambda>days.
        bindE (sumTerms components [(''hours'', 3600), (''minutes'', 60), (''seconds'', 1), (''milliseconds'', 1 / 1000),
                                    (''microseconds'', 1 / 1000000), (''nanoseconds'', 1 / 1000000000)]) (\<lambda>seconds.
          durationFromRationals months days seconds))))"

section \<open>Parsing\<close>

definition decimalDigits :: "string \<Rightarrow> bool" where
  "decimalDigits t \<longleftrightarrow> t \<noteq> [] \<and> list_all is_digit t"

definition parseDateTimeDuration :: "string \<Rightarrow> (terror + Duration) option" where
  "parseDateTimeDuration input =
     (case index_where (\<lambda>c. c = CHR ''T'') input of
        None \<Rightarrow> None
      | Some separator \<Rightarrow>
          let dateText = drop 1 (take separator input);
              dateBody = (if has_prefix (CHR ''+'') dateText \<or> has_prefix (CHR ''-'') dateText then drop 1 dateText else dateText);
              parts = split_on (CHR ''-'') dateBody
          in if length parts \<noteq> 3 \<or> length (parts ! 0) < 4 \<or> length (parts ! 1) \<noteq> 2 \<or> length (parts ! 2) \<noteq> 2 \<or>
                \<not> decimalDigits (parts ! 0) \<or> \<not> decimalDigits (parts ! 1) \<or> \<not> decimalDigits (parts ! 2)
             then None
             else let timeText = drop (separator + 1) input
                  in if length (split_on (CHR '':'') timeText) \<noteq> 3 then Some (Inl ErrInvalid)
                     else case ParseLocalDateTime (dateText @ ''T'' @ timeText) of
                            Inl _ \<Rightarrow> Some (Inl ErrInvalid)
                          | Inr local \<Rightarrow>
                              let date = ldt_date local; clock = ldt_time local
                              in Some (DurationFromComponents
                                   [(''years'', NumberInt (Year date)), (''months'', NumberInt (Month date)), (''days'', NumberInt (Day date)),
                                    (''hours'', NumberInt (Hour clock)), (''minutes'', NumberInt (Minute clock)),
                                    (''seconds'', NumberInt (Second clock)), (''nanoseconds'', NumberInt (Nanosecond clock))]))"

text \<open>One number with its designator: the number's text, whether it has a fraction, the designator and the rest.\<close>

definition scanComponent :: "string \<Rightarrow> terror + string \<times> bool \<times> char \<times> string" where
  "scanComponent s =
     (let signed = (s \<noteq> [] \<and> (hd s = CHR ''+'' \<or> hd s = CHR ''-''));
          sign = (if signed then [hd s] else []);
          s1 = (if signed then tl s else s);
          digits = takeWhile is_digit s1;
          s2 = dropWhile is_digit s1;
          hasFraction = (s2 \<noteq> [] \<and> (hd s2 = CHR ''.'' \<or> hd s2 = CHR '',''));
          fraction = (if hasFraction then takeWhile is_digit (tl s2) else []);
          s3 = (if hasFraction then dropWhile is_digit (tl s2) else s2)
      in if hasFraction \<and> fraction = [] then Inl ErrInvalid
         else if digits = [] \<or> s3 = [] then Inl ErrInvalid
         else Inr (sign @ digits @ (if hasFraction then CHR ''.'' # fraction else []), hasFraction, hd s3, tl s3))"

definition designatorName :: "bool \<Rightarrow> char \<Rightarrow> (string \<times> nat) option" where
  "designatorName inTime designator =
     (if designator = CHR ''Y'' then (if \<not> inTime then Some (''years'', 1) else None)
      else if designator = CHR ''M'' then Some (if inTime then (''minutes'', 6) else (''months'', 2))
      else if designator = CHR ''W'' then (if \<not> inTime then Some (''weeks'', 3) else None)
      else if designator = CHR ''D'' then (if \<not> inTime then Some (''days'', 4) else None)
      else if designator = CHR ''H'' then (if inTime then Some (''hours'', 5) else None)
      else if designator = CHR ''S'' then (if inTime then Some (''seconds'', 7) else None)
      else None)"

lemma scanComponent_shorter:
  assumes "scanComponent s = Inr (t, f, d, rest)"
  shows "length rest < length s"
proof -
  define s1 where "s1 = (if s \<noteq> [] \<and> (hd s = CHR ''+'' \<or> hd s = CHR ''-'') then tl s else s)"
  define s2 where "s2 = dropWhile is_digit s1"
  define s3 where "s3 = (if s2 \<noteq> [] \<and> (hd s2 = CHR ''.'' \<or> hd s2 = CHR '','') then dropWhile is_digit (tl s2) else s2)"
  have "length s1 \<le> length s" "length s2 \<le> length s1" by (simp_all add: s1_def s2_def length_dropWhile_le)
  moreover have "length s3 \<le> length s2"
    using le_trans [OF length_dropWhile_le, of "tl s2" "length s2" is_digit] by (simp add: s3_def)
  moreover have "rest = tl s3 \<and> s3 \<noteq> []"
    using assms unfolding scanComponent_def Let_def s1_def [symmetric] s2_def [symmetric] s3_def [symmetric] by (auto split: if_splits)
  ultimately show ?thesis by (cases s3) auto
qed

text \<open>The loop of \<open>ParseDuration\<close>; it gives whether a time part was entered and used, and the components.\<close>

function parseParts :: "string \<Rightarrow> bool \<Rightarrow> bool \<Rightarrow> bool \<Rightarrow> nat \<Rightarrow> componentMap \<Rightarrow> terror + bool \<times> bool \<times> componentMap" where
  "parseParts s inTime timeSeen fractionSeen lastRank components =
     (if s = [] then Inr (inTime, timeSeen, components)
      else if hd s = CHR ''T'' then
        (if inTime then Inl ErrInvalid else parseParts (tl s) True timeSeen fractionSeen lastRank components)
      else case scanComponent s of
             Inl e \<Rightarrow> Inl e
           | Inr (t, hasFraction, designator, rest) \<Rightarrow>
               (case designatorName inTime designator of
                  None \<Rightarrow> Inl ErrInvalid
                | Some (name, rank) \<Rightarrow>
                    if rank \<le> lastRank then Inl ErrInvalid
                    else if map_of components name \<noteq> None then Inl ErrInvalid
                    else if fractionSeen \<or> hasFraction \<and> rest \<noteq> [] then Inl ErrInvalid
                    else parseParts rest inTime (timeSeen \<or> inTime) hasFraction rank (components @ [(name, NumberText t)])))"
  by pat_completeness auto
termination
  by (relation "measure (\<lambda>(s, _). length s)") (auto dest: scanComponent_shorter)

declare parseParts.simps [simp del]

definition ParseDuration :: "string \<Rightarrow> terror + Duration" where
  "ParseDuration input =
     (if length input < 2 \<or> hd input \<noteq> CHR ''P'' then Inl ErrInvalid
      else case parseDateTimeDuration input of
             Some result \<Rightarrow> result
           | None \<Rightarrow>
               bindE (parseParts (tl input) False False False 0 []) (\<lambda>(inTime, timeSeen, components).
                 if components = [] then Inl ErrInvalid
                 else if inTime \<and> \<not> timeSeen then Inl ErrInvalid
                 else DurationFromComponents components))"

section \<open>Rendering\<close>

definition durationSecondMagnitude :: "int \<Rightarrow> int \<Rightarrow> bool \<times> int \<times> int" where
  "durationSecondMagnitude seconds nanoseconds =
     (if seconds \<ge> 0 then (False, seconds, nanoseconds)
      else if nanoseconds = 0 then (True, u64 (u64 (- (seconds + 1)) + 1), 0)
      else (True, u64 (- (seconds + 1)), nanosecondsPerSecond - nanoseconds))"

definition DurationString :: "Duration \<Rightarrow> string" where
  "DurationString d =
     (let years = dur_months d sdiv 12;
          months = dur_months d smod 12;
          dateText = (if years \<noteq> 0 then format_int 0 years @ ''Y'' else []) @ (if months \<noteq> 0 then format_int 0 months @ ''M'' else []) @
                 (if dur_days d \<noteq> 0 then format_int 0 (dur_days d) @ ''D'' else []);
          (negative, wholeSeconds, fractionalNanoseconds) = durationSecondMagnitude (dur_seconds d) (dur_nanoseconds d);
          timeText =
            (if wholeSeconds \<noteq> 0 \<or> fractionalNanoseconds \<noteq> 0
             then let hours = wholeSeconds div 3600;
                      minutes = wholeSeconds div 60 mod 60;
                      seconds = wholeSeconds mod 60;
                      prefix = (if negative then ''-'' else [])
                  in ''T'' @ (if hours \<noteq> 0 then prefix @ format_int 0 hours @ ''H'' else []) @
                     (if minutes \<noteq> 0 then prefix @ format_int 0 minutes @ ''M'' else []) @
                     (if seconds \<noteq> 0 \<or> fractionalNanoseconds \<noteq> 0
                      then prefix @ format_int 0 seconds @
                           (if fractionalNanoseconds \<noteq> 0
                            then ''.'' @ trim_right (CHR ''0'') (format_int 9 fractionalNanoseconds) else []) @ ''S''
                      else [])
             else [])
      in if dateText @ timeText = [] then ''PT0S'' else ''P'' @ dateText @ timeText)"

section \<open>Parts of a text\<close>

definition number_text :: "bool \<Rightarrow> string \<Rightarrow> string \<Rightarrow> string" where
  "number_text negative w f = (if negative then ''-'' else []) @ w @ (if f = [] then [] else CHR ''.'' # f)"

lemma digit_chars: "is_digit c \<Longrightarrow> c \<noteq> CHR ''+'' \<and> c \<noteq> CHR ''-'' \<and> c \<noteq> CHR ''.'' \<and> c \<noteq> CHR '','' \<and> c \<noteq> CHR ''T''"
  by (auto simp: is_digit_def)

lemma takeWhile_number:
  assumes "list_all is_digit w" "s = [] \<or> \<not> is_digit (hd s)"
  shows "takeWhile is_digit (w @ s) = w" "dropWhile is_digit (w @ s) = s"
  using assms by (induction w) (auto simp: takeWhile_eq_Nil_iff dropWhile_eq_self_iff)

definition is_designator :: "char \<Rightarrow> bool" where
  "is_designator d \<longleftrightarrow> d \<in> set ''YMWDHS''"

lemma scan_number:
  assumes w: "w \<noteq> []" "list_all is_digit w" and f: "list_all is_digit f" and d: "is_designator d"
  shows "scanComponent (number_text negative w f @ d # rest) = Inr (number_text negative w f, f \<noteq> [], d, rest)"
proof -
  have d': "\<not> is_digit d" "d \<noteq> CHR ''.''" "d \<noteq> CHR '',''" using d by (auto simp: is_digit_def is_designator_def)
  obtain c cs where c: "w = c # cs" "is_digit c" using w by (cases w) auto
  note tw = takeWhile_number [OF w(2)] takeWhile_number [OF f, of "d # rest"]
  show ?thesis
    using d' digit_chars [OF c(2)] tw(1,2) [of "d # rest"] tw(1,2) [of "CHR ''.'' # f @ d # rest"] tw(3,4)
    by (cases "f = []"; cases negative) (simp_all add: scanComponent_def number_text_def c(1) is_digit_def Let_def)
qed

lemma decimal_number:
  assumes w: "w \<noteq> []" "list_all is_digit w" and f: "list_all is_digit f"
  shows "decimalRat (number_text negative w f) =
    Some ((if negative then -1 else 1) * (of_nat (digits_val 0 w) + of_nat (digits_val 0 f) / 10 ^ length f))"
proof -
  obtain c cs where c: "w = c # cs" "is_digit c" using w by (cases w) auto
  have n: "\<forall>x \<in> set w. x \<noteq> CHR ''.''" using w(2) digit_chars by (auto simp: list_all_iff)
  then have "takeWhile (\<lambda>x. x \<noteq> CHR ''.'') (w @ (if f = [] then [] else CHR ''.'' # f)) = w"
    "dropWhile (\<lambda>x. x \<noteq> CHR ''.'') (w @ (if f = [] then [] else CHR ''.'' # f)) = (if f = [] then [] else CHR ''.'' # f)"
    by (simp_all add: takeWhile_append2 dropWhile_append2)
  moreover have cs: "takeWhile (\<lambda>x. x \<noteq> CHR ''.'') cs = cs" "dropWhile (\<lambda>x. x \<noteq> CHR ''.'') cs = []"
    using n by (simp_all add: c(1) takeWhile_eq_all_conv dropWhile_eq_Nil_conv)
  ultimately show ?thesis
    using digit_chars [OF c(2)] w f
    by (cases negative; cases "f = []") (simp_all add: decimalRat_def number_text_def c(1) cs Let_def)
qed

text \<open>An integer is a number text without a fraction.\<close>

lemma format_int_number: "format_int 0 n = number_text (n < 0) (nat_text (nat \<bar>n\<bar>)) []"
  by (simp add: format_int_def number_text_def pad0_def)

lemma nat_text_digit_list: "nat_text k \<noteq> []" "list_all is_digit (nat_text k)"
  using nat_text_nonempty nat_text_digits by (auto simp: list_all_iff)

text \<open>A component that is written when its number is not zero.\<close>

definition part :: "string \<Rightarrow> rat \<Rightarrow> char \<Rightarrow> string" where
  "part t q d = (if q = 0 then [] else t @ [d])"

definition reads_as :: "string \<Rightarrow> rat \<Rightarrow> bool \<Rightarrow> bool" where
  "reads_as t q fractional \<longleftrightarrow>
     (\<forall>d rest. is_designator d \<longrightarrow> scanComponent (t @ d # rest) = Inr (t, fractional, d, rest)) \<and>
     numberRat (NumberText t) = Inr q \<and> t \<noteq> [] \<and> hd t \<noteq> CHR ''T''"

lemma reads_number:
  assumes w: "w \<noteq> []" "list_all is_digit w" and f: "list_all is_digit f" and l: "length w + length f \<le> 1000"
  shows "reads_as (number_text negative w f)
    ((if negative then -1 else 1) * (of_nat (digits_val 0 w) + of_nat (digits_val 0 f) / 10 ^ length f)) (f \<noteq> [])"
proof -
  obtain c cs where c: "w = c # cs" "is_digit c" using w by (cases w) auto
  have "length (number_text negative w f) \<le> 1024" using l by (simp add: number_text_def)
  moreover have "number_text negative w f \<noteq> [] \<and> hd (number_text negative w f) \<noteq> CHR ''T''"
    using digit_chars [OF c(2)] by (simp add: number_text_def c(1))
  ultimately show ?thesis
    unfolding reads_as_def numberRat_def by (simp add: scan_number [OF w f] decimal_number [OF w f])
qed

lemma reads_int:
  assumes "in64 n"
  shows "reads_as (format_int 0 n) (of_int n) False"
proof -
  have "nat \<bar>n\<bar> < 10 ^ 20" using assms by (auto simp: in64_def)
  then have "length (nat_text (nat \<bar>n\<bar>)) \<le> 20" by (intro length_nat_text_le) simp_all
  moreover have "(if n < 0 then -1 else 1) * (rat_of_nat (digits_val 0 (nat_text (nat \<bar>n\<bar>))) + 0) = of_int n" by simp
  ultimately show ?thesis
    using reads_number [OF nat_text_digit_list, of "[]" "nat \<bar>n\<bar>" "n < 0"] unfolding format_int_number by simp
qed

text \<open>The component it leaves behind.\<close>

definition opt :: "string \<Rightarrow> string \<Rightarrow> rat \<Rightarrow> componentMap" where
  "opt name t q = (if q = 0 then [] else [(name, NumberText t)])"

lemma opt_None [simp]: "map_of (opt name t q) x = None \<longleftrightarrow> x \<noteq> name \<or> q = 0"
  by (simp add: opt_def)

lemma component_value_opt:
  "component_value [] x = Inr 0"
  "x \<noteq> name \<Longrightarrow> component_value (opt name t q @ rest) x = component_value rest x"
  "reads_as t q f \<Longrightarrow> component_value rest name = Inr 0 \<Longrightarrow> component_value (opt name t q @ rest) name = Inr q"
  by (simp_all add: component_value_def opt_def reads_as_def)

lemma opt_keys: "list_ex (\<lambda>(key, _). P key) (opt name t q) \<longleftrightarrow> q \<noteq> 0 \<and> P name"
  by (simp add: opt_def)

lemma designator_rank_less: "a < c \<Longrightarrow> b < c \<Longrightarrow> (if P then a else b) < (c :: nat)"
  by simp

lemma parse_part:
  assumes r: "reads_as t q fractional" and n: "designatorName inTime d = Some (name, rank)" "lastRank < rank" "map_of components name = None"
    and d: "is_designator d" and f: "fractional \<Longrightarrow> rest = []"
  shows "parseParts (part t q d @ rest) inTime seen False lastRank components =
    parseParts rest inTime (seen \<or> inTime \<and> q \<noteq> 0) (fractional \<and> q \<noteq> 0) (if q = 0 then lastRank else rank) (components @ opt name t q)"
proof (cases "q = 0")
  case False
  have "scanComponent (t @ d # rest) = Inr (t, fractional, d, rest)" "t \<noteq> []" "hd t \<noteq> CHR ''T''"
    using r d by (simp_all add: reads_as_def)
  then show ?thesis using False n f by (auto simp: part_def opt_def parseParts.simps [of "t @ d # rest"])
qed (simp add: part_def opt_def)

lemma parse_nothing: "parseParts [] inTime seen fractionSeen lastRank components = Inr (inTime, seen, components)"
  by (simp add: parseParts.simps)

lemma parse_separator:
  "parseParts (CHR ''T'' # rest) False seen fractionSeen lastRank components = parseParts rest True seen fractionSeen lastRank components"
  by (simp add: parseParts.simps [of "CHR ''T'' # rest"])

lemma designators: "designatorName False (CHR ''Y'') = Some (''years'', 1)" "designatorName False (CHR ''M'') = Some (''months'', 2)"
  "designatorName False (CHR ''D'') = Some (''days'', 4)" "designatorName True (CHR ''H'') = Some (''hours'', 5)"
  "designatorName True (CHR ''M'') = Some (''minutes'', 6)" "designatorName True (CHR ''S'') = Some (''seconds'', 7)"
  "is_designator (CHR ''Y'')" "is_designator (CHR ''M'')" "is_designator (CHR ''D'')" "is_designator (CHR ''H'')" "is_designator (CHR ''S'')"
  by (simp_all add: designatorName_def is_designator_def)

lemma parse_parts:
  assumes "reads_as ty y False" "reads_as tm m False" "reads_as td d False" "reads_as th h False" "reads_as ti i False" "reads_as ts s f"
  shows "parseParts (part ty y (CHR ''Y'') @ part tm m (CHR ''M'') @ part td d (CHR ''D'')) False False False 0 [] =
      Inr (False, False, opt ''years'' ty y @ opt ''months'' tm m @ opt ''days'' td d)"
    and "parseParts (part ty y (CHR ''Y'') @ part tm m (CHR ''M'') @ part td d (CHR ''D'') @ CHR ''T'' #
        part th h (CHR ''H'') @ part ti i (CHR ''M'') @ part ts s (CHR ''S'')) False False False 0 [] =
      Inr (True, h \<noteq> 0 \<or> i \<noteq> 0 \<or> s \<noteq> 0, opt ''years'' ty y @ opt ''months'' tm m @ opt ''days'' td d @
        opt ''hours'' th h @ opt ''minutes'' ti i @ opt ''seconds'' ts s)"
  using parse_part [OF assms(3), where rest = "[]"] parse_part [OF assms(6), where rest = "[]"]
  by (auto simp: parse_part [OF assms(1)] parse_part [OF assms(2)] parse_part [OF assms(3)] parse_part [OF assms(4)]
      parse_part [OF assms(5)] designators parse_nothing parse_separator designator_rank_less)

lemma sum_parts:
  assumes "reads_as ty y False" "reads_as tm m False" "reads_as td d False" "reads_as th h False" "reads_as ti i False" "reads_as ts s f"
  shows "DurationFromComponents (opt ''years'' ty y @ opt ''months'' tm m @ opt ''days'' td d) = durationFromRationals (y * 12 + m) d 0"
    and "DurationFromComponents (opt ''years'' ty y @ opt ''months'' tm m @ opt ''days'' td d @ opt ''hours'' th h @ opt ''minutes'' ti i @
      opt ''seconds'' ts s) = durationFromRationals (y * 12 + m) d (h * 3600 + i * 60 + s)"
  using component_value_opt(3) [OF assms(3), of "[]" "''days''"] component_value_opt(3) [OF assms(6), of "[]" "''seconds''"]
    component_value_opt(2) [of _ "''days''" td d "[]"] component_value_opt(2) [of _ "''seconds''" ts s "[]"]
  by (simp_all add: DurationFromComponents_def opt_keys durationComponents_def component_value_opt
      component_value_opt(3) [OF assms(1)] component_value_opt(3) [OF assms(2)] component_value_opt(3) [OF assms(3)]
      component_value_opt(3) [OF assms(4)] component_value_opt(3) [OF assms(5)] add_ac)

section \<open>Reading back\<close>

lemma split_on_member: "c \<in> set s \<Longrightarrow> c \<noteq> sep \<Longrightarrow> \<exists>p \<in> set (split_on sep s). c \<in> set p"
proof (induction s)
  case (Cons x s)
  then show ?case by (cases "split_on sep s") (auto split: if_splits)
qed simp

text \<open>A text whose date part ends with a designator is not of the date-and-time form.\<close>

lemma not_date_time:
  assumes d: "\<forall>c \<in> set body. c \<noteq> CHR ''T''" "body = [] \<or> (\<exists>c \<in> set body. is_designator c)"
  shows "parseDateTimeDuration (CHR ''P'' # body) = None" "parseDateTimeDuration (CHR ''P'' # body @ CHR ''T'' # rest) = None"
proof -
  show "parseDateTimeDuration (CHR ''P'' # body) = None"
    using d(1) index_where_none [of "\<lambda>c. c = CHR ''T''" "CHR ''P'' # body"] by (simp add: parseDateTimeDuration_def)
  have "index_where (\<lambda>c. c = CHR ''T'') (CHR ''P'' # body @ CHR ''T'' # rest) = Some (length (CHR ''P'' # body))"
    using d(1) index_where_append [of "CHR ''P'' # body" "\<lambda>c. c = CHR ''T''" "CHR ''T''" rest] by simp
  moreover define dateBody where "dateBody = (if has_prefix (CHR ''+'') body \<or> has_prefix (CHR ''-'') body then drop 1 body else body)"
  have "\<not> (length parts = 3 \<and> decimalDigits (parts ! 0) \<and> decimalDigits (parts ! 1) \<and> decimalDigits (parts ! 2))"
    if parts: "parts = split_on (CHR ''-'') dateBody" for parts
  proof (cases "body = []")
    case True
    then show ?thesis by (simp add: parts dateBody_def has_prefix_def)
  next
    case False
    then obtain c where c: "c \<in> set body" "is_designator c" using d(2) by blast
    have plain: "c \<noteq> CHR ''+''" "c \<noteq> CHR ''-''" "\<not> is_digit c" using c(2) by (auto simp: is_designator_def is_digit_def)
    have "c \<in> set dateBody" using c(1) plain(1,2) by (cases body) (auto simp: dateBody_def has_prefix_def)
    from split_on_member [OF this plain(2)] obtain p where p: "p \<in> set parts" "c \<in> set p" using parts by blast
    show ?thesis
    proof
      assume h: "length parts = 3 \<and> decimalDigits (parts ! 0) \<and> decimalDigits (parts ! 1) \<and> decimalDigits (parts ! 2)"
      then obtain x y z where "parts = [x, y, z]" by (auto simp: length_Suc_conv numeral_3_eq_3)
      then have "decimalDigits p" using h p(1) by auto
      then show False using p(2) plain(3) by (auto simp: decimalDigits_def list_all_iff)
    qed
  qed
  ultimately show "parseDateTimeDuration (CHR ''P'' # body @ CHR ''T'' # rest) = None"
    by (auto simp: parseDateTimeDuration_def Let_def dateBody_def)
qed

lemma digits_val_shift: "digits_val n (replicate k (CHR ''0'')) = n * 10 ^ k"
  by (induction k arbitrary: n) (simp_all add: digit_val_def)

lemma trimmed_fraction:
  assumes n: "0 < n" "n < 1000000000"
  defines "f \<equiv> trim_right (CHR ''0'') (format_int 9 n)"
  shows "list_all is_digit f" "f \<noteq> []" "length f \<le> 9" "rat_of_nat (digits_val 0 f) / 10 ^ length f = of_int n / 1000000000"
proof -
  show "list_all is_digit f" "f \<noteq> []" using parseFraction_trim [OF n] by (simp_all add: f_def)
  have l: "length (format_int 9 n) = 9" using n by (intro length_format_int) simp_all
  then show m: "length f \<le> 9" using length_trim_right [of "CHR ''0''" "format_int 9 n"] by (simp add: f_def)
  have "f @ replicate (9 - length f) (CHR ''0'') = format_int 9 n"
    using trim_right_replicate [of "CHR ''0''" "format_int 9 n"] unfolding f_def l .
  then have "digits_val 0 (f @ replicate (9 - length f) (CHR ''0'')) = nat n" using n by simp
  then have "digits_val 0 f * 10 ^ (9 - length f) = nat n" by (simp add: digits_val_append digits_val_shift)
  then have "rat_of_nat (digits_val 0 f) * 10 ^ (9 - length f) = of_int n" using n by (metis of_nat_mult of_nat_nat of_nat_numeral of_nat_power order_less_imp_le of_int_of_nat_eq)
  moreover have "(10 :: rat) ^ (9 - length f) * 10 ^ length f = 1000000000" using m by (simp flip: power_add)
  ultimately have "of_int n * 10 ^ length f = rat_of_nat (digits_val 0 f) * 1000000000"
    by (metis mult.assoc)
  then show "rat_of_nat (digits_val 0 f) / 10 ^ length f = of_int n / 1000000000"
    by (simp add: field_simps)
qed

lemma whole_durations:
  assumes "in64 m" "in64 d"
  shows "durationFromRationals (of_int m) (of_int d) (of_int t / 1000000000) = durationFromTotalNanoseconds m d t"
proof -
  have "(0 :: rat) = of_int 0" by simp
  then have "splitRat (of_int m) = (m, 0)" "splitRat (of_int d + 0 * (146097 / 4800)) = (d, 0)"
    by (simp_all add: splitRat_of_int)
  moreover have "rat_quo ((of_int t / 1000000000 + 0 * of_int secondsPerDay) * of_int nanosecondsPerSecond) = t"
    by (simp add: nanosecondsPerSecond_def rat_quo_of_int)
  ultimately show ?thesis using assms by (simp add: durationFromRationals_def Let_def)
qed

text \<open>The parts of the text of a duration.\<close>

lemma magnitude_exact:
  assumes v: "valid_duration d" and m: "durationSecondMagnitude (dur_seconds d) (dur_nanoseconds d) = (negative, w, f)"
  shows "0 \<le> w" "w \<le> 9223372036854775808" "0 \<le> f" "f < 1000000000"
    "secondsGroupNanoseconds d = (if negative then -1 else 1) * (w * 1000000000 + f)"
proof -
  have d: "in64 (dur_seconds d)" "0 \<le> dur_nanoseconds d" "dur_nanoseconds d < 1000000000"
    using v by (simp_all add: valid_duration_def nanosecondsPerSecond_def)
  then have u: "dur_seconds d < 0 \<Longrightarrow> u64 (- (dur_seconds d + 1)) = - (dur_seconds d + 1)"
    "dur_seconds d < 0 \<Longrightarrow> u64 (- (dur_seconds d + 1) + 1) = - dur_seconds d"
    by (auto simp: in64_def intro!: u64_id)
  then have "0 \<le> w \<and> w \<le> 9223372036854775808 \<and> 0 \<le> f \<and> f < 1000000000 \<and>
      secondsGroupNanoseconds d = (if negative then -1 else 1) * (w * 1000000000 + f)"
    using m d by (auto simp: durationSecondMagnitude_def secondsGroupNanoseconds_def nanosecondsPerSecond_def in64_def split: if_splits)
  then show "0 \<le> w" "w \<le> 9223372036854775808" "0 \<le> f" "f < 1000000000"
    "secondsGroupNanoseconds d = (if negative then -1 else 1) * (w * 1000000000 + f)" by blast+
qed

lemma signed_chars: "c \<in> set (format_int 0 n) \<Longrightarrow> c \<noteq> CHR ''T''"
proof -
  assume "c \<in> set (format_int 0 n)"
  then have "c = CHR ''-'' \<or> is_digit c"
    using nat_text_digit_list(2) [of "nat \<bar>n\<bar>"] by (auto simp: format_int_number number_text_def list_all_iff split: if_splits)
  moreover have "\<not> is_digit (CHR ''T'')" by (simp add: is_digit_def)
  ultimately show ?thesis by auto
qed

lemma date_part:
  fixes y m d :: int
  defines "body \<equiv> part (format_int 0 y) (of_int y) (CHR ''Y'') @ part (format_int 0 m) (of_int m) (CHR ''M'') @ part (format_int 0 d) (of_int d) (CHR ''D'')"
  shows "\<forall>c \<in> set body. c \<noteq> CHR ''T''" "body = [] \<or> (\<exists>c \<in> set body. is_designator c)"
  using signed_chars by (auto simp: body_def part_def is_designator_def split: if_splits)

lemma zero_duration_text: "ParseDuration ''PT0S'' = Inr \<lparr>dur_months = 0, dur_days = 0, dur_seconds = 0, dur_nanoseconds = 0\<rparr>"
proof -
  have "parseDateTimeDuration (CHR ''P'' # [] @ CHR ''T'' # ''0S'') = None" by (rule not_date_time(2)) simp_all
  moreover have "scanComponent (number_text False ''0'' [] @ CHR ''S'' # []) = Inr (number_text False ''0'' [], False, CHR ''S'', [])"
    using scan_number [of "''0''" "[]" "CHR ''S''" False "[]"] by (simp add: designators is_digit_def)
  then have "parseParts ''T0S'' False False False 0 [] = Inr (True, True, [(''seconds'', NumberText ''0'')])"
    by (simp add: parse_separator parseParts.simps [of "''0S''"] designators parse_nothing number_text_def)
  moreover have "component_value [(''seconds'', NumberText ''0'')] name = Inr 0" for name
    by (simp add: component_value_def numberRat_def decimalRat_def is_digit_def digit_val_def)
  then have "DurationFromComponents [(''seconds'', NumberText ''0'')] = durationFromRationals 0 0 0"
    by (simp add: DurationFromComponents_def durationComponents_def)
  moreover have "durationFromRationals 0 0 0 = Inr \<lparr>dur_months = 0, dur_days = 0, dur_seconds = 0, dur_nanoseconds = 0\<rparr>"
    using whole_durations [of 0 0 0] by (simp add: in64_def durationFromTotal_exact)
  ultimately show ?thesis by (simp add: ParseDuration_def)
qed

text \<open>The text of a duration as its parts, and what they read as.\<close>

lemma months_split:
  assumes "in64 x"
  shows "in64 (x sdiv 12)" "in64 (x smod 12)" "x sdiv 12 * 12 + x smod 12 = x"
proof -
  show "x sdiv 12 * 12 + x smod 12 = x" by (rule sdiv_mult_smod_eq)
  have b: "0 \<le> a div 12 \<and> a div 12 * 12 + a mod 12 = a \<and> 0 \<le> a mod 12 \<and> a mod 12 < 12" if "0 \<le> a" for a :: int
    using that by (simp add: pos_imp_zdiv_nonneg_iff)
  have "\<bar>x sdiv 12\<bar> * 12 \<le> \<bar>x\<bar> \<and> \<bar>x smod 12\<bar> < 12"
  proof (cases "0 \<le> x")
    case True
    with b [OF this] show ?thesis unfolding sdiv_nonneg [OF True, of 12, simplified] smod_nonneg [OF True, of 12, simplified] by linarith
  next
    case False
    then have x: "x < 0" "0 \<le> - x" by simp_all
    with b [OF x(2)] show ?thesis unfolding sdiv_neg [OF x(1), of 12, simplified] smod_neg [OF x(1), of 12, simplified] by linarith
  qed
  then show "in64 (x sdiv 12)" "in64 (x smod 12)" using assms unfolding in64_def by linarith+
qed

lemma duration_parts:
  assumes v: "valid_duration d"
  obtains y m th h ti i ts s fractional where
    "reads_as (format_int 0 y) (of_int y) False" "reads_as (format_int 0 m) (of_int m) False"
    "reads_as (format_int 0 (dur_days d)) (of_int (dur_days d)) False" "reads_as th h False" "reads_as ti i False" "reads_as ts s fractional"
    "DurationString d =
      (let dateText = part (format_int 0 y) (of_int y) (CHR ''Y'') @ part (format_int 0 m) (of_int m) (CHR ''M'') @
             part (format_int 0 (dur_days d)) (of_int (dur_days d)) (CHR ''D'');
           timeText = (if h = 0 \<and> i = 0 \<and> s = 0 then []
             else CHR ''T'' # part th h (CHR ''H'') @ part ti i (CHR ''M'') @ part ts s (CHR ''S''))
       in if dateText @ timeText = [] then ''PT0S'' else CHR ''P'' # dateText @ timeText)"
    "y * 12 + m = dur_months d" "h * 3600 + i * 60 + s = of_int (secondsGroupNanoseconds d) / 1000000000"
proof -
  obtain neg w f where mg: "durationSecondMagnitude (dur_seconds d) (dur_nanoseconds d) = (neg, w, f)" by (metis prod_cases3)
  note mag = magnitude_exact [OF v mg]
  have r: "in64 (dur_months d)" "in64 (dur_days d)" using v by (simp_all add: valid_duration_def)
  define y m where "y = dur_months d sdiv 12" and "m = dur_months d smod 12"
  define h i s where "h = w div 3600" and "i = w div 60 mod 60" and "s = w mod 60"
  define sg :: rat where "sg = (if neg then -1 else 1)"
  define fr where "fr = (if f = 0 then [] else trim_right (CHR ''0'') (format_int 9 f))"
  let ?n = "\<lambda>k g. number_text neg (nat_text (nat k)) g"
  have hms: "0 \<le> h" "0 \<le> i" "0 \<le> s" "h \<le> 9223372036854775808" "i < 60" "s < 60" "w = h * 3600 + i * 60 + s"
  proof -
    have "w div 3600 = w div 60 div 60" using zdiv_zmult2_eq [of 60 w 60] by simp
    then have "w = h * 3600 + i * 60 + s"
      using div_mult_mod_eq [of w 60] div_mult_mod_eq [of "w div 60" 60] unfolding h_def i_def s_def by linarith
    moreover have "0 \<le> h" using mag(1) by (simp add: h_def pos_imp_zdiv_nonneg_iff)
    moreover have "0 \<le> i" "0 \<le> s" "i < 60" "s < 60" by (simp_all add: i_def s_def)
    ultimately show "0 \<le> h" "0 \<le> i" "0 \<le> s" "h \<le> 9223372036854775808" "i < 60" "s < 60" "w = h * 3600 + i * 60 + s"
      using mag(2) by linarith+
  qed
  have sg: "sg \<noteq> 0" by (simp add: sg_def)
  note ym = months_split [OF r(1), folded y_def m_def]
  have fraction: "list_all is_digit fr" "length fr \<le> 9" "rat_of_nat (digits_val 0 fr) / 10 ^ length fr = of_int f / 1000000000"
    using trimmed_fraction [of f] mag(3,4) by (auto simp: fr_def)
  have short: "length (nat_text (nat k)) \<le> 20" if "0 \<le> k" "k \<le> 9223372036854775808" for k
    using that by (intro length_nat_text_le) (auto simp: nat_less_iff)
  have whole: "reads_as (?n k []) (sg * of_int k) False" if "0 \<le> k" "k \<le> 9223372036854775808" for k
    using reads_number [OF nat_text_digit_list, of "[]" "nat k" neg] short [OF that] that(1) by (simp add: sg_def)
  have "reads_as (?n s fr) (sg * (of_nat (digits_val 0 (nat_text (nat s))) + of_nat (digits_val 0 fr) / 10 ^ length fr)) (fr \<noteq> [])"
    unfolding sg_def by (rule reads_number [OF nat_text_digit_list fraction(1)]) (use short [of s] hms fraction(2) in simp)
  then have "reads_as (?n s fr) (sg * (of_int s + of_int f / 1000000000)) (fr \<noteq> [])" using hms(3) by (simp add: fraction(3))
  moreover have "reads_as (?n h []) (sg * of_int h) False" "reads_as (?n i []) (sg * of_int i) False"
    by (rule whole, use hms in linarith, use hms in linarith)+
  moreover have "reads_as (format_int 0 y) (of_int y) False" "reads_as (format_int 0 m) (of_int m) False"
    "reads_as (format_int 0 (dur_days d)) (of_int (dur_days d)) False"
    using reads_int ym(1,2) r(2) by blast+
  moreover note ym(3)
  moreover have "sg * of_int h * 3600 + sg * of_int i * 60 + sg * (of_int s + of_int f / 1000000000) = of_int (secondsGroupNanoseconds d) / 1000000000"
    unfolding mag(5) hms(7) by (simp add: sg_def field_simps)
  moreover have "DurationString d =
      (let dateText = part (format_int 0 y) (of_int y) (CHR ''Y'') @ part (format_int 0 m) (of_int m) (CHR ''M'') @
             part (format_int 0 (dur_days d)) (of_int (dur_days d)) (CHR ''D'');
           timeText = (if sg * of_int h = 0 \<and> sg * of_int i = 0 \<and> sg * (of_int s + of_int f / 1000000000) = 0 then []
             else CHR ''T'' # part (?n h []) (sg * of_int h) (CHR ''H'') @ part (?n i []) (sg * of_int i) (CHR ''M'') @
               part (?n s fr) (sg * (of_int s + of_int f / 1000000000)) (CHR ''S''))
       in if dateText @ timeText = [] then ''PT0S'' else CHR ''P'' # dateText @ timeText)"
  proof -
    have z: "w = 0 \<longleftrightarrow> h = 0 \<and> i = 0 \<and> s = 0" using hms by linarith
    have sf: "of_int s + of_int f / 1000000000 = (0 :: rat) \<longleftrightarrow> s = 0 \<and> f = 0"
    proof
      assume a: "of_int s + of_int f / 1000000000 = (0 :: rat)"
      have "0 \<le> (of_int s :: rat)" "0 \<le> of_int f / (1000000000 :: rat)" using hms(3) mag(3) by simp_all
      then show "s = 0 \<and> f = 0" using a by (simp add: add_nonneg_eq_0_iff)
    qed simp
    have n: "?n k g = (if neg then ''-'' else []) @ format_int 0 k @ (if g = [] then [] else CHR ''.'' # g)" if "0 \<le> k" for k g
      using that by (simp add: number_text_def format_int_nonneg pad0_def)
    have fr: "fr = [] \<longleftrightarrow> f = 0" using trimmed_fraction(2) [of f] mag(3,4) by (auto simp: fr_def)
    have date: "(if k \<noteq> 0 then format_int 0 k @ [c] else []) = part (format_int 0 k) (of_int k) c" for k c
      by (simp add: part_def)
    have clock: "(if k \<noteq> 0 then (if neg then ''-'' else []) @ format_int 0 k @ [c] else []) = part (?n k []) (sg * of_int k) c" if "0 \<le> k" for k c
      using sg by (simp add: part_def n [OF that])
    have second: "(if s \<noteq> 0 \<or> f \<noteq> 0 then (if neg then ''-'' else []) @ format_int 0 s @
          (if f \<noteq> 0 then ''.'' @ trim_right (CHR ''0'') (format_int 9 f) else []) @ ''S'' else []) =
        part (?n s fr) (sg * (of_int s + of_int f / 1000000000)) (CHR ''S'')"
      using sg sf fr by (cases "f = 0") (simp_all add: part_def n [OF hms(3)] fr_def)
    define none where "none \<longleftrightarrow> sg * of_int h = 0 \<and> sg * of_int i = 0 \<and> sg * (of_int s + of_int f / 1000000000) = 0"
    have cond: "w \<noteq> 0 \<or> f \<noteq> 0 \<longleftrightarrow> \<not> none" using z sf sg by (auto simp: none_def)
    show ?thesis
      unfolding DurationString_def mg prod.case Let_def y_def [symmetric] m_def [symmetric] h_def [symmetric] i_def [symmetric] s_def [symmetric]
        date clock [OF hms(1)] clock [OF hms(2)] second cond none_def [symmetric] by auto
  qed
  ultimately show thesis
    by - (rule that [of y m "?n h []" "sg * of_int h" "?n i []" "sg * of_int i" "?n s fr" "sg * (of_int s + of_int f / 1000000000)" "fr \<noteq> []"],
      assumption+)
qed

text \<open>C37: The text of every duration parses back to exactly that duration, whatever the signs of its three groups,
  up to the extremes of 64 bits and to single nanoseconds.\<close>

theorem duration_text_roundtrip:
  assumes v: "valid_duration d"
  shows "ParseDuration (DurationString d) = Inr d"
proof -
  obtain y m th h ti i ts s fractional where
    r: "reads_as (format_int 0 y) (of_int y) False" "reads_as (format_int 0 m) (of_int m) False"
      "reads_as (format_int 0 (dur_days d)) (of_int (dur_days d)) False" "reads_as th h False" "reads_as ti i False" "reads_as ts s fractional"
    and t: "DurationString d =
      (let dateText = part (format_int 0 y) (of_int y) (CHR ''Y'') @ part (format_int 0 m) (of_int m) (CHR ''M'') @
             part (format_int 0 (dur_days d)) (of_int (dur_days d)) (CHR ''D'');
           timeText = (if h = 0 \<and> i = 0 \<and> s = 0 then []
             else CHR ''T'' # part th h (CHR ''H'') @ part ti i (CHR ''M'') @ part ts s (CHR ''S''))
       in if dateText @ timeText = [] then ''PT0S'' else CHR ''P'' # dateText @ timeText)"
    and e: "y * 12 + m = dur_months d" "h * 3600 + i * 60 + s = of_int (secondsGroupNanoseconds d) / 1000000000"
    by (rule duration_parts [OF v])
  define body where "body = part (format_int 0 y) (of_int y) (CHR ''Y'') @ part (format_int 0 m) (of_int m) (CHR ''M'') @
    part (format_int 0 (dur_days d)) (of_int (dur_days d)) (CHR ''D'')"
  have b: "\<forall>c \<in> set body. c \<noteq> CHR ''T''" "body = [] \<or> (\<exists>c \<in> set body. is_designator c)"
    unfolding body_def by (rule date_part)+
  have r64: "in64 (dur_months d)" "in64 (dur_days d)" using v by (simp_all add: valid_duration_def)
  have total: "durationFromRationals (of_int y * 12 + of_int m) (of_int (dur_days d)) (of_int (secondsGroupNanoseconds d) / 1000000000) = Inr d"
  proof -
    have "of_int y * 12 + of_int m = (of_int (dur_months d) :: rat)" unfolding e(1) [symmetric] by simp
    then show ?thesis using whole_durations [OF r64] durationFromTotal_Inr_iff [OF r64] v by simp
  qed
  show ?thesis
  proof (cases "h = 0 \<and> i = 0 \<and> s = 0")
    case False
    have p: "parseParts (body @ CHR ''T'' # part th h (CHR ''H'') @ part ti i (CHR ''M'') @ part ts s (CHR ''S'')) False False False 0 [] =
      Inr (True, True, opt ''years'' (format_int 0 y) (of_int y) @ opt ''months'' (format_int 0 m) (of_int m) @
        opt ''days'' (format_int 0 (dur_days d)) (of_int (dur_days d)) @ opt ''hours'' th h @ opt ''minutes'' ti i @ opt ''seconds'' ts s)"
      using parse_parts(2) [OF r] False by (auto simp: body_def)
    show ?thesis
      using False not_date_time(2) [OF b, of "part th h (CHR ''H'') @ part ti i (CHR ''M'') @ part ts s (CHR ''S'')"] p sum_parts(2) [OF r] total e(2)
      by (auto simp: t body_def [symmetric] Let_def ParseDuration_def opt_def)
  next
    case True
    then have z: "secondsGroupNanoseconds d = 0" using e(2) by simp
    show ?thesis
    proof (cases "body = []")
      case True
      then have "dur_months d = 0" "dur_days d = 0" using e(1) by (auto simp: body_def part_def split: if_splits)
      then have "d = \<lparr>dur_months = 0, dur_days = 0, dur_seconds = 0, dur_nanoseconds = 0\<rparr>"
        using v z by (intro duration_equality) (simp_all add: valid_duration_def in64_def nanosecondsPerSecond_def secondsGroupNanoseconds_def)
      moreover have "DurationString d = ''PT0S''" using True \<open>h = 0 \<and> i = 0 \<and> s = 0\<close> by (simp add: t body_def [symmetric])
      ultimately show ?thesis using zero_duration_text by simp
    next
      case nonempty: False
      have "DurationString d = CHR ''P'' # body" using nonempty True by (simp add: t body_def [symmetric])
      moreover have "parseParts body False False False 0 [] =
        Inr (False, False, opt ''years'' (format_int 0 y) (of_int y) @ opt ''months'' (format_int 0 m) (of_int m) @
          opt ''days'' (format_int 0 (dur_days d)) (of_int (dur_days d)))"
        using parse_parts(1) [OF r] by (simp add: body_def)
      moreover have "opt ''years'' (format_int 0 y) (of_int y) @ opt ''months'' (format_int 0 m) (of_int m) @
          opt ''days'' (format_int 0 (dur_days d)) (of_int (dur_days d)) \<noteq> []"
        using nonempty by (auto simp: body_def part_def opt_def)
      moreover have "\<not> length (CHR ''P'' # body) < 2" using nonempty by (cases body) simp_all
      ultimately show ?thesis
        unfolding ParseDuration_def using not_date_time(1) [OF b] sum_parts(1) [OF r] total z by simp
    qed
  qed
qed

lemma duration_text_roundtrip_witness:
  "ParseDuration (DurationString \<lparr>dur_months = -9223372036854775808, dur_days = 5, dur_seconds = -1, dur_nanoseconds = 500000000\<rparr>) =
     Inr \<lparr>dur_months = -9223372036854775808, dur_days = 5, dur_seconds = -1, dur_nanoseconds = 500000000\<rparr>"
  by (rule duration_text_roundtrip) (simp add: valid_duration_def in64_def nanosecondsPerSecond_def)

end
