(* ===== verification/Query_Value.thy ===== *)
theory Query_Value
  imports Go_Float Duration_Text Codec Date_Time_Facts "HOL-Library.List_Lexorder" "HOL-Library.Char_ord"
begin

text \<open>
  Values of the query engine and how they compare: \<open>internal/engine/eval.go\<close>, with the keys of
  \<open>internal/engine/aggregate.go\<close>.  Go's integer types are one constructor, a byte slice is the list of its
  bytes, and a map is a list of entries with distinct keys.  Not values of the model: integers above the
  range of \<open>int64\<close>, which are no numbers for the engine, Go's own \<open>time.Time\<close> and \<open>time.Duration\<close>, and nil
  entity pointers.  A path holds the nodes and relationships it passes.
\<close>

datatype cvalue =
    CNull
  | CBool bool
  | CInt int
  | CFloat float64
  | CString string
  | CDate Date
  | CLocalTime LocalTime
  | CTime Time
  | CLocalDateTime LocalDateTime
  | CDateTime DateTime
  | CDuration Duration
  | CList "cvalue list"
  | CMap "(string \<times> cvalue) list"
  | CNode (node_key: string) (node_tags: "string list") (node_map: "(string \<times> cvalue) list") (node_text: string) (node_since: int) (node_until: "int option")
  | CEdge (edge_key: string) (edge_start: string) (edge_label: string) (edge_end: string) (edge_rank: "int option")
      (edge_map: "(string \<times> cvalue) list") (edge_since: int) (edge_until: "int option")
  | CPath (path_nodes: "cvalue list") (path_edges: "cvalue list")

text \<open>Parts of Go's library that the engine uses and this model does not read: the shortest decimal form of a
  finite number in JSON, the \<open>%#v\<close> form of a value that JSON cannot hold, \<open>math.Pow\<close> and \<open>math.Sqrt\<close>, the
  number whose text \<open>strconv.FormatFloat(x, 'g', -1, 64)\<close> is and that text, \<open>strconv.ParseFloat\<close>,
  \<open>regexp.Compile\<close>, \<open>strings.ToLower\<close>, \<open>strings.ToUpper\<close>, \<open>strings.TrimSpace\<close>, and the time zone database.\<close>

record library =
  lib_json_float :: "float64 \<Rightarrow> string"
  lib_go_syntax :: "cvalue \<Rightarrow> string"
  lib_pow :: "float64 \<Rightarrow> float64 \<Rightarrow> float64"
  lib_sqrt :: "float64 \<Rightarrow> float64"
  lib_decimal :: "float64 \<Rightarrow> rat"
  lib_float_text :: "float64 \<Rightarrow> string"
  lib_parse_float :: "string \<Rightarrow> float64 option"
  lib_regexp :: "string \<Rightarrow> (string \<Rightarrow> bool) option"
  lib_lower :: "string \<Rightarrow> string"
  lib_upper :: "string \<Rightarrow> string"
  lib_trim :: "string \<Rightarrow> string"
  lib_zones :: zonedb

section \<open>Well-formed values\<close>

text \<open>Values as the engine holds them: integers have 64 bits, temporal values are in range, and the keys of a
  map are distinct.\<close>

fun value_ok :: "cvalue \<Rightarrow> bool" where
  "value_ok (CInt n) = in64 n"
| "value_ok (CDate d) = valid_date d"
| "value_ok (CLocalTime t) = valid_local_time t"
| "value_ok (CTime t) = valid_time t"
| "value_ok (CLocalDateTime d) = valid_ldt d"
| "value_ok (CDateTime d) = valid_datetime d"
| "value_ok (CDuration d) = valid_duration d"
| "value_ok (CList items) = list_all value_ok items"
| "value_ok (CMap m) = (distinct (map fst m) \<and> list_all (\<lambda>(_, item). value_ok item) m)"
| "value_ok (CNode _ _ m _ _ _) = (distinct (map fst m) \<and> list_all (\<lambda>(_, item). value_ok item) m)"
| "value_ok (CEdge _ _ _ _ position m _ _) =
     (pred_option in64 position \<and> distinct (map fst m) \<and> list_all (\<lambda>(_, item). value_ok item) m)"
| "value_ok (CPath nodes edges) = (list_all value_ok nodes \<and> list_all value_ok edges)"
| "value_ok _ = True"

section \<open>Numbers, lists and maps\<close>

definition number :: "cvalue \<Rightarrow> (float64 \<times> bool) option" where
  "number v = (case v of CInt n \<Rightarrow> Some (float_of_int n, True) | CFloat x \<Rightarrow> Some (x, False) | _ \<Rightarrow> None)"

definition integer :: "cvalue \<Rightarrow> int option" where
  "integer v = (case v of CInt n \<Rightarrow> Some n | _ \<Rightarrow> None)"

definition isNumber :: "cvalue \<Rightarrow> bool" where
  "isNumber v \<longleftrightarrow> number v \<noteq> None"

definition isNaN :: "cvalue \<Rightarrow> bool" where
  "isNaN v \<longleftrightarrow> (case number v of Some (x, _) \<Rightarrow> x = NaN | None \<Rightarrow> False)"

definition asList :: "cvalue \<Rightarrow> cvalue list option" where
  "asList v = (case v of CList items \<Rightarrow> Some items | _ \<Rightarrow> None)"

definition asMap :: "cvalue \<Rightarrow> (string \<times> cvalue) list option" where
  "asMap v = (case v of CMap m \<Rightarrow> Some m | _ \<Rightarrow> None)"

definition sortedMapKeys :: "(string \<times> 'a) list \<Rightarrow> string list" where
  "sortedMapKeys m = sort (map fst m)"

definition compareBool :: "bool \<Rightarrow> bool \<Rightarrow> int" where
  "compareBool left right = (if left = right then 0 else if \<not> left then -1 else 1)"

definition signed_value :: "float64 \<Rightarrow> rat" where
  "signed_value x = (case x of Finite s q \<Rightarrow> signed s q | _ \<Rightarrow> 0)"

definition compareRat :: "rat \<Rightarrow> rat \<Rightarrow> int" where
  "compareRat left right = (if left < right then -1 else if left > right then 1 else 0)"

text \<open>The comparison, whether both sides are numbers, and whether they are unordered.\<close>

definition compareNumbers :: "cvalue \<Rightarrow> cvalue \<Rightarrow> int \<times> bool \<times> bool" where
  "compareNumbers left right =
     (case (number left, number right) of
        (Some (leftFloat, _), Some (rightFloat, _)) \<Rightarrow>
          if leftFloat = NaN \<or> rightFloat = NaN then (0, True, True)
          else (case (integer left, integer right) of
                  (Some l, Some r) \<Rightarrow> (compareInt64 l r, True, False)
                | (None, None) \<Rightarrow> (compareFloat leftFloat rightFloat, True, False)
                | (leftInteger, rightInteger) \<Rightarrow>
                    if is_infinite leftFloat \<or> is_infinite rightFloat then (compareFloat leftFloat rightFloat, True, False)
                    else (case leftInteger of
                            Some l \<Rightarrow> (compareRat (of_int l) (signed_value rightFloat), True, False)
                          | None \<Rightarrow> (compareRat (signed_value leftFloat) (of_int (the rightInteger)), True, False)))
      | _ \<Rightarrow> (0, False, False))"

section \<open>Equality\<close>

text \<open>The loops over the parts of two lists or maps: false at the first difference, null if one is unknown.\<close>

definition all_equal :: "bool option list \<Rightarrow> bool option" where
  "all_equal rs = (if Some False \<in> set rs then Some False else if None \<in> set rs then None else Some True)"

definition equalPath :: "cvalue list \<times> cvalue list \<Rightarrow> cvalue list \<times> cvalue list \<Rightarrow> bool" where
  "equalPath left right \<longleftrightarrow>
     length (fst left) = length (fst right) \<and> length (snd left) = length (snd right) \<and>
     map node_key (fst left) = map node_key (fst right) \<and> map edge_key (snd left) = map edge_key (snd right)"

fun cypherEqual :: "cvalue \<Rightarrow> cvalue \<Rightarrow> bool option" where
  "cypherEqual left right =
     (if left = CNull \<or> right = CNull then None
      else if isNumber left \<or> isNumber right then
        (if \<not> isNumber left \<or> \<not> isNumber right \<or> isNaN left \<or> isNaN right then Some False
         else case compareNumbers left right of (comparison, _, _) \<Rightarrow> Some (comparison = 0))
      else case left of
             CString l \<Rightarrow> Some (case right of CString r \<Rightarrow> l = r | _ \<Rightarrow> False)
           | CBool l \<Rightarrow> Some (case right of CBool r \<Rightarrow> l = r | _ \<Rightarrow> False)
           | CDate l \<Rightarrow> Some (case right of CDate r \<Rightarrow> l = r | _ \<Rightarrow> False)
           | CLocalTime l \<Rightarrow> Some (case right of CLocalTime r \<Rightarrow> l = r | _ \<Rightarrow> False)
           | CTime l \<Rightarrow> Some (case right of CTime r \<Rightarrow> l = r | _ \<Rightarrow> False)
           | CLocalDateTime l \<Rightarrow> Some (case right of CLocalDateTime r \<Rightarrow> l = r | _ \<Rightarrow> False)
           | CDateTime l \<Rightarrow> Some (case right of CDateTime r \<Rightarrow> l = r | _ \<Rightarrow> False)
           | CDuration l \<Rightarrow> Some (case right of CDuration r \<Rightarrow> l = r | _ \<Rightarrow> False)
           | CNode k _ _ _ _ _ \<Rightarrow> Some (case right of CNode j _ _ _ _ _ \<Rightarrow> k = j | _ \<Rightarrow> False)
           | CEdge k _ _ _ _ _ _ _ \<Rightarrow> Some (case right of CEdge j _ _ _ _ _ _ _ \<Rightarrow> k = j | _ \<Rightarrow> False)
           | CPath n r \<Rightarrow> Some (case right of CPath n' r' \<Rightarrow> equalPath (n, r) (n', r') | _ \<Rightarrow> False)
           | CList leftList \<Rightarrow>
               (case asList right of
                  None \<Rightarrow> Some False
                | Some rightList \<Rightarrow>
                    if length leftList \<noteq> length rightList then Some False
                    else all_equal (map2 (\<lambda>equal r. equal r) (map (\<lambda>l. cypherEqual l) leftList) rightList))
           | CMap leftMap \<Rightarrow>
               (case asMap right of
                  None \<Rightarrow> Some False
                | Some rightMap \<Rightarrow>
                    if length leftMap \<noteq> length rightMap then Some False
                    else if list_ex (\<lambda>(key, _). map_of rightMap key = None) leftMap then Some False
                    else all_equal (map (\<lambda>(key, l). cypherEqual l (the (map_of rightMap key))) leftMap))
           | _ \<Rightarrow> Some False)"

declare cypherEqual.simps [simp del]

text \<open>\<open>equalValues\<close> is the internal equality, under which nulls are equal and not-a-number is not equal to itself.\<close>

fun equalValues :: "cvalue \<Rightarrow> cvalue \<Rightarrow> bool" where
  "equalValues left right =
     (case compareNumbers left right of
        (comparison, True, unordered) \<Rightarrow> \<not> unordered \<and> comparison = 0
      | _ \<Rightarrow>
          (case (left, right) of
             (CList leftList, CList rightList) \<Rightarrow>
               length leftList = length rightList \<and>
               list_all (\<lambda>b. b) (map2 (\<lambda>equal r. equal r) (map (\<lambda>l. equalValues l) leftList) rightList)
           | (CMap leftMap, CMap rightMap) \<Rightarrow>
               length leftMap = length rightMap \<and>
               list_all (\<lambda>(key, equal). case map_of rightMap key of None \<Rightarrow> False | Some r \<Rightarrow> equal r)
                 (map (\<lambda>(key, l). (key, equalValues l)) leftMap)
           | _ \<Rightarrow> left = right))"

declare equalValues.simps [simp del]

text \<open>\<open>IN\<close>: the inner sum is null, true or false.\<close>

definition containsValue :: "cvalue \<Rightarrow> cvalue \<Rightarrow> (bool option) option" where
  "containsValue collection needle =
     (if collection = CNull then Some None
      else case asList collection of
             None \<Rightarrow> None
           | Some items \<Rightarrow>
               let results = map (\<lambda>item. cypherEqual item needle) items
               in if Some True \<in> set results then Some (Some True)
                  else if None \<in> set results then Some None
                  else Some (Some False))"

section \<open>The comparison operators\<close>

text \<open>The loop over two lists: equal items are skipped, a null decides that the lists cannot be compared.\<close>

fun compareItems :: "(cvalue \<times> (cvalue \<Rightarrow> int \<times> bool \<times> bool)) list \<Rightarrow> cvalue list \<Rightarrow> (int \<times> bool \<times> bool) option" where
  "compareItems ((l, c) # ls) (r # rs) =
     (if cypherEqual l r = Some True then compareItems ls rs
      else if l = CNull \<or> r = CNull then Some (0, False, False)
      else case c r of
             (comparison, comparable, unordered) \<Rightarrow>
               if unordered \<or> \<not> comparable then Some (comparison, comparable, unordered)
               else if comparison \<noteq> 0 then Some (comparison, True, False)
               else compareItems ls rs)"
| "compareItems _ _ = None"

fun compareCypherValues :: "cvalue \<Rightarrow> cvalue \<Rightarrow> int \<times> bool \<times> bool" where
  "compareCypherValues left right =
     (if isNumber left \<or> isNumber right then
        (if \<not> isNumber left \<or> \<not> isNumber right then (0, False, False) else compareNumbers left right)
      else case left of
             CString l \<Rightarrow> (case right of CString r \<Rightarrow> (strings_Compare l r, True, False) | _ \<Rightarrow> (0, False, False))
           | CBool l \<Rightarrow> (case right of CBool r \<Rightarrow> (compareBool l r, True, False) | _ \<Rightarrow> (0, False, False))
           | CDate l \<Rightarrow> (case right of CDate r \<Rightarrow> (DateCompare l r, True, False) | _ \<Rightarrow> (0, False, False))
           | CLocalTime l \<Rightarrow> (case right of CLocalTime r \<Rightarrow> (LocalTimeCompare l r, True, False) | _ \<Rightarrow> (0, False, False))
           | CTime l \<Rightarrow> (case right of CTime r \<Rightarrow> (TimeCompare l r, True, False) | _ \<Rightarrow> (0, False, False))
           | CLocalDateTime l \<Rightarrow> (case right of CLocalDateTime r \<Rightarrow> (LocalDateTimeCompare l r, True, False) | _ \<Rightarrow> (0, False, False))
           | CDateTime l \<Rightarrow> (case right of CDateTime r \<Rightarrow> (DateTimeCompare l r, True, False) | _ \<Rightarrow> (0, False, False))
           | CList leftList \<Rightarrow>
               (case asList right of
                  None \<Rightarrow> (0, False, False)
                | Some rightList \<Rightarrow>
                    (case compareItems (map (\<lambda>l. (l, compareCypherValues l)) leftList) rightList of
                       Some result \<Rightarrow> result
                     | None \<Rightarrow> (compareInt64 (int (length leftList)) (int (length rightList)), True, False)))
           | _ \<Rightarrow> (0, False, False))"

declare compareCypherValues.simps [simp del]

section \<open>Keys\<close>

fun all_some :: "'a option list \<Rightarrow> 'a list option" where
  "all_some [] = Some []"
| "all_some (x # xs) = (case (x, all_some xs) of (Some y, Some ys) \<Rightarrow> Some (y # ys) | _ \<Rightarrow> None)"

definition json_list :: "string list \<Rightarrow> string" where
  "json_list parts = ''['' @ join_comma parts @ '']''"

definition json_object :: "string list \<Rightarrow> string" where
  "json_object parts = ''{'' @ join_comma parts @ ''}''"

text \<open>\<open>encoding/json\<close> on a frozen value: maps in the order of their keys, structures in the order of their fields
  without the empty ones.  A number that is not finite cannot be encoded.\<close>

fun jsonValue :: "(float64 \<Rightarrow> string) \<Rightarrow> cvalue \<Rightarrow> string option" where
  "jsonValue fmt v =
     (let entries = (\<lambda>m. map_option json_object (all_some (map (\<lambda>(key, item). map_option (json_field key) item) (sort_key fst m))))
      in case v of
           CNull \<Rightarrow> Some ''null''
         | CBool b \<Rightarrow> Some (if b then ''true'' else ''false'')
         | CInt n \<Rightarrow> Some (format_int 0 n)
         | CFloat x \<Rightarrow> (case x of Finite _ _ \<Rightarrow> Some (fmt x) | _ \<Rightarrow> None)
         | CString s \<Rightarrow> Some (json_string s)
         | CDate d \<Rightarrow> Some (json_string (DateString d))
         | CLocalTime d \<Rightarrow> Some (json_string (formatLocalTime d))
         | CTime d \<Rightarrow> Some (json_string (TimeString d))
         | CLocalDateTime d \<Rightarrow> Some (json_string (LocalDateTimeString d))
         | CDateTime d \<Rightarrow> Some (json_string (DateTimeString d))
         | CDuration d \<Rightarrow> Some (json_string (DurationString d))
         | CList items \<Rightarrow> map_option json_list (all_some (map (\<lambda>item. jsonValue fmt item) items))
         | CMap m \<Rightarrow> entries (map (\<lambda>(key, item). (key, jsonValue fmt item)) m)
         | CNode k labels m body since until \<Rightarrow>
             (case entries (map (\<lambda>(key, item). (key, jsonValue fmt item)) m) of
                None \<Rightarrow> None
              | Some props \<Rightarrow>
                  Some (json_object
                    ([json_field ''id'' (json_string k)] @
                     (if labels = [] then [] else [json_field ''labels'' (json_list (map json_string labels))]) @
                     (if m = [] then [] else [json_field ''properties'' props]) @
                     (if body = [] then [] else [json_field ''body'' (json_string body)]) @
                     [json_field ''valid_from'' (format_int 0 since)] @
                     (case until of None \<Rightarrow> [] | Some u \<Rightarrow> [json_field ''valid_to'' (format_int 0 u)]))))
         | CEdge k start label stop rank m since until \<Rightarrow>
             (case entries (map (\<lambda>(key, item). (key, jsonValue fmt item)) m) of
                None \<Rightarrow> None
              | Some props \<Rightarrow>
                  Some (json_object
                    ([json_field ''id'' (json_string k), json_field ''from'' (json_string start), json_field ''type'' (json_string label),
                      json_field ''to'' (json_string stop)] @
                     (case rank of None \<Rightarrow> [] | Some r \<Rightarrow> [json_field ''position'' (format_int 0 r)]) @
                     (if m = [] then [] else [json_field ''properties'' props]) @
                     [json_field ''valid_from'' (format_int 0 since)] @
                     (case until of None \<Rightarrow> [] | Some u \<Rightarrow> [json_field ''valid_to'' (format_int 0 u)]))))
         | CPath nodes edges \<Rightarrow>
             (case (all_some (map (\<lambda>item. jsonValue fmt item) nodes), all_some (map (\<lambda>item. jsonValue fmt item) edges)) of
                (Some ns, Some es) \<Rightarrow>
                  Some (json_object [json_field ''nodes'' (json_list ns), json_field ''relationships'' (json_list es)])
              | _ \<Rightarrow> None))"

declare jsonValue.simps [simp del]

text \<open>\<open>%T\<close>\<close>

definition typeName :: "cvalue \<Rightarrow> string" where
  "typeName v =
     (case v of
        CNull \<Rightarrow> ''<nil>'' | CBool _ \<Rightarrow> ''bool'' | CInt _ \<Rightarrow> ''int64'' | CFloat _ \<Rightarrow> ''float64'' | CString _ \<Rightarrow> ''string''
      | CDate _ \<Rightarrow> ''temporal.Date'' | CLocalTime _ \<Rightarrow> ''temporal.LocalTime'' | CTime _ \<Rightarrow> ''temporal.Time''
      | CLocalDateTime _ \<Rightarrow> ''temporal.LocalDateTime'' | CDateTime _ \<Rightarrow> ''temporal.DateTime'' | CDuration _ \<Rightarrow> ''temporal.Duration''
      | CList _ \<Rightarrow> ''[]interface {}'' | CMap _ \<Rightarrow> ''map[string]interface {}'' | CNode _ _ _ _ _ _ \<Rightarrow> ''*domain.Node''
      | CEdge _ _ _ _ _ _ _ _ \<Rightarrow> ''*domain.Edge'' | CPath _ _ \<Rightarrow> ''engine.Path'')"

definition valueKey :: "library \<Rightarrow> cvalue \<Rightarrow> string" where
  "valueKey lib v =
     typeName v @ '':'' @ (case jsonValue (lib_json_float lib) v of Some encoded \<Rightarrow> encoded | None \<Rightarrow> lib_go_syntax lib v)"

section \<open>The order of ORDER BY\<close>

definition orderRank :: "cvalue \<Rightarrow> int" where
  "orderRank v =
     (case v of
        CMap _ \<Rightarrow> 0 | CNode _ _ _ _ _ _ \<Rightarrow> 1 | CEdge _ _ _ _ _ _ _ _ \<Rightarrow> 2 | CList _ \<Rightarrow> 3 | CPath _ _ \<Rightarrow> 4
      | CDate _ \<Rightarrow> 5 | CLocalTime _ \<Rightarrow> 5 | CTime _ \<Rightarrow> 5 | CLocalDateTime _ \<Rightarrow> 5 | CDateTime _ \<Rightarrow> 5
      | CDuration _ \<Rightarrow> 6 | CString _ \<Rightarrow> 7 | CBool _ \<Rightarrow> 8 | CInt _ \<Rightarrow> 9 | CFloat _ \<Rightarrow> 9 | CNull \<Rightarrow> 11)"

text \<open>\<open>if c := ...; c != 0 { return c }\<close> over a list of comparisons.\<close>

fun first_difference :: "int list \<Rightarrow> int" where
  "first_difference [] = 0"
| "first_difference (c # cs) = (if c \<noteq> 0 then c else first_difference cs)"

definition compareTemporal :: "library \<Rightarrow> cvalue \<Rightarrow> cvalue \<Rightarrow> int" where
  "compareTemporal lib left right =
     (case (left, right) of
        (CDate l, CDate r) \<Rightarrow> DateCompare l r
      | (CLocalTime l, CLocalTime r) \<Rightarrow> LocalTimeCompare l r
      | (CTime l, CTime r) \<Rightarrow> TimeCompare l r
      | (CLocalDateTime l, CLocalDateTime r) \<Rightarrow> LocalDateTimeCompare l r
      | (CDateTime l, CDateTime r) \<Rightarrow> DateTimeCompare l r
      | _ \<Rightarrow> strings_Compare (valueKey lib left) (valueKey lib right))"

definition compareOrderNumbers :: "cvalue \<Rightarrow> cvalue \<Rightarrow> int" where
  "compareOrderNumbers left right =
     (case compareNumbers left right of
        (comparison, _, unordered) \<Rightarrow>
          if unordered then (if isNaN left = isNaN right then 0 else if isNaN left then 1 else -1) else comparison)"

fun compareOrderValues :: "library \<Rightarrow> cvalue \<Rightarrow> cvalue \<Rightarrow> int" where
  "compareOrderValues lib left right =
     (if left = CNull then (if right = CNull then 0 else 1)
      else if right = CNull then -1
      else if orderRank left \<noteq> orderRank right then compareInt64 (orderRank left) (orderRank right)
      else case left of
             CMap leftMap \<Rightarrow>
               let rightMap = the (asMap right);
                   comparisons = map (\<lambda>(key, l). (key, compareOrderValues lib l)) leftMap;
                   leftKeys = sortedMapKeys leftMap; rightKeys = sortedMapKeys rightMap
               in if length leftMap \<noteq> length rightMap then compareInt64 (int (length leftMap)) (int (length rightMap))
                  else first_difference
                         (map2 strings_Compare leftKeys rightKeys @
                          map (\<lambda>key. the (map_of comparisons key) (the (map_of rightMap key))) leftKeys)
           | CNode k _ _ _ _ _ \<Rightarrow> strings_Compare k (node_key right)
           | CEdge k _ _ _ _ _ _ _ \<Rightarrow> strings_Compare k (edge_key right)
           | CList leftList \<Rightarrow>
               let rightList = the (asList right)
               in first_difference
                    (map2 (\<lambda>c r. c r) (map (\<lambda>l. compareOrderValues lib l) leftList) rightList @
                     [compareInt64 (int (length leftList)) (int (length rightList))])
           | CPath _ _ \<Rightarrow> strings_Compare (valueKey lib left) (valueKey lib right)
           | CDuration l \<Rightarrow> (case right of CDuration r \<Rightarrow> CompareForOrder l r | _ \<Rightarrow> 0)
           | CString l \<Rightarrow> (case right of CString r \<Rightarrow> strings_Compare l r | _ \<Rightarrow> 0)
           | CBool l \<Rightarrow> (case right of CBool r \<Rightarrow> compareBool l r | _ \<Rightarrow> 0)
           | CInt _ \<Rightarrow> compareOrderNumbers left right
           | CFloat _ \<Rightarrow> compareOrderNumbers left right
           | _ \<Rightarrow> compareTemporal lib left right)"

declare compareOrderValues.simps [simp del]

end
