(* ===== verification/Query_Arith.thy ===== *)
theory Query_Arith
  imports Query_Value
begin

text \<open>
  The operators of \<open>internal/engine/eval.go\<close> on values: three-valued logic, arithmetic of numbers and of temporal
  values, comparison, membership and the string tests.  An error carries the format of its message.  A run-time
  error of Go, which the engine does not recover from, is the error \<open>Panic\<close>.
\<close>

datatype qerror = EvalError string | Panic string

type_synonym qresult = "qerror + cvalue"

definition ternary :: "bool option \<Rightarrow> cvalue" where
  "ternary b = (case b of None \<Rightarrow> CNull | Some c \<Rightarrow> CBool c)"

section \<open>Logic\<close>

definition isBoolOrNull :: "cvalue \<Rightarrow> bool" where
  "isBoolOrNull v \<longleftrightarrow> (case v of CNull \<Rightarrow> True | CBool _ \<Rightarrow> True | _ \<Rightarrow> False)"

definition booleanBinary :: "string \<Rightarrow> cvalue \<Rightarrow> cvalue \<Rightarrow> qresult" where
  "booleanBinary operator left right =
     (if \<not> isBoolOrNull left \<or> \<not> isBoolOrNull right then Inl (EvalError ''%s expects booleans'')
      else case (left, right) of
             (CBool l, CBool r) \<Rightarrow>
               Inr (CBool (if operator = ''AND'' then l \<and> r else if operator = ''OR'' then l \<or> r else l \<noteq> r))
           | _ \<Rightarrow>
               if operator = ''AND'' \<and> (left = CBool False \<or> right = CBool False) then Inr (CBool False)
               else if operator = ''OR'' \<and> (left = CBool True \<or> right = CBool True) then Inr (CBool True)
               else Inr CNull)"

section \<open>Numbers\<close>

text \<open>The integer case: \<open>l * r\<close> wraps and \<open>/\<close> truncates; dividing by zero is a run-time error.\<close>

definition integerBinary :: "string \<Rightarrow> int \<Rightarrow> int \<Rightarrow> qresult" where
  "integerBinary operator l r =
     (let overflow = Inl (EvalError ''integer overflow'') in
      if operator = ''+'' then
        (if r > 0 \<and> l > 9223372036854775807 - r \<or> r < 0 \<and> l < (- 9223372036854775808) - r then overflow else Inr (CInt (l + r)))
      else if operator = ''-'' then
        (if r < 0 \<and> l > 9223372036854775807 + r \<or> r > 0 \<and> l < (- 9223372036854775808) + r then overflow else Inr (CInt (l - r)))
      else if operator = ''*'' then
        (if l \<noteq> 0 then
           (if l = (- 9223372036854775808) \<and> r = -1 \<or> r = (- 9223372036854775808) \<and> l = -1 then overflow
            else if r = 0 then Inl (Panic ''integer divide by zero'')
            else if i64 (l * r) sdiv r \<noteq> l then overflow
            else Inr (CInt (i64 (l * r))))
         else Inr (CInt (i64 (l * r))))
      else if operator = ''%'' then
        (if l = (- 9223372036854775808) \<and> r = -1 then Inr (CInt 0) else Inr (CInt (l smod r)))
      else
        (if l = (- 9223372036854775808) \<and> r = -1 then overflow else Inr (CInt (l sdiv r))))"

definition numericBinary :: "library \<Rightarrow> string \<Rightarrow> cvalue \<Rightarrow> cvalue \<Rightarrow> qresult" where
  "numericBinary lib operator left right =
     (if left = CNull \<or> right = CNull then Inr CNull
      else case (number left, number right) of
             (Some (leftFloat, leftInteger), Some (rightFloat, rightInteger)) \<Rightarrow>
               if operator = ''%'' \<and> float_zero rightFloat
                  \<or> operator = ''/'' \<and> float_zero rightFloat \<and> leftInteger \<and> rightInteger
               then Inl (EvalError ''division by zero'')
               else if leftInteger \<and> rightInteger \<and> operator \<in> {''+'', ''-'', ''*'', ''%'', ''/''} then
                 integerBinary operator (the (integer left)) (the (integer right))
               else if operator = ''+'' then Inr (CFloat (float_add leftFloat rightFloat))
               else if operator = ''-'' then Inr (CFloat (float_sub leftFloat rightFloat))
               else if operator = ''*'' then Inr (CFloat (float_mul leftFloat rightFloat))
               else if operator = ''/'' then Inr (CFloat (float_div leftFloat rightFloat))
               else if operator = ''%'' then Inr (CFloat (float_mod leftFloat rightFloat))
               else if operator = ''^'' then Inr (CFloat (lib_pow lib leftFloat rightFloat))
               else Inl (EvalError ''unsupported numeric operator %q'')
           | _ \<Rightarrow> Inl (EvalError ''%s expects numbers, got %T and %T''))"

section \<open>Temporal values\<close>

definition dateArithmeticDuration :: "Duration \<Rightarrow> terror + Duration" where
  "dateArithmeticDuration d =
     (let elapsedDays = dur_seconds d sdiv 86400; days = dur_days d
      in if elapsedDays > 0 \<and> days > 9223372036854775807 - elapsedDays \<or> elapsedDays < 0 \<and> days < (- 9223372036854775808) - elapsedDays
         then Inl ErrOverflow
         else NewDuration (dur_months d) (days + elapsedDays) 0 0)"

text \<open>\<open>Duration.Multiply\<close> and \<open>Duration.Divide\<close> of a number of the engine: a finite float counts as the decimal
  number that its shortest text writes.\<close>

definition valueRat :: "library \<Rightarrow> cvalue \<Rightarrow> terror + rat" where
  "valueRat lib v =
     (case v of
        CInt n \<Rightarrow> Inr (of_int n)
      | CFloat x \<Rightarrow> (case x of Finite _ _ \<Rightarrow> Inr (lib_decimal lib x) | _ \<Rightarrow> Inl ErrInvalid)
      | _ \<Rightarrow> Inl ErrInvalid)"

definition Multiply :: "library \<Rightarrow> Duration \<Rightarrow> cvalue \<Rightarrow> terror + Duration" where
  "Multiply lib d factor = bindE (valueRat lib factor) (\<lambda>ratio. scale d ratio)"

definition Divide :: "library \<Rightarrow> Duration \<Rightarrow> cvalue \<Rightarrow> terror + Duration" where
  "Divide lib d divisor =
     bindE (valueRat lib divisor) (\<lambda>ratio. if ratio = 0 then Inl ErrInvalid else scale d (inverse ratio))"

definition mapR :: "('a \<Rightarrow> 'b) \<Rightarrow> 'e + 'a \<Rightarrow> 'e + 'b" where
  "mapR f m = bindE m (\<lambda>x. Inr (f x))"

text \<open>A temporal value moved by a duration, forwards or backwards.\<close>

definition moveTemporal :: "library \<Rightarrow> bool \<Rightarrow> cvalue \<Rightarrow> Duration \<Rightarrow> (terror + cvalue) option" where
  "moveTemporal lib forwards v duration =
     (case v of
        CDate d \<Rightarrow>
          Some (bindE (dateArithmeticDuration duration) (\<lambda>adjusted.
            mapR CDate ((if forwards then DateAdd else DateSubtract) d adjusted)))
      | CLocalTime d \<Rightarrow> Some (mapR CLocalTime ((if forwards then LocalTimeAdd else LocalTimeSubtract) d duration))
      | CTime d \<Rightarrow> Some (mapR CTime ((if forwards then TimeAdd else TimeSubtract) d duration))
      | CLocalDateTime d \<Rightarrow> Some (mapR CLocalDateTime ((if forwards then LocalDateTimeAdd else LocalDateTimeSubtract) d duration))
      | CDateTime d \<Rightarrow>
          Some (mapR CDateTime ((if forwards then AddWithDatabase else SubtractWithDatabase) d duration (lib_zones lib)))
      | _ \<Rightarrow> None)"

definition temporalArithmetic :: "library \<Rightarrow> string \<Rightarrow> cvalue \<Rightarrow> cvalue \<Rightarrow> (terror + cvalue) option" where
  "temporalArithmetic lib operator left right =
     (let moved =
        (case right of
           CDuration duration \<Rightarrow>
             if operator = ''+'' \<or> operator = ''-'' then
               (case left of
                  CDuration d \<Rightarrow>
                    Some (mapR CDuration ((if operator = ''+'' then DurationAdd else DurationSubtract) d duration))
                | _ \<Rightarrow> moveTemporal lib (operator = ''+'') left duration)
             else None
         | _ \<Rightarrow> (case left of CDuration d \<Rightarrow> if operator = ''+'' then moveTemporal lib True right d else None | _ \<Rightarrow> None))
      in case moved of
           Some result \<Rightarrow> Some result
         | None \<Rightarrow>
             (case (left, right) of
                (CDuration d, _) \<Rightarrow>
                  if operator = ''*'' \<and> isNumber right then Some (mapR CDuration (Multiply lib d right))
                  else if operator = ''/'' \<and> isNumber right then Some (mapR CDuration (Divide lib d right))
                  else None
              | (_, CDuration d) \<Rightarrow>
                  if operator = ''*'' \<and> isNumber left then Some (mapR CDuration (Multiply lib d left)) else None
              | _ \<Rightarrow> None))"

definition orEval :: "string \<Rightarrow> terror + cvalue \<Rightarrow> qresult" where
  "orEval message r = (case r of Inl _ \<Rightarrow> Inl (EvalError message) | Inr v \<Rightarrow> Inr v)"

section \<open>Addition\<close>

definition addValues :: "library \<Rightarrow> cvalue \<Rightarrow> cvalue \<Rightarrow> qresult" where
  "addValues lib left right =
     (if left = CNull \<or> right = CNull then Inr CNull
      else case temporalArithmetic lib ''+'' left right of
             Some result \<Rightarrow> orEval ''temporal addition failed: %v'' result
           | None \<Rightarrow>
               (case (left, right) of
                  (CString l, CString r) \<Rightarrow> Inr (CString (l @ r))
                | (CString _, _) \<Rightarrow> Inl (EvalError ''+ cannot combine string and %T'')
                | _ \<Rightarrow>
                    (case (asList left, asList right) of
                       (Some leftList, Some rightList) \<Rightarrow> Inr (CList (leftList @ rightList))
                     | (Some leftList, None) \<Rightarrow> Inr (CList (leftList @ [right]))
                     | (None, Some rightList) \<Rightarrow> Inr (CList (left # rightList))
                     | (None, None) \<Rightarrow> numericBinary lib ''+'' left right)))"

section \<open>The operators\<close>

definition isInfixOf :: "string \<Rightarrow> string \<Rightarrow> bool" where
  "isInfixOf t s \<longleftrightarrow> list_ex (\<lambda>k. take (length t) (drop k s) = t) [0 ..< Suc (length s)]"

definition comparisonResult :: "string \<Rightarrow> cvalue \<Rightarrow> cvalue \<Rightarrow> cvalue" where
  "comparisonResult operator left right =
     (if left = CNull \<or> right = CNull then CNull
      else case compareCypherValues left right of
             (comparison, comparable, unordered) \<Rightarrow>
               if unordered then CBool False
               else if \<not> comparable then CNull
               else if operator = ''<'' then CBool (comparison < 0)
               else if operator = ''<='' then CBool (comparison \<le> 0)
               else if operator = ''>'' then CBool (comparison > 0)
               else CBool (comparison \<ge> 0))"

definition stringTest :: "string \<Rightarrow> cvalue \<Rightarrow> cvalue \<Rightarrow> cvalue" where
  "stringTest operator left right =
     (case (left, right) of
        (CString l, CString r) \<Rightarrow>
          CBool (if operator = ''STARTS WITH'' then take (length r) l = r
                 else if operator = ''ENDS WITH'' then length r \<le> length l \<and> drop (length l - length r) l = r
                 else isInfixOf r l)
      | _ \<Rightarrow> CNull)"

definition matchRegexp :: "library \<Rightarrow> cvalue \<Rightarrow> cvalue \<Rightarrow> qresult" where
  "matchRegexp lib left right =
     (if left = CNull \<or> right = CNull then Inr CNull
      else case (left, right) of
             (CString l, CString pattern) \<Rightarrow>
               (case lib_regexp lib pattern of
                  None \<Rightarrow> Inl (EvalError ''invalid regular expression: %v'')
                | Some compiled \<Rightarrow> Inr (CBool (compiled l)))
           | _ \<Rightarrow> Inl (EvalError ''=~ expects strings''))"

definition negated :: "cvalue \<Rightarrow> cvalue" where
  "negated v = (case v of CBool b \<Rightarrow> CBool (\<not> b) | _ \<Rightarrow> CNull)"

definition membership :: "cvalue \<Rightarrow> cvalue \<Rightarrow> qresult" where
  "membership collection needle =
     (case containsValue collection needle of None \<Rightarrow> Inl (EvalError ''IN expects a list on its right side'') | Some b \<Rightarrow> Inr (ternary b))"

text \<open>\<open>binary\<close> once both operands are evaluated.\<close>

definition binaryValues :: "library \<Rightarrow> string \<Rightarrow> cvalue \<Rightarrow> cvalue \<Rightarrow> qresult" where
  "binaryValues lib operator left right =
     (if operator \<in> {''AND'', ''OR'', ''XOR''} then booleanBinary operator left right
      else if operator = ''='' then Inr (ternary (cypherEqual left right))
      else if operator = ''<>'' \<or> operator = ''!='' then Inr (negated (ternary (cypherEqual left right)))
      else if operator \<in> {''<'', ''<='', ''>'', ''>=''} then Inr (comparisonResult operator left right)
      else if operator = ''IN'' then membership right left
      else if operator = ''NOT IN'' then mapR negated (membership right left)
      else if operator \<in> {''STARTS WITH'', ''ENDS WITH'', ''CONTAINS''} then Inr (stringTest operator left right)
      else if operator = ''=~'' then matchRegexp lib left right
      else if operator = ''+'' then addValues lib left right
      else if operator = ''-'' then
        (case temporalArithmetic lib ''-'' left right of
           Some result \<Rightarrow> orEval ''temporal subtraction failed: %v'' result
         | None \<Rightarrow> numericBinary lib operator left right)
      else if operator = ''*'' \<or> operator = ''/'' then
        (case temporalArithmetic lib operator left right of
           Some result \<Rightarrow> orEval ''temporal %s failed: %v'' result
         | None \<Rightarrow> numericBinary lib operator left right)
      else if operator = ''%'' \<or> operator = ''^'' then numericBinary lib operator left right
      else Inl (EvalError ''unsupported operator %q''))"

definition unaryValue :: "string \<Rightarrow> cvalue \<Rightarrow> qresult" where
  "unaryValue operator v =
     (if v = CNull then Inr CNull
      else if operator = ''NOT'' then
        (case v of CBool b \<Rightarrow> Inr (CBool (\<not> b)) | _ \<Rightarrow> Inl (EvalError ''NOT expects a boolean, got %T''))
      else if operator = ''+'' \<and> isNumber v then Inr v
      else if operator = ''-'' then
        (case v of
           CInt n \<Rightarrow> if n = (- 9223372036854775808) then Inl (EvalError ''integer overflow'') else Inr (CInt (- n))
         | CFloat x \<Rightarrow> Inr (CFloat (float_neg x))
         | _ \<Rightarrow> Inl (EvalError ''%s expects a number, got %T''))
      else Inl (EvalError ''%s expects a number, got %T''))"

section \<open>Integer arithmetic is exact or an error\<close>

text \<open>A result in range, or an overflow.\<close>

definition exact_or_overflow :: "int \<Rightarrow> qresult" where
  "exact_or_overflow n = (if in64 n then Inr (CInt n) else Inl (EvalError ''integer overflow''))"

lemma rat_floor_floor: "rat_floor q = \<lfloor>q\<rfloor>"
  by (simp add: rat_floor_def rat_floor_code split: prod.split)

lemma half_even_ge: "\<lfloor>q\<rfloor> \<le> half_even q"
  by (simp add: half_even_def Let_def rat_floor_floor)

lemma pow2_mono:
  assumes "a \<le> b"
  shows "pow2 a \<le> pow2 b"
proof -
  consider "0 \<le> a" | "a < 0" "0 \<le> b" | "b < 0" by linarith
  then show ?thesis
  proof cases
    case 1
    then show ?thesis using assms by (simp add: pow2_def power_increasing nat_mono)
  next
    case 2
    have "1 / 2 ^ nat (- a) \<le> (1::rat)" by simp
    also have "\<dots> \<le> 2 ^ nat b" by simp
    finally show ?thesis using 2 by (simp add: pow2_def)
  next
    case 3
    then have "(2::rat) ^ nat (- b) \<le> 2 ^ nat (- a)" using assms by (intro power_increasing) simp_all
    then show ?thesis using 3 assms by (simp add: pow2_def frac_le)
  qed
qed

lemma float_of_int_zero: "float_zero (float_of_int n) \<longleftrightarrow> n = 0"
proof (cases "n = 0")
  case True
  then show ?thesis by (simp add: float_of_int_def round64_def float_zero_def)
next
  case False
  define q :: rat where "q = of_int \<bar>n\<bar>"
  define e where "e = max (ilog2 q - 52) (-1074)"
  have n: "0 < \<bar>n\<bar>" using False by simp
  have "2 ^ nat (bitlen \<bar>n\<bar> - 1) \<le> \<bar>n\<bar>" using bitlen_bounds [OF n] by simp
  then have "(2::rat) ^ nat (bitlen \<bar>n\<bar> - 1) \<le> q" unfolding q_def by (metis of_int_le_iff of_int_numeral of_int_power)
  moreover have "bitlen \<bar>n\<bar> \<ge> 1" using n bitlen_ge_iff_power [of 1 "\<bar>n\<bar>"] by simp
  moreover have "bitlen 1 = 1" using bitlen_twopow_add_eq [of 0 0] by simp
  ultimately have "0 \<le> ilog2 q" and "pow2 (ilog2 q) \<le> q"
    by (auto simp: ilog2_def q_def pow2_def Let_def simp del: of_int_abs)
  moreover have "pow2 e \<le> pow2 (ilog2 q)" using \<open>0 \<le> ilog2 q\<close> by (intro pow2_mono) (simp add: e_def)
  moreover have pos: "0 < pow2 e" by (simp add: pow2_def)
  ultimately have "1 \<le> q / pow2 e" by (simp add: pos_le_divide_eq)
  then have "1 \<le> half_even (q / pow2 e)" using half_even_ge [of "q / pow2 e"] by linarith
  then have "of_int (half_even (q / pow2 e)) * pow2 e \<noteq> 0" using pos by simp
  moreover have "q \<noteq> 0" using False by (simp add: q_def)
  ultimately have "\<not> float_zero (float_of_int n)"
    unfolding float_of_int_def q_def [symmetric] unfolding round64_def Let_def e_def [symmetric] by (simp add: float_zero_def)
  then show ?thesis using False by simp
qed

text \<open>The product tests what \<open>checkedMul\<close> tests, but not for a zero on the right.\<close>

lemma integer_product:
  assumes "in64 l" "in64 r"
  shows "integerBinary ''*'' l r =
    (if l \<noteq> 0 \<and> r = 0 then Inl (Panic ''integer divide by zero'') else exact_or_overflow (l * r))"
proof (cases "l = 0 \<or> r = 0")
  case True
  have "in64 0" by (simp add: in64_def)
  then show ?thesis using True by (auto simp: integerBinary_def exact_or_overflow_def)
next
  case False
  then have "integerBinary ''*'' l r = orEval ''integer overflow'' (mapR CInt (checkedMul l r))"
    by (auto simp: integerBinary_def checkedMul_def orEval_def mapR_def Let_def)
  then show ?thesis using assms False by (simp add: checkedMul_exact exact_or_overflow_def orEval_def mapR_def)
qed

lemma integer_quotient:
  assumes "in64 l" "r \<noteq> 0"
  shows "integerBinary ''/'' l r = exact_or_overflow (l sdiv r)"
proof (cases "l = -9223372036854775808 \<and> r = -1")
  case True
  then show ?thesis by (simp add: integerBinary_def exact_or_overflow_def in64_def)
next
  case False
  have "in64 (l sdiv r)"
  proof (cases "\<bar>r\<bar> = 1")
    case True
    then have "r = 1 \<or> r = -1" by linarith
    then show ?thesis using False assms(1) sdiv_mult_cancel [of 1 l] sdiv_mult_cancel [of "-1" "- l"] by (auto simp: in64_def)
  next
    case big: False
    have "\<bar>l\<bar> div \<bar>r\<bar> \<le> \<bar>l\<bar> div 2" using big assms(2) by (intro zdiv_mono2) linarith+
    moreover have "\<bar>l\<bar> \<le> 9223372036854775808" using assms(1) unfolding in64_def by linarith
    then have "\<bar>l\<bar> div 2 \<le> 4611686018427387904" by linarith
    moreover have "\<bar>l sdiv r\<bar> \<le> \<bar>l\<bar> div \<bar>r\<bar>"
      by (simp add: signed_divide_int_def abs_mult abs_sgn_eq pos_imp_zdiv_nonneg_iff)
    ultimately show ?thesis unfolding in64_def by linarith
  qed
  then show ?thesis using False by (auto simp: integerBinary_def exact_or_overflow_def)
qed

lemma integer_remainder:
  assumes "in64 l" "in64 r" "r \<noteq> 0"
  shows "integerBinary ''%'' l r = exact_or_overflow (l smod r)"
proof -
  have "\<bar>l smod r\<bar> < \<bar>r\<bar>" using assms(3) by (simp add: signed_modulo_int_def abs_mult)
  then have "in64 (l smod r)" using assms(2) unfolding in64_def by linarith
  moreover have "l smod (-1) = 0" by (simp add: signed_modulo_int_def)
  ultimately show ?thesis by (auto simp: integerBinary_def exact_or_overflow_def)
qed

lemma numericBinary_integers:
  assumes "operator \<in> {''+'', ''-'', ''*'', ''%'', ''/''}"
  shows "numericBinary lib operator (CInt l) (CInt r) =
    (if (operator = ''%'' \<or> operator = ''/'') \<and> r = 0 then Inl (EvalError ''division by zero'') else integerBinary operator l r)"
  using assms by (auto simp: numericBinary_def number_def integer_def float_of_int_zero)

text \<open>C39: Integer operators are exact: the result is the mathematical sum, difference, product, truncated quotient or
  remainder whenever that has 64 bits, an overflow error otherwise, and an error for a zero divisor.  The one
  exception is the product of a non-zero number with zero, whose overflow test divides by the zero and stops the
  program with a run-time error.\<close>

theorem integer_arithmetic:
  assumes "in64 l" "in64 r"
  shows "numericBinary lib ''+'' (CInt l) (CInt r) = exact_or_overflow (l + r) \<and>
    numericBinary lib ''-'' (CInt l) (CInt r) = exact_or_overflow (l - r) \<and>
    numericBinary lib ''*'' (CInt l) (CInt r) =
      (if l \<noteq> 0 \<and> r = 0 then Inl (Panic ''integer divide by zero'') else exact_or_overflow (l * r)) \<and>
    numericBinary lib ''/'' (CInt l) (CInt r) =
      (if r = 0 then Inl (EvalError ''division by zero'') else exact_or_overflow (l sdiv r)) \<and>
    numericBinary lib ''%'' (CInt l) (CInt r) =
      (if r = 0 then Inl (EvalError ''division by zero'') else exact_or_overflow (l smod r))"
proof -
  have "numericBinary lib ''+'' (CInt l) (CInt r) = exact_or_overflow (l + r)"
    "numericBinary lib ''-'' (CInt l) (CInt r) = exact_or_overflow (l - r)"
    using assms by (auto simp: numericBinary_integers integerBinary_def exact_or_overflow_def in64_def)
  then show ?thesis
    using assms by (simp add: numericBinary_integers integer_quotient integer_remainder integer_product)
qed

theorem integer_arithmetic_witness:
  "\<forall>lib. numericBinary lib ''*'' (CInt 5) (CInt 0) = Inl (Panic ''integer divide by zero'')"
proof
  fix lib
  have "in64 5" "in64 0" by (simp_all add: in64_def)
  then show "numericBinary lib ''*'' (CInt 5) (CInt 0) = Inl (Panic ''integer divide by zero'')"
    using integer_arithmetic [of 5 0 lib] by simp
qed

end
