(* ===== verification/Query_Functions.thy ===== *)
theory Query_Functions
  imports Query_Arith
begin

text \<open>
  The functions of \<open>internal/engine/eval.go\<close> on evaluated arguments: properties and labels of values, conversions,
  text, lists, ranges and numbers.  A length becomes an \<open>int64\<close>.  A node or relationship has a property map,
  which may be empty.
\<close>

definition int64_length :: "'a list \<Rightarrow> cvalue" where
  "int64_length xs = CInt (i64 (int (length xs)))"

definition lookup_or_null :: "string \<Rightarrow> (string \<times> cvalue) list \<Rightarrow> cvalue" where
  "lookup_or_null key m = (case map_of m key of Some v \<Rightarrow> v | None \<Rightarrow> CNull)"

section \<open>Properties\<close>

definition dateProperty :: "Date \<Rightarrow> string \<Rightarrow> cvalue option" where
  "dateProperty d key =
     (if key = ''year'' then Some (CInt (Year d))
      else if key = ''quarter'' then Some (CInt (Quarter d))
      else if key = ''month'' then Some (CInt (Month d))
      else if key = ''week'' then Some (CInt (Week d))
      else if key = ''weekYear'' then Some (CInt (WeekYear d))
      else if key = ''day'' then Some (CInt (Day d))
      else if key = ''ordinalDay'' then Some (CInt (OrdinalDay d))
      else if key = ''weekDay'' then Some (CInt (WeekDay d))
      else if key = ''dayOfQuarter'' then Some (CInt (DayOfQuarter d))
      else None)"

definition localTimeProperty :: "LocalTime \<Rightarrow> string \<Rightarrow> cvalue option" where
  "localTimeProperty t key =
     (if key = ''hour'' then Some (CInt (Hour t))
      else if key = ''minute'' then Some (CInt (Minute t))
      else if key = ''second'' then Some (CInt (Second t))
      else if key = ''millisecond'' then Some (CInt (Millisecond t))
      else if key = ''microsecond'' then Some (CInt (Microsecond t))
      else if key = ''nanosecond'' then Some (CInt (Nanosecond t))
      else None)"

definition offsetProperty :: "int \<Rightarrow> string \<Rightarrow> cvalue option" where
  "offsetProperty offsetSeconds key =
     (if key = ''timezone'' \<or> key = ''offset'' then Some (CString (FormatOffset offsetSeconds))
      else if key = ''offsetMinutes'' then Some (CInt (offsetSeconds sdiv 60))
      else if key = ''offsetSeconds'' then Some (CInt offsetSeconds)
      else None)"

definition durationProperty :: "Duration \<Rightarrow> string \<Rightarrow> cvalue option" where
  "durationProperty d key =
     (if key = ''seconds'' then Some (CInt (dur_seconds d))
      else if key = ''millisecondsOfSecond'' then Some (CInt (dur_nanoseconds d sdiv 1000000))
      else if key = ''microsecondsOfSecond'' then Some (CInt (dur_nanoseconds d sdiv 1000))
      else if key = ''nanosecondsOfSecond'' then Some (CInt (dur_nanoseconds d))
      else case DurationComponent d key of Inl _ \<Rightarrow> None | Inr n \<Rightarrow> Some (CInt n))"

text \<open>\<open>if result := f(value, key); result != nil { return result }\<close>\<close>

definition orNext :: "'a option \<Rightarrow> 'a option \<Rightarrow> 'a option" where
  "orNext a b = (case a of Some v \<Rightarrow> Some v | None \<Rightarrow> b)"

definition dateTimeProperty :: "DateTime \<Rightarrow> string \<Rightarrow> cvalue option" where
  "dateTimeProperty d key =
     (case offsetProperty (zone_offset (dt_zone d)) key of
        Some result \<Rightarrow> Some (if key = ''timezone'' then CString (ZoneString (dt_zone d)) else result)
      | None \<Rightarrow>
          if key = ''epochSeconds'' then Some (CInt (dt_epochSecond d))
          else if key = ''epochMillis'' then (case EpochMillis d of Inl _ \<Rightarrow> None | Inr n \<Rightarrow> Some (CInt n))
          else orNext (dateProperty (ldt_date (DateTimeLocal d)) key) (localTimeProperty (ldt_time (DateTimeLocal d)) key))"

definition nullable :: "cvalue option \<Rightarrow> cvalue" where
  "nullable r = (case r of Some v \<Rightarrow> v | None \<Rightarrow> CNull)"

definition property :: "cvalue \<Rightarrow> string \<Rightarrow> cvalue" where
  "property v key =
     (case v of
        CDate d \<Rightarrow> nullable (dateProperty d key)
      | CLocalTime t \<Rightarrow> nullable (localTimeProperty t key)
      | CTime t \<Rightarrow> nullable (orNext (offsetProperty (time_offset t) key) (localTimeProperty (time_local t) key))
      | CLocalDateTime d \<Rightarrow> nullable (orNext (dateProperty (ldt_date d) key) (localTimeProperty (ldt_time d) key))
      | CDateTime d \<Rightarrow> nullable (dateTimeProperty d key)
      | CDuration d \<Rightarrow> nullable (durationProperty d key)
      | CNode _ _ m body _ _ \<Rightarrow> if key = ''body'' then CString body else lookup_or_null key m
      | CEdge _ _ _ _ position m _ _ \<Rightarrow>
          if key = ''position'' then (case position of None \<Rightarrow> CNull | Some n \<Rightarrow> CInt n) else lookup_or_null key m
      | CMap m \<Rightarrow> lookup_or_null key m
      | _ \<Rightarrow> CNull)"

definition properties :: "cvalue \<Rightarrow> (string \<times> cvalue) list option" where
  "properties v =
     (case v of CNode _ _ m _ _ _ \<Rightarrow> Some m | CEdge _ _ _ _ _ m _ _ \<Rightarrow> Some m | CMap m \<Rightarrow> Some m | _ \<Rightarrow> None)"

definition isPropertyContainer :: "cvalue \<Rightarrow> bool" where
  "isPropertyContainer v \<longleftrightarrow>
     (case v of
        CNode _ _ _ _ _ _ \<Rightarrow> True | CEdge _ _ _ _ _ _ _ _ \<Rightarrow> True | CDate _ \<Rightarrow> True | CLocalTime _ \<Rightarrow> True | CTime _ \<Rightarrow> True
      | CLocalDateTime _ \<Rightarrow> True | CDateTime _ \<Rightarrow> True | CDuration _ \<Rightarrow> True | _ \<Rightarrow> False)"

definition hasLabels :: "cvalue \<Rightarrow> string list \<Rightarrow> bool" where
  "hasLabels v labels \<longleftrightarrow>
     (case v of CNode _ actual _ _ _ _ \<Rightarrow> list_all (\<lambda>label. label \<in> set actual) labels | _ \<Rightarrow> False)"

section \<open>Text\<close>

text \<open>The bytes of each rune, as \<open>strings.Split\<close> with an empty separator cuts a text.\<close>

function explode_runes :: "string \<Rightarrow> string list" where
  "explode_runes s =
     (if s = [] then [] else case decode_rune s of (r, n) \<Rightarrow> take n s # explode_runes (drop n s))"
  by pat_completeness auto
termination
  by (relation "measure length") (auto dest: decode_rune_pos)

declare explode_runes.simps [simp del]

text \<open>\<open>[]rune(text)\<close> written back: a byte that is no rune becomes U+FFFD.\<close>

definition replacement :: string where
  "replacement = [char_of (239 :: nat), char_of (191 :: nat), char_of (189 :: nat)]"

definition runes :: "string \<Rightarrow> string list" where
  "runes s = map (\<lambda>t. if fst (decode_rune t) = rune_error \<and> length t = 1 then replacement else t) (explode_runes s)"

definition reverseString :: "string \<Rightarrow> string" where
  "reverseString s = concat (rev (runes s))"

fun find_sub :: "string \<Rightarrow> string \<Rightarrow> nat option" where
  "find_sub pattern [] = (if pattern = [] then Some 0 else None)"
| "find_sub pattern (c # s) =
     (if take (length pattern) (c # s) = pattern then Some 0 else map_option Suc (find_sub pattern s))"

text \<open>\<open>strings.Split\<close> at a separator that is not empty.\<close>

function split_at_text :: "string \<Rightarrow> string \<Rightarrow> string list" where
  "split_at_text separator s =
     (case find_sub separator s of
        None \<Rightarrow> [s]
      | Some k \<Rightarrow>
          if separator = [] \<or> s = [] then [s]
          else take k s # split_at_text separator (drop (k + length separator) s))"
  by pat_completeness auto
termination
  by (relation "measure (\<lambda>(_, s). length s)") auto

declare split_at_text.simps [simp del]

definition strings_Split :: "string \<Rightarrow> string \<Rightarrow> string list" where
  "strings_Split s separator = (if separator = [] then explode_runes s else split_at_text separator s)"

fun join_with :: "string \<Rightarrow> string list \<Rightarrow> string" where
  "join_with separator [] = []"
| "join_with separator [s] = s"
| "join_with separator (s # t # ts) = s @ separator @ join_with separator (t # ts)"

text \<open>\<open>strings.ReplaceAll\<close>: an empty pattern matches before every rune and at the end.\<close>

definition strings_ReplaceAll :: "string \<Rightarrow> string \<Rightarrow> string \<Rightarrow> string" where
  "strings_ReplaceAll s pattern new =
     (if pattern = [] then new @ concat (map (\<lambda>t. t @ new) (explode_runes s))
      else join_with new (split_at_text pattern s))"

definition trim_space :: "char \<Rightarrow> bool" where
  "trim_space c \<longleftrightarrow> byte_of c \<in> {32, 9, 13, 10}"

definition substring :: "cvalue list \<Rightarrow> qresult" where
  "substring arguments =
     (if length arguments \<noteq> 2 \<and> length arguments \<noteq> 3 then Inl (EvalError ''substring expects 2 or 3 arguments'')
      else case arguments ! 0 of
             CNull \<Rightarrow> Inr CNull
           | CString s \<Rightarrow>
               (case integer (arguments ! 1) of
                  None \<Rightarrow> Inl (EvalError ''substring offset must be a non-negative integer'')
                | Some offset \<Rightarrow>
                    if offset < 0 then Inl (EvalError ''substring offset must be a non-negative integer'')
                    else let rs = runes s; start = min offset (int (length rs)); remaining = int (length rs) - start
                         in if length arguments = 2 then Inr (CString (concat (drop (nat start) rs)))
                            else case integer (arguments ! 2) of
                                   None \<Rightarrow> Inl (EvalError ''substring length must be a non-negative integer'')
                                 | Some n \<Rightarrow>
                                     if n < 0 then Inl (EvalError ''substring length must be a non-negative integer'')
                                     else Inr (CString (concat (take (nat (if n < remaining then n else remaining)) (drop (nat start) rs)))))
           | _ \<Rightarrow> Inl (EvalError ''substring expects a string first argument''))"

section \<open>Ranges\<close>

text \<open>The loop adds the step only where another item follows; \<open>current += step\<close> wraps around.\<close>

fun rangeLoop :: "nat \<Rightarrow> int \<Rightarrow> int \<Rightarrow> int list" where
  "rangeLoop 0 current step = []"
| "rangeLoop (Suc 0) current step = [current]"
| "rangeLoop (Suc (Suc n)) current step = current # rangeLoop (Suc n) (i64 (current + step)) step"

definition integerRange :: "cvalue list \<Rightarrow> qresult" where
  "integerRange arguments =
     (if length arguments \<noteq> 2 \<and> length arguments \<noteq> 3 then Inl (EvalError ''range expects 2 or 3 arguments'')
      else case (integer (arguments ! 0), integer (arguments ! 1)) of
             (None, _) \<Rightarrow> Inl (EvalError ''range start expects an integer, got %T'')
           | (_, None) \<Rightarrow> Inl (EvalError ''range end expects an integer, got %T'')
           | (Some start, Some stop) \<Rightarrow>
               (case (if length arguments = 3 then integer (arguments ! 2) else Some 1) of
                  None \<Rightarrow> Inl (EvalError ''range step expects an integer, got %T'')
                | Some step \<Rightarrow>
                    if step = 0 then Inl (EvalError ''range step must be non-zero'')
                    else if step > 0 \<and> start > stop \<or> step < 0 \<and> start < stop then Inr (CList [])
                    else let items = \<bar>stop - start\<bar> div \<bar>step\<bar> + 1
                         in if items > 1048576 then Inl (EvalError ''range result is too large'')
                            else Inr (CList (map CInt (rangeLoop (nat items) start step)))))"

text \<open>A range holds \<open>start\<close>, \<open>start + step\<close> and so on, up to the last that does not pass the end, and never wraps.\<close>

lemma rangeLoop_exact:
  assumes "\<And>k. k < n \<Longrightarrow> in64 (start + int k * step)"
  shows "rangeLoop n start step = map (\<lambda>k. start + int k * step) [0 ..< n]"
  using assms
proof (induction n start step rule: rangeLoop.induct)
  case (3 n current step)
  have "in64 (current + step)" using "3.prems" [of 1] by simp
  moreover have "in64 (current + step + int k * step)" if "k < Suc n" for k
    using "3.prems" [of "Suc k"] that by (simp add: algebra_simps)
  ultimately have "rangeLoop (Suc n) (current + step) step = map (\<lambda>k. current + step + int k * step) [0 ..< Suc n]"
    using "3.IH" by simp
  also have "\<dots> = map (\<lambda>k. current + int k * step) [Suc 0 ..< Suc (Suc n)]"
    by (simp only: map_Suc_upt [symmetric] map_map) (simp add: algebra_simps)
  finally show ?case using \<open>in64 (current + step)\<close> by (simp add: upt_conv_Cons)
qed simp_all

section \<open>Numbers and conversions\<close>

definition numericFunction :: "library \<Rightarrow> string \<Rightarrow> cvalue list \<Rightarrow> qresult" where
  "numericFunction lib name arguments =
     (if length arguments \<noteq> 1 then Inl (EvalError ''%s expects 1 argument'')
      else if arguments ! 0 = CNull then Inr CNull
      else case number (arguments ! 0) of
             None \<Rightarrow> Inl (EvalError ''%s expects a number'')
           | Some (value, isInteger) \<Rightarrow>
               if name = ''abs'' then
                 (if isInteger then
                    (case the (integer (arguments ! 0)) of exact \<Rightarrow>
                       if exact = - 9223372036854775808 then Inl (EvalError ''abs result is out of integer range'')
                       else Inr (CInt \<bar>exact\<bar>))
                  else Inr (CFloat (float_abs value)))
               else if name = ''ceil'' then Inr (CFloat (float_ceil value))
               else if name = ''sqrt'' then Inr (CFloat (lib_sqrt lib value))
               else if name = ''sign'' then
                 Inr (CInt (if value = NaN then 0 else if float_less value (Finite False 0) then -1
                            else if float_less (Finite False 0) value then 1 else 0))
               else Inl (EvalError ''unknown numeric function %s''))"

definition truncatedInteger :: "float64 \<Rightarrow> cvalue" where
  "truncatedInteger x =
     (case x of
        Finite s q \<Rightarrow>
          let v = signed s q
          in if v \<ge> 9223372036854775808 \<or> v < - 9223372036854775808 then CNull
             else CInt (if v < 0 then - rat_floor (- v) else rat_floor v)
      | _ \<Rightarrow> CNull)"

text \<open>\<open>strconv.ParseInt(text, 10, 64)\<close> and \<open>strconv.ParseBool\<close>.\<close>

definition parseInt10 :: "string \<Rightarrow> int option" where
  "parseInt10 t =
     (let negative = (t \<noteq> [] \<and> hd t = CHR ''-'');
          digits = (if t \<noteq> [] \<and> (hd t = CHR ''-'' \<or> hd t = CHR ''+'') then tl t else t);
          n = int (digits_val 0 digits); m = (if negative then - n else n)
      in if digits \<noteq> [] \<and> list_all is_digit digits \<and> in64 m then Some m else None)"

definition parseBool :: "string \<Rightarrow> bool option" where
  "parseBool t =
     (if t \<in> {''1'', ''t'', ''T'', ''TRUE'', ''true'', ''True''} then Some True
      else if t \<in> {''0'', ''f'', ''F'', ''FALSE'', ''false'', ''False''} then Some False
      else None)"

definition convertValue :: "library \<Rightarrow> string \<Rightarrow> cvalue \<Rightarrow> qresult" where
  "convertValue lib name v =
     (if v = CNull then Inr CNull
      else if name = ''tostring'' then
        (case v of
           CString s \<Rightarrow> Inr (CString s)
         | CBool b \<Rightarrow> Inr (CString (if b then ''true'' else ''false''))
         | CInt n \<Rightarrow> Inr (CString (format_int 0 n))
         | CFloat x \<Rightarrow> Inr (CString (lib_float_text lib x))
         | CDate d \<Rightarrow> Inr (CString (DateString d))
         | CLocalTime d \<Rightarrow> Inr (CString (formatLocalTime d))
         | CTime d \<Rightarrow> Inr (CString (TimeString d))
         | CLocalDateTime d \<Rightarrow> Inr (CString (LocalDateTimeString d))
         | CDateTime d \<Rightarrow> Inr (CString (DateTimeString d))
         | CDuration d \<Rightarrow> Inr (CString (DurationString d))
         | _ \<Rightarrow> Inl (EvalError ''invalid value type %T for toString''))
      else if name = ''tointeger'' then
        (case v of
           CString s \<Rightarrow>
             (case parseInt10 s of
                Some n \<Rightarrow> Inr (CInt n)
              | None \<Rightarrow> (case lib_parse_float lib s of None \<Rightarrow> Inr CNull | Some x \<Rightarrow> Inr (truncatedInteger x)))
         | CBool b \<Rightarrow> Inr (CInt (if b then 1 else 0))
         | CInt n \<Rightarrow> Inr (CInt n)
         | CFloat x \<Rightarrow> Inr (truncatedInteger x)
         | _ \<Rightarrow> Inl (EvalError ''invalid value type %T for toInteger''))
      else if name = ''tofloat'' then
        (case v of
           CInt n \<Rightarrow> Inr (CFloat (float_of_int n))
         | CFloat x \<Rightarrow> Inr (CFloat x)
         | CString s \<Rightarrow> (case lib_parse_float lib s of None \<Rightarrow> Inr CNull | Some x \<Rightarrow> Inr (CFloat x))
         | _ \<Rightarrow> Inl (EvalError ''invalid value type %T for toFloat''))
      else if name = ''toboolean'' then
        (case v of
           CBool b \<Rightarrow> Inr (CBool b)
         | CString s \<Rightarrow> (case parseBool (lib_lower lib s) of None \<Rightarrow> Inr CNull | Some b \<Rightarrow> Inr (CBool b))
         | _ \<Rightarrow> Inl (EvalError ''invalid value type %T for toBoolean''))
      else Inl (EvalError ''unknown conversion %s''))"

end
