(* ===== verification/Query_Order.thy ===== *)
theory Query_Order
  imports Query_Value Date_Time_Text
begin

text \<open>
  \<open>compareOrderValues\<close> orders all values totally.  The interface \<open>ordering\<close> states the laws of a three-way
  comparison, from which sorting by several keys, minima and maxima are shown to be right; it is interpreted on
  the comparison of the engine.
\<close>

section \<open>Coherent comparisons\<close>

text \<open>Three comparisons, of the first value with the second, the second with the third and the first with the
  third, that some total preorder could have produced.\<close>

definition three_way :: "int \<Rightarrow> bool" where
  "three_way c \<longleftrightarrow> c = -1 \<or> c = 0 \<or> c = 1"

definition coherent :: "int \<Rightarrow> int \<Rightarrow> int \<Rightarrow> bool" where
  "coherent p q r \<longleftrightarrow> three_way p \<and> three_way q \<and> three_way r \<and> (p = 0 \<longrightarrow> r = q) \<and> (q = 0 \<longrightarrow> r = p) \<and> (p = q \<longrightarrow> r = p)"

definition or_else :: "int \<Rightarrow> int \<Rightarrow> int" where
  "or_else c d = (if c \<noteq> 0 then c else d)"

lemma coherent_three_way: "coherent p q r \<Longrightarrow> three_way p \<and> three_way q \<and> three_way r"
  by (simp add: coherent_def)

lemma coherent_lex:
  assumes "coherent p q r" "p = 0 \<Longrightarrow> three_way p'" "q = 0 \<Longrightarrow> three_way q'" "r = 0 \<Longrightarrow> three_way r'"
    "p = 0 \<Longrightarrow> q = 0 \<Longrightarrow> coherent p' q' r'"
  shows "coherent (or_else p p') (or_else q q') (or_else r r')"
proof -
  have three: "three_way p" "three_way q" "three_way r"
    and rules: "p = 0 \<Longrightarrow> r = q" "q = 0 \<Longrightarrow> r = p" "p = q \<Longrightarrow> r = p"
    using assms(1) by (simp_all add: coherent_def)
  consider "p = 0" "q = 0" | "p = 0" "q \<noteq> 0" | "p \<noteq> 0" "q = 0" | "p \<noteq> 0" "q \<noteq> 0" by blast
  then show ?thesis
  proof cases
    case 1
    then show ?thesis using rules(1) assms(5) by (simp add: or_else_def)
  next
    case 2
    then show ?thesis using rules(1) assms(2) three by (simp add: or_else_def coherent_def)
  next
    case 3
    then show ?thesis using rules(2) assms(3) three by (simp add: or_else_def coherent_def)
  next
    case 4
    then show ?thesis using rules(3) assms(4) three by (simp add: or_else_def coherent_def)
  qed
qed

lemma coherent_linear:
  fixes a b c :: "'a :: linorder"
  shows "coherent (if a < b then -1 else if a > b then 1 else 0) (if b < c then -1 else if b > c then 1 else 0)
    (if a < c then -1 else if a > c then 1 else 0)"
  by (auto simp: coherent_def three_way_def)

lemma coherent_zero: "coherent 0 0 0"
  by (simp add: coherent_def three_way_def)

lemma coherent_compareInt64: "coherent (compareInt64 a b) (compareInt64 b c) (compareInt64 a c)"
  unfolding compareInt64_def by (rule coherent_linear)

lemma first_difference_append: "first_difference (xs @ ys) = or_else (first_difference xs) (first_difference ys)"
  by (induction xs) (auto simp: or_else_def)

lemma coherent_differences:
  assumes "\<And>k. k \<in> set ks \<Longrightarrow> coherent (p k) (q k) (r k)"
  shows "coherent (first_difference (map p ks)) (first_difference (map q ks)) (first_difference (map r ks))"
  using assms
proof (induction ks)
  case (Cons k ks)
  have "first_difference (map f (k # ks)) = or_else (f k) (first_difference (map f ks))" for f by (simp add: or_else_def)
  moreover have "coherent (or_else (p k) (first_difference (map p ks))) (or_else (q k) (first_difference (map q ks)))
      (or_else (r k) (first_difference (map r ks)))"
    using Cons coherent_three_way by (intro coherent_lex) auto
  ultimately show ?case by simp
qed (simp add: coherent_zero)

section \<open>Lists\<close>

definition compare_lists :: "('a \<Rightarrow> 'b \<Rightarrow> int) \<Rightarrow> 'a list \<Rightarrow> 'b list \<Rightarrow> int" where
  "compare_lists c xs ys = first_difference (map2 c xs ys @ [compareInt64 (int (length xs)) (int (length ys))])"

lemma compare_lists_simps [simp]:
  "compare_lists c [] [] = 0" "compare_lists c [] (y # ys) = -1" "compare_lists c (x # xs) [] = 1"
  "compare_lists c (x # xs) (y # ys) = or_else (c x y) (compare_lists c xs ys)"
  by (simp_all add: compare_lists_def compareInt64_def or_else_def)

lemma three_way_or_else: "three_way c \<Longrightarrow> three_way d \<Longrightarrow> three_way (or_else c d)"
  by (simp add: or_else_def)

lemma three_way_lists:
  assumes "\<And>x y. x \<in> set xs \<Longrightarrow> three_way (c x y)"
  shows "three_way (compare_lists c xs ys)"
  using assms
proof (induction xs arbitrary: ys)
  case Nil
  then show ?case by (cases ys) (simp_all add: three_way_def)
next
  case (Cons x xs)
  then show ?case by (cases ys) (simp_all add: three_way_or_else, simp add: three_way_def)
qed

lemma coherent_lists:
  assumes "\<And>x y z. x \<in> set xs \<Longrightarrow> y \<in> set ys \<Longrightarrow> z \<in> set zs \<Longrightarrow> coherent (c x y) (c y z) (c x z)"
    and "\<And>x y. three_way (c x y)"
  shows "coherent (compare_lists c xs ys) (compare_lists c ys zs) (compare_lists c xs zs)"
  using assms(1)
proof (induction xs arbitrary: ys zs)
  case Nil
  have "three_way (compare_lists c ys zs)" by (rule three_way_lists) (rule assms(2))
  then show ?case by (cases ys; cases zs) (auto simp: coherent_def three_way_def)
next
  case (Cons x xs)
  have three: "three_way (compare_lists c us vs)" for us vs by (rule three_way_lists) (rule assms(2))
  show ?case
  proof (cases ys)
    case Nil
    then show ?thesis using three[of "x # xs" zs] by (cases zs) (auto simp: coherent_def three_way_def)
  next
    case (Cons y ys')
    show ?thesis
    proof (cases zs)
      case Nil
      then show ?thesis using \<open>ys = y # ys'\<close> three[of "x # xs" ys] by (auto simp: coherent_def three_way_def)
    next
      case (Cons z zs')
      have "coherent (compare_lists c xs ys') (compare_lists c ys' zs') (compare_lists c xs zs')"
        using Cons.prems \<open>ys = y # ys'\<close> \<open>zs = z # zs'\<close> by (intro Cons.IH) simp
      then have "coherent (or_else (c x y) (compare_lists c xs ys')) (or_else (c y z) (compare_lists c ys' zs'))
          (or_else (c x z) (compare_lists c xs zs'))"
        using Cons.prems \<open>ys = y # ys'\<close> \<open>zs = z # zs'\<close> three assms(2) by (intro coherent_lex) auto
      then show ?thesis using \<open>ys = y # ys'\<close> \<open>zs = z # zs'\<close> by simp
    qed
  qed
qed

lemma strings_Compare_lists:
  "strings_Compare s t = compare_lists (\<lambda>a b. compareInt64 (int (byte_of a)) (int (byte_of b))) s t"
  by (induction s t rule: strings_Compare.induct) (auto simp: or_else_def compareInt64_def)

lemma three_way_compareInt64 [simp]: "three_way (compareInt64 a b)"
  by (simp add: compareInt64_def three_way_def)

lemma three_way_strings [simp]: "three_way (strings_Compare s t)"
  unfolding strings_Compare_lists by (rule three_way_lists) simp

lemma coherent_strings: "coherent (strings_Compare s t) (strings_Compare t u) (strings_Compare s u)"
  unfolding strings_Compare_lists by (rule coherent_lists) (simp_all add: coherent_compareInt64)

lemma strings_Compare_same [simp]: "strings_Compare s s = 0"
  by (induction s) simp_all

lemma strings_Compare_equal: "strings_Compare s t = 0 \<Longrightarrow> s = t"
  by (induction s t rule: strings_Compare.induct) (auto split: if_splits simp: byte_of_def)

section \<open>Numbers\<close>

lemma half_even_le: "half_even q \<le> rat_floor q + 1"
  by (simp add: half_even_def Let_def)

lemma half_even_rat_le: "of_int (half_even q) \<le> (of_int (rat_floor q) + 1 :: rat)"
  using half_even_le [of q] by (metis of_int_1 of_int_add of_int_le_iff)

lemma rat_floor_le: "of_int (rat_floor q) \<le> q"
proof -
  obtain n d where q: "quotient_of q = (n, d)" by (cases "quotient_of q")
  have d: "0 < d" using quotient_of_denom_pos [OF q] .
  have div: "q = of_int n / of_int d" using quotient_of_div [OF q] .
  have "n div d * d \<le> n" using d by (metis add.commute le_add_same_cancel1 div_mult_mod_eq pos_mod_sign mult.commute)
  then have mul: "of_int (n div d) * of_int d \<le> (of_int n :: rat)" by (metis of_int_le_iff of_int_mult)
  have "of_int (n div d) \<le> of_int n / (of_int d :: rat)" using mul d by (simp add: pos_le_divide_eq)
  then have "of_int (n div d) \<le> q" by (simp only: div)
  moreover have "rat_floor q = n div d" by (simp add: rat_floor_def q)
  ultimately show ?thesis by simp
qed

lemma ilog2_le:
  assumes "0 < n" "n < 2 ^ k"
  shows "ilog2 (of_int n) \<le> int k"
proof -
  have "bitlen n \<le> int k" using assms by (simp add: bitlen_le_iff_power)
  moreover have "bitlen 1 = 1" using bitlen_twopow_add_eq [of 0 0] by simp
  ultimately show ?thesis by (simp add: ilog2_def Let_def)
qed

lemma float_of_int_finite:
  assumes "in64 n"
  obtains s q where "float_of_int n = Finite s q"
proof (cases "n = 0")
  case False
  define q :: rat where "q = of_int \<bar>n\<bar>"
  define e where "e = max (ilog2 q - 52) (-1074)"
  have n: "0 < \<bar>n\<bar>" "\<bar>n\<bar> < 2 ^ 64" using False assms by (auto simp: in64_def)
  have "ilog2 q \<le> 64" using ilog2_le [OF n] by (simp add: q_def)
  then have e: "e \<le> 64" by (simp add: e_def)
  have "pow2 e \<le> 2 ^ 64"
  proof (cases "0 \<le> e")
    case True
    have "(2::rat) ^ nat e \<le> 2 ^ 64" using e by (intro power_increasing) simp_all
    then show ?thesis using True by (simp only: pow2_def if_True)
  next
    case False
    have "1 / 2 ^ nat (- e) \<le> (1::rat)" by simp
    also have "\<dots> \<le> 2 ^ 64" by simp
    finally show ?thesis using False by (simp only: pow2_def if_False)
  qed
  moreover have pos: "0 < pow2 e" by (simp add: pow2_def)
  have "of_int (half_even (q / pow2 e)) \<le> q / pow2 e + 1"
    using half_even_rat_le [of "q / pow2 e"] rat_floor_le [of "q / pow2 e"] by linarith
  then have "of_int (half_even (q / pow2 e)) * pow2 e \<le> q + pow2 e"
    using pos by (simp add: pos_le_divide_eq [symmetric] add_divide_distrib)
  moreover have "q < 2 ^ 64" using n(2) by (simp add: q_def del: of_int_abs)
  ultimately have "of_int (half_even (q / pow2 e)) * pow2 e < (2::rat) ^ 64 + 2 ^ 64" by linarith
  also have "\<dots> = 2 ^ 65" by simp
  also have "\<dots> \<le> 2 ^ 1024" by (rule power_increasing) simp_all
  also have "\<dots> = pow2 1024" by (simp add: pow2_def)
  finally have "\<not> pow2 1024 \<le> of_int (half_even (q / pow2 e)) * pow2 e" by (simp only: not_le)
  moreover have "q \<noteq> 0" using n(1) by (simp add: q_def)
  ultimately have "float_of_int n = Finite (n < 0) (of_int (half_even (q / pow2 e)) * pow2 e)"
    unfolding float_of_int_def q_def [symmetric] unfolding round64_def Let_def e_def [symmetric] by simp
  then show ?thesis using that by blast
next
  case True
  then have "float_of_int n = Finite False 0" by (simp add: float_of_int_def round64_def)
  then show ?thesis using that by blast
qed

text \<open>Where a number stands: below all numbers, at its exact value, above all numbers, or not a number.\<close>

definition numeric_level :: "cvalue \<Rightarrow> int \<times> rat" where
  "numeric_level v = (case v of CInt n \<Rightarrow> (0, of_int n) | CFloat x \<Rightarrow> float_level x | _ \<Rightarrow> (0, 0))"

definition compare_levels :: "int \<times> rat \<Rightarrow> int \<times> rat \<Rightarrow> int" where
  "compare_levels a b = or_else (compareInt64 (fst a) (fst b)) (compareRat (snd a) (snd b))"

lemma coherent_levels: "coherent (compare_levels a b) (compare_levels b c) (compare_levels a c)"
  unfolding compare_levels_def compareRat_def
  by (intro coherent_lex coherent_compareInt64 coherent_linear) (simp_all add: three_way_def)

lemma three_way_levels [simp]: "three_way (compare_levels a b)"
  using coherent_three_way [OF coherent_levels] by blast

lemma compareFloat_levels:
  "x \<noteq> NaN \<Longrightarrow> y \<noteq> NaN \<Longrightarrow> compareFloat x y = compare_levels (float_level x) (float_level y)"
  by (auto simp: compareFloat_def float_less_def compare_levels_def compareInt64_def compareRat_def or_else_def)

fun number_ok :: "cvalue \<Rightarrow> bool" where
  "number_ok (CInt n) = in64 n"
| "number_ok (CFloat x) = True"
| "number_ok _ = False"

lemma compareOrderNumbers_levels:
  assumes "number_ok x" "number_ok y"
  shows "compareOrderNumbers x y = compare_levels (numeric_level x) (numeric_level y)"
proof -
  consider m n where "x = CInt m" "y = CInt n" | m b where "x = CInt m" "y = CFloat b"
    | a n where "x = CFloat a" "y = CInt n" | a b where "x = CFloat a" "y = CFloat b"
    using assms by (cases x; cases y) auto
  then show ?thesis
  proof cases
    case 1
    then obtain s q s' q' where "float_of_int m = Finite s q" "float_of_int n = Finite s' q'"
      using assms float_of_int_finite by (metis number_ok.simps(1))
    then show ?thesis using 1
      by (simp add: compareOrderNumbers_def compareNumbers_def number_def integer_def numeric_level_def
          compare_levels_def or_else_def compareInt64_def compareRat_def)
  next
    case 2
    then obtain s q where "float_of_int m = Finite s q" using assms float_of_int_finite by (metis number_ok.simps(1))
    then show ?thesis using 2
      by (cases b) (simp_all add: compareOrderNumbers_def compareNumbers_def number_def integer_def numeric_level_def isNaN_def
          compare_levels_def or_else_def compareInt64_def compareRat_def is_infinite_def float_level_def compareFloat_def
          float_less_def signed_value_def)
  next
    case 3
    then obtain s q where "float_of_int n = Finite s q" using assms float_of_int_finite by (metis number_ok.simps(1))
    then show ?thesis using 3
      by (cases a) (simp_all add: compareOrderNumbers_def compareNumbers_def number_def integer_def numeric_level_def isNaN_def
          compare_levels_def or_else_def compareInt64_def compareRat_def is_infinite_def float_level_def compareFloat_def
          float_less_def signed_value_def)
  next
    case 4
    then show ?thesis
      by (cases "a = NaN"; cases "b = NaN")
        (auto simp: compareOrderNumbers_def compareNumbers_def number_def integer_def numeric_level_def isNaN_def
          compareFloat_levels compare_levels_def compareInt64_def or_else_def compareRat_def float_level_def split: float64.splits)
  qed
qed

lemma three_way_numbers [simp]: "three_way (compareOrderNumbers x y)"
  by (simp add: compareOrderNumbers_def compareNumbers_def three_way_def compareInt64_def compareFloat_def compareRat_def
      split: option.splits prod.splits)

section \<open>Temporal values\<close>

lemma compareInt64_same [simp]: "compareInt64 a a = 0"
  by (simp add: compareInt64_def)

lemma DateCompare_coherent: "coherent (DateCompare a b) (DateCompare b c) (DateCompare a c)"
  unfolding DateCompare_def by (rule coherent_compareInt64)

lemma LocalTimeCompare_coherent: "coherent (LocalTimeCompare a b) (LocalTimeCompare b c) (LocalTimeCompare a c)"
  unfolding LocalTimeCompare_def by (rule coherent_compareInt64)

lemma TimeCompare_coherent: "coherent (TimeCompare a b) (TimeCompare b c) (TimeCompare a c)"
  unfolding TimeCompare_def Let_def or_else_def [symmetric]
  by (intro coherent_lex coherent_compareInt64) simp_all

lemma LocalDateTimeCompare_coherent:
  "coherent (LocalDateTimeCompare a b) (LocalDateTimeCompare b c) (LocalDateTimeCompare a c)"
  unfolding LocalDateTimeCompare_def Let_def or_else_def [symmetric]
  by (intro coherent_lex DateCompare_coherent LocalTimeCompare_coherent) (simp_all add: LocalTimeCompare_def)

lemma DateTimeCompare_or_else:
  "DateTimeCompare a b =
     or_else (compareInt64 (dt_epochSecond a) (dt_epochSecond b))
       (or_else (compareInt64 (dt_nanosecond a) (dt_nanosecond b))
         (or_else (compareInt64 (zone_offset (dt_zone a)) (zone_offset (dt_zone b)))
           (or_else (compareInt64 (zone_kind (dt_zone a)) (zone_kind (dt_zone b)))
             (strings_Compare (zone_name (dt_zone a)) (zone_name (dt_zone b))))))"
  by (simp add: DateTimeCompare_def Let_def or_else_def compareInt64_def)

lemma DateTimeCompare_coherent: "coherent (DateTimeCompare a b) (DateTimeCompare b c) (DateTimeCompare a c)"
  unfolding DateTimeCompare_or_else
  by (intro coherent_lex coherent_compareInt64 coherent_strings three_way_or_else three_way_strings three_way_compareInt64)

lemma CompareForOrder_coherent: "coherent (CompareForOrder a b) (CompareForOrder b c) (CompareForOrder a c)"
  unfolding CompareForOrder_def by (rule coherent_linear)

lemma compareBool_coherent: "coherent (compareBool a b) (compareBool b c) (compareBool a c)"
  by (auto simp: compareBool_def coherent_def three_way_def)

section \<open>The order of ORDER BY is total\<close>

text \<open>The comparison of two values of the same rank.\<close>

definition compare_maps :: "(cvalue \<Rightarrow> cvalue \<Rightarrow> int) \<Rightarrow> (string \<times> cvalue) list \<Rightarrow> (string \<times> cvalue) list \<Rightarrow> int" where
  "compare_maps c l r =
     or_else (compareInt64 (int (length l)) (int (length r)))
       (or_else (compare_lists strings_Compare (sortedMapKeys l) (sortedMapKeys r))
         (first_difference (map (\<lambda>key. c (the (map_of l key)) (the (map_of r key))) (sortedMapKeys l))))"

definition same_rank :: "library \<Rightarrow> cvalue \<Rightarrow> cvalue \<Rightarrow> int" where
  "same_rank lib x y =
     (case (x, y) of
        (CMap l, CMap r) \<Rightarrow> compare_maps (compareOrderValues lib) l r
      | (CNode _ _ _ _ _ _, CNode _ _ _ _ _ _) \<Rightarrow> strings_Compare (node_key x) (node_key y)
      | (CEdge _ _ _ _ _ _ _ _, CEdge _ _ _ _ _ _ _ _) \<Rightarrow> strings_Compare (edge_key x) (edge_key y)
      | (CList l, CList r) \<Rightarrow> compare_lists (compareOrderValues lib) l r
      | (CPath _ _, CPath _ _) \<Rightarrow> strings_Compare (valueKey lib x) (valueKey lib y)
      | (CDuration l, CDuration r) \<Rightarrow> CompareForOrder l r
      | (CString l, CString r) \<Rightarrow> strings_Compare l r
      | (CBool l, CBool r) \<Rightarrow> compareBool l r
      | (CNull, CNull) \<Rightarrow> 0
      | _ \<Rightarrow> if orderRank x = 9 then compareOrderNumbers x y else compareTemporal lib x y)"

lemma map_of_map_values: "map_of (map (\<lambda>(key, l). (key, f l)) m) key = map_option f (map_of m key)"
  by (induction m) auto

lemma sortedMapKeys_set [simp]: "set (sortedMapKeys m) = fst ` set m"
  by (simp add: sortedMapKeys_def)

lemma length_sortedMapKeys [simp]: "length (sortedMapKeys m) = length m"
  by (simp add: sortedMapKeys_def)

lemma first_difference_zero [simp]: "first_difference [0] = 0"
  by simp

lemma compare_lists_same_length:
  "length xs = length ys \<Longrightarrow> compare_lists c xs ys = first_difference (map2 c xs ys)"
  by (simp add: compare_lists_def first_difference_append or_else_def)

lemma map2_apply: "map2 (\<lambda>c r. c r) (map f xs) ys = map2 f xs ys"
  by (simp add: zip_map1 case_prod_unfold comp_def)

lemma compareOrderValues_map:
  "compareOrderValues lib (CMap l) (CMap r) = compare_maps (compareOrderValues lib) l r"
proof -
  have same: "map (\<lambda>key. the (map_of (map (\<lambda>(key, l). (key, compareOrderValues lib l)) l) key) (the (map_of r key))) (sortedMapKeys l)
      = map (\<lambda>key. compareOrderValues lib (the (map_of l key)) (the (map_of r key))) (sortedMapKeys l)"
    by (rule map_cong [OF refl]) (auto simp: map_of_map_values dest!: weak_map_of_SomeI)
  show ?thesis
    by (simp add: compareOrderValues.simps [of lib "CMap l"] orderRank_def asMap_def compare_maps_def Let_def
        first_difference_append compare_lists_same_length same) (simp add: or_else_def compareInt64_def)
qed

lemma compareOrderValues_list:
  "compareOrderValues lib (CList l) (CList r) = compare_lists (compareOrderValues lib) l r"
  by (simp add: compareOrderValues.simps [of lib "CList l"] orderRank_def asList_def map2_apply compare_lists_def Let_def)

lemma compareOrderValues_rank:
  "compareOrderValues lib x y = or_else (compareInt64 (orderRank x) (orderRank y)) (same_rank lib x y)"
proof (cases "orderRank x = orderRank y")
  case False
  then show ?thesis
    by (subst compareOrderValues.simps) (auto simp: or_else_def compareInt64_def orderRank_def split: cvalue.splits)
next
  case True
  then show ?thesis
    by (cases x; cases y; simp add: orderRank_def compareOrderValues_map compareOrderValues_list same_rank_def)
      (simp_all add: compareOrderValues.simps orderRank_def or_else_def)
qed

lemma compare_lists_same: "(\<And>x. x \<in> set xs \<Longrightarrow> c x x = 0) \<Longrightarrow> compare_lists c xs xs = 0"
  by (induction xs) (simp_all add: or_else_def)

lemma first_difference_same: "(\<And>k. k \<in> set ks \<Longrightarrow> f k = 0) \<Longrightarrow> first_difference (map f ks) = 0"
  by (induction ks) simp_all

lemma key_value:
  assumes "k \<in> set (sortedMapKeys m)"
  obtains v where "map_of m k = Some v" "(k, v) \<in> set m"
  using assms unfolding sortedMapKeys_set by (metis map_of_SomeD map_of_eq_None_iff not_None_eq)

lemma three_way_differences: "(\<And>k. k \<in> set ks \<Longrightarrow> three_way (f k)) \<Longrightarrow> three_way (first_difference (map f ks))"
  by (induction ks) (simp_all add: three_way_def, metis)

lemma three_way_maps:
  assumes "\<And>k v w. (k, v) \<in> set l \<Longrightarrow> three_way (c v w)"
  shows "three_way (compare_maps c l r)"
  unfolding compare_maps_def
proof (intro three_way_or_else three_way_compareInt64 three_way_lists three_way_strings three_way_differences)
  fix k assume "k \<in> set (sortedMapKeys l)"
  then obtain v where "map_of l k = Some v" "(k, v) \<in> set l" by (rule key_value)
  then show "three_way (c (the (map_of l k)) (the (map_of r k)))" using assms by simp
qed

lemma three_way_temporal [simp]: "three_way (compareTemporal lib x y)"
  using coherent_three_way [OF DateCompare_coherent] coherent_three_way [OF LocalTimeCompare_coherent]
    coherent_three_way [OF TimeCompare_coherent] coherent_three_way [OF LocalDateTimeCompare_coherent]
    coherent_three_way [OF DateTimeCompare_coherent]
  by (auto simp: compareTemporal_def split: cvalue.splits)

lemma three_way_same_rank:
  assumes "\<And>l k v w. x = CMap l \<Longrightarrow> (k, v) \<in> set l \<Longrightarrow> three_way (compareOrderValues lib v w)"
    and "\<And>l v w. x = CList l \<Longrightarrow> v \<in> set l \<Longrightarrow> three_way (compareOrderValues lib v w)"
  shows "three_way (same_rank lib x y)"
proof -
  have zero: "three_way 0" by (simp add: three_way_def)
  have "three_way (CompareForOrder a b)" "three_way (compareBool c d)" for a b c d
    using coherent_three_way [OF CompareForOrder_coherent] coherent_three_way [OF compareBool_coherent] by auto
  then show ?thesis using assms zero
    by (auto simp: same_rank_def intro!: three_way_maps three_way_lists split: cvalue.splits)
qed

lemma three_way_order [simp]: "three_way (compareOrderValues lib x y)"
proof (induction x arbitrary: y)
  case (CList l)
  show ?case
    by (subst compareOrderValues_rank, intro three_way_or_else three_way_compareInt64 three_way_same_rank) (use CList.IH in auto)
next
  case (CMap l)
  show ?case
    by (subst compareOrderValues_rank, intro three_way_or_else three_way_compareInt64 three_way_same_rank) (use CMap.IH in auto)
qed (subst compareOrderValues_rank; intro three_way_or_else three_way_compareInt64 three_way_same_rank; simp; fail)+

lemma compareOrderNumbers_same: "compareOrderNumbers x x = 0"
  by (auto simp: compareOrderNumbers_def compareNumbers_def compareFloat_def float_less_def split: option.splits)

lemma compareTemporal_same: "compareTemporal lib x x = 0"
  by (simp add: compareTemporal_def DateCompare_def LocalTimeCompare_def TimeCompare_def LocalDateTimeCompare_def
      DateTimeCompare_or_else or_else_def split: cvalue.splits)

lemma compareOrderValues_same_rank: "compareOrderValues lib x x = same_rank lib x x"
  by (subst compareOrderValues_rank) (simp add: or_else_def)

lemma compareOrderValues_same: "compareOrderValues lib x x = 0"
proof (induction x)
  case (CList l)
  then show ?case unfolding compareOrderValues_same_rank [of lib "CList l"] by (simp add: same_rank_def compare_lists_same)
next
  case (CMap l)
  have "compareOrderValues lib (the (map_of l k)) (the (map_of l k)) = 0" if k: "k \<in> set (sortedMapKeys l)" for k
  proof -
    obtain v where "map_of l k = Some v" "(k, v) \<in> set l" using k by (rule key_value)
    then show ?thesis using CMap.IH by (metis option.sel snds.simps snd_conv)
  qed
  then have "first_difference (map (\<lambda>k. compareOrderValues lib (the (map_of l k)) (the (map_of l k))) (sortedMapKeys l)) = 0"
    by (rule first_difference_same)
  then have "compare_maps (compareOrderValues lib) l l = 0"
    unfolding compare_maps_def by (simp add: or_else_def compare_lists_same)
  then show ?case unfolding compareOrderValues_same_rank [of lib "CMap l"] by (simp add: same_rank_def)
qed (simp_all add: compareOrderValues_same_rank same_rank_def compareOrderNumbers_same compareTemporal_same
   CompareForOrder_def compareBool_def)

text \<open>The kinds of temporal values, in the order of their type names.\<close>

definition temporal_kind :: "cvalue \<Rightarrow> int" where
  "temporal_kind v = (case v of CDate _ \<Rightarrow> 0 | CDateTime _ \<Rightarrow> 1 | CLocalDateTime _ \<Rightarrow> 2 | CLocalTime _ \<Rightarrow> 3 | CTime _ \<Rightarrow> 4 | _ \<Rightarrow> 5)"

lemma temporal_cases:
  assumes "orderRank x = 5"
  obtains (1) a where "x = CDate a" | (2) a where "x = CDateTime a" | (3) a where "x = CLocalDateTime a"
    | (4) a where "x = CLocalTime a" | (5) a where "x = CTime a"
  using assms by (cases x) (simp_all add: orderRank_def)

lemma same_kind:
  assumes "orderRank y = 5"
  shows "temporal_kind y = 0 \<Longrightarrow> \<exists>b. y = CDate b" "temporal_kind y = 1 \<Longrightarrow> \<exists>b. y = CDateTime b"
    "temporal_kind y = 2 \<Longrightarrow> \<exists>b. y = CLocalDateTime b" "temporal_kind y = 3 \<Longrightarrow> \<exists>b. y = CLocalTime b"
    "temporal_kind y = 4 \<Longrightarrow> \<exists>b. y = CTime b"
  using assms by (auto elim: temporal_cases simp: temporal_kind_def)

lemma temporal_kind_simps [simp]:
  "temporal_kind (CDate a) = 0" "temporal_kind (CDateTime b) = 1" "temporal_kind (CLocalDateTime c) = 2"
  "temporal_kind (CLocalTime d) = 3" "temporal_kind (CTime e) = 4"
  by (simp_all add: temporal_kind_def)

lemma compareTemporal_kind:
  assumes "orderRank x = 5" "orderRank y = 5"
  shows "compareTemporal lib x y = or_else (compareInt64 (temporal_kind x) (temporal_kind y)) (compareTemporal lib x y)"
  by (rule temporal_cases [OF assms(1)]; rule temporal_cases [OF assms(2)]; simp add: or_else_def compareInt64_def)
    (simp_all add: compareTemporal_def valueKey_def typeName_def byte_of_def)

lemma compareTemporal_same_kind:
  assumes "orderRank x = 5" "orderRank y = 5" "orderRank z = 5"
    and "temporal_kind x = temporal_kind y" "temporal_kind y = temporal_kind z"
  shows "coherent (compareTemporal lib x y) (compareTemporal lib y z) (compareTemporal lib x z)"
  using assms(1)
proof (cases rule: temporal_cases)
  case (1 a)
  then obtain b c where "y = CDate b" "z = CDate c" using same_kind(1) assms(2-) by (metis temporal_kind_simps(1))
  then show ?thesis using 1 by (simp add: compareTemporal_def DateCompare_coherent)
next
  case (2 a)
  then obtain b c where "y = CDateTime b" "z = CDateTime c" using same_kind(2) assms(2-) by (metis temporal_kind_simps(2))
  then show ?thesis using 2 by (simp add: compareTemporal_def DateTimeCompare_coherent)
next
  case (3 a)
  then obtain b c where "y = CLocalDateTime b" "z = CLocalDateTime c"
    using same_kind(3) assms(2-) by (metis temporal_kind_simps(3))
  then show ?thesis using 3 by (simp add: compareTemporal_def LocalDateTimeCompare_coherent)
next
  case (4 a)
  then obtain b c where "y = CLocalTime b" "z = CLocalTime c" using same_kind(4) assms(2-) by (metis temporal_kind_simps(4))
  then show ?thesis using 4 by (simp add: compareTemporal_def LocalTimeCompare_coherent)
next
  case (5 a)
  then obtain b c where "y = CTime b" "z = CTime c" using same_kind(5) assms(2-) by (metis temporal_kind_simps(5))
  then show ?thesis using 5 by (simp add: compareTemporal_def TimeCompare_coherent)
qed

lemma compareTemporal_coherent:
  assumes "orderRank x = 5" "orderRank y = 5" "orderRank z = 5"
  shows "coherent (compareTemporal lib x y) (compareTemporal lib y z) (compareTemporal lib x z)"
proof -
  have zero: "compareInt64 a b = 0 \<Longrightarrow> a = b" for a b by (simp add: compareInt64_def split: if_splits)
  have "coherent (or_else (compareInt64 (temporal_kind x) (temporal_kind y)) (compareTemporal lib x y))
      (or_else (compareInt64 (temporal_kind y) (temporal_kind z)) (compareTemporal lib y z))
      (or_else (compareInt64 (temporal_kind x) (temporal_kind z)) (compareTemporal lib x z))"
    using compareTemporal_same_kind [OF assms zero zero]
    by (intro coherent_lex [OF coherent_compareInt64] three_way_temporal)
  then show ?thesis
    by (simp only: compareTemporal_kind [OF assms(1,2), symmetric] compareTemporal_kind [OF assms(2,3), symmetric]
        compareTemporal_kind [OF assms(1,3), symmetric])
qed

lemma coherent_maps:
  assumes "\<And>k v w u. (k, v) \<in> set l \<Longrightarrow> w \<in> snd ` set r \<Longrightarrow> u \<in> snd ` set s \<Longrightarrow> coherent (c v w) (c w u) (c v u)"
    and three: "\<And>v w. three_way (c v w)"
  shows "coherent (compare_maps c l r) (compare_maps c r s) (compare_maps c l s)"
  unfolding compare_maps_def
proof (intro coherent_lex coherent_compareInt64 three_way_or_else three_way_lists three_way_strings three_way_differences three
    coherent_lists coherent_strings)
  assume len: "compareInt64 (int (length l)) (int (length r)) = 0" "compareInt64 (int (length r)) (int (length s)) = 0"
    and keys: "compare_lists strings_Compare (sortedMapKeys l) (sortedMapKeys r) = 0"
      "compare_lists strings_Compare (sortedMapKeys r) (sortedMapKeys s) = 0"
  have same: "compare_lists strings_Compare xs ys = 0 \<Longrightarrow> length xs = length ys \<Longrightarrow> xs = ys" for xs ys
    by (induction xs ys rule: list_induct2') (auto simp: or_else_def dest: strings_Compare_equal split: if_splits)
  have "length l = length r" "length r = length s" using len by (simp_all add: compareInt64_def split: if_splits)
  then have eq: "sortedMapKeys l = sortedMapKeys r" "sortedMapKeys r = sortedMapKeys s" using same keys by simp_all
  have "coherent (c (the (map_of l k)) (the (map_of r k))) (c (the (map_of r k)) (the (map_of s k))) (c (the (map_of l k)) (the (map_of s k)))"
    if k: "k \<in> set (sortedMapKeys l)" for k
  proof -
    obtain v where v: "map_of l k = Some v" "(k, v) \<in> set l" using k by (rule key_value)
    obtain w where w: "map_of r k = Some w" "(k, w) \<in> set r" using k eq(1) by (metis key_value)
    obtain u where u: "map_of s k = Some u" "(k, u) \<in> set s" using k eq by (metis key_value)
    show ?thesis using assms(1) [OF v(2), of w u] v w u by force
  qed
  then show "coherent (first_difference (map (\<lambda>k. c (the (map_of l k)) (the (map_of r k))) (sortedMapKeys l)))
      (first_difference (map (\<lambda>k. c (the (map_of r k)) (the (map_of s k))) (sortedMapKeys r)))
      (first_difference (map (\<lambda>k. c (the (map_of l k)) (the (map_of s k))) (sortedMapKeys l)))"
    unfolding eq(1) [symmetric] by (rule coherent_differences)
qed

lemma same_rank_temporal: "orderRank x = 5 \<Longrightarrow> orderRank y = 5 \<Longrightarrow> same_rank lib x y = compareTemporal lib x y"
  by (rule temporal_cases [of x]) (simp_all add: same_rank_def)

lemma number_cases:
  assumes "orderRank x = 9"
  shows "number_ok x = value_ok x" "same_rank lib x y = compareOrderNumbers x y"
  using assms by (cases x; simp add: orderRank_def same_rank_def)+

lemma ranks:
  "orderRank y = 0 \<Longrightarrow> \<exists>m. y = CMap m" "orderRank y = 1 \<Longrightarrow> \<exists>a b c d e f. y = CNode a b c d e f"
  "orderRank y = 2 \<Longrightarrow> \<exists>a b c d e f g h. y = CEdge a b c d e f g h" "orderRank y = 3 \<Longrightarrow> \<exists>l. y = CList l"
  "orderRank y = 4 \<Longrightarrow> \<exists>n r. y = CPath n r" "orderRank y = 6 \<Longrightarrow> \<exists>d. y = CDuration d"
  "orderRank y = 7 \<Longrightarrow> \<exists>s. y = CString s" "orderRank y = 8 \<Longrightarrow> \<exists>b. y = CBool b" "orderRank y = 11 \<Longrightarrow> y = CNull"
  by (cases y; simp add: orderRank_def)+

lemma same_rank_simps [simp]:
  "same_rank lib (CMap l) (CMap r) = compare_maps (compareOrderValues lib) l r"
  "same_rank lib (CList xs) (CList ys) = compare_lists (compareOrderValues lib) xs ys"
  "same_rank lib (CNode a b c d e f) (CNode a' b' c' d' e' f') = strings_Compare a a'"
  "same_rank lib (CEdge k1 k2 k3 k4 k5 k6 k7 k8) (CEdge l1 l2 l3 l4 l5 l6 l7 l8) = strings_Compare k1 l1"
  "same_rank lib (CPath n m) (CPath n' m') = strings_Compare (valueKey lib (CPath n m)) (valueKey lib (CPath n' m'))"
  "same_rank lib (CDuration u) (CDuration v) = CompareForOrder u v"
  "same_rank lib (CString s) (CString t) = strings_Compare s t"
  "same_rank lib (CBool p) (CBool q) = compareBool p q"
  "same_rank lib CNull CNull = 0"
  by (simp_all add: same_rank_def)

text \<open>The comparison is coherent once the comparisons of the parts of the first value are.\<close>

lemma same_rank_coherent:
  assumes rank: "orderRank x = orderRank y" "orderRank y = orderRank z"
    and ok: "value_ok x" "value_ok y" "value_ok z"
    and maps: "\<And>l k v w u. x = CMap l \<Longrightarrow> (k, v) \<in> set l \<Longrightarrow> value_ok v \<Longrightarrow> value_ok w \<Longrightarrow> value_ok u \<Longrightarrow>
      coherent (compareOrderValues lib v w) (compareOrderValues lib w u) (compareOrderValues lib v u)"
    and lists: "\<And>l v w u. x = CList l \<Longrightarrow> v \<in> set l \<Longrightarrow> value_ok v \<Longrightarrow> value_ok w \<Longrightarrow> value_ok u \<Longrightarrow>
      coherent (compareOrderValues lib v w) (compareOrderValues lib w u) (compareOrderValues lib v u)"
  shows "coherent (same_rank lib x y) (same_rank lib y z) (same_rank lib x z)"
proof -
  consider l where "x = CMap l" | l where "x = CList l" | "orderRank x = 5" | "orderRank x = 9"
    | "orderRank x \<notin> {0, 3, 5, 9}"
    by (cases x) (simp_all add: orderRank_def)
  then show ?thesis
  proof cases
    case (1 l)
    then obtain r s where "y = CMap r" "z = CMap s" using rank ranks(1) [of y] ranks(1) [of z] by (auto simp: orderRank_def)
    moreover from this 1 have "coherent (compare_maps (compareOrderValues lib) l r) (compare_maps (compareOrderValues lib) r s)
        (compare_maps (compareOrderValues lib) l s)"
      using ok by (intro coherent_maps maps) (auto simp: list_all_iff)
    ultimately show ?thesis using 1 by simp
  next
    case (2 l)
    then obtain r s where "y = CList r" "z = CList s" using rank ranks(4) [of y] ranks(4) [of z] by (auto simp: orderRank_def)
    moreover from this 2 have "coherent (compare_lists (compareOrderValues lib) l r) (compare_lists (compareOrderValues lib) r s)
        (compare_lists (compareOrderValues lib) l s)"
      using ok by (intro coherent_lists lists) (auto simp: list_all_iff)
    ultimately show ?thesis using 2 by simp
  next
    case 3
    then show ?thesis using rank by (simp add: same_rank_temporal compareTemporal_coherent)
  next
    case 4
    then have "number_ok x" "number_ok y" "number_ok z" using rank ok number_cases(1) by metis+
    then show ?thesis using 4 rank by (simp add: number_cases(2) compareOrderNumbers_levels coherent_levels)
  next
    case 5
    then consider "orderRank x = 1" | "orderRank x = 2" | "orderRank x = 4" | "orderRank x = 6" | "orderRank x = 7"
      | "orderRank x = 8" | "orderRank x = 11"
      by (cases x) (simp_all add: orderRank_def)
    then show ?thesis
    proof cases
      case 1
      then show ?thesis using rank ranks(2) [of x] ranks(2) [of y] ranks(2) [of z] by (auto simp: coherent_strings)
    next
      case 2
      then show ?thesis using rank ranks(3) [of x] ranks(3) [of y] ranks(3) [of z] by (auto simp: coherent_strings)
    next
      case 3
      then show ?thesis using rank ranks(5) [of x] ranks(5) [of y] ranks(5) [of z] by (auto simp: coherent_strings)
    next
      case 4
      then show ?thesis using rank ranks(6) [of x] ranks(6) [of y] ranks(6) [of z] by (auto simp: CompareForOrder_coherent)
    next
      case 5
      then show ?thesis using rank ranks(7) [of x] ranks(7) [of y] ranks(7) [of z] by (auto simp: coherent_strings)
    next
      case 6
      then show ?thesis using rank ranks(8) [of x] ranks(8) [of y] ranks(8) [of z] by (auto simp: compareBool_coherent)
    next
      case 7
      then show ?thesis using rank ranks(9) [of x] ranks(9) [of y] ranks(9) [of z] by (auto simp: coherent_zero)
    qed
  qed
qed

lemma coherent_ranks:
  assumes "orderRank x = orderRank y \<Longrightarrow> orderRank y = orderRank z \<Longrightarrow> coherent (same_rank lib x y) (same_rank lib y z) (same_rank lib x z)"
  shows "coherent (compareOrderValues lib x y) (compareOrderValues lib y z) (compareOrderValues lib x z)"
proof -
  have three: "three_way (same_rank lib v w)" for v w by (rule three_way_same_rank) simp_all
  have zero: "compareInt64 a b = 0 \<Longrightarrow> a = b" for a b by (simp add: compareInt64_def split: if_splits)
  show ?thesis
    unfolding compareOrderValues_rank [of lib x y] compareOrderValues_rank [of lib y z] compareOrderValues_rank [of lib x z]
    using assms [OF zero zero] by (intro coherent_lex [OF coherent_compareInt64] three)
qed

lemma compareOrderValues_coherent:
  assumes "value_ok x" "value_ok y" "value_ok z"
  shows "coherent (compareOrderValues lib x y) (compareOrderValues lib y z) (compareOrderValues lib x z)"
  using assms
proof (induction x arbitrary: y z)
  case (CList l)
  have "coherent (same_rank lib (CList l) y) (same_rank lib y z) (same_rank lib (CList l) z)"
    if "orderRank (CList l) = orderRank y" "orderRank y = orderRank z"
    using that CList.prems by (rule same_rank_coherent) (use CList.IH in auto)
  then show ?case by (rule coherent_ranks)
next
  case (CMap l)
  have "coherent (same_rank lib (CMap l) y) (same_rank lib y z) (same_rank lib (CMap l) z)"
    if "orderRank (CMap l) = orderRank y" "orderRank y = orderRank z"
    using that CMap.prems by (rule same_rank_coherent) (use CMap.IH in auto)
  then show ?case by (rule coherent_ranks)
qed (rule coherent_ranks, rule same_rank_coherent; simp; fail)+

section \<open>The order of date-times\<close>

lemma DateTimeCompare_instant:
  assumes "0 \<le> dt_nanosecond a" "dt_nanosecond a < 1000000000" "0 \<le> dt_nanosecond b" "dt_nanosecond b < 1000000000"
    "instant_nanos a < instant_nanos b"
  shows "DateTimeCompare a b = -1"
proof -
  have "dt_epochSecond a < dt_epochSecond b \<or> dt_epochSecond a = dt_epochSecond b \<and> dt_nanosecond a < dt_nanosecond b"
    using assms unfolding instant_nanos_def by linarith
  then show ?thesis by (auto simp: DateTimeCompare_def Let_def compareInt64_def)
qed

lemma coherent_le: "coherent p q r \<Longrightarrow> p \<le> 0 \<Longrightarrow> q \<le> 0 \<Longrightarrow> r \<le> 0"
  unfolding coherent_def three_way_def by linarith

text \<open>C28: Comparing date-times is a total order on values, by instant first: zero only on the same instant in the same
  zone, antisymmetric, transitive, and of two values with nanoseconds in range the one whose instant is earlier, in
  whatever zone, is less.\<close>

theorem datetime_order:
  "(DateTimeCompare a b = 0 \<longleftrightarrow> a = b) \<and> DateTimeCompare b a = - DateTimeCompare a b \<and>
   (DateTimeCompare a b \<le> 0 \<and> DateTimeCompare b c \<le> 0 \<longrightarrow> DateTimeCompare a c \<le> 0) \<and>
   (0 \<le> dt_nanosecond a \<and> dt_nanosecond a < 1000000000 \<and> 0 \<le> dt_nanosecond b \<and> dt_nanosecond b < 1000000000 \<and>
      instant_nanos a < instant_nanos b \<longrightarrow> DateTimeCompare a b = -1)"
  using DateTimeCompare_zero [of a b] DateTimeCompare_swap [of b a] coherent_le [OF DateTimeCompare_coherent [of a b c]]
    DateTimeCompare_instant [of a b] by blast

theorem datetime_order_witness:
  "DateTimeCompare (later_occurrence\<lparr>dt_epochSecond := 1799, dt_nanosecond := 999999999\<rparr>) later_occurrence = -1 \<and>
   DateTimeCompare (later_occurrence\<lparr>dt_epochSecond := 1799, dt_nanosecond := 999999999\<rparr>) (later_occurrence\<lparr>dt_nanosecond := 1\<rparr>) \<le> 0"
proof -
  let ?a = "later_occurrence\<lparr>dt_epochSecond := 1799, dt_nanosecond := 999999999\<rparr>"
  have less: "DateTimeCompare ?a later_occurrence = -1"
    using datetime_order [of ?a later_occurrence] by (simp add: later_occurrence_def instant_nanos_def)
  have "DateTimeCompare later_occurrence (later_occurrence\<lparr>dt_nanosecond := 1\<rparr>) = -1"
    using datetime_order [of later_occurrence "later_occurrence\<lparr>dt_nanosecond := 1\<rparr>"]
    by (simp add: later_occurrence_def instant_nanos_def)
  then have "DateTimeCompare ?a (later_occurrence\<lparr>dt_nanosecond := 1\<rparr>) \<le> 0"
    using datetime_order [of ?a later_occurrence "later_occurrence\<lparr>dt_nanosecond := 1\<rparr>"] less by simp
  then show ?thesis using less by blast
qed

end
