(* ===== verification/Projection.thy ===== *)
theory Projection
  imports Query_Order Query_Arith "HOL-Library.Multiset"
begin

text \<open>
  The end of a projection, \<open>internal/engine/query.go\<close>: DISTINCT, ORDER BY, SKIP and LIMIT over the projected
  rows.  Two interfaces carry the proofs.  \<open>three_way_order\<close> states the laws of a three-way comparison and is
  interpreted on the comparison of ORDER BY; it gives \<open>strict_order\<close>, the contract that \<open>sort.SliceStable\<close> asks
  of its \<open>less\<close> function, for the rows under any list of sort items.
\<close>

section \<open>Stable sorting\<close>

text \<open>\<open>sort.SliceStable\<close>; the lemma \<open>stable_sort_unique\<close> shows that its contract leaves no other result.\<close>

fun insertStable :: "('a \<Rightarrow> 'a \<Rightarrow> bool) \<Rightarrow> 'a \<Rightarrow> 'a list \<Rightarrow> 'a list" where
  "insertStable before x [] = [x]"
| "insertStable before x (y # ys) = (if before y x then y # insertStable before x ys else x # y # ys)"

definition sortStable :: "('a \<Rightarrow> 'a \<Rightarrow> bool) \<Rightarrow> 'a list \<Rightarrow> 'a list" where
  "sortStable before xs = foldr (insertStable before) xs []"

lemma mset_insertStable [simp]: "mset (insertStable before x ys) = add_mset x (mset ys)"
  by (induction ys) simp_all

lemma mset_sortStable [simp]: "mset (sortStable before xs) = mset xs"
  by (induction xs) (simp_all add: sortStable_def)

lemma set_insertStable [simp]: "set (insertStable before x ys) = insert x (set ys)"
  by (induction ys) auto

lemma set_sortStable [simp]: "set (sortStable before xs) = set xs"
  by (metis mset_sortStable set_mset_mset)

text \<open>No element is less than one before it.\<close>

fun in_order :: "('a \<Rightarrow> 'a \<Rightarrow> bool) \<Rightarrow> 'a list \<Rightarrow> bool" where
  "in_order before [] = True"
| "in_order before (x # xs) = (list_all (\<lambda>y. \<not> before y x) xs \<and> in_order before xs)"

lemma in_order_nth: "in_order before xs \<Longrightarrow> i < j \<Longrightarrow> j < length xs \<Longrightarrow> \<not> before (xs ! j) (xs ! i)"
proof (induction xs arbitrary: i j)
  case (Cons x xs)
  then obtain k where "j = Suc k" by (cases j) auto
  with Cons show ?case by (cases i) (auto simp: list_all_iff)
qed simp

definition tied :: "('a \<Rightarrow> 'a \<Rightarrow> bool) \<Rightarrow> 'a \<Rightarrow> 'a \<Rightarrow> bool" where
  "tied before x y \<longleftrightarrow> \<not> before x y \<and> \<not> before y x"

text \<open>The contract of a \<open>less\<close> function: a strict weak order on the elements it is used on.\<close>

locale strict_order =
  fixes before :: "'a \<Rightarrow> 'a \<Rightarrow> bool" and ok :: "'a \<Rightarrow> bool"
  assumes irrefl: "ok x \<Longrightarrow> \<not> before x x"
    and trans: "ok x \<Longrightarrow> ok y \<Longrightarrow> ok z \<Longrightarrow> before x y \<Longrightarrow> before y z \<Longrightarrow> before x z"
    and negative: "ok x \<Longrightarrow> ok y \<Longrightarrow> ok z \<Longrightarrow> \<not> before x y \<Longrightarrow> \<not> before y z \<Longrightarrow> \<not> before x z"
begin

lemma asym: "ok x \<Longrightarrow> ok y \<Longrightarrow> before x y \<Longrightarrow> \<not> before y x"
  using irrefl trans by blast

lemma insert_in_order:
  "ok x \<Longrightarrow> list_all ok ys \<Longrightarrow> in_order before ys \<Longrightarrow> in_order before (insertStable before x ys)"
proof (induction ys)
  case (Cons y ys)
  show ?case
  proof (cases "before y x")
    case True
    then show ?thesis using Cons asym by (auto simp: list_all_iff)
  next
    case False
    have ok: "ok x" "ok y" "list_all ok ys" using Cons.prems by simp_all
    have "\<not> before w x" if "w \<in> set ys" for w
    proof (rule negative [of w y x])
      show "ok w" using ok(3) that by (simp add: list_all_iff)
      show "\<not> before w y" using Cons.prems(3) that by (simp add: list_all_iff)
    qed (use ok False in simp_all)
    then show ?thesis using Cons.prems False by (simp add: list_all_iff)
  qed
qed simp

lemma sort_in_order: "list_all ok xs \<Longrightarrow> in_order before (sortStable before xs)"
proof (induction xs)
  case (Cons x xs)
  have "list_all ok (sortStable before xs)" using Cons.prems by (simp add: list_all_iff)
  with Cons show ?case by (simp add: sortStable_def insert_in_order)
qed (simp add: sortStable_def)

lemma insert_filter:
  assumes "ok x" "ok z" "list_all ok ys"
  shows "filter (tied before z) (insertStable before x ys) = filter (tied before z) (x # ys)"
  using assms
proof (induction ys)
  case (Cons y ys)
  have ok: "ok x" "ok y" "ok z" using Cons.prems by simp_all
  have same: "tied before z x \<Longrightarrow> tied before z y \<Longrightarrow> \<not> before y x"
    using negative [OF ok(2,3,1)] by (simp add: tied_def)
  have "filter (tied before z) (insertStable before x ys) = filter (tied before z) (x # ys)" using Cons by simp
  then show ?case using same by (cases "tied before z x"; cases "tied before z y"; cases "before y x") simp_all
qed simp

lemma sort_stable:
  assumes "ok z" "list_all ok xs"
  shows "filter (tied before z) (sortStable before xs) = filter (tied before z) xs"
  using assms(2)
proof (induction xs)
  case (Cons x xs)
  have "list_all ok (sortStable before xs)" using Cons.prems by (simp add: list_all_iff)
  then have "filter (tied before z) (insertStable before x (sortStable before xs)) = filter (tied before z) (x # sortStable before xs)"
    using Cons.prems assms(1) by (intro insert_filter) simp_all
  then show ?case using Cons by (simp add: sortStable_def)
qed (simp add: sortStable_def)

lemma first_of_class:
  assumes "in_order before (x # xs)" "list_all ok (x # xs)" "y \<in> set (x # xs)"
  shows "\<not> before y x"
  using assms irrefl by (auto simp: list_all_iff)

lemma stable_sort_unique:
  assumes "in_order before xs" "in_order before ys" "list_all ok xs" "mset xs = mset ys"
    and "\<And>z. ok z \<Longrightarrow> filter (tied before z) xs = filter (tied before z) ys"
  shows "xs = ys"
  using assms
proof (induction xs arbitrary: ys)
  case (Cons x xs)
  obtain y ys' where ys: "ys = y # ys'" using Cons.prems(4) by (cases ys) auto
  have sets: "set ys = set (x # xs)" using Cons.prems(4) by (metis set_mset_mset)
  have ok: "list_all ok (x # xs)" "list_all ok ys" using Cons.prems(3) sets by (simp_all add: list_all_iff)
  have "\<not> before y x" using first_of_class [OF Cons.prems(1) ok(1), of y] sets ys by auto
  moreover have "\<not> before x y" using first_of_class [of y ys' x] Cons.prems(2) ok(2) sets ys by auto
  ultimately have tied: "tied before x y" by (simp add: tied_def)
  have "ok x" using ok by simp
  then have "filter (tied before x) (x # xs) = filter (tied before x) ys" by (rule Cons.prems(5))
  moreover have "tied before x x" using \<open>ok x\<close> irrefl by (simp add: tied_def)
  ultimately have xy: "x = y" using tied ys by simp
  have "filter (tied before z) xs = filter (tied before z) ys'" if "ok z" for z
    using Cons.prems(5) [OF that] ys xy by (simp split: if_splits)
  then have "xs = ys'" using Cons.IH [of ys'] Cons.prems(1-4) ys xy by simp
  then show ?case using ys xy by simp
qed simp

end

section \<open>Three-way comparisons\<close>

text \<open>The loop of the \<open>less\<close> function over the sort items; an item tells whether it is descending.\<close>

fun rowLess :: "('a \<Rightarrow> 'a \<Rightarrow> int) \<Rightarrow> bool list \<Rightarrow> 'a list \<Rightarrow> 'a list \<Rightarrow> bool" where
  "rowLess compare (descending # items) (leftValue # left) (rightValue # right) =
     (let comparison = compare leftValue rightValue
      in if comparison = 0 then rowLess compare items left right
         else if descending then comparison > 0
         else comparison < 0)"
| "rowLess compare _ _ _ = False"

fun rowCompare :: "('a \<Rightarrow> 'a \<Rightarrow> int) \<Rightarrow> bool list \<Rightarrow> 'a list \<Rightarrow> 'a list \<Rightarrow> int" where
  "rowCompare compare (descending # items) (x # xs) (y # ys) =
     or_else (if descending then - compare x y else compare x y) (rowCompare compare items xs ys)"
| "rowCompare compare _ _ _ = 0"

lemma coherent_minus:
  assumes "coherent p q r"
  shows "coherent (- p) (- q) (- r)"
proof -
  have "three_way c \<Longrightarrow> three_way (- c)" for c by (auto simp: three_way_def)
  then show ?thesis using assms by (simp add: coherent_def)
qed

lemma coherent_opposite: "coherent p q 0 \<Longrightarrow> q = - p"
  unfolding coherent_def three_way_def by (elim conjE disjE) simp_all

definition row_ok :: "('a \<Rightarrow> bool) \<Rightarrow> bool list \<Rightarrow> 'a list \<Rightarrow> bool" where
  "row_ok ok items xs \<longleftrightarrow> length xs = length items \<and> list_all ok xs"

locale three_way_order =
  fixes compare :: "'a \<Rightarrow> 'a \<Rightarrow> int" and ok :: "'a \<Rightarrow> bool"
  assumes coherence: "ok x \<Longrightarrow> ok y \<Longrightarrow> ok z \<Longrightarrow> coherent (compare x y) (compare y z) (compare x z)"
    and same: "ok x \<Longrightarrow> compare x x = 0"
begin

lemma three_way: "ok x \<Longrightarrow> ok y \<Longrightarrow> three_way (compare x y)"
  using coherent_three_way [OF coherence] by blast

lemma opposite:
  assumes "ok x" "ok y"
  shows "compare y x = - compare x y"
  using coherence [of x y x] same [of x] assms by (simp add: coherent_opposite)

lemma row_three_way: "row_ok ok items xs \<Longrightarrow> row_ok ok items ys \<Longrightarrow> three_way (rowCompare compare items xs ys)"
proof (induction items arbitrary: xs ys)
  case (Cons d items)
  then obtain x xs' y ys' where xy: "xs = x # xs'" "ys = y # ys'" by (cases xs; cases ys) (auto simp: row_ok_def)
  then have "three_way (if d then - compare x y else compare x y)"
    using Cons.prems three_way [of x y] by (auto simp: row_ok_def three_way_def)
  moreover have "three_way (rowCompare compare items xs' ys')"
    using Cons xy by (intro Cons.IH) (simp_all add: row_ok_def)
  ultimately show ?case using xy by (simp add: three_way_or_else)
qed (simp add: three_way_def)

lemma row_coherent:
  "row_ok ok items xs \<Longrightarrow> row_ok ok items ys \<Longrightarrow> row_ok ok items zs \<Longrightarrow>
     coherent (rowCompare compare items xs ys) (rowCompare compare items ys zs) (rowCompare compare items xs zs)"
proof (induction items arbitrary: xs ys zs)
  case (Cons d items)
  then obtain x xs' y ys' z zs' where xyz: "xs = x # xs'" "ys = y # ys'" "zs = z # zs'"
    by (cases xs; cases ys; cases zs) (auto simp: row_ok_def)
  have rows: "row_ok ok items xs'" "row_ok ok items ys'" "row_ok ok items zs'" and ok: "ok x" "ok y" "ok z"
    using Cons.prems xyz by (simp_all add: row_ok_def)
  have "coherent (if d then - compare x y else compare x y) (if d then - compare y z else compare y z)
      (if d then - compare x z else compare x z)"
    using coherence [OF ok] coherent_minus [OF coherence [OF ok]] by simp
  then show ?case unfolding xyz rowCompare.simps
    by (rule coherent_lex) (simp_all add: row_three_way rows Cons.IH)
qed (simp add: coherent_zero)

lemma rowLess_compare:
  "row_ok ok items xs \<Longrightarrow> row_ok ok items ys \<Longrightarrow> rowLess compare items xs ys \<longleftrightarrow> rowCompare compare items xs ys = -1"
proof (induction items arbitrary: xs ys)
  case (Cons d items)
  then obtain x xs' y ys' where xy: "xs = x # xs'" "ys = y # ys'" by (cases xs; cases ys) (auto simp: row_ok_def)
  then have "three_way (compare x y)" "row_ok ok items xs'" "row_ok ok items ys'"
    using Cons.prems three_way [of x y] by (simp_all add: row_ok_def)
  with Cons.IH show ?case by (auto simp: xy or_else_def three_way_def)
qed simp

lemma row_same: "row_ok ok items xs \<Longrightarrow> rowCompare compare items xs xs = 0"
proof (induction items arbitrary: xs)
  case (Cons d items)
  then show ?case by (cases xs) (auto simp: row_ok_def or_else_def same)
qed simp

lemma row_opposite:
  "row_ok ok items xs \<Longrightarrow> row_ok ok items ys \<Longrightarrow> rowCompare compare items ys xs = - rowCompare compare items xs ys"
  using row_coherent [of items xs ys xs] row_same [of items xs] by (simp add: coherent_opposite)

lemma row_tied:
  assumes "row_ok ok items (f s)" "row_ok ok items (f t)"
  shows "tied (\<lambda>a b. rowLess compare items (f a) (f b)) s t \<longleftrightarrow> rowCompare compare items (f s) (f t) = 0"
  using row_three_way [OF assms] row_opposite [OF assms] assms
  by (auto simp: tied_def rowLess_compare three_way_def)

end

sublocale three_way_order \<subseteq> rows: strict_order "\<lambda>a b. rowLess compare items (f a) (f b)" "\<lambda>a. row_ok ok items (f a)"
  for items and f :: "'b \<Rightarrow> 'a list"
proof unfold_locales
  fix x y z
  assume ok: "row_ok ok items (f x)"
  then show "\<not> rowLess compare items (f x) (f x)" by (simp add: rowLess_compare row_same)
next
  fix x y z
  assume "row_ok ok items (f x)" "row_ok ok items (f y)" "row_ok ok items (f z)"
  with row_coherent [OF this]
  show "rowLess compare items (f x) (f y) \<Longrightarrow> rowLess compare items (f y) (f z) \<Longrightarrow> rowLess compare items (f x) (f z)"
    and "\<not> rowLess compare items (f x) (f y) \<Longrightarrow> \<not> rowLess compare items (f y) (f z) \<Longrightarrow> \<not> rowLess compare items (f x) (f z)"
    by (auto simp: rowLess_compare coherent_def three_way_def)
qed

interpretation order_by: three_way_order "compareOrderValues lib" value_ok for lib
  by unfold_locales (simp_all add: compareOrderValues_coherent compareOrderValues_same)

section \<open>ORDER BY\<close>

record 'r sortable =
  sort_row :: 'r
  sort_values :: "cvalue list"
  sort_keys :: "cvalue list"

definition sortables :: "'r list \<Rightarrow> cvalue list list \<Rightarrow> cvalue list list \<Rightarrow> 'r sortable list" where
  "sortables rows table keys =
     map (\<lambda>(r, values, key). \<lparr>sort_row = r, sort_values = values, sort_keys = key\<rparr>) (zip rows (zip table keys))"

definition sortProjection ::
    "library \<Rightarrow> bool list \<Rightarrow> 'r list \<Rightarrow> cvalue list list \<Rightarrow> cvalue list list \<Rightarrow> 'r list \<times> cvalue list list" where
  "sortProjection lib items rows table keys =
     (let sorted = sortStable (\<lambda>left right. rowLess (compareOrderValues lib) items (sort_keys left) (sort_keys right))
                     (sortables rows table keys)
      in (map sort_row sorted, map sort_values sorted))"

lemma sortables_keys: "s \<in> set (sortables rows table keys) \<Longrightarrow> sort_keys s \<in> set keys"
  by (auto simp: sortables_def dest!: set_zip_rightD)

section \<open>DISTINCT\<close>

text \<open>The first row of every key stays; \<open>seen\<close> holds the keys met so far.\<close>

fun keepFirst :: "('a \<Rightarrow> string) \<Rightarrow> string list \<Rightarrow> 'a list \<Rightarrow> 'a list" where
  "keepFirst key seen [] = []"
| "keepFirst key seen (x # xs) =
     (if key x \<in> set seen then keepFirst key seen xs else x # keepFirst key (key x # seen) xs)"

definition distinctResultRows :: "library \<Rightarrow> cvalue list list \<Rightarrow> cvalue list list" where
  "distinctResultRows lib rows = keepFirst (\<lambda>values. valueKey lib (CList values)) [] rows"

definition distinctValues :: "library \<Rightarrow> cvalue list \<Rightarrow> cvalue list" where
  "distinctValues lib values = keepFirst (valueKey lib) [] values"

definition distinctProjected ::
    "library \<Rightarrow> 'r list \<Rightarrow> cvalue list list \<Rightarrow> 's list \<Rightarrow> 'e list \<Rightarrow> 'r list \<times> cvalue list list \<times> 's list \<times> 'e list" where
  "distinctProjected lib rows table scopes evaluators =
     (let kept = keepFirst (\<lambda>(values, _). valueKey lib (CList values)) [] (zip table (zip rows (zip scopes evaluators)))
      in (map (fst \<circ> snd) kept, map fst kept, map (fst \<circ> snd \<circ> snd) kept, map (snd \<circ> snd \<circ> snd) kept))"

lemma keepFirst_subset: "set (keepFirst key seen xs) \<subseteq> set xs"
  by (induction key seen xs rule: keepFirst.induct) auto

lemma keepFirst_keys:
  "key ` set (keepFirst key seen xs) = key ` set xs - set seen \<and> distinct (map key (keepFirst key seen xs))"
  by (induction key seen xs rule: keepFirst.induct) auto

text \<open>What stays of a list is the first element of every key, in the order of the list.\<close>

lemma keepFirst_find:
  "k \<notin> set seen \<Longrightarrow> find (\<lambda>x. key x = k) (keepFirst key seen xs) = find (\<lambda>x. key x = k) xs"
  by (induction key seen xs rule: keepFirst.induct) auto

text \<open>A row list is keyed by its JSON text, in which a temporal value is the string of its text: DISTINCT merges
  the row of a date with the row of that string, which the engine's equality tells apart.\<close>

lemma distinct_merges_date_and_text:
  "distinctResultRows lib [[CDate d], [CString (DateString d)]] = [[CDate d]]"
  "cypherEqual (CDate d) (CString (DateString d)) = Some False"
  by (simp_all add: distinctResultRows_def valueKey_def typeName_def jsonValue.simps cypherEqual.simps isNumber_def number_def)

section \<open>SKIP and LIMIT\<close>

definition pageBound :: "string \<Rightarrow> string \<Rightarrow> int \<Rightarrow> ('x \<Rightarrow> qresult) \<Rightarrow> 'x option \<Rightarrow> qerror + int" where
  "pageBound notInteger negative unbounded evaluate expression =
     (case expression of
        None \<Rightarrow> Inr unbounded
      | Some x \<Rightarrow>
          bindE (evaluate x) (\<lambda>v.
            case integer v of
              None \<Rightarrow> Inl (EvalError notInteger)
            | Some n \<Rightarrow> if n < 0 then Inl (EvalError negative) else Inr n))"

definition paginateProjection ::
    "('x \<Rightarrow> qresult) \<Rightarrow> 'r list \<Rightarrow> cvalue list list \<Rightarrow> 'x option \<Rightarrow> 'x option \<Rightarrow> qerror + ('r list \<times> cvalue list list)" where
  "paginateProjection evaluate rows table skipExpression limitExpression =
     bindE (pageBound ''SKIP expects an integer, got %T'' ''SKIP must be a non-negative integer'' 0 evaluate skipExpression) (\<lambda>skip.
     bindE (pageBound ''LIMIT expects an integer, got %T'' ''LIMIT must be a non-negative integer'' (int (length rows))
              evaluate limitExpression) (\<lambda>limit.
       let rowCount = int (length rows);
           start = min skip rowCount;
           stop = (if limit < rowCount - start then start + limit else rowCount)
       in Inr (take (nat (stop - start)) (drop (nat start) rows), take (nat (stop - start)) (drop (nat start) table))))"

text \<open>A page is the rows after the skipped ones, as many as the limit allows.\<close>

lemma paginate_exact:
  assumes "length table = length rows" "evaluate s = Inr (CInt (int k))" "evaluate l = Inr (CInt (int n))"
  shows "paginateProjection evaluate rows table (Some s) (Some l) = Inr (take n (drop k rows), take n (drop k table))"
proof (cases "k \<le> length rows")
  case True
  then have "min (int k) (int (length rows)) = int k" by simp
  then show ?thesis using assms True
    by (cases "n < length rows - k") (simp_all add: paginateProjection_def pageBound_def integer_def Let_def nat_diff_distrib nat_int_add)
next
  case False
  then show ?thesis using assms by (simp add: paginateProjection_def pageBound_def integer_def Let_def min_def)
qed

section \<open>Properties\<close>

text \<open>C38: ORDER BY sorts: the rows it returns are those it got, in the lexicographic order of their keys with the
  descending items reversed, and rows with equal keys keep their order.\<close>

theorem order_by_sorts:
  assumes "\<forall>key \<in> set keys. length key = length items \<and> list_all value_ok key"
    and "sortProjection lib items rows table keys = (rows', table')"
  shows "\<exists>sorted. rows' = map sort_row sorted \<and> table' = map sort_values sorted \<and>
    mset sorted = mset (sortables rows table keys) \<and>
    (\<forall>i j. i < j \<longrightarrow> j < length sorted \<longrightarrow>
       rowCompare (compareOrderValues lib) items (sort_keys (sorted ! i)) (sort_keys (sorted ! j)) \<in> {-1, 0}) \<and>
    (\<forall>s \<in> set sorted.
       filter (\<lambda>t. rowCompare (compareOrderValues lib) items (sort_keys s) (sort_keys t) = 0) sorted =
       filter (\<lambda>t. rowCompare (compareOrderValues lib) items (sort_keys s) (sort_keys t) = 0) (sortables rows table keys))"
proof -
  let ?input = "sortables rows table keys"
  let ?before = "\<lambda>left right. rowLess (compareOrderValues lib) items (sort_keys left) (sort_keys right)"
  let ?compare = "\<lambda>s t. rowCompare (compareOrderValues lib) items (sort_keys s) (sort_keys t)"
  define sorted where "sorted = sortStable ?before ?input"
  have ok: "row_ok value_ok items (sort_keys s)" if "s \<in> set ?input" for s
    using sortables_keys [OF that] assms(1) by (simp add: row_ok_def)
  then have all_ok: "list_all (\<lambda>s. row_ok value_ok items (sort_keys s)) ?input" by (simp add: list_all_iff)
  have in_order: "in_order ?before sorted" unfolding sorted_def by (rule order_by.rows.sort_in_order [OF all_ok])
  have order: "?compare (sorted ! i) (sorted ! j) \<in> {-1, 0}" if ij: "i < j" "j < length sorted" for i j
  proof -
    have members: "sorted ! i \<in> set ?input" "sorted ! j \<in> set ?input"
      using ij nth_mem [of i sorted] nth_mem [of j sorted] by (simp_all add: sorted_def)
    then have "?compare (sorted ! j) (sorted ! i) \<noteq> -1"
      using in_order_nth [OF in_order ij] ok by (simp add: order_by.rowLess_compare)
    then show ?thesis using order_by.row_opposite [OF ok [OF members(1)] ok [OF members(2)], of lib]
        order_by.row_three_way [OF ok [OF members(1)] ok [OF members(2)], of lib] by (auto simp: three_way_def)
  qed
  have tied: "filter (\<lambda>t. ?compare s t = 0) xs = filter (tied ?before s) xs"
    if "s \<in> set ?input" "set xs = set ?input" for s xs
    using that ok by (intro filter_cong refl) (simp add: order_by.row_tied)
  have stable: "filter (\<lambda>t. ?compare s t = 0) sorted = filter (\<lambda>t. ?compare s t = 0) ?input" if "s \<in> set sorted" for s
    using that order_by.rows.sort_stable [OF ok all_ok, of s lib] by (simp add: tied sorted_def)
  show ?thesis
    using assms(2) order stable by (intro exI [of _ sorted]) (auto simp: sortProjection_def Let_def sorted_def)
qed

theorem order_by_sorts_witness:
  "\<forall>lib. sortProjection lib [True] [0 :: nat, 1] [[CNull], [CBool True]] [[CString ''a''], [CString ''b'']] =
      ([1, 0], [[CBool True], [CNull]]) \<and>
    (\<exists>sorted :: nat sortable list. [1, 0] = map sort_row sorted)"
proof
  fix lib
  have sorted: "sortProjection lib [True] [0 :: nat, 1] [[CNull], [CBool True]] [[CString ''a''], [CString ''b'']] =
      ([1, 0], [[CBool True], [CNull]])"
    by (simp add: sortProjection_def sortables_def sortStable_def compareOrderValues.simps orderRank_def byte_of_def)
  have "\<forall>key \<in> set [[CString ''a''], [CString ''b'']]. length key = length [True] \<and> list_all value_ok key" by simp
  from order_by_sorts [OF this sorted] have "\<exists>sorted :: nat sortable list. [1, 0] = map sort_row sorted"
    by (elim exE conjE) (rule exI)
  with sorted
  show "sortProjection lib [True] [0 :: nat, 1] [[CNull], [CBool True]] [[CString ''a''], [CString ''b'']] =
      ([1, 0], [[CBool True], [CNull]]) \<and> (\<exists>sorted :: nat sortable list. [1, 0] = map sort_row sorted)"
    by blast
qed

end
