(* ===== verification/Query_Aggregate.thy ===== *)
theory Query_Aggregate
  imports Projection
begin

text \<open>
  The aggregate functions of \<open>internal/engine/aggregate.go\<close> on the values of a group, nulls already left out.
  A conversion of a float that \<open>int\<close> cannot hold gives what the machine gives, \<open>lib_int\<close>; an index out of range
  is a run-time error of Go.
\<close>

definition float_floor :: "float64 \<Rightarrow> float64" where
  "float_floor x = float_neg (float_ceil (float_neg x))"

definition goInt :: "(float64 \<Rightarrow> int) \<Rightarrow> float64 \<Rightarrow> int" where
  "goInt machine x =
     (case x of
        Finite s q \<Rightarrow> let n = (if s then - rat_floor q else rat_floor q) in if in64 n then n else machine x
      | _ \<Rightarrow> machine x)"

text \<open>The loop of \<open>sum\<close>: the float total, whether all values are integers whose sum has stayed in range, and
  that sum.\<close>

fun sumLoop :: "cvalue list \<Rightarrow> float64 \<Rightarrow> bool \<Rightarrow> int \<Rightarrow> (float64 \<times> bool \<times> int) option" where
  "sumLoop [] total_float allIntegers integerTotal = Some (total_float, allIntegers, integerTotal)"
| "sumLoop (v # vs) total_float allIntegers integerTotal =
     (case number v of
        None \<Rightarrow> None
      | Some (x, isInteger) \<Rightarrow>
          (case integer v of
             Some exact \<Rightarrow>
               if \<not> allIntegers then sumLoop vs (float_add total_float x) False integerTotal
               else if exact > 0 \<and> integerTotal > 9223372036854775807 - exact
                       \<or> exact < 0 \<and> integerTotal < - 9223372036854775808 - exact
               then sumLoop vs (float_add total_float x) False integerTotal
               else sumLoop vs (float_add total_float x) True (integerTotal + exact)
           | None \<Rightarrow> sumLoop vs (float_add total_float x) False integerTotal))"

definition variance :: "float64 \<Rightarrow> cvalue list \<Rightarrow> float64" where
  "variance mean values =
     foldl (\<lambda>acc v. let difference = float_sub (fst (the (number v))) mean in float_add acc (float_mul difference difference))
       (Finite False 0) values"

definition sumValues :: "library \<Rightarrow> string \<Rightarrow> cvalue list \<Rightarrow> qresult" where
  "sumValues lib name values =
     (if values = [] then Inr (if name = ''sum'' then CInt 0 else CNull)
      else case sumLoop values (Finite False 0) True 0 of
             None \<Rightarrow> Inl (EvalError ''%s expects numeric values, got %T'')
           | Some (total_float, allIntegers, integerTotal) \<Rightarrow>
               let count = float_of_int (int (length values)); mean = float_div total_float count
               in if name = ''sum'' then Inr (if allIntegers then CInt integerTotal else CFloat total_float)
                  else if name = ''avg'' then Inr (CFloat mean)
                  else if name = ''stdev'' \<and> length values = 1 then Inr (CFloat (Finite False 0))
                  else let divisor = (if name = ''stdev'' then float_sub count (float_of_int 1) else count)
                       in Inr (CFloat (lib_sqrt lib (float_div (variance mean values) divisor))))"

text \<open>The loops of \<open>min\<close> and \<open>max\<close>.\<close>

fun bestOf :: "('a \<Rightarrow> 'a \<Rightarrow> int) \<Rightarrow> bool \<Rightarrow> 'a \<Rightarrow> 'a list \<Rightarrow> 'a" where
  "bestOf compare smallest best [] = best"
| "bestOf compare smallest best (v # vs) =
     (let comparison = compare v best
      in bestOf compare smallest (if smallest \<and> comparison < 0 \<or> \<not> smallest \<and> comparison > 0 then v else best) vs)"

definition extremeValue :: "library \<Rightarrow> string \<Rightarrow> cvalue list \<Rightarrow> cvalue" where
  "extremeValue lib name values =
     (case values of [] \<Rightarrow> CNull | v # vs \<Rightarrow> bestOf (compareOrderValues lib) (name = ''min'') v vs)"

definition float_before :: "float64 \<Rightarrow> float64 \<Rightarrow> bool" where
  "float_before x y \<longleftrightarrow> float_less x y \<or> x = NaN \<and> y \<noteq> NaN"

definition itemAt :: "float64 list \<Rightarrow> int \<Rightarrow> qerror + float64" where
  "itemAt xs i = (if 0 \<le> i \<and> i < int (length xs) then Inr (xs ! nat i) else Inl (Panic ''index out of range''))"

definition percentileOf :: "(float64 \<Rightarrow> int) \<Rightarrow> string \<Rightarrow> cvalue list \<Rightarrow> cvalue \<Rightarrow> qresult" where
  "percentileOf machine name values percentileValue =
     (case number percentileValue of
        None \<Rightarrow> Inl (EvalError ''%s percentile must be between 0 and 1'')
      | Some (percentile, _) \<Rightarrow>
          if float_less percentile (Finite False 0) \<or> float_less (Finite False 1) percentile
          then Inl (EvalError ''%s percentile must be between 0 and 1'')
          else if values = [] then Inr CNull
          else if list_ex (\<lambda>v. number v = None) values then Inl (EvalError ''%s expects numeric values'')
          else let numbers = sortStable float_before (map (\<lambda>v. fst (the (number v))) values);
                   position = float_mul percentile (float_of_int (int (length numbers) - 1));
                   lower = goInt machine (float_floor position); upper = goInt machine (float_ceil position)
               in if name = ''percentiledisc'' then mapR CFloat (itemAt numbers upper)
                  else if lower = upper then mapR CFloat (itemAt numbers lower)
                  else bindE (itemAt numbers lower) (\<lambda>l. bindE (itemAt numbers upper) (\<lambda>u.
                    Inr (CFloat (float_add l (float_mul (float_sub u l) (float_sub position (float_of_int lower))))))))"

definition isAggregate :: "string \<Rightarrow> bool" where
  "isAggregate name \<longleftrightarrow>
     name \<in> {''count'', ''collect'', ''sum'', ''avg'', ''min'', ''max'', ''stdev'', ''stdevp'', ''percentilecont'', ''percentiledisc''}"

text \<open>\<open>aggregate\<close> once its argument is evaluated on the rows of the group; \<open>percentile\<close> is what its second
  argument gives, if it has exactly two.\<close>

definition aggregateValues ::
    "(float64 \<Rightarrow> int) \<Rightarrow> library \<Rightarrow> string \<Rightarrow> bool \<Rightarrow> cvalue list \<Rightarrow> qresult option \<Rightarrow> qresult" where
  "aggregateValues machine lib name distinct_values raw percentile =
     (let present = filter (\<lambda>v. v \<noteq> CNull) raw; values = (if distinct_values then distinctValues lib present else present)
      in if name = ''count'' then Inr (CInt (i64 (int (length values))))
         else if name = ''collect'' then Inr (CList values)
         else if name \<in> {''sum'', ''avg'', ''stdev'', ''stdevp''} then sumValues lib name values
         else if name = ''min'' \<or> name = ''max'' then Inr (extremeValue lib name values)
         else case percentile of
                None \<Rightarrow> Inl (EvalError ''%s expects two arguments'')
              | Some m \<Rightarrow> bindE m (\<lambda>p. percentileOf machine name values p))"

section \<open>Sums, minima and maxima\<close>

text \<open>A sum of integers is exact as long as no partial sum leaves the range.\<close>

lemma sumLoop_exact:
  assumes "list_all in64 ns" "\<And>k. k \<le> length ns \<Longrightarrow> in64 (acc + sum_list (take k ns))"
  shows "\<exists>x. sumLoop (map CInt ns) t True acc = Some (x, True, acc + sum_list ns)"
  using assms
proof (induction ns arbitrary: t acc)
  case (Cons n ns)
  have "in64 acc" "in64 (acc + n)" using Cons.prems(2) [of 0] Cons.prems(2) [of 1] by simp_all
  then have no_overflow: "\<not> (n > 0 \<and> acc > 9223372036854775807 - n \<or> n < 0 \<and> acc < - 9223372036854775808 - n)"
    by (auto simp: in64_def)
  have "in64 (acc + n + sum_list (take k ns))" if "k \<le> length ns" for k
    using Cons.prems(2) [of "Suc k"] that by (simp add: algebra_simps)
  then have "\<exists>x. sumLoop (map CInt ns) (float_add t (float_of_int n)) True (acc + n) = Some (x, True, acc + n + sum_list ns)"
    using Cons.prems(1) by (intro Cons.IH) simp_all
  then show ?case using no_overflow by (auto simp: number_def integer_def add.assoc)
qed simp

lemma sumValues_exact:
  assumes "list_all in64 ns" "\<And>k. k \<le> length ns \<Longrightarrow> in64 (sum_list (take k ns))"
  shows "sumValues lib ''sum'' (map CInt ns) = Inr (CInt (sum_list ns))"
  using sumLoop_exact [of ns 0 "Finite False 0"] assms by (auto simp: sumValues_def)

context three_way_order
begin

lemma not_after_trans:
  assumes "ok x" "ok y" "ok z" "compare x y \<le> 0" "compare y z \<le> 0"
  shows "compare x z \<le> 0"
proof -
  have "compare x y = -1 \<or> compare x y = 0" "compare y z = -1 \<or> compare y z = 0"
    using assms three_way [of x y] three_way [of y z] by (auto simp: three_way_def)
  then show ?thesis using coherence [OF assms(1-3)] by (auto simp: coherent_def)
qed

text \<open>The loop of \<open>min\<close> ends with an element that comes after no other, the loop of \<open>max\<close> with one that comes
  before no other.\<close>

lemma best_extreme:
  assumes "ok best" "list_all ok vs"
  shows "bestOf compare smallest best vs \<in> set (best # vs) \<and>
    (\<forall>v \<in> set (best # vs). if smallest then compare (bestOf compare smallest best vs) v \<le> 0
       else compare v (bestOf compare smallest best vs) \<le> 0)"
  using assms
proof (induction vs arbitrary: best)
  case Nil
  then show ?case by (simp add: same)
next
  case (Cons v vs)
  define b where "b = (if smallest \<and> compare v best < 0 \<or> \<not> smallest \<and> compare v best > 0 then v else best)"
  define r where "r = bestOf compare smallest b vs"
  have ok: "ok best" "ok v" "ok b" and all: "list_all ok (b # vs)" using Cons.prems by (auto simp: b_def)
  have r: "r \<in> set (b # vs)" "\<forall>w \<in> set (b # vs). if smallest then compare r w \<le> 0 else compare w r \<le> 0"
    using Cons.IH [of b] all unfolding r_def by (auto split: if_splits)
  have "ok r" using r(1) all by (auto simp: list_all_iff)
  have b: "if smallest then compare b best \<le> 0 \<and> compare b v \<le> 0 else compare best b \<le> 0 \<and> compare v b \<le> 0"
    using opposite [of v best] opposite [of best v] ok same [of v] same [of best] by (auto simp: b_def)
  have "if smallest then compare r best \<le> 0 \<and> compare r v \<le> 0 else compare best r \<le> 0 \<and> compare v r \<le> 0"
    using r(2) b not_after_trans [of r b best] not_after_trans [of r b v] not_after_trans [of best b r]
      not_after_trans [of v b r] ok \<open>ok r\<close> by (simp split: if_splits)
  moreover have "bestOf compare smallest best (v # vs) = r" by (simp add: r_def b_def Let_def)
  moreover have "b = v \<or> b = best" by (simp add: b_def)
  ultimately show ?case using r by auto
qed

end

text \<open>\<open>min\<close> and \<open>max\<close> over the values of a group, in the order of ORDER BY.\<close>

lemma extremeValue_min:
  assumes "list_all value_ok values" "values \<noteq> []"
  shows "extremeValue lib ''min'' values \<in> set values \<and>
    (\<forall>v \<in> set values. compareOrderValues lib (extremeValue lib ''min'' values) v \<le> 0)"
  using assms order_by.best_extreme [of "hd values" "tl values" lib True]
  by (cases "values") (auto simp: extremeValue_def)

lemma extremeValue_max:
  assumes "list_all value_ok values" "values \<noteq> []"
  shows "extremeValue lib ''max'' values \<in> set values \<and>
    (\<forall>v \<in> set values. compareOrderValues lib v (extremeValue lib ''max'' values) \<le> 0)"
  using assms order_by.best_extreme [of "hd values" "tl values" lib False]
  by (cases "values") (auto simp: extremeValue_def)

section \<open>Percentiles\<close>

text \<open>Not-a-number passes the test of the range: on a machine that converts it to a negative integer, the index
  is out of range.\<close>

lemma percentile_of_nan:
  assumes "machine NaN < 0" "values \<noteq> []" "\<forall>v \<in> set values. number v \<noteq> None"
  shows "percentileOf machine ''percentiledisc'' values (CFloat NaN) = Inl (Panic ''index out of range'')"
proof -
  have "\<not> list_ex (\<lambda>v. number v = None) values" using assms(3) by (auto simp: list_ex_iff)
  then show ?thesis using assms(1,2)
    by (simp add: percentileOf_def number_def [of "CFloat NaN"] float_less_def float_mul_def float_ceil_def goInt_def itemAt_def
        mapR_def Let_def)
qed

end
