(* ===== verification/Query_Eval.thy ===== *)
theory Query_Eval
  imports Query_Functions Query_Aggregate "HOL-Library.AList"
begin

text \<open>
  The evaluator of expressions, \<open>internal/engine/eval.go\<close>, over the expressions of \<open>internal/cypher/ast.go\<close>
  without their positions.  Patterns and subqueries are opaque: the evaluator gets their meaning as callbacks, as
  the code does.  The functions that build temporal values, read a clock or draw random numbers and the endpoints
  of a relationship are one more callback, \<open>ev_other\<close>.  Loops stop at the first error; a cancelled context is not
  modelled.
\<close>

section \<open>Expressions\<close>

datatype ('p, 'q) expression =
    NilExpression
  | Literal cvalue
  | Variable string
  | Parameter string
  | UnaryExpression string "('p, 'q) expression"
  | BinaryExpression "('p, 'q) expression" string "('p, 'q) expression"
  | IsNullExpression "('p, 'q) expression" bool
  | PropertyExpression "('p, 'q) expression" string
  | LabelExpression "('p, 'q) expression" "string list"
  | IndexExpression "('p, 'q) expression" "('p, 'q) expression"
  | SliceExpression "('p, 'q) expression" "('p, 'q) expression" "('p, 'q) expression"
  | FunctionInvocation string bool bool "('p, 'q) expression list"
  | ListLiteral "('p, 'q) expression list"
  | MapLiteral "(string \<times> ('p, 'q) expression) list"
  | CaseExpression "('p, 'q) expression" "(('p, 'q) expression \<times> ('p, 'q) expression) list" "('p, 'q) expression"
  | ListComprehension string "('p, 'q) expression" "('p, 'q) expression" "('p, 'q) expression"
  | PatternComprehension string 'p "('p, 'q) expression" "('p, 'q) expression"
  | ListPredicate string string "('p, 'q) expression" "('p, 'q) expression"
  | ReduceExpression string "('p, 'q) expression" string "('p, 'q) expression" "('p, 'q) expression"
  | PatternExpression 'p
  | ExistsSubquery 'q

type_synonym row = "string \<rightharpoonup> cvalue"

record ('p, 'q) evaluator =
  ev_library :: library
  ev_machine :: "float64 \<Rightarrow> int"
  ev_params :: "string \<rightharpoonup> cvalue"
  ev_group :: "row list option"
  ev_graph :: "((string \<Rightarrow> bool) \<times> (string \<Rightarrow> bool)) option"
  ev_pattern :: "('p \<Rightarrow> row \<Rightarrow> qerror + cvalue list) option"
  ev_patternRows :: "('p \<Rightarrow> string \<Rightarrow> row \<Rightarrow> qerror + row list) option"
  ev_subquery :: "('q \<Rightarrow> row \<Rightarrow> qerror + bool) option"
  ev_shortest :: "('p \<Rightarrow> row \<Rightarrow> bool \<Rightarrow> qresult) option"
  ev_other :: "string \<Rightarrow> cvalue list \<Rightarrow> qresult"

section \<open>Loops\<close>

lemma mapE_cong [fundef_cong]: "xs = ys \<Longrightarrow> (\<And>x. x \<in> set ys \<Longrightarrow> f x = g x) \<Longrightarrow> mapE f xs = mapE g ys"
  by (induction xs arbitrary: ys) auto

fun foldE :: "('b \<Rightarrow> 'a \<Rightarrow> 'e + 'b) \<Rightarrow> 'b \<Rightarrow> 'a list \<Rightarrow> 'e + 'b" where
  "foldE f acc [] = Inr acc"
| "foldE f acc (x # xs) = bindE (f acc x) (\<lambda>acc'. foldE f acc' xs)"

definition keeps :: "string \<Rightarrow> cvalue \<Rightarrow> qerror + bool" where
  "keeps message v = (case v of CNull \<Rightarrow> Inr False | CBool b \<Rightarrow> Inr b | _ \<Rightarrow> Inl (EvalError message))"

section \<open>Indexing and slices\<close>

definition deletedEntity :: "('p, 'q) evaluator \<Rightarrow> cvalue \<Rightarrow> bool" where
  "deletedEntity e v \<longleftrightarrow>
     (case ev_graph e of
        None \<Rightarrow> False
      | Some (nodes, edges) \<Rightarrow>
          (case v of CNode k _ _ _ _ _ \<Rightarrow> \<not> nodes k | CEdge k _ _ _ _ _ _ _ \<Rightarrow> \<not> edges k | _ \<Rightarrow> False))"

definition normalizedIndex :: "int \<Rightarrow> int \<Rightarrow> int" where
  "normalizedIndex i n = (if i < 0 then n + i else i)"

definition indexValue :: "('p, 'q) evaluator \<Rightarrow> cvalue \<Rightarrow> cvalue \<Rightarrow> qresult" where
  "indexValue e collection i =
     (case asList collection of
        Some items \<Rightarrow>
          (case integer i of
             None \<Rightarrow> Inl (EvalError ''list index must be an integer'')
           | Some n \<Rightarrow>
               let position = normalizedIndex n (int (length items))
               in if position < 0 \<or> position \<ge> int (length items) then Inr CNull else Inr (items ! nat position))
      | None \<Rightarrow>
          (case asMap collection of
             Some m \<Rightarrow>
               (case i of CString key \<Rightarrow> Inr (lookup_or_null key m) | _ \<Rightarrow> Inl (EvalError ''map index must be a string''))
           | None \<Rightarrow>
               if deletedEntity e collection then Inl (EvalError ''cannot access a property of a deleted entity'')
               else if isPropertyContainer collection then
                 (case i of
                    CString key \<Rightarrow> Inr (property collection key)
                  | _ \<Rightarrow> Inl (EvalError ''property index must be a string''))
               else Inl (EvalError ''cannot index %T'')))"

definition sliceItems :: "'a list \<Rightarrow> int \<Rightarrow> int \<Rightarrow> 'a list" where
  "sliceItems items start stop =
     (let n = int (length items);
          first = max 0 (min (normalizedIndex start n) n);
          final = max 0 (min (normalizedIndex stop n) n)
      in if first > final then [] else take (nat (final - first)) (drop (nat first) items))"

text \<open>A bound of a slice: the default when it is left out, nothing when it is null.\<close>

definition sliceBound :: "string \<Rightarrow> int \<Rightarrow> qresult option \<Rightarrow> qerror + int option" where
  "sliceBound message unbounded m =
     (case m of
        None \<Rightarrow> Inr (Some unbounded)
      | Some r \<Rightarrow>
          bindE r (\<lambda>v.
            if v = CNull then Inr None
            else case integer v of None \<Rightarrow> Inl (EvalError message) | Some n \<Rightarrow> Inr (Some n)))"

text \<open>\<open>index\<close> and \<open>slice\<close>, over the results of their parts.  A part that a loop evaluates for every item is a
  function, and one that may be left out is optional.\<close>

definition indexExpression :: "('p, 'q) evaluator \<Rightarrow> qresult \<Rightarrow> qresult \<Rightarrow> qresult" where
  "indexExpression e source position =
     bindE source (\<lambda>collection.
       if collection = CNull then Inr CNull
       else bindE position (\<lambda>i. if i = CNull then Inr CNull else indexValue e collection i))"

definition sliceExpression :: "qresult \<Rightarrow> qresult option \<Rightarrow> qresult option \<Rightarrow> qresult" where
  "sliceExpression source start stop =
     bindE source (\<lambda>collection.
       if collection = CNull then Inr CNull
       else case asList collection of
              None \<Rightarrow> Inl (EvalError ''slice expects a list'')
            | Some items \<Rightarrow>
                bindE (sliceBound ''slice start must be an integer'' 0 start) (\<lambda>first.
                  case first of
                    None \<Rightarrow> Inr CNull
                  | Some first \<Rightarrow>
                      bindE (sliceBound ''slice end must be an integer'' (int (length items)) stop) (\<lambda>final.
                        case final of
                          None \<Rightarrow> Inr CNull
                        | Some final \<Rightarrow> Inr (CList (sliceItems items first final)))))"

section \<open>CASE, comprehensions and reduce\<close>

fun firstMatch :: "('a \<Rightarrow> bool) \<Rightarrow> ('e + 'a) \<times> ('e + 'b) \<Rightarrow> 'e + 'b \<Rightarrow> 'e + 'b" where
  "firstMatch matches (condition, result) otherwise =
     bindE condition (\<lambda>c. if matches c then result else otherwise)"

definition caseExpression :: "qresult option \<Rightarrow> (qresult \<times> qresult) list \<Rightarrow> qresult \<Rightarrow> qresult" where
  "caseExpression subject alternatives otherwise =
     bindE (case subject of None \<Rightarrow> Inr CNull | Some m \<Rightarrow> m) (\<lambda>operand.
       foldr (firstMatch (\<lambda>condition.
           if subject = None then condition = CBool True else cypherEqual operand condition = Some True))
         alternatives otherwise)"

definition listComprehension ::
    "qresult \<Rightarrow> (cvalue \<Rightarrow> qresult) option \<Rightarrow> (cvalue \<Rightarrow> qresult) option \<Rightarrow> qresult" where
  "listComprehension source test projection =
     bindE source (\<lambda>collection.
       if collection = CNull then Inr CNull
       else case asList collection of
              None \<Rightarrow> Inl (EvalError ''list comprehension expects a list'')
            | Some items \<Rightarrow>
                bindE (mapE (\<lambda>item.
                    bindE (case test of
                             None \<Rightarrow> Inr True
                           | Some p \<Rightarrow> bindE (p item) (keeps ''list comprehension predicate must be boolean'')) (\<lambda>kept.
                      if \<not> kept then Inr []
                      else case projection of
                             None \<Rightarrow> Inr [item] | Some f \<Rightarrow> bindE (f item) (\<lambda>v. Inr [v]))) items) (\<lambda>parts.
                  Inr (CList (concat parts))))"

definition patternComprehension ::
    "(qerror + row list) option \<Rightarrow> (row \<Rightarrow> qresult) option \<Rightarrow> (row \<Rightarrow> qresult) \<Rightarrow> qresult" where
  "patternComprehension patternRows test projection =
     (case patternRows of
        None \<Rightarrow> Inl (EvalError ''pattern comprehension requires a match context'')
      | Some rows \<Rightarrow>
          bindE rows (\<lambda>matches.
            bindE (mapE (\<lambda>m.
                bindE (case test of
                         None \<Rightarrow> Inr True
                       | Some p \<Rightarrow> bindE (p m) (keeps ''pattern comprehension predicate must be boolean'')) (\<lambda>kept.
                  if \<not> kept then Inr [] else bindE (projection m) (\<lambda>v. Inr [v]))) matches) (\<lambda>parts.
              Inr (CList (concat parts)))))"

definition reduceExpression :: "qresult \<Rightarrow> qresult \<Rightarrow> (cvalue \<Rightarrow> cvalue \<Rightarrow> qresult) \<Rightarrow> qresult" where
  "reduceExpression initial source step =
     bindE initial (\<lambda>first.
       bindE source (\<lambda>collection.
         if collection = CNull then Inr CNull
         else case asList collection of
                None \<Rightarrow> Inl (EvalError ''reduce expects a list'')
              | Some items \<Rightarrow> foldE step first items))"

section \<open>List predicates\<close>

definition predicateResult :: "string \<Rightarrow> cvalue list \<Rightarrow> qresult" where
  "predicateResult operator results =
     (let trueCount = length (filter (\<lambda>v. v = CBool True) results);
          falseCount = length (filter (\<lambda>v. v = CBool False) results);
          hasNull = (CNull \<in> set results)
      in if operator = ''any'' then
           Inr (if trueCount > 0 then CBool True else if hasNull then CNull else CBool False)
         else if operator = ''all'' then
           Inr (if falseCount > 0 then CBool False else if hasNull then CNull else CBool True)
         else if operator = ''none'' then
           Inr (if trueCount > 0 then CBool False else if hasNull then CNull else CBool True)
         else if operator = ''single'' then
           Inr (if trueCount > 1 then CBool False else if hasNull then CNull else CBool (trueCount = 1))
         else Inl (EvalError ''unknown list predicate %q''))"

definition listPredicate :: "string \<Rightarrow> qresult \<Rightarrow> (cvalue \<Rightarrow> qresult) \<Rightarrow> qresult" where
  "listPredicate operator source test =
     bindE source (\<lambda>collection.
       if collection = CNull then Inr CNull
       else case asList collection of
              None \<Rightarrow> Inl (EvalError ''%s expects a list'')
            | Some items \<Rightarrow>
                bindE (mapE (\<lambda>item. bindE (test item) (\<lambda>v.
                    if isBoolOrNull v then Inr v else Inl (EvalError ''%s predicate must be boolean''))) items) (\<lambda>results.
                  predicateResult operator results))"

section \<open>Functions\<close>

definition entityIdentity :: "cvalue \<Rightarrow> qresult" where
  "entityIdentity v =
     (case v of
        CNode k _ _ _ _ _ \<Rightarrow> Inr (CString k) | CEdge k _ _ _ _ _ _ _ \<Rightarrow> Inr (CString k) | CNull \<Rightarrow> Inr CNull
      | _ \<Rightarrow> Inl (EvalError ''%s expects a node or relationship''))"

definition shortestOf :: "cvalue list \<Rightarrow> cvalue list" where
  "shortestOf paths = (let sizes = map (\<lambda>p. length (path_edges p)) paths
                       in filter (\<lambda>p. length (path_edges p) = Min (set sizes)) paths)"

definition isPath :: "cvalue \<Rightarrow> bool" where
  "isPath v \<longleftrightarrow> (case v of CPath _ _ \<Rightarrow> True | _ \<Rightarrow> False)"

definition listEnd :: "string \<Rightarrow> cvalue \<Rightarrow> qresult" where
  "listEnd name v =
     (if v = CNull then Inr CNull
      else case asList v of
             None \<Rightarrow> Inl (EvalError ''%s expects a list'')
           | Some items \<Rightarrow>
               if name = ''tail'' then Inr (CList (tl items))
               else if items = [] then Inr CNull
               else Inr (if name = ''head'' then hd items else last items))"

definition textFunction :: "library \<Rightarrow> string \<Rightarrow> cvalue \<Rightarrow> qresult" where
  "textFunction lib name v =
     (case v of
        CNull \<Rightarrow> Inr CNull
      | CString s \<Rightarrow>
          if name = ''tolower'' \<or> name = ''lower'' then Inr (CString (lib_lower lib s))
          else if name = ''toupper'' \<or> name = ''upper'' then Inr (CString (lib_upper lib s))
          else if name = ''trim'' then Inr (CString (lib_trim lib s))
          else if name = ''ltrim'' then Inr (CString (dropWhile trim_space s))
          else Inr (CString (rev (dropWhile trim_space (rev s))))
      | _ \<Rightarrow> Inl (EvalError ''%s expects a string''))"

definition unaryFunctions :: "string list" where
  "unaryFunctions =
     [''id'', ''elementid'', ''labels'', ''type'', ''properties'', ''keys'', ''body'', ''nodes'', ''relationships'', ''exists'',
      ''shortestpath'', ''allshortestpaths'', ''size'', ''length'', ''head'', ''last'', ''tail'', ''tostring'', ''tointeger'',
      ''tofloat'', ''toboolean'', ''tolower'', ''lower'', ''toupper'', ''upper'', ''trim'', ''ltrim'', ''rtrim'', ''reverse'']"

definition unaryFunction :: "('p, 'q) evaluator \<Rightarrow> string \<Rightarrow> cvalue \<Rightarrow> qresult" where
  "unaryFunction e name v =
     (if name = ''id'' \<or> name = ''elementid'' then entityIdentity v
      else if name = ''labels'' then
        (if deletedEntity e v then Inl (EvalError ''cannot access labels of a deleted entity'')
         else case v of
                CNode _ labels _ _ _ _ \<Rightarrow> Inr (CList (map CString labels)) | CNull \<Rightarrow> Inr CNull
              | _ \<Rightarrow> Inl (EvalError ''labels expects a node''))
      else if name = ''type'' then
        (case v of
           CEdge _ _ label _ _ _ _ _ \<Rightarrow> Inr (CString label) | CNull \<Rightarrow> Inr CNull
         | _ \<Rightarrow> Inl (EvalError ''type expects a relationship''))
      else if name = ''properties'' then
        (if v = CNull then Inr CNull
         else if deletedEntity e v then Inl (EvalError ''cannot access properties of a deleted entity'')
         else Inr (case properties v of None \<Rightarrow> CMap [] | Some m \<Rightarrow> CMap m))
      else if name = ''keys'' then
        (if deletedEntity e v then Inl (EvalError ''cannot access properties of a deleted entity'')
         else Inr (case properties v of None \<Rightarrow> CNull | Some m \<Rightarrow> CList (map CString (sortedMapKeys m))))
      else if name = ''body'' then
        (if deletedEntity e v then Inl (EvalError ''cannot access the body of a deleted entity'')
         else case v of
                CNode _ _ _ body _ _ \<Rightarrow> Inr (CString body) | CNull \<Rightarrow> Inr CNull
              | _ \<Rightarrow> Inl (EvalError ''body expects a node''))
      else if name = ''nodes'' \<or> name = ''relationships'' then
        (case v of
           CPath nodes edges \<Rightarrow> Inr (CList (if name = ''nodes'' then nodes else edges)) | CNull \<Rightarrow> Inr CNull
         | _ \<Rightarrow> Inl (EvalError ''%s expects a path''))
      else if name = ''exists'' then Inr (CBool (case v of CBool b \<Rightarrow> b | _ \<Rightarrow> v \<noteq> CNull))
      else if name = ''shortestpath'' \<or> name = ''allshortestpaths'' then
        (case asList v of
           None \<Rightarrow> Inr CNull
         | Some items \<Rightarrow>
             if items = [] then Inr CNull
             else if \<not> list_all isPath items then Inl (EvalError ''%s expects a pattern'')
             else Inr (if name = ''shortestpath'' then hd (shortestOf items) else CList (shortestOf items)))
      else if name = ''size'' \<or> name = ''length'' then
        (case v of
           CString s \<Rightarrow> Inr (int64_length (explode_runes s))
         | CPath _ edges \<Rightarrow> Inr (int64_length edges)
         | CList items \<Rightarrow> Inr (int64_length items)
         | CNull \<Rightarrow> Inr CNull
         | _ \<Rightarrow> Inl (EvalError ''%s expects a string or list''))
      else if name \<in> {''head'', ''last'', ''tail''} then listEnd name v
      else if name \<in> {''tostring'', ''tointeger'', ''tofloat'', ''toboolean''} then convertValue (ev_library e) name v
      else if name = ''reverse'' then
        (case v of
           CNull \<Rightarrow> Inr CNull | CString s \<Rightarrow> Inr (CString (reverseString s)) | CList items \<Rightarrow> Inr (CList (rev items))
         | _ \<Rightarrow> Inl (EvalError ''reverse expects a string or list''))
      else textFunction (ev_library e) name v)"

definition coalesce :: "cvalue list \<Rightarrow> cvalue" where
  "coalesce arguments = (case find (\<lambda>v. v \<noteq> CNull) arguments of None \<Rightarrow> CNull | Some v \<Rightarrow> v)"

definition scalarFunction :: "('p, 'q) evaluator \<Rightarrow> string \<Rightarrow> cvalue list \<Rightarrow> qresult" where
  "scalarFunction e name arguments =
     (if name = ''coalesce'' then Inr (coalesce arguments)
      else if name \<in> set unaryFunctions then
        (case arguments of [v] \<Rightarrow> unaryFunction e name v | _ \<Rightarrow> Inl (EvalError ''%s expects %d argument(s), got %d''))
      else if name = ''replace'' then
        (case arguments of
           [s, old, new] \<Rightarrow>
             if s = CNull \<or> old = CNull \<or> new = CNull then Inr CNull
             else (case (s, old, new) of
                     (CString s, CString old, CString new) \<Rightarrow> Inr (CString (strings_ReplaceAll s old new))
                   | _ \<Rightarrow> Inl (EvalError ''replace expects strings''))
         | _ \<Rightarrow> Inl (EvalError ''replace expects 3 arguments''))
      else if name = ''split'' then
        (case arguments of
           [s, separator] \<Rightarrow>
             if s = CNull \<or> separator = CNull then Inr CNull
             else (case (s, separator) of
                     (CString s, CString separator) \<Rightarrow> Inr (CList (map CString (strings_Split s separator)))
                   | _ \<Rightarrow> Inl (EvalError ''split expects strings''))
         | _ \<Rightarrow> Inl (EvalError ''split expects 2 arguments''))
      else if name = ''substring'' then substring arguments
      else if name = ''range'' then integerRange arguments
      else if name \<in> {''abs'', ''ceil'', ''sqrt'', ''sign''} then numericFunction (ev_library e) name arguments
      else ev_other e name arguments)"

section \<open>The evaluator\<close>

definition binary :: "library \<Rightarrow> string \<Rightarrow> qresult \<Rightarrow> qresult \<Rightarrow> qresult" where
  "binary lib operator l r =
     bindE l (\<lambda>left.
       if operator = ''AND'' \<and> left = CBool False then Inr (CBool False)
       else if operator = ''OR'' \<and> left = CBool True then Inr (CBool True)
       else bindE r (\<lambda>right. binaryValues lib operator left right))"

text \<open>\<open>aggregate\<close>, where \<open>scalar\<close> evaluates an expression on a row outside of a group.\<close>

definition aggregate ::
    "('p, 'q) evaluator \<Rightarrow> string \<Rightarrow> bool \<Rightarrow> bool \<Rightarrow> (row \<Rightarrow> qresult) list \<Rightarrow> row \<Rightarrow> qresult" where
  "aggregate e name distinct_values star scalars representative =
     (case ev_group e of
        None \<Rightarrow> Inl (EvalError ''aggregate function %s is not valid in this expression context'')
      | Some rows \<Rightarrow>
          if name = ''count'' \<and> star then Inr (int64_length rows)
          else case scalars of
                 [] \<Rightarrow> Inl (EvalError ''%s expects an argument'')
               | scalar # rest \<Rightarrow>
                   bindE (mapE scalar rows) (\<lambda>results.
                     aggregateValues (ev_machine e) (ev_library e) name distinct_values results
                       (case rest of [percentile] \<Rightarrow> Some (percentile representative) | _ \<Rightarrow> None)))"

text \<open>\<open>shortestPath(pattern)\<close> goes to its callback.\<close>

definition shortestCall :: "('p, 'q) evaluator \<Rightarrow> string \<Rightarrow> ('p, 'q) expression list \<Rightarrow> ('p \<times> ('p \<Rightarrow> row \<Rightarrow> bool \<Rightarrow> qresult)) option" where
  "shortestCall e name arguments =
     (if name = ''shortestpath'' \<or> name = ''allshortestpaths'' then
        (case (arguments, ev_shortest e) of ([PatternExpression p], Some shortest) \<Rightarrow> Some (p, shortest) | _ \<Rightarrow> None)
      else None)"

fun evaluate :: "('p, 'q) evaluator \<Rightarrow> row \<Rightarrow> ('p, 'q) expression \<Rightarrow> qresult" where
  "evaluate e values NilExpression = Inr CNull"
| "evaluate e values (Literal v) = Inr v"
| "evaluate e values (Variable name) =
     (case values name of None \<Rightarrow> Inl (EvalError ''variable %q is not defined'') | Some v \<Rightarrow> Inr v)"
| "evaluate e values (Parameter name) =
     (case ev_params e name of None \<Rightarrow> Inl (EvalError ''parameter $%s was not supplied'') | Some v \<Rightarrow> Inr v)"
| "evaluate e values (UnaryExpression operator x) =
     bindE (evaluate e values x) (\<lambda>v. unaryValue (lib_upper (ev_library e) operator) v)"
| "evaluate e values (BinaryExpression l operator r) =
     binary (ev_library e) (lib_upper (ev_library e) (lib_trim (ev_library e) operator)) (evaluate e values l) (evaluate e values r)"
| "evaluate e values (IsNullExpression x negate) =
     bindE (evaluate e values x) (\<lambda>v. Inr (CBool ((v = CNull) \<noteq> negate)))"
| "evaluate e values (PropertyExpression x key) =
     bindE (evaluate e values x) (\<lambda>v.
       if deletedEntity e v then Inl (EvalError ''cannot access a property of a deleted entity'')
       else Inr (property v key))"
| "evaluate e values (LabelExpression x labels) =
     bindE (evaluate e values x) (\<lambda>v. if v = CNull then Inr CNull else Inr (CBool (hasLabels v labels)))"
| "evaluate e values (IndexExpression x i) = indexExpression e (evaluate e values x) (evaluate e values i)"
| "evaluate e values (SliceExpression x start stop) =
     sliceExpression (evaluate e values x) (if start = NilExpression then None else Some (evaluate e values start))
       (if stop = NilExpression then None else Some (evaluate e values stop))"
| "evaluate e values (FunctionInvocation rawName distinct_values star arguments) =
     (let name = lib_lower (ev_library e) rawName in
      case shortestCall e name arguments of
        Some (p, shortest) \<Rightarrow> shortest p values (name = ''allshortestpaths'')
      | None \<Rightarrow>
          if isAggregate name
          then aggregate e name distinct_values star (map (\<lambda>x r. evaluate (e\<lparr>ev_group := None\<rparr>) r x) arguments) values
          else bindE (mapE (\<lambda>x. evaluate e values x) arguments) (\<lambda>vs. scalarFunction e name vs))"
| "evaluate e values (ListLiteral elements) =
     bindE (mapE (\<lambda>x. evaluate e values x) elements) (\<lambda>items. Inr (CList items))"
| "evaluate e values (MapLiteral entries) =
     bindE (mapE (\<lambda>(key, x). bindE (evaluate e values x) (\<lambda>v. Inr (key, v))) entries) (\<lambda>items.
       Inr (CMap (AList.clearjunk (rev items))))"
| "evaluate e values (CaseExpression subject alternatives otherwise) =
     caseExpression (if subject = NilExpression then None else Some (evaluate e values subject))
       (map (\<lambda>(test, result). (evaluate e values test, evaluate e values result)) alternatives)
       (evaluate e values otherwise)"
| "evaluate e values (ListComprehension variable source test projection) =
     listComprehension (evaluate e values source)
       (if test = NilExpression then None else Some (\<lambda>item. evaluate e (values(variable \<mapsto> item)) test))
       (if projection = NilExpression then None else Some (\<lambda>item. evaluate e (values(variable \<mapsto> item)) projection))"
| "evaluate e values (PatternComprehension variable p test projection) =
     patternComprehension (map_option (\<lambda>patternRows. patternRows p variable values) (ev_patternRows e))
       (if test = NilExpression then None else Some (\<lambda>m. evaluate e m test)) (\<lambda>m. evaluate e m projection)"
| "evaluate e values (ListPredicate operator variable source test) =
     listPredicate (lib_lower (ev_library e) operator) (evaluate e values source)
       (\<lambda>item. evaluate e (values(variable \<mapsto> item)) test)"
| "evaluate e values (ReduceExpression accumulator initial variable source step) =
     reduceExpression (evaluate e values initial) (evaluate e values source)
       (\<lambda>acc item. evaluate e (values(accumulator \<mapsto> acc, variable \<mapsto> item)) step)"
| "evaluate e values (PatternExpression p) =
     (case ev_pattern e of
        None \<Rightarrow> Inl (EvalError ''graph expression requires a match context'')
      | Some pattern \<Rightarrow> bindE (pattern p values) (\<lambda>paths. Inr (CBool (paths \<noteq> []))))"
| "evaluate e values (ExistsSubquery query) =
     (case ev_subquery e of
        None \<Rightarrow> Inl (EvalError ''EXISTS subquery requires a match context'')
      | Some subquery \<Rightarrow> bindE (subquery query values) (\<lambda>b. Inr (CBool b)))"

declare evaluate.simps [simp del]

end
