(* ===== verification/Temporal_Types.thy ===== *)
theory Temporal_Types
  imports Date_Fields Date_Time_Facts
begin

text \<open>
  Every operation of \<open>internal/domain/temporal\<close> that the query engine calls gives a value in range: the accessors
  are \<open>int64\<close> numbers, and what the arithmetic returns is a valid value whenever it is no error.
\<close>

named_theorems temporal_valid

section \<open>Machine integers\<close>

lemma in64_sdiv [simp]: "in64 n \<Longrightarrow> 0 < r \<Longrightarrow> in64 (n sdiv r)"
proof (cases "0 \<le> n")
  case True
  assume "in64 n" "0 < r"
  then show ?thesis using True by (simp add: sdiv_nonneg in64_div)
next
  case False
  assume n: "in64 n" and r: "0 < r"
  have "(- n) div r \<le> - n" using False r zdiv_mono2 [of "- n" 1 r] by simp
  moreover have "0 \<le> (- n) div r" using False r by (simp add: pos_imp_zdiv_nonneg_iff)
  ultimately show ?thesis using False n r by (simp add: sdiv_neg in64_def)
qed

lemma in64_smod [simp]:
  assumes "in64 n" "0 < r"
  shows "in64 (n smod r)"
proof (cases "0 \<le> n")
  case True
  then have "n smod r = n mod r" using assms by (simp add: smod_nonneg)
  moreover have "n mod r \<le> n" "0 \<le> n mod r" using True assms by (simp_all add: zmod_le_nonneg_dividend)
  ultimately show ?thesis using assms unfolding in64_def by linarith
next
  case False
  then have "n smod r = - ((- n) mod r)" using assms by (simp add: smod_neg)
  moreover have "(- n) mod r \<le> - n" "0 \<le> (- n) mod r" using False assms by (simp_all add: zmod_le_nonneg_dividend)
  ultimately show ?thesis using assms unfolding in64_def by linarith
qed

lemma checked_in64 [temporal_valid]:
  "checkedAdd a b = Inr c \<Longrightarrow> in64 c" "checkedSub a b = Inr c \<Longrightarrow> in64 c" "checkedMul a b = Inr c \<Longrightarrow> in64 c"
proof -
  show add: "checkedAdd a b = Inr c \<Longrightarrow> in64 c" for a b
  proof -
    assume "checkedAdd a b = Inr c"
    then have "c = i64 (a + b)" by (simp add: checkedAdd_def Let_def split: if_splits)
    then show "in64 c" by simp
  qed
  show "checkedSub a b = Inr c \<Longrightarrow> in64 c" by (auto simp: checkedSub_def dest: add split: if_splits)
  show "checkedMul a b = Inr c \<Longrightarrow> in64 c"
  proof -
    assume "checkedMul a b = Inr c"
    then have "c = 0 \<or> c = i64 (a * b)" by (simp add: checkedMul_def Let_def split: if_splits)
    then show "in64 c" by (auto simp: in64_def [of 0])
  qed
qed

section \<open>Dates\<close>

lemma date_fields_in64:
  assumes "valid_date d"
  shows "in64 (Year d)" "in64 (Month d)" "in64 (Day d)" "in64 (Quarter d)" "in64 (OrdinalDay d)" "in64 (WeekDay d)"
    "in64 (DayOfQuarter d)" "in64 (WeekYear d)" "in64 (Week d)"
proof -
  have y: "-999999999 \<le> Year d" "Year d \<le> 999999999" using valid_date_Year [OF assms] by (simp_all add: unit_defs)
  have m: "1 \<le> Month d" "Month d \<le> 12" "1 \<le> Day d" "Day d \<le> daysInMonth (date_year d) (Month d)"
    using assms by (simp_all add: valid_date_def valid_civil_def)
  have "Day d \<le> 31" using m(4) daysInMonth_bounds(2) [of "date_year d" "Month d"] by linarith
  then show "in64 (Year d)" "in64 (Month d)" "in64 (Day d)" using y m by (simp_all add: in64_def)
  show "in64 (Quarter d)" using Quarter_bounds [OF assms] by (simp add: in64_def)
  show "in64 (OrdinalDay d)"
    using OrdinalDay_bounds [OF assms] yearLength_bounds [of "Year d"] by (simp add: in64_def)
  show "in64 (WeekDay d)" using WeekDay_bounds [of d] by (simp add: in64_def)
  show "in64 (DayOfQuarter d)" using DayOfQuarter_bounds [OF assms] quarterLength_bounds(2) [of "Year d" "Quarter d"] by (simp add: in64_def)
  note w = iso_week_fields [OF assms]
  show "in64 (WeekYear d)" using w(1,2) by (simp add: unit_defs in64_def)
  have "Week d \<le> 53" "1 \<le> Week d" using w(3-5) yearLength_weeks [of "WeekYear d"] by linarith+
  then show "in64 (Week d)" by (simp add: in64_def)
qed

lemma DateAdd_valid [temporal_valid]:
  assumes "valid_date d" "in64 (dur_months k)" "in64 (dur_days k)" "DateAdd d k = Inr e"
  shows "valid_date e"
  using assms by (auto simp: DateAdd_def bindE_Inr_iff AddMonths_Inr_iff AddDays_Inr_iff)

lemma DateSubtract_valid [temporal_valid]:
  "valid_date d \<Longrightarrow> DateSubtract d k = Inr e \<Longrightarrow> valid_date e"
  by (auto simp: DateSubtract_def bindE_Inr_iff dest!: checked_in64 elim!: DateAdd_valid [rotated -1])

section \<open>Times\<close>

lemma time_fields_in64:
  assumes "valid_local_time t"
  shows "in64 (Hour t)" "in64 (Minute t)" "in64 (Second t)" "in64 (Millisecond t)" "in64 (Microsecond t)" "in64 (Nanosecond t)"
proof -
  note f = local_time_fields [OF assms]
  show "in64 (Nanosecond t)" using f(7,8) by (simp add: in64_def)
  then show "in64 (Hour t)" "in64 (Minute t)" "in64 (Second t)" "in64 (Millisecond t)" "in64 (Microsecond t)"
    using f by (simp_all add: in64_def [of "Hour t"] in64_def [of "Minute t"] in64_def [of "Second t"] Millisecond_def Microsecond_def)
qed

lemma LocalTime_arithmetic_valid [temporal_valid]:
  "LocalTimeAdd t d = Inr u \<Longrightarrow> valid_local_time u" "LocalTimeSubtract t d = Inr u \<Longrightarrow> valid_local_time u"
  by (simp_all add: LocalTimeAdd_def LocalTimeSubtract_def Let_def)

lemma Time_arithmetic_valid [temporal_valid]:
  "valid_time t \<Longrightarrow> TimeAdd t d = Inr u \<Longrightarrow> valid_time u"
  "valid_time t \<Longrightarrow> TimeSubtract t d = Inr u \<Longrightarrow> valid_time u"
  by (auto simp: TimeAdd_def TimeSubtract_def valid_time_def bindE_Inr_iff dest: LocalTime_arithmetic_valid)

section \<open>Durations\<close>

lemma NewDuration_valid [temporal_valid]:
  assumes "in64 m" "in64 d" "NewDuration m d s n = Inr x"
  shows "valid_duration x"
proof -
  have "i32 (n mod 1000000000) = n mod 1000000000"
    using pos_mod_bound [of 1000000000 n] pos_mod_sign [of 1000000000 n] by (intro i32_id) (simp add: in32_def, linarith)
  then show ?thesis using assms
    by (auto simp: NewDuration_def valid_duration_def unit_defs Let_def dest: checked_in64 split: sum.splits)
qed

lemma duration_arithmetic_valid [temporal_valid]:
  "DurationAdd a b = Inr c \<Longrightarrow> valid_duration c"
  "valid_duration a \<Longrightarrow> valid_duration b \<Longrightarrow> DurationSubtract a b = Inr c \<Longrightarrow> valid_duration c"
  "valid_duration a \<Longrightarrow> Negate a = Inr c \<Longrightarrow> valid_duration c"
  by (auto simp: DurationAdd_def DurationSubtract_Inr_iff Negate_Inr_iff bindE_Inr_iff dest!: checked_in64 dest: NewDuration_valid)

lemma scale_valid [temporal_valid]: "scale d q = Inr x \<Longrightarrow> valid_duration x"
  by (auto simp: scale_def durationFromRationals_def durationFromTotal_Inr_iff splitRat_def Let_def split: if_splits)

lemma quotient_valid: "quotientRemainder t b u = Inr n \<Longrightarrow> in64 n"
  by (auto simp: quotientRemainder_def Let_def split: if_splits)

lemma DurationComponent_in64 [temporal_valid]:
  assumes "valid_duration d" "DurationComponent d name = Inr n"
  shows "in64 n"
  using assms unfolding DurationComponent_def valid_duration_def Let_def
  by (auto split: if_splits dest: quotient_valid)

section \<open>Date-times\<close>

lemma LocalDateTime_arithmetic_valid [temporal_valid]:
  assumes "valid_ldt d" "valid_duration k"
  shows "LocalDateTimeAdd d k = Inr e \<Longrightarrow> valid_ldt e" "LocalDateTimeSubtract d k = Inr e \<Longrightarrow> valid_ldt e"
proof -
  have add: "LocalDateTimeAdd d k = Inr e \<Longrightarrow> valid_ldt e" if "valid_duration k" for k e
  proof -
    assume "LocalDateTimeAdd d k = Inr e"
    then obtain x y n z t where x: "AddMonths (ldt_date d) (dur_months k) = Inr x" "AddDays x (dur_days k) = Inr y"
        "in64 n" "AddDays y n = Inr z" "valid_local_time t" "e = \<lparr>ldt_date = z, ldt_time = t\<rparr>"
      by (auto simp: LocalDateTimeAdd_def bindE_Inr_iff Let_def dest: checked_in64)
    have "valid_date x" using x(1) assms(1) that by (simp add: AddMonths_Inr_iff valid_ldt_def valid_duration_def)
    then have "valid_date y" using x(2) that by (simp add: AddDays_Inr_iff valid_duration_def)
    then have "valid_date z" using x(3,4) by (simp add: AddDays_Inr_iff)
    then show "valid_ldt e" using x(5,6) by (simp add: valid_ldt_def)
  qed
  show "LocalDateTimeSubtract d k = Inr e \<Longrightarrow> valid_ldt e"
    using assms(2) by (auto simp: LocalDateTimeSubtract_def bindE_Inr_iff dest: duration_arithmetic_valid add)
  show "LocalDateTimeAdd d k = Inr e \<Longrightarrow> valid_ldt e" using add assms(2) .
qed

lemma restoreDateTime_valid [temporal_valid]:
  assumes "restoreDateTime es n z = Inr d" "zone_name z = [] \<or> zone_name_ok (zone_name z)"
  shows "valid_datetime d"
proof -
  let ?s = "es + n div 1000000000" and ?n = "n mod 1000000000"
  have i: "i32 ?n = ?n"
    using pos_mod_bound [of 1000000000 n] pos_mod_sign [of 1000000000 n] by (intro i32_id) (simp add: in32_def, linarith)
  from assms i show ?thesis
    by (auto simp: restoreDateTime_def bindE_Inr_iff unit_defs Let_def valid_datetime_def valid_zone_def is_ok_iff
        dest: checked_in64 split: if_splits)
qed

lemma DateTimeFromEpoch_valid [temporal_valid]:
  "DateTimeFromEpochWithDatabase es n tz database = Inr d \<Longrightarrow> valid_datetime d"
  unfolding DateTimeFromEpochWithDatabase_def Let_def
  by (auto simp: bindE_Inr_iff zone_or_zero_def zeroZone_def split: sum.splits option.splits if_splits intro: restoreDateTime_valid)

lemma newNamedDateTime_valid [temporal_valid]:
  assumes "newNamedDateTime l name offset database = Inr d"
  shows "valid_datetime d"
proof -
  have zone: "zone_name (zone_or_zero (ResolvedNamedZone name n)) = [] \<or> zone_name_ok (zone_name (zone_or_zero (ResolvedNamedZone name n)))" for n
    by (auto simp: zone_or_zero_def zeroZone_def split: sum.splits)
  have restored: "restoreDateTime es k (zone_or_zero (ResolvedNamedZone name n)) = Inr d \<Longrightarrow> valid_datetime d" for es k n
    by (rule restoreDateTime_valid [OF _ zone])
  have chosen: "valid_datetime d" if named: "namedWithOffset k name n database = Inr d" for k n
  proof -
    obtain candidates where "(case filter (\<lambda>candidate. snd candidate = n) candidates of [] \<Rightarrow> Inl ErrInvalid
      | candidate # _ \<Rightarrow> restoreDateTime (fst candidate) (Nanosecond (ldt_time k)) (zone_or_zero (ResolvedNamedZone name (snd candidate)))) = Inr d"
      using named unfolding namedWithOffset_def Let_def by (auto simp: bindE_Inr_iff)
    then show ?thesis by (cases "filter (\<lambda>candidate. snd candidate = n) candidates") (auto intro: restored)
  qed
  show ?thesis
  proof (cases offset)
    case (Some n)
    then show ?thesis using assms by (simp add: newNamedDateTime_def chosen)
  next
    case None
    then obtain location and naive :: int and candidates where "(case candidates of candidate # _ \<Rightarrow>
        restoreDateTime (fst candidate) (Nanosecond (ldt_time l)) (zone_or_zero (ResolvedNamedZone name (snd candidate)))
      | [] \<Rightarrow> if location (naive + 259200) \<le> (location (naive - 259200) :: int) then Inl ErrInvalid
              else bindE (LocalDateTimeAdd l \<lparr>dur_months = 0, dur_days = 0,
                  dur_seconds = location (naive + 259200) - location (naive - 259200), dur_nanoseconds = 0\<rparr>)
                (\<lambda>shifted. namedWithOffset shifted name (location (naive + 259200)) database)) = Inr d"
      using assms unfolding newNamedDateTime_def Let_def by (auto simp: bindE_Inr_iff)
    then show ?thesis
      by (cases candidates) (auto simp: bindE_Inr_iff intro: restored chosen split: if_splits)
  qed
qed

lemma newFixedDateTime_valid [temporal_valid]: "newFixedDateTime l offset = Inr d \<Longrightarrow> valid_datetime d"
  by (auto simp: newFixedDateTime_def bindE_Inr_iff intro: restoreDateTime_valid)

lemma DateTime_arithmetic_valid [temporal_valid]:
  assumes "valid_datetime d"
  shows "AddWithDatabase d k database = Inr e \<Longrightarrow> valid_datetime e"
    "SubtractWithDatabase d k database = Inr e \<Longrightarrow> valid_datetime e"
proof -
  have zone: "zone_name (dt_zone d) = [] \<or> zone_name_ok (zone_name (dt_zone d))"
    using assms by (auto simp: valid_datetime_def valid_zone_def)
  show add: "AddWithDatabase d k database = Inr e \<Longrightarrow> valid_datetime e" for k
    using zone by (auto simp: AddWithDatabase_def bindE_Inr_iff Let_def split: if_splits
        intro: restoreDateTime_valid DateTimeFromEpoch_valid)
  show "SubtractWithDatabase d k database = Inr e \<Longrightarrow> valid_datetime e"
    by (auto simp: SubtractWithDatabase_def bindE_Inr_iff dest: add)
qed

end
