(* ===== verification/Query_Types.thy ===== *)
theory Query_Types
  imports Query_Eval Temporal_Types
begin

text \<open>
  The type of the engine's values: evaluating an expression gives a value that is well formed, with 64-bit
  integers, temporal values in range and maps with distinct keys, whenever the rows, parameters, literals and
  callbacks give such values.  One lemma per operator and function, and an induction over the expressions.
\<close>

section \<open>Results that are well formed\<close>

definition well_typed :: "'e + cvalue \<Rightarrow> bool" where
  "well_typed r \<longleftrightarrow> (case r of Inl _ \<Rightarrow> True | Inr v \<Rightarrow> value_ok v)"

lemma well_typed_simps [simp]: "well_typed (Inl e)" "well_typed (Inr v) \<longleftrightarrow> value_ok v"
  by (simp_all add: well_typed_def)

lemma well_typed_iff: "well_typed r \<longleftrightarrow> (\<forall>v. r = Inr v \<longrightarrow> value_ok v)"
  by (cases r) simp_all

lemma well_typed_bind: "(\<And>x. m = Inr x \<Longrightarrow> well_typed (f x)) \<Longrightarrow> well_typed (bindE m f)"
  by (cases m) simp_all

lemma well_typed_bind_value: "well_typed m \<Longrightarrow> (\<And>v. value_ok v \<Longrightarrow> well_typed (f v)) \<Longrightarrow> well_typed (bindE m f)"
  by (cases m) simp_all

lemma well_typed_mapR: "(\<And>x. m = Inr x \<Longrightarrow> value_ok (f x)) \<Longrightarrow> well_typed (mapR f m)"
  by (cases m) (simp_all add: mapR_def)

lemma mapE_values: "\<forall>x \<in> set xs. well_typed (f x) \<Longrightarrow> mapE f xs = Inr vs \<Longrightarrow> list_all value_ok vs"
  by (induction xs arbitrary: vs) (auto simp: bindE_Inr_iff well_typed_iff)

lemma mapE_parts:
  "\<forall>x \<in> set xs. \<forall>ys. f x = Inr ys \<longrightarrow> list_all value_ok ys \<Longrightarrow> mapE f xs = Inr parts \<Longrightarrow> list_all value_ok (concat parts)"
  by (induction xs arbitrary: parts) (auto simp: bindE_Inr_iff)

lemma foldE_typed:
  assumes "\<And>acc x. value_ok acc \<Longrightarrow> value_ok x \<Longrightarrow> well_typed (f acc x)" "value_ok acc" "list_all value_ok xs"
  shows "well_typed (foldE f acc xs)"
  using assms(2,3) by (induction xs arbitrary: acc) (auto intro!: well_typed_bind_value assms(1))

lemma list_all_subset: "list_all P xs \<Longrightarrow> set ys \<subseteq> set xs \<Longrightarrow> list_all P ys"
  by (auto simp: list_all_iff)

lemma map_value:
  assumes "list_all (\<lambda>(_, item). value_ok item) m"
  shows "value_ok (lookup_or_null key m)"
proof (cases "map_of m key")
  case (Some v)
  then show ?thesis using assms map_of_SomeD [OF Some] by (auto simp: lookup_or_null_def list_all_iff)
qed (simp add: lookup_or_null_def)

lemma list_value: "value_ok v \<Longrightarrow> asList v = Some items \<Longrightarrow> list_all value_ok items"
  by (auto simp: asList_def split: cvalue.splits)

lemma map_values: "value_ok v \<Longrightarrow> asMap v = Some m \<Longrightarrow> list_all (\<lambda>(_, item). value_ok item) m"
  by (auto simp: asMap_def split: cvalue.splits)

lemma integer_value: "value_ok v \<Longrightarrow> integer v = Some n \<Longrightarrow> in64 n"
  by (auto simp: integer_def split: cvalue.splits)

lemma number_integer: "number v = Some (x, True) \<longleftrightarrow> (\<exists>n. v = CInt n \<and> x = float_of_int n)"
  by (cases v) (auto simp: number_def)

lemma ternary_typed [simp]: "value_ok (ternary b)"
  by (simp add: ternary_def split: option.split)

lemma negated_typed [simp]: "value_ok (negated v)"
  by (simp add: negated_def split: cvalue.split)

lemma int64_length_typed [simp]: "value_ok (int64_length xs)"
  by (simp add: int64_length_def)

section \<open>Operators\<close>

lemma booleanBinary_typed: "well_typed (booleanBinary operator left right)"
  unfolding booleanBinary_def by (simp split: cvalue.split)

lemma exact_or_overflow_typed [simp]: "well_typed (exact_or_overflow n)"
  by (simp add: exact_or_overflow_def)

lemma integerBinary_typed:
  assumes "in64 l" "in64 r" "operator = ''%'' \<or> operator = ''/'' \<longrightarrow> r \<noteq> 0" "operator \<in> {''+'', ''-'', ''*'', ''%'', ''/''}"
  shows "well_typed (integerBinary operator l r)"
proof -
  have "well_typed (integerBinary ''+'' l r)" "well_typed (integerBinary ''-'' l r)"
    using assms(1,2) by (auto simp: integerBinary_def in64_def)
  then show ?thesis
    using assms integer_product [of l r] integer_quotient [of l r] integer_remainder [of l r] by (auto split: if_splits)
qed

lemma numericBinary_typed:
  assumes "value_ok left" "value_ok right"
  shows "well_typed (numericBinary lib operator left right)"
  using assms unfolding numericBinary_def
  by (auto simp: number_integer integer_def float_of_int_zero intro!: integerBinary_typed split: option.split prod.split)

lemma dateArithmeticDuration_typed:
  assumes "valid_duration d" "dateArithmeticDuration d = Inr e"
  shows "valid_duration e"
proof -
  have "in64 (dur_seconds d sdiv 86400)" "in64 (dur_days d)" "in64 (dur_months d)"
    using assms(1) by (simp_all add: valid_duration_def)
  then show ?thesis using assms(2) unfolding dateArithmeticDuration_def Let_def
    by (auto split: if_splits intro!: NewDuration_valid [of "dur_months d" "dur_days d + dur_seconds d sdiv 86400"] simp: in64_def)
qed

lemma moveTemporal_typed:
  assumes "value_ok v" "valid_duration d" "moveTemporal lib forwards v d = Some r"
  shows "well_typed r"
proof (cases v)
  case (CDate x)
  then have "r = bindE (dateArithmeticDuration d) (\<lambda>adjusted. mapR CDate ((if forwards then DateAdd else DateSubtract) x adjusted))"
    "valid_date x" using assms by (simp_all add: moveTemporal_def)
  moreover have "in64 (dur_months k)" "in64 (dur_days k)" if "dateArithmeticDuration d = Inr k" for k
    using dateArithmeticDuration_typed [OF assms(2) that] by (simp_all add: valid_duration_def)
  ultimately show ?thesis
    by (auto intro!: well_typed_bind well_typed_mapR dest: DateAdd_valid [rotated -1] DateSubtract_valid split: if_splits)
qed (use assms in \<open>auto simp: moveTemporal_def intro!: well_typed_mapR dest: temporal_valid split: if_splits\<close>)

lemma scaled_typed:
  "well_typed (mapR CDuration (Multiply lib d v))" "well_typed (mapR CDuration (Divide lib d v))"
  by (auto simp: Multiply_def Divide_def bindE_Inr_iff intro!: well_typed_mapR dest: scale_valid split: if_splits)

lemma temporalArithmetic_typed:
  assumes "value_ok left" "value_ok right" "temporalArithmetic lib operator left right = Some r"
  shows "well_typed r"
proof -
  have durations: "well_typed (mapR CDuration ((if b then DurationAdd else DurationSubtract) x y))"
    if "valid_duration x" "valid_duration y" for b x y
    using that by (auto intro!: well_typed_mapR dest: duration_arithmetic_valid split: if_splits)
  show ?thesis
  proof (cases "\<exists>d. right = CDuration d")
    case True
    then obtain d where d: "right = CDuration d" "valid_duration d" using assms(2) by auto
    show ?thesis
    proof (cases "\<exists>c. left = CDuration c")
      case True
      then show ?thesis using assms d
        by (auto simp: temporalArithmetic_def Let_def scaled_typed split: if_splits intro: durations
            durations [of _ _ True, simplified] durations [of _ _ False, simplified])
    next
      case False
      then have "temporalArithmetic lib operator left (CDuration d) =
        (case if operator = ''+'' \<or> operator = ''-'' then moveTemporal lib (operator = ''+'') left d else None of
           Some result \<Rightarrow> Some result
         | None \<Rightarrow> if operator = ''*'' \<and> isNumber left then Some (mapR CDuration (Multiply lib d left)) else None)"
        by (cases left) (simp_all add: temporalArithmetic_def Let_def split: option.split)
      then show ?thesis using assms(1,3) d moveTemporal_typed [OF assms(1) d(2)]
        by (auto simp: scaled_typed split: option.splits if_splits)
    qed
  next
    case right: False
    show ?thesis
    proof (cases "\<exists>d. left = CDuration d")
      case True
      then obtain d where d: "left = CDuration d" "valid_duration d" using assms(1) by auto
      then have "temporalArithmetic lib operator (CDuration d) right =
        (case if operator = ''+'' then moveTemporal lib True right d else None of
           Some result \<Rightarrow> Some result
         | None \<Rightarrow> if operator = ''*'' \<and> isNumber right then Some (mapR CDuration (Multiply lib d right))
                   else if operator = ''/'' \<and> isNumber right then Some (mapR CDuration (Divide lib d right)) else None)"
        using right by (cases right) (simp_all add: temporalArithmetic_def Let_def split: option.split)
      then show ?thesis using assms(2,3) d(1) moveTemporal_typed [OF assms(2) d(2)]
        by (auto simp: scaled_typed split: option.splits if_splits)
    next
      case False
      then have "temporalArithmetic lib operator left right = None"
        using right unfolding temporalArithmetic_def Let_def by (auto split: cvalue.split)
      then show ?thesis using assms(3) by simp
    qed
  qed
qed

lemma orEval_typed: "well_typed r \<Longrightarrow> well_typed (orEval message r)"
  by (cases r) (simp_all add: orEval_def)

lemma addValues_typed:
  assumes "value_ok left" "value_ok right"
  shows "well_typed (addValues lib left right)"
proof (cases "left = CNull \<or> right = CNull")
  case False
  show ?thesis
  proof (cases "temporalArithmetic lib ''+'' left right")
    case None
    have "well_typed (case (asList left, asList right) of
        (Some leftList, Some rightList) \<Rightarrow> Inr (CList (leftList @ rightList))
      | (Some leftList, None) \<Rightarrow> Inr (CList (leftList @ [right]))
      | (None, Some rightList) \<Rightarrow> Inr (CList (left # rightList))
      | (None, None) \<Rightarrow> numericBinary lib ''+'' left right)"
      using assms list_value by (auto simp: numericBinary_typed split: option.split)
    then show ?thesis using False None by (auto simp: addValues_def split: cvalue.split)
  next
    case (Some r)
    then show ?thesis using False temporalArithmetic_typed [OF assms Some] by (simp add: addValues_def orEval_typed)
  qed
qed (auto simp: addValues_def)

lemma comparison_typed [simp]: "value_ok (comparisonResult operator left right)" "value_ok (stringTest operator left right)"
  by (simp_all add: comparisonResult_def stringTest_def split: cvalue.split prod.split)

lemma membership_typed: "well_typed (membership l r)"
  by (simp add: membership_def split: option.split)

lemma matchRegexp_typed: "well_typed (matchRegexp lib l r)"
  by (auto simp: matchRegexp_def split: cvalue.split option.split)

lemma temporal_or_numeric_typed:
  assumes "value_ok left" "value_ok right"
  shows "well_typed (case temporalArithmetic lib operator left right of
      Some result \<Rightarrow> orEval message result | None \<Rightarrow> numericBinary lib operator' left right)"
  using assms by (auto simp: numericBinary_typed orEval_typed dest: temporalArithmetic_typed split: option.split)

lemma binaryValues_typed:
  assumes "value_ok left" "value_ok right"
  shows "well_typed (binaryValues lib operator left right)"
  using booleanBinary_typed membership_typed matchRegexp_typed addValues_typed [OF assms] temporal_or_numeric_typed [OF assms]
    numericBinary_typed [OF assms]
  unfolding binaryValues_def by (simp add: well_typed_mapR split del: option.split)

lemma unaryValue_typed: "value_ok v \<Longrightarrow> well_typed (unaryValue operator v)"
  by (auto simp: unaryValue_def in64_def split: cvalue.split)

lemma binary_typed: "well_typed l \<Longrightarrow> well_typed r \<Longrightarrow> well_typed (binary lib operator l r)"
  unfolding binary_def by (auto intro!: well_typed_bind_value intro: binaryValues_typed)

section \<open>Properties\<close>

lemma dateProperty_typed: "valid_date d \<Longrightarrow> dateProperty d key = Some v \<Longrightarrow> value_ok v"
  using date_fields_in64 [of d] by (auto simp: dateProperty_def split: if_splits)

lemma localTimeProperty_typed: "valid_local_time t \<Longrightarrow> localTimeProperty t key = Some v \<Longrightarrow> value_ok v"
  using time_fields_in64 [of t] by (auto simp: localTimeProperty_def split: if_splits)

lemma offsetProperty_typed: "valid_offset n \<Longrightarrow> offsetProperty n key = Some v \<Longrightarrow> value_ok v"
  using valid_offset_in64(1) [of n] by (auto simp: offsetProperty_def split: if_splits)

lemma durationProperty_typed: "valid_duration d \<Longrightarrow> durationProperty d key = Some v \<Longrightarrow> value_ok v"
proof -
  assume d: "valid_duration d"
  then have "in64 (dur_nanoseconds d)" "in64 (dur_seconds d)" by (simp_all add: valid_duration_def in64_def unit_defs)
  then show "durationProperty d key = Some v \<Longrightarrow> value_ok v"
    using DurationComponent_in64 [OF d] by (auto simp: durationProperty_def split: if_splits sum.splits)
qed

lemma dateTimeProperty_typed:
  assumes "valid_datetime d" "dateTimeProperty d key = Some v"
  shows "value_ok v"
proof -
  have l: "valid_date (ldt_date (DateTimeLocal d))" "valid_local_time (ldt_time (DateTimeLocal d))"
    using DateTimeLocal_facts(1) [OF assms(1)] by (simp_all add: valid_ldt_def)
  have o: "valid_offset (zone_offset (dt_zone d))" "in64 (dt_epochSecond d)"
    using assms(1) by (simp_all add: valid_datetime_def valid_zone_def)
  have m: "EpochMillis d = Inr n \<Longrightarrow> in64 n" for n
    by (auto simp: EpochMillis_def bindE_Inr_iff dest: checked_in64)
  show ?thesis using assms(2) o(2) offsetProperty_typed [OF o(1)] dateProperty_typed [OF l(1)] localTimeProperty_typed [OF l(2)]
    by (auto simp: dateTimeProperty_def orNext_def split: option.splits if_splits sum.splits dest: m)
qed

lemma property_typed: "value_ok v \<Longrightarrow> value_ok (property v key)"
  by (cases v) (auto simp: property_def nullable_def orNext_def valid_time_def valid_ldt_def map_value split: option.split
      dest: dateProperty_typed localTimeProperty_typed offsetProperty_typed dateTimeProperty_typed durationProperty_typed)

section \<open>Functions\<close>

lemma rangeLoop_in64: "in64 current \<Longrightarrow> list_all in64 (rangeLoop n current step)"
  by (induction n current step rule: rangeLoop.induct) simp_all

lemma integerRange_typed:
  assumes "list_all value_ok arguments"
  shows "well_typed (integerRange arguments)"
proof (cases "length arguments = 2 \<or> length arguments = 3")
  case True
  then have "value_ok (arguments ! 0)" using assms by (auto simp: list_all_length)
  then have "list_all value_ok (map CInt (rangeLoop n start step))" if "integer (arguments ! 0) = Some start" for n start step
    using rangeLoop_in64 integer_value that by (simp add: list.pred_map comp_def)
  then show ?thesis unfolding integerRange_def Let_def by (auto split: option.split)
qed (simp add: integerRange_def)

lemma numericFunction_typed:
  assumes "list_all value_ok arguments"
  shows "well_typed (numericFunction lib name arguments)"
proof (cases "\<exists>v x isInteger. arguments = [v] \<and> v \<noteq> CNull \<and> number v = Some (x, isInteger)")
  case True
  then obtain v x isInteger where v: "arguments = [v]" "v \<noteq> CNull" "number v = Some (x, isInteger)" by blast
  have small: "in64 (if a then 0 else if b then -1 else if c then 1 else 0)" for a b c by (simp add: in64_def)
  have absolute: "well_typed (if isInteger then (case the (integer v) of exact \<Rightarrow>
      if exact = - 9223372036854775808 then Inl m else Inr (CInt \<bar>exact\<bar>)) else Inr (CFloat (float_abs x)))" for m :: qerror
  proof (cases isInteger)
    case True
    then obtain n where "v = CInt n" using v(3) by (auto simp: number_integer)
    then show ?thesis using assms v(1) by (auto simp: integer_def in64_def)
  qed simp
  note unfolded = numericFunction_def [of lib name "[v]", unfolded list.size nth_Cons_0 v(3) option.case prod.case]
  show ?thesis unfolding v(1) unfolded using v(2) absolute small by (simp only: if_split) simp
next
  case none: False
  show ?thesis
  proof (cases "length arguments = 1")
    case True
    then obtain v where v: "arguments = [v]" by (cases arguments) auto
    show ?thesis
    proof (cases "v = CNull")
      case False
      have "number v = None"
      proof (rule ccontr)
        assume "number v \<noteq> None"
        then obtain p where "number v = Some p" by blast
        then show False using none v False by (cases p) blast
      qed
      then show ?thesis by (simp add: numericFunction_def v)
    qed (simp add: numericFunction_def v)
  qed (simp add: numericFunction_def)
qed

lemma substring_typed: "well_typed (substring arguments)"
proof (cases "arguments ! 0")
  case (CString s)
  then show ?thesis unfolding substring_def Let_def by (cases "integer (arguments ! 1)"; cases "integer (arguments ! 2)") simp_all
qed (simp_all add: substring_def)

lemma truncatedInteger_typed [simp]: "value_ok (truncatedInteger x)"
proof (cases x)
  case (Finite s q)
  let ?v = "signed s q"
  have "in64 (if ?v < 0 then - rat_floor (- ?v) else rat_floor ?v)" if "- 9223372036854775808 \<le> ?v" "?v < 9223372036854775808"
  proof (cases "?v < 0")
    case True
    have "\<lfloor>- ?v\<rfloor> \<le> 9223372036854775808" "0 \<le> \<lfloor>- ?v\<rfloor>" using that True by (simp_all add: floor_le_iff)
    then show ?thesis unfolding rat_floor_floor in64_def if_P [OF True] by linarith
  next
    case False
    have "\<lfloor>?v\<rfloor> < 9223372036854775808" "0 \<le> \<lfloor>?v\<rfloor>" using that False by (simp_all add: floor_less_iff)
    then show ?thesis unfolding rat_floor_floor in64_def if_not_P [OF False] by linarith
  qed
  then show ?thesis using Finite by (simp add: truncatedInteger_def Let_def)
qed (simp_all add: truncatedInteger_def)

lemma convertValue_typed:
  assumes "value_ok v"
  shows "well_typed (convertValue lib name v)"
proof (cases v)
  case (CString s)
  have "parseInt10 s = Some n \<Longrightarrow> in64 n" for n by (simp add: parseInt10_def Let_def split: if_splits)
  then show ?thesis unfolding CString convertValue_def by (simp split: option.split)
qed (use assms in \<open>simp_all add: convertValue_def in64_def [of 0] in64_def [of 1]\<close>)

lemma properties_typed:
  "value_ok v \<Longrightarrow> properties v = Some m \<Longrightarrow> distinct (map fst m) \<and> list_all (\<lambda>(_, item). value_ok item) m"
  by (cases v) (auto simp: properties_def)

lemma strings_typed [simp]: "list_all value_ok (map CString texts)"
  by (induction texts) simp_all

lemma shortestOf_paths:
  assumes "list_all value_ok paths" "paths \<noteq> []"
  shows "list_all value_ok (shortestOf paths)" "shortestOf paths \<noteq> []"
proof -
  let ?sizes = "map (\<lambda>p. length (path_edges p)) paths"
  show "list_all value_ok (shortestOf paths)" using assms(1) by (rule list_all_subset) (auto simp: shortestOf_def)
  have "Min (set ?sizes) \<in> set ?sizes" using assms(2) by (intro Min_in) simp_all
  then show "shortestOf paths \<noteq> []" by (auto simp: shortestOf_def filter_empty_conv)
qed

lemma listEnd_typed:
  assumes "value_ok v"
  shows "well_typed (listEnd name v)"
proof (cases "asList v")
  case (Some items)
  then have "list_all value_ok items" using assms by (rule list_value [rotated])
  then show ?thesis using Some by (cases items) (auto simp: listEnd_def list_all_iff)
qed (simp add: listEnd_def)

lemma textFunction_typed: "well_typed (textFunction lib name v)"
  unfolding textFunction_def by (simp split: cvalue.split)

lemma entityIdentity_typed: "well_typed (entityIdentity v)"
  unfolding entityIdentity_def by (simp split: cvalue.split)

lemma shortestPath_typed:
  assumes "value_ok v"
  shows "well_typed (case asList v of
       None \<Rightarrow> Inr CNull
     | Some items \<Rightarrow>
         if items = [] then Inr CNull
         else if \<not> list_all isPath items then Inl message
         else Inr (if one then hd (shortestOf items) else CList (shortestOf items)))"
proof (cases "asList v")
  case (Some items)
  show ?thesis
  proof (cases "items = []")
    case False
    then have "list_all value_ok (shortestOf items)" "shortestOf items \<noteq> []"
      using shortestOf_paths [OF list_value [OF assms Some]] by simp_all
    moreover from this have "value_ok (hd (shortestOf items))" by (simp add: list_all_iff)
    ultimately show ?thesis using Some by simp
  qed (simp add: Some)
qed simp

lemma unaryFunction_typed:
  assumes "value_ok v"
  shows "well_typed (unaryFunction e name v)"
proof -
  have labels: "well_typed (case v of CNode _ labels _ _ _ _ \<Rightarrow> Inr (CList (map CString labels)) | CNull \<Rightarrow> Inr CNull | _ \<Rightarrow> Inl m)"
    and label: "well_typed (case v of CEdge _ _ label _ _ _ _ _ \<Rightarrow> Inr (CString label) | CNull \<Rightarrow> Inr CNull | _ \<Rightarrow> Inl m)"
    and body: "well_typed (case v of CNode _ _ _ body _ _ \<Rightarrow> Inr (CString body) | CNull \<Rightarrow> Inr CNull | _ \<Rightarrow> Inl m)"
    and path: "well_typed (case v of CPath nodes edges \<Rightarrow> Inr (CList (if b then nodes else edges)) | CNull \<Rightarrow> Inr CNull | _ \<Rightarrow> Inl m)"
    and sizes: "well_typed (case v of CString s \<Rightarrow> Inr (int64_length (explode_runes s)) | CPath _ edges \<Rightarrow> Inr (int64_length edges)
      | CList items \<Rightarrow> Inr (int64_length items) | CNull \<Rightarrow> Inr CNull | _ \<Rightarrow> Inl m)"
    and reversed: "well_typed (case v of CNull \<Rightarrow> Inr CNull | CString s \<Rightarrow> Inr (CString (reverseString s))
      | CList items \<Rightarrow> Inr (CList (rev items)) | _ \<Rightarrow> Inl m)" for m :: qerror and b
    using assms by (cases v; simp)+
  have maps: "value_ok (case properties v of None \<Rightarrow> CMap [] | Some m \<Rightarrow> CMap m)"
    "value_ok (case properties v of None \<Rightarrow> CNull | Some m \<Rightarrow> CList (map CString (sortedMapKeys m)))"
    using properties_typed [OF assms] by (auto split: option.split)
  show ?thesis
    unfolding unaryFunction_def
    by (simp add: labels label body path sizes reversed maps entityIdentity_typed shortestPath_typed [OF assms] listEnd_typed [OF assms]
        convertValue_typed [OF assms] textFunction_typed split del: option.split)
qed

lemma coalesce_typed: "list_all value_ok arguments \<Longrightarrow> value_ok (coalesce arguments)"
  by (auto simp: coalesce_def list_all_iff find_Some_iff split: option.split)

section \<open>Aggregates\<close>

lemma sumLoop_in64: "in64 acc \<Longrightarrow> list_all value_ok vs \<Longrightarrow> sumLoop vs x b acc = Some (y, c, n) \<Longrightarrow> in64 n"
proof (induction vs x b acc rule: sumLoop.induct)
  case (2 v vs x b acc)
  obtain z isInteger where v: "number v = Some (z, isInteger)" using "2.prems"(3) by (auto split: option.splits)
  show ?case
  proof (cases "integer v")
    case None
    then show ?thesis using "2.IH"(1) [OF v refl None] "2.prems" v by simp
  next
    case (Some k)
    have "in64 k" using integer_value Some "2.prems"(2) by auto
    then have "\<not> (k > 0 \<and> acc > 9223372036854775807 - k \<or> k < 0 \<and> acc < - 9223372036854775808 - k) \<Longrightarrow> in64 (acc + k)"
      using "2.prems"(1) unfolding in64_def by linarith
    then show ?thesis using "2.IH"(2-4) [OF v refl Some] "2.prems" v Some by (simp split: if_splits)
  qed
qed simp

lemma sumValues_typed:
  assumes "list_all value_ok vs"
  shows "well_typed (sumValues lib name vs)"
proof -
  have "in64 0" by (simp add: in64_def)
  then show ?thesis using sumLoop_in64 [OF _ assms, of 0] unfolding sumValues_def Let_def
    by (auto split: option.split)
qed

lemma bestOf_member: "bestOf compare smallest best vs \<in> set (best # vs)"
  by (induction vs arbitrary: best) (auto simp: Let_def split: if_splits)

lemma extremeValue_typed:
  assumes "list_all value_ok vs"
  shows "value_ok (extremeValue lib name vs)"
proof (cases vs)
  case (Cons v rest)
  then show ?thesis
    using assms bestOf_member [of "compareOrderValues lib" "name = ''min''" v rest]
    by (auto simp: extremeValue_def list_all_iff)
qed (simp add: extremeValue_def)

lemma percentileOf_typed: "well_typed (percentileOf machine name vs p)"
  unfolding percentileOf_def Let_def
  by (auto intro!: well_typed_bind well_typed_mapR split: option.split prod.split)

lemma aggregateValues_typed:
  assumes "list_all value_ok raw"
  shows "well_typed (aggregateValues machine lib name distinct_values raw percentile)"
proof -
  let ?present = "filter (\<lambda>v. v \<noteq> CNull) raw"
  let ?kept = "if distinct_values then distinctValues lib ?present else ?present"
  have "set ?kept \<subseteq> set raw" using keepFirst_subset [of "valueKey lib" "[]" ?present] by (auto simp: distinctValues_def)
  then have "list_all value_ok ?kept" using assms by (rule list_all_subset [rotated])
  then have "well_typed (sumValues lib name ?kept)" "value_ok (extremeValue lib name ?kept)" "value_ok (CList ?kept)"
    by (simp_all only: sumValues_typed extremeValue_typed value_ok.simps)
  moreover have "well_typed (case percentile of None \<Rightarrow> Inl m | Some r \<Rightarrow> bindE r (\<lambda>p. percentileOf machine name ?kept p))" for m
    by (auto intro!: well_typed_bind percentileOf_typed split: option.split)
  ultimately show ?thesis unfolding aggregateValues_def Let_def by (simp split del: if_split option.split) (simp split del: option.split)
qed

section \<open>Expressions\<close>

definition row_valid :: "row \<Rightarrow> bool" where
  "row_valid values \<longleftrightarrow> (\<forall>v \<in> ran values. value_ok v)"

text \<open>What the surroundings of the evaluator give it: well-formed parameters, rows of the group, matches of a
  pattern, shortest paths and results of the functions that are callbacks.\<close>

definition evaluator_ok :: "('p, 'q) evaluator \<Rightarrow> bool" where
  "evaluator_ok e \<longleftrightarrow>
     row_valid (ev_params e) \<and>
     (\<forall>rows. ev_group e = Some rows \<longrightarrow> list_all row_valid rows) \<and>
     (\<forall>f p variable values rows. ev_patternRows e = Some f \<longrightarrow> row_valid values \<longrightarrow> f p variable values = Inr rows \<longrightarrow>
        list_all row_valid rows) \<and>
     (\<forall>f p values all_paths. ev_shortest e = Some f \<longrightarrow> row_valid values \<longrightarrow> well_typed (f p values all_paths)) \<and>
     (\<forall>name arguments. list_all value_ok arguments \<longrightarrow> well_typed (ev_other e name arguments))"

fun literals_ok :: "('p, 'q) expression \<Rightarrow> bool" where
  "literals_ok (Literal v) = value_ok v"
| "literals_ok (UnaryExpression _ x) = literals_ok x"
| "literals_ok (BinaryExpression l _ r) = (literals_ok l \<and> literals_ok r)"
| "literals_ok (IsNullExpression x _) = literals_ok x"
| "literals_ok (PropertyExpression x _) = literals_ok x"
| "literals_ok (LabelExpression x _) = literals_ok x"
| "literals_ok (IndexExpression x i) = (literals_ok x \<and> literals_ok i)"
| "literals_ok (SliceExpression x a b) = (literals_ok x \<and> literals_ok a \<and> literals_ok b)"
| "literals_ok (FunctionInvocation _ _ _ arguments) = list_all literals_ok arguments"
| "literals_ok (ListLiteral elements) = list_all literals_ok elements"
| "literals_ok (MapLiteral entries) = list_all (\<lambda>(_, x). literals_ok x) entries"
| "literals_ok (CaseExpression x alternatives otherwise) =
     (literals_ok x \<and> list_all (\<lambda>(test, result). literals_ok test \<and> literals_ok result) alternatives \<and> literals_ok otherwise)"
| "literals_ok (ListComprehension _ x test projection) = (literals_ok x \<and> literals_ok test \<and> literals_ok projection)"
| "literals_ok (PatternComprehension _ _ test projection) = (literals_ok test \<and> literals_ok projection)"
| "literals_ok (ListPredicate _ _ x test) = (literals_ok x \<and> literals_ok test)"
| "literals_ok (ReduceExpression _ initial _ x step) = (literals_ok initial \<and> literals_ok x \<and> literals_ok step)"
| "literals_ok _ = True"

lemma row_valid_update: "row_valid values \<Longrightarrow> value_ok v \<Longrightarrow> row_valid (values(name \<mapsto> v))"
  by (auto simp: row_valid_def ran_def)

lemma row_valid_lookup: "row_valid values \<Longrightarrow> values name = Some v \<Longrightarrow> value_ok v"
  by (auto simp: row_valid_def ran_def)

lemma indexValue_typed:
  assumes "value_ok collection"
  shows "well_typed (indexValue e collection i)"
proof -
  have "value_ok (items ! nat (normalizedIndex n (int (length items))))"
    if "asList collection = Some items" "\<not> normalizedIndex n (int (length items)) < 0"
      "\<not> int (length items) \<le> normalizedIndex n (int (length items))" for items n
    using list_value [OF assms that(1)] that(2,3) by (auto simp: list_all_length)
  moreover have "value_ok (lookup_or_null key m)" if "asMap collection = Some m" for key m
    using map_values [OF assms that] by (rule map_value)
  moreover note property_typed [OF assms]
  ultimately show ?thesis unfolding indexValue_def Let_def by (simp split: option.split cvalue.split)
qed

lemma indexExpression_typed: "well_typed source \<Longrightarrow> well_typed position \<Longrightarrow> well_typed (indexExpression e source position)"
  unfolding indexExpression_def by (auto intro!: well_typed_bind_value indexValue_typed)

lemma sliceItems_subset: "set (sliceItems items a b) \<subseteq> set items"
  by (auto simp: sliceItems_def Let_def dest!: in_set_takeD in_set_dropD)

lemma sliceExpression_typed:
  assumes "well_typed source"
  shows "well_typed (sliceExpression source start stop)"
proof -
  have "well_typed (case asList collection of None \<Rightarrow> Inl m | Some items \<Rightarrow>
      bindE (f items) (\<lambda>first. case first of None \<Rightarrow> Inr CNull | Some first \<Rightarrow>
        bindE (g items) (\<lambda>final. case final of None \<Rightarrow> Inr CNull | Some final \<Rightarrow> Inr (CList (sliceItems items first final)))))"
    if "value_ok collection" for collection f g and m :: qerror
    using list_value [OF that] list_all_subset [OF _ sliceItems_subset]
    by (auto intro!: well_typed_bind split: option.split)
  then show ?thesis using assms unfolding sliceExpression_def by (auto intro!: well_typed_bind_value)
qed

lemma caseExpression_typed:
  assumes "\<forall>(condition, result) \<in> set alternatives. well_typed result" "well_typed otherwise"
  shows "well_typed (caseExpression subject alternatives otherwise)"
proof -
  have "well_typed (foldr (firstMatch matches) alternatives otherwise)" for matches
    using assms by (induction alternatives) (auto intro!: well_typed_bind)
  then show ?thesis unfolding caseExpression_def by (intro well_typed_bind)
qed

lemma listComprehension_typed:
  assumes "well_typed source" "\<And>f item. projection = Some f \<Longrightarrow> value_ok item \<Longrightarrow> well_typed (f item)"
  shows "well_typed (listComprehension source test projection)"
proof -
  let ?part = "\<lambda>item. bindE (case test of None \<Rightarrow> Inr True
      | Some p \<Rightarrow> bindE (p item) (keeps ''list comprehension predicate must be boolean'')) (\<lambda>kept.
        if \<not> kept then Inr [] else case projection of None \<Rightarrow> Inr [item] | Some f \<Rightarrow> bindE (f item) (\<lambda>v. Inr [v]))"
  have part: "list_all value_ok vs" if "value_ok item" "?part item = Inr vs" for item vs
    using that assms(2) by (auto simp: bindE_Inr_iff well_typed_iff split: if_splits option.splits)
  have "well_typed (case asList collection of None \<Rightarrow> Inl m | Some items \<Rightarrow>
      bindE (mapE ?part items) (\<lambda>parts. Inr (CList (concat parts))))"
    if collection: "value_ok collection" for collection and m :: qerror
  proof (cases "asList collection")
    case (Some items)
    have "\<forall>item \<in> set items. \<forall>vs. ?part item = Inr vs \<longrightarrow> list_all value_ok vs"
      using list_value [OF collection Some] part unfolding list_all_iff by blast
    then show ?thesis using Some by (auto intro!: well_typed_bind dest: mapE_parts)
  qed simp
  then show ?thesis using assms(1) unfolding listComprehension_def by (auto intro!: well_typed_bind_value)
qed

lemma patternComprehension_typed:
  assumes "\<And>matches. patternRows = Some (Inr matches) \<Longrightarrow> list_all row_valid matches"
    "\<And>m. row_valid m \<Longrightarrow> well_typed (projection m)"
  shows "well_typed (patternComprehension patternRows test projection)"
proof (cases patternRows)
  case (Some rows)
  let ?part = "\<lambda>m. bindE (case test of None \<Rightarrow> Inr True
      | Some p \<Rightarrow> bindE (p m) (keeps ''pattern comprehension predicate must be boolean'')) (\<lambda>kept.
        if \<not> kept then Inr [] else bindE (projection m) (\<lambda>v. Inr [v]))"
  have part: "list_all value_ok vs" if "row_valid m" "?part m = Inr vs" for m vs
    using that assms(2) by (auto simp: bindE_Inr_iff well_typed_iff split: if_splits)
  have each: "well_typed (bindE (mapE ?part matches) (\<lambda>parts. Inr (CList (concat parts))))" if matches: "rows = Inr matches" for matches
  proof -
    have "\<forall>m \<in> set matches. \<forall>vs. ?part m = Inr vs \<longrightarrow> list_all value_ok vs"
      using assms(1) [of matches] Some matches part unfolding list_all_iff by blast
    then show ?thesis by (auto intro!: well_typed_bind dest: mapE_parts)
  qed
  show ?thesis unfolding patternComprehension_def Some option.case by (rule well_typed_bind) (rule each)
qed (simp add: patternComprehension_def)

lemma reduceExpression_typed:
  assumes "well_typed initial" "well_typed source"
    "\<And>acc item. value_ok acc \<Longrightarrow> value_ok item \<Longrightarrow> well_typed (step acc item)"
  shows "well_typed (reduceExpression initial source step)"
  unfolding reduceExpression_def
  using assms list_value foldE_typed [of step, OF assms(3)]
  by (auto intro!: well_typed_bind_value split: option.split)

lemma listPredicate_typed: "well_typed (listPredicate operator source test)"
  unfolding listPredicate_def predicateResult_def Let_def
  by (auto intro!: well_typed_bind split: option.split)

lemma scalarFunction_typed:
  assumes "evaluator_ok e" "list_all value_ok arguments"
  shows "well_typed (scalarFunction e name arguments)"
proof -
  have other: "well_typed (ev_other e name arguments)" using assms by (simp add: evaluator_ok_def)
  have unary: "well_typed (case arguments of [v] \<Rightarrow> unaryFunction e name v | _ \<Rightarrow> Inl m)" for m
    using assms(2) by (auto intro: unaryFunction_typed split: list.split)
  have replaced: "well_typed (case arguments of [s, old, new] \<Rightarrow>
      if s = CNull \<or> old = CNull \<or> new = CNull then Inr CNull
      else (case (s, old, new) of (CString s, CString old, CString new) \<Rightarrow> Inr (CString (strings_ReplaceAll s old new)) | _ \<Rightarrow> Inl m)
    | _ \<Rightarrow> Inl n)" for m n :: qerror
    by (auto split: list.split cvalue.split)
  have parts: "well_typed (case arguments of [s, separator] \<Rightarrow>
      if s = CNull \<or> separator = CNull then Inr CNull
      else (case (s, separator) of (CString s, CString separator) \<Rightarrow> Inr (CList (map CString (strings_Split s separator))) | _ \<Rightarrow> Inl m)
    | _ \<Rightarrow> Inl n)" for m n :: qerror
    by (auto split: list.split cvalue.split)
  show ?thesis unfolding scalarFunction_def
    by (simp only: if_split) (simp only: other unary replaced parts coalesce_typed [OF assms(2)] substring_typed
        integerRange_typed [OF assms(2)] numericFunction_typed [OF assms(2)] well_typed_simps simp_thms)
qed

lemma aggregate_typed:
  assumes "evaluator_ok e" "\<forall>scalar \<in> set scalars. \<forall>r. row_valid r \<longrightarrow> well_typed (scalar r)"
  shows "well_typed (aggregate e name distinct_values star scalars representative)"
proof (cases "ev_group e")
  case (Some rows)
  then have rows: "list_all row_valid rows" using assms(1) by (simp add: evaluator_ok_def)
  show ?thesis
  proof (cases scalars)
    case (Cons scalar rest)
    have "\<forall>r \<in> set rows. well_typed (scalar r)" using rows assms(2) Cons by (simp add: list_all_iff)
    then show ?thesis using Some Cons unfolding aggregate_def
      by (auto intro!: well_typed_bind aggregateValues_typed dest: mapE_values)
  qed (simp add: aggregate_def Some)
qed (simp add: aggregate_def)

lemma evaluator_ok_scalar: "evaluator_ok e \<Longrightarrow> evaluator_ok (e\<lparr>ev_group := None\<rparr>)"
  by (simp add: evaluator_ok_def)

lemma map_literal_typed:
  assumes "mapE (\<lambda>(key, x). bindE (f x) (\<lambda>v. Inr (key, v))) entries = Inr items"
    "\<forall>(key, x) \<in> set entries. well_typed (f x)"
  shows "value_ok (CMap (AList.clearjunk (rev items)))"
proof -
  have "list_all (\<lambda>(_, v). value_ok v) items"
    using assms by (induction entries arbitrary: items) (auto simp: bindE_Inr_iff well_typed_iff)
  moreover have "set (AList.clearjunk (rev items)) \<subseteq> set items"
    using map_of_SomeD by (fastforce simp: graph_map_of [symmetric] Map.graph_def)
  ultimately show ?thesis by (auto simp: list_all_iff)
qed

lemma evaluate_typed: "evaluator_ok e \<Longrightarrow> row_valid values \<Longrightarrow> literals_ok x \<Longrightarrow> well_typed (evaluate e values x)"
proof (induction x arbitrary: e "values")
  case (Variable name)
  then show ?case by (auto simp: evaluate.simps dest: row_valid_lookup split: option.split)
next
  case (Parameter name)
  then show ?case by (auto simp: evaluate.simps evaluator_ok_def dest: row_valid_lookup split: option.split)
next
  case (UnaryExpression operator x)
  then show ?case by (auto simp: evaluate.simps intro!: well_typed_bind_value unaryValue_typed)
next
  case (BinaryExpression l operator r)
  then show ?case by (auto simp: evaluate.simps intro!: binary_typed)
next
  case (PropertyExpression x key)
  then show ?case by (auto simp: evaluate.simps intro!: well_typed_bind_value property_typed)
next
  case (IndexExpression x i)
  then show ?case by (auto simp: evaluate.simps intro!: indexExpression_typed)
next
  case (SliceExpression x a b)
  then show ?case by (auto simp: evaluate.simps intro!: sliceExpression_typed)
next
  case (FunctionInvocation rawName distinct_values star arguments)
  let ?name = "lib_lower (ev_library e) rawName"
  have arguments: "well_typed (evaluate d r x)" if "x \<in> set arguments" "evaluator_ok d" "row_valid r" for d r x
    using FunctionInvocation.IH [OF that(1-3)] FunctionInvocation.prems(3) that(1) by (simp add: list_all_iff)
  show ?case
  proof (cases "shortestCall e ?name arguments")
    case None
    have "well_typed (aggregate e ?name distinct_values star
        (map (\<lambda>x r. evaluate (e\<lparr>ev_group := None\<rparr>) r x) arguments) values)"
      using FunctionInvocation.prems(1) by (auto intro!: aggregate_typed arguments evaluator_ok_scalar)
    moreover have "well_typed (bindE (mapE (\<lambda>x. evaluate e values x) arguments) (\<lambda>vs. scalarFunction e ?name vs))"
      using arguments FunctionInvocation.prems(1,2)
      by (auto intro!: well_typed_bind scalarFunction_typed mapE_values [of arguments "evaluate e values"])
    ultimately show ?thesis using None by (simp add: evaluate.simps Let_def)
  next
    case (Some call)
    obtain p f where call: "call = (p, f)" by (cases call)
    then have "ev_shortest e = Some f"
      using Some by (auto simp: shortestCall_def split: if_splits list.splits option.splits expression.splits)
    then show ?thesis using Some call FunctionInvocation.prems(1,2) by (simp add: evaluate.simps evaluator_ok_def Let_def)
  qed
next
  case (ListLiteral elements)
  then have "\<forall>x \<in> set elements. well_typed (evaluate e values x)" by (simp add: list_all_iff)
  then show ?case by (auto simp: evaluate.simps intro!: well_typed_bind dest: mapE_values)
next
  case (MapLiteral entries)
  then have "\<forall>(key, x) \<in> set entries. well_typed (evaluate e values x)" by (fastforce simp: list_all_iff)
  then show ?case by (auto simp: evaluate.simps simp del: value_ok.simps intro!: well_typed_bind map_literal_typed)
next
  case (CaseExpression subject alternatives otherwise)
  then have "\<forall>(test, result) \<in> set alternatives. well_typed (evaluate e values result)" by (fastforce simp: list_all_iff)
  then show ?case using CaseExpression by (auto simp: evaluate.simps intro!: caseExpression_typed)
next
  case (ListComprehension variable source test projection)
  have literals: "literals_ok source" "literals_ok projection" using ListComprehension.prems(3) by simp_all
  have projected: "well_typed (evaluate e (values(variable \<mapsto> item)) projection)" if "value_ok item" for item
    by (rule ListComprehension.IH(3) [OF ListComprehension.prems(1) row_valid_update [OF ListComprehension.prems(2) that] literals(2)])
  show ?case unfolding evaluate.simps
    by (rule listComprehension_typed [OF ListComprehension.IH(1) [OF ListComprehension.prems(1,2) literals(1)]])
      (auto intro: projected split: if_splits)
next
  case (PatternComprehension variable p test projection)
  then show ?case by (auto simp: evaluate.simps evaluator_ok_def intro!: patternComprehension_typed split: if_splits)
next
  case (ListPredicate operator variable source test)
  then show ?case by (simp add: evaluate.simps listPredicate_typed)
next
  case (ReduceExpression accumulator initial variable source step)
  have literals: "literals_ok initial" "literals_ok source" "literals_ok step" using ReduceExpression.prems(3) by simp_all
  have stepped: "well_typed (evaluate e (values(accumulator \<mapsto> acc, variable \<mapsto> item)) step)"
    if "value_ok acc" "value_ok item" for acc item
    by (rule ReduceExpression.IH(3) [OF ReduceExpression.prems(1) row_valid_update [OF row_valid_update [OF ReduceExpression.prems(2) that(1)] that(2)]
          literals(3)])
  show ?case unfolding evaluate.simps
    by (rule reduceExpression_typed [OF ReduceExpression.IH(1) [OF ReduceExpression.prems(1,2) literals(1)]
          ReduceExpression.IH(2) [OF ReduceExpression.prems(1,2) literals(2)] stepped])
qed (auto simp: evaluate.simps intro!: well_typed_bind split: option.split)

text \<open>C40: Evaluation keeps the type of the engine's values: an expression that gives a value gives a well-formed one (no
  integer outside 64 bits, no date, time, date-time or duration that its constructor refuses, no map with a key twice),
  provided that the row, the parameters, the rows of the group and the literals hold well-formed values and that the
  callbacks give such values.  What is proved is that the operators, property and index access, slices,
  comprehensions, list predicates, reduce, CASE, the aggregates and the functions that the model defines keep the
  type.  Assumed, not proved, is the same of the callbacks: graph patterns, subqueries, shortest paths, and the functions
  that build or truncate temporal values, measure between them, read the clock, draw random numbers or give the
  endpoints of a relationship.\<close>

theorem evaluation_well_typed:
  assumes "evaluator_ok e" "row_valid values" "literals_ok x" "evaluate e values x = Inr v"
  shows "value_ok v"
  using evaluate_typed [OF assms(1-3)] assms(4) by simp

text \<open>The expression is \<open>[x IN [1, 2] | x + n]\<close> on the row with \<open>n = 40\<close>.\<close>

definition sample_evaluator :: "library \<Rightarrow> (unit, unit) evaluator" where
  "sample_evaluator lib =
     \<lparr>ev_library = lib\<lparr>lib_upper := (\<lambda>s. s), lib_trim := (\<lambda>s. s)\<rparr>, ev_machine = (\<lambda>_. 0), ev_params = Map.empty,
      ev_group = None, ev_graph = None, ev_pattern = None, ev_patternRows = None, ev_subquery = None, ev_shortest = None,
      ev_other = (\<lambda>_ _. Inr CNull)\<rparr>"

definition sample_expression :: "(unit, unit) expression" where
  "sample_expression =
     ListComprehension ''x'' (ListLiteral [Literal (CInt 1), Literal (CInt 2)]) NilExpression
       (BinaryExpression (Variable ''x'') ''+'' (Variable ''n''))"

lemma sample_sum:
  assumes "in64 l" "in64 r" "in64 (l + r)"
  shows "binaryValues lib ''+'' (CInt l) (CInt r) = Inr (CInt (l + r))"
proof -
  have "\<not> (r > 0 \<and> l > 9223372036854775807 - r \<or> r < 0 \<and> l < - 9223372036854775808 - r)"
    using assms unfolding in64_def by linarith
  then show ?thesis
    by (simp add: binaryValues_def addValues_def temporalArithmetic_def Let_def asList_def numericBinary_integers integerBinary_def)
qed

theorem evaluation_well_typed_witness:
  "\<forall>lib. evaluate (sample_evaluator lib) [''n'' \<mapsto> CInt 40] sample_expression = Inr (CList [CInt 41, CInt 42]) \<and>
     value_ok (CList [CInt 41, CInt 42])"
proof
  fix lib
  have small: "in64 40" "in64 1" "in64 2" "in64 41" "in64 42" by (simp_all add: in64_def)
  let ?row = "[''n'' \<mapsto> CInt 40]"
  have env: "evaluator_ok (sample_evaluator lib)" by (simp add: evaluator_ok_def sample_evaluator_def row_valid_def)
  have lits: "literals_ok sample_expression" by (simp add: sample_expression_def small)
  have row: "row_valid ?row" by (simp add: row_valid_def small)
  have sums: "binaryValues l ''+'' (CInt 1) (CInt 40) = Inr (CInt 41)" "binaryValues l ''+'' (CInt 2) (CInt 40) = Inr (CInt 42)" for l
    using sample_sum [of 1 40 l] sample_sum [of 2 40 l] small by simp_all
  have result: "evaluate (sample_evaluator lib) ?row sample_expression = Inr (CList [CInt 41, CInt 42])"
    by (simp add: sample_expression_def sample_evaluator_def evaluate.simps listComprehension_def asList_def binary_def sums)
  show "evaluate (sample_evaluator lib) ?row sample_expression = Inr (CList [CInt 41, CInt 42]) \<and> value_ok (CList [CInt 41, CInt 42])"
    using result evaluation_well_typed [OF env row lits result] by (rule conjI)
qed

end
