(* ===== verification/Graph_Match.thy ===== *)
theory Graph_Match
  imports Query_Eval
begin

text \<open>
  Pattern matching, \<open>internal/engine/match.go\<close>, over the graph in memory of \<open>internal/engine/graph.go\<close>.  A node or
  relationship is its value, identified by its key.  The code passes the path of a match to its caller under a key
  of the row that no variable can have; here the matcher returns it beside the row.  The budgets of rows and of path
  expansions, which only turn a result into an error, are not modelled.
\<close>

section \<open>The graph in memory\<close>

text \<open>Maps that the code iterates over are association lists; a nil map is \<open>None\<close>.\<close>

type_synonym entity_table = "(string \<times> cvalue) list"

record memoryGraph =
  mg_nodes :: entity_table
  mg_edges :: entity_table
  mg_outgoing :: "string \<Rightarrow> cvalue list"
  mg_incoming :: "string \<Rightarrow> cvalue list"
  mg_labels :: "string \<Rightarrow> entity_table option"
  mg_properties :: "string \<Rightarrow> string \<Rightarrow> entity_table option"

definition emptyGraph :: memoryGraph where
  "emptyGraph =
     \<lparr>mg_nodes = [], mg_edges = [], mg_outgoing = (\<lambda>_. []), mg_incoming = (\<lambda>_. []), mg_labels = (\<lambda>_. None),
      mg_properties = (\<lambda>_ _. None)\<rparr>"

definition enter :: "cvalue \<Rightarrow> entity_table option \<Rightarrow> entity_table option" where
  "enter node m = Some (AList.update (node_key node) node (case m of None \<Rightarrow> [] | Some entries \<Rightarrow> entries))"

definition indexNodeProperty :: "library \<Rightarrow> memoryGraph \<Rightarrow> cvalue \<Rightarrow> string \<Rightarrow> cvalue \<Rightarrow> memoryGraph" where
  "indexNodeProperty lib g node key v =
     (if v = CNull then g
      else g\<lparr>mg_properties := (mg_properties g)(key := (mg_properties g key)(valueKey lib v := enter node (mg_properties g key (valueKey lib v))))\<rparr>)"

definition indexNodeLabel :: "memoryGraph \<Rightarrow> cvalue \<Rightarrow> string \<Rightarrow> memoryGraph" where
  "indexNodeLabel g node label = g\<lparr>mg_labels := (mg_labels g)(label := enter node (mg_labels g label))\<rparr>"

definition indexNode :: "library \<Rightarrow> memoryGraph \<Rightarrow> cvalue \<Rightarrow> memoryGraph" where
  "indexNode lib g node =
     (let labelled = foldl (\<lambda>g label. indexNodeLabel g node label) g (node_tags node)
      in foldl (\<lambda>g (key, v). indexNodeProperty lib g node key v) labelled (node_map node @ [(''body'', CString (node_text node))]))"

definition addNode :: "library \<Rightarrow> memoryGraph \<Rightarrow> cvalue \<Rightarrow> memoryGraph" where
  "addNode lib g node = indexNode lib (g\<lparr>mg_nodes := AList.update (node_key node) node (mg_nodes g)\<rparr>) node"

definition addEdge :: "memoryGraph \<Rightarrow> cvalue \<Rightarrow> memoryGraph" where
  "addEdge g edge =
     g\<lparr>mg_edges := AList.update (edge_key edge) edge (mg_edges g),
       mg_outgoing := (mg_outgoing g)(edge_start edge := mg_outgoing g (edge_start edge) @ [edge]),
       mg_incoming := (mg_incoming g)(edge_end edge := mg_incoming g (edge_end edge) @ [edge])\<rparr>"

definition sortAdjacency :: "memoryGraph \<Rightarrow> memoryGraph" where
  "sortAdjacency g =
     g\<lparr>mg_outgoing := (\<lambda>k. sort_key edge_key (mg_outgoing g k)), mg_incoming := (\<lambda>k. sort_key edge_key (mg_incoming g k))\<rparr>"

definition newMemoryGraph :: "library \<Rightarrow> cvalue list \<Rightarrow> cvalue list \<Rightarrow> memoryGraph" where
  "newMemoryGraph lib nodes edges = sortAdjacency (foldl addEdge (foldl (addNode lib) emptyGraph nodes) edges)"

definition nodePointers :: "memoryGraph \<Rightarrow> cvalue list" where
  "nodePointers g = map snd (sort_key fst (mg_nodes g))"

section \<open>Patterns\<close>

datatype direction = Undirected | Outgoing | Incoming | Bidirectional

record ('p, 'q) node_pattern =
  np_variable :: string
  np_labels :: "string list"
  np_properties :: "('p, 'q) expression"

record ('p, 'q) rel_length =
  len_lower :: "('p, 'q) expression"
  len_upper :: "('p, 'q) expression"
  len_exact :: bool

record ('p, 'q) rel_pattern =
  rp_variable :: string
  rp_types :: "string list"
  rp_length :: "('p, 'q) rel_length option"
  rp_properties :: "('p, 'q) expression"
  rp_direction :: direction

record ('p, 'q) element =
  el_nodes :: "('p, 'q) node_pattern list"
  el_rels :: "('p, 'q) rel_pattern list"

record ('p, 'q) pattern_part =
  pp_variable :: string
  pp_element :: "('p, 'q) element"

type_synonym path = "cvalue list \<times> cvalue list"

definition path_value :: "path \<Rightarrow> cvalue" where
  "path_value p = CPath (fst p) (snd p)"

section \<open>Bindings\<close>

definition sameBinding :: "cvalue \<Rightarrow> cvalue \<Rightarrow> bool" where
  "sameBinding left right \<longleftrightarrow>
     (case left of
        CNode k _ _ _ _ _ \<Rightarrow> (case right of CNode j _ _ _ _ _ \<Rightarrow> k = j | _ \<Rightarrow> False)
      | CEdge k _ _ _ _ _ _ _ \<Rightarrow> (case right of CEdge j _ _ _ _ _ _ _ \<Rightarrow> k = j | _ \<Rightarrow> False)
      | CPath nodes edges \<Rightarrow> (case right of CPath nodes' edges' \<Rightarrow> equalPath (nodes, edges) (nodes', edges') | _ \<Rightarrow> False)
      | _ \<Rightarrow> equalValues left right)"

definition bindValue :: "row \<Rightarrow> string \<Rightarrow> cvalue \<Rightarrow> row option" where
  "bindValue values name v =
     (if name = [] then Some values
      else case values name of
             None \<Rightarrow> Some (values(name \<mapsto> v))
           | Some current \<Rightarrow> if sameBinding current v then Some values else None)"

section \<open>Entities and patterns\<close>

definition mapMatches :: "cvalue \<Rightarrow> (string \<times> cvalue) list \<Rightarrow> bool" where
  "mapMatches entity expected \<longleftrightarrow>
     list_all (\<lambda>(key, v). let actual = property entity key in actual \<noteq> CNull \<and> v \<noteq> CNull \<and> equalValues actual v) expected"

definition labelsMatch :: "cvalue \<Rightarrow> string list \<Rightarrow> bool" where
  "labelsMatch node labels \<longleftrightarrow> list_all (\<lambda>label. label \<in> set (node_tags node)) labels"

definition expectedProperties ::
    "('p, 'q) evaluator \<Rightarrow> row \<Rightarrow> ('p, 'q) expression \<Rightarrow> qerror + (string \<times> cvalue) list" where
  "expectedProperties e values x =
     (if x = NilExpression then Inr []
      else bindE (evaluate e values x) (\<lambda>expected.
        case expected of CMap m \<Rightarrow> Inr m | _ \<Rightarrow> Inl (EvalError ''pattern properties must evaluate to a map'')))"

definition nodeMatchesExpected :: "cvalue \<Rightarrow> string list \<Rightarrow> (string \<times> cvalue) list \<Rightarrow> bool" where
  "nodeMatchesExpected node labels expected \<longleftrightarrow> labelsMatch node labels \<and> mapMatches node expected"

definition propertiesMatch :: "('p, 'q) evaluator \<Rightarrow> row \<Rightarrow> cvalue \<Rightarrow> ('p, 'q) expression \<Rightarrow> qerror + bool" where
  "propertiesMatch e values entity x = bindE (expectedProperties e values x) (\<lambda>expected. Inr (mapMatches entity expected))"

definition nodePatternMatches :: "('p, 'q) evaluator \<Rightarrow> row \<Rightarrow> cvalue \<Rightarrow> ('p, 'q) node_pattern \<Rightarrow> qerror + bool" where
  "nodePatternMatches e values node pattern =
     (if \<not> labelsMatch node (np_labels pattern) then Inr False else propertiesMatch e values node (np_properties pattern))"

definition relationshipPatternMatches :: "('p, 'q) evaluator \<Rightarrow> row \<Rightarrow> cvalue \<Rightarrow> ('p, 'q) rel_pattern \<Rightarrow> qerror + bool" where
  "relationshipPatternMatches e values edge pattern =
     (if rp_types pattern \<noteq> [] \<and> edge_label edge \<notin> set (rp_types pattern) then Inr False
      else propertiesMatch e values edge (rp_properties pattern))"

text \<open>A bound of a length: the default when it is left out.\<close>

definition pathBound :: "('p, 'q) evaluator \<Rightarrow> row \<Rightarrow> string \<Rightarrow> int \<Rightarrow> ('p, 'q) expression \<Rightarrow> qerror + int" where
  "pathBound e values message unbounded x =
     (if x = NilExpression then Inr unbounded
      else bindE (evaluate e values x) (\<lambda>v.
        case integer v of
          None \<Rightarrow> Inl (EvalError message)
        | Some n \<Rightarrow> if n < 0 then Inl (EvalError message) else Inr n))"

definition relationshipBounds :: "('p, 'q) evaluator \<Rightarrow> row \<Rightarrow> ('p, 'q) rel_pattern \<Rightarrow> int \<Rightarrow> qerror + (int \<times> int)" where
  "relationshipBounds e values pattern edgeCount =
     (case rp_length pattern of
        None \<Rightarrow> Inr (1, 1)
      | Some len \<Rightarrow>
          bindE (pathBound e values ''path lower bound must be a non-negative integer'' 1 (len_lower len)) (\<lambda>minimum.
          bindE (pathBound e values ''path upper bound must be a non-negative integer''
                   (if len_lower len \<noteq> NilExpression \<and> len_exact len then minimum else edgeCount) (len_upper len)) (\<lambda>maximum.
            Inr (minimum, maximum))))"

section \<open>Candidates\<close>

definition smaller :: "entity_table option \<Rightarrow> entity_table option \<Rightarrow> entity_table option" where
  "smaller best candidates =
     (case candidates of
        None \<Rightarrow> best
      | Some c \<Rightarrow> (case best of None \<Rightarrow> Some c | Some b \<Rightarrow> if length c < length b then Some c else Some b))"

text \<open>Values whose equality crosses representations are left to the residual test.\<close>

definition indexable :: "cvalue \<Rightarrow> bool" where
  "indexable v \<longleftrightarrow> \<not> isNumber v \<and> (case v of CDateTime _ \<Rightarrow> False | CDuration _ \<Rightarrow> False | _ \<Rightarrow> True)"

definition indexedCandidates :: "library \<Rightarrow> memoryGraph \<Rightarrow> string list \<Rightarrow> (string \<times> cvalue) list \<Rightarrow> entity_table option" where
  "indexedCandidates lib g labels expected =
     foldl smaller None
       (map (mg_labels g) labels @
        map (\<lambda>(key, v). mg_properties g key (valueKey lib v)) (filter (\<lambda>(_, v). indexable v) expected))"

definition candidateNodes ::
    "memoryGraph \<Rightarrow> ('p, 'q) evaluator \<Rightarrow> row \<Rightarrow> ('p, 'q) node_pattern \<Rightarrow> qerror + cvalue list" where
  "candidateNodes g e values pattern =
     bindE (expectedProperties e values (np_properties pattern)) (\<lambda>expected.
       case (if np_variable pattern = [] then None else values (np_variable pattern)) of
         Some bound \<Rightarrow>
           Inr (case bound of
                  CNode _ _ _ _ _ _ \<Rightarrow> if nodeMatchesExpected bound (np_labels pattern) expected then [bound] else []
                | _ \<Rightarrow> [])
       | None \<Rightarrow>
           if list_ex (\<lambda>(_, v). v = CNull) expected then Inr []
           else let candidates = (case indexedCandidates (ev_library e) g (np_labels pattern) expected of
                                    None \<Rightarrow> nodePointers g | Some m \<Rightarrow> map snd (sort_key fst m))
                in Inr (filter (\<lambda>node. nodeMatchesExpected node (np_labels pattern) expected) candidates))"

section \<open>Adjacency\<close>

definition adjacentBefore :: "cvalue \<times> string \<Rightarrow> cvalue \<times> string \<Rightarrow> bool" where
  "adjacentBefore a b \<longleftrightarrow>
     (if edge_key (fst a) = edge_key (fst b) then snd a < snd b else edge_key (fst a) < edge_key (fst b))"

fun withoutRepeats :: "(cvalue \<times> string) list \<Rightarrow> (cvalue \<times> string) list" where
  "withoutRepeats (a # b # rest) =
     (if edge_key (fst a) = edge_key (fst b) \<and> snd a = snd b then withoutRepeats (a # rest) else a # withoutRepeats (b # rest))"
| "withoutRepeats xs = xs"

definition adjacentEdges :: "memoryGraph \<Rightarrow> string \<Rightarrow> direction \<Rightarrow> (cvalue \<times> string) list" where
  "adjacentEdges g k d =
     withoutRepeats (sortStable adjacentBefore
       ((if d \<noteq> Incoming then map (\<lambda>edge. (edge, edge_end edge)) (mg_outgoing g k) else []) @
        (if d \<noteq> Outgoing then map (\<lambda>edge. (edge, edge_start edge)) (mg_incoming g k) else [])))"

section \<open>Walks\<close>

text \<open>The closure \<open>walk\<close>: it visits a node, then follows the edges that its trail has not used, while \<open>remaining\<close>
  steps, the distance of the depth to the maximum, are left.\<close>

fun walk ::
    "memoryGraph \<Rightarrow> direction \<Rightarrow> (cvalue \<Rightarrow> qerror + bool) \<Rightarrow> (int \<Rightarrow> cvalue \<Rightarrow> path \<Rightarrow> qerror + 'r list) \<Rightarrow>
     nat \<Rightarrow> int \<Rightarrow> cvalue \<Rightarrow> path \<Rightarrow> string list \<Rightarrow> qerror + 'r list" where
  "walk g d follows visit 0 depth node path used = visit depth node path"
| "walk g d follows visit (Suc remaining) depth node path used =
     bindE (visit depth node path) (\<lambda>found.
     bindE (mapE (\<lambda>(edge, next).
         if edge_key edge \<in> set used then Inr []
         else bindE (follows edge) (\<lambda>ok.
           if \<not> ok then Inr []
           else case map_of (mg_nodes g) next of
                  None \<Rightarrow> Inr []
                | Some nextNode \<Rightarrow>
                    walk g d follows visit remaining (depth + 1) nextNode (fst path @ [nextNode], snd path @ [edge])
                      (edge_key edge # used)))
       (adjacentEdges g (node_key node) d)) (\<lambda>parts.
       Inr (found @ concat parts)))"

text \<open>What a relationship variable is bound to: the one edge, or the list of the edges of the segment.\<close>

definition relationshipValue :: "('p, 'q) rel_pattern \<Rightarrow> path \<Rightarrow> path \<Rightarrow> cvalue" where
  "relationshipValue pattern current path =
     (if rp_length pattern = None then (if snd path = [] then CNull else last (snd path))
      else CList (drop (length (snd current)) (snd path)))"

fun extendPattern ::
    "memoryGraph \<Rightarrow> ('p, 'q) evaluator \<Rightarrow> row \<Rightarrow> (('p, 'q) rel_pattern \<times> ('p, 'q) node_pattern) list \<Rightarrow> path \<Rightarrow>
     qerror + (row \<times> path) list" where
  "extendPattern g e values [] current = Inr [(values, current)]"
| "extendPattern g e values ((pattern, target) # rest) current =
     bindE (relationshipBounds e values pattern (int (length (mg_edges g)))) (\<lambda>(minimum, maximum).
       walk g (rp_direction pattern) (\<lambda>edge. relationshipPatternMatches e values edge pattern)
         (\<lambda>depth node path.
           if depth < minimum then Inr []
           else bindE (nodePatternMatches e values node target) (\<lambda>ok.
             if \<not> ok then Inr []
             else case bindValue values (np_variable target) node of
                    None \<Rightarrow> Inr []
                  | Some bound \<Rightarrow>
                      (case bindValue bound (rp_variable pattern) (relationshipValue pattern current path) of
                         None \<Rightarrow> Inr []
                       | Some next \<Rightarrow> extendPattern g e next rest path)))
         (nat maximum) 0 (last (fst current)) current (map edge_key (snd current)))"

definition element_steps :: "('p, 'q) element \<Rightarrow> (('p, 'q) rel_pattern \<times> ('p, 'q) node_pattern) list" where
  "element_steps el = zip (el_rels el) (tl (el_nodes el))"

definition matchRow :: "memoryGraph \<Rightarrow> ('p, 'q) evaluator \<Rightarrow> ('p, 'q) pattern_part \<Rightarrow> row \<Rightarrow> qerror + row list" where
  "matchRow g e pattern values =
     (let start = hd (el_nodes (pp_element pattern)) in
      bindE (candidateNodes g e values start) (\<lambda>candidates.
      bindE (mapE (\<lambda>candidate.
          case bindValue values (np_variable start) candidate of
            None \<Rightarrow> Inr []
          | Some next \<Rightarrow>
              bindE (extendPattern g e next (element_steps (pp_element pattern)) ([candidate], [])) (\<lambda>matched.
                Inr (List.map_filter (\<lambda>(found, path). bindValue found (pp_variable pattern) (path_value path)) matched)))
        candidates) (\<lambda>parts.
        Inr (concat parts))))"

definition matchPattern :: "memoryGraph \<Rightarrow> ('p, 'q) evaluator \<Rightarrow> row list \<Rightarrow> ('p, 'q) pattern_part \<Rightarrow> qerror + row list" where
  "matchPattern g e input pattern = bindE (mapE (matchRow g e pattern) input) (\<lambda>parts. Inr (concat parts))"

section \<open>MATCH\<close>

record ('p, 'q) match_clause =
  mc_optional :: bool
  mc_patterns :: "('p, 'q) pattern_part list"
  mc_where :: "('p, 'q) expression"

definition patternVariables :: "('p, 'q) pattern_part list \<Rightarrow> string list" where
  "patternVariables patterns =
     sort (remdups (filter (\<lambda>name. name \<noteq> [])
       (concat (map (\<lambda>p. pp_variable p # map np_variable (el_nodes (pp_element p)) @ map rp_variable (el_rels (pp_element p))) patterns))))"

definition filterRows :: "('p, 'q) evaluator \<Rightarrow> row list \<Rightarrow> ('p, 'q) expression \<Rightarrow> qerror + row list" where
  "filterRows e input predicate =
     bindE (mapE (\<lambda>values. bindE (evaluate e values predicate) (\<lambda>v.
         case v of
           CBool b \<Rightarrow> Inr (if b then [values] else [])
         | CNull \<Rightarrow> Inr []
         | _ \<Rightarrow> Inl (EvalError ''WHERE expects a boolean, got %T''))) input) (\<lambda>parts.
       Inr (concat parts))"

definition matchClauseRow :: "memoryGraph \<Rightarrow> ('p, 'q) evaluator \<Rightarrow> ('p, 'q) match_clause \<Rightarrow> row \<Rightarrow> qerror + row list" where
  "matchClauseRow g e clause values =
     bindE (foldE (\<lambda>matches pattern. matchPattern g e matches pattern) [values] (mc_patterns clause)) (\<lambda>found.
     bindE (if mc_where clause = NilExpression then Inr found else filterRows e found (mc_where clause)) (\<lambda>matches.
       Inr (if matches = [] \<and> mc_optional clause
            then [foldl (\<lambda>r name. if r name = None then r(name \<mapsto> CNull) else r) values (patternVariables (mc_patterns clause))]
            else matches)))"

definition matchClauseRows :: "memoryGraph \<Rightarrow> ('p, 'q) evaluator \<Rightarrow> row list \<Rightarrow> ('p, 'q) match_clause \<Rightarrow> qerror + row list" where
  "matchClauseRows g e input clause = bindE (mapE (matchClauseRow g e clause) input) (\<lambda>parts. Inr (concat parts))"

end
