(* ===== verification/Graph_Index.thy ===== *)
theory Graph_Index
  imports Graph_Match
begin

text \<open>
  The graph in memory is consistent: it holds each node and relationship once, the adjacency lists are the
  relationships by their ends, and the label and property indexes cover every node they should and nothing else.
  An index lookup therefore finds the candidates that a scan of all nodes finds.
\<close>

section \<open>The invariant\<close>

definition is_node :: "cvalue \<Rightarrow> bool" where
  "is_node v \<longleftrightarrow> (case v of CNode _ _ _ _ _ _ \<Rightarrow> True | _ \<Rightarrow> False)"

definition is_edge :: "cvalue \<Rightarrow> bool" where
  "is_edge v \<longleftrightarrow> (case v of CEdge _ _ _ _ _ _ _ _ \<Rightarrow> True | _ \<Rightarrow> False)"

abbreviation entry :: "cvalue \<Rightarrow> string \<times> cvalue" where
  "entry n \<equiv> (node_key n, n)"

definition index_part :: "cvalue set \<Rightarrow> entity_table option \<Rightarrow> bool" where
  "index_part N m \<longleftrightarrow> (\<forall>c. m = Some c \<longrightarrow> distinct (map fst c) \<and> set c \<subseteq> entry ` N)"

definition covers :: "entity_table option \<Rightarrow> cvalue \<Rightarrow> bool" where
  "covers m n \<longleftrightarrow> (\<exists>c. m = Some c \<and> entry n \<in> set c)"

definition index_parts :: "cvalue set \<Rightarrow> memoryGraph \<Rightarrow> bool" where
  "index_parts N g \<longleftrightarrow> (\<forall>l. index_part N (mg_labels g l)) \<and> (\<forall>key k. index_part N (mg_properties g key k))"

definition indexed_properties :: "cvalue \<Rightarrow> (string \<times> cvalue) list" where
  "indexed_properties n = node_map n @ [(''body'', CString (node_text n))]"

definition covered :: "library \<Rightarrow> memoryGraph \<Rightarrow> cvalue \<Rightarrow> bool" where
  "covered lib g n \<longleftrightarrow>
     (\<forall>l \<in> set (node_tags n). covers (mg_labels g l) n) \<and>
     (\<forall>(key, v) \<in> set (indexed_properties n). v \<noteq> CNull \<longrightarrow> covers (mg_properties g key (valueKey lib v)) n)"

text \<open>The nodes and relationships of a graph, and the invariant that ties its parts to them.\<close>

definition nodes_of :: "memoryGraph \<Rightarrow> cvalue set" where
  "nodes_of g = snd ` set (mg_nodes g)"

definition edges_of :: "memoryGraph \<Rightarrow> cvalue set" where
  "edges_of g = snd ` set (mg_edges g)"

definition graph_indexed :: "library \<Rightarrow> memoryGraph \<Rightarrow> bool" where
  "graph_indexed lib g \<longleftrightarrow>
     distinct (map fst (mg_nodes g)) \<and> (\<forall>(k, n) \<in> set (mg_nodes g). k = node_key n \<and> is_node n) \<and>
     distinct (map fst (mg_edges g)) \<and> (\<forall>(k, r) \<in> set (mg_edges g). k = edge_key r \<and> is_edge r) \<and>
     (\<forall>k. set (mg_outgoing g k) = {r \<in> edges_of g. edge_start r = k}) \<and>
     (\<forall>k. set (mg_incoming g k) = {r \<in> edges_of g. edge_end r = k}) \<and>
     index_parts (nodes_of g) g \<and> (\<forall>n \<in> nodes_of g. covered lib g n)"

section \<open>Entering a node\<close>

lemma update_fresh: "k \<notin> fst ` set al \<Longrightarrow> AList.update k v al = al @ [(k, v)]"
  by (induction al) auto

lemma enter_index:
  assumes inj: "inj_on node_key N" and n: "n \<in> N" and m: "index_part N m"
  shows "index_part N (enter n m)" "covers (enter n m) n" "covers m x \<Longrightarrow> covers (enter n m) x"
proof -
  define c where "c = (case m of None \<Rightarrow> [] | Some c \<Rightarrow> c)"
  have c: "distinct (map fst c)" "set c \<subseteq> entry ` N" using m by (auto simp: c_def index_part_def split: option.split)
  have e: "enter n m = Some (AList.update (node_key n) n c)" by (simp add: enter_def c_def)
  have s: "set (AList.update (node_key n) n c) = insert (entry n) (set c)"
  proof (cases "node_key n \<in> fst ` set c")
    case True
    then obtain x where x: "(node_key n, x) \<in> set c" by force
    then have "x \<in> N" "node_key x = node_key n" using c(2) by auto
    then have "x = n" using inj n by (simp add: inj_on_def)
    then have "map_of c (node_key n) = Some n" using x c(1) by simp
    then show ?thesis using x \<open>x = n\<close> by (simp add: update_triv insert_absorb)
  next
    case False
    then show ?thesis by (simp add: update_fresh)
  qed
  show "index_part N (enter n m)" using c n by (simp add: index_part_def e s distinct_update)
  show "covers (enter n m) n" by (simp add: covers_def e s)
  show "covers (enter n m) x" if "covers m x"
  proof -
    have "entry x \<in> set c" using that by (auto simp: covers_def c_def)
    then show ?thesis by (simp add: covers_def e s)
  qed
qed

lemma index_labels:
  fixes labels :: "string list"
  assumes "inj_on node_key N" "n \<in> N" "index_parts N g"
  defines "g' \<equiv> foldl (\<lambda>g label. indexNodeLabel g n label) g labels"
  shows "index_parts N g' \<and> mg_properties g' = mg_properties g \<and> mg_nodes g' = mg_nodes g \<and> mg_edges g' = mg_edges g \<and>
    mg_outgoing g' = mg_outgoing g \<and> mg_incoming g' = mg_incoming g \<and>
    (\<forall>l \<in> set labels. covers (mg_labels g' l) n) \<and> (\<forall>l x. covers (mg_labels g l) x \<longrightarrow> covers (mg_labels g' l) x)"
  using assms(3) unfolding g'_def
proof (induction labels arbitrary: g)
  case (Cons label labels)
  define h where "h = indexNodeLabel g n label"
  note enter = enter_index [OF assms(1,2)]
  have h: "index_parts N h" using Cons.prems enter by (auto simp: h_def indexNodeLabel_def index_parts_def)
  have same: "mg_properties h = mg_properties g" "mg_nodes h = mg_nodes g" "mg_edges h = mg_edges g"
    "mg_outgoing h = mg_outgoing g" "mg_incoming h = mg_incoming g" by (simp_all add: h_def indexNodeLabel_def)
  have "covers (mg_labels h label) n" "\<forall>l x. covers (mg_labels g l) x \<longrightarrow> covers (mg_labels h l) x"
    using Cons.prems enter by (auto simp: h_def indexNodeLabel_def index_parts_def)
  then show ?case using Cons.IH [OF h] same unfolding foldl_Cons h_def [symmetric] by simp
qed simp

lemma index_properties:
  fixes entries :: "(string \<times> cvalue) list" and lib :: library
  assumes "inj_on node_key N" "n \<in> N" "index_parts N g"
  defines "g' \<equiv> foldl (\<lambda>g (key, v). indexNodeProperty lib g n key v) g entries"
  shows "index_parts N g' \<and> mg_labels g' = mg_labels g \<and> mg_nodes g' = mg_nodes g \<and> mg_edges g' = mg_edges g \<and>
    mg_outgoing g' = mg_outgoing g \<and> mg_incoming g' = mg_incoming g \<and>
    (\<forall>(key, v) \<in> set entries. v \<noteq> CNull \<longrightarrow> covers (mg_properties g' key (valueKey lib v)) n) \<and>
    (\<forall>key k x. covers (mg_properties g key k) x \<longrightarrow> covers (mg_properties g' key k) x)"
  using assms(3) unfolding g'_def
proof (induction entries arbitrary: g)
  case (Cons p entries)
  obtain key v where p: "p = (key, v)" by (cases p)
  define h where "h = indexNodeProperty lib g n key v"
  note enter = enter_index [OF assms(1,2)]
  have h: "index_parts N h" using Cons.prems enter by (auto simp: h_def indexNodeProperty_def index_parts_def)
  note IH = Cons.IH [OF h]
  have same: "mg_labels h = mg_labels g" "mg_nodes h = mg_nodes g" "mg_edges h = mg_edges g"
    "mg_outgoing h = mg_outgoing g" "mg_incoming h = mg_incoming g" by (simp_all add: h_def indexNodeProperty_def)
  have own: "v \<noteq> CNull \<longrightarrow> covers (mg_properties h key (valueKey lib v)) n"
    and keep: "\<forall>key k x. covers (mg_properties g key k) x \<longrightarrow> covers (mg_properties h key k) x"
    using Cons.prems enter by (auto simp: h_def indexNodeProperty_def index_parts_def)
  show ?case using IH same own keep unfolding foldl_Cons p prod.case h_def [symmetric] by simp
qed simp

lemma index_part_mono: "index_part N m \<Longrightarrow> N \<subseteq> M \<Longrightarrow> index_part M m"
  unfolding index_part_def by blast

lemma indexNode_index:
  assumes "inj_on node_key N" "n \<in> N" "index_parts N g"
  shows "index_parts N (indexNode lib g n)" "covered lib (indexNode lib g n) n"
    "covered lib g x \<Longrightarrow> covered lib (indexNode lib g n) x"
    "mg_nodes (indexNode lib g n) = mg_nodes g" "mg_edges (indexNode lib g n) = mg_edges g"
    "mg_outgoing (indexNode lib g n) = mg_outgoing g" "mg_incoming (indexNode lib g n) = mg_incoming g"
proof -
  define h where "h = foldl (\<lambda>g label. indexNodeLabel g n label) g (node_tags n)"
  note labels = index_labels [OF assms, of "node_tags n", folded h_def]
  note props = index_properties [OF assms(1,2), of h lib "indexed_properties n"]
  have e: "indexNode lib g n = foldl (\<lambda>g (key, v). indexNodeProperty lib g n key v) h (indexed_properties n)"
    by (simp add: indexNode_def h_def indexed_properties_def)
  show "index_parts N (indexNode lib g n)" "mg_nodes (indexNode lib g n) = mg_nodes g" "mg_edges (indexNode lib g n) = mg_edges g"
    "mg_outgoing (indexNode lib g n) = mg_outgoing g" "mg_incoming (indexNode lib g n) = mg_incoming g"
    using labels props unfolding e by simp_all
  show "covered lib (indexNode lib g n) n" using labels props unfolding e covered_def by simp
  show "covered lib g x \<Longrightarrow> covered lib (indexNode lib g n) x" using labels props unfolding e covered_def by auto
qed

section \<open>Building the graph\<close>

definition nodes_indexed :: "library \<Rightarrow> memoryGraph \<Rightarrow> bool" where
  "nodes_indexed lib g \<longleftrightarrow>
     distinct (map fst (mg_nodes g)) \<and> (\<forall>(k, n) \<in> set (mg_nodes g). k = node_key n \<and> is_node n) \<and>
     index_parts (nodes_of g) g \<and> (\<forall>n \<in> nodes_of g. covered lib g n)"

lemma nodes_of_inj: "nodes_indexed lib g \<Longrightarrow> inj_on node_key (nodes_of g)"
proof -
  assume "nodes_indexed lib g"
  then have g: "distinct (map fst (mg_nodes g))" "\<forall>(k, n) \<in> set (mg_nodes g). k = node_key n"
    by (auto simp: nodes_indexed_def)
  show ?thesis
  proof (rule inj_onI)
    fix a b
    assume "a \<in> nodes_of g" "b \<in> nodes_of g" and same: "node_key a = node_key b"
    then have "(node_key a, a) \<in> set (mg_nodes g)" "(node_key a, b) \<in> set (mg_nodes g)"
      using g(2) by (auto simp: nodes_of_def)
    then show "a = b" using g(1) by (metis eq_key_imp_eq_value)
  qed
qed

lemma keys_image: "\<forall>(k, x) \<in> set m. k = f x \<Longrightarrow> fst ` set m = f ` snd ` set m"
  by (induction m) auto

lemma addNode_indexed:
  assumes g: "nodes_indexed lib g" and n: "is_node n" "node_key n \<notin> node_key ` nodes_of g"
  shows "nodes_indexed lib (addNode lib g n) \<and> nodes_of (addNode lib g n) = insert n (nodes_of g) \<and>
    mg_edges (addNode lib g n) = mg_edges g \<and> mg_outgoing (addNode lib g n) = mg_outgoing g \<and>
    mg_incoming (addNode lib g n) = mg_incoming g"
proof -
  have keys: "\<forall>(k, x) \<in> set (mg_nodes g). k = node_key x" using g by (auto simp: nodes_indexed_def)
  then have fresh: "node_key n \<notin> fst ` set (mg_nodes g)" using n(2) by (simp add: keys_image nodes_of_def)
  define h where "h = g\<lparr>mg_nodes := AList.update (node_key n) n (mg_nodes g)\<rparr>"
  have nodes: "mg_nodes h = mg_nodes g @ [(node_key n, n)]" using update_fresh [OF fresh] by (simp add: h_def)
  then have of: "nodes_of h = insert n (nodes_of g)" by (simp add: nodes_of_def)
  have inj: "inj_on node_key (nodes_of h)" unfolding of unfolding inj_on_insert using nodes_of_inj [OF g] n(2) by blast
  have "index_parts (nodes_of g) g" using g by (simp add: nodes_indexed_def)
  moreover have "nodes_of g \<subseteq> nodes_of h" by (auto simp: of)
  ultimately have "index_parts (nodes_of h) g" unfolding index_parts_def by (metis index_part_mono)
  then have "index_parts (nodes_of h) h" by (simp add: index_parts_def) (simp add: h_def)
  note new = indexNode_index [OF inj _ this, of n lib]
  have old: "covered lib h x" if "x \<in> nodes_of g" for x using g that by (simp add: nodes_indexed_def covered_def h_def)
  have e: "addNode lib g n = indexNode lib h n" by (simp add: addNode_def h_def)
  have nodes': "mg_nodes (addNode lib g n) = mg_nodes h" using new(4) of by (simp add: e)
  then have of': "nodes_of (addNode lib g n) = insert n (nodes_of g)" using of by (simp add: nodes_of_def)
  have "nodes_indexed lib (addNode lib g n)"
    unfolding nodes_indexed_def nodes' of'
  proof (intro conjI)
    show "distinct (map fst (mg_nodes h))" using g fresh by (simp add: nodes nodes_indexed_def)
    show "\<forall>(k, x) \<in> set (mg_nodes h). k = node_key x \<and> is_node x" using g n(1) by (auto simp: nodes nodes_indexed_def)
    show "index_parts (insert n (nodes_of g)) (addNode lib g n)" using new(1) of by (simp add: e)
    show "\<forall>x \<in> insert n (nodes_of g). covered lib (addNode lib g n) x" using new(2,3) old of by (auto simp: e)
  qed
  then show ?thesis using of' new(5-7) of by (simp add: e h_def)
qed

lemma addNodes_indexed:
  assumes "nodes_indexed lib g" "\<forall>n \<in> set ns. is_node n \<and> node_key n \<notin> node_key ` nodes_of g" "distinct (map node_key ns)"
  shows "nodes_indexed lib (foldl (addNode lib) g ns) \<and> nodes_of (foldl (addNode lib) g ns) = set ns \<union> nodes_of g \<and>
    mg_edges (foldl (addNode lib) g ns) = mg_edges g \<and> mg_outgoing (foldl (addNode lib) g ns) = mg_outgoing g \<and>
    mg_incoming (foldl (addNode lib) g ns) = mg_incoming g"
  using assms
proof (induction ns arbitrary: g)
  case (Cons n ns)
  have add: "nodes_indexed lib (addNode lib g n) \<and> nodes_of (addNode lib g n) = insert n (nodes_of g) \<and>
    mg_edges (addNode lib g n) = mg_edges g \<and> mg_outgoing (addNode lib g n) = mg_outgoing g \<and>
    mg_incoming (addNode lib g n) = mg_incoming g"
    using Cons.prems by (intro addNode_indexed) simp_all
  moreover have "\<forall>x \<in> set ns. is_node x \<and> node_key x \<notin> node_key ` nodes_of (addNode lib g n)"
    using Cons.prems(2,3) conjunct1 [OF conjunct2 [OF add]] by (metis image_insert imageI insert_iff list.set_intros(2) list.simps(9) distinct.simps(2) list.set_map)
  ultimately show ?case using Cons.IH [of "addNode lib g n"] Cons.prems(3) by simp
qed simp

definition edges_indexed :: "memoryGraph \<Rightarrow> bool" where
  "edges_indexed g \<longleftrightarrow>
     distinct (map fst (mg_edges g)) \<and> (\<forall>(k, r) \<in> set (mg_edges g). k = edge_key r \<and> is_edge r) \<and>
     (\<forall>k. set (mg_outgoing g k) = {r \<in> edges_of g. edge_start r = k}) \<and>
     (\<forall>k. set (mg_incoming g k) = {r \<in> edges_of g. edge_end r = k})"

lemma graph_indexed_iff: "graph_indexed lib g \<longleftrightarrow> nodes_indexed lib g \<and> edges_indexed g"
  by (auto simp: graph_indexed_def nodes_indexed_def edges_indexed_def)

lemma addEdge_indexed:
  assumes g: "edges_indexed g" and r: "is_edge r" "edge_key r \<notin> edge_key ` edges_of g"
  shows "edges_indexed (addEdge g r) \<and> edges_of (addEdge g r) = insert r (edges_of g)"
proof -
  have "\<forall>(k, x) \<in> set (mg_edges g). k = edge_key x" using g by (auto simp: edges_indexed_def)
  then have fresh: "edge_key r \<notin> fst ` set (mg_edges g)" using r(2) by (simp add: keys_image edges_of_def)
  have edges: "mg_edges (addEdge g r) = mg_edges g @ [(edge_key r, r)]" by (simp add: addEdge_def update_fresh [OF fresh])
  then have of: "edges_of (addEdge g r) = insert r (edges_of g)" by (simp add: edges_of_def)
  have "edges_indexed (addEdge g r)" unfolding edges_indexed_def of edges
    using g r(1) fresh by (auto simp: edges_indexed_def addEdge_def)
  then show ?thesis using of by simp
qed

lemma addEdge_nodes [simp]:
  "mg_nodes (foldl addEdge g rs) = mg_nodes g" "mg_labels (foldl addEdge g rs) = mg_labels g"
  "mg_properties (foldl addEdge g rs) = mg_properties g"
  by (induction rs arbitrary: g) (simp_all add: addEdge_def)

lemma addEdges_indexed:
  assumes "edges_indexed g" "\<forall>r \<in> set rs. is_edge r \<and> edge_key r \<notin> edge_key ` edges_of g" "distinct (map edge_key rs)"
  shows "edges_indexed (foldl addEdge g rs) \<and> edges_of (foldl addEdge g rs) = set rs \<union> edges_of g"
  using assms
proof (induction rs arbitrary: g)
  case (Cons r rs)
  have add: "edges_indexed (addEdge g r) \<and> edges_of (addEdge g r) = insert r (edges_of g)"
    using Cons.prems by (intro addEdge_indexed) simp_all
  moreover have "\<forall>x \<in> set rs. is_edge x \<and> edge_key x \<notin> edge_key ` edges_of (addEdge g r)"
    using Cons.prems(2,3) conjunct2 [OF add] by (metis image_insert imageI insert_iff list.set_intros(2) list.simps(9) distinct.simps(2) list.set_map)
  ultimately show ?case using Cons.IH [of "addEdge g r"] Cons.prems(3) by simp
qed simp

lemma newMemoryGraph_indexed:
  assumes "list_all is_node nodes" "distinct (map node_key nodes)" "list_all is_edge edges" "distinct (map edge_key edges)"
  shows "graph_indexed lib (newMemoryGraph lib nodes edges)"
    "nodes_of (newMemoryGraph lib nodes edges) = set nodes" "edges_of (newMemoryGraph lib nodes edges) = set edges"
proof -
  define g where "g = foldl (addNode lib) emptyGraph nodes"
  have empty: "nodes_indexed lib emptyGraph" "nodes_of emptyGraph = {}"
    by (simp_all add: nodes_indexed_def emptyGraph_def index_parts_def index_part_def nodes_of_def)
  have g: "nodes_indexed lib g" "nodes_of g = set nodes" "mg_edges g = []" "mg_outgoing g = (\<lambda>_. [])" "mg_incoming g = (\<lambda>_. [])"
    using addNodes_indexed [OF empty(1), of nodes] assms(1,2) empty(2) by (auto simp: g_def emptyGraph_def list_all_iff)
  then have "edges_indexed g" "edges_of g = {}" by (simp_all add: edges_indexed_def edges_of_def)
  then have h: "edges_indexed (foldl addEdge g edges)" "edges_of (foldl addEdge g edges) = set edges"
    using addEdges_indexed [of g edges] assms(3,4) by (auto simp: list_all_iff)
  have e: "newMemoryGraph lib nodes edges = sortAdjacency (foldl addEdge g edges)" by (simp add: newMemoryGraph_def g_def)
  show "nodes_of (newMemoryGraph lib nodes edges) = set nodes" using g(2) by (simp add: e sortAdjacency_def nodes_of_def)
  show "edges_of (newMemoryGraph lib nodes edges) = set edges" using h(2) by (simp add: e sortAdjacency_def edges_of_def)
  have "nodes_indexed lib (sortAdjacency (foldl addEdge g edges))"
    using g(1) by (simp add: nodes_indexed_def sortAdjacency_def nodes_of_def index_parts_def covered_def)
  moreover have "edges_indexed (sortAdjacency (foldl addEdge g edges))"
    using h(1) by (simp add: edges_indexed_def sortAdjacency_def edges_of_def)
  ultimately show "graph_indexed lib (newMemoryGraph lib nodes edges)" by (simp add: e graph_indexed_iff)
qed

section \<open>Index lookups find every match\<close>

text \<open>Values on which equality is the equality of keys: anything but lists and maps, whose parts may be numbers.\<close>

definition index_safe :: "(string \<times> cvalue) list \<Rightarrow> bool" where
  "index_safe expected \<longleftrightarrow> list_all (\<lambda>(_, v). case v of CList _ \<Rightarrow> False | CMap _ \<Rightarrow> False | _ \<Rightarrow> True) expected"

lemma equalValues_scalar:
  assumes "equalValues a v" "\<not> isNumber v" "case v of CList _ \<Rightarrow> False | CMap _ \<Rightarrow> False | _ \<Rightarrow> True"
  shows "a = v"
proof -
  have "number v = None" using assms(2) unfolding isNumber_def by blast
  then have "compareNumbers a v = (0, False, False)" by (simp add: compareNumbers_def split: option.split)
  then show ?thesis using assms(1,3) by (simp add: equalValues.simps split: cvalue.splits)
qed

lemma property_indexed:
  assumes "is_node n" "property n key \<noteq> CNull"
  shows "(key, property n key) \<in> set (indexed_properties n)"
proof (cases n)
  case (CNode k labels m body since stop)
  show ?thesis
  proof (cases "key = ''body''")
    case False
    then have "property n key = lookup_or_null key m" by (simp add: CNode property_def)
    moreover from this obtain v where "map_of m key = Some v" using assms(2) by (auto simp: lookup_or_null_def split: option.splits)
    ultimately have "map_of m key = Some (property n key)" by (simp add: lookup_or_null_def)
    then show ?thesis using map_of_SomeD [of m key] by (simp add: CNode indexed_properties_def)
  qed (simp add: CNode property_def indexed_properties_def)
qed (use assms in \<open>simp_all add: is_node_def\<close>)

lemma smaller_None: "foldl smaller best ms = None \<longleftrightarrow> best = None \<and> set ms \<subseteq> {None}"
  by (induction ms arbitrary: best) (auto simp: smaller_def split: option.splits)

lemma smaller_Some: "foldl smaller best ms = Some c \<Longrightarrow> best = Some c \<or> Some c \<in> set ms"
proof (induction ms arbitrary: best)
  case (Cons m ms)
  have "smaller best m = best \<or> smaller best m = m" by (simp add: smaller_def split: option.split)
  then show ?case using Cons.IH [of "smaller best m"] Cons.prems by auto
qed simp

lemma indexed_covers:
  assumes g: "graph_indexed lib g" and c: "indexedCandidates lib g labels expected = Some c" and safe: "index_safe expected"
    and n: "n \<in> nodes_of g" "nodeMatchesExpected n labels expected"
  shows "entry n \<in> set c"
proof -
  have node: "covered lib g n" "is_node n" using g n(1) by (auto simp: graph_indexed_def nodes_of_def)
  consider l where "l \<in> set labels" "mg_labels g l = Some c"
    | key v where "(key, v) \<in> set expected" "indexable v" "mg_properties g key (valueKey lib v) = Some c"
    using smaller_Some [OF c [unfolded indexedCandidates_def]] by auto
  then show ?thesis
  proof cases
    case 1
    then have "l \<in> set (node_tags n)" using n(2) by (simp add: nodeMatchesExpected_def labelsMatch_def list_all_iff)
    then have "covers (Some c) n" using node(1) unfolding covered_def 1(2) [symmetric] by blast
    then show ?thesis by (simp add: covers_def)
  next
    case 2
    have v: "property n key \<noteq> CNull" "equalValues (property n key) v"
      using 2(1) n(2) by (auto simp: nodeMatchesExpected_def mapMatches_def list_all_iff Let_def)
    then have "property n key = v"
      using 2(1,2) safe by (intro equalValues_scalar) (auto simp: indexable_def index_safe_def list_all_iff)
    then have "(key, v) \<in> set (indexed_properties n)" "v \<noteq> CNull" using property_indexed [OF node(2) v(1)] v(1) by simp_all
    then have "covers (Some c) n" using node(1) 2(3) by (fastforce simp: covered_def)
    then show ?thesis by (simp add: covers_def)
  qed
qed

lemma indexed_part:
  assumes "graph_indexed lib g" "indexedCandidates lib g labels expected = Some c"
  shows "distinct (map fst c)" "set c \<subseteq> entry ` nodes_of g"
proof -
  have "index_part (nodes_of g) (Some c)"
    using smaller_Some [OF assms(2) [unfolded indexedCandidates_def]] assms(1) by (auto simp: graph_indexed_def index_parts_def)
  then show "distinct (map fst c)" "set c \<subseteq> entry ` nodes_of g" by (simp_all add: index_part_def)
qed

lemma sorted_filter_unique:
  assumes "distinct (map fst xs)" "distinct (map fst ys)" "set (filter P xs) = set (filter P ys)"
  shows "filter P (sort_key fst xs) = filter P (sort_key (fst :: _ \<Rightarrow> 'a :: linorder) ys)"
proof -
  have "mset (filter P xs) = mset (filter P ys)"
    using assms by (intro set_eq_iff_mset_eq_distinct [THEN iffD1]) (simp_all add: distinct_map)
  moreover have "inj_on fst (set (filter P xs))"
    using assms(1) by (auto simp: distinct_map intro: inj_on_subset)
  moreover have "sorted (map fst (filter P (sort_key fst ys)))" by (simp add: filter_sort)
  ultimately have "sort_key fst (filter P xs) = filter P (sort_key fst ys)"
    by (intro sort_key_inj_key_eq) (simp_all add: filter_sort)
  then show ?thesis by (simp add: filter_sort)
qed

lemma indexed_filter:
  assumes g: "graph_indexed lib g" and safe: "index_safe expected"
  shows "filter (\<lambda>n. nodeMatchesExpected n labels expected)
      (case indexedCandidates lib g labels expected of None \<Rightarrow> nodePointers g | Some m \<Rightarrow> map snd (sort_key fst m)) =
    filter (\<lambda>n. nodeMatchesExpected n labels expected) (nodePointers g)"
proof (cases "indexedCandidates lib g labels expected")
  case (Some c)
  let ?P = "\<lambda>n. nodeMatchesExpected n labels expected"
  note c = indexed_part [OF g Some] and covers = indexed_covers [OF g Some safe]
  have nodes: "distinct (map fst (mg_nodes g))" "\<forall>(k, n) \<in> set (mg_nodes g). k = node_key n"
    using g by (auto simp: graph_indexed_def)
  have entries: "set (mg_nodes g) = entry ` nodes_of g"
  proof -
    have "\<forall>p \<in> set (mg_nodes g). entry (snd p) = p" using nodes(2) by auto
    then have "(\<lambda>p. entry (snd p)) ` set (mg_nodes g) = id ` set (mg_nodes g)" by (intro image_cong) auto
    then show ?thesis by (simp add: nodes_of_def image_image)
  qed
  have "set (filter (?P \<circ> snd) c) = set (filter (?P \<circ> snd) (mg_nodes g))" using c(2) covers entries by auto
  then have "filter (?P \<circ> snd) (sort_key fst c) = filter (?P \<circ> snd) (sort_key fst (mg_nodes g))"
    using c(1) nodes(1) by (intro sorted_filter_unique)
  then show ?thesis by (simp add: Some nodePointers_def filter_map)
qed simp

lemma candidateNodes_scan:
  assumes g: "graph_indexed (ev_library e) g"
    and expected: "expectedProperties e values (np_properties pattern) = Inr expected" "index_safe expected"
    and unbound: "np_variable pattern = [] \<or> values (np_variable pattern) = None"
  shows "candidateNodes g e values pattern =
    Inr (filter (\<lambda>node. nodeMatchesExpected node (np_labels pattern) expected) (nodePointers g))"
proof -
  have none: "(if np_variable pattern = [] then None else values (np_variable pattern)) = None" using unbound by auto
  show ?thesis
  proof (cases "list_ex (\<lambda>(_, v). v = CNull) expected")
    case True
    then have "\<not> nodeMatchesExpected n (np_labels pattern) expected" for n
      by (auto simp: nodeMatchesExpected_def mapMatches_def list_all_iff list_ex_iff Let_def)
    then show ?thesis using True by (simp add: candidateNodes_def expected(1) none)
  next
    case False
    then show ?thesis using indexed_filter [OF g expected(2), of "np_labels pattern"]
      by (simp add: candidateNodes_def expected(1) none Let_def)
  qed
qed

end
