(* ===== verification/Match_Walk.thy ===== *)
theory Match_Walk
  imports Graph_Index
begin

text \<open>
  What the matcher enumerates: the walks from a node are the trails of the graph, paths that use no relationship
  twice, each once; and the rows of a pattern are the assignments of trails to its relationships, each once.
\<close>

section \<open>Adjacency\<close>

definition joins :: "direction \<Rightarrow> cvalue \<Rightarrow> string \<Rightarrow> string \<Rightarrow> bool" where
  "joins d edge k next \<longleftrightarrow>
     d \<noteq> Incoming \<and> edge_start edge = k \<and> edge_end edge = next \<or> d \<noteq> Outgoing \<and> edge_end edge = k \<and> edge_start edge = next"

interpretation adjacency: strict_order adjacentBefore "\<lambda>_. True"
  by unfold_locales (auto simp: adjacentBefore_def not_less split: if_splits dest: order.strict_trans)

lemma withoutRepeats_subset: "set (withoutRepeats xs) \<subseteq> set xs"
  by (induction xs rule: withoutRepeats.induct) auto

lemma withoutRepeats_hd: "xs \<noteq> [] \<Longrightarrow> withoutRepeats xs \<noteq> [] \<and> hd (withoutRepeats xs) = hd xs"
  by (induction xs rule: withoutRepeats.induct) auto

definition adjacent_key :: "cvalue \<times> string \<Rightarrow> string \<times> string" where
  "adjacent_key a = (edge_key (fst a), snd a)"

lemma adjacent_total: "adjacent_key a = adjacent_key b \<or> adjacentBefore a b \<or> adjacentBefore b a"
  by (auto simp: adjacent_key_def adjacentBefore_def split: if_splits)

lemma withoutRepeats_keys: "adjacent_key ` set (withoutRepeats xs) = adjacent_key ` set xs"
  by (induction xs rule: withoutRepeats.induct) (auto simp: adjacent_key_def)

lemma withoutRepeats_distinct: "in_order adjacentBefore xs \<Longrightarrow> distinct (map adjacent_key (withoutRepeats xs))"
proof (induction xs rule: withoutRepeats.induct)
  case (1 a b rest)
  show ?case
  proof (cases "adjacent_key a = adjacent_key b")
    case True
    then have "in_order adjacentBefore (a # rest)" using "1.prems" by simp
    then show ?thesis using True "1.IH"(1) by (simp add: adjacent_key_def)
  next
    case False
    then have less: "adjacentBefore a b" using "1.prems" adjacent_total [of a b] by auto
    have "adjacent_key a \<noteq> adjacent_key c" if "c \<in> set (b # rest)" for c
    proof
      assume same: "adjacent_key a = adjacent_key c"
      then have "edge_key (fst c) = edge_key (fst a)" "snd c = snd a" by (simp_all add: adjacent_key_def)
      then have "adjacentBefore c b" using less by (simp add: adjacentBefore_def)
      moreover have "\<not> adjacentBefore c b"
        using that "1.prems" adjacency.irrefl [of b] by (auto simp: list_all_iff simp del: split_paired_All)
      ultimately show False by simp
    qed
    then have "adjacent_key a \<notin> adjacent_key ` set (withoutRepeats (b # rest))"
      using withoutRepeats_subset [of "b # rest"] by blast
    moreover have "\<not> (edge_key (fst a) = edge_key (fst b) \<and> snd a = snd b)" using False by (simp add: adjacent_key_def)
    ultimately show ?thesis using "1.IH"(2) "1.prems" by auto
  qed
qed (simp_all add: adjacent_key_def)

lemma adjacentEdges_distinct: "distinct (map adjacent_key (adjacentEdges g k d))"
  unfolding adjacentEdges_def by (rule withoutRepeats_distinct [OF adjacency.sort_in_order]) (simp add: list_all_iff)

lemma adjacentEdges_set:
  assumes "graph_indexed lib g"
  shows "(edge, next) \<in> set (adjacentEdges g k d) \<longleftrightarrow> edge \<in> edges_of g \<and> joins d edge k next"
proof -
  define xs where "xs = (if d \<noteq> Incoming then map (\<lambda>edge. (edge, edge_end edge)) (mg_outgoing g k) else []) @
    (if d \<noteq> Outgoing then map (\<lambda>edge. (edge, edge_start edge)) (mg_incoming g k) else [])"
  have xs: "p \<in> set xs \<longleftrightarrow> fst p \<in> edges_of g \<and> joins d (fst p) k (snd p)" for p
    using assms by (cases p) (auto simp: xs_def graph_indexed_def joins_def)
  have e: "adjacentEdges g k d = withoutRepeats (sortStable adjacentBefore xs)" by (simp add: adjacentEdges_def xs_def)
  have unique: "r = r'" if "r \<in> edges_of g" "r' \<in> edges_of g" "edge_key r = edge_key r'" for r r'
  proof -
    have "distinct (map fst (mg_edges g))" "\<forall>(j, x) \<in> set (mg_edges g). j = edge_key x"
      using assms by (auto simp: graph_indexed_def)
    moreover from this have "(edge_key r, r) \<in> set (mg_edges g)" "(edge_key r, r') \<in> set (mg_edges g)"
      using that by (auto simp: edges_of_def)
    ultimately show ?thesis by (metis eq_key_imp_eq_value)
  qed
  show ?thesis
  proof
    assume "(edge, next) \<in> set (adjacentEdges g k d)"
    then show "edge \<in> edges_of g \<and> joins d edge k next"
      using withoutRepeats_subset [of "sortStable adjacentBefore xs"] xs [of "(edge, next)"] by (auto simp: e)
  next
    assume r: "edge \<in> edges_of g \<and> joins d edge k next"
    then have "adjacent_key (edge, next) \<in> adjacent_key ` set (adjacentEdges g k d)"
      using xs [of "(edge, next)"] by (simp add: e withoutRepeats_keys)
    then obtain p where p: "p \<in> set (adjacentEdges g k d)" "adjacent_key p = adjacent_key (edge, next)" by auto
    then have "fst p \<in> edges_of g" using withoutRepeats_subset [of "sortStable adjacentBefore xs"] xs [of p] by (auto simp: e)
    then have "fst p = edge" "snd p = next" using p(2) unique r by (auto simp: adjacent_key_def)
    then show "(edge, next) \<in> set (adjacentEdges g k d)" using p(1) by (cases p) simp
  qed
qed

section \<open>Walks are trails\<close>

type_synonym steps = "(cvalue \<times> cvalue) list"

definition end_node :: "cvalue \<Rightarrow> steps \<Rightarrow> cvalue" where
  "end_node node s = (if s = [] then node else snd (last s))"

definition prolong :: "path \<Rightarrow> steps \<Rightarrow> path" where
  "prolong path s = (fst path @ map snd s, snd path @ map fst s)"

text \<open>A trail from a node: relationships of the graph in the direction of the pattern, none of them used before, that
  pass its test, with the nodes they lead to.\<close>

fun trail :: "memoryGraph \<Rightarrow> direction \<Rightarrow> (cvalue \<Rightarrow> bool) \<Rightarrow> string list \<Rightarrow> cvalue \<Rightarrow> steps \<Rightarrow> bool" where
  "trail g d passes used node [] \<longleftrightarrow> True"
| "trail g d passes used node ((edge, next) # s) \<longleftrightarrow>
     edge \<in> edges_of g \<and> next \<in> nodes_of g \<and> joins d edge (node_key node) (node_key next) \<and>
     edge_key edge \<notin> set used \<and> passes edge \<and> trail g d passes (edge_key edge # used) next s"

text \<open>The trails in the order in which \<open>walk\<close> visits their ends.\<close>

definition onward ::
    "memoryGraph \<Rightarrow> (cvalue \<Rightarrow> bool) \<Rightarrow> string list \<Rightarrow> (string list \<Rightarrow> cvalue \<Rightarrow> steps list) \<Rightarrow> cvalue \<times> string \<Rightarrow> steps list" where
  "onward g passes used further a =
     (if edge_key (fst a) \<in> set used \<or> \<not> passes (fst a) then []
      else case map_of (mg_nodes g) (snd a) of
             None \<Rightarrow> []
           | Some next \<Rightarrow> map ((#) (fst a, next)) (further (edge_key (fst a) # used) next))"

fun trails :: "memoryGraph \<Rightarrow> direction \<Rightarrow> (cvalue \<Rightarrow> bool) \<Rightarrow> nat \<Rightarrow> string list \<Rightarrow> cvalue \<Rightarrow> steps list" where
  "trails g d passes 0 used node = [[]]"
| "trails g d passes (Suc n) used node =
     [] # concat (map (onward g passes used (trails g d passes n)) (adjacentEdges g (node_key node) d))"

lemma node_lookup:
  assumes "graph_indexed lib g"
  shows "map_of (mg_nodes g) k = Some n \<longleftrightarrow> n \<in> nodes_of g \<and> node_key n = k"
proof -
  have g: "distinct (map fst (mg_nodes g))" "\<forall>(k, n) \<in> set (mg_nodes g). k = node_key n"
    using assms by (auto simp: graph_indexed_def)
  then show ?thesis by (force simp: nodes_of_def)
qed

lemma set_onward:
  assumes "graph_indexed lib g"
  shows "s \<in> set (onward g passes used further (edge, next)) \<longleftrightarrow>
    (\<exists>x t. s = (edge, x) # t \<and> edge_key edge \<notin> set used \<and> passes edge \<and> x \<in> nodes_of g \<and> node_key x = next \<and>
      t \<in> set (further (edge_key edge # used) x))"
proof (cases "map_of (mg_nodes g) next")
  case None
  then have "\<not> (x \<in> nodes_of g \<and> node_key x = next)" for x using node_lookup [OF assms, of "next" x] by simp
  then show ?thesis using None by (auto simp: onward_def)
next
  case (Some x)
  then have x: "y \<in> nodes_of g \<and> node_key y = next \<longleftrightarrow> y = x" for y using node_lookup [OF assms, of "next" y] by auto
  have "s \<in> set (onward g passes used further (edge, next)) \<longleftrightarrow>
    edge_key edge \<notin> set used \<and> passes edge \<and> (\<exists>t. s = (edge, x) # t \<and> t \<in> set (further (edge_key edge # used) x))"
    by (auto simp: onward_def Some)
  also have "\<dots> \<longleftrightarrow> (\<exists>y t. s = (edge, y) # t \<and> edge_key edge \<notin> set used \<and> passes edge \<and> (y \<in> nodes_of g \<and> node_key y = next) \<and>
      t \<in> set (further (edge_key edge # used) y))"
    unfolding x by blast
  finally show ?thesis by (simp only: conj_assoc)
qed

lemma set_trails:
  assumes "graph_indexed lib g"
  shows "s \<in> set (trails g d passes n used node) \<longleftrightarrow> length s \<le> n \<and> trail g d passes used node s"
proof (induction n arbitrary: used node s)
  case (Suc n)
  show ?case
  proof (cases s)
    case (Cons p t)
    obtain edge x where p: "p = (edge, x)" by (cases p)
    have "s \<in> set (trails g d passes (Suc n) used node) \<longleftrightarrow>
      (\<exists>e next. (e, next) \<in> set (adjacentEdges g (node_key node) d) \<and> s \<in> set (onward g passes used (trails g d passes n) (e, next)))"
    proof -
      have "s \<in> set (trails g d passes (Suc n) used node) \<longleftrightarrow>
        (\<exists>a \<in> set (adjacentEdges g (node_key node) d). s \<in> set (onward g passes used (trails g d passes n) a))"
        using Cons by simp
      then show ?thesis by auto
    qed
    also have "\<dots> \<longleftrightarrow> (edge, node_key x) \<in> set (adjacentEdges g (node_key node) d) \<and> edge_key edge \<notin> set used \<and> passes edge \<and>
        x \<in> nodes_of g \<and> t \<in> set (trails g d passes n (edge_key edge # used) x)"
      unfolding set_onward [OF assms] by (auto simp: Cons p)
    finally show ?thesis
      unfolding Suc adjacentEdges_set [OF assms] by (auto simp: Cons p)
  qed simp
qed auto

lemma distinct_trails:
  assumes "graph_indexed lib g"
  shows "distinct (trails g d passes n used node)"
proof (induction n arbitrary: used node)
  case (Suc n)
  let ?part = "onward g passes used (trails g d passes n)"
  have parts: "distinct (?part a)" for a
    using Suc by (auto simp: onward_def distinct_map split: option.split)
  have heads: "\<exists>t x. s = (fst a, x) # t \<and> node_key x = snd a" if "s \<in> set (?part a)" for s a
    using that set_onward [OF assms, of s passes used "trails g d passes n" "fst a" "snd a"] by auto
  have disjoint: "set (?part a) \<inter> set (?part b) = {}" if "a \<noteq> b" for a b
  proof (rule equals0I)
    fix s
    assume "s \<in> set (?part a) \<inter> set (?part b)"
    then obtain t x u y where "s = (fst a, x) # t" "node_key x = snd a" "s = (fst b, y) # u" "node_key y = snd b"
      using heads [of s a] heads [of s b] by blast
    then have "fst a = fst b" "snd a = snd b" by simp_all
    then show False using that by (simp add: prod_eq_iff)
  qed
  have "distinct (concat (map ?part as))" if "distinct as" for as
    using that
  proof (induction as)
    case (Cons a as)
    have "\<forall>b \<in> set as. set (?part a) \<inter> set (?part b) = {}" using disjoint Cons.prems by (metis distinct.simps(2))
    then have "set (?part a) \<inter> set (concat (map ?part as)) = {}" unfolding set_concat set_map by blast
    then show ?case using parts Cons by simp
  qed simp
  moreover have "distinct (adjacentEdges g (node_key node) d)"
    using adjacentEdges_distinct by (rule distinct_map [THEN iffD1, THEN conjunct1])
  moreover have "[] \<notin> set (?part a)" for a using heads [of "[]" a] by auto
  ultimately show ?case by simp
qed simp

section \<open>A walk visits the ends of its trails\<close>

lemma bindE_return: "bindE m Inr = m"
  by (cases m) simp_all

lemma mapE_append: "mapE f (xs @ ys) = bindE (mapE f xs) (\<lambda>vs. bindE (mapE f ys) (\<lambda>ws. Inr (vs @ ws)))"
  by (induction xs) (simp_all add: bindE_assoc bindE_return)

lemma prolong_simps [simp]:
  "prolong path [] = path" "prolong (fst path @ [x], snd path @ [edge]) s = prolong path ((edge, x) # s)"
  by (simp_all add: prolong_def)

lemma end_node_simps [simp]: "end_node node [] = node" "end_node node ((edge, x) # s) = end_node x s"
  by (simp_all add: end_node_def)

lemma walk_visits:
  assumes "walk g d follows visit n depth node path used = Inr found"
  shows "\<exists>parts. mapE (\<lambda>s. visit (depth + int (length s)) (end_node node s) (prolong path s))
      (trails g d (\<lambda>edge. follows edge = Inr True) n used node) = Inr parts \<and> found = concat parts"
  using assms
proof (induction n arbitrary: depth node path used found)
  case (Suc n)
  let ?passes = "\<lambda>edge. follows edge = Inr True"
  let ?visit = "\<lambda>s. visit (depth + int (length s)) (end_node node s) (prolong path s)"
  let ?step = "\<lambda>(edge, next). if edge_key edge \<in> set used then Inr []
    else bindE (follows edge) (\<lambda>ok. if \<not> ok then Inr []
      else case map_of (mg_nodes g) next of None \<Rightarrow> Inr []
        | Some nextNode \<Rightarrow> walk g d follows visit n (depth + 1) nextNode (fst path @ [nextNode], snd path @ [edge]) (edge_key edge # used))"
  obtain first rest where split: "visit depth node path = Inr first" "mapE ?step (adjacentEdges g (node_key node) d) = Inr rest"
    "found = first @ concat rest"
    using Suc.prems by (auto simp: bindE_Inr_iff)
  have one: "\<exists>parts. mapE ?visit (onward g ?passes used (trails g d ?passes n) a) = Inr parts \<and> out = concat parts"
    if "?step a = Inr out" for a out
  proof -
    obtain edge "next" where a: "a = (edge, next)" by (cases a)
    show ?thesis
    proof (cases "edge_key edge \<in> set used \<or> follows edge \<noteq> Inr True \<or> map_of (mg_nodes g) next = None")
      case True
      then show ?thesis using that by (auto simp: a onward_def bindE_Inr_iff split: if_splits option.splits)
    next
      case False
      then obtain x where x: "map_of (mg_nodes g) next = Some x" by blast
      then have "walk g d follows visit n (depth + 1) x (fst path @ [x], snd path @ [edge]) (edge_key edge # used) = Inr out"
        using that False by (simp add: a)
      from Suc.IH [OF this] obtain parts where
        "mapE (\<lambda>s. visit (depth + 1 + int (length s)) (end_node x s) (prolong path ((edge, x) # s)))
          (trails g d ?passes n (edge_key edge # used) x) = Inr parts" "out = concat parts"
        by auto
      then have "mapE ?visit (onward g ?passes used (trails g d ?passes n) a) = Inr parts \<and> out = concat parts"
        using False x by (simp add: a onward_def mapE_Inr_iff list_all2_map1 add.assoc)
      then show ?thesis by blast
    qed
  qed
  have all: "\<exists>parts. mapE ?visit (concat (map (onward g ?passes used (trails g d ?passes n)) as)) = Inr parts \<and> concat outs = concat parts"
    if "mapE ?step as = Inr outs" for as outs
    using that
  proof (induction as arbitrary: outs)
    case (Cons a as)
    then obtain out outs' where o: "?step a = Inr out" "mapE ?step as = Inr outs'" "outs = out # outs'"
      by (auto simp: bindE_Inr_iff simp del: split_paired_Ex)
    then show ?case using one [OF o(1)] Cons.IH [OF o(2)] by (auto simp: mapE_append)
  qed simp
  show ?case using all [OF split(2)] split(1,3) by auto
qed simp

end
