(* ===== verification/Match_Exact.thy ===== *)
theory Match_Exact
  imports Match_Walk
begin

text \<open>
  The rows that a pattern matches are exactly the assignments of trails to its relationships: every assignment gives
  one row, and no row comes from anything else.
\<close>

section \<open>Enumerations\<close>

text \<open>A list that holds the result of every argument that has one, once for each such argument.\<close>

definition enumerates :: "'r list \<Rightarrow> ('a \<Rightarrow> 'r option) \<Rightarrow> bool" where
  "enumerates out A \<longleftrightarrow> (\<exists>ys. distinct ys \<and> set ys = {y. A y \<noteq> None} \<and> map Some out = map A ys)"

lemma enumerates_none: "(\<And>y. A y = None) \<Longrightarrow> enumerates [] A"
  by (simp add: enumerates_def)

lemma enumerates_one: "A y = Some r \<Longrightarrow> (\<And>z. A z \<noteq> None \<Longrightarrow> z = y) \<Longrightarrow> enumerates [r] A"
  unfolding enumerates_def by (intro exI [of _ "[y]"]) auto

lemma enumerates_image:
  assumes "enumerates out A" "inj f" "\<And>y. B (f y) = A y" "\<And>z. B z \<noteq> None \<Longrightarrow> z \<in> range f"
  shows "enumerates out B"
proof -
  obtain ys where ys: "distinct ys" "set ys = {y. A y \<noteq> None}" "map Some out = map A ys"
    using assms(1) unfolding enumerates_def by blast
  have "distinct (map f ys)" using ys(1) inj_on_subset [OF assms(2) subset_UNIV] by (simp add: distinct_map)
  moreover have "set (map f ys) = {z. B z \<noteq> None}"
  proof (intro set_eqI iffI)
    fix z
    assume "z \<in> set (map f ys)"
    then obtain y where "z = f y" "y \<in> {y. A y \<noteq> None}" unfolding set_map ys(2) by blast
    then show "z \<in> {z. B z \<noteq> None}" using assms(3) [of y] by simp
  next
    fix z
    assume z: "z \<in> {z. B z \<noteq> None}"
    then obtain y where y: "z = f y" using assms(4) [of z] by blast
    then have "y \<in> set ys" using z assms(3) [of y] unfolding ys(2) by simp
    then show "z \<in> set (map f ys)" using y by simp
  qed
  moreover have "map Some out = map B (map f ys)" using ys(3) assms(3) by simp
  ultimately show ?thesis unfolding enumerates_def by blast
qed

lemma enumerates_cong:
  assumes "enumerates out A" "\<And>y. B y = A y"
  shows "enumerates out B"
proof -
  have "B = A" using assms(2) by (rule ext)
  then show ?thesis using assms(1) by simp
qed

lemma enumerates_filter:
  assumes "enumerates out A"
  shows "enumerates (List.map_filter h out) (\<lambda>y. Option.bind (A y) h)"
proof -
  obtain ys where ys: "distinct ys" "set ys = {y. A y \<noteq> None}" "map Some out = map A ys"
    using assms unfolding enumerates_def by blast
  let ?B = "\<lambda>y. Option.bind (A y) h"
  have "map Some (List.map_filter h out) = map ?B (filter (\<lambda>y. ?B y \<noteq> None) ys)" using ys(3)
  proof (induction ys arbitrary: out)
    case (Cons y ys)
    then obtain r rest where "out = r # rest" "A y = Some r" "map Some rest = map A ys" by (cases out) auto
    then show ?case using Cons.IH by (cases "h r") (auto simp: List.map_filter_simps)
  qed (simp add: List.map_filter_simps)
  moreover have "set (filter (\<lambda>y. ?B y \<noteq> None) ys) = {y. ?B y \<noteq> None}" using ys(2) by auto
  ultimately show ?thesis using ys(1) unfolding enumerates_def by (meson distinct_filter)
qed

lemma enumerates_concat:
  assumes "mapE F xs = Inr outs" "distinct xs" "\<forall>x \<in> set xs. \<forall>out. F x = Inr out \<longrightarrow> enumerates out (A x)"
  shows "enumerates (concat outs) (\<lambda>(x, y). if x \<in> set xs then A x y else None)"
  using assms
proof (induction xs arbitrary: outs)
  case (Cons x xs)
  obtain out outs' where split: "F x = Inr out" "mapE F xs = Inr outs'" "outs = out # outs'"
    using Cons.prems(1) by (auto simp: bindE_Inr_iff)
  obtain ys where ys: "distinct ys" "set ys = {y. A x y \<noteq> None}" "map Some out = map (A x) ys"
    using Cons.prems(3) split(1) unfolding enumerates_def by auto
  obtain zs where zs: "distinct zs" "set zs = {p. (case p of (x, y) \<Rightarrow> if x \<in> set xs then A x y else None) \<noteq> None}"
    "map Some (concat outs') = map (\<lambda>(x, y). if x \<in> set xs then A x y else None) zs"
    using Cons.IH [OF split(2)] Cons.prems(2,3) unfolding enumerates_def by auto
  have inside: "fst p \<in> set xs" if "p \<in> set zs" for p using zs(2) that by (auto split: prod.splits if_splits)
  let ?all = "map (Pair x) ys @ zs"
  have "distinct ?all" using ys(1) zs(1) inside Cons.prems(2) by (auto simp: distinct_map inj_on_def)
  moreover have "(w, y) \<in> set ?all \<longleftrightarrow> (if w \<in> set (x # xs) then A w y else None) \<noteq> None" for w y
  proof (cases "w = x")
    case True
    then have "(w, y) \<notin> set zs" using inside [of "(w, y)"] Cons.prems(2) by auto
    then show ?thesis using True ys(2) by auto
  next
    case False
    then show ?thesis using zs(2) by auto
  qed
  then have "set ?all = {p. (case p of (w, y) \<Rightarrow> if w \<in> set (x # xs) then A w y else None) \<noteq> None}"
    unfolding set_eq_iff split_paired_All mem_Collect_eq prod.case by blast
  moreover have "map (\<lambda>(x, y). if x \<in> set xs then A x y else None) zs = map (\<lambda>(w, y). if w \<in> set (x # xs) then A w y else None) zs"
    using inside by (intro map_cong) auto
  then have "map Some (concat outs) = map (\<lambda>(w, y). if w \<in> set (x # xs) then A w y else None) ?all"
    using ys(3) zs(3) by (simp add: split(3) comp_def)
  ultimately show ?case unfolding enumerates_def by blast
qed (simp add: enumerates_none)

section \<open>Assignments of trails\<close>

text \<open>The row and the path of an assignment of one segment to every relationship of the pattern, if the segments are
  trails within the bounds that use no relationship twice, also across segments, the nodes between them match, and the
  variables agree.\<close>

fun assign ::
    "memoryGraph \<Rightarrow> ('p, 'q) evaluator \<Rightarrow> row \<Rightarrow> (('p, 'q) rel_pattern \<times> ('p, 'q) node_pattern) list \<Rightarrow> path \<Rightarrow> steps list \<Rightarrow>
     (row \<times> path) option" where
  "assign g e values [] current [] = Some (values, current)"
| "assign g e values ((pattern, target) # rest) current (s # ss) =
     (case relationshipBounds e values pattern (int (length (mg_edges g))) of
        Inl _ \<Rightarrow> None
      | Inr (minimum, maximum) \<Rightarrow>
          let node = last (fst current); stop = end_node node s in
          if minimum \<le> int (length s) \<and> int (length s) \<le> maximum \<and>
             trail g (rp_direction pattern) (\<lambda>edge. relationshipPatternMatches e values edge pattern = Inr True)
               (map edge_key (snd current)) node s \<and>
             nodePatternMatches e values stop target = Inr True
          then Option.bind (bindValue values (np_variable target) stop) (\<lambda>bound.
               Option.bind (bindValue bound (rp_variable pattern) (relationshipValue pattern current (prolong current s))) (\<lambda>next.
                 assign g e next rest (prolong current s) ss))
          else None)"
| "assign _ _ _ _ _ _ = None"

lemma pathBound_nonneg: "pathBound e values m d x = Inr n \<Longrightarrow> 0 \<le> d \<Longrightarrow> 0 \<le> n"
  by (auto simp: pathBound_def bindE_Inr_iff split: if_splits option.splits)

lemma relationshipBounds_nonneg:
  assumes "relationshipBounds e values pattern (int k) = Inr (minimum, maximum)"
  shows "0 \<le> minimum" "0 \<le> maximum"
proof -
  have "0 \<le> minimum \<and> 0 \<le> maximum"
  proof (cases "rp_length pattern")
    case None
    then show ?thesis using assms by (simp add: relationshipBounds_def)
  next
    case (Some len)
    then obtain d where "pathBound e values ''path lower bound must be a non-negative integer'' 1 (len_lower len) = Inr minimum"
      "pathBound e values ''path upper bound must be a non-negative integer'' d (len_upper len) = Inr maximum"
      "d = minimum \<or> d = int k"
      using assms by (auto simp: relationshipBounds_def bindE_Inr_iff)
    then show ?thesis using pathBound_nonneg by fastforce
  qed
  then show "0 \<le> minimum" "0 \<le> maximum" by simp_all
qed

lemma last_prolong: "last (fst (prolong path s)) = end_node (last (fst path)) s"
  by (simp add: prolong_def end_node_def last_map)

lemma extend_exact:
  assumes g: "graph_indexed lib g" and r: "extendPattern g e values steps current = Inr found"
  shows "enumerates found (assign g e values steps current)"
  using r
proof (induction steps arbitrary: "values" current found)
  case Nil
  then have "found = [(values, current)]" by simp
  moreover have "assign g e values [] current ss \<noteq> None \<Longrightarrow> ss = []" for ss by (cases ss) simp_all
  ultimately show ?case by (auto intro: enumerates_one [of _ "[]"])
next
  case (Cons p rest)
  obtain pattern target where p: "p = (pattern, target)" by (cases p)
  let ?node = "last (fst current)" and ?used = "map edge_key (snd current)"
  let ?follows = "\<lambda>edge. relationshipPatternMatches e values edge pattern"
  let ?visit = "\<lambda>minimum depth node path. if depth < minimum then Inr []
    else bindE (nodePatternMatches e values node target) (\<lambda>ok.
      if \<not> ok then Inr []
      else case bindValue values (np_variable target) node of None \<Rightarrow> Inr []
           | Some bound \<Rightarrow> (case bindValue bound (rp_variable pattern) (relationshipValue pattern current path) of None \<Rightarrow> Inr []
                           | Some next \<Rightarrow> extendPattern g e next rest path))"
  obtain minimum maximum where b: "relationshipBounds e values pattern (int (length (mg_edges g))) = Inr (minimum, maximum)"
    and w: "walk g (rp_direction pattern) ?follows (?visit minimum) (nat maximum) 0 ?node current ?used = Inr found"
    using Cons.prems by (auto simp: p bindE_Inr_iff)
  note bounds = relationshipBounds_nonneg [OF b]
  let ?trails = "trails g (rp_direction pattern) (\<lambda>edge. ?follows edge = Inr True) (nat maximum) ?used ?node"
  let ?F = "\<lambda>s. ?visit minimum (0 + int (length s)) (end_node ?node s) (prolong current s)"
  obtain parts where parts: "mapE ?F ?trails = Inr parts" "found = concat parts"
    using walk_visits [OF w] by blast
  define A where "A s ss = (if minimum \<le> int (length s) \<and> nodePatternMatches e values (end_node ?node s) target = Inr True
      then Option.bind (bindValue values (np_variable target) (end_node ?node s)) (\<lambda>bound.
           Option.bind (bindValue bound (rp_variable pattern) (relationshipValue pattern current (prolong current s))) (\<lambda>next.
             assign g e next rest (prolong current s) ss))
      else None)" for s ss
  have each: "enumerates out (A s)" if out: "?F s = Inr out" for s out
  proof (cases "minimum \<le> int (length s) \<and> nodePatternMatches e values (end_node ?node s) target = Inr True")
    case True
    show ?thesis
    proof (cases "\<exists>bound next. bindValue values (np_variable target) (end_node ?node s) = Some bound \<and>
        bindValue bound (rp_variable pattern) (relationshipValue pattern current (prolong current s)) = Some next")
      case True
      then obtain bound "next" where v: "bindValue values (np_variable target) (end_node ?node s) = Some bound"
        "bindValue bound (rp_variable pattern) (relationshipValue pattern current (prolong current s)) = Some next" by blast
      then have "extendPattern g e next rest (prolong current s) = Inr out"
        using out \<open>minimum \<le> int (length s) \<and> _\<close> by simp
      then have "enumerates out (assign g e next rest (prolong current s))" by (rule Cons.IH)
      then show ?thesis by (rule enumerates_cong) (simp add: A_def \<open>minimum \<le> int (length s) \<and> _\<close> v)
    next
      case False
      then have "out = []" using out \<open>minimum \<le> int (length s) \<and> _\<close> by (auto split: option.splits)
      moreover have "A s ss = None" for ss using False by (auto simp: A_def bind_eq_None_conv)
      ultimately show ?thesis by (simp add: enumerates_none)
    qed
  next
    case False
    then have "out = []" using out by (auto simp: bindE_Inr_iff split: if_splits)
    moreover have "A s ss = None" for ss using False unfolding A_def by (rule if_not_P)
    ultimately show ?thesis by (simp add: enumerates_none)
  qed
  have all: "enumerates found (\<lambda>(s, ss). if s \<in> set ?trails then A s ss else None)"
    unfolding parts(2) using each by (intro enumerates_concat [OF parts(1) distinct_trails [OF g]]) blast
  have inside: "s \<in> set ?trails \<longleftrightarrow> int (length s) \<le> maximum \<and> trail g (rp_direction pattern) (\<lambda>edge. ?follows edge = Inr True) ?used ?node s" for s
    using bounds(2) by (simp add: set_trails [OF g] le_nat_iff)
  show ?case
  proof (rule enumerates_image [OF all])
    show "inj (\<lambda>(s, ss). s # ss)" by (auto simp: inj_on_def)
    show "assign g e values (p # rest) current (case y of (s, ss) \<Rightarrow> s # ss) = (case y of (s, ss) \<Rightarrow> if s \<in> set ?trails then A s ss else None)" for y
      by (cases y) (simp add: p b inside A_def Let_def)
    show "z \<in> range (\<lambda>(s, ss). s # ss)" if "assign g e values (p # rest) current z \<noteq> None" for z
      using that by (cases z) (auto simp: p)
  qed
qed

section \<open>A pattern and a row\<close>

definition startNode :: "memoryGraph \<Rightarrow> ('p, 'q) evaluator \<Rightarrow> row \<Rightarrow> ('p, 'q) node_pattern \<Rightarrow> cvalue \<Rightarrow> bool" where
  "startNode g e values pattern c \<longleftrightarrow>
     (case expectedProperties e values (np_properties pattern) of
        Inl _ \<Rightarrow> False
      | Inr expected \<Rightarrow>
          nodeMatchesExpected c (np_labels pattern) expected \<and>
          (case (if np_variable pattern = [] then None else values (np_variable pattern)) of
             None \<Rightarrow> c \<in> nodes_of g
           | Some bound \<Rightarrow> c = bound \<and> is_node bound))"

definition matchOf ::
    "memoryGraph \<Rightarrow> ('p, 'q) evaluator \<Rightarrow> ('p, 'q) pattern_part \<Rightarrow> row \<Rightarrow> cvalue \<times> steps list \<Rightarrow> row option" where
  "matchOf g e pattern values m =
     (case m of
        (c, ss) \<Rightarrow>
          let start = hd (el_nodes (pp_element pattern)) in
          if startNode g e values start c
          then Option.bind (bindValue values (np_variable start) c) (\<lambda>next.
               Option.bind (assign g e next (element_steps (pp_element pattern)) ([c], []) ss) (\<lambda>(found, path).
                 bindValue found (pp_variable pattern) (path_value path)))
          else None)"

lemma nodePointers_nodes:
  assumes "graph_indexed lib g"
  shows "distinct (nodePointers g)" "set (nodePointers g) = nodes_of g"
proof -
  have nodes: "distinct (map fst (mg_nodes g))" "\<forall>(k, n) \<in> set (mg_nodes g). k = node_key n"
    using assms by (auto simp: graph_indexed_def)
  have "map fst (mg_nodes g) = map node_key (map snd (mg_nodes g))" using nodes(2) by (induction "mg_nodes g") auto
  then have "distinct (map snd (mg_nodes g))" using nodes(1) by (metis distinct_map)
  then have "inj_on snd (set (mg_nodes g))" using distinct_map by blast
  then show "distinct (nodePointers g)" using nodes(1) by (simp add: nodePointers_def distinct_map)
  show "set (nodePointers g) = nodes_of g" by (simp add: nodePointers_def nodes_of_def)
qed

lemma candidates_start:
  assumes g: "graph_indexed (ev_library e) g" and r: "candidateNodes g e values pattern = Inr cs"
    and safe: "\<forall>expected. expectedProperties e values (np_properties pattern) = Inr expected \<longrightarrow> index_safe expected"
  shows "distinct cs \<and> (\<forall>c. c \<in> set cs \<longleftrightarrow> startNode g e values pattern c)"
proof -
  obtain expected where x: "expectedProperties e values (np_properties pattern) = Inr expected"
    using r unfolding candidateNodes_def bindE_Inr_iff by blast
  let ?bound = "if np_variable pattern = [] then None else values (np_variable pattern)"
  show ?thesis
  proof (cases ?bound)
    case None
    then have unbound: "np_variable pattern = [] \<or> values (np_variable pattern) = None" by (auto split: if_splits)
    have cs: "cs = filter (\<lambda>node. nodeMatchesExpected node (np_labels pattern) expected) (nodePointers g)"
      using r candidateNodes_scan [OF g x _ unbound] safe x by simp
    have "distinct (nodePointers g)" "set (nodePointers g) = nodes_of g" using nodePointers_nodes [OF g] by blast+
    moreover have "startNode g e values pattern c \<longleftrightarrow> nodeMatchesExpected c (np_labels pattern) expected \<and> c \<in> nodes_of g" for c
      unfolding startNode_def x None by simp
    ultimately show ?thesis unfolding cs by auto
  next
    case (Some bound)
    have "candidateNodes g e values pattern = Inr (case bound of
        CNode _ _ _ _ _ _ \<Rightarrow> if nodeMatchesExpected bound (np_labels pattern) expected then [bound] else [] | _ \<Rightarrow> [])"
      unfolding candidateNodes_def x Some by simp
    then have "cs = (if is_node bound \<and> nodeMatchesExpected bound (np_labels pattern) expected then [bound] else [])"
      using r by (cases bound) (simp_all add: is_node_def)
    moreover have "startNode g e values pattern c \<longleftrightarrow> nodeMatchesExpected c (np_labels pattern) expected \<and> c = bound \<and> is_node bound" for c
      unfolding startNode_def x Some by simp
    ultimately show ?thesis by auto
  qed
qed

lemma matchRow_exact:
  assumes g: "graph_indexed (ev_library e) g"
    and safe: "\<forall>expected. expectedProperties e values (np_properties (hd (el_nodes (pp_element pattern)))) = Inr expected \<longrightarrow> index_safe expected"
    and r: "matchRow g e pattern values = Inr rows"
  shows "enumerates rows (matchOf g e pattern values)"
proof -
  let ?start = "hd (el_nodes (pp_element pattern))" and ?steps = "element_steps (pp_element pattern)"
  let ?finish = "\<lambda>(found, path). bindValue found (pp_variable pattern) (path_value path)"
  let ?F = "\<lambda>candidate. case bindValue values (np_variable ?start) candidate of None \<Rightarrow> Inr []
    | Some next \<Rightarrow> bindE (extendPattern g e next ?steps ([candidate], [])) (\<lambda>matched. Inr (List.map_filter ?finish matched))"
  obtain cs parts where cs: "candidateNodes g e values ?start = Inr cs" and parts: "mapE ?F cs = Inr parts" "rows = concat parts"
    using r by (auto simp: matchRow_def bindE_Inr_iff Let_def)
  note start = candidates_start [OF g cs safe]
  define A where "A c ss = Option.bind (bindValue values (np_variable ?start) c) (\<lambda>next.
    Option.bind (assign g e next ?steps ([c], []) ss) ?finish)" for c ss
  have each: "enumerates out (A c)" if out: "?F c = Inr out" for c out
  proof (cases "bindValue values (np_variable ?start) c")
    case None
    then show ?thesis using out by (simp add: A_def enumerates_none)
  next
    case (Some "next")
    then obtain matched where m: "extendPattern g e next ?steps ([c], []) = Inr matched" "out = List.map_filter ?finish matched"
      using out by (auto simp: bindE_Inr_iff)
    show ?thesis unfolding m(2)
      by (rule enumerates_cong [OF enumerates_filter [OF extend_exact [OF g m(1)]]]) (simp add: A_def Some)
  qed
  have "enumerates rows (\<lambda>(c, ss). if c \<in> set cs then A c ss else None)"
    unfolding parts(2) using each start by (intro enumerates_concat [OF parts(1)]) blast+
  then show ?thesis
    by (rule enumerates_cong) (auto simp: matchOf_def A_def start Let_def split: prod.split)
qed

end
