(* ===== verification/Match_Properties.thy ===== *)
theory Match_Properties
  imports Match_Exact Query_Types
begin

text \<open>
  What MATCH promises to the clauses that follow it: its rows are the matches of its patterns, each extends the row
  it came from and binds every variable of the patterns.
\<close>

section \<open>Bindings are kept\<close>

lemma bindValue_binds:
  assumes "bindValue values name v = Some r"
  shows "values \<subseteq>\<^sub>m r" "name \<noteq> [] \<Longrightarrow> name \<in> dom r"
  using assms by (auto simp: bindValue_def map_le_def split: if_splits option.splits)

definition names_bound :: "string set \<Rightarrow> row \<Rightarrow> row \<Rightarrow> bool" where
  "names_bound names values r \<longleftrightarrow> values \<subseteq>\<^sub>m r \<and> names - {[]} \<subseteq> dom r"

lemma names_bound_refl: "names_bound {} values values"
  by (simp add: names_bound_def)

lemma names_bound_trans: "names_bound N values r \<Longrightarrow> names_bound M r s \<Longrightarrow> names_bound (N \<union> M) values s"
  unfolding names_bound_def by (blast intro: map_le_trans dest: map_le_implies_dom_le)

lemma bindValue_names: "bindValue values name v = Some r \<Longrightarrow> names_bound {name} values r"
  using bindValue_binds [of "values" name v r] by (auto simp: names_bound_def dom_def)

definition step_names :: "(('p, 'q) rel_pattern \<times> ('p, 'q) node_pattern) list \<Rightarrow> string set" where
  "step_names steps = (\<lambda>(r, n). np_variable n) ` set steps \<union> (\<lambda>(r, n). rp_variable r) ` set steps"

lemma assign_names:
  assumes "assign g e values steps current ss = Some (found, path)"
  shows "names_bound (step_names steps) values found"
  using assms
proof (induction g e "values" steps current ss rule: assign.induct)
  case (1 g e "values" current)
  then show ?case by (simp add: step_names_def names_bound_def)
next
  case (2 g e "values" pattern target rest current s ss)
  then obtain bound "next" where bound: "bindValue values (np_variable target) (end_node (last (fst current)) s) = Some bound"
    "bindValue bound (rp_variable pattern) (relationshipValue pattern current (prolong current s)) = Some next"
    and rest: "assign g e next rest (prolong current s) ss = Some (found, path)"
    by (auto simp: Let_def bind_eq_Some_conv split: sum.splits if_splits)
  have "names_bound (step_names rest) next found"
    using rest 2 bound by (auto simp: Let_def bind_eq_Some_conv split: sum.splits if_splits)
  then have "names_bound ({np_variable target} \<union> {rp_variable pattern} \<union> step_names rest) values found"
    using bindValue_names [OF bound(1)] bindValue_names [OF bound(2)] by (blast intro: names_bound_trans)
  then show ?case by (simp add: step_names_def Un_commute Un_left_commute insert_commute)
qed simp_all

section \<open>Rows of a clause\<close>

lemma enumerates_sound: "enumerates out A \<Longrightarrow> r \<in> set out \<Longrightarrow> \<exists>y. A y = Some r"
proof -
  assume "enumerates out A" "r \<in> set out"
  then obtain ys where "map Some out = map A ys" unfolding enumerates_def by blast
  then have "Some r \<in> set (map A ys)" using \<open>r \<in> set out\<close> by (metis imageI list.set_map)
  then show ?thesis by auto
qed

text \<open>What the parser guarantees of a pattern: a node, then relationships with a node each.\<close>

definition well_shaped :: "('p, 'q) pattern_part \<Rightarrow> bool" where
  "well_shaped pattern \<longleftrightarrow> length (el_nodes (pp_element pattern)) = length (el_rels (pp_element pattern)) + 1"

definition part_names :: "('p, 'q) pattern_part \<Rightarrow> string set" where
  "part_names p = {pp_variable p} \<union> np_variable ` set (el_nodes (pp_element p)) \<union> rp_variable ` set (el_rels (pp_element p))"

lemma part_names_split:
  assumes "well_shaped p"
  shows "part_names p = {np_variable (hd (el_nodes (pp_element p)))} \<union> step_names (element_steps (pp_element p)) \<union> {pp_variable p}"
proof -
  obtain n ns where ns: "el_nodes (pp_element p) = n # ns" "length ns = length (el_rels (pp_element p))"
    using assms by (cases "el_nodes (pp_element p)") (auto simp: well_shaped_def)
  let ?steps = "zip (el_rels (pp_element p)) ns"
  have "map snd ?steps = ns" "map fst ?steps = el_rels (pp_element p)" using ns(2) by simp_all
  then have "set ns = snd ` set ?steps" "set (el_rels (pp_element p)) = fst ` set ?steps" by (metis list.set_map)+
  moreover have "step_names ?steps = np_variable ` snd ` set ?steps \<union> rp_variable ` fst ` set ?steps"
    by (simp add: step_names_def image_image case_prod_beta')
  ultimately have "step_names ?steps = np_variable ` set ns \<union> rp_variable ` set (el_rels (pp_element p))" by simp
  then show ?thesis by (auto simp: part_names_def element_steps_def ns(1))
qed

lemma mapE_member: "mapE f xs = Inr ys \<Longrightarrow> y \<in> set ys \<Longrightarrow> \<exists>x \<in> set xs. f x = Inr y"
  by (induction xs arbitrary: ys) (auto simp: bindE_Inr_iff)

lemma mapE_result: "mapE f xs = Inr ys \<Longrightarrow> x \<in> set xs \<Longrightarrow> \<exists>y \<in> set ys. f x = Inr y"
  by (induction xs arbitrary: ys) (auto simp: bindE_Inr_iff)

lemma matchRow_names:
  assumes "graph_indexed lib g" "matchRow g e pattern values = Inr rows" "well_shaped pattern" "r \<in> set rows"
  shows "names_bound (part_names pattern) values r"
proof -
  let ?start = "hd (el_nodes (pp_element pattern))"
  obtain cs parts where parts: "mapE (\<lambda>candidate. case bindValue values (np_variable ?start) candidate of None \<Rightarrow> Inr []
      | Some next \<Rightarrow> bindE (extendPattern g e next (element_steps (pp_element pattern)) ([candidate], [])) (\<lambda>matched.
          Inr (List.map_filter (\<lambda>(found, path). bindValue found (pp_variable pattern) (path_value path)) matched))) cs = Inr parts"
    and rows: "rows = concat parts"
    using assms(2) by (auto simp: matchRow_def bindE_Inr_iff Let_def)
  obtain part where part: "part \<in> set parts" "r \<in> set part" using assms(4) rows by auto
  then obtain c where c: "(case bindValue values (np_variable ?start) c of None \<Rightarrow> Inr []
      | Some next \<Rightarrow> bindE (extendPattern g e next (element_steps (pp_element pattern)) ([c], [])) (\<lambda>matched.
          Inr (List.map_filter (\<lambda>(found, path). bindValue found (pp_variable pattern) (path_value path)) matched))) = Inr part"
    using mapE_member [OF parts] by blast
  obtain "next" matched where n: "bindValue values (np_variable ?start) c = Some next"
    "extendPattern g e next (element_steps (pp_element pattern)) ([c], []) = Inr matched"
    "part = List.map_filter (\<lambda>(found, path). bindValue found (pp_variable pattern) (path_value path)) matched"
    using c part(2) by (auto simp: bindE_Inr_iff split: option.splits)
  obtain found path where f: "(found, path) \<in> set matched" "bindValue found (pp_variable pattern) (path_value path) = Some r"
    using part(2) n(3) by (auto simp: List.map_filter_def)
  obtain ss where "assign g e next (element_steps (pp_element pattern)) ([c], []) ss = Some (found, path)"
    using enumerates_sound [OF extend_exact [OF assms(1) n(2)] f(1)] by blast
  then have "names_bound (step_names (element_steps (pp_element pattern))) next found" by (rule assign_names)
  from names_bound_trans [OF names_bound_trans [OF bindValue_names [OF n(1)] this] bindValue_names [OF f(2)]]
  show ?thesis unfolding part_names_split [OF assms(3)] .
qed

lemma matchPattern_names:
  assumes "graph_indexed lib g" "matchPattern g e input pattern = Inr rows" "well_shaped pattern" "r \<in> set rows"
  shows "\<exists>values \<in> set input. names_bound (part_names pattern) values r"
proof -
  obtain parts where parts: "mapE (matchRow g e pattern) input = Inr parts" "rows = concat parts"
    using assms(2) by (auto simp: matchPattern_def bindE_Inr_iff)
  then obtain part where part: "part \<in> set parts" "r \<in> set part" using assms(4) by auto
  then obtain "values" where "values \<in> set input" "matchRow g e pattern values = Inr part"
    using mapE_member [OF parts(1)] by blast
  then show ?thesis using matchRow_names assms(1,3) part(2) by blast
qed

lemma matchPatterns_names:
  assumes "graph_indexed lib g" "foldE (\<lambda>matches pattern. matchPattern g e matches pattern) input patterns = Inr rows"
    "list_all well_shaped patterns" "r \<in> set rows"
  shows "\<exists>values \<in> set input. names_bound (\<Union> (part_names ` set patterns)) values r"
  using assms(2-4)
proof (induction patterns arbitrary: input)
  case Nil
  then show ?case using names_bound_refl by auto
next
  case (Cons p ps)
  then obtain mid where mid: "matchPattern g e input p = Inr mid"
    "foldE (\<lambda>matches pattern. matchPattern g e matches pattern) mid ps = Inr rows"
    by (auto simp: bindE_Inr_iff)
  obtain m where m: "m \<in> set mid" "names_bound (\<Union> (part_names ` set ps)) m r"
    using Cons.IH [OF mid(2)] Cons.prems(2,3) by auto
  obtain "values" where v: "values \<in> set input" "names_bound (part_names p) values m"
    using matchPattern_names [OF assms(1) mid(1) _ m(1)] Cons.prems(2) by auto
  then show ?case using names_bound_trans [OF v(2) m(2)] by auto
qed

lemma filterRows_subset: "filterRows e input x = Inr rows \<Longrightarrow> set rows \<subseteq> set input"
proof -
  assume "filterRows e input x = Inr rows"
  then obtain parts where parts: "mapE (\<lambda>values. bindE (evaluate e values x) (\<lambda>v. case v of
      CBool b \<Rightarrow> Inr (if b then [values] else []) | CNull \<Rightarrow> Inr [] | _ \<Rightarrow> Inl (EvalError ''WHERE expects a boolean, got %T''))) input = Inr parts"
    "rows = concat parts" unfolding filterRows_def bindE_Inr_iff by blast
  have "set part \<subseteq> set input" if part: "part \<in> set parts" for part
  proof -
    obtain "values" v where v: "values \<in> set input" "(case v of CBool b \<Rightarrow> Inr (if b then [values] else []) | CNull \<Rightarrow> Inr []
      | _ \<Rightarrow> Inl (EvalError ''WHERE expects a boolean, got %T'')) = Inr part"
      using mapE_member [OF parts(1) part] unfolding bindE_Inr_iff by blast
    then show ?thesis by (cases v) (auto split: if_splits)
  qed
  then show ?thesis using parts(2) by auto
qed

lemma optional_names:
  fixes names :: "string list" and "values" :: row
  defines "r \<equiv> foldl (\<lambda>r name. if r name = None then r(name \<mapsto> CNull) else r) values names"
  shows "values \<subseteq>\<^sub>m r \<and> set names \<subseteq> dom r"
  unfolding r_def
proof (induction names arbitrary: "values")
  case (Cons name names)
  let ?r = "if values name = None then values(name \<mapsto> CNull) else values"
  have "values \<subseteq>\<^sub>m ?r" "name \<in> dom ?r" by (auto simp: map_le_def)
  moreover have "?r \<subseteq>\<^sub>m foldl (\<lambda>r name. if r name = None then r(name \<mapsto> CNull) else r) ?r names \<and>
    set names \<subseteq> dom (foldl (\<lambda>r name. if r name = None then r(name \<mapsto> CNull) else r) ?r names)" by (rule Cons.IH)
  ultimately show ?case
    unfolding foldl_Cons list.set using map_le_trans map_le_implies_dom_le by blast
qed simp

lemma set_patternVariables: "set (patternVariables patterns) = \<Union> (part_names ` set patterns) - {[]}"
  by (auto simp: patternVariables_def part_names_def)

lemma matchClauseRow_names:
  assumes "graph_indexed lib g" "matchClauseRow g e clause values = Inr rows" "list_all well_shaped (mc_patterns clause)"
  shows "\<forall>r \<in> set rows. values \<subseteq>\<^sub>m r \<and> set (patternVariables (mc_patterns clause)) \<subseteq> dom r"
    "mc_optional clause \<Longrightarrow> rows \<noteq> []"
proof -
  let ?filled = "foldl (\<lambda>r name. if r name = None then r(name \<mapsto> CNull) else r) values (patternVariables (mc_patterns clause))"
  obtain found matches where f: "foldE (\<lambda>matches pattern. matchPattern g e matches pattern) [values] (mc_patterns clause) = Inr found"
    "(if mc_where clause = NilExpression then Inr found else filterRows e found (mc_where clause)) = Inr matches"
    "rows = (if matches = [] \<and> mc_optional clause then [?filled] else matches)"
    using assms(2) by (auto simp: matchClauseRow_def bindE_Inr_iff)
  have "set matches \<subseteq> set found" using f(2) filterRows_subset [of e found "mc_where clause" matches] by (cases "mc_where clause = NilExpression") simp_all
  moreover have "names_bound (\<Union> (part_names ` set (mc_patterns clause))) values r" if "r \<in> set found" for r
    using matchPatterns_names [OF assms(1) f(1) assms(3) that] by simp
  ultimately have "values \<subseteq>\<^sub>m r \<and> set (patternVariables (mc_patterns clause)) \<subseteq> dom r" if "r \<in> set matches" for r
    using that unfolding names_bound_def set_patternVariables by blast
  moreover note optional_names [of "values" "patternVariables (mc_patterns clause)"]
  ultimately show "\<forall>r \<in> set rows. values \<subseteq>\<^sub>m r \<and> set (patternVariables (mc_patterns clause)) \<subseteq> dom r"
    unfolding f(3) by (cases "matches = [] \<and> mc_optional clause") auto
  show "mc_optional clause \<Longrightarrow> rows \<noteq> []" unfolding f(3) by simp
qed

lemma nodePointers_sorted:
  assumes g: "graph_indexed lib g" and nodes: "nodes_of g = set nodes" "distinct (map node_key nodes)"
  shows "nodePointers g = sort_key node_key nodes"
proof -
  have keys: "\<forall>(k, n) \<in> set (mg_nodes g). k = node_key n" using g by (auto simp: graph_indexed_def)
  have "map fst (sort_key fst (mg_nodes g)) = map node_key (nodePointers g)" unfolding nodePointers_def map_map
    by (rule map_cong [OF refl]) (use keys in auto)
  moreover have "sorted (map fst (sort_key fst (mg_nodes g)))" by simp
  ultimately have "sorted (map node_key (nodePointers g))" by simp
  moreover have "mset nodes = mset (nodePointers g)"
    using nodePointers_nodes [OF g] nodes by (simp add: distinct_map set_eq_iff_mset_eq_distinct [symmetric])
  moreover have "inj_on node_key (set nodes)" using nodes(2) by (simp add: distinct_map)
  ultimately show ?thesis by (intro sort_key_inj_key_eq [symmetric])
qed

section \<open>The samples\<close>

text \<open>Three nodes on an undirected cycle of \<open>LINK\<close> relationships, and the pattern \<open>(a:Page {name: 'one'})-[r:LINK*1..3]-(b)\<close>.\<close>

definition sample_nodes :: "cvalue list" where
  "sample_nodes =
     [CNode ''k1'' [''Page''] [(''name'', CString ''one'')] ''first'' 1 None,
      CNode ''k2'' [''Page''] [(''name'', CString ''two'')] ''second'' 1 None,
      CNode ''k3'' [] [] ''third'' 1 None]"

definition sample_edges :: "cvalue list" where
  "sample_edges =
     [CEdge ''e1'' ''k1'' ''LINK'' ''k2'' None [] 1 None, CEdge ''e2'' ''k2'' ''LINK'' ''k3'' None [] 1 None,
      CEdge ''e3'' ''k3'' ''LINK'' ''k1'' None [] 1 None]"

definition sample_pattern :: "(unit, unit) pattern_part" where
  "sample_pattern =
     \<lparr>pp_variable = ''p'',
      pp_element =
        \<lparr>el_nodes =
           [\<lparr>np_variable = ''a'', np_labels = [''Page''], np_properties = MapLiteral [(''name'', Literal (CString ''one''))]\<rparr>,
            \<lparr>np_variable = ''b'', np_labels = [], np_properties = NilExpression\<rparr>],
         el_rels =
           [\<lparr>rp_variable = ''r'', rp_types = [''LINK''],
             rp_length = Some \<lparr>len_lower = Literal (CInt 1), len_upper = Literal (CInt 3), len_exact = False\<rparr>,
             rp_properties = NilExpression, rp_direction = Undirected\<rparr>]\<rparr>\<rparr>"

definition sample_library :: library where
  "sample_library =
     \<lparr>lib_json_float = (\<lambda>_. ''0''), lib_go_syntax = (\<lambda>_. []), lib_pow = (\<lambda>x _. x), lib_sqrt = (\<lambda>x. x), lib_decimal = (\<lambda>_. 0),
      lib_float_text = (\<lambda>_. ''0''), lib_parse_float = (\<lambda>_. None), lib_regexp = (\<lambda>_. None), lib_lower = (\<lambda>s. s),
      lib_upper = (\<lambda>s. s), lib_trim = (\<lambda>s. s), lib_zones = None\<rparr>"

text \<open>A graph is built from its current nodes and relationships; their identifiers are keys in the store.\<close>

definition graph_input_ok :: "cvalue list \<Rightarrow> cvalue list \<Rightarrow> bool" where
  "graph_input_ok nodes edges \<longleftrightarrow>
     list_all is_node nodes \<and> distinct (map node_key nodes) \<and> list_all is_edge edges \<and> distinct (map edge_key edges)"

abbreviation sample_graph :: memoryGraph where
  "sample_graph \<equiv> newMemoryGraph sample_library sample_nodes sample_edges"

lemma sample_facts:
  "graph_input_ok sample_nodes sample_edges" "ev_library (sample_evaluator sample_library) = sample_library"
  "expectedProperties (sample_evaluator sample_library) Map.empty (np_properties (hd (el_nodes (pp_element sample_pattern)))) =
     Inr [(''name'', CString ''one'')]"
proof -
  show "graph_input_ok sample_nodes sample_edges" by code_simp
  show "ev_library (sample_evaluator sample_library) = sample_library" by (simp add: sample_evaluator_def sample_library_def)
  show "expectedProperties (sample_evaluator sample_library) Map.empty (np_properties (hd (el_nodes (pp_element sample_pattern)))) =
     Inr [(''name'', CString ''one'')]" by code_simp
qed

section \<open>The properties\<close>

text \<open>C15: Where none of the property values that the start node of a pattern asks for is a list or a map, the matcher is
  complete and exact: the rows that a pattern gives for an input row are the results of its matches, each admissible
  match once and nothing else. A match is a start node and, for every relationship pattern, a trail within its bounds
  that uses no relationship of the whole path twice. (With a list or a map the index lookup of the start node may miss
  a node, see the findings.)\<close>

theorem pattern_rows_exact:
  assumes "graph_input_ok nodes edges" "g = newMemoryGraph (ev_library e) nodes edges"
    "\<forall>values \<in> set input. \<forall>expected.
       expectedProperties e values (np_properties (hd (el_nodes (pp_element pattern)))) = Inr expected \<longrightarrow> index_safe expected"
    "matchPattern g e input pattern = Inr rows"
  shows "nodes_of g = set nodes \<and> edges_of g = set edges \<and>
    (\<exists>parts. rows = concat parts \<and> list_all2 (\<lambda>values part. enumerates part (matchOf g e pattern values)) input parts)"
proof -
  have g: "graph_indexed (ev_library e) g" "nodes_of g = set nodes" "edges_of g = set edges"
    using newMemoryGraph_indexed [of nodes edges] assms(1,2) by (simp_all add: graph_input_ok_def)
  obtain parts where parts: "list_all2 (\<lambda>values part. matchRow g e pattern values = Inr part) input parts" "rows = concat parts"
    using assms(4) unfolding matchPattern_def bindE_Inr_iff mapE_Inr_iff by blast
  have "list_all2 (\<lambda>values part. enumerates part (matchOf g e pattern values)) input parts"
    using parts(1) by (rule list.rel_mono_strong) (use matchRow_exact [OF g(1)] assms(3) in blast)
  then show ?thesis using g parts(2) by blast
qed

theorem pattern_rows_exact_witness:
  "\<exists>rows. matchPattern sample_graph (sample_evaluator sample_library) [Map.empty] sample_pattern = Inr rows \<and> length rows = 6 \<and>
     enumerates rows (matchOf sample_graph (sample_evaluator sample_library) sample_pattern Map.empty)"
proof -
  have "case matchPattern sample_graph (sample_evaluator sample_library) [Map.empty] sample_pattern of
      Inl _ \<Rightarrow> False | Inr rows \<Rightarrow> length rows = 6"
    by code_simp
  then obtain rows where rows: "matchPattern sample_graph (sample_evaluator sample_library) [Map.empty] sample_pattern = Inr rows"
    "length rows = 6"
    by (auto split: sum.splits)
  have "\<forall>values \<in> set [Map.empty]. \<forall>expected. expectedProperties (sample_evaluator sample_library) values
      (np_properties (hd (el_nodes (pp_element sample_pattern)))) = Inr expected \<longrightarrow> index_safe expected"
    using sample_facts(3) by (simp add: index_safe_def)
  from pattern_rows_exact [OF sample_facts(1) _ this rows(1)]
  obtain parts where "rows = concat parts"
    "list_all2 (\<lambda>values part. enumerates part (matchOf sample_graph (sample_evaluator sample_library) sample_pattern values)) [Map.empty] parts"
    using sample_facts(2) by auto
  then show ?thesis using rows by (auto simp: list_all2_Cons1)
qed

text \<open>C16: An index lookup is a scan: where the label and property indexes choose the candidates of a node pattern,
  they leave out no node that the pattern accepts and the order is the same, so the result is the filtered list of all
  nodes, provided no expected value is a list or a map.\<close>

theorem index_lookup_is_scan:
  assumes "graph_input_ok nodes edges" "g = newMemoryGraph (ev_library e) nodes edges"
    "expectedProperties e values (np_properties pattern) = Inr expected" "index_safe expected"
    "np_variable pattern = [] \<or> values (np_variable pattern) = None"
  shows "candidateNodes g e values pattern =
    Inr (filter (\<lambda>node. nodeMatchesExpected node (np_labels pattern) expected) (sort_key node_key nodes))"
proof -
  have g: "graph_indexed (ev_library e) g" "nodes_of g = set nodes"
    using newMemoryGraph_indexed [of nodes edges] assms(1,2) by (simp_all add: graph_input_ok_def)
  have "nodePointers g = sort_key node_key nodes"
    using nodePointers_sorted [OF g(1)] assms(1) g(2) by (simp add: graph_input_ok_def)
  then show ?thesis using candidateNodes_scan [OF g(1) assms(3-5)] by simp
qed

theorem index_lookup_is_scan_witness:
  "candidateNodes sample_graph (sample_evaluator sample_library) Map.empty (hd (el_nodes (pp_element sample_pattern))) =
     Inr [hd sample_nodes]"
proof -
  have "index_safe [(''name'', CString ''one'')]" by (simp add: index_safe_def)
  from index_lookup_is_scan [OF sample_facts(1) _ sample_facts(3) this]
  have "candidateNodes sample_graph (sample_evaluator sample_library) Map.empty (hd (el_nodes (pp_element sample_pattern))) =
    Inr (filter (\<lambda>node. nodeMatchesExpected node (np_labels (hd (el_nodes (pp_element sample_pattern)))) [(''name'', CString ''one'')])
      (sort_key node_key sample_nodes))"
    by (simp add: sample_facts(2))
  also have "\<dots> = Inr [hd sample_nodes]" by code_simp
  finally show ?thesis .
qed

text \<open>C17: After MATCH, every row extends one of the input rows and binds all variables of the patterns; OPTIONAL
  MATCH loses no input row.\<close>

theorem match_binds_variables:
  assumes "graph_input_ok nodes edges" "list_all well_shaped (mc_patterns clause)"
    "matchClauseRows (newMemoryGraph (ev_library e) nodes edges) e input clause = Inr rows"
  shows "(\<forall>r \<in> set rows. set (patternVariables (mc_patterns clause)) \<subseteq> dom r \<and> (\<exists>values \<in> set input. values \<subseteq>\<^sub>m r)) \<and>
    (mc_optional clause \<longrightarrow> (\<forall>values \<in> set input. \<exists>r \<in> set rows. values \<subseteq>\<^sub>m r))"
proof -
  let ?g = "newMemoryGraph (ev_library e) nodes edges"
  have g: "graph_indexed (ev_library e) ?g"
    using newMemoryGraph_indexed [of nodes edges] assms(1) by (simp add: graph_input_ok_def)
  note names = matchClauseRow_names [OF g _ assms(2)]
  obtain parts where parts: "mapE (matchClauseRow ?g e clause) input = Inr parts" "rows = concat parts"
    using assms(3) unfolding matchClauseRows_def bindE_Inr_iff by blast
  have "set (patternVariables (mc_patterns clause)) \<subseteq> dom r \<and> (\<exists>values \<in> set input. values \<subseteq>\<^sub>m r)" if r: "r \<in> set rows" for r
  proof -
    obtain part where part: "part \<in> set parts" "r \<in> set part" using r parts(2) by auto
    then obtain "values" where "values \<in> set input" "matchClauseRow ?g e clause values = Inr part"
      using mapE_member [OF parts(1)] by blast
    then show ?thesis using names(1) part(2) by blast
  qed
  moreover have "\<exists>r \<in> set rows. values \<subseteq>\<^sub>m r" if opt: "mc_optional clause" and v: "values \<in> set input" for "values"
  proof -
    obtain part where part: "part \<in> set parts" "matchClauseRow ?g e clause values = Inr part"
      using mapE_result [OF parts(1) v] by blast
    then have "hd part \<in> set part" using names(2) [OF part(2) opt] by simp
    then obtain r where r: "r \<in> set part" ..
    then have "values \<subseteq>\<^sub>m r" using names(1) [OF part(2)] by blast
    moreover have "r \<in> set rows" using r part(1) parts(2) by auto
    ultimately show ?thesis by blast
  qed
  ultimately show ?thesis by blast
qed

definition sample_clause :: "(unit, unit) match_clause" where
  "sample_clause =
     \<lparr>mc_optional = True, mc_patterns = [sample_pattern],
      mc_where = IsNullExpression (Variable ''a'') False\<rparr>"

theorem match_binds_variables_witness:
  "\<exists>rows. matchClauseRows sample_graph (sample_evaluator sample_library) [[''n'' \<mapsto> CInt 1]] sample_clause = Inr rows \<and>
     length rows = 1 \<and> (\<forall>r \<in> set rows. {''a'', ''b'', ''p'', ''r''} \<subseteq> dom r \<and> r ''n'' = Some (CInt 1))"
proof -
  have "case matchClauseRows sample_graph (sample_evaluator sample_library) [[''n'' \<mapsto> CInt 1]] sample_clause of
      Inl _ \<Rightarrow> False | Inr rows \<Rightarrow> length rows = 1"
    by code_simp
  then obtain rows where rows: "matchClauseRows sample_graph (sample_evaluator sample_library) [[''n'' \<mapsto> CInt 1]] sample_clause = Inr rows"
    "length rows = 1"
    by (auto split: sum.splits)
  have shaped: "list_all well_shaped (mc_patterns sample_clause)" by code_simp
  have "patternVariables (mc_patterns sample_clause) = [''a'', ''b'', ''p'', ''r'']" by code_simp
  then have "\<forall>r \<in> set rows. {''a'', ''b'', ''p'', ''r''} \<subseteq> dom r \<and> [''n'' \<mapsto> CInt 1] \<subseteq>\<^sub>m r"
    using match_binds_variables [OF sample_facts(1) shaped, of "sample_evaluator sample_library" "[[''n'' \<mapsto> CInt 1]]" rows]
      rows(1) sample_facts(2)
    by simp
  then have "\<forall>r \<in> set rows. {''a'', ''b'', ''p'', ''r''} \<subseteq> dom r \<and> r ''n'' = Some (CInt 1)"
    by (auto simp: map_le_def)
  then show ?thesis using rows by blast
qed

end
