(* ===== verification/Shortest_Path.thy ===== *)
theory Shortest_Path
  imports Graph_Match
begin

text \<open>
  Shortest paths, the second half of \<open>internal/engine/match.go\<close>: a breadth-first search by levels from every start
  node, with the predecessors of each node on the level before, and the reconstruction of the paths.  The searches
  take the test of patterns that the engine reports as such (\<open>shortestPatternUsesBFS\<close> of \<open>iterator.go\<close>); all others
  choose among the paths of the matcher.
\<close>

section \<open>Tests\<close>

definition shortestPatternUsesBFS :: "('p, 'q) element \<Rightarrow> bool" where
  "shortestPatternUsesBFS pattern \<longleftrightarrow>
     (if length (el_nodes pattern) \<noteq> 2 \<or> length (el_rels pattern) \<noteq> 1 then False
      else let relationship = hd (el_rels pattern)
           in if rp_length relationship \<noteq> None \<and> rp_variable relationship \<noteq> [] then False
              else case rp_length relationship of
                     None \<Rightarrow> True
                   | Some len \<Rightarrow>
                       if len_lower len = NilExpression then True
                       else case len_lower len of
                              Literal v \<Rightarrow> (case integer v of None \<Rightarrow> False | Some n \<Rightarrow> n \<le> 1)
                            | _ \<Rightarrow> False)"

definition shortestTargetMatches :: "('p, 'q) evaluator \<Rightarrow> row \<Rightarrow> cvalue \<Rightarrow> ('p, 'q) node_pattern \<Rightarrow> qerror + bool" where
  "shortestTargetMatches e values node pattern =
     (if np_variable pattern \<noteq> [] \<and>
         (case values (np_variable pattern) of
            None \<Rightarrow> False
          | Some bound \<Rightarrow> (case bound of CNode k _ _ _ _ _ \<Rightarrow> k \<noteq> node_key node | _ \<Rightarrow> True))
      then Inr False else nodePatternMatches e values node pattern)"

definition shortestRelationshipMatches :: "('p, 'q) evaluator \<Rightarrow> row \<Rightarrow> cvalue \<Rightarrow> ('p, 'q) rel_pattern \<Rightarrow> qerror + bool" where
  "shortestRelationshipMatches e values edge pattern =
     (if rp_variable pattern \<noteq> [] \<and>
         (case values (rp_variable pattern) of
            None \<Rightarrow> False
          | Some bound \<Rightarrow> (case bound of CEdge k _ _ _ _ _ _ _ \<Rightarrow> k \<noteq> edge_key edge | _ \<Rightarrow> True))
      then Inr False else relationshipPatternMatches e values edge pattern)"

definition pathUsesRelationship :: "path \<Rightarrow> string \<Rightarrow> bool" where
  "pathUsesRelationship path k \<longleftrightarrow> list_ex (\<lambda>edge. edge_key edge = k) (snd path)"

definition sortedNodeIDs :: "string list \<Rightarrow> string list" where
  "sortedNodeIDs keys = sort (remdups keys)"

section \<open>The search\<close>

text \<open>The variables of the search; the sets \<open>nextSet\<close> and the keys of \<open>targetIDs\<close> are lists.\<close>

record search =
  sp_levels :: "string \<Rightarrow> int option"
  sp_predecessors :: "string \<Rightarrow> (string \<times> cvalue) list"
  sp_next :: "string list"
  sp_targets :: "string list"
  sp_completed :: "path list"

definition nodeAt :: "memoryGraph \<Rightarrow> string \<Rightarrow> cvalue" where
  "nodeAt g k = (case map_of (mg_nodes g) k of None \<Rightarrow> CNull | Some node \<Rightarrow> node)"

text \<open>The closure \<open>walk\<close> of \<open>reconstructShortestPaths\<close>; a step back leads one level down, so the level of the target is
  enough fuel.\<close>

fun walkBack ::
    "memoryGraph \<Rightarrow> (string \<Rightarrow> (string \<times> cvalue) list) \<Rightarrow> string \<Rightarrow> nat \<Rightarrow> string \<Rightarrow> cvalue list \<Rightarrow> cvalue list \<Rightarrow> path list" where
  "walkBack g predecessors start 0 current reverseNodes reverseEdges =
     (if current = start then [(rev reverseNodes, rev reverseEdges)] else [])"
| "walkBack g predecessors start (Suc fuel) current reverseNodes reverseEdges =
     (if current = start then [(rev reverseNodes, rev reverseEdges)]
      else concat (map (\<lambda>(from, edge).
             case map_of (mg_nodes g) from of
               None \<Rightarrow> []
             | Some node \<Rightarrow> walkBack g predecessors start fuel from (reverseNodes @ [node]) (reverseEdges @ [edge]))
           (predecessors current)))"

definition reconstructShortestPaths :: "memoryGraph \<Rightarrow> search \<Rightarrow> string \<Rightarrow> string \<Rightarrow> path list" where
  "reconstructShortestPaths g st start target =
     (if start = target then [([nodeAt g start], [])]
      else walkBack g (sp_predecessors st) start (case sp_levels st target of None \<Rightarrow> 0 | Some level \<Rightarrow> nat level) target
             [nodeAt g target] [])"

text \<open>What the loop body does with a relationship that passes: a closed trail is completed, another node is entered on
  its first level.\<close>

definition enterNode :: "memoryGraph \<Rightarrow> cvalue \<Rightarrow> int \<Rightarrow> int \<Rightarrow> string \<Rightarrow> cvalue \<Rightarrow> cvalue \<Rightarrow> bool \<Rightarrow> search \<Rightarrow> search" where
  "enterNode g start minimum depth current edge node isTarget st =
     (let k = node_key node; previous = sp_levels st k in
      if k = node_key start \<and> isTarget \<and> minimum \<le> depth then
        st\<lparr>sp_completed := sp_completed st @
             map (\<lambda>(nodes, edges). (nodes @ [start], edges @ [edge]))
               (filter (\<lambda>prefix. \<not> pathUsesRelationship prefix (edge_key edge))
                 (reconstructShortestPaths g st (node_key start) current))\<rparr>
      else if (case previous of None \<Rightarrow> False | Some level \<Rightarrow> level < depth) \<and> (\<not> isTarget \<or> minimum \<le> depth) then st
      else let entered =
             (if previous = None \<or> previous = Some depth
              then st\<lparr>sp_levels := (sp_levels st)(k \<mapsto> depth),
                      sp_predecessors := (sp_predecessors st)(k := sp_predecessors st k @ [(current, edge)]),
                      sp_next := sp_next st @ [k]\<rparr>
              else st)
           in if minimum \<le> depth \<and> isTarget then entered\<lparr>sp_targets := sp_targets entered @ [k]\<rparr> else entered)"

definition visitAdjacent ::
    "memoryGraph \<Rightarrow> ('p, 'q) evaluator \<Rightarrow> row \<Rightarrow> cvalue \<Rightarrow> ('p, 'q) node_pattern \<Rightarrow> ('p, 'q) rel_pattern \<Rightarrow> int \<Rightarrow> int \<Rightarrow>
     string \<Rightarrow> search \<Rightarrow> cvalue \<times> string \<Rightarrow> qerror + search" where
  "visitAdjacent g e values start target relationship minimum depth current st a =
     bindE (shortestRelationshipMatches e values (fst a) relationship) (\<lambda>matches.
       if \<not> matches then Inr st
       else case map_of (mg_nodes g) (snd a) of
              None \<Rightarrow> Inr st
            | Some node \<Rightarrow>
                bindE (shortestTargetMatches e values node target) (\<lambda>isTarget.
                  Inr (enterNode g start minimum depth current (fst a) node isTarget st)))"

definition searchLevel ::
    "memoryGraph \<Rightarrow> ('p, 'q) evaluator \<Rightarrow> row \<Rightarrow> cvalue \<Rightarrow> ('p, 'q) node_pattern \<Rightarrow> ('p, 'q) rel_pattern \<Rightarrow> int \<Rightarrow> int \<Rightarrow>
     search \<Rightarrow> string list \<Rightarrow> qerror + search" where
  "searchLevel g e values start target relationship minimum depth st frontier =
     foldE (\<lambda>st currentID.
         case map_of (mg_nodes g) currentID of
           None \<Rightarrow> Inr st
         | Some current \<Rightarrow>
             foldE (visitAdjacent g e values start target relationship minimum depth (node_key current)) st
               (adjacentEdges g (node_key current) (rp_direction relationship)))
       (st\<lparr>sp_next := []\<rparr>) frontier"

text \<open>The loop over the levels, while \<open>remaining\<close> levels are left to the maximum.\<close>

fun searchLoop :: "(int \<Rightarrow> search \<Rightarrow> string list \<Rightarrow> qerror + search) \<Rightarrow> nat \<Rightarrow> int \<Rightarrow> string list \<Rightarrow> search \<Rightarrow> qerror + search" where
  "searchLoop level 0 depth frontier st = Inr st"
| "searchLoop level (Suc remaining) depth frontier st =
     (if frontier = [] then Inr st
      else bindE (level depth st frontier) (\<lambda>st'.
        if sp_targets st' \<noteq> [] \<or> sp_completed st' \<noteq> [] then Inr st'
        else searchLoop level remaining (depth + 1) (sortedNodeIDs (sp_next st')) st'))"

definition firstSearch :: "cvalue \<Rightarrow> search" where
  "firstSearch start =
     \<lparr>sp_levels = [node_key start \<mapsto> 0], sp_predecessors = (\<lambda>_. []), sp_next = [], sp_targets = [], sp_completed = []\<rparr>"

definition shortestPathsFrom ::
    "memoryGraph \<Rightarrow> ('p, 'q) evaluator \<Rightarrow> row \<Rightarrow> cvalue \<Rightarrow> ('p, 'q) node_pattern \<Rightarrow> ('p, 'q) rel_pattern \<Rightarrow> int \<Rightarrow> int \<Rightarrow>
     qerror + path list" where
  "shortestPathsFrom g e values start target relationship minimum maximum =
     (if maximum < 0 then Inr []
      else bindE (if minimum = 0 then shortestTargetMatches e values start target else Inr False) (\<lambda>ok.
        if ok then Inr [([start], [])]
        else bindE (searchLoop (searchLevel g e values start target relationship minimum) (nat maximum) 1 [node_key start]
                      (firstSearch start)) (\<lambda>st.
          Inr (sp_completed st @
            concat (map (reconstructShortestPaths g st (node_key start)) (sortedNodeIDs (sp_targets st)))))))"

section \<open>The shortest among several\<close>

fun joinKeys :: "string list \<Rightarrow> string" where
  "joinKeys [] = []"
| "joinKeys [k] = k"
| "joinKeys (k # ks) = k @ CHR 0x00 # joinKeys ks"

definition pathOrderKey :: "path \<Rightarrow> string" where
  "pathOrderKey path = joinKeys (map edge_key (snd path))"

definition selectShortestPaths :: "path list \<Rightarrow> bool \<Rightarrow> cvalue" where
  "selectShortestPaths paths all =
     (let minimum = foldl (\<lambda>m path. if length (snd path) < m then length (snd path) else m) (length (snd (hd paths))) (tl paths);
          result = sortStable (\<lambda>a b. pathOrderKey a < pathOrderKey b) (filter (\<lambda>path. length (snd path) = minimum) paths)
      in if all then CList (map path_value result) else path_value (hd result))"

definition expressionPathKey :: string where
  "expressionPathKey = CHR 0x00 # ''sheets.expression-path''"

definition evaluatePatternRows :: "memoryGraph \<Rightarrow> ('p, 'q) evaluator \<Rightarrow> ('p, 'q) element \<Rightarrow> string \<Rightarrow> row \<Rightarrow> qerror + row list" where
  "evaluatePatternRows g e element variable values = matchPattern g e [values] \<lparr>pp_variable = variable, pp_element = element\<rparr>"

definition evaluatePattern :: "memoryGraph \<Rightarrow> ('p, 'q) evaluator \<Rightarrow> ('p, 'q) element \<Rightarrow> row \<Rightarrow> qerror + path list" where
  "evaluatePattern g e element values =
     bindE (evaluatePatternRows g e element expressionPathKey values) (\<lambda>matched.
       Inr (List.map_filter (\<lambda>candidate.
         case candidate expressionPathKey of Some (CPath nodes edges) \<Rightarrow> Some (nodes, edges) | _ \<Rightarrow> None) matched))"

definition evaluateShortestPattern :: "memoryGraph \<Rightarrow> ('p, 'q) evaluator \<Rightarrow> ('p, 'q) element \<Rightarrow> row \<Rightarrow> bool \<Rightarrow> qresult" where
  "evaluateShortestPattern g e element values all =
     (if \<not> shortestPatternUsesBFS element
      then bindE (evaluatePattern g e element values) (\<lambda>paths.
             Inr (if paths = [] then CNull else selectShortestPaths paths all))
      else
        let relationship = hd (el_rels element); startPattern = hd (el_nodes element); targetPattern = el_nodes element ! 1 in
        bindE (relationshipBounds e values relationship (int (length (mg_edges g)))) (\<lambda>(minimum, maximum).
        bindE (candidateNodes g e values startPattern) (\<lambda>starts.
        bindE (mapE (\<lambda>start. shortestPathsFrom g e values start targetPattern relationship minimum maximum) starts) (\<lambda>parts.
          let paths = concat parts in Inr (if paths = [] then CNull else selectShortestPaths paths all)))))"

end
