(* ===== verification/Shortest_Levels.thy ===== *)
theory Shortest_Levels
  imports Shortest_Path Match_Exact
begin

text \<open>
  The breadth-first search finds exactly the shortest trails.  A node is on a level when its distance from the start
  is that level; a shortest trail climbs one level with every step, and a path that does so uses no relationship twice.
\<close>

section \<open>Levels\<close>

text \<open>\<open>h u x v\<close>: a step leads from \<open>u\<close> along \<open>x\<close> to \<open>v\<close>.\<close>

fun hops :: "('v \<Rightarrow> 'x \<Rightarrow> 'v \<Rightarrow> bool) \<Rightarrow> 'v \<Rightarrow> nat \<Rightarrow> 'v \<Rightarrow> bool" where
  "hops h s 0 v \<longleftrightarrow> v = s"
| "hops h s (Suc n) v \<longleftrightarrow> (\<exists>u x. hops h s n u \<and> h u x v)"

definition at_level :: "('v \<Rightarrow> 'x \<Rightarrow> 'v \<Rightarrow> bool) \<Rightarrow> 'v \<Rightarrow> nat \<Rightarrow> 'v \<Rightarrow> bool" where
  "at_level h s n v \<longleftrightarrow> hops h s n v \<and> (\<forall>m < n. \<not> hops h s m v)"

lemma at_level_0 [simp]: "at_level h s 0 v \<longleftrightarrow> v = s"
  by (simp add: at_level_def)

lemma at_level_unique: "at_level h s m v \<Longrightarrow> at_level h s n v \<Longrightarrow> m = n"
  unfolding at_level_def by (metis linorder_neqE_nat)

lemma hops_level: "hops h s n v \<Longrightarrow> \<exists>m \<le> n. at_level h s m v"
proof -
  assume r: "hops h s n v"
  let ?m = "LEAST m. hops h s m v"
  have "hops h s ?m v" using r by (rule LeastI)
  moreover have "\<forall>k < ?m. \<not> hops h s k v" using not_less_Least by blast
  moreover have "?m \<le> n" using r by (rule Least_le)
  ultimately show ?thesis unfolding at_level_def by blast
qed

lemma at_level_hops: "at_level h s n v \<Longrightarrow> hops h s n v"
  by (simp add: at_level_def)

lemma at_level_back:
  assumes level: "at_level h s (Suc n) v"
  shows "\<exists>u x. at_level h s n u \<and> h u x v"
proof -
  obtain u x where u: "hops h s n u" "h u x v" using at_level_hops [OF level] by auto
  have "\<not> hops h s m u" if "m < n" for m
  proof
    assume "hops h s m u"
    then have "hops h s (Suc m) v" using u(2) by auto
    moreover have "Suc m < Suc n" using that by simp
    ultimately show False using level unfolding at_level_def by blast
  qed
  then have "at_level h s n u" using u(1) by (simp add: at_level_def)
  then show ?thesis using u(2) by blast
qed

lemma at_level_Suc: "at_level h s (Suc n) v \<longleftrightarrow> (\<exists>u x. at_level h s n u \<and> h u x v) \<and> (\<forall>m \<le> n. \<not> at_level h s m v)"
proof (intro iffI conjI allI impI)
  assume "at_level h s (Suc n) v"
  then show "\<exists>u x. at_level h s n u \<and> h u x v" by (rule at_level_back)
next
  fix m
  assume level: "at_level h s (Suc n) v" and "m \<le> n"
  then show "\<not> at_level h s m v" using at_level_unique [OF level, of m] by auto
next
  assume r: "(\<exists>u x. at_level h s n u \<and> h u x v) \<and> (\<forall>m \<le> n. \<not> at_level h s m v)"
  then obtain u x where u: "at_level h s n u" "h u x v" by blast
  have "hops h s (Suc n) v" using at_level_hops [OF u(1)] u(2) by auto
  moreover have "\<not> hops h s m v" if "m < Suc n" for m
  proof
    assume "hops h s m v"
    from hops_level [OF this] obtain k where "k \<le> m" "at_level h s k v" by blast
    moreover have "k \<le> n" using \<open>k \<le> m\<close> that by simp
    ultimately show False using r by blast
  qed
  ultimately show "at_level h s (Suc n) v" unfolding at_level_def by blast
qed

lemma no_level_above: "\<forall>v. \<not> at_level h s n v \<Longrightarrow> n \<le> m \<Longrightarrow> \<not> at_level h s m v"
proof (induction m arbitrary: v)
  case (Suc m)
  show ?case
  proof (cases "n = Suc m")
    case False
    then have "\<not> at_level h s m u" for u using Suc by simp
    then show ?thesis by (simp add: at_level_Suc)
  qed (use Suc in blast)
qed simp

section \<open>Paths that climb\<close>

fun climb :: "('v \<Rightarrow> 'x \<Rightarrow> 'v \<Rightarrow> bool) \<Rightarrow> 'v \<Rightarrow> nat \<Rightarrow> 'v \<Rightarrow> ('x \<times> 'v) list \<Rightarrow> bool" where
  "climb h s n u [] \<longleftrightarrow> True"
| "climb h s n u ((x, v) # t) \<longleftrightarrow> h u x v \<and> at_level h s (Suc n) v \<and> climb h s (Suc n) v t"

definition last_node :: "'v \<Rightarrow> ('x \<times> 'v) list \<Rightarrow> 'v" where
  "last_node u t = (if t = [] then u else snd (last t))"

lemma last_node_simps [simp]:
  "last_node u [] = u" "last_node u ((x, v) # t) = last_node v t" "last_node u (t @ [(x, v)]) = v"
  by (simp_all add: last_node_def)

lemma climb_snoc:
  "climb h s n u (t @ [(x, v)]) \<longleftrightarrow> climb h s n u t \<and> h (last_node u t) x v \<and> at_level h s (Suc (n + length t)) v"
  by (induction t arbitrary: n u) auto

lemma climb_level: "climb h s n u t \<Longrightarrow> at_level h s n u \<Longrightarrow> at_level h s (n + length t) (last_node u t)"
  by (induction t arbitrary: n u) fastforce+

lemma climb_exists: "at_level h s n v \<Longrightarrow> \<exists>t. climb h s 0 s t \<and> length t = n \<and> last_node s t = v"
proof (induction n arbitrary: v)
  case 0
  then show ?case by (intro exI [of _ "[]"]) simp
next
  case (Suc n)
  then obtain u x where u: "at_level h s n u" "h u x v" by (auto simp: at_level_Suc)
  then obtain t where "climb h s 0 s t" "length t = n" "last_node s t = u" using Suc.IH by blast
  then show ?case using u Suc.prems by (intro exI [of _ "t @ [(x, v)]"]) (simp add: climb_snoc)
qed

text \<open>A route is a path without a condition on what it repeats.\<close>

fun route :: "('v \<Rightarrow> 'x \<Rightarrow> 'v \<Rightarrow> bool) \<Rightarrow> 'v \<Rightarrow> ('x \<times> 'v) list \<Rightarrow> bool" where
  "route h u [] \<longleftrightarrow> True"
| "route h u ((x, v) # t) \<longleftrightarrow> h u x v \<and> route h v t"

lemma route_hops: "route h u t \<Longrightarrow> hops h s m u \<Longrightarrow> hops h s (m + length t) (last_node u t)"
proof (induction t arbitrary: m u)
  case (Cons p t)
  obtain x v where p: "p = (x, v)" by (cases p)
  then have "hops h s (Suc m) v" using Cons.prems by auto
  then show ?case using Cons.IH [of v "Suc m"] Cons.prems(1) p by simp
qed simp

lemma route_shortest:
  assumes "route h u t" "hops h s n u" "at_level h s (n + length t) (last_node u t)"
  shows "at_level h s n u \<and> climb h s n u t"
  using assms
proof (induction t arbitrary: n u)
  case (Cons p t)
  obtain x v where p: "p = (x, v)" by (cases p)
  have "hops h s (Suc n) v" using Cons.prems p by auto
  then have v: "at_level h s (Suc n) v \<and> climb h s (Suc n) v t" using Cons.IH [of v "Suc n"] Cons.prems p by simp
  have "\<not> hops h s m u" if "m < n" for m
  proof
    assume "hops h s m u"
    then have "hops h s (m + length (p # t)) (last_node u (p # t))" by (rule route_hops [OF Cons.prems(1)])
    moreover have "m + length (p # t) < n + length (p # t)" using that by simp
    ultimately show False using Cons.prems(3) unfolding at_level_def by blast
  qed
  then have "at_level h s n u" using Cons.prems(2) by (simp add: at_level_def)
  then show ?case using v Cons.prems(1) p by simp
qed simp

section \<open>Trails of the graph\<close>

definition hop :: "memoryGraph \<Rightarrow> direction \<Rightarrow> (cvalue \<Rightarrow> bool) \<Rightarrow> cvalue \<Rightarrow> cvalue \<Rightarrow> cvalue \<Rightarrow> bool" where
  "hop g d passes u edge v \<longleftrightarrow> edge \<in> edges_of g \<and> v \<in> nodes_of g \<and> joins d edge (node_key u) (node_key v) \<and> passes edge"

lemma end_node_last: "end_node u t = last_node u t"
  by (simp add: end_node_def last_node_def)

lemma trail_route: "trail g d passes used u t \<Longrightarrow> route (hop g d passes) u t"
  by (induction t arbitrary: used u) (auto simp: hop_def)

lemma node_unique:
  assumes "graph_indexed lib g" "u \<in> nodes_of g" "v \<in> nodes_of g" "node_key u = node_key v"
  shows "u = v"
  using node_lookup [OF assms(1), of "node_key u"] assms(2-4) by (metis option.inject)

lemma edge_unique:
  assumes "graph_indexed lib g" "r \<in> edges_of g" "r' \<in> edges_of g" "edge_key r = edge_key r'"
  shows "r = r'"
proof -
  have "distinct (map fst (mg_edges g))" "\<forall>(j, x) \<in> set (mg_edges g). j = edge_key x"
    using assms by (auto simp: graph_indexed_def)
  moreover from this have "(edge_key r, r) \<in> set (mg_edges g)" "(edge_key r, r') \<in> set (mg_edges g)"
    using assms(2-4) by (auto simp: edges_of_def)
  ultimately show ?thesis by (metis eq_key_imp_eq_value)
qed

text \<open>The relationships used so far have their ends on levels up to the current one.\<close>

definition below :: "memoryGraph \<Rightarrow> (nat \<Rightarrow> cvalue \<Rightarrow> bool) \<Rightarrow> nat \<Rightarrow> string list \<Rightarrow> bool" where
  "below g lv n used \<longleftrightarrow>
     (\<forall>edge \<in> edges_of g. edge_key edge \<in> set used \<longrightarrow>
        (\<forall>w \<in> nodes_of g. node_key w = edge_start edge \<or> node_key w = edge_end edge \<longrightarrow> (\<exists>m \<le> n. lv m w)))"

lemma climb_trail:
  assumes g: "graph_indexed lib g"
  shows "climb (hop g d passes) s n u t \<Longrightarrow> u \<in> nodes_of g \<Longrightarrow> at_level (hop g d passes) s n u \<Longrightarrow>
    below g (at_level (hop g d passes) s) n used \<Longrightarrow> trail g d passes used u t"
proof (induction t arbitrary: n u used)
  case (Cons p t)
  let ?lv = "at_level (hop g d passes) s"
  obtain x v where p: "p = (x, v)" by (cases p)
  have step: "x \<in> edges_of g" "v \<in> nodes_of g" "joins d x (node_key u) (node_key v)" "passes x" "?lv (Suc n) v"
    "climb (hop g d passes) s (Suc n) v t"
  proof -
    have "hop g d passes u x v \<and> ?lv (Suc n) v \<and> climb (hop g d passes) s (Suc n) v t" using Cons.prems(1) by (simp add: p)
    moreover from this have "x \<in> edges_of g \<and> v \<in> nodes_of g \<and> joins d x (node_key u) (node_key v) \<and> passes x"
      by (simp add: hop_def)
    ultimately show "x \<in> edges_of g" "v \<in> nodes_of g" "joins d x (node_key u) (node_key v)" "passes x" "?lv (Suc n) v"
      "climb (hop g d passes) s (Suc n) v t" by blast+
  qed
  have fresh: "edge_key x \<notin> set used"
  proof
    assume "edge_key x \<in> set used"
    moreover have "node_key v = edge_start x \<or> node_key v = edge_end x" using step(3) by (auto simp: joins_def)
    ultimately obtain m where "m \<le> n" "?lv m v" using Cons.prems(4) step(1,2) unfolding below_def by blast
    then show False using at_level_unique [OF step(5)] by fastforce
  qed
  have "below g ?lv (Suc n) (edge_key x # used)"
    unfolding below_def
  proof (intro ballI impI)
    fix edge w
    assume e: "edge \<in> edges_of g" "edge_key edge \<in> set (edge_key x # used)" "w \<in> nodes_of g"
      "node_key w = edge_start edge \<or> node_key w = edge_end edge"
    show "\<exists>m \<le> Suc n. ?lv m w"
    proof (cases "edge_key edge = edge_key x")
      case True
      then have "edge = x" using edge_unique [OF g e(1) step(1)] by blast
      then have "node_key w = node_key u \<or> node_key w = node_key v" using e(4) step(3) by (auto simp: joins_def)
      then have "w = u \<or> w = v" using node_unique [OF g e(3)] Cons.prems(2) step(2) by blast
      then show ?thesis using Cons.prems(3) step(5) by (auto intro: le_SucI)
    next
      case False
      then have "edge_key edge \<in> set used" using e(2) by simp
      then obtain m where "m \<le> n" "?lv m w" using Cons.prems(4) e(1,3,4) unfolding below_def by blast
      then show ?thesis by (blast intro: le_SucI)
    qed
  qed
  then have "trail g d passes (edge_key x # used) v t" using Cons.IH [OF step(6,2,5)] by blast
  then show ?case using step(1-4) fresh by (simp add: p)
qed simp

end
