(* ===== verification/Shortest_Visits.thy ===== *)
theory Shortest_Visits
  imports Shortest_Levels Match_Properties
begin

text \<open>
  What the search does in terms of the answers of the pattern tests: a path is rebuilt by climbing down the recorded
  predecessors, and a level is the fold of the steps from its frontier.
\<close>

section \<open>Reconstruction\<close>

fun backs :: "memoryGraph \<Rightarrow> (string \<Rightarrow> (string \<times> cvalue) list) \<Rightarrow> string \<Rightarrow> nat \<Rightarrow> cvalue \<Rightarrow> steps list" where
  "backs g predecessors start 0 v = (if node_key v = start then [[]] else [])"
| "backs g predecessors start (Suc n) v =
     (if node_key v = start then [[]]
      else concat (map (\<lambda>(from, edge). case map_of (mg_nodes g) from of None \<Rightarrow> []
             | Some u \<Rightarrow> map (\<lambda>t. t @ [(edge, v)]) (backs g predecessors start n u)) (predecessors (node_key v))))"

lemma walkBack_backs:
  assumes g: "graph_indexed lib g" and s: "s \<in> nodes_of g"
  shows "v \<in> nodes_of g \<Longrightarrow> walkBack g predecessors (node_key s) n (node_key v) (Y @ [v]) E =
    map (\<lambda>t. (s # map snd t @ rev Y, map fst t @ rev E)) (backs g predecessors (node_key s) n v)"
proof (induction n arbitrary: v Y E)
  case 0
  then show ?case using node_unique [OF g 0 s] by auto
next
  case (Suc n)
  show ?case
  proof (cases "node_key v = node_key s")
    case True
    then show ?thesis using node_unique [OF g Suc.prems s] by simp
  next
    case False
    have "(case map_of (mg_nodes g) from of None \<Rightarrow> []
        | Some node \<Rightarrow> walkBack g predecessors (node_key s) n from ((Y @ [v]) @ [node]) (E @ [edge])) =
      map (\<lambda>t. (s # map snd t @ rev Y, map fst t @ rev E))
        (case map_of (mg_nodes g) from of None \<Rightarrow> []
         | Some u \<Rightarrow> map (\<lambda>t. t @ [(edge, v)]) (backs g predecessors (node_key s) n u))" for "from" edge
    proof (cases "map_of (mg_nodes g) from")
      case (Some u)
      then have u: "u \<in> nodes_of g" "node_key u = from" using node_lookup [OF g] by blast+
      show ?thesis using Suc.IH [OF u(1), of "Y @ [v]" "E @ [edge]"] by (simp add: Some u(2))
    qed simp
    then show ?thesis using False by (simp add: map_concat comp_def case_prod_beta')
  qed
qed

lemma climb_nodes: "climb h s n u t \<Longrightarrow> u \<in> N \<Longrightarrow> (\<And>u x v. h u x v \<Longrightarrow> v \<in> N) \<Longrightarrow> last_node u t \<in> N"
proof (induction t arbitrary: n u)
  case (Cons p t)
  then show ?case by (cases p) auto
qed simp

text \<open>The predecessors that the search records of the nodes up to a level.\<close>

definition predecessors_ok ::
    "memoryGraph \<Rightarrow> (cvalue \<Rightarrow> cvalue \<Rightarrow> cvalue \<Rightarrow> bool) \<Rightarrow> cvalue \<Rightarrow> nat \<Rightarrow> (string \<Rightarrow> (string \<times> cvalue) list) \<Rightarrow> bool" where
  "predecessors_ok g h s D predecessors \<longleftrightarrow>
     (\<forall>v m. v \<in> nodes_of g \<longrightarrow> m < D \<longrightarrow> at_level h s (Suc m) v \<longrightarrow>
        distinct (predecessors (node_key v)) \<and>
        (\<forall>from edge. (from, edge) \<in> set (predecessors (node_key v)) \<longleftrightarrow>
           (\<exists>u \<in> nodes_of g. from = node_key u \<and> at_level h s m u \<and> h u edge v)))"

lemma backs_climb:
  assumes g: "graph_indexed lib g" and s: "s \<in> nodes_of g" and pred: "predecessors_ok g h s D predecessors"
    and nodes: "\<And>u x v. h u x v \<Longrightarrow> v \<in> nodes_of g"
  shows "n \<le> D \<Longrightarrow> v \<in> nodes_of g \<Longrightarrow> at_level h s n v \<Longrightarrow>
    distinct (backs g predecessors (node_key s) n v) \<and>
    (\<forall>t. t \<in> set (backs g predecessors (node_key s) n v) \<longleftrightarrow> climb h s 0 s t \<and> length t = n \<and> last_node s t = v)"
proof (induction n arbitrary: v)
  case 0
  then show ?case by auto
next
  case (Suc n)
  have "v \<noteq> s" using at_level_unique [of h s "Suc n" v 0] Suc.prems(3) by auto
  then have away: "node_key v \<noteq> node_key s" using node_unique [OF g Suc.prems(2) s] by blast
  let ?part = "\<lambda>(from, edge). case map_of (mg_nodes g) from of None \<Rightarrow> []
    | Some u \<Rightarrow> map (\<lambda>t. t @ [(edge, v)]) (backs g predecessors (node_key s) n u)"
  let ?ps = "predecessors (node_key v)"
  have ps: "distinct ?ps" "(from, edge) \<in> set ?ps \<longleftrightarrow> (\<exists>u \<in> nodes_of g. from = node_key u \<and> at_level h s n u \<and> h u edge v)" for "from" edge
    using pred Suc.prems unfolding predecessors_ok_def by (auto simp: Suc_le_eq)
  have part: "distinct (?part p) \<and> (\<forall>t. t \<in> set (?part p) \<longleftrightarrow>
      (\<exists>u t'. u \<in> nodes_of g \<and> node_key u = fst p \<and> t = t' @ [(snd p, v)] \<and> climb h s 0 s t' \<and> length t' = n \<and> last_node s t' = u))"
    if p: "p \<in> set ?ps" for p
  proof -
    obtain u where u: "u \<in> nodes_of g" "fst p = node_key u" "at_level h s n u"
      using ps(2) [of "fst p" "snd p"] p by auto
    then have lookup: "map_of (mg_nodes g) (fst p) = Some u" using node_lookup [OF g] by simp
    have e: "?part p = map (\<lambda>t. t @ [(snd p, v)]) (backs g predecessors (node_key s) n u)" by (simp add: case_prod_beta' lookup)
    have IH: "distinct (backs g predecessors (node_key s) n u)"
      "t \<in> set (backs g predecessors (node_key s) n u) \<longleftrightarrow> climb h s 0 s t \<and> length t = n \<and> last_node s t = u" for t
      using Suc.IH [OF _ u(1,3)] Suc.prems(1) by simp_all
    have same: "w = u" if "w \<in> nodes_of g" "node_key w = fst p" for w using node_unique [OF g that(1) u(1)] that(2) u(2) by simp
    have "t \<in> set (?part p) \<longleftrightarrow> (\<exists>t'. t = t' @ [(snd p, v)] \<and> climb h s 0 s t' \<and> length t' = n \<and> last_node s t' = u)" for t
      unfolding e set_map image_iff using IH(2) by blast
    then have "t \<in> set (?part p) \<longleftrightarrow> (\<exists>w t'. w \<in> nodes_of g \<and> node_key w = fst p \<and> t = t' @ [(snd p, v)] \<and>
        climb h s 0 s t' \<and> length t' = n \<and> last_node s t' = w)" for t
      using same u(1) u(2) [symmetric] by blast
    moreover have "distinct (?part p)" unfolding e distinct_map using IH(1) by (simp add: inj_on_def)
    ultimately show ?thesis by blast
  qed
  have lists: "backs g predecessors (node_key s) (Suc n) v = concat (map ?part ?ps)" using away by simp
  have "distinct (concat (map ?part qs))" if "set qs \<subseteq> set ?ps" "distinct qs" for qs
    using that
  proof (induction qs)
    case (Cons p qs)
    have "set (?part p) \<inter> set (?part q) = {}" if q: "q \<in> set qs" for q
    proof (rule equals0I)
      fix t
      assume t: "t \<in> set (?part p) \<inter> set (?part q)"
      have "p \<in> set ?ps" "q \<in> set ?ps" using Cons.prems(1) q by auto
      then obtain t1 t2 where "t = t1 @ [(snd p, v)]" "node_key (last_node s t1) = fst p" "t = t2 @ [(snd q, v)]"
        "node_key (last_node s t2) = fst q"
        using t part [of p] part [of q] by blast
      then have "p = q" by (simp add: prod_eq_iff)
      then show False using q Cons.prems(2) by simp
    qed
    then have "set (?part p) \<inter> set (concat (map ?part qs)) = {}" unfolding set_concat set_map by blast
    moreover have "distinct (?part p)" using part [of p] Cons.prems(1) by simp
    ultimately show ?case using Cons by simp
  qed simp
  then have "distinct (backs g predecessors (node_key s) (Suc n) v)" using ps(1) unfolding lists by blast
  moreover have "t \<in> set (backs g predecessors (node_key s) (Suc n) v) \<longleftrightarrow> climb h s 0 s t \<and> length t = Suc n \<and> last_node s t = v" for t
  proof
    assume "t \<in> set (backs g predecessors (node_key s) (Suc n) v)"
    then obtain p where p: "p \<in> set ?ps" "t \<in> set (?part p)" unfolding lists set_concat set_map by blast
    obtain u t' where t: "u \<in> nodes_of g" "node_key u = fst p" "t = t' @ [(snd p, v)]" "climb h s 0 s t'" "length t' = n" "last_node s t' = u"
      using part [OF p(1)] p(2) by blast
    obtain w where w: "w \<in> nodes_of g" "fst p = node_key w" "h w (snd p) v" using ps(2) [of "fst p" "snd p"] p(1) by auto
    then have "w = u" using node_unique [OF g w(1) t(1)] t(2) by simp
    then show "climb h s 0 s t \<and> length t = Suc n \<and> last_node s t = v" using t w(3) Suc.prems(3) by (simp add: climb_snoc)
  next
    assume t: "climb h s 0 s t \<and> length t = Suc n \<and> last_node s t = v"
    then have "t \<noteq> []" by auto
    moreover define t' x where "t' = butlast t" and "x = fst (last t)"
    moreover have "snd (last t) = v" using t calculation(1) by (simp add: last_node_def)
    ultimately have t': "t = t' @ [(x, v)]" by (metis append_butlast_last_id prod.collapse)
    define u where "u = last_node s t'"
    have c: "climb h s 0 s t'" "h u x v" "length t' = n" using t by (simp_all add: t' climb_snoc u_def)
    have level: "at_level h s n u" using climb_level [OF c(1)] c(3) by (simp add: u_def)
    have u: "u \<in> nodes_of g" using climb_nodes [OF c(1) s nodes] by (simp add: u_def)
    have p: "(node_key u, x) \<in> set ?ps" using ps(2) u level c(2) by blast
    have "\<exists>w t'. w \<in> nodes_of g \<and> node_key w = fst (node_key u, x) \<and> t = t' @ [(snd (node_key u, x), v)] \<and>
        climb h s 0 s t' \<and> length t' = n \<and> last_node s t' = w"
      using u c(1,3) t' by (intro exI [of _ u] exI [of _ t']) (simp add: u_def)
    then have "t \<in> set (?part (node_key u, x))" using part [OF p] by blast
    then show "t \<in> set (backs g predecessors (node_key s) (Suc n) v)" using p unfolding lists set_concat set_map by blast
  qed
  ultimately show ?case by blast
qed

section \<open>One level\<close>

text \<open>The steps from the frontier, in the order of the two loops.\<close>

type_synonym step_visit = "cvalue \<times> cvalue \<times> cvalue"

definition adjacentVisit :: "memoryGraph \<Rightarrow> (cvalue \<Rightarrow> bool) \<Rightarrow> cvalue \<Rightarrow> cvalue \<times> string \<Rightarrow> step_visit list" where
  "adjacentVisit g passes u a =
     (if passes (fst a) then (case map_of (mg_nodes g) (snd a) of None \<Rightarrow> [] | Some v \<Rightarrow> [(u, fst a, v)]) else [])"

definition nodeVisits :: "memoryGraph \<Rightarrow> direction \<Rightarrow> (cvalue \<Rightarrow> bool) \<Rightarrow> string \<Rightarrow> step_visit list" where
  "nodeVisits g d passes k =
     (case map_of (mg_nodes g) k of
        None \<Rightarrow> []
      | Some u \<Rightarrow> concat (map (adjacentVisit g passes u) (adjacentEdges g (node_key u) d)))"

definition visits :: "memoryGraph \<Rightarrow> direction \<Rightarrow> (cvalue \<Rightarrow> bool) \<Rightarrow> string list \<Rightarrow> step_visit list" where
  "visits g d passes frontier = concat (map (nodeVisits g d passes) frontier)"

lemma set_adjacentVisit:
  assumes g: "graph_indexed lib g"
  shows "p \<in> set (adjacentVisit g passes u a) \<longleftrightarrow>
    fst p = u \<and> fst (snd p) = fst a \<and> passes (fst a) \<and> snd (snd p) \<in> nodes_of g \<and> node_key (snd (snd p)) = snd a"
proof -
  note lookup = node_lookup [OF g, of "snd a" "snd (snd p)", symmetric]
  have "p \<in> set (adjacentVisit g passes u a) \<longleftrightarrow>
      fst p = u \<and> fst (snd p) = fst a \<and> passes (fst a) \<and> map_of (mg_nodes g) (snd a) = Some (snd (snd p))"
  proof (cases "map_of (mg_nodes g) (snd a)")
    case None
    have "adjacentVisit g passes u a = []" unfolding adjacentVisit_def None by simp
    then show ?thesis by (simp add: None)
  next
    case (Some v)
    have "adjacentVisit g passes u a = (if passes (fst a) then [(u, fst a, v)] else [])" unfolding adjacentVisit_def Some by simp
    then show ?thesis by (cases "passes (fst a)") (auto simp: Some prod_eq_iff)
  qed
  then show ?thesis unfolding lookup .
qed

lemma set_nodeVisits:
  assumes g: "graph_indexed lib g"
  shows "p \<in> set (nodeVisits g d passes k) \<longleftrightarrow>
    fst p \<in> nodes_of g \<and> node_key (fst p) = k \<and> hop g d passes (fst p) (fst (snd p)) (snd (snd p))"
proof (cases "map_of (mg_nodes g) k")
  case None
  then have "\<not> (fst p \<in> nodes_of g \<and> node_key (fst p) = k)" using node_lookup [OF g, of k "fst p"] by simp
  then show ?thesis by (auto simp: nodeVisits_def None)
next
  case (Some u)
  then have u: "fst p \<in> nodes_of g \<and> node_key (fst p) = k \<longleftrightarrow> fst p = u"
    using node_lookup [OF g, of k "fst p"] by auto
  have "p \<in> set (nodeVisits g d passes k) \<longleftrightarrow> (\<exists>a \<in> set (adjacentEdges g (node_key u) d). p \<in> set (adjacentVisit g passes u a))"
    by (simp add: nodeVisits_def Some)
  also have "\<dots> \<longleftrightarrow> fst p = u \<and> snd (snd p) \<in> nodes_of g \<and> passes (fst (snd p)) \<and>
      (fst (snd p), node_key (snd (snd p))) \<in> set (adjacentEdges g (node_key u) d)"
    unfolding set_adjacentVisit [OF g] by force
  also have "\<dots> \<longleftrightarrow> fst p = u \<and> hop g d passes (fst p) (fst (snd p)) (snd (snd p))"
    unfolding adjacentEdges_set [OF g] hop_def by blast
  finally show ?thesis using u by blast
qed

lemma set_visits:
  assumes "graph_indexed lib g"
  shows "(u, x, v) \<in> set (visits g d passes frontier) \<longleftrightarrow>
    u \<in> nodes_of g \<and> node_key u \<in> set frontier \<and> hop g d passes u x v"
proof -
  have "(u, x, v) \<in> set (visits g d passes frontier) \<longleftrightarrow> (\<exists>k \<in> set frontier. (u, x, v) \<in> set (nodeVisits g d passes k))"
    by (simp add: visits_def)
  then show ?thesis unfolding set_nodeVisits [OF assms] by auto
qed

lemma distinct_parts:
  assumes "distinct xs" "\<And>x. x \<in> set xs \<Longrightarrow> distinct (F x)" "\<And>x p. p \<in> set (F x) \<Longrightarrow> c p = x"
  shows "distinct (concat (map F xs))"
  using assms(1,2)
proof (induction xs)
  case (Cons x xs)
  have "set (F x) \<inter> set (concat (map F xs)) = {}"
  proof (rule equals0I)
    fix p
    assume "p \<in> set (F x) \<inter> set (concat (map F xs))"
    then obtain y where "p \<in> set (F x)" "y \<in> set xs" "p \<in> set (F y)" by auto
    then show False using assms(3) [of p x] assms(3) [of p y] Cons.prems(1) by simp
  qed
  then show ?case using Cons by simp
qed simp

lemma distinct_visits:
  assumes g: "graph_indexed lib g" and "distinct frontier"
  shows "distinct (visits g d passes frontier)"
  unfolding visits_def
proof (rule distinct_parts [where c = "\<lambda>p. node_key (fst p)", OF assms(2)])
  show "node_key (fst p) = k" if "p \<in> set (nodeVisits g d passes k)" for k p using that set_nodeVisits [OF g] by blast
  show "distinct (nodeVisits g d passes k)" for k
  proof (cases "map_of (mg_nodes g) k")
    case (Some u)
    have "distinct (adjacentEdges g (node_key u) d)"
      using adjacentEdges_distinct by (rule distinct_map [THEN iffD1, THEN conjunct1])
    then have "distinct (concat (map (adjacentVisit g passes u) (adjacentEdges g (node_key u) d)))"
    proof (rule distinct_parts [where c = "\<lambda>p. (fst (snd p), node_key (snd (snd p)))"])
      show "distinct (adjacentVisit g passes u a)" for a by (simp add: adjacentVisit_def split: option.split)
      show "(fst (snd p), node_key (snd (snd p))) = a" if "p \<in> set (adjacentVisit g passes u a)" for a p
        using that set_adjacentVisit [OF g, of p passes u a] by (simp add: prod_eq_iff)
    qed
    then show ?thesis by (simp add: nodeVisits_def Some)
  qed (simp add: nodeVisits_def)
qed

text \<open>What the code computes with the tests of patterns, and what it computes with their answers.\<close>

abbreviation passing :: "('p, 'q) evaluator \<Rightarrow> row \<Rightarrow> ('p, 'q) rel_pattern \<Rightarrow> cvalue \<Rightarrow> bool" where
  "passing e values relationship edge \<equiv> shortestRelationshipMatches e values edge relationship = Inr True"

abbreviation targeted :: "('p, 'q) evaluator \<Rightarrow> row \<Rightarrow> ('p, 'q) node_pattern \<Rightarrow> cvalue \<Rightarrow> bool" where
  "targeted e values target node \<equiv> shortestTargetMatches e values node target = Inr True"

definition enterVisit :: "memoryGraph \<Rightarrow> cvalue \<Rightarrow> int \<Rightarrow> int \<Rightarrow> (cvalue \<Rightarrow> bool) \<Rightarrow> search \<Rightarrow> step_visit \<Rightarrow> search" where
  "enterVisit g start minimum depth isT st p = enterNode g start minimum depth (node_key (fst p)) (fst (snd p)) (snd (snd p)) (isT (snd (snd p))) st"

lemma visitAdjacent_fold:
  assumes "visitAdjacent g e values start target relationship minimum depth (node_key u) st a = Inr st'"
  shows "st' = foldl (enterVisit g start minimum depth (targeted e values target)) st
    (adjacentVisit g (passing e values relationship) u a)"
proof -
  obtain ok where ok: "shortestRelationshipMatches e values (fst a) relationship = Inr ok"
    using assms unfolding visitAdjacent_def bindE_Inr_iff by blast
  show ?thesis
  proof (cases "ok \<and> map_of (mg_nodes g) (snd a) \<noteq> None")
    case True
    then obtain v where v: "map_of (mg_nodes g) (snd a) = Some v" by blast
    then obtain isT where "shortestTargetMatches e values v target = Inr isT"
      "st' = enterNode g start minimum depth (node_key u) (fst a) v isT st"
      using assms ok True by (auto simp: visitAdjacent_def bindE_Inr_iff)
    then show ?thesis using True ok v by (simp add: adjacentVisit_def enterVisit_def)
  next
    case False
    then have "st' = st" using assms ok by (auto simp: visitAdjacent_def split: option.splits if_splits)
    moreover have "adjacentVisit g (passing e values relationship) u a = []"
      using False ok by (auto simp: adjacentVisit_def)
    ultimately show ?thesis by simp
  qed
qed

lemma foldE_fold:
  assumes "\<And>st x st'. step st x = Inr st' \<Longrightarrow> st' = foldl act st (F x)" "foldE step st xs = Inr st'"
  shows "st' = foldl act st (concat (map F xs))"
  using assms(2)
proof (induction xs arbitrary: st)
  case (Cons x xs)
  then obtain mid where mid: "step st x = Inr mid" "foldE step mid xs = Inr st'" by (auto simp: bindE_Inr_iff)
  show ?case using Cons.IH [OF mid(2)] assms(1) [OF mid(1)] by simp
qed simp

lemma searchLevel_fold:
  assumes "searchLevel g e values start target relationship minimum depth st frontier = Inr st'"
  shows "st' = foldl (enterVisit g start minimum depth (targeted e values target)) (st\<lparr>sp_next := []\<rparr>)
    (visits g (rp_direction relationship) (passing e values relationship) frontier)"
  unfolding visits_def
proof (rule foldE_fold [OF _ assms [unfolded searchLevel_def]])
  fix st k st'
  assume r: "(case map_of (mg_nodes g) k of None \<Rightarrow> Inr st
    | Some current \<Rightarrow> foldE (visitAdjacent g e values start target relationship minimum depth (node_key current)) st
        (adjacentEdges g (node_key current) (rp_direction relationship))) = Inr st'"
  show "st' = foldl (enterVisit g start minimum depth (targeted e values target)) st
    (nodeVisits g (rp_direction relationship) (passing e values relationship) k)"
  proof (cases "map_of (mg_nodes g) k")
    case (Some u)
    then have "foldE (visitAdjacent g e values start target relationship minimum depth (node_key u)) st
        (adjacentEdges g (node_key u) (rp_direction relationship)) = Inr st'" using r by simp
    from foldE_fold [OF visitAdjacent_fold this] show ?thesis by (simp add: nodeVisits_def Some)
  qed (use r in \<open>simp add: nodeVisits_def\<close>)
qed

text \<open>The state after a level: the nodes that had no level get this one.\<close>

definition fresh :: "search \<Rightarrow> step_visit list \<Rightarrow> step_visit list" where
  "fresh st = filter (\<lambda>p. sp_levels st (node_key (snd (snd p))) = None)"

definition entered :: "(cvalue \<Rightarrow> bool) \<Rightarrow> int \<Rightarrow> search \<Rightarrow> step_visit list \<Rightarrow> search" where
  "entered isT depth st T =
     st\<lparr>sp_levels := (\<lambda>k. if \<exists>p \<in> set (fresh st T). node_key (snd (snd p)) = k then Some depth else sp_levels st k),
        sp_predecessors := (\<lambda>k. sp_predecessors st k @
          map (\<lambda>p. (node_key (fst p), fst (snd p))) (filter (\<lambda>p. node_key (snd (snd p)) = k) (fresh st T))),
        sp_next := sp_next st @ map (\<lambda>p. node_key (snd (snd p))) (fresh st T),
        sp_targets := sp_targets st @ map (\<lambda>p. node_key (snd (snd p))) (filter (\<lambda>p. isT (snd (snd p))) (fresh st T))\<rparr>"

lemma enterVisits_entered:
  assumes old: "\<forall>k l. sp_levels st k = Some l \<longrightarrow> l < depth" and m: "minimum \<le> depth"
    and away: "\<forall>p \<in> set T. isT (snd (snd p)) \<longrightarrow> node_key (snd (snd p)) \<noteq> node_key start"
  shows "foldl (enterVisit g start minimum depth isT) st T = entered isT depth st T"
  using away
proof (induction T rule: rev_induct)
  case Nil
  then show ?case by (simp add: entered_def fresh_def)
next
  case (snoc p T)
  have IH: "foldl (enterVisit g start minimum depth isT) st T = entered isT depth st T" using snoc by simp
  obtain u x v where p: "p = (u, x, v)" by (cases p)
  have notStart: "\<not> (node_key v = node_key start \<and> isT v \<and> minimum \<le> depth)" using snoc.prems p by simp
  show ?case
  proof (cases "sp_levels st (node_key v)")
    case None
    then have f: "fresh st (T @ [p]) = fresh st T @ [p]" by (simp add: fresh_def p)
    have level: "sp_levels (entered isT depth st T) (node_key v) = None \<or> sp_levels (entered isT depth st T) (node_key v) = Some depth"
      using None by (simp add: entered_def)
    then have "enterVisit g start minimum depth isT (entered isT depth st T) p =
      (let r = (entered isT depth st T)\<lparr>sp_levels := (sp_levels (entered isT depth st T))(node_key v \<mapsto> depth),
          sp_predecessors := (sp_predecessors (entered isT depth st T))(node_key v := sp_predecessors (entered isT depth st T) (node_key v) @ [(node_key u, x)]),
          sp_next := sp_next (entered isT depth st T) @ [node_key v]\<rparr>
       in if isT v then r\<lparr>sp_targets := sp_targets r @ [node_key v]\<rparr> else r)"
      using m notStart by (auto simp: enterVisit_def enterNode_def p Let_def)
    also have "\<dots> = entered isT depth st (T @ [p])"
      unfolding entered_def f by (auto simp: p Let_def fun_eq_iff)
    finally show ?thesis by (simp add: IH)
  next
    case (Some l)
    then have f: "fresh st (T @ [p]) = fresh st T" by (simp add: fresh_def p)
    have "\<not> (\<exists>q \<in> set (fresh st T). node_key (snd (snd q)) = node_key v)" using Some by (auto simp: fresh_def)
    then have "sp_levels (entered isT depth st T) (node_key v) = Some l" using Some by (simp add: entered_def)
    moreover have "l < depth" using old Some by blast
    ultimately have "enterVisit g start minimum depth isT (entered isT depth st T) p = entered isT depth st T"
      using m notStart by (auto simp: enterVisit_def enterNode_def p Let_def)
    then show ?thesis by (simp add: IH) (simp add: entered_def f)
  qed
qed

end
