(* ===== verification/Shortest_Search.thy ===== *)
theory Shortest_Search
  imports Shortest_Visits
begin

text \<open>
  The search keeps its levels exact and stops at the first level with a target: it finds exactly the shortest trails.
\<close>

section \<open>All levels\<close>

definition explored :: "memoryGraph \<Rightarrow> (cvalue \<Rightarrow> cvalue \<Rightarrow> cvalue \<Rightarrow> bool) \<Rightarrow> cvalue \<Rightarrow> nat \<Rightarrow> search \<Rightarrow> bool" where
  "explored g h s D st \<longleftrightarrow>
     (\<forall>k l. sp_levels st k = Some l \<longleftrightarrow> (\<exists>v m. v \<in> nodes_of g \<and> node_key v = k \<and> l = int m \<and> m \<le> D \<and> at_level h s m v)) \<and>
     predecessors_ok g h s D (sp_predecessors st) \<and>
     (\<forall>k. sp_levels st k = None \<longrightarrow> sp_predecessors st k = [])"

definition on_level :: "(cvalue \<Rightarrow> cvalue \<Rightarrow> cvalue \<Rightarrow> bool) \<Rightarrow> cvalue \<Rightarrow> nat \<Rightarrow> string set" where
  "on_level h s D = node_key ` {v. at_level h s D v}"

lemma level_nodes:
  assumes "s \<in> nodes_of g" "at_level (hop g d passes) s m v"
  shows "v \<in> nodes_of g"
proof (cases m)
  case (Suc n)
  then show ?thesis using at_level_back [of "hop g d passes" s n v] assms(2) by (auto simp: hop_def)
qed (use assms in simp)

lemma explored_level:
  assumes g: "graph_indexed lib g" and e: "explored g h s D st" and v: "v \<in> nodes_of g"
  shows "sp_levels st (node_key v) = Some l \<longleftrightarrow> (\<exists>m. l = int m \<and> m \<le> D \<and> at_level h s m v)"
    "sp_levels st (node_key v) = None \<longleftrightarrow> (\<forall>m \<le> D. \<not> at_level h s m v)"
proof -
  have "(\<exists>w m. w \<in> nodes_of g \<and> node_key w = node_key v \<and> l = int m \<and> m \<le> D \<and> at_level h s m w) \<longleftrightarrow>
      (\<exists>m. l = int m \<and> m \<le> D \<and> at_level h s m v)" for l
    using node_unique [OF g _ v] v by blast
  then have some: "sp_levels st (node_key v) = Some l \<longleftrightarrow> (\<exists>m. l = int m \<and> m \<le> D \<and> at_level h s m v)" for l
    using e unfolding explored_def by simp
  then show "sp_levels st (node_key v) = Some l \<longleftrightarrow> (\<exists>m. l = int m \<and> m \<le> D \<and> at_level h s m v)" .
  show "sp_levels st (node_key v) = None \<longleftrightarrow> (\<forall>m \<le> D. \<not> at_level h s m v)"
  proof (cases "sp_levels st (node_key v)")
    case None
    then have "\<not> at_level h s m v" if "m \<le> D" for m using some [of "int m"] that by auto
    then show ?thesis using None by simp
  next
    case (Some l)
    then show ?thesis using some [of l] by auto
  qed
qed

lemma fresh_level:
  assumes g: "graph_indexed lib g" and s: "s \<in> nodes_of g" and e: "explored g (hop g d passes) s D st"
    and f: "set frontier = on_level (hop g d passes) s D"
  shows "(u, x, v) \<in> set (fresh st (visits g d passes frontier)) \<longleftrightarrow>
    at_level (hop g d passes) s D u \<and> hop g d passes u x v \<and> at_level (hop g d passes) s (Suc D) v"
proof -
  let ?lv = "at_level (hop g d passes) s"
  have "u \<in> nodes_of g \<and> node_key u \<in> set frontier \<longleftrightarrow> ?lv D u"
  proof
    assume u: "u \<in> nodes_of g \<and> node_key u \<in> set frontier"
    then obtain w where w: "?lv D w" "node_key u = node_key w" unfolding f on_level_def by blast
    then have "u = w" using node_unique [OF g _ level_nodes [OF s w(1)]] u by blast
    then show "?lv D u" using w(1) by simp
  next
    assume "?lv D u"
    then show "u \<in> nodes_of g \<and> node_key u \<in> set frontier" using level_nodes [OF s] unfolding f on_level_def by blast
  qed
  then have "(u, x, v) \<in> set (fresh st (visits g d passes frontier)) \<longleftrightarrow>
      ?lv D u \<and> hop g d passes u x v \<and> sp_levels st (node_key v) = None"
    unfolding fresh_def set_filter mem_Collect_eq set_visits [OF g] by auto
  also have "\<dots> \<longleftrightarrow> ?lv D u \<and> hop g d passes u x v \<and> (\<forall>m \<le> D. \<not> ?lv m v)"
    using explored_level(2) [OF g e, of v] by (auto simp: hop_def)
  also have "\<dots> \<longleftrightarrow> ?lv D u \<and> hop g d passes u x v \<and> ?lv (Suc D) v"
    using at_level_Suc [of "hop g d passes" s D v] by blast
  finally show ?thesis .
qed

lemma keyed_predecessors:
  assumes g: "graph_indexed lib g" and "distinct T" "\<forall>p \<in> set T. fst p \<in> nodes_of g \<and> snd (snd p) = v"
  shows "distinct (map (\<lambda>p. (node_key (fst p), fst (snd p))) T)"
proof -
  have "inj_on (\<lambda>p. (node_key (fst p), fst (snd p))) (set T)"
  proof (rule inj_onI)
    fix p q
    assume r: "p \<in> set T" "q \<in> set T" "(node_key (fst p), fst (snd p)) = (node_key (fst q), fst (snd q))"
    then have "fst p = fst q" using node_unique [OF g, of "fst p" "fst q"] assms(3) by simp
    then show "p = q" using r assms(3) by (simp add: prod_eq_iff)
  qed
  then show ?thesis using assms(2) by (simp add: distinct_map)
qed

lemma entered_explored:
  assumes g: "graph_indexed lib g" and s: "s \<in> nodes_of g" and e: "explored g (hop g d passes) s D st"
    and f: "distinct frontier" "set frontier = on_level (hop g d passes) s D"
  defines "T \<equiv> visits g d passes frontier"
  shows "explored g (hop g d passes) s (Suc D) (entered isT (int (Suc D)) st T)"
    "set (sp_next (entered isT (int (Suc D)) st T)) = set (sp_next st) \<union> on_level (hop g d passes) s (Suc D)"
    "set (sp_targets (entered isT (int (Suc D)) st T)) =
       set (sp_targets st) \<union> node_key ` {v. at_level (hop g d passes) s (Suc D) v \<and> isT v}"
proof -
  let ?h = "hop g d passes"
  let ?lv = "at_level ?h s" and ?st = "entered isT (int (Suc D)) st T"
  have fresh: "p \<in> set (fresh st T) \<longleftrightarrow> ?lv D (fst p) \<and> ?h (fst p) (fst (snd p)) (snd (snd p)) \<and> ?lv (Suc D) (snd (snd p))" for p
    using fresh_level [OF g s e f(2), of "fst p" "fst (snd p)" "snd (snd p)"] by (simp add: T_def)
  have ends: "(\<lambda>p. snd (snd p)) ` set (fresh st T) = {v. ?lv (Suc D) v}"
  proof (intro set_eqI iffI)
    fix v
    assume "v \<in> {v. ?lv (Suc D) v}"
    then have v: "?lv (Suc D) v" by simp
    then obtain u x where "?lv D u" "?h u x v" using at_level_back [OF v] by blast
    then have "(u, x, v) \<in> set (fresh st T)" using v by (simp add: fresh)
    then show "v \<in> (\<lambda>p. snd (snd p)) ` set (fresh st T)" by force
  qed (use fresh in auto)
  have keys: "(\<lambda>p. node_key (snd (snd p))) ` set (fresh st T) = on_level ?h s (Suc D)"
    unfolding on_level_def ends [symmetric] by (simp only: image_image)
  show "set (sp_next ?st) = set (sp_next st) \<union> on_level ?h s (Suc D)" using keys by (simp add: entered_def)
  have "(\<lambda>p. node_key (snd (snd p))) ` {p \<in> set (fresh st T). isT (snd (snd p))} = node_key ` {v. ?lv (Suc D) v \<and> isT v}"
  proof -
    have "(\<lambda>p. node_key (snd (snd p))) ` {p \<in> set (fresh st T). isT (snd (snd p))} =
        node_key ` {v \<in> (\<lambda>p. snd (snd p)) ` set (fresh st T). isT v}" by auto
    then show ?thesis unfolding ends by simp
  qed
  then show "set (sp_targets ?st) = set (sp_targets st) \<union> node_key ` {v. ?lv (Suc D) v \<and> isT v}" by (simp add: entered_def)
  have levels: "sp_levels ?st k = (if k \<in> on_level ?h s (Suc D) then Some (int (Suc D)) else sp_levels st k)" for k
  proof -
    have "(\<exists>p \<in> set (fresh st T). node_key (snd (snd p)) = k) \<longleftrightarrow> k \<in> on_level ?h s (Suc D)" unfolding keys [symmetric] by blast
    then show ?thesis by (simp add: entered_def)
  qed
  have one: "sp_levels ?st k = Some l \<longleftrightarrow> (\<exists>v m. v \<in> nodes_of g \<and> node_key v = k \<and> l = int m \<and> m \<le> Suc D \<and> ?lv m v)" for k l
  proof (cases "k \<in> on_level ?h s (Suc D)")
    case True
    then obtain w where w: "?lv (Suc D) w" "node_key w = k" unfolding on_level_def by blast
    have "m = Suc D" if "v \<in> nodes_of g" "node_key v = k" "?lv m v" for v m
    proof -
      have "v = w" using node_unique [OF g that(1) level_nodes [OF s w(1)]] that(2) w(2) by simp
      then show ?thesis using at_level_unique [OF that(3)] w(1) by blast
    qed
    then have "(\<exists>v m. v \<in> nodes_of g \<and> node_key v = k \<and> l = int m \<and> m \<le> Suc D \<and> ?lv m v) \<longleftrightarrow> l = int (Suc D)"
      using w level_nodes [OF s w(1)] by blast
    then show ?thesis using levels [of k] True by auto
  next
    case False
    then have "\<not> (node_key v = k \<and> ?lv (Suc D) v)" for v unfolding on_level_def by blast
    moreover have "m \<le> Suc D \<longleftrightarrow> m \<le> D \<or> m = Suc D" for m by auto
    ultimately have "(\<exists>v m. v \<in> nodes_of g \<and> node_key v = k \<and> l = int m \<and> m \<le> Suc D \<and> ?lv m v) \<longleftrightarrow>
        (\<exists>v m. v \<in> nodes_of g \<and> node_key v = k \<and> l = int m \<and> m \<le> D \<and> ?lv m v)" by blast
    then show ?thesis using levels [of k] False e unfolding explored_def by simp
  qed
  have preds: "sp_predecessors ?st k = sp_predecessors st k @
      map (\<lambda>p. (node_key (fst p), fst (snd p))) (filter (\<lambda>p. node_key (snd (snd p)) = k) (fresh st T))" for k
    by (simp add: entered_def)
  have unchanged: "sp_predecessors ?st k = sp_predecessors st k" if "k \<notin> on_level ?h s (Suc D)" for k
  proof -
    have "filter (\<lambda>p. node_key (snd (snd p)) = k) (fresh st T) = []"
      using that unfolding keys [symmetric] by (auto simp: filter_empty_conv)
    then show ?thesis unfolding preds by simp
  qed
  have two: "predecessors_ok g ?h s (Suc D) (sp_predecessors ?st)"
    unfolding predecessors_ok_def
  proof (intro allI impI)
    fix v m
    assume v: "v \<in> nodes_of g" and m: "m < Suc D" and level: "?lv (Suc m) v"
    show "distinct (sp_predecessors ?st (node_key v)) \<and> (\<forall>from edge. (from, edge) \<in> set (sp_predecessors ?st (node_key v)) \<longleftrightarrow>
        (\<exists>u \<in> nodes_of g. from = node_key u \<and> ?lv m u \<and> ?h u edge v))"
    proof (cases "m = D")
      case False
      have "node_key v \<notin> on_level ?h s (Suc D)"
      proof
        assume "node_key v \<in> on_level ?h s (Suc D)"
        then obtain w where w: "?lv (Suc D) w" "node_key v = node_key w" unfolding on_level_def by blast
        then have "v = w" using node_unique [OF g v level_nodes [OF s w(1)]] by blast
        then show False using at_level_unique [OF level] w(1) False by blast
      qed
      moreover have "m < D" using m False by simp
      moreover have "predecessors_ok g ?h s D (sp_predecessors st)" using e unfolding explored_def by blast
      ultimately show ?thesis using unchanged [of "node_key v"] v level unfolding predecessors_ok_def by metis
    next
      case True
      let ?T = "filter (\<lambda>p. node_key (snd (snd p)) = node_key v) (fresh st T)"
      have "\<not> ?lv k v" if "k \<le> D" for k using at_level_unique [OF level, of k] that True by auto
      then have "sp_levels st (node_key v) = None" using explored_level(2) [OF g e v] by blast
      then have "sp_predecessors st (node_key v) = []" using e unfolding explored_def by blast
      then have p: "sp_predecessors ?st (node_key v) = map (\<lambda>p. (node_key (fst p), fst (snd p))) ?T" unfolding preds by simp
      have T: "q \<in> set ?T \<longleftrightarrow> ?lv D (fst q) \<and> ?h (fst q) (fst (snd q)) v \<and> snd (snd q) = v" for q
      proof -
        have "q \<in> set ?T \<longleftrightarrow> q \<in> set (fresh st T) \<and> node_key (snd (snd q)) = node_key v" by auto
        also have "\<dots> \<longleftrightarrow> q \<in> set (fresh st T) \<and> snd (snd q) = v"
          using node_unique [OF g _ v] level_nodes [OF s] fresh by blast
        finally show ?thesis using fresh [of q] level True by auto
      qed
      have "distinct (map (\<lambda>p. (node_key (fst p), fst (snd p))) ?T)"
      proof (rule keyed_predecessors [OF g])
        show "distinct ?T" using distinct_visits [OF g f(1)] by (simp add: T_def fresh_def)
        show "\<forall>q \<in> set ?T. fst q \<in> nodes_of g \<and> snd (snd q) = v" using T level_nodes [OF s] by blast
      qed
      moreover have "(from, edge) \<in> set (sp_predecessors ?st (node_key v)) \<longleftrightarrow>
          (\<exists>u \<in> nodes_of g. from = node_key u \<and> ?lv m u \<and> ?h u edge v)" for "from" edge
      proof
        assume "(from, edge) \<in> set (sp_predecessors ?st (node_key v))"
        then obtain q where "q \<in> set ?T" "from = node_key (fst q)" "edge = fst (snd q)" unfolding p by auto
        then show "\<exists>u \<in> nodes_of g. from = node_key u \<and> ?lv m u \<and> ?h u edge v" using T level_nodes [OF s] True by blast
      next
        assume "\<exists>u \<in> nodes_of g. from = node_key u \<and> ?lv m u \<and> ?h u edge v"
        then obtain u where u: "from = node_key u" "?lv D u" "?h u edge v" using True by blast
        then have "(u, edge, v) \<in> set ?T" using T [of "(u, edge, v)"] by simp
        then show "(from, edge) \<in> set (sp_predecessors ?st (node_key v))" unfolding p set_map image_iff
          using u(1) by (metis fst_conv snd_conv)
      qed
      ultimately show ?thesis unfolding p by blast
    qed
  qed
  have "sp_predecessors ?st k = []" if "sp_levels ?st k = None" for k
  proof -
    have "k \<notin> on_level ?h s (Suc D)" "sp_levels st k = None" using levels [of k] that by (auto split: if_splits)
    then show ?thesis using unchanged e unfolding explored_def by simp
  qed
  then show "explored g ?h s (Suc D) ?st" using one two unfolding explored_def by blast
qed

lemma explored_next [simp]: "explored g h s D (st\<lparr>sp_next := ks\<rparr>) \<longleftrightarrow> explored g h s D st"
  by (simp add: explored_def)

lemma sortedNodeIDs_facts [simp]: "set (sortedNodeIDs ks) = set ks" "distinct (sortedNodeIDs ks)"
  by (simp_all add: sortedNodeIDs_def)

definition first_targets ::
    "memoryGraph \<Rightarrow> (cvalue \<Rightarrow> cvalue \<Rightarrow> cvalue \<Rightarrow> bool) \<Rightarrow> cvalue \<Rightarrow> (cvalue \<Rightarrow> bool) \<Rightarrow> nat \<Rightarrow> nat \<Rightarrow> search \<Rightarrow> bool" where
  "first_targets g h s isT D L st \<longleftrightarrow>
     explored g h s L st \<and> sp_targets st \<noteq> [] \<and> set (sp_targets st) = node_key ` {v. at_level h s L v \<and> isT v} \<and>
     (\<forall>m v. D < m \<longrightarrow> m < L \<longrightarrow> at_level h s m v \<longrightarrow> \<not> isT v)"

definition no_targets :: "(cvalue \<Rightarrow> cvalue \<Rightarrow> cvalue \<Rightarrow> bool) \<Rightarrow> cvalue \<Rightarrow> (cvalue \<Rightarrow> bool) \<Rightarrow> nat \<Rightarrow> nat \<Rightarrow> bool" where
  "no_targets h s isT D D' \<longleftrightarrow> (\<forall>m v. D < m \<longrightarrow> m \<le> D' \<longrightarrow> at_level h s m v \<longrightarrow> \<not> isT v)"

lemma searchLevel_explored:
  fixes e :: "('p, 'q) evaluator" and relationship :: "('p, 'q) rel_pattern"
  assumes h_def: "h = hop g (rp_direction relationship) (passing e values relationship)"
    and g: "graph_indexed lib g" and s: "s \<in> nodes_of g" and m: "minimum \<le> 1" and open_start: "\<not> targeted e values target s"
    and st: "explored g h s D st" "distinct frontier" "set frontier = on_level h s D" "sp_targets st = []" "sp_completed st = []"
    and r: "searchLevel g e values s target relationship minimum (int (Suc D)) st frontier = Inr st'"
  shows "explored g h s (Suc D) st'" "set (sp_next st') = on_level h s (Suc D)" "sp_completed st' = []"
    "set (sp_targets st') = node_key ` {v. at_level h s (Suc D) v \<and> targeted e values target v}"
proof -
  let ?T = "visits g (rp_direction relationship) (passing e values relationship) frontier"
  let ?st = "st\<lparr>sp_next := []\<rparr>"
  have old: "\<forall>k l. sp_levels ?st k = Some l \<longrightarrow> l < int (Suc D)" using st(1) unfolding explored_def by auto
  have low: "minimum \<le> int (Suc D)" using m by simp
  have away: "\<forall>p \<in> set ?T. targeted e values target (snd (snd p)) \<longrightarrow> node_key (snd (snd p)) \<noteq> node_key s"
  proof (intro ballI impI notI)
    fix p
    assume p: "p \<in> set ?T" "targeted e values target (snd (snd p))" "node_key (snd (snd p)) = node_key s"
    then have "snd (snd p) \<in> nodes_of g" using set_visits [OF g, of "fst p" "fst (snd p)" "snd (snd p)"] by (simp add: hop_def)
    then have "snd (snd p) = s" using node_unique [OF g _ s] p(3) by blast
    then show False using p(2) open_start by simp
  qed
  have e: "st' = entered (targeted e values target) (int (Suc D)) ?st ?T"
    unfolding searchLevel_fold [OF r] by (rule enterVisits_entered [OF old low away])
  have st1: "explored g h s D ?st" using st(1) by simp
  note step = entered_explored [OF g s st1 [unfolded h_def] st(2) st(3) [unfolded h_def], folded h_def]
  show "explored g h s (Suc D) st'" unfolding e by (rule step(1))
  show "set (sp_next st') = on_level h s (Suc D)" unfolding e step(2) by simp
  show "sp_completed st' = []" using st(5) by (simp add: e entered_def)
  show "set (sp_targets st') = node_key ` {v. at_level h s (Suc D) v \<and> targeted e values target v}"
    unfolding e step(3) using st(4) by simp
qed

lemma searchLoop_targets:
  fixes e :: "('p, 'q) evaluator" and relationship :: "('p, 'q) rel_pattern"
  assumes g: "graph_indexed lib g" and s: "s \<in> nodes_of g" and m: "minimum \<le> 1" and open_start: "\<not> targeted e values target s"
    and h_def: "h = hop g (rp_direction relationship) (passing e values relationship)"
  shows "searchLoop (searchLevel g e values s target relationship minimum) n (int (Suc D)) frontier st = Inr st' \<Longrightarrow>
    explored g h s D st \<Longrightarrow> distinct frontier \<Longrightarrow> set frontier = on_level h s D \<Longrightarrow> sp_targets st = [] \<Longrightarrow> sp_completed st = [] \<Longrightarrow>
    sp_completed st' = [] \<and>
    (sp_targets st' = [] \<and> no_targets h s (targeted e values target) D (D + n) \<or>
     (\<exists>L. D < L \<and> L \<le> D + n \<and> first_targets g h s (targeted e values target) D L st'))"
proof (induction n arbitrary: D frontier st)
  case 0
  then show ?case by (simp add: no_targets_def)
next
  case (Suc n)
  let ?isT = "targeted e values target"
  show ?case
  proof (cases "frontier = []")
    case True
    then have "\<forall>v. \<not> at_level h s D v" using Suc.prems(4) by (auto simp: on_level_def)
    from no_level_above [OF this] have "no_targets h s ?isT D (D + Suc n)" by (simp add: no_targets_def)
    then show ?thesis using True Suc.prems by simp
  next
    case False
    then obtain mid where mid: "searchLevel g e values s target relationship minimum (int (Suc D)) st frontier = Inr mid"
      and rest: "(if sp_targets mid \<noteq> [] \<or> sp_completed mid \<noteq> [] then Inr mid
        else searchLoop (searchLevel g e values s target relationship minimum) n (int (Suc D) + 1) (sortedNodeIDs (sp_next mid)) mid) = Inr st'"
      using Suc.prems(1) unfolding searchLoop.simps if_not_P [OF False] bindE_Inr_iff by blast
    note step = searchLevel_explored [OF h_def g s m open_start Suc.prems(2-6) mid]
    have none: "no_targets h s ?isT D (Suc D)" if "sp_targets mid = []"
    proof -
      have "{v. at_level h s (Suc D) v \<and> ?isT v} = {}" using step(4) that by simp
      then have "\<not> ?isT v" if "at_level h s (Suc D) v" for v using that by blast
      then show ?thesis unfolding no_targets_def by (metis le_SucE not_less)
    qed
    show ?thesis
    proof (cases "sp_targets mid = []")
      case True
      have "int (Suc D) + 1 = int (Suc (Suc D))" by simp
      then have "searchLoop (searchLevel g e values s target relationship minimum) n (int (Suc (Suc D))) (sortedNodeIDs (sp_next mid)) mid = Inr st'"
        using rest True step(3) by simp
      from Suc.IH [OF this step(1) _ _ True step(3)]
      have IH: "sp_completed st' = [] \<and> (sp_targets st' = [] \<and> no_targets h s ?isT (Suc D) (Suc D + n) \<or>
         (\<exists>L. Suc D < L \<and> L \<le> Suc D + n \<and> first_targets g h s ?isT (Suc D) L st'))" using step(2) by simp
      have "no_targets h s ?isT D (D + Suc n)" if "no_targets h s ?isT (Suc D) (Suc D + n)"
        using none [OF True] that unfolding no_targets_def by (metis Suc_lessI add_Suc_shift order_refl)
      moreover have "first_targets g h s ?isT D L st'" if "first_targets g h s ?isT (Suc D) L st'" for L
        using none [OF True] that unfolding no_targets_def first_targets_def by (metis Suc_lessI order_refl)
      ultimately show ?thesis using IH by (metis Suc_lessD add_Suc_shift)
    next
      case False
      then have "st' = mid" using rest by simp
      moreover have "first_targets g h s ?isT D (Suc D) mid" using False step unfolding first_targets_def by simp
      ultimately show ?thesis using step(3) by (intro conjI disjI2 exI [of _ "Suc D"]) simp_all
    qed
  qed
qed

section \<open>The shortest trails\<close>

definition shortTrail ::
    "memoryGraph \<Rightarrow> ('p, 'q) evaluator \<Rightarrow> row \<Rightarrow> cvalue \<Rightarrow> ('p, 'q) node_pattern \<Rightarrow> ('p, 'q) rel_pattern \<Rightarrow> int \<Rightarrow> int \<Rightarrow>
     steps \<Rightarrow> bool" where
  "shortTrail g e values start target relationship minimum maximum t \<longleftrightarrow>
     minimum \<le> int (length t) \<and> int (length t) \<le> maximum \<and>
     trail g (rp_direction relationship) (passing e values relationship) [] start t \<and>
     targeted e values target (end_node start t)"

lemma firstSearch_explored: "s \<in> nodes_of g \<Longrightarrow> explored g h s 0 (firstSearch s)"
  by (auto simp: explored_def firstSearch_def predecessors_ok_def)

lemma reconstruct_backs:
  assumes g: "graph_indexed lib g" and s: "s \<in> nodes_of g" and st: "explored g h s L st" and v: "v \<in> nodes_of g" "at_level h s L v" "v \<noteq> s"
  shows "reconstructShortestPaths g st (node_key s) (node_key v) =
    map (prolong ([s], [])) (backs g (sp_predecessors st) (node_key s) L v)"
proof -
  have "node_key s \<noteq> node_key v" using node_unique [OF g s v(1)] v(3) by blast
  moreover have "nodeAt g (node_key v) = v" using node_lookup [OF g, of "node_key v" v] v(1) by (simp add: nodeAt_def)
  moreover have "sp_levels st (node_key v) = Some (int L)" using explored_level(1) [OF g st v(1)] v(2) by blast
  ultimately have "reconstructShortestPaths g st (node_key s) (node_key v) = walkBack g (sp_predecessors st) (node_key s) L (node_key v) ([] @ [v]) []"
    by (simp add: reconstructShortestPaths_def)
  then show ?thesis unfolding walkBack_backs [OF g s v(1)] by (simp add: prolong_def)
qed

definition shortestTrails ::
    "memoryGraph \<Rightarrow> ('p, 'q) evaluator \<Rightarrow> row \<Rightarrow> cvalue \<Rightarrow> ('p, 'q) node_pattern \<Rightarrow> ('p, 'q) rel_pattern \<Rightarrow> int \<Rightarrow> int \<Rightarrow>
     steps set" where
  "shortestTrails g e values start target relationship minimum maximum =
     {t. shortTrail g e values start target relationship minimum maximum t \<and>
         (\<forall>u. shortTrail g e values start target relationship minimum maximum u \<longrightarrow> length t \<le> length u)}"

lemma climb_short:
  assumes g: "graph_indexed lib g" and s: "s \<in> nodes_of g"
    and h: "h = hop g (rp_direction relationship) (passing e values relationship)"
    and c: "climb h s 0 s t" "targeted e values target (last_node s t)" "minimum \<le> int (length t)" "int (length t) \<le> maximum"
  shows "shortTrail g e values s target relationship minimum maximum t"
proof -
  have "below g (at_level h s) 0 []" by (simp add: below_def)
  moreover have "at_level h s 0 s" by simp
  ultimately have "trail g (rp_direction relationship) (passing e values relationship) [] s t"
    using climb_trail [OF g, of _ _ s 0 s t "[]"] c(1) s unfolding h by blast
  then show ?thesis using c(2-4) by (simp add: shortTrail_def end_node_last)
qed

lemma short_level:
  assumes h: "h = hop g (rp_direction relationship) (passing e values relationship)"
    and c: "shortTrail g e values s target relationship minimum maximum t" and open_start: "\<not> targeted e values target s"
  obtains m where "0 < m" "m \<le> length t" "at_level h s m (last_node s t)" "targeted e values target (last_node s t)" "int m \<le> maximum"
proof -
  have t: "trail g (rp_direction relationship) (passing e values relationship) [] s t" "targeted e values target (last_node s t)"
    "int (length t) \<le> maximum"
    using c by (simp_all add: shortTrail_def end_node_last)
  have "route h s t" unfolding h by (rule trail_route [OF t(1)])
  moreover have "hops h s 0 s" by simp
  ultimately have "hops h s (0 + length t) (last_node s t)" by (rule route_hops)
  then have "hops h s (length t) (last_node s t)" by simp
  from hops_level [OF this] obtain m where m: "m \<le> length t" "at_level h s m (last_node s t)" by blast
  have "m \<noteq> 0"
  proof
    assume "m = 0"
    then have "last_node s t = s" using m(2) by simp
    then show False using t(2) open_start by simp
  qed
  then show thesis using that m t(2,3) by auto
qed

lemma first_targets_short:
  assumes g: "graph_indexed lib g" and s: "s \<in> nodes_of g" and m: "minimum \<le> 1" and open_start: "\<not> targeted e values target s"
    and h: "h = hop g (rp_direction relationship) (passing e values relationship)"
    and L: "0 < L" "int L \<le> maximum" "first_targets g h s (targeted e values target) 0 L st"
  shows "t \<in> shortestTrails g e values s target relationship minimum maximum \<longleftrightarrow>
    climb h s 0 s t \<and> length t = L \<and> targeted e values target (last_node s t)"
proof -
  let ?short = "shortTrail g e values s target relationship minimum maximum"
  have climbs: "?short u" if "climb h s 0 s u" "length u = L" "targeted e values target (last_node s u)" for u
    using climb_short [OF g s h that(1,3)] that(2) L(1,2) m by simp
  have low: "L \<le> length u" if u: "?short u" for u
  proof (rule ccontr)
    assume "\<not> L \<le> length u"
    moreover obtain k where "0 < k" "k \<le> length u" "at_level h s k (last_node s u)" "targeted e values target (last_node s u)"
      using short_level [OF h u open_start] .
    ultimately show False using L(3) unfolding first_targets_def by (meson le_less_trans not_le)
  qed
  have reached: "\<exists>u. ?short u \<and> length u = L"
  proof -
    have "set (sp_targets st) = node_key ` {v. at_level h s L v \<and> targeted e values target v}" "sp_targets st \<noteq> []"
      using L(3) unfolding first_targets_def by blast+
    then have "{v. at_level h s L v \<and> targeted e values target v} \<noteq> {}" by force
    then obtain v where v: "at_level h s L v" "targeted e values target v" by blast
    from climb_exists [OF v(1)] obtain u where "climb h s 0 s u" "length u = L" "last_node s u = v" by blast
    then show ?thesis using climbs [of u] v(2) by blast
  qed
  show ?thesis
  proof
    assume t: "t \<in> shortestTrails g e values s target relationship minimum maximum"
    then have short: "?short t" by (simp add: shortestTrails_def)
    have l: "length t = L" using t low [OF short] reached unfolding shortestTrails_def by fastforce
    obtain k where k: "0 < k" "k \<le> length t" "at_level h s k (last_node s t)" "targeted e values target (last_node s t)"
      using short_level [OF h short open_start] .
    have "\<not> k < L" using k L(3) unfolding first_targets_def by blast
    then have level: "at_level h s (0 + length t) (last_node s t)" using k l by simp
    have "trail g (rp_direction relationship) (passing e values relationship) [] s t" using short by (simp add: shortTrail_def)
    then have "route h s t" unfolding h by (rule trail_route)
    from route_shortest [OF this _ level] show "climb h s 0 s t \<and> length t = L \<and> targeted e values target (last_node s t)"
      using l k(4) by simp
  next
    assume t: "climb h s 0 s t \<and> length t = L \<and> targeted e values target (last_node s t)"
    then show "t \<in> shortestTrails g e values s target relationship minimum maximum"
      using climbs [of t] low by (simp add: shortestTrails_def)
  qed
qed

lemma no_targets_short:
  assumes h: "h = hop g (rp_direction relationship) (passing e values relationship)" and open_start: "\<not> targeted e values target s"
    and none: "no_targets h s (targeted e values target) 0 (nat maximum)"
  shows "shortestTrails g e values s target relationship minimum maximum = {}"
proof -
  have "\<not> shortTrail g e values s target relationship minimum maximum t" for t
  proof
    assume t: "shortTrail g e values s target relationship minimum maximum t"
    obtain m where "0 < m" "at_level h s m (last_node s t)" "targeted e values target (last_node s t)" "int m \<le> maximum"
      using short_level [OF h t open_start] .
    moreover from this have "m \<le> nat maximum" by linarith
    ultimately show False using none unfolding no_targets_def by blast
  qed
  then show ?thesis by (simp add: shortestTrails_def)
qed

lemma found_trails:
  assumes g: "graph_indexed lib g" and s: "s \<in> nodes_of g" and open_start: "\<not> targeted e values target s"
    and hop: "\<And>u x v. h u x v \<Longrightarrow> v \<in> nodes_of g"
    and L: "0 < L" "first_targets g h s (targeted e values target) 0 L st"
  shows "\<exists>ts. distinct ts \<and> (\<forall>t. t \<in> set ts \<longleftrightarrow> climb h s 0 s t \<and> length t = L \<and> targeted e values target (last_node s t)) \<and>
    concat (map (reconstructShortestPaths g st (node_key s)) (sortedNodeIDs (sp_targets st))) = map (prolong ([s], [])) ts"
proof -
  let ?F = "\<lambda>k. backs g (sp_predecessors st) (node_key s) L (nodeAt g k)"
  let ?ks = "sortedNodeIDs (sp_targets st)"
  have ex: "explored g h s L st" and ks: "set ?ks = node_key ` {v. at_level h s L v \<and> targeted e values target v}"
    using L(2) unfolding first_targets_def by simp_all
  have pred: "predecessors_ok g h s L (sp_predecessors st)" using ex unfolding explored_def by blast
  have inside: "v \<in> nodes_of g" if "at_level h s L v" for v
    using at_level_back [of h s "L - 1" v] that L(1) hop by auto
  have at: "nodeAt g (node_key v) = v" if "v \<in> nodes_of g" for v
    using node_lookup [OF g, of "node_key v" v] that by (simp add: nodeAt_def)
  have target: "nodeAt g k \<in> nodes_of g \<and> node_key (nodeAt g k) = k \<and> at_level h s L (nodeAt g k) \<and> targeted e values target (nodeAt g k)"
    if k: "k \<in> set ?ks" for k
  proof -
    obtain v where v: "k = node_key v" "at_level h s L v" "targeted e values target v" using k unfolding ks by blast
    then show ?thesis using at [OF inside [OF v(2)]] inside [OF v(2)] by simp
  qed
  have F: "distinct (?F k) \<and> (\<forall>t. t \<in> set (?F k) \<longleftrightarrow> climb h s 0 s t \<and> length t = L \<and> last_node s t = nodeAt g k)"
    if k: "k \<in> set ?ks" for k
    by (rule backs_climb [OF g s pred _ order_refl]) (use hop target [OF k] in blast)+
  have each: "reconstructShortestPaths g st (node_key s) k = map (prolong ([s], [])) (?F k)" if "k \<in> set ?ks" for k
  proof -
    note r = target [OF that]
    then have "nodeAt g k \<noteq> s" using open_start by metis
    then show ?thesis using reconstruct_backs [OF g s ex, of "nodeAt g k"] r by metis
  qed
  have "map (reconstructShortestPaths g st (node_key s)) ?ks = map (\<lambda>k. map (prolong ([s], [])) (?F k)) ?ks"
    by (rule map_cong [OF refl]) (rule each)
  then have paths: "concat (map (reconstructShortestPaths g st (node_key s)) ?ks) = map (prolong ([s], [])) (concat (map ?F ?ks))"
    unfolding map_concat map_map comp_def by (rule arg_cong)
  have keys: "node_key (last_node s t) = k" if "k \<in> set ?ks" "t \<in> set (?F k)" for k t
    using F [OF that(1)] target [OF that(1)] that(2) by metis
  have "distinct (concat (map (\<lambda>k. if k \<in> set ?ks then ?F k else []) ?ks))"
  proof (rule distinct_parts [where c = "\<lambda>t. node_key (last_node s t)"])
    show "distinct ?ks" by simp
    show "distinct (if k \<in> set ?ks then ?F k else [])" for k using F [of k] by simp
    show "node_key (last_node s t) = k" if "t \<in> set (if k \<in> set ?ks then ?F k else [])" for k t
    proof (cases "k \<in> set ?ks")
      case True
      then have "t \<in> set (?F k)" using that unfolding if_P [OF True] by blast
      then show ?thesis using keys [OF True] by blast
    next
      case False
      then show ?thesis using that unfolding if_not_P [OF False] by simp
    qed
  qed
  moreover have "map (\<lambda>k. if k \<in> set ?ks then ?F k else []) ?ks = map ?F ?ks" by (rule map_cong) simp_all
  ultimately have "distinct (concat (map ?F ?ks))" by argo
  moreover have "t \<in> set (concat (map ?F ?ks)) \<longleftrightarrow> climb h s 0 s t \<and> length t = L \<and> targeted e values target (last_node s t)" for t
  proof
    assume "t \<in> set (concat (map ?F ?ks))"
    then obtain k where k: "k \<in> set ?ks" "t \<in> set (?F k)" unfolding set_concat set_map by blast
    then show "climb h s 0 s t \<and> length t = L \<and> targeted e values target (last_node s t)" using F [OF k(1)] target [OF k(1)] by metis
  next
    assume t: "climb h s 0 s t \<and> length t = L \<and> targeted e values target (last_node s t)"
    then have level: "at_level h s L (last_node s t)" using climb_level [of h s 0 s t] by simp
    then have k: "node_key (last_node s t) \<in> set ?ks" using t unfolding ks by blast
    then have "t \<in> set (?F (node_key (last_node s t)))" using F [OF k] at [OF inside [OF level]] t by simp
    then show "t \<in> set (concat (map ?F ?ks))" using k unfolding set_concat set_map by blast
  qed
  ultimately show ?thesis using paths by blast
qed

lemma shortestPathsFrom_exact:
  fixes e :: "('p, 'q) evaluator" and relationship :: "('p, 'q) rel_pattern"
  assumes g: "graph_indexed lib g" and s: "s \<in> nodes_of g" and m: "0 \<le> minimum" "minimum \<le> 1"
    and open_start: "minimum = 0 \<or> \<not> targeted e values target s"
    and r: "shortestPathsFrom g e values s target relationship minimum maximum = Inr paths"
  shows "\<exists>ts. distinct ts \<and> set ts = shortestTrails g e values s target relationship minimum maximum \<and> paths = map (prolong ([s], [])) ts"
proof (cases "maximum < 0")
  case True
  then have "shortestTrails g e values s target relationship minimum maximum = {}" by (auto simp: shortestTrails_def shortTrail_def)
  then show ?thesis using r True by (simp add: shortestPathsFrom_def)
next
  case False
  then obtain ok where ok: "(if minimum = 0 then shortestTargetMatches e values s target else Inr False) = Inr ok"
    and rest: "(if ok then Inr [([s], [])]
      else bindE (searchLoop (searchLevel g e values s target relationship minimum) (nat maximum) 1 [node_key s] (firstSearch s)) (\<lambda>st.
        Inr (sp_completed st @ concat (map (reconstructShortestPaths g st (node_key s)) (sortedNodeIDs (sp_targets st)))))) = Inr paths"
    using r unfolding shortestPathsFrom_def if_not_P [OF False] bindE_Inr_iff by blast
  show ?thesis
  proof (cases ok)
    case True
    then have "minimum = 0" "targeted e values target s" using ok by (auto split: if_splits)
    then have "shortTrail g e values s target relationship minimum maximum []" using False by (simp add: shortTrail_def end_node_def)
    then have "shortestTrails g e values s target relationship minimum maximum = {[]}" by (auto simp: shortestTrails_def)
    then show ?thesis using rest True by (intro exI [of _ "[[]]"]) (auto simp: prolong_def)
  next
    case notok: False
    then have open_start: "\<not> targeted e values target s" using ok open_start by (auto split: if_splits)
    let ?h = "hop g (rp_direction relationship) (passing e values relationship)"
    obtain st where st1: "searchLoop (searchLevel g e values s target relationship minimum) (nat maximum) 1 [node_key s] (firstSearch s) = Inr st"
      and "Inr (sp_completed st @ concat (map (reconstructShortestPaths g st (node_key s)) (sortedNodeIDs (sp_targets st)))) =
        (Inr paths :: qerror + path list)"
      using rest unfolding if_not_P [OF notok] bindE_Inr_iff by blast
    then have paths: "paths = sp_completed st @ concat (map (reconstructShortestPaths g st (node_key s)) (sortedNodeIDs (sp_targets st)))"
      by simp
    have "(1 :: int) = int (Suc 0)" by simp
    note st = st1 [unfolded this]
    have "sp_completed st = [] \<and> (sp_targets st = [] \<and> no_targets ?h s (targeted e values target) 0 (0 + nat maximum) \<or>
        (\<exists>L. 0 < L \<and> L \<le> 0 + nat maximum \<and> first_targets g ?h s (targeted e values target) 0 L st))"
      by (rule searchLoop_targets [OF g s m(2) open_start refl st firstSearch_explored [OF s]])
        (simp_all add: on_level_def firstSearch_def)
    then consider (none) "sp_completed st = []" "sp_targets st = []" "no_targets ?h s (targeted e values target) 0 (nat maximum)"
      | (some) L where "sp_completed st = []" "0 < L" "L \<le> nat maximum" "first_targets g ?h s (targeted e values target) 0 L st"
      unfolding add_0 by blast
    then show ?thesis
    proof cases
      case none
      have "shortestTrails g e values s target relationship minimum maximum = {}" by (rule no_targets_short [OF refl open_start none(3)])
      then show ?thesis using none(1,2) paths by (simp add: sortedNodeIDs_def)
    next
      case some
      have hop: "?h u x v \<Longrightarrow> v \<in> nodes_of g" for u x v by (simp add: hop_def)
      have "int L \<le> maximum" using some(3) False by linarith
      note short = first_targets_short [OF g s m(2) open_start refl some(2) this some(4)]
      have "\<exists>ts. distinct ts \<and>
          (\<forall>t. t \<in> set ts \<longleftrightarrow> climb ?h s 0 s t \<and> length t = L \<and> targeted e values target (last_node s t)) \<and>
          concat (map (reconstructShortestPaths g st (node_key s)) (sortedNodeIDs (sp_targets st))) = map (prolong ([s], [])) ts"
        by (rule found_trails [OF g s open_start _ some(2,4)]) (rule hop)
      then obtain ts where ts: "distinct ts"
        "\<forall>t. t \<in> set ts \<longleftrightarrow> climb ?h s 0 s t \<and> length t = L \<and> targeted e values target (last_node s t)"
        "concat (map (reconstructShortestPaths g st (node_key s)) (sortedNodeIDs (sp_targets st))) = map (prolong ([s], [])) ts"
        by (elim exE conjE)
      have "set ts = shortestTrails g e values s target relationship minimum maximum" using short ts(2) by blast
      moreover have "paths = map (prolong ([s], [])) ts" unfolding paths some(1) ts(3) by simp
      ultimately show ?thesis using ts(1) by blast
    qed
  qed
qed

end
