(* ===== verification/Shortest_Pattern.thy ===== *)
theory Shortest_Pattern
  imports Shortest_Search
begin

text \<open>
  \<open>shortestPath\<close> and \<open>allShortestPaths\<close>: what the searches from all start nodes find together, and the choice among it.
\<close>

section \<open>The choice\<close>

lemma least_length:
  fixes f :: "'a \<Rightarrow> nat"
  shows "(\<forall>x \<in> set xs. foldl (\<lambda>m x. if f x < m then f x else m) a xs \<le> f x) \<and> foldl (\<lambda>m x. if f x < m then f x else m) a xs \<le> a \<and>
    foldl (\<lambda>m x. if f x < m then f x else m) a xs \<in> insert a (f ` set xs)"
proof (induction xs arbitrary: a)
  case (Cons x xs)
  show ?case using Cons.IH [of "if f x < a then f x else a"] by auto
qed simp

interpretation path_order: strict_order "\<lambda>a b. pathOrderKey a < pathOrderKey b" "\<lambda>_. True"
  by unfold_locales auto

definition chosen :: "path list \<Rightarrow> bool \<Rightarrow> cvalue" where
  "chosen paths all = (if paths = [] then CNull else if all then CList (map path_value paths) else path_value (hd paths))"

lemma select_chosen:
  assumes "paths \<noteq> []" "distinct paths"
  shows "\<exists>result. distinct result \<and> sorted (map pathOrderKey result) \<and> result \<noteq> [] \<and>
    set result = {p \<in> set paths. \<forall>q \<in> set paths. length (snd p) \<le> length (snd q)} \<and> selectShortestPaths paths all = chosen result all"
proof -
  define m where "m = foldl (\<lambda>m path. if length (snd path) < m then length (snd path) else m) (length (snd (hd paths))) (tl paths)"
  define result where "result = sortStable (\<lambda>a b. pathOrderKey a < pathOrderKey b) (filter (\<lambda>path. length (snd path) = m) paths)"
  have least: "(\<forall>p \<in> set (tl paths). m \<le> length (snd p)) \<and> m \<le> length (snd (hd paths)) \<and>
      m \<in> insert (length (snd (hd paths))) ((\<lambda>p. length (snd p)) ` set (tl paths))"
    unfolding m_def by (rule least_length)
  have split: "set paths = insert (hd paths) (set (tl paths))" using assms(1) by (cases paths) simp_all
  have low: "\<forall>p \<in> set paths. m \<le> length (snd p)" and reached: "\<exists>p \<in> set paths. length (snd p) = m"
    using least unfolding split by auto
  have set: "set result = {p \<in> set paths. length (snd p) = m}" by (simp add: result_def)
  also have "\<dots> = {p \<in> set paths. \<forall>q \<in> set paths. length (snd p) \<le> length (snd q)}" using low reached by force
  finally have "set result = {p \<in> set paths. \<forall>q \<in> set paths. length (snd p) \<le> length (snd q)}" .
  moreover have "result \<noteq> []" using set reached by force
  moreover have "distinct result"
    using assms(2) unfolding result_def by (metis distinct_filter mset_eq_imp_distinct_iff mset_sortStable)
  moreover have "in_order (\<lambda>a b. pathOrderKey a < pathOrderKey b) result"
    unfolding result_def by (rule path_order.sort_in_order) (simp add: list_all_iff)
  then have "sorted (map pathOrderKey result)" by (induction result) (auto simp: list_all_iff not_less)
  moreover have "selectShortestPaths paths all = chosen result all"
    using \<open>result \<noteq> []\<close> unfolding selectShortestPaths_def m_def [symmetric] Let_def result_def [symmetric] chosen_def by simp
  ultimately show ?thesis by blast
qed

section \<open>All starts\<close>

lemma prolong_start: "prolong ([s], []) t = prolong ([s'], []) t' \<longleftrightarrow> s = s' \<and> t = t'"
proof
  assume "prolong ([s], []) t = prolong ([s'], []) t'"
  then have r: "s = s'" "map snd t = map snd t'" "map fst t = map fst t'" by (simp_all add: prolong_def)
  then have "t = t'" by (metis zip_map_fst_snd)
  then show "s = s' \<and> t = t'" using r(1) by simp
qed simp

lemma length_prolong: "length (snd (prolong ([s], []) t)) = length t"
  by (simp add: prolong_def)

lemma bfs_minimum:
  assumes "shortestPatternUsesBFS element" "relationshipBounds e values (hd (el_rels element)) k = Inr (minimum, maximum)"
  shows "minimum \<le> 1"
proof (cases "rp_length (hd (el_rels element))")
  case None
  then show ?thesis using assms(2) by (simp add: relationshipBounds_def)
next
  case (Some len)
  have lower: "pathBound e values ''path lower bound must be a non-negative integer'' 1 (len_lower len) = Inr minimum"
    using assms(2) by (auto simp: relationshipBounds_def Some bindE_Inr_iff)
  have "len_lower len = NilExpression \<or> (\<exists>v n. len_lower len = Literal v \<and> integer v = Some n \<and> n \<le> 1)"
    using assms(1) by (auto simp: shortestPatternUsesBFS_def Some Let_def split: if_splits expression.splits option.splits)
  then show ?thesis using lower by (auto simp: pathBound_def evaluate.simps bindE_Inr_iff split: if_splits)
qed

text \<open>A path that the pattern admits: from a start node a trail within the bounds that ends in a node which the second
  node pattern accepts.\<close>

definition admits ::
    "memoryGraph \<Rightarrow> ('p, 'q) evaluator \<Rightarrow> row \<Rightarrow> ('p, 'q) element \<Rightarrow> int \<Rightarrow> int \<Rightarrow> path \<Rightarrow> bool" where
  "admits g e values element minimum maximum path \<longleftrightarrow>
     (\<exists>s t. startNode g e values (hd (el_nodes element)) s \<and>
        shortTrail g e values s (el_nodes element ! 1) (hd (el_rels element)) minimum maximum t \<and> path = prolong ([s], []) t)"

lemma shortest_among:
  assumes "\<forall>p. p \<in> P \<longleftrightarrow> (\<exists>s t. S s \<and> p = G s t \<and> R s t \<and> (\<forall>u. R s u \<longrightarrow> len t \<le> (len u :: nat)))"
    and l: "\<And>s t. l (G s t) = len t"
  shows "p \<in> P \<and> (\<forall>q \<in> P. l p \<le> l q) \<longleftrightarrow> (\<exists>s t. S s \<and> R s t \<and> p = G s t) \<and> (\<forall>s t. S s \<longrightarrow> R s t \<longrightarrow> l p \<le> len t)"
    "P = {} \<longleftrightarrow> (\<forall>s t. S s \<longrightarrow> \<not> R s t)"
proof -
  have best: "\<exists>u. R s u \<and> len u \<le> len t \<and> (\<forall>w. R s w \<longrightarrow> len u \<le> len w)" if "R s t" for s t
    using ex_has_least_nat [of "R s" t len, OF that] that by blast
  have inside: "\<exists>u. G s u \<in> P \<and> len u \<le> len t" if st: "S s" "R s t" for s t
  proof -
    obtain u where u: "R s u" "len u \<le> len t" "\<forall>w. R s w \<longrightarrow> len u \<le> len w" using best [OF st(2)] by blast
    then have "G s u \<in> P" using assms(1) st(1) by blast
    then show ?thesis using u(2) by blast
  qed
  show "P = {} \<longleftrightarrow> (\<forall>s t. S s \<longrightarrow> \<not> R s t)"
  proof
    assume "P = {}"
    then show "\<forall>s t. S s \<longrightarrow> \<not> R s t" using inside by blast
  next
    assume none: "\<forall>s t. S s \<longrightarrow> \<not> R s t"
    show "P = {}"
    proof (rule equals0I)
      fix p
      assume "p \<in> P"
      then obtain s t where "S s" "R s t" using assms(1) by blast
      then show False using none by blast
    qed
  qed
  show "p \<in> P \<and> (\<forall>q \<in> P. l p \<le> l q) \<longleftrightarrow> (\<exists>s t. S s \<and> R s t \<and> p = G s t) \<and> (\<forall>s t. S s \<longrightarrow> R s t \<longrightarrow> l p \<le> len t)"
  proof (intro iffI conjI allI ballI impI)
    assume p: "p \<in> P \<and> (\<forall>q \<in> P. l p \<le> l q)"
    then show "\<exists>s t. S s \<and> R s t \<and> p = G s t" using assms(1) by blast
    fix s t
    assume st: "S s" "R s t"
    obtain u where u: "G s u \<in> P" "len u \<le> len t" using inside [OF st] by blast
    then have "l p \<le> l (G s u)" using p by blast
    then show "l p \<le> len t" using u(2) by (simp add: l)
  next
    assume p: "(\<exists>s t. S s \<and> R s t \<and> p = G s t) \<and> (\<forall>s t. S s \<longrightarrow> R s t \<longrightarrow> l p \<le> len t)"
    then obtain s t where st: "S s" "R s t" "p = G s t" by blast
    have "\<forall>u. R s u \<longrightarrow> len t \<le> len u" using p st(1) by (simp add: st(3) l)
    then show "p \<in> P" using assms(1) st by blast
    fix q
    assume "q \<in> P"
    then obtain s' t' where "S s'" "R s' t'" "q = G s' t'" using assms(1) by blast
    then show "l p \<le> l q" using p by (simp add: l)
  qed
qed

definition fromStart :: "memoryGraph \<Rightarrow> ('p, 'q) evaluator \<Rightarrow> row \<Rightarrow> ('p, 'q) element \<Rightarrow> int \<Rightarrow> int \<Rightarrow> cvalue \<Rightarrow> path list" where
  "fromStart g e values element minimum maximum s =
     (case shortestPathsFrom g e values s (el_nodes element ! 1) (hd (el_rels element)) minimum maximum of Inl _ \<Rightarrow> [] | Inr paths \<Rightarrow> paths)"

lemma shortest_from_all:
  fixes e :: "('p, 'q) evaluator" and element :: "('p, 'q) element"
  assumes g: "graph_indexed lib g" and m: "0 \<le> minimum" "minimum \<le> 1" and starts: "distinct starts"
    "\<forall>s \<in> set starts. s \<in> nodes_of g \<and> (minimum = 0 \<or> \<not> targeted e values (el_nodes element ! 1) s)"
    and r: "mapE (\<lambda>s. shortestPathsFrom g e values s (el_nodes element ! 1) (hd (el_rels element)) minimum maximum) starts = Inr parts"
  shows "distinct (concat parts) \<and> (\<forall>p. p \<in> set (concat parts) \<longleftrightarrow> (\<exists>s t. s \<in> set starts \<and> p = prolong ([s], []) t \<and>
    t \<in> shortestTrails g e values s (el_nodes element ! 1) (hd (el_rels element)) minimum maximum))"
proof -
  let ?from = "fromStart g e values element minimum maximum"
  let ?F = "\<lambda>s. if s \<in> set starts then ?from s else []"
  let ?best = "\<lambda>s. shortestTrails g e values s (el_nodes element ! 1) (hd (el_rels element)) minimum maximum"
  have all: "list_all2 (\<lambda>s part. shortestPathsFrom g e values s (el_nodes element ! 1) (hd (el_rels element)) minimum maximum = Inr part) starts parts"
    using r unfolding mapE_Inr_iff .
  then have "list_all2 (\<lambda>s part. part = ?from s) starts parts" by (rule list_all2_mono) (simp add: fromStart_def)
  then have "parts = map ?from starts" by (induction rule: list_all2_induct) simp_all
  also have "\<dots> = map ?F starts" by (rule map_cong) simp_all
  finally have parts: "parts = map ?F starts" .
  have exact: "\<exists>ts. distinct ts \<and> set ts = ?best s \<and> ?F s = map (prolong ([s], [])) ts" if s: "s \<in> set starts" for s
  proof -
    obtain i where i: "i < length starts" "starts ! i = s" using s unfolding in_set_conv_nth by blast
    define part where "part = parts ! i"
    have part: "shortestPathsFrom g e values s (el_nodes element ! 1) (hd (el_rels element)) minimum maximum = Inr part"
      using list_all2_nthD [OF all i(1)] unfolding i(2) part_def .
    then have "?F s = part" using s by (simp add: fromStart_def)
    moreover have "s \<in> nodes_of g" "minimum = 0 \<or> \<not> targeted e values (el_nodes element ! 1) s" using starts(2) s by blast+
    ultimately show ?thesis using shortestPathsFrom_exact [OF g _ m _ part] by blast
  qed
  have F: "distinct (?F s) \<and> (\<forall>p. p \<in> set (?F s) \<longleftrightarrow> s \<in> set starts \<and> (\<exists>t. p = prolong ([s], []) t \<and> t \<in> ?best s))" for s
  proof (cases "s \<in> set starts")
    case True
    from exact [OF this] obtain ts where ts: "distinct ts" "set ts = ?best s" "?F s = map (prolong ([s], [])) ts" by (elim exE conjE)
    have "distinct (?F s)" unfolding ts(3) using ts(1) by (simp add: distinct_map inj_on_def prolong_start)
    moreover have "p \<in> set (?F s) \<longleftrightarrow> (\<exists>t. p = prolong ([s], []) t \<and> t \<in> ?best s)" for p unfolding ts(3) ts(2) [symmetric] by auto
    ultimately show ?thesis using True by blast
  qed simp
  have "distinct (concat parts)" unfolding parts
  proof (rule distinct_parts [where c = "\<lambda>p. hd (fst p)", OF starts(1)])
    show "distinct (?F s)" for s using F by blast
    show "hd (fst p) = s" if p: "p \<in> set (?F s)" for s p
    proof -
      obtain t where "p = prolong ([s], []) t" using F p by blast
      then show ?thesis by (simp add: prolong_def)
    qed
  qed
  moreover have "p \<in> set (concat parts) \<longleftrightarrow> (\<exists>s t. s \<in> set starts \<and> p = prolong ([s], []) t \<and> t \<in> ?best s)" for p
    unfolding parts set_concat set_map using F by blast
  ultimately show ?thesis by blast
qed

lemma shortest_pattern:
  assumes g: "graph_indexed (ev_library e) g" and bfs: "shortestPatternUsesBFS element"
    and bounds: "relationshipBounds e values (hd (el_rels element)) (int (length (mg_edges g))) = Inr (minimum, maximum)"
    and safe: "\<forall>expected. expectedProperties e values (np_properties (hd (el_nodes element))) = Inr expected \<longrightarrow> index_safe expected"
    and starts: "\<forall>s. startNode g e values (hd (el_nodes element)) s \<longrightarrow>
      s \<in> nodes_of g \<and> (minimum = 0 \<or> \<not> targeted e values (el_nodes element ! 1) s)"
    and r: "evaluateShortestPattern g e element values all = Inr v"
  shows "\<exists>paths. distinct paths \<and> sorted (map pathOrderKey paths) \<and>
    set paths = {p. admits g e values element minimum maximum p \<and>
      (\<forall>q. admits g e values element minimum maximum q \<longrightarrow> length (snd p) \<le> length (snd q))} \<and> v = chosen paths all"
proof -
  obtain cs parts where cs: "candidateNodes g e values (hd (el_nodes element)) = Inr cs"
    and parts: "mapE (\<lambda>s. shortestPathsFrom g e values s (el_nodes element ! 1) (hd (el_rels element)) minimum maximum) cs = Inr parts"
    and v: "(if concat parts = [] then CNull else selectShortestPaths (concat parts) all) = v"
    using r bfs bounds unfolding evaluateShortestPattern_def Let_def by (auto simp: bindE_Inr_iff)
  note start = candidates_start [OF g cs safe]
  have "\<forall>s \<in> set cs. s \<in> nodes_of g \<and> (minimum = 0 \<or> \<not> targeted e values (el_nodes element ! 1) s)" using start starts by blast
  from shortest_from_all [OF g relationshipBounds_nonneg(1) [OF bounds] bfs_minimum [OF bfs bounds] _ this parts] start
  have all: "distinct (concat parts)" "\<forall>p. p \<in> set (concat parts) \<longleftrightarrow> (\<exists>s t. startNode g e values (hd (el_nodes element)) s \<and>
      p = prolong ([s], []) t \<and> t \<in> shortestTrails g e values s (el_nodes element ! 1) (hd (el_rels element)) minimum maximum)"
    by blast+
  note best = shortest_among [of "set (concat parts)" "startNode g e values (hd (el_nodes element))" "\<lambda>s. prolong ([s], [])"
      "\<lambda>s. shortTrail g e values s (el_nodes element ! 1) (hd (el_rels element)) minimum maximum" length "\<lambda>p. length (snd p)",
      OF all(2) [unfolded shortestTrails_def mem_Collect_eq] length_prolong]
  have least: "p \<in> set (concat parts) \<and> (\<forall>q \<in> set (concat parts). length (snd p) \<le> length (snd q)) \<longleftrightarrow>
      admits g e values element minimum maximum p \<and> (\<forall>q. admits g e values element minimum maximum q \<longrightarrow> length (snd p) \<le> length (snd q))" for p
    unfolding best(1) admits_def using length_prolong by metis
  show ?thesis
  proof (cases "concat parts = []")
    case True
    then have "\<not> admits g e values element minimum maximum p" for p using best(2) unfolding admits_def by simp
    then show ?thesis using v True by (intro exI [of _ "[]"]) (simp add: chosen_def)
  next
    case False
    from select_chosen [OF False all(1), of all] obtain result where res: "distinct result" "sorted (map pathOrderKey result)"
      "set result = {p \<in> set (concat parts). \<forall>q \<in> set (concat parts). length (snd p) \<le> length (snd q)}"
      "selectShortestPaths (concat parts) all = chosen result all"
      by (elim exE conjE)
    have best_set: "set result = {p. admits g e values element minimum maximum p \<and>
        (\<forall>q. admits g e values element minimum maximum q \<longrightarrow> length (snd p) \<le> length (snd q))}"
      unfolding res(3) using least by blast
    have "v = chosen result all" using v res(4) unfolding if_not_P [OF False] by simp
    with best_set res(1,2) show ?thesis by blast
  qed
qed

section \<open>The property\<close>

text \<open>The pattern \<open>(a:Page {name: 'one'})-[:LINK*1..3]-(c)\<close> to the target \<open>c\<close>, which is one of the nodes.\<close>

definition element_to :: "(unit, unit) node_pattern \<Rightarrow> (unit, unit) element" where
  "element_to target =
     \<lparr>el_nodes = [hd (el_nodes (pp_element sample_pattern)), target],
      el_rels = [(hd (el_rels (pp_element sample_pattern)))\<lparr>rp_variable := []\<rparr>]\<rparr>"

definition second_page :: "(unit, unit) node_pattern" where
  "second_page = \<lparr>np_variable = ''c'', np_labels = [''Page''], np_properties = MapLiteral [(''name'', Literal (CString ''two''))]\<rparr>"

text \<open>C24: shortestPath and allShortestPaths are exact on the patterns that the breadth-first search serves: what the
  search finds is, among all paths from a start node of the pattern along a trail within the bounds to a node of its
  second node pattern, every path of the least length exactly once, in the order of the keys of its relationships;
  shortestPath gives the first of them, allShortestPaths all, and both null when there is no such path. It is about
  evaluations without an error, and needs start nodes that are nodes of the graph, that the index finds (no list or
  map among the values asked for), and, when the lower bound is 1, that the second node pattern does not accept: a
  closed trail may be missed, see the findings.\<close>

theorem shortest_pattern_exact:
  assumes "graph_input_ok nodes edges" "g = newMemoryGraph (ev_library e) nodes edges" "shortestPatternUsesBFS element"
    "relationshipBounds e values (hd (el_rels element)) (int (length (mg_edges g))) = Inr (minimum, maximum)"
    "\<forall>expected. expectedProperties e values (np_properties (hd (el_nodes element))) = Inr expected \<longrightarrow> index_safe expected"
    "\<forall>s. startNode g e values (hd (el_nodes element)) s \<longrightarrow>
       s \<in> set nodes \<and> (minimum = 0 \<or> shortestTargetMatches e values s (el_nodes element ! 1) \<noteq> Inr True)"
    "evaluateShortestPattern g e element values all = Inr v"
  shows "\<exists>paths. distinct paths \<and> sorted (map pathOrderKey paths) \<and>
    set paths = {p. admits g e values element minimum maximum p \<and>
      (\<forall>q. admits g e values element minimum maximum q \<longrightarrow> length (snd p) \<le> length (snd q))} \<and>
    v = (if paths = [] then CNull else if all then CList (map path_value paths) else path_value (hd paths))"
proof -
  have g: "graph_indexed (ev_library e) g" "nodes_of g = set nodes"
    using newMemoryGraph_indexed [of nodes edges] assms(1,2) by (simp_all add: graph_input_ok_def)
  show ?thesis using shortest_pattern [OF g(1) assms(3-5) _ assms(7)] assms(6) unfolding g(2) chosen_def by blast
qed

lemma element_facts:
  "shortestPatternUsesBFS (element_to second_page)"
  "relationshipBounds (sample_evaluator sample_library) Map.empty (hd (el_rels (element_to second_page))) (int (length (mg_edges sample_graph))) =
     Inr (1, 3)"
  "evaluateShortestPattern sample_graph (sample_evaluator sample_library) (element_to second_page) Map.empty True =
     Inr (CList [CPath [sample_nodes ! 0, sample_nodes ! 1] [sample_edges ! 0]])"
  "list_all (\<lambda>s. nodeMatchesExpected s [''Page''] [(''name'', CString ''one'')] \<longrightarrow>
     (case shortestTargetMatches (sample_evaluator sample_library) Map.empty s second_page of Inr b \<Rightarrow> \<not> b | Inl _ \<Rightarrow> True)) sample_nodes"
  by code_simp+

theorem shortest_pattern_exact_witness:
  "\<exists>paths. distinct paths \<and> set paths = {p. admits sample_graph (sample_evaluator sample_library) Map.empty (element_to second_page) 1 3 p \<and>
      (\<forall>q. admits sample_graph (sample_evaluator sample_library) Map.empty (element_to second_page) 1 3 q \<longrightarrow>
        length (snd p) \<le> length (snd q))} \<and>
    map path_value paths = [CPath [sample_nodes ! 0, sample_nodes ! 1] [sample_edges ! 0]]"
proof -
  let ?e = "sample_evaluator sample_library" and ?x = "element_to second_page"
  have start: "hd (el_nodes ?x) = hd (el_nodes (pp_element sample_pattern))" "el_nodes ?x ! 1 = second_page" by (simp_all add: element_to_def)
  have unbound: "np_labels (hd (el_nodes (pp_element sample_pattern))) = [''Page'']" by (simp add: sample_pattern_def)
  have nodes: "nodes_of sample_graph = set sample_nodes"
    using newMemoryGraph_indexed(2) [of sample_nodes sample_edges] sample_facts(1) by (simp add: graph_input_ok_def)
  have starts: "\<forall>s. startNode sample_graph ?e Map.empty (hd (el_nodes ?x)) s \<longrightarrow>
      s \<in> set sample_nodes \<and> ((1 :: int) = 0 \<or> shortestTargetMatches ?e Map.empty s (el_nodes ?x ! 1) \<noteq> Inr True)"
  proof (intro allI impI conjI disjI2 notI)
    fix s
    assume s: "startNode sample_graph ?e Map.empty (hd (el_nodes ?x)) s"
    then have m: "nodeMatchesExpected s [''Page''] [(''name'', CString ''one'')]" "s \<in> nodes_of sample_graph"
      unfolding startNode_def start(1) sample_facts(3) unbound by (simp_all split: if_splits)
    then show "s \<in> set sample_nodes" unfolding nodes by blast
    assume "shortestTargetMatches ?e Map.empty s (el_nodes ?x ! 1) = Inr True"
    then show False using element_facts(4) m unfolding start(2) nodes list_all_iff by fastforce
  qed
  have safe: "\<forall>expected. expectedProperties ?e Map.empty (np_properties (hd (el_nodes ?x))) = Inr expected \<longrightarrow> index_safe expected"
    unfolding start(1) sample_facts(3) by (simp add: index_safe_def)
  have "sample_graph = newMemoryGraph (ev_library ?e) sample_nodes sample_edges" using sample_facts(2) by simp
  from shortest_pattern_exact [OF sample_facts(1) this element_facts(1,2) safe starts element_facts(3)]
  obtain paths where "distinct paths" "set paths = {p. admits sample_graph ?e Map.empty ?x 1 3 p \<and>
      (\<forall>q. admits sample_graph ?e Map.empty ?x 1 3 q \<longrightarrow> length (snd p) \<le> length (snd q))}"
    "CList [CPath [sample_nodes ! 0, sample_nodes ! 1] [sample_edges ! 0]] =
       (if paths = [] then CNull else if True then CList (map path_value paths) else path_value (hd paths))"
    by (elim exE conjE)
  then show ?thesis by (intro exI [of _ paths]) (simp split: if_splits)
qed

text \<open>A closed trail is missed: from the first page back to itself, along the cycle.\<close>

lemma closed_trail_missed:
  "evaluateShortestPattern sample_graph (sample_evaluator sample_library) (element_to (hd (el_nodes (pp_element sample_pattern))))
     [''a'' \<mapsto> hd sample_nodes] True = Inr CNull"
  "shortTrail sample_graph (sample_evaluator sample_library) [''a'' \<mapsto> hd sample_nodes] (hd sample_nodes)
     (hd (el_nodes (pp_element sample_pattern))) (hd (el_rels (element_to second_page))) 1 3
     [(sample_edges ! 0, sample_nodes ! 1), (sample_edges ! 1, sample_nodes ! 2), (sample_edges ! 2, sample_nodes ! 0)]"
  by code_simp+

end
