(* ===== verification/Spec2Isabelle.thy ===== *)
theory Spec2Isabelle
  imports Temporal_Properties Codec_Properties Store_Properties UUID Store_Read Query_Types Match_Properties Shortest_Pattern
begin

text \<open>
  Sheets is a graph database with temporal values, kept in one SQLite file and queried with Cypher.  This
  development models its temporal values (\<open>internal/domain/temporal\<close>), the codec of its property values and
  labels (\<open>internal/store/codec.go\<close>), the writer and the reader of its versioned store (\<open>internal/store/write.go\<close>
  and \<open>read.go\<close> with the schema of \<open>internal/store/migrations\<close>), the evaluator of the query engine with its
  projections (\<open>internal/engine/eval.go\<close>, \<open>aggregate.go\<close>, \<open>query.go\<close>), and its pattern matching
  (\<open>match.go\<close>, \<open>graph.go\<close>).

  Data of the code are records and datatypes of the same name and shape; 64-bit integers are \<open>int\<close> with the
  range or the wrap-around written out (\<open>in64\<close>, \<open>i64\<close>); strings and byte slices are \<open>string\<close>; an error is
  the \<open>Inl\<close> of a sum, with the sentinel that the code wraps; a stateful operation takes the transaction and
  gives its result with the transaction it leaves.

  Temporal values.
  \<^item> \<open>Prelude\<close>: sums, ranges, digits, splitting of texts, and the lemmas on them that all theories share.
  \<^item> \<open>Temporal_Arith\<close> (\<open>errors.go\<close>), \<open>Civil_Date\<close>, \<open>Calendar_Facts\<close>, \<open>Date_Ops\<close>, \<open>Date_Fields\<close>, \<open>Date_Arith\<close>,
    \<open>Date_Text\<close> (\<open>date.go\<close>): the proleptic calendar, its selectors, arithmetic and text forms.
  \<^item> \<open>Clock_Time\<close> (\<open>time.go\<close>), \<open>Duration_Core\<close> (\<open>duration.go\<close>), \<open>Date_Time\<close>, \<open>Date_Time_Facts\<close>,
    \<open>Date_Time_Text\<close> (\<open>datetime.go\<close>), \<open>Truncation\<close> (\<open>truncate.go\<close>), \<open>Temporal_Binary\<close> (\<open>binary.go\<close>);
    \<open>Duration_Text\<close>: the text form of a duration reads back as the same duration.
  \<^item> \<open>Temporal_Types\<close>: the operations on temporal values give values in range.
  \<^item> \<open>Temporal_Properties\<close>: day numbers and dates are order isomorphic; selectors, sums and truncations are
    exact; texts and binary forms read back; a named date-time takes the earliest instant of an overlap.

  Codec.
  \<^item> \<open>Text_Limits\<close> (\<open>limits.go\<close>), \<open>Text_Codecs\<close> (base64, hexadecimal and JSON strings as Go's library writes
    them), \<open>Go_Time\<close> (\<open>time.Time\<close> in a property), \<open>Codec\<close>, \<open>Codec_Limits\<close>, \<open>Label_Codec\<close> (\<open>codec.go\<close>).
  \<^item> \<open>Codec_Facts\<close>, \<open>Codec_Roundtrip\<close>, \<open>Codec_Recode\<close>, \<open>Codec_Limits_Facts\<close>, \<open>Codec_Properties\<close>: encoding and
    decoding are inverse on admitted values, predicted sizes are exact, the budget check before encoding
    admits what the encoder accounts.

  Store.
  \<^item> \<open>Version_Table\<close>, \<open>Child_Search\<close>, \<open>Store_Schema\<close>: version tables and the statements on them with the
    constraints and triggers that guard them; the breadth-first search for CHILD paths, whose termination
    measure is twice the number of unseen targets plus the length of the queue.
  \<^item> \<open>Store_Write\<close>: \<open>WriteTx\<close> and its operations; \<open>Store_Commit\<close>: \<open>Store.Write\<close>, and the transactions that
    public operations reach.
  \<^item> \<open>Entity_Facts\<close>, \<open>Store_Invariant\<close>, \<open>Store_Steps\<close>, \<open>Transaction\<close>, \<open>Node_Mutations\<close>, \<open>Edge_Mutations\<close>,
    \<open>Delete_Node\<close>, \<open>Commit_Facts\<close>: the invariant of the database between statements, that no statement of
    the writer violates a constraint, and what each operation does to the current graph.
  \<^item> \<open>Graph_Steps\<close>: the abstract graph of stored columns, with one step for every mutation and its arguments, which the
    operation of the transaction takes.
  \<^item> \<open>Store_Samples\<close>, \<open>Store_Properties\<close>: committed revisions never change, every write keeps the store sound,
    operations refine the abstract graph, a failed mutation discards its batch.
  \<^item> \<open>UUID\<close>: the identifiers issued in a batch increase and stay distinct; \<open>Store_Read\<close>, \<open>Revision_Cursor\<close>
    (\<open>read.go\<close>, \<open>revision_cursor.go\<close>): snapshots, and that the pages of the revision history miss none.

  Query engine.
  \<^item> \<open>Go_Float\<close>: the double precision numbers as rationals with a sign and the special values; every operation
    rounds its exact result half to even (no fused multiply-add).
  \<^item> \<open>Query_Value\<close>, \<open>Query_Order\<close>: values, their equality, comparison, keys and the order of ORDER BY, with
    the locale of three-way orders and its interpretation; \<open>Projection\<close> (\<open>query.go\<close>): DISTINCT, sorting, SKIP, LIMIT.
  \<^item> \<open>Query_Arith\<close>, \<open>Query_Functions\<close>, \<open>Query_Aggregate\<close>, \<open>Query_Eval\<close>: operators, functions and aggregates on
    evaluated arguments, and the evaluator over the expressions of \<open>internal/cypher/ast.go\<close>.
  \<^item> \<open>Query_Types\<close>: every expression evaluates to a well-formed value or an error.
  \<^item> \<open>Graph_Match\<close>: the graph in memory and its indexes, the candidates of a node pattern, the walk along a
    relationship pattern (its recursion is on the steps left to the maximum), MATCH and OPTIONAL MATCH.
  \<^item> \<open>Graph_Index\<close>: building a graph keeps its indexes exact, so that an index lookup is a scan; \<open>Match_Walk\<close>: a walk
    visits the end of every trail once; \<open>Match_Exact\<close>: the rows of a pattern enumerate its matches;
    \<open>Match_Properties\<close>: the properties of MATCH.
  \<^item> \<open>Shortest_Path\<close>: shortestPath and allShortestPaths with their breadth-first search (walking back, the level of
    the target is enough fuel, since a step back leads one level down); \<open>Shortest_Levels\<close>, \<open>Shortest_Visits\<close>,
    \<open>Shortest_Search\<close>: levels are distances, and the search finds the shortest trails; \<open>Shortest_Pattern\<close>: the property.

  Assumed of code that is not in the repository: a time zone location is a function from instants to offsets
  (a parameter, never axiomatised); the record \<open>library\<close> holds the parts of Go's library that the evaluator calls and
  this model does not read: decimal forms of floats, powers and roots, regular expressions, case mapping.  SHA-256 and
  what the machine makes of a float that no integer can hold are parameters too.  SQLite statements behave as their documentation says; a statement gives
  the new tables or the constraint that aborted it.

  Not modelled: the derived label and property index tables and the checks of the schema on storage classes, JSON
  and byte limits of stored columns; the token passes over JSON text and the reflective paths of the codec;
  SQLite connections, busy retries, cancelled contexts and panics; opening, migrating and checking a
  database file; filtered listings and views; validation, planning and streaming of queries, the clauses that change
  the graph and the budgets of rows and path expansions; the functions that build temporal values from components;
  the Cypher front end, the command line and the terminal interface.
\<close>

end
